(* ===== verification/Rmdb_Prelude.thy ===== *)
theory Rmdb_Prelude
  imports Main "HOL-Library.Word"
begin

unbundle bit_operations_syntax

text \<open>
  Shared material of the development: the machine types of \<^verbatim>\<open>common/config.h\<close>, the errors of
  \<^verbatim>\<open>errors.h\<close>, the sequencing of fallible state-changing code, byte buffers with
  \<^verbatim>\<open>memcpy\<close>, and the little-endian encoding of C integers.
\<close>

named_theorems mem_simps \<open>reading a byte buffer after writing it\<close>

section \<open>Types and constants of common/config.h and defs.h\<close>

type_synonym u8 = "8 word"
type_synonym bytes = "u8 list"
type_synonym page_id_t = int
type_synonym frame_id_t = nat
type_synonym txn_id_t = int
type_synonym lsn_t = int

definition INVALID_PAGE_ID :: int where "INVALID_PAGE_ID = -1"
definition INVALID_TXN_ID :: int where "INVALID_TXN_ID = -1"
definition INVALID_LSN :: int where "INVALID_LSN = -1"
definition PAGE_SIZE :: nat where "PAGE_SIZE = 4096"
definition LOG_BUFFER_SIZE :: int where "LOG_BUFFER_SIZE = 1024 * int PAGE_SIZE"
definition LOG_FILE_NAME :: string where "LOG_FILE_NAME = ''db.log''"

record Rid =
  page_no :: page_id_t
  slot_no :: int

datatype ColType = TYPE_INT | TYPE_FLOAT | TYPE_BIGINT | TYPE_STRING | TYPE_DATETIME

fun coltype2str :: "ColType \<Rightarrow> string" where
  "coltype2str TYPE_INT = ''INT''"
| "coltype2str TYPE_FLOAT = ''FLOAT''"
| "coltype2str TYPE_STRING = ''STRING''"
| "coltype2str TYPE_BIGINT = ''BIGINT''"
| "coltype2str TYPE_DATETIME = ''DATETIME''"

text \<open>\<^verbatim>\<open>static_cast<int>\<close> of the enumeration: the declaration order of \<^verbatim>\<open>ColType\<close>.\<close>

fun coltype_code :: "ColType \<Rightarrow> int" where
  "coltype_code TYPE_INT = 0"
| "coltype_code TYPE_FLOAT = 1"
| "coltype_code TYPE_BIGINT = 2"
| "coltype_code TYPE_STRING = 3"
| "coltype_code TYPE_DATETIME = 4"

definition coltype_of_code :: "int \<Rightarrow> ColType option" where
  "coltype_of_code c =
     (if c = 0 then Some TYPE_INT else if c = 1 then Some TYPE_FLOAT
      else if c = 2 then Some TYPE_BIGINT else if c = 3 then Some TYPE_STRING
      else if c = 4 then Some TYPE_DATETIME else None)"

section \<open>Decimal rendering (std::to_string)\<close>

fun digit_char :: "nat \<Rightarrow> char" where
  "digit_char d = char_of (48 + d)"

fun nat_to_string :: "nat \<Rightarrow> string" where
  "nat_to_string n =
     (if n < 10 then [digit_char n] else nat_to_string (n div 10) @ [digit_char (n mod 10)])"

declare nat_to_string.simps [simp del]

definition to_string :: "int \<Rightarrow> string" where
  "to_string i = (if i < 0 then CHR ''-'' # nat_to_string (nat (- i)) else nat_to_string (nat i))"

section \<open>The errors of errors.h\<close>

datatype rmdb_error =
    InternalError string
  | UnixError
  | FileNotOpenError int
  | FileNotClosedError string
  | FileExistsError string
  | FileNotFoundError string
  | RecordNotFoundError int int
  | InvalidRecordSizeError int
  | InvalidColLengthError int
  | IndexEntryNotFoundError
  | IndexEntryNotUniqueError
  | DatabaseNotFoundError string
  | DatabaseExistsError string
  | TableNotFoundError string
  | TableExistsError string
  | ColumnNotFoundError string
  | IndexNotFoundError string "string list"
  | IndexExistsError string "string list"
  | InvalidValueCountError
  | StringOverflowError
  | IntOverflowError string
  | FloatOverflowError string
  | BigIntOverflowError string
  | DateTimeFormatError string
  | AggregateParamFormatError string
  | IncompatibleTypeError string string
  | CastTypeError string string
  | AmbiguousColumnError string
  | PageNotExistError string int
  | UnreachableCodeError

text \<open>
  The constructors of \<^verbatim>\<open>txn_defs.h\<close>'s \<^verbatim>\<open>AbortReason\<close>, and everything that can end an
  operation early: an \<^verbatim>\<open>RMDBError\<close>, a \<^verbatim>\<open>TransactionAbortException\<close>, a failed
  \<^verbatim>\<open>assert\<close>, a dereferenced null pointer, \<^verbatim>\<open>std::out_of_range\<close> from \<^verbatim>\<open>at\<close> or an access
  outside an array, or a thread that locks a \<^verbatim>\<open>std::mutex\<close> it already holds. \<open>OutOfFuel\<close> is no
  outcome of the program: it marks a bounded unrolling of a loop that was cut off.
\<close>

datatype AbortReason = LOCK_ON_SHIRINKING | UPGRADE_CONFLICT | DEADLOCK_PREVENTION | GET_LOCK_FAILED

datatype exc =
    Throw rmdb_error
  | TransactionAbortException txn_id_t AbortReason
  | AssertFail
  | NullDeref
  | OutOfRange
  | InvalidArgument
  | SelfDeadlock
  | OutOfFuel

section \<open>Fallible code over a state\<close>

text \<open>
  A C++ exception does not undo the writes made before it was thrown, so an operation returns the
  state it has reached in both cases.
\<close>

type_synonym ('s, 'a) stm = "'s \<Rightarrow> (exc + 'a) \<times> 's"

definition bindE :: "('s, 'a) stm \<Rightarrow> ('a \<Rightarrow> ('s, 'b) stm) \<Rightarrow> ('s, 'b) stm" where
  "bindE f g s = (case f s of (Inl e, s') \<Rightarrow> (Inl e, s') | (Inr x, s') \<Rightarrow> g x s')"

definition returnE :: "'a \<Rightarrow> ('s, 'a) stm" where
  "returnE x s = (Inr x, s)"

definition throwE :: "exc \<Rightarrow> ('s, 'a) stm" where
  "throwE e s = (Inl e, s)"

definition assertE :: "bool \<Rightarrow> ('s, unit) stm" where
  "assertE b s = (if b then (Inr (), s) else (Inl AssertFail, s))"

fun mapME :: "('a \<Rightarrow> ('s, 'b) stm) \<Rightarrow> 'a list \<Rightarrow> ('s, 'b list) stm" where
  "mapME f [] = returnE []"
| "mapME f (x # xs) = bindE (f x) (\<lambda>y. bindE (mapME f xs) (\<lambda>ys. returnE (y # ys)))"

section \<open>Byte buffers\<close>

text \<open>\<^verbatim>\<open>memcpy(m + off, src, n)\<close> with \<open>n\<close> the length of \<open>src\<close>, and the \<open>n\<close> bytes at \<open>m + off\<close>.\<close>

definition mem_put :: "nat \<Rightarrow> 'a list \<Rightarrow> 'a list \<Rightarrow> 'a list" where
  "mem_put off src m = take off m @ src @ drop (off + length src) m"

definition mem_get :: "nat \<Rightarrow> nat \<Rightarrow> 'a list \<Rightarrow> 'a list" where
  "mem_get off n m = take n (drop off m)"

section \<open>C integers in memory\<close>

text \<open>Little-endian two's complement, as on the x86-64 target: \<open>n\<close> bytes of \<open>v\<close>.\<close>

fun enc_le :: "nat \<Rightarrow> int \<Rightarrow> bytes" where
  "enc_le 0 v = []"
| "enc_le (Suc n) v = word_of_int v # enc_le n (v div 256)"

fun dec_u :: "bytes \<Rightarrow> int" where
  "dec_u [] = 0"
| "dec_u (b # bs) = uint b + 256 * dec_u bs"

definition dec_s :: "bytes \<Rightarrow> int" where
  "dec_s bs = (let u = dec_u bs; m = 256 ^ length bs in if m \<le> 2 * u then u - m else u)"

definition rd_i32 :: "nat \<Rightarrow> bytes \<Rightarrow> int" where
  "rd_i32 off m = dec_s (mem_get off 4 m)"

definition wr_i32 :: "nat \<Rightarrow> int \<Rightarrow> bytes \<Rightarrow> bytes" where
  "wr_i32 off v m = mem_put off (enc_le 4 v) m"

definition in_i32 :: "int \<Rightarrow> bool" where
  "in_i32 v \<longleftrightarrow> - (2 ^ 31) \<le> v \<and> v < 2 ^ 31"

definition in_i64 :: "int \<Rightarrow> bool" where
  "in_i64 v \<longleftrightarrow> - (2 ^ 63) \<le> v \<and> v < 2 ^ 63"

definition in_u32 :: "int \<Rightarrow> bool" where
  "in_u32 v \<longleftrightarrow> 0 \<le> v \<and> v < 2 ^ 32"

definition in_u64 :: "int \<Rightarrow> bool" where
  "in_u64 v \<longleftrightarrow> 0 \<le> v \<and> v < 2 ^ 64"

text \<open>Conversion to a 32-bit \<^verbatim>\<open>int\<close>, which keeps the low 32 bits.\<close>

definition wrap_i32 :: "int \<Rightarrow> int" where
  "wrap_i32 v = (v + 2 ^ 31) mod 2 ^ 32 - 2 ^ 31"

text \<open>The characters of a \<^verbatim>\<open>std::string\<close> as bytes.\<close>

definition str_bytes :: "string \<Rightarrow> bytes" where
  "str_bytes = map (\<lambda>c. word_of_nat (of_char c))"

definition bytes_str :: "bytes \<Rightarrow> string" where
  "bytes_str = map (\<lambda>w. char_of (unat w))"

section \<open>Lemmas: sequencing\<close>

lemma bindE_returnE [simp]: "bindE (returnE x) g s = g x s"
  by (simp add: bindE_def returnE_def)

lemma bindE_throwE [simp]: "bindE (throwE e) g s = (Inl e, s)"
  by (simp add: bindE_def throwE_def)

lemma bindE_Inr: "f s = (Inr x, s') \<Longrightarrow> bindE f g s = g x s'"
  by (simp add: bindE_def)

lemma bindE_Inl: "f s = (Inl e, s') \<Longrightarrow> bindE f g s = (Inl e, s')"
  by (simp add: bindE_def)

lemma bindE_eq_Inr:
  "bindE f g s = (Inr y, s'') \<longleftrightarrow> (\<exists>x s'. f s = (Inr x, s') \<and> g x s' = (Inr y, s''))"
  by (auto simp: bindE_def split: prod.splits sum.splits)

lemma assertE_simps [simp]:
  "assertE True s = (Inr (), s)" "assertE False s = (Inl AssertFail, s)"
  by (simp_all add: assertE_def)

lemma returnE_apply: "returnE x s = (Inr x, s)"
  by (simp add: returnE_def)

lemma throwE_apply: "throwE e s = (Inl e, s)"
  by (simp add: throwE_def)

section \<open>Lemmas: byte buffers\<close>

lemma length_mem_put [mem_simps]:
  "off + length src \<le> length m \<Longrightarrow> length (mem_put off src m) = length m"
  by (simp add: mem_put_def)

lemma length_mem_get [mem_simps]:
  "off + n \<le> length m \<Longrightarrow> length (mem_get off n m) = n"
  by (simp add: mem_get_def)

lemma nth_mem_get [mem_simps]:
  "off + n \<le> length m \<Longrightarrow> i < n \<Longrightarrow> mem_get off n m ! i = m ! (off + i)"
  by (simp add: mem_get_def)

lemma nth_mem_put:
  assumes "off + length src \<le> length m" and "i < length m"
  shows "mem_put off src m ! i =
    (if off \<le> i \<and> i < off + length src then src ! (i - off) else m ! i)"
  using assms by (auto simp: mem_put_def nth_append min_def)

lemma mem_get_put_same [mem_simps]:
  "off + length src \<le> length m \<Longrightarrow> n = length src \<Longrightarrow> mem_get off n (mem_put off src m) = src"
  by (simp add: mem_put_def mem_get_def)

lemma mem_get_put_before [mem_simps]:
  assumes "off + n \<le> off'" and "off' + length src \<le> length m"
  shows "mem_get off n (mem_put off' src m) = mem_get off n m"
  using assms
  by (intro nth_equalityI) (auto simp: mem_simps nth_mem_put)

lemma mem_get_put_after [mem_simps]:
  assumes "off' + length src \<le> off" and "off + n \<le> length m"
  shows "mem_get off n (mem_put off' src m) = mem_get off n m"
  using assms
  by (intro nth_equalityI) (auto simp: mem_simps nth_mem_put)

lemma mem_get_append_left: "off + n \<le> length a \<Longrightarrow> mem_get off n (a @ b) = mem_get off n a"
  by (simp add: mem_get_def)

lemma mem_get_append_right: "length a \<le> off \<Longrightarrow> mem_get off n (a @ b) = mem_get (off - length a) n b"
  by (simp add: mem_get_def)

lemma mem_get_all [simp]: "mem_get 0 (length m) m = m"
  by (simp add: mem_get_def)

section \<open>Lemmas: integer encodings\<close>

lemma length_enc_le [simp]: "length (enc_le n v) = n"
  by (induction n arbitrary: v) auto

lemma dec_u_nonneg: "0 \<le> dec_u bs"
  by (induction bs) auto

lemma dec_u_enc_le: "dec_u (enc_le n v) = v mod 256 ^ n"
proof (induction n arbitrary: v)
  case 0
  then show ?case by simp
next
  case (Suc n)
  have "dec_u (enc_le (Suc n) v) = v mod 256 + 256 * ((v div 256) mod 256 ^ n)"
    by (simp add: Suc.IH unsigned_word_eqI uint_word_of_int)
  also have "\<dots> = v mod (256 * 256 ^ n)"
    by (simp add: zmod_zmult2_eq)
  finally show ?case by simp
qed

lemma dec_s_enc_le:
  assumes "0 < n" and "- (256 ^ n) \<le> 2 * v" and "2 * v < 256 ^ n"
  shows "dec_s (enc_le n v) = v"
proof (cases "0 \<le> v")
  case True
  with assms(3) have "v mod 256 ^ n = v"
    by (intro mod_pos_pos_trivial) auto
  with assms show ?thesis by (simp add: dec_s_def dec_u_enc_le)
next
  case False
  have "v mod 256 ^ n = (v + 256 ^ n) mod 256 ^ n" by simp
  also have "\<dots> = v + 256 ^ n"
    using False assms(2) by (intro mod_pos_pos_trivial) auto
  finally show ?thesis using assms(2) by (simp add: dec_s_def dec_u_enc_le)
qed

lemma dec_s_enc_i32 [simp]: "in_i32 v \<Longrightarrow> dec_s (enc_le 4 v) = v"
  by (rule dec_s_enc_le) (auto simp: in_i32_def)

lemma dec_s_enc_i64 [simp]: "in_i64 v \<Longrightarrow> dec_s (enc_le 8 v) = v"
  by (rule dec_s_enc_le) (auto simp: in_i64_def)

lemma dec_u_enc_u32 [simp]: "in_u32 v \<Longrightarrow> dec_u (enc_le 4 v) = v"
  by (simp add: dec_u_enc_le in_u32_def)

lemma dec_u_enc_u64 [simp]: "in_u64 v \<Longrightarrow> dec_u (enc_le 8 v) = v"
  by (simp add: dec_u_enc_le in_u64_def)

lemma dec_u_less: "dec_u bs < 256 ^ length bs"
proof (induction bs)
  case Nil
  then show ?case by simp
next
  case (Cons b bs)
  have "uint b < 256" using uint_lt2p [of b] by simp
  moreover have "dec_u bs \<le> 256 ^ length bs - 1" using Cons.IH by simp
  ultimately show ?case by simp
qed

lemma dec_s_range_i32: "length bs = 4 \<Longrightarrow> in_i32 (dec_s bs)"
  using dec_u_less [of bs] dec_u_nonneg [of bs]
  by (auto simp: dec_s_def Let_def in_i32_def)

lemma length_wr_i32 [mem_simps]: "off + 4 \<le> length m \<Longrightarrow> length (wr_i32 off v m) = length m"
  by (simp add: wr_i32_def mem_simps)

lemma rd_wr_i32_same [mem_simps]: "off + 4 \<le> length m \<Longrightarrow> in_i32 v \<Longrightarrow> rd_i32 off (wr_i32 off v m) = v"
  by (simp add: rd_i32_def wr_i32_def mem_simps)

lemma rd_wr_i32_other [mem_simps]:
  "off + 4 \<le> off' \<or> off' + 4 \<le> off \<Longrightarrow> off + 4 \<le> length m \<Longrightarrow> off' + 4 \<le> length m \<Longrightarrow>
   rd_i32 off (wr_i32 off' v m) = rd_i32 off m"
  by (auto simp: rd_i32_def wr_i32_def mem_simps)

lemma rd_put_i32_other [mem_simps]:
  "off + 4 \<le> off' \<or> off' + length src \<le> off \<Longrightarrow> off + 4 \<le> length m \<Longrightarrow>
   off' + length src \<le> length m \<Longrightarrow> rd_i32 off (mem_put off' src m) = rd_i32 off m"
  by (auto simp: rd_i32_def mem_simps)

lemma get_wr_i32_other [mem_simps]:
  "off + n \<le> off' \<or> off' + 4 \<le> off \<Longrightarrow> off + n \<le> length m \<Longrightarrow> off' + 4 \<le> length m \<Longrightarrow>
   mem_get off n (wr_i32 off' v m) = mem_get off n m"
  by (auto simp: wr_i32_def mem_simps)

lemma rd_i32_range: "off + 4 \<le> length m \<Longrightarrow> in_i32 (rd_i32 off m)"
  by (simp add: rd_i32_def dec_s_range_i32 mem_simps)

lemma wrap_i32_id: "in_i32 v \<Longrightarrow> wrap_i32 v = v"
  by (simp add: wrap_i32_def in_i32_def)

lemma coltype_of_code_code [simp]: "coltype_of_code (coltype_code t) = Some t"
  by (cases t) (simp_all add: coltype_of_code_def)

lemma mem_put_append:
  "d' = d + length a \<Longrightarrow> d + length a + length b \<le> length m \<Longrightarrow>
   mem_put d' b (mem_put d a m) = mem_put d (a @ b) m"
  by (simp add: mem_put_def ac_simps)

lemma length_str_bytes [simp]: "length (str_bytes s) = length s"
  by (simp add: str_bytes_def)

lemma bytes_str_bytes [simp]: "bytes_str (str_bytes s) = s"
proof -
  have "char_of (unat (word_of_nat (of_char c) :: 8 word)) = c" for c
    by (simp add: unat_of_nat take_bit_eq_mod of_char_mod_256 flip: take_bit_eq_mod)
  then show ?thesis by (simp add: bytes_str_def str_bytes_def comp_def)
qed

end
