(* ===== verification/Disk.thy ===== *)
theory Disk
  imports Rmdb_Prelude
begin

text \<open>
  \<^verbatim>\<open>DiskManager\<close> of \<^verbatim>\<open>storage/disk_manager.{h,cpp}\<close> over a model of the POSIX calls it makes:
  a file system of byte strings by path, a table of open files with their positions (the lowest
  free descriptor is given out), and writes that extend a file with zeros. A write to an open
  descriptor stores all its bytes. Latches are left out: each operation is one step.
\<close>

section \<open>POSIX files\<close>

record DiskManager =
  files :: "string \<rightharpoonup> bytes"
  dirs :: "string set"
  fdtab :: "(string \<times> nat) option list"
  path2fd :: "string \<rightharpoonup> int"
  fd2path :: "int \<rightharpoonup> string"
  log_fd :: int
  fd2pageno :: "int \<Rightarrow> page_id_t"

definition lowest_fd :: "'a option list \<Rightarrow> nat" where
  "lowest_fd t = length (takeWhile (\<lambda>e. e \<noteq> None) t)"

definition os_open :: "string \<Rightarrow> DiskManager \<Rightarrow> int \<times> DiskManager" where
  "os_open path d =
     (if files d path = None then (-1, d)
      else let n = lowest_fd (fdtab d);
               t = (if n < length (fdtab d) then fdtab d else fdtab d @ [None])
           in (int n, d\<lparr>fdtab := t[n := Some (path, 0)]\<rparr>))"

definition fd_entry :: "DiskManager \<Rightarrow> int \<Rightarrow> (string \<times> nat) option" where
  "fd_entry d fd = (if 0 \<le> fd \<and> nat fd < length (fdtab d) then fdtab d ! nat fd else None)"

definition os_close :: "int \<Rightarrow> DiskManager \<Rightarrow> DiskManager" where
  "os_close fd d = (if fd_entry d fd = None then d else d\<lparr>fdtab := (fdtab d)[nat fd := None]\<rparr>)"

definition os_lseek :: "int \<Rightarrow> int \<Rightarrow> DiskManager \<Rightarrow> DiskManager" where
  "os_lseek fd off d =
     (case fd_entry d fd of
        None \<Rightarrow> d
      | Some (p, _) \<Rightarrow> if off < 0 then d else d\<lparr>fdtab := (fdtab d)[nat fd := Some (p, nat off)]\<rparr>)"

definition write_at :: "nat \<Rightarrow> bytes \<Rightarrow> bytes \<Rightarrow> bytes" where
  "write_at off src c = mem_put off src (c @ replicate (off + length src - length c) 0)"

definition os_write :: "int \<Rightarrow> bytes \<Rightarrow> DiskManager \<Rightarrow> int \<times> DiskManager" where
  "os_write fd src d =
     (case fd_entry d fd of
        None \<Rightarrow> (-1, d)
      | Some (p, pos) \<Rightarrow>
          (case files d p of
             None \<Rightarrow> (-1, d)
           | Some c \<Rightarrow> (int (length src),
               d\<lparr>files := (files d)(p \<mapsto> write_at pos src c),
                 fdtab := (fdtab d)[nat fd := Some (p, pos + length src)]\<rparr>)))"

definition os_read :: "int \<Rightarrow> nat \<Rightarrow> DiskManager \<Rightarrow> (int \<times> bytes) \<times> DiskManager" where
  "os_read fd n d =
     (case fd_entry d fd of
        None \<Rightarrow> ((-1, []), d)
      | Some (p, pos) \<Rightarrow>
          (case files d p of
             None \<Rightarrow> ((-1, []), d)
           | Some c \<Rightarrow> let r = mem_get pos n c in
               ((int (length r), r), d\<lparr>fdtab := (fdtab d)[nat fd := Some (p, pos + length r)]\<rparr>)))"

definition os_stat_size :: "string \<Rightarrow> DiskManager \<Rightarrow> nat option" where
  "os_stat_size path d = map_option length (files d path)"

section \<open>DiskManager\<close>

definition MAX_FD :: int where "MAX_FD = 8192"

definition page_off :: "page_id_t \<Rightarrow> int" where
  "page_off p = wrap_i32 (p * int PAGE_SIZE)"

definition write_page :: "int \<Rightarrow> page_id_t \<Rightarrow> bytes \<Rightarrow> (DiskManager, unit) stm" where
  "write_page fd pno src d =
     (let d1 = os_lseek fd (page_off pno) d;
          (n, d2) = os_write fd src d1
      in if n \<noteq> int (length src) then (Inl (Throw (InternalError ''DiskManager::write_page Error'')), d2)
         else (Inr (), d2))"

definition read_page :: "int \<Rightarrow> page_id_t \<Rightarrow> nat \<Rightarrow> (DiskManager, bytes) stm" where
  "read_page fd pno num_bytes d =
     (let d1 = os_lseek fd (page_off pno) d;
          ((n, r), d2) = os_read fd num_bytes d1
      in if n \<noteq> int num_bytes then (Inl (Throw (InternalError ''DiskManager::read_page Error'')), d2)
         else (Inr r, d2))"

definition allocate_page :: "int \<Rightarrow> (DiskManager, page_id_t) stm" where
  "allocate_page fd d =
     (if 0 \<le> fd \<and> fd < MAX_FD
      then (Inr (fd2pageno d fd), d\<lparr>fd2pageno := (fd2pageno d)(fd := fd2pageno d fd + 1)\<rparr>)
      else (Inl AssertFail, d))"

definition deallocate_page :: "page_id_t \<Rightarrow> (DiskManager, unit) stm" where
  "deallocate_page pid d = (Inr (), d)"

definition is_dir :: "string \<Rightarrow> DiskManager \<Rightarrow> bool" where
  "is_dir path d \<longleftrightarrow> path \<in> dirs d"

definition create_dir :: "string \<Rightarrow> DiskManager \<Rightarrow> DiskManager" where
  "create_dir path d = (if path \<in> dirs d \<or> files d path \<noteq> None then d else d\<lparr>dirs := insert path (dirs d)\<rparr>)"

definition under_dir :: "string \<Rightarrow> string \<Rightarrow> bool" where
  "under_dir path p \<longleftrightarrow> p = path \<or> take (length path + 1) p = path @ ''/''"

definition destroy_dir :: "string \<Rightarrow> DiskManager \<Rightarrow> DiskManager" where
  "destroy_dir path d =
     d\<lparr>files := (\<lambda>p. if under_dir path p then None else files d p),
       dirs := {p \<in> dirs d. \<not> under_dir path p}\<rparr>"

definition is_file :: "string \<Rightarrow> DiskManager \<Rightarrow> bool" where
  "is_file path d \<longleftrightarrow> files d path \<noteq> None"

definition create_file :: "string \<Rightarrow> (DiskManager, unit) stm" where
  "create_file path d =
     (if \<not> is_file path d then
        (let (fd, d1) = os_open path (d\<lparr>files := (files d)(path \<mapsto> [])\<rparr>) in (Inr (), os_close fd d1))
      else (Inl (Throw (FileExistsError path)), d))"

definition destroy_file :: "string \<Rightarrow> (DiskManager, unit) stm" where
  "destroy_file path d =
     (if path2fd d path = None then
        (if files d path = None then (Inl (Throw (FileNotFoundError path)), d)
         else (Inr (), d\<lparr>files := (files d)(path := None)\<rparr>))
      else (Inr (), d))"

definition open_file :: "string \<Rightarrow> (DiskManager, int) stm" where
  "open_file path d =
     (case path2fd d path of
        None \<Rightarrow>
          (let (fd, d1) = os_open path d in
           if fd = -1 then (Inl (Throw (FileNotFoundError path)), d1)
           else (Inr fd, d1\<lparr>path2fd := (path2fd d1)(path \<mapsto> fd), fd2path := (fd2path d1)(fd \<mapsto> path)\<rparr>))
      | Some fd \<Rightarrow> (Inr fd, d))"

definition close_file :: "int \<Rightarrow> (DiskManager, unit) stm" where
  "close_file fd d =
     (case fd2path d fd of
        None \<Rightarrow> (Inr (), d)
      | Some path \<Rightarrow>
          (let d1 = os_close fd d in
           (Inr (), d1\<lparr>fd2path := (fd2path d1)(fd := None), path2fd := (path2fd d1)(path := None)\<rparr>)))"

definition get_file_size :: "string \<Rightarrow> DiskManager \<Rightarrow> int" where
  "get_file_size name d = (case os_stat_size name d of Some n \<Rightarrow> wrap_i32 (int n) | None \<Rightarrow> -1)"

definition get_file_name :: "int \<Rightarrow> (DiskManager, string) stm" where
  "get_file_name fd d =
     (case fd2path d fd of None \<Rightarrow> (Inl (Throw (FileNotOpenError fd)), d) | Some p \<Rightarrow> (Inr p, d))"

definition get_file_fd :: "string \<Rightarrow> (DiskManager, int) stm" where
  "get_file_fd name d =
     (case path2fd d name of None \<Rightarrow> (Inl AssertFail, d) | Some fd \<Rightarrow> (Inr fd, d))"

definition set_fd2pageno :: "int \<Rightarrow> page_id_t \<Rightarrow> DiskManager \<Rightarrow> DiskManager" where
  "set_fd2pageno fd start d = d\<lparr>fd2pageno := (fd2pageno d)(fd := start)\<rparr>"

definition get_fd2pageno :: "int \<Rightarrow> DiskManager \<Rightarrow> page_id_t" where
  "get_fd2pageno fd d = fd2pageno d fd"

definition SetLogFd :: "int \<Rightarrow> DiskManager \<Rightarrow> DiskManager" where
  "SetLogFd fd d = d\<lparr>log_fd := fd\<rparr>"

definition GetLogFd :: "DiskManager \<Rightarrow> int" where
  "GetLogFd d = log_fd d"

definition ensure_log_fd :: "(DiskManager, int) stm" where
  "ensure_log_fd d =
     (if log_fd d = -1
      then bindE (open_file LOG_FILE_NAME) (\<lambda>fd d1. (Inr fd, d1\<lparr>log_fd := fd\<rparr>)) d
      else (Inr (log_fd d), d))"

definition read_log :: "int \<Rightarrow> int \<Rightarrow> (DiskManager, int \<times> bytes) stm" where
  "read_log sz off =
     bindE ensure_log_fd (\<lambda>fd d.
       let file_size = get_file_size LOG_FILE_NAME d in
       if off > file_size then (Inr (-1, []), d)
       else let sz' = min sz (file_size - off) in
         if sz' = 0 then (Inr (0, []), d)
         else let ((n, r), d1) = os_read fd (nat sz') (os_lseek fd off d) in
           if n = sz' then (Inr (n, r), d1) else (Inl AssertFail, d1))"

definition write_log :: "bytes \<Rightarrow> (DiskManager, unit) stm" where
  "write_log src =
     bindE ensure_log_fd (\<lambda>fd d.
       let eof = (case fd_entry d fd of None \<Rightarrow> 0
                  | Some (p, _) \<Rightarrow> (case files d p of None \<Rightarrow> 0 | Some c \<Rightarrow> length c));
           (n, d1) = os_write fd src (os_lseek fd (int eof) d)
       in if fd_entry d fd = None then (Inl (Throw (InternalError ''fsync log error'')), d1)
          else if n \<noteq> int (length src) then (Inl (Throw UnixError), d1)
          else (Inr (), d1))"

section \<open>Abstraction and invariant\<close>

text \<open>The contents of the file behind a descriptor, and one page of it.\<close>

definition file_of :: "DiskManager \<Rightarrow> int \<Rightarrow> bytes option" where
  "file_of d fd = (case fd_entry d fd of None \<Rightarrow> None | Some (p, _) \<Rightarrow> files d p)"

definition page_pos :: "page_id_t \<Rightarrow> nat" where
  "page_pos pno = nat pno * PAGE_SIZE"

definition disk_page :: "DiskManager \<Rightarrow> int \<Rightarrow> page_id_t \<Rightarrow> bytes option" where
  "disk_page d fd pno =
     (case file_of d fd of
        None \<Rightarrow> None
      | Some c \<Rightarrow> if 0 \<le> pno \<and> page_pos pno + PAGE_SIZE \<le> length c
                  then Some (mem_get (page_pos pno) PAGE_SIZE c) else None)"

text \<open>
  The open lists of the manager are inverse to each other and agree with the descriptors of the
  operating system, so a file is open at most once.
\<close>

definition disk_ok :: "DiskManager \<Rightarrow> bool" where
  "disk_ok d \<longleftrightarrow>
     (\<forall>p fd. path2fd d p = Some fd \<longleftrightarrow> fd2path d fd = Some p)
     \<and> (\<forall>fd p. fd2path d fd = Some p \<longrightarrow> (\<exists>pos. fd_entry d fd = Some (p, pos)) \<and> files d p \<noteq> None)"

text \<open>A page number whose byte offset does not overflow \<^verbatim>\<open>int\<close>.\<close>

definition page_in_range :: "page_id_t \<Rightarrow> bool" where
  "page_in_range p \<longleftrightarrow> 0 \<le> p \<and> p * int PAGE_SIZE < 2 ^ 31"

definition page_open :: "DiskManager \<Rightarrow> int \<Rightarrow> bool" where
  "page_open d fd \<longleftrightarrow> fd2path d fd \<noteq> None"

section \<open>Descriptors and positions\<close>

definition fd_path :: "DiskManager \<Rightarrow> int \<Rightarrow> string option" where
  "fd_path d fd = map_option fst (fd_entry d fd)"

lemma file_of_path: "file_of d fd = (case fd_path d fd of None \<Rightarrow> None | Some p \<Rightarrow> files d p)"
  by (auto simp: file_of_def fd_path_def split: option.splits)

lemma disk_page_cong:
  "fd_path d' fd = fd_path d fd \<Longrightarrow> files d' = files d \<Longrightarrow> disk_page d' fd pno = disk_page d fd pno"
  by (auto simp: disk_page_def file_of_path split: option.splits)

lemma disk_okI:
  assumes "disk_ok d" and "path2fd d' = path2fd d" and "fd2path d' = fd2path d"
    and "\<And>fd. fd_path d' fd = fd_path d fd" and "dom (files d) \<subseteq> dom (files d')"
  shows "disk_ok d'"
proof -
  have "(\<exists>pos. fd_entry e fd = Some (p, pos)) \<longleftrightarrow> fd_path e fd = Some p" for e fd p
    by (auto simp: fd_path_def)
  then have alt: "disk_ok e \<longleftrightarrow> (\<forall>p fd. path2fd e p = Some fd \<longleftrightarrow> fd2path e fd = Some p)
      \<and> (\<forall>fd p. fd2path e fd = Some p \<longrightarrow> fd_path e fd = Some p \<and> p \<in> dom (files e))" for e
    by (auto simp: disk_ok_def)
  show ?thesis
    using assms(1) unfolding alt [of d] alt [of d'] assms(2-4) using assms(5) by blast
qed

lemma disk_okD:
  assumes "disk_ok d" and "fd2path d fd = Some p"
  obtains pos c where "fd_entry d fd = Some (p, pos)" and "files d p = Some c"
  using assms unfolding disk_ok_def by blast

lemma disk_ok_inj: "disk_ok d \<Longrightarrow> fd2path d fd = Some p \<Longrightarrow> fd2path d fd' = Some p \<Longrightarrow> fd' = fd"
  unfolding disk_ok_def by (metis option.inject)

lemma disk_ok_inv: "disk_ok d \<Longrightarrow> path2fd d p = Some fd \<longleftrightarrow> fd2path d fd = Some p"
  by (simp add: disk_ok_def)

lemma fd_entry_update:
  "fd_entry d fd \<noteq> None \<Longrightarrow> fd_entry (d\<lparr>fdtab := (fdtab d)[nat fd := e]\<rparr>) fd' = (if fd' = fd then e else fd_entry d fd')"
  by (auto simp: fd_entry_def nth_list_update eq_nat_nat_iff split: if_splits)

lemma fd_entry_files [simp]:
  "fd_entry (d\<lparr>files := x\<rparr>) = fd_entry d" "fd_entry (d\<lparr>path2fd := y\<rparr>) = fd_entry d"
  "fd_entry (d\<lparr>fd2path := z\<rparr>) = fd_entry d" "fd_entry (d\<lparr>log_fd := u\<rparr>) = fd_entry d"
  "fd_entry (d\<lparr>fd2pageno := v\<rparr>) = fd_entry d"
  by (simp_all add: fd_entry_def fun_eq_iff)

lemma fd_path_files [simp]:
  "fd_path (d\<lparr>files := x\<rparr>) = fd_path d" "fd_path (d\<lparr>path2fd := y\<rparr>) = fd_path d"
  "fd_path (d\<lparr>fd2path := z\<rparr>) = fd_path d" "fd_path (d\<lparr>log_fd := u\<rparr>) = fd_path d"
  "fd_path (d\<lparr>fd2pageno := v\<rparr>) = fd_path d"
  by (simp_all add: fd_path_def fun_eq_iff)

lemma os_lseek_frame [simp]:
  "files (os_lseek fd off d) = files d" "path2fd (os_lseek fd off d) = path2fd d"
  "fd2path (os_lseek fd off d) = fd2path d" "log_fd (os_lseek fd off d) = log_fd d"
  "fd2pageno (os_lseek fd off d) = fd2pageno d"
  by (auto simp: os_lseek_def split: option.splits)

lemma fd_path_lseek [simp]: "fd_path (os_lseek fd off d) fd' = fd_path d fd'"
  by (auto simp: os_lseek_def fd_path_def fd_entry_update split: option.splits)

lemma fd_entry_lseek:
  "fd_entry d fd = Some (p, pos) \<Longrightarrow> 0 \<le> off \<Longrightarrow> fd_entry (os_lseek fd off d) fd = Some (p, nat off)"
  by (simp add: os_lseek_def fd_entry_update)

lemma page_off_in_range [simp]: "page_in_range p \<Longrightarrow> page_off p = int (page_pos p)"
  by (simp add: page_off_def page_pos_def page_in_range_def wrap_i32_id in_i32_def PAGE_SIZE_def)

section \<open>Reading and writing pages\<close>

lemma length_write_at: "length (write_at off src c) = max (length c) (off + length src)"
  by (simp add: write_at_def mem_simps)

lemma write_at_same: "mem_get off (length src) (write_at off src c) = src"
  by (simp add: write_at_def mem_simps)

lemma write_at_other:
  assumes "off' + n \<le> off \<or> off + length src \<le> off'" and "off' + n \<le> length c"
  shows "mem_get off' n (write_at off src c) = mem_get off' n c"
proof -
  let ?c = "c @ replicate (off + length src - length c) 0"
  have "mem_get off' n (mem_put off src ?c) = mem_get off' n ?c"
    using assms by (auto simp: mem_get_put_before mem_get_put_after)
  also have "\<dots> = mem_get off' n c" using assms(2) by (simp add: mem_get_append_left)
  finally show ?thesis by (simp add: write_at_def)
qed

text \<open>What a page write does, on the file it writes to.\<close>

lemma write_page_result:
  assumes ok: "disk_ok d" and fd: "fd2path d fd = Some p" and r: "page_in_range pno"
    and c: "files d p = Some c"
  obtains d' where "write_page fd pno src d = (Inr (), d')" and "disk_ok d'"
    and "files d' = (files d)(p \<mapsto> write_at (page_pos pno) src c)"
    and "path2fd d' = path2fd d" and "fd2path d' = fd2path d" and "log_fd d' = log_fd d"
    and "fd2pageno d' = fd2pageno d" and "\<And>fd'. fd_path d' fd' = fd_path d fd'"
proof -
  let ?off = "page_pos pno"
  let ?d1 = "os_lseek fd (int ?off) d"
  let ?d' = "?d1\<lparr>files := (files d)(p \<mapsto> write_at ?off src c),
    fdtab := (fdtab ?d1)[nat fd := Some (p, ?off + length src)]\<rparr>"
  obtain pos where e: "fd_entry d fd = Some (p, pos)" using disk_okD [OF ok fd] by metis
  have e1: "fd_entry ?d1 fd = Some (p, ?off)" using fd_entry_lseek [OF e, of "int ?off"] by simp
  have run: "write_page fd pno src d = (Inr (), ?d')"
    using c r by (simp add: write_page_def os_write_def e1 Let_def)
  have paths: "fd_path ?d' fd' = fd_path d fd'" for fd'
  proof -
    have "fd_path ?d' fd' = map_option fst (if fd' = fd then Some (p, ?off + length src) else fd_entry ?d1 fd')"
      using fd_entry_update [of "?d1\<lparr>files := (files d)(p \<mapsto> write_at ?off src c)\<rparr>" fd] e1
      by (simp add: fd_path_def)
    also have "\<dots> = fd_path ?d1 fd'" using e1 by (simp add: fd_path_def)
    finally show ?thesis by simp
  qed
  have "disk_ok ?d'"
    by (rule disk_okI [OF ok]) (use paths in auto)
  with run paths that show thesis by simp
qed

lemma write_page_pages:
  assumes ok: "disk_ok d" and fd: "fd2path d fd = Some p" and r: "page_in_range pno"
    and len: "length src \<le> PAGE_SIZE" and w: "write_page fd pno src d = (res, d')"
  shows "res = Inr ()" and "disk_ok d'" and "fd2path d' = fd2path d" and "path2fd d' = path2fd d"
    and "fd2pageno d' = fd2pageno d" and "log_fd d' = log_fd d"
    and "length src = PAGE_SIZE \<Longrightarrow> disk_page d' fd pno = Some src"
    and "fd2path d fd' \<noteq> None \<Longrightarrow> disk_page d fd' pno' = Some x \<Longrightarrow> (fd', pno') \<noteq> (fd, pno) \<Longrightarrow>
      disk_page d' fd' pno' = Some x"
proof -
  obtain pos c where e: "fd_entry d fd = Some (p, pos)" and c: "files d p = Some c"
    using disk_okD [OF ok fd] by metis
  let ?off = "page_pos pno"
  obtain d'' where run: "write_page fd pno src d = (Inr (), d'')" and d'':
    "disk_ok d''" "files d'' = (files d)(p \<mapsto> write_at ?off src c)"
    "path2fd d'' = path2fd d" "fd2path d'' = fd2path d" "log_fd d'' = log_fd d"
    "fd2pageno d'' = fd2pageno d" "\<And>fd'. fd_path d'' fd' = fd_path d fd'"
    using write_page_result [OF ok fd r c] by metis
  from run w have [simp]: "d'' = d'" and res: "res = Inr ()" by auto
  show "res = Inr ()" by (rule res)
  show "disk_ok d'" "fd2path d' = fd2path d" "path2fd d' = path2fd d"
    "fd2pageno d' = fd2pageno d" "log_fd d' = log_fd d"
    using d'' by simp_all
  have fp: "fd_path d' fd = Some p" using d''(7) e by (simp add: fd_path_def)
  have pn: "0 \<le> pno" using r by (simp add: page_in_range_def)
  show "disk_page d' fd pno = Some src" if "length src = PAGE_SIZE"
    using that fp d''(2) pn write_at_same [of ?off src c]
    by (simp add: disk_page_def file_of_path length_write_at)
  assume fd': "fd2path d fd' \<noteq> None" and pg: "disk_page d fd' pno' = Some x" and ne: "(fd', pno') \<noteq> (fd, pno)"
  then obtain p' where p': "fd2path d fd' = Some p'" by auto
  then have fp': "fd_path d' fd' = Some p'" "fd_path d fd' = Some p'"
    using d''(7) disk_okD [OF ok p'] by (auto simp: fd_path_def)
  show "disk_page d' fd' pno' = Some x"
  proof (cases "p' = p")
    case False
    with pg fp' d''(2) show ?thesis by (simp add: disk_page_def file_of_path)
  next
    case True
    then have "fd' = fd" using disk_ok_inj [OF ok fd] p' by simp
    with ne have "pno' \<noteq> pno" by simp
    from pg fp' True c have q: "0 \<le> pno'" "page_pos pno' + PAGE_SIZE \<le> length c"
      and x: "x = mem_get (page_pos pno') PAGE_SIZE c"
      by (auto simp: disk_page_def file_of_path split: if_splits)
    have "page_pos pno' + PAGE_SIZE \<le> ?off \<or> ?off + length src \<le> page_pos pno'"
    proof (cases "nat pno' < nat pno")
      case True
      then have "nat pno' + 1 \<le> nat pno" by linarith
      then have "(nat pno' + 1) * PAGE_SIZE \<le> nat pno * PAGE_SIZE" by (rule mult_le_mono1)
      then show ?thesis by (simp add: page_pos_def)
    next
      case False
      with \<open>pno' \<noteq> pno\<close> q(1) pn have "nat pno + 1 \<le> nat pno'" by linarith
      then have "(nat pno + 1) * PAGE_SIZE \<le> nat pno' * PAGE_SIZE" by (rule mult_le_mono1)
      with len show ?thesis by (simp add: page_pos_def)
    qed
    with q(2) have "mem_get (page_pos pno') PAGE_SIZE (write_at ?off src c) = x"
      unfolding x by (intro write_at_other)
    with q fp' True d''(2) show ?thesis
      by (simp add: disk_page_def file_of_path length_write_at)
  qed
qed

lemma read_page_result:
  assumes ok: "disk_ok d" and fd: "fd2path d fd = Some p" and r: "page_in_range pno"
    and rd: "read_page fd pno n d = (res, d')"
  shows "files d' = files d" and "path2fd d' = path2fd d" and "fd2path d' = fd2path d"
    and "fd2pageno d' = fd2pageno d" and "log_fd d' = log_fd d" and "fd_path d' fd' = fd_path d fd'"
    and "res = (let b = mem_get (page_pos pno) n (the (files d p)) in
                if length b = n then Inr b else Inl (Throw (InternalError ''DiskManager::read_page Error'')))"
proof -
  obtain pos c where e: "fd_entry d fd = Some (p, pos)" and c: "files d p = Some c"
    using disk_okD [OF ok fd] by metis
  let ?off = "page_pos pno"
  let ?d1 = "os_lseek fd (int ?off) d"
  have e1: "fd_entry ?d1 fd = Some (p, ?off)" using fd_entry_lseek [OF e, of "int ?off"] by simp
  let ?b = "mem_get ?off n c"
  let ?d' = "?d1\<lparr>fdtab := (fdtab ?d1)[nat fd := Some (p, ?off + length ?b)]\<rparr>"
  have run: "read_page fd pno n d = (if length ?b = n then Inr ?b
      else Inl (Throw (InternalError ''DiskManager::read_page Error'')), ?d')"
    using c r by (simp add: read_page_def os_read_def e1 Let_def)
  then have [simp]: "d' = ?d'" using rd by simp
  show "files d' = files d" "path2fd d' = path2fd d" "fd2path d' = fd2path d"
    "fd2pageno d' = fd2pageno d" "log_fd d' = log_fd d"
    by simp_all
  show "fd_path d' fd' = fd_path d fd'"
    using fd_entry_update [of ?d1 fd] e1 e fd_path_lseek [of fd "int ?off" d fd'] by (simp add: fd_path_def)
  show "res = (let b = mem_get (page_pos pno) n (the (files d p)) in
                if length b = n then Inr b else Inl (Throw (InternalError ''DiskManager::read_page Error'')))"
    using run rd c by (simp add: Let_def)
qed

lemma read_page_ok:
  assumes ok: "disk_ok d" and fd: "fd2path d fd = Some p" and r: "page_in_range pno"
    and rd: "read_page fd pno PAGE_SIZE d = (res, d')"
  shows "disk_ok d'" and "disk_page d' fd' pno' = disk_page d fd' pno'"
    and "res = (case disk_page d fd pno of Some x \<Rightarrow> Inr x
                | None \<Rightarrow> Inl (Throw (InternalError ''DiskManager::read_page Error'')))"
proof -
  note rr = read_page_result [OF ok fd r rd]
  show "disk_ok d'" by (rule disk_okI [OF ok]) (use rr in auto)
  show "disk_page d' fd' pno' = disk_page d fd' pno'" by (rule disk_page_cong) (use rr in auto)
  obtain pos c where e: "fd_entry d fd = Some (p, pos)" and c: "files d p = Some c"
    using disk_okD [OF ok fd] by metis
  have pn: "0 \<le> pno" using r by (simp add: page_in_range_def)
  have "length (mem_get (page_pos pno) PAGE_SIZE c) = PAGE_SIZE
      \<longleftrightarrow> page_pos pno + PAGE_SIZE \<le> length c"
    by (auto simp: mem_get_def PAGE_SIZE_def)
  then show "res = (case disk_page d fd pno of Some x \<Rightarrow> Inr x
                | None \<Rightarrow> Inl (Throw (InternalError ''DiskManager::read_page Error'')))"
    using rr(7) e c pn by (simp add: disk_page_def file_of_def Let_def)
qed

lemma disk_page_length: "disk_page d fd pno = Some x \<Longrightarrow> length x = PAGE_SIZE"
  by (auto simp: disk_page_def mem_simps split: option.splits if_splits)

section \<open>Opening, closing, creating and removing files\<close>

lemma lowest_fd_le: "lowest_fd t \<le> length t"
  by (simp add: lowest_fd_def length_takeWhile_le)

lemma lowest_fd_free: "lowest_fd t < length t \<Longrightarrow> t ! lowest_fd t = None"
  using nth_length_takeWhile [of "\<lambda>e. e \<noteq> None" t] by (simp add: lowest_fd_def)

lemma os_open_new:
  assumes "files d path \<noteq> None" and "os_open path d = (fd, d')"
  shows "0 \<le> fd" and "fd_entry d fd = None" and "files d' = files d" and "path2fd d' = path2fd d"
    and "fd2path d' = fd2path d" and "fd2pageno d' = fd2pageno d" and "log_fd d' = log_fd d"
    and "fd_entry d' fd' = (if fd' = fd then Some (path, 0) else fd_entry d fd')"
proof -
  let ?n = "lowest_fd (fdtab d)"
  let ?t = "if ?n < length (fdtab d) then fdtab d else fdtab d @ [None]"
  have fd: "fd = int ?n" and d': "d' = d\<lparr>fdtab := ?t[?n := Some (path, 0)]\<rparr>"
    using assms by (auto simp: os_open_def Let_def)
  show "0 \<le> fd" "files d' = files d" "path2fd d' = path2fd d" "fd2path d' = fd2path d"
    "fd2pageno d' = fd2pageno d" "log_fd d' = log_fd d"
    by (simp_all add: fd d')
  show "fd_entry d fd = None" using lowest_fd_free [of "fdtab d"] by (simp add: fd fd_entry_def)
  have n: "?n < length (fdtab d) \<or> ?n = length (fdtab d)" using lowest_fd_le [of "fdtab d"] by linarith
  show "fd_entry d' fd' = (if fd' = fd then Some (path, 0) else fd_entry d fd')"
    using n by (auto simp: fd d' fd_entry_def nth_list_update nth_append)
qed

lemma open_file_opened: "path2fd d path = Some fd \<Longrightarrow> open_file path d = (Inr fd, d)"
  by (simp add: open_file_def)

lemma open_file_missing:
  "path2fd d path = None \<Longrightarrow> files d path = None \<Longrightarrow>
   open_file path d = (Inl (Throw (FileNotFoundError path)), d)"
  by (simp add: open_file_def os_open_def)

lemma open_file_ok:
  assumes ok: "disk_ok d" and ex: "files d path \<noteq> None" and cl: "path2fd d path = None"
    and run: "open_file path d = (res, d')"
  obtains fd where "res = Inr fd" and "0 \<le> fd" and "disk_ok d'" and "files d' = files d"
    and "path2fd d' = (path2fd d)(path \<mapsto> fd)" and "fd2path d' = (fd2path d)(fd \<mapsto> path)"
    and "fd2path d fd = None" and "fd2pageno d' = fd2pageno d" and "log_fd d' = log_fd d"
proof -
  obtain fd d1 where o: "os_open path d = (fd, d1)" by fastforce
  note new = os_open_new [OF ex o]
  have fresh: "fd2path d fd = None"
  proof (rule ccontr)
    assume "fd2path d fd \<noteq> None"
    then obtain p where "fd2path d fd = Some p" by auto
    from disk_okD [OF ok this] new(2) show False by (metis option.distinct(1))
  qed
  have d': "res = Inr fd" "d' = d1\<lparr>path2fd := (path2fd d1)(path \<mapsto> fd), fd2path := (fd2path d1)(fd \<mapsto> path)\<rparr>"
    using run cl o new(1) by (auto simp: open_file_def)
  have "disk_ok d'"
    unfolding disk_ok_def
  proof (intro conjI allI impI)
    fix p fd'
    show "path2fd d' p = Some fd' \<longleftrightarrow> fd2path d' fd' = Some p"
      using disk_ok_inv [OF ok, of p fd'] disk_ok_inv [OF ok, of path fd'] cl fresh new(4,5)
      by (auto simp: d')
  next
    fix fd' p
    assume "fd2path d' fd' = Some p"
    then show "\<exists>pos. fd_entry d' fd' = Some (p, pos)"
      using new(5,8) ok by (auto simp: d' disk_ok_def split: if_splits)
    show "files d' p \<noteq> None"
      using \<open>fd2path d' fd' = Some p\<close> new(3,5) ex ok by (auto simp: d' disk_ok_def split: if_splits)
  qed
  with that d' new fresh show thesis by simp
qed

lemma close_file_ok:
  assumes ok: "disk_ok d" and op: "fd2path d fd = Some path" and run: "close_file fd d = (res, d')"
  shows "res = Inr ()" and "disk_ok d'" and "files d' = files d"
    and "path2fd d' = (path2fd d)(path := None)" and "fd2path d' = (fd2path d)(fd := None)"
    and "fd_entry d' fd' = (if fd' = fd then None else fd_entry d fd')"
proof -
  obtain pos where e: "fd_entry d fd = Some (path, pos)" using disk_okD [OF ok op] by metis
  have res: "res = Inr ()" and d': "d' = d\<lparr>fdtab := (fdtab d)[nat fd := None],
      fd2path := (fd2path d)(fd := None), path2fd := (path2fd d)(path := None)\<rparr>"
    using run op e by (auto simp: close_file_def os_close_def)
  have ent: "fd_entry d' fd'' = (if fd'' = fd then None else fd_entry d fd'')" for fd''
    using fd_entry_update [of d fd None fd''] e by (simp add: d')
  show "res = Inr ()" "files d' = files d" "path2fd d' = (path2fd d)(path := None)"
    "fd2path d' = (fd2path d)(fd := None)"
    by (simp_all add: res d')
  show "fd_entry d' fd' = (if fd' = fd then None else fd_entry d fd')" by (rule ent)
  show "disk_ok d'"
    unfolding disk_ok_def
  proof (intro conjI allI impI)
    fix p fd'
    show "path2fd d' p = Some fd' \<longleftrightarrow> fd2path d' fd' = Some p"
    proof (cases "fd' = fd \<or> p = path")
      case True
      have "path2fd d p \<noteq> Some fd" if "p \<noteq> path"
        using that op unfolding disk_ok_inv [OF ok] by simp
      moreover have "fd2path d fd' \<noteq> Some path" if "fd' \<noteq> fd"
        using that disk_ok_inj [OF ok op] by blast
      ultimately show ?thesis using True by (cases "fd' = fd"; cases "p = path") (simp_all add: d')
    next
      case False
      then show ?thesis using disk_ok_inv [OF ok, of p fd'] by (simp add: d')
    qed
  next
    fix fd' p
    assume a: "fd2path d' fd' = Some p"
    then have f: "fd' \<noteq> fd" and "fd2path d fd' = Some p" by (auto simp: d' split: if_splits)
    from disk_okD [OF ok this(2)] obtain pos c where
      "fd_entry d fd' = Some (p, pos)" and "files d p = Some c" by metis
    with f show "\<exists>pos. fd_entry d' fd' = Some (p, pos)" "files d' p \<noteq> None"
      unfolding ent by (simp_all add: d')
  qed
qed

lemma create_file_exists: "is_file path d \<Longrightarrow> create_file path d = (Inl (Throw (FileExistsError path)), d)"
  by (simp add: create_file_def)

lemma create_file_ok:
  assumes ok: "disk_ok d" and new: "\<not> is_file path d" and run: "create_file path d = (res, d')"
  shows "res = Inr ()" and "disk_ok d'" and "files d' = (files d)(path \<mapsto> [])"
    and "path2fd d' = path2fd d" and "fd2path d' = fd2path d" and "fd_entry d' fd' = fd_entry d fd'"
proof -
  let ?d0 = "d\<lparr>files := (files d)(path \<mapsto> [])\<rparr>"
  obtain fd d1 where o: "os_open path ?d0 = (fd, d1)" by fastforce
  have "files ?d0 path \<noteq> None" by simp
  note n = os_open_new [OF this o]
  have res: "res = Inr ()" and d': "d' = d1\<lparr>fdtab := (fdtab d1)[nat fd := None]\<rparr>"
    using run new o n(8) [of fd] by (auto simp: create_file_def os_close_def)
  have ent: "fd_entry d' fd'' = fd_entry d fd''" for fd''
    using fd_entry_update [of d1 fd None fd''] n(2,8) by (simp add: d')
  show "res = Inr ()" by (rule res)
  show "files d' = (files d)(path \<mapsto> [])" "path2fd d' = path2fd d" "fd2path d' = fd2path d"
    using n by (simp_all add: d')
  show "fd_entry d' fd' = fd_entry d fd'" by (rule ent)
  show "disk_ok d'"
    using n by (intro disk_okI [OF ok]) (auto simp: d' fd_path_def ent [unfolded d'])
qed

lemma destroy_file_open: "path2fd d path \<noteq> None \<Longrightarrow> destroy_file path d = (Inr (), d)"
  by (auto simp: destroy_file_def)

lemma destroy_file_ok:
  assumes ok: "disk_ok d" and "path2fd d path = None" and "files d path \<noteq> None"
  shows "\<exists>d'. destroy_file path d = (Inr (), d') \<and> disk_ok d' \<and> files d' = (files d)(path := None)"
proof -
  have "fd2path d fd \<noteq> Some path" for fd using disk_ok_inv [OF ok, of path fd] assms(2) by simp
  then have "disk_ok (d\<lparr>files := (files d)(path := None)\<rparr>)"
    using ok by (auto simp: disk_ok_def)
  with assms(2,3) show ?thesis by (simp add: destroy_file_def)
qed

section \<open>The log file\<close>

lemma ensure_log_fd_open:
  "log_fd d \<noteq> -1 \<Longrightarrow> ensure_log_fd d = (Inr (log_fd d), d)"
  by (simp add: ensure_log_fd_def)

text \<open>Appending to the log: the file grows by exactly the bytes written.\<close>

lemma write_log_append:
  assumes ok: "disk_ok d" and l: "log_fd d \<noteq> -1" and fd: "fd2path d (log_fd d) = Some LOG_FILE_NAME"
    and c: "files d LOG_FILE_NAME = Some c"
  shows "\<exists>d'. write_log src d = (Inr (), d') \<and> files d' = (files d)(LOG_FILE_NAME \<mapsto> c @ src)
    \<and> disk_ok d' \<and> log_fd d' = log_fd d \<and> fd2path d' = fd2path d \<and> path2fd d' = path2fd d
    \<and> fd2pageno d' = fd2pageno d"
proof -
  let ?fd = "log_fd d"
  obtain pos where e: "fd_entry d ?fd = Some (LOG_FILE_NAME, pos)" using disk_okD [OF ok fd] by metis
  let ?d1 = "os_lseek ?fd (int (length c)) d"
  have e1: "fd_entry ?d1 ?fd = Some (LOG_FILE_NAME, length c)"
    using fd_entry_lseek [OF e, of "int (length c)"] by simp
  have wa: "write_at (length c) src c = c @ src"
    by (simp add: write_at_def mem_put_def)
  let ?d2 = "?d1\<lparr>files := (files d)(LOG_FILE_NAME \<mapsto> c @ src)\<rparr>"
  let ?d' = "?d2\<lparr>fdtab := (fdtab ?d1)[nat ?fd := Some (LOG_FILE_NAME, length c + length src)]\<rparr>"
  have run: "write_log src d = (Inr (), ?d')"
    using l c by (simp add: write_log_def bindE_def ensure_log_fd_open e os_write_def e1 wa Let_def)
  have "fd_path ?d' fd' = fd_path d fd'" for fd'
    using fd_entry_update [of ?d2 ?fd] e1 e fd_path_lseek [of ?fd "int (length c)" d fd']
    by (simp add: fd_path_def)
  then have "disk_ok ?d'" by (intro disk_okI [OF ok]) auto
  with run show ?thesis by simp
qed

section \<open>Properties\<close>

text \<open>A disk with one open file \<open>p\<close>, at descriptor 0.\<close>

definition one_file_disk :: "string \<Rightarrow> bytes \<Rightarrow> DiskManager" where
  "one_file_disk p c =
     \<lparr>files = [p \<mapsto> c], dirs = {}, fdtab = [Some (p, 0)], path2fd = [p \<mapsto> 0], fd2path = [0 \<mapsto> p],
      log_fd = -1, fd2pageno = (\<lambda>_. 0)\<rparr>"

lemma one_file_disk_ok: "disk_ok (one_file_disk p c)"
  by (auto simp: disk_ok_def one_file_disk_def fd_entry_def split: if_splits)

lemma one_file_disk_simps [simp]:
  "fd2path (one_file_disk p c) 0 = Some p" "fd2pageno (one_file_disk p c) = (\<lambda>_. 0)"
  by (simp_all add: one_file_disk_def)

text \<open>
  A page written by \<^verbatim>\<open>write_page\<close> is what \<^verbatim>\<open>read_page\<close> returns afterwards, and every other
  page of every open file that could be read before reads the same.
\<close>

theorem write_page_read_page:
  assumes ok: "disk_ok d" and fd: "fd2path d fd = Some path" and r: "page_in_range pno"
    and len: "length src = PAGE_SIZE" and run: "write_page fd pno src d = (res, d1)"
  shows "res = Inr () \<and> fst (read_page fd pno PAGE_SIZE d1) = Inr src
    \<and> (\<forall>fd' pno' x. fd2path d fd' \<noteq> None \<and> page_in_range pno' \<and> (fd', pno') \<noteq> (fd, pno)
         \<and> fst (read_page fd' pno' PAGE_SIZE d) = Inr x \<longrightarrow> fst (read_page fd' pno' PAGE_SIZE d1) = Inr x)"
proof (intro conjI allI impI)
  note w = write_page_pages [OF ok fd r eq_refl [OF len] run]
  have rd: "fst (read_page f p PAGE_SIZE e) =
      (case disk_page e f p of Some x \<Rightarrow> Inr x | None \<Rightarrow> Inl (Throw (InternalError ''DiskManager::read_page Error'')))"
    if "disk_ok e" "fd2path e f \<noteq> None" "page_in_range p" for e f p
  proof -
    note h = that
    obtain q where q: "fd2path e f = Some q" using h(2) by blast
    obtain r e' where "read_page f p PAGE_SIZE e = (r, e')" by fastforce
    with read_page_ok(3) [OF h(1) q h(3)] show ?thesis by simp
  qed
  show "res = Inr ()" by (rule w(1))
  show "fst (read_page fd pno PAGE_SIZE d1) = Inr src"
    using rd [OF w(2) _ r] w(3,7) fd len by simp
  fix fd' pno' x
  assume a: "fd2path d fd' \<noteq> None \<and> page_in_range pno' \<and> (fd', pno') \<noteq> (fd, pno)
         \<and> fst (read_page fd' pno' PAGE_SIZE d) = Inr x"
  then have "disk_page d fd' pno' = Some x" using rd [OF ok, of fd' pno'] by (auto split: option.splits)
  then show "fst (read_page fd' pno' PAGE_SIZE d1) = Inr x"
    using w(3,8) a rd [OF w(2), of fd' pno'] by auto
qed

theorem write_page_read_page_witness:
  "fst (read_page 0 2 PAGE_SIZE (snd (write_page 0 2 (replicate PAGE_SIZE 7) (one_file_disk ''t'' []))))
     = Inr (replicate PAGE_SIZE 7)"
proof -
  have "page_in_range 2" by (simp add: page_in_range_def PAGE_SIZE_def)
  from write_page_read_page [OF one_file_disk_ok one_file_disk_simps(1) this length_replicate prod.collapse [symmetric]]
  show ?thesis by blast
qed

end
