(* ===== verification/Replacer.thy ===== *)
theory Replacer
  imports Rmdb_Prelude
begin

text \<open>
  The page replacement policy: the abstract class of \<^verbatim>\<open>replacer/replacer.h\<close> as a locale, and
  \<^verbatim>\<open>LRUReplacer\<close> of \<^verbatim>\<open>replacer/lru_replacer.{h,cpp}\<close>, which the buffer pool uses, as its
  interpretation. A \<^verbatim>\<open>std::list\<close> iterator is the identity of a list node, so the list holds
  pairs of a node identity and a frame, and the hash table maps a frame to a node identity.
\<close>

section \<open>LRUReplacer\<close>

record LRUReplacer =
  LRUlist :: "(nat \<times> frame_id_t) list"
  LRUhash :: "frame_id_t \<rightharpoonup> nat"
  max_size :: nat
  next_node :: nat

definition lru_new :: "nat \<Rightarrow> LRUReplacer" where
  "lru_new num_pages =
     \<lparr>LRUlist = [], LRUhash = Map.empty, max_size = num_pages, next_node = 0\<rparr>"

text \<open>\<^verbatim>\<open>std::list::erase(iterator)\<close>.\<close>

definition list_erase :: "nat \<Rightarrow> (nat \<times> frame_id_t) list \<Rightarrow> (nat \<times> frame_id_t) list" where
  "list_erase it xs = filter (\<lambda>(n, _). n \<noteq> it) xs"

definition lru_victim :: "LRUReplacer \<Rightarrow> frame_id_t option \<times> LRUReplacer" where
  "lru_victim r =
     (if LRUlist r \<noteq> [] then
        let frame_id = snd (last (LRUlist r)) in
        (Some frame_id,
         r\<lparr>LRUlist := butlast (LRUlist r), LRUhash := (LRUhash r)(frame_id := None)\<rparr>)
      else (None, r))"

definition lru_pin :: "LRUReplacer \<Rightarrow> frame_id_t \<Rightarrow> LRUReplacer" where
  "lru_pin r frame_id =
     (case LRUhash r frame_id of
        Some it \<Rightarrow> r\<lparr>LRUlist := list_erase it (LRUlist r),
                     LRUhash := (LRUhash r)(frame_id := None)\<rparr>
      | None \<Rightarrow> r)"

definition lru_unpin :: "LRUReplacer \<Rightarrow> frame_id_t \<Rightarrow> LRUReplacer" where
  "lru_unpin r frame_id =
     (case LRUhash r frame_id of
        None \<Rightarrow> r\<lparr>LRUlist := (next_node r, frame_id) # LRUlist r,
                  LRUhash := (LRUhash r)(frame_id \<mapsto> next_node r),
                  next_node := Suc (next_node r)\<rparr>
      | Some _ \<Rightarrow> r)"

definition lru_Size :: "LRUReplacer \<Rightarrow> nat" where
  "lru_Size r = length (LRUlist r)"

text \<open>
  The frames that can be evicted, the one evicted first at the end, and the agreement of list and
  hash table: every node is fresh, has its own identity, and is the node the hash table names for
  its frame.
\<close>

definition lru_order :: "LRUReplacer \<Rightarrow> frame_id_t list" where
  "lru_order r = map snd (LRUlist r)"

definition lru_ok :: "LRUReplacer \<Rightarrow> bool" where
  "lru_ok r \<longleftrightarrow> distinct (map fst (LRUlist r))
     \<and> (\<forall>n f. (n, f) \<in> set (LRUlist r) \<longleftrightarrow> LRUhash r f = Some n)
     \<and> (\<forall>n \<in> set (map fst (LRUlist r)). n < next_node r)"

section \<open>The Replacer interface\<close>

locale replacer =
  fixes victim :: "'r \<Rightarrow> frame_id_t option \<times> 'r"
    and pin :: "'r \<Rightarrow> frame_id_t \<Rightarrow> 'r"
    and unpin :: "'r \<Rightarrow> frame_id_t \<Rightarrow> 'r"
    and rsize :: "'r \<Rightarrow> nat"
    and order :: "'r \<Rightarrow> frame_id_t list"
    and ok :: "'r \<Rightarrow> bool"
  assumes order_distinct: "ok r \<Longrightarrow> distinct (order r)"
    and victim_none: "ok r \<Longrightarrow> order r = [] \<Longrightarrow> victim r = (None, r)"
    and victim_some: "ok r \<Longrightarrow> order r \<noteq> [] \<Longrightarrow>
      \<exists>r'. victim r = (Some (last (order r)), r') \<and> order r' = butlast (order r) \<and> ok r'"
    and order_pin: "ok r \<Longrightarrow> order (pin r f) = filter (\<lambda>g. g \<noteq> f) (order r)"
    and ok_pin: "ok r \<Longrightarrow> ok (pin r f)"
    and order_unpin: "ok r \<Longrightarrow> order (unpin r f) = (if f \<in> set (order r) then order r else f # order r)"
    and ok_unpin: "ok r \<Longrightarrow> ok (unpin r f)"
    and rsize_order: "ok r \<Longrightarrow> rsize r = length (order r)"
begin

lemma victim_cases:
  assumes "ok r" and "victim r = (v, r')"
  shows "(v = None \<and> r' = r \<and> order r = [])
    \<or> (\<exists>f. v = Some f \<and> f \<in> set (order r) \<and> ok r' \<and> set (order r') = set (order r) - {f})"
proof (cases "order r = []")
  case True
  with assms victim_none show ?thesis by auto
next
  case False
  with assms victim_some have v: "v = Some (last (order r))" "order r' = butlast (order r)" "ok r'"
    by fastforce+
  have "order r = butlast (order r) @ [last (order r)]" using False by simp
  then have "set (butlast (order r)) = set (order r) - {last (order r)}"
    using order_distinct [OF assms(1)]
    by (metis Diff_insert_absorb distinct_append inf_commute list.set(1) list.simps(15)
        disjoint_insert(1) set_append Un_insert_right Un_empty_right)
  with v False show ?thesis by auto
qed

lemma set_order_pin: "ok r \<Longrightarrow> set (order (pin r f)) = set (order r) - {f}"
  by (auto simp: order_pin)

lemma set_order_unpin: "ok r \<Longrightarrow> set (order (unpin r f)) = insert f (set (order r))"
  by (auto simp: order_unpin)

text \<open>A pinned frame is never the victim.\<close>

lemma pinned_not_victim: "ok r \<Longrightarrow> fst (victim (pin r f)) \<noteq> Some f"
proof -
  assume ok: "ok r"
  obtain v r' where v: "victim (pin r f) = (v, r')" by fastforce
  from victim_cases [OF ok_pin [OF ok] v] show ?thesis
    by (elim disjE exE conjE) (simp_all add: v set_order_pin [OF ok])
qed

text \<open>A frame unpinned last is evicted after every frame that was there before.\<close>

lemma unpinned_evicted_last:
  assumes "ok r" and "f \<notin> set (order r)" and "order r \<noteq> []"
  shows "fst (victim (unpin r f)) = fst (victim r)"
proof -
  have "order (unpin r f) = f # order r" using assms by (simp add: order_unpin)
  then show ?thesis
    using victim_some [OF ok_unpin [OF assms(1), of f]] victim_some [OF assms(1,3)] assms(3) by auto
qed

end

section \<open>LRUReplacer implements the interface\<close>

lemma lru_okD:
  assumes "lru_ok r"
  shows "distinct (map fst (LRUlist r))" and "(n, f) \<in> set (LRUlist r) \<longleftrightarrow> LRUhash r f = Some n"
    and "(n, f) \<in> set (LRUlist r) \<Longrightarrow> n < next_node r"
  using assms by (force simp: lru_ok_def)+

lemma lru_ok_distinct_order: "lru_ok r \<Longrightarrow> distinct (lru_order r)"
proof -
  assume ok: "lru_ok r"
  then have "inj_on snd (set (LRUlist r))"
    by (auto simp: inj_on_def lru_okD(2))
  moreover have "distinct (LRUlist r)"
    using lru_okD(1) [OF ok] by (simp add: distinct_map)
  ultimately show ?thesis by (simp add: lru_order_def distinct_map)
qed

lemma in_lru_order: "lru_ok r \<Longrightarrow> f \<in> set (lru_order r) \<longleftrightarrow> LRUhash r f \<noteq> None"
proof -
  assume ok: "lru_ok r"
  have "f \<in> set (lru_order r) \<longleftrightarrow> (\<exists>n. (n, f) \<in> set (LRUlist r))"
    by (force simp: lru_order_def)
  then show ?thesis by (simp add: lru_okD(2) [OF ok])
qed

lemma lru_hash_inj: "lru_ok r \<Longrightarrow> LRUhash r f = Some n \<Longrightarrow> LRUhash r g = Some n \<Longrightarrow> g = f"
  using eq_key_imp_eq_value [of "LRUlist r" n g f] by (simp add: lru_okD(1) lru_okD(2))

lemma lru_ok_new [simp]: "lru_ok (lru_new n)" "lru_order (lru_new n) = []"
  by (simp_all add: lru_ok_def lru_new_def lru_order_def)

lemma lru_ok_pin: "lru_ok r \<Longrightarrow> lru_ok (lru_pin r f)"
proof (cases "LRUhash r f")
  case None
  then show "lru_ok r \<Longrightarrow> ?thesis" by (simp add: lru_pin_def)
next
  case (Some it)
  assume ok: "lru_ok r"
  have mem: "(n, g) \<in> set (list_erase it (LRUlist r)) \<longleftrightarrow> n \<noteq> it \<and> LRUhash r g = Some n" for n g
    using lru_okD(2) [OF ok] by (auto simp: list_erase_def)
  have inj: "g = f" if "LRUhash r g = Some it" for g
    using ok Some that by (rule lru_hash_inj)
  have "distinct (map fst (list_erase it (LRUlist r)))"
    using lru_okD(1) [OF ok] by (simp add: list_erase_def distinct_map_filter)
  moreover have "\<forall>n g. (n, g) \<in> set (list_erase it (LRUlist r)) \<longleftrightarrow>
      ((LRUhash r)(f := None)) g = Some n"
  proof (intro allI)
    fix n g
    show "(n, g) \<in> set (list_erase it (LRUlist r)) \<longleftrightarrow> ((LRUhash r)(f := None)) g = Some n"
      unfolding mem using inj [of g] Some by (cases "g = f") auto
  qed
  moreover have "\<forall>n \<in> set (map fst (list_erase it (LRUlist r))). n < next_node r"
    using lru_okD(3) [OF ok] by (auto simp: list_erase_def)
  ultimately show ?thesis using Some by (simp add: lru_pin_def lru_ok_def)
qed

lemma lru_order_pin: "lru_ok r \<Longrightarrow> lru_order (lru_pin r f) = filter (\<lambda>g. g \<noteq> f) (lru_order r)"
proof (cases "LRUhash r f")
  case None
  assume ok: "lru_ok r"
  then have "f \<notin> set (lru_order r)" using None by (simp add: in_lru_order)
  then have "filter (\<lambda>g. g \<noteq> f) (lru_order r) = lru_order r" by (metis (mono_tags) filter_True)
  then show ?thesis using None by (simp add: lru_pin_def)
next
  case (Some it)
  assume ok: "lru_ok r"
  have "fst p \<noteq> it \<longleftrightarrow> snd p \<noteq> f" if "p \<in> set (LRUlist r)" for p
    using that lru_hash_inj [OF ok Some, of "snd p"] Some lru_okD(2) [OF ok, of "fst p" "snd p"] by auto
  then have "filter (\<lambda>(n, _). n \<noteq> it) (LRUlist r) = filter (\<lambda>p. snd p \<noteq> f) (LRUlist r)"
    by (intro filter_cong) (auto simp: case_prod_beta)
  then show ?thesis
    using Some by (simp add: lru_pin_def lru_order_def list_erase_def filter_map o_def)
qed

lemma lru_ok_unpin: "lru_ok r \<Longrightarrow> lru_ok (lru_unpin r f)"
proof (cases "LRUhash r f")
  case (Some it)
  then show "lru_ok r \<Longrightarrow> ?thesis" by (simp add: lru_unpin_def)
next
  case None
  assume ok: "lru_ok r"
  have "next_node r \<notin> set (map fst (LRUlist r))" using ok by (auto simp: lru_ok_def)
  moreover have "LRUhash r g \<noteq> Some (next_node r)" for g
    using lru_okD(2,3) [OF ok, of "next_node r" g] by auto
  ultimately show ?thesis
    using ok None by (auto simp: lru_unpin_def lru_ok_def less_Suc_eq)
qed

lemma lru_order_unpin:
  "lru_ok r \<Longrightarrow> lru_order (lru_unpin r f) = (if f \<in> set (lru_order r) then lru_order r else f # lru_order r)"
proof -
  assume ok: "lru_ok r"
  show ?thesis
    unfolding in_lru_order [OF ok] by (auto simp: lru_unpin_def lru_order_def split: option.splits)
qed

lemma lru_victim_some:
  assumes ok: "lru_ok r" and ne: "lru_order r \<noteq> []"
  shows "\<exists>r'. lru_victim r = (Some (last (lru_order r)), r')
    \<and> lru_order r' = butlast (lru_order r) \<and> lru_ok r'"
proof -
  from ne have ne': "LRUlist r \<noteq> []" by (simp add: lru_order_def)
  obtain xs n f where xs: "LRUlist r = xs @ [(n, f)]"
    by (metis ne' rev_exhaust surj_pair)
  have f: "LRUhash r f = Some n" using lru_okD(2) [OF ok] xs by (metis in_set_conv_decomp)
  have "last (lru_order r) = f" by (simp add: lru_order_def xs)
  moreover have "lru_victim r =
      (Some f, r\<lparr>LRUlist := xs, LRUhash := (LRUhash r)(f := None)\<rparr>)"
    by (simp add: lru_victim_def xs)
  moreover have "lru_pin r f = r\<lparr>LRUlist := xs, LRUhash := (LRUhash r)(f := None)\<rparr>"
  proof -
    have "n \<notin> fst ` set xs" using lru_okD(1) [OF ok] xs by simp
    then have "list_erase n (LRUlist r) = xs"
      by (force simp: list_erase_def xs filter_id_conv)
    then show ?thesis using f by (simp add: lru_pin_def)
  qed
  moreover have "lru_order (r\<lparr>LRUlist := xs, LRUhash := (LRUhash r)(f := None)\<rparr>) = butlast (lru_order r)"
    by (simp add: lru_order_def xs)
  ultimately show ?thesis using lru_ok_pin [OF ok, of f] by simp
qed

interpretation lru: replacer lru_victim lru_pin lru_unpin lru_Size lru_order lru_ok
proof
  show "lru_ok r \<Longrightarrow> distinct (lru_order r)" for r by (rule lru_ok_distinct_order)
  show "lru_ok r \<Longrightarrow> lru_order r = [] \<Longrightarrow> lru_victim r = (None, r)" for r
    by (simp add: lru_victim_def lru_order_def)
  show "lru_ok r \<Longrightarrow> lru_order r \<noteq> [] \<Longrightarrow>
      \<exists>r'. lru_victim r = (Some (last (lru_order r)), r') \<and> lru_order r' = butlast (lru_order r) \<and> lru_ok r'" for r
    by (rule lru_victim_some)
  show "lru_ok r \<Longrightarrow> lru_Size r = length (lru_order r)" for r
    by (simp add: lru_Size_def lru_order_def)
qed (simp_all add: lru_order_pin lru_ok_pin lru_order_unpin lru_ok_unpin)

section \<open>Properties\<close>

text \<open>A client's sequence of calls, run on the replacer and on the plain eviction order.\<close>

datatype replacer_op = RPin frame_id_t | RUnpin frame_id_t | RVictim

fun lru_run :: "replacer_op list \<Rightarrow> LRUReplacer \<Rightarrow> frame_id_t option list \<times> LRUReplacer" where
  "lru_run [] r = ([], r)"
| "lru_run (RPin f # ops) r = lru_run ops (lru_pin r f)"
| "lru_run (RUnpin f # ops) r = lru_run ops (lru_unpin r f)"
| "lru_run (RVictim # ops) r =
     (case lru_victim r of (v, r') \<Rightarrow> (case lru_run ops r' of (vs, r'') \<Rightarrow> (v # vs, r'')))"

fun order_run :: "replacer_op list \<Rightarrow> frame_id_t list \<Rightarrow> frame_id_t option list \<times> frame_id_t list" where
  "order_run [] q = ([], q)"
| "order_run (RPin f # ops) q = order_run ops (filter (\<lambda>g. g \<noteq> f) q)"
| "order_run (RUnpin f # ops) q = order_run ops (if f \<in> set q then q else f # q)"
| "order_run (RVictim # ops) q =
     (case order_run ops (butlast q) of (vs, q') \<Rightarrow> ((if q = [] then None else Some (last q)) # vs, q'))"

lemma lru_run_order:
  "lru_ok r \<Longrightarrow> fst (lru_run ops r) = fst (order_run ops (lru_order r))
    \<and> lru_order (snd (lru_run ops r)) = snd (order_run ops (lru_order r)) \<and> lru_ok (snd (lru_run ops r))"
proof (induction ops arbitrary: r)
  case (Cons p ops)
  show ?case
  proof (cases p)
    case RVictim
    show ?thesis
    proof (cases "lru_order r = []")
      case True
      then show ?thesis
        using RVictim Cons.IH [OF Cons.prems] lru.victim_none [OF Cons.prems] by (auto split: prod.splits)
    next
      case False
      then obtain r' where r': "lru_victim r = (Some (last (lru_order r)), r')"
        "lru_order r' = butlast (lru_order r)" "lru_ok r'"
        using lru_victim_some [OF Cons.prems] by blast
      then show ?thesis using RVictim False Cons.IH [OF r'(3)] by (auto split: prod.splits)
    qed
  qed (use Cons in \<open>simp_all add: lru.ok_pin lru.ok_unpin lru.order_pin lru.order_unpin\<close>)
qed simp

text \<open>
  C4: for every sequence of \<^verbatim>\<open>pin\<close>, \<^verbatim>\<open>unpin\<close> and \<^verbatim>\<open>victim\<close> calls, the list-and-hash-table replacer
  returns the victims of the plain least-recently-unpinned order, and its list and hash table agree
  at the end.
\<close>

theorem lru_refines_order:
  "fst (lru_run ops (lru_new n)) = fst (order_run ops [])
   \<and> lru_order (snd (lru_run ops (lru_new n))) = snd (order_run ops [])
   \<and> lru_ok (snd (lru_run ops (lru_new n)))"
  using lru_run_order [of "lru_new n" ops] by simp

text \<open>
  A frame that has just been pinned is never the victim, and a frame that has just been unpinned
  is not the victim as long as another one is evictable.
\<close>

theorem lru_victim_choice:
  assumes "lru_ok r"
  shows "fst (lru_victim (lru_pin r f)) \<noteq> Some f
    \<and> (f \<notin> set (lru_order r) \<longrightarrow> lru_order r \<noteq> [] \<longrightarrow> fst (lru_victim (lru_unpin r f)) = Some (last (lru_order r)))"
  using lru.pinned_not_victim [OF assms] lru.unpinned_evicted_last [OF assms]
    lru_victim_some [OF assms] by fastforce

theorem lru_victim_choice_witness:
  "fst (lru_victim (lru_unpin (lru_unpin (lru_new 3) 2) 1)) = Some 2"
  using lru_victim_choice [of "lru_unpin (lru_new 3) 2" 1]
  by (simp add: lru_ok_unpin) (simp add: lru_unpin_def lru_new_def lru_order_def)

end
