(* ===== verification/Buffer_Pool.thy ===== *)
theory Buffer_Pool
  imports Disk Replacer
begin

text \<open>
  \<^verbatim>\<open>BufferPoolManager\<close> of \<^verbatim>\<open>storage/buffer_pool_manager.{h,cpp}\<close> with \<^verbatim>\<open>PageId\<close> and
  \<^verbatim>\<open>Page\<close> of \<^verbatim>\<open>storage/page.h\<close>. A \<^verbatim>\<open>Page *\<close> is the index of its frame. Each public
  operation is one atomic step: the latches are not part of the state. After an exception thrown
  by the disk manager the frame that was being filled stays pinned, as in the code, where its
  latch also stays locked.
\<close>

section \<open>State\<close>

record PageId =
  pid_fd :: int
  pid_no :: page_id_t

record Page =
  page_id :: PageId
  page_data :: bytes
  page_dirty :: bool
  page_pins :: int

record BufferPool =
  pool_size :: nat
  pages :: "Page list"
  page_table :: "PageId \<rightharpoonup> frame_id_t"
  free_list :: "frame_id_t list"
  repl :: LRUReplacer
  disk :: DiskManager

definition zero_page :: bytes where
  "zero_page = replicate PAGE_SIZE 0"

text \<open>
  The constructor. \<^verbatim>\<open>PageId::fd\<close> has no initialiser, so the descriptors of the empty frames
  are an arbitrary function \<open>junk\<close>.
\<close>

definition bp_init :: "nat \<Rightarrow> (nat \<Rightarrow> int) \<Rightarrow> DiskManager \<Rightarrow> BufferPool" where
  "bp_init n junk d =
     \<lparr>pool_size = n,
      pages = map (\<lambda>i. \<lparr>page_id = \<lparr>pid_fd = junk i, pid_no = INVALID_PAGE_ID\<rparr>, page_data = zero_page,
                        page_dirty = False, page_pins = 0\<rparr>) [0..<n],
      page_table = Map.empty, free_list = [0..<n], repl = lru_new n, disk = d\<rparr>"

definition upd_page :: "frame_id_t \<Rightarrow> (Page \<Rightarrow> Page) \<Rightarrow> BufferPool \<Rightarrow> BufferPool" where
  "upd_page f g b = b\<lparr>pages := (pages b)[f := g (pages b ! f)]\<rparr>"

definition lift_disk :: "(DiskManager, 'a) stm \<Rightarrow> (BufferPool, 'a) stm" where
  "lift_disk m b = (case m (disk b) of (r, d) \<Rightarrow> (r, b\<lparr>disk := d\<rparr>))"

definition modifyE :: "('s \<Rightarrow> 's) \<Rightarrow> ('s, unit) stm" where
  "modifyE g s = (Inr (), g s)"

section \<open>Operations\<close>

definition find_victim_page :: "BufferPool \<Rightarrow> frame_id_t option \<times> BufferPool" where
  "find_victim_page b =
     (case free_list b of
        f # fs \<Rightarrow> (Some f, b\<lparr>free_list := fs\<rparr>)
      | [] \<Rightarrow> (case lru_victim (repl b) of (v, r) \<Rightarrow> (v, b\<lparr>repl := r\<rparr>)))"

text \<open>\<^verbatim>\<open>disk_manager_->write_page(page.id_.fd, page.id_.page_no, page.data_, PAGE_SIZE)\<close>.\<close>

definition write_frame :: "frame_id_t \<Rightarrow> (BufferPool, unit) stm" where
  "write_frame f b =
     lift_disk (write_page (pid_fd (page_id (pages b ! f))) (pid_no (page_id (pages b ! f)))
                  (page_data (pages b ! f))) b"

definition update_page :: "frame_id_t \<Rightarrow> PageId \<Rightarrow> frame_id_t \<Rightarrow> (BufferPool, unit) stm" where
  "update_page f new_pid new_f b =
     bindE (if page_dirty (pages b ! f)
            then bindE (write_frame f) (\<lambda>_. modifyE (upd_page f (\<lambda>p. p\<lparr>page_dirty := False\<rparr>)))
            else returnE ())
       (\<lambda>_. modifyE (\<lambda>b. upd_page f (\<lambda>p. p\<lparr>page_data := zero_page, page_id := new_pid\<rparr>)
           (b\<lparr>page_table := (page_table b)(page_id (pages b ! f) := None, new_pid \<mapsto> new_f)\<rparr>))) b"

definition fetch_page :: "PageId \<Rightarrow> (BufferPool, frame_id_t option) stm" where
  "fetch_page pid b =
     (case page_table b pid of
        Some f \<Rightarrow>
          (Inr (Some f), upd_page f (\<lambda>p. p\<lparr>page_pins := page_pins p + 1\<rparr>) (b\<lparr>repl := lru_pin (repl b) f\<rparr>))
      | None \<Rightarrow>
          (case find_victim_page b of
             (None, b1) \<Rightarrow> (Inr None, b1)
           | (Some f, b1) \<Rightarrow>
               bindE (modifyE (\<lambda>b. b\<lparr>page_table := (page_table b)(page_id (pages b ! f) := None, pid \<mapsto> f)\<rparr>)) (\<lambda>_.
               bindE (if page_dirty (pages b1 ! f)
                      then bindE (write_frame f) (\<lambda>_. modifyE (upd_page f (\<lambda>p. p\<lparr>page_dirty := False\<rparr>)))
                      else returnE ()) (\<lambda>_.
               bindE (modifyE (upd_page f (\<lambda>p. p\<lparr>page_pins := 1, page_id := pid, page_data := zero_page\<rparr>))) (\<lambda>_.
               bindE (lift_disk (read_page (pid_fd pid) (pid_no pid) PAGE_SIZE)) (\<lambda>r.
               bindE (modifyE (upd_page f (\<lambda>p. p\<lparr>page_data := r\<rparr>))) (\<lambda>_.
               returnE (Some f)))))) b1))"

definition unpin_page :: "PageId \<Rightarrow> bool \<Rightarrow> BufferPool \<Rightarrow> bool \<times> BufferPool" where
  "unpin_page pid dirty b =
     (case page_table b pid of
        None \<Rightarrow> (False, b)
      | Some f \<Rightarrow>
          if page_pins (pages b ! f) = 0 then (False, b)
          else
            let b1 = upd_page f (\<lambda>p. p\<lparr>page_pins := page_pins p - 1\<rparr>) b;
                b2 = (if page_pins (pages b1 ! f) = 0 then b1\<lparr>repl := lru_unpin (repl b1) f\<rparr> else b1)
            in (True, if dirty then upd_page f (\<lambda>p. p\<lparr>page_dirty := dirty\<rparr>) b2 else b2))"

definition mark_dirty :: "frame_id_t \<Rightarrow> BufferPool \<Rightarrow> BufferPool" where
  "mark_dirty f = upd_page f (\<lambda>p. p\<lparr>page_dirty := True\<rparr>)"

definition flush_page :: "PageId \<Rightarrow> (BufferPool, bool) stm" where
  "flush_page pid b =
     (case page_table b pid of
        Some f \<Rightarrow>
          bindE (modifyE (upd_page f (\<lambda>p. p\<lparr>page_dirty := False\<rparr>))) (\<lambda>_.
          bindE (write_frame f) (\<lambda>_. returnE True)) b
      | None \<Rightarrow> (Inr False, b))"

definition new_page :: "int \<Rightarrow> (BufferPool, (frame_id_t \<times> PageId) option) stm" where
  "new_page fd b =
     (case find_victim_page b of
        (None, b1) \<Rightarrow> (Inr None, b1)
      | (Some f, b1) \<Rightarrow>
          bindE (modifyE (\<lambda>b. b\<lparr>page_table := (page_table b)(page_id (pages b ! f) := None)\<rparr>)) (\<lambda>_.
          bindE (lift_disk (allocate_page fd)) (\<lambda>pno.
          bindE (if page_dirty (pages b1 ! f) then write_frame f else returnE ()) (\<lambda>_.
          bindE (modifyE (upd_page f (\<lambda>p. p\<lparr>page_data := zero_page, page_pins := 1, page_dirty := False,
                                            page_id := \<lparr>pid_fd = fd, pid_no = pno\<rparr>\<rparr>))) (\<lambda>_.
          bindE (modifyE (\<lambda>b. b\<lparr>page_table := (page_table b)(\<lparr>pid_fd = fd, pid_no = pno\<rparr> \<mapsto> f)\<rparr>)) (\<lambda>_.
          returnE (Some (f, \<lparr>pid_fd = fd, pid_no = pno\<rparr>))))))) b1)"

definition delete_page :: "PageId \<Rightarrow> (BufferPool, bool) stm" where
  "delete_page pid b =
     (case page_table b pid of
        None \<Rightarrow> bindE (lift_disk (deallocate_page (pid_no pid))) (\<lambda>_. returnE True) b
      | Some f \<Rightarrow>
          if page_pins (pages b ! f) > 0 then (Inr False, b)
          else
            bindE (modifyE (\<lambda>b. b\<lparr>repl := lru_pin (repl b) f, page_table := (page_table b)(pid := None),
                                  free_list := free_list b @ [f]\<rparr>)) (\<lambda>_.
            bindE (if page_dirty (pages b ! f)
                   then bindE (write_frame f) (\<lambda>_. modifyE (upd_page f (\<lambda>p. p\<lparr>page_dirty := False\<rparr>)))
                   else returnE ()) (\<lambda>_.
            bindE (modifyE (upd_page f (\<lambda>p. p\<lparr>page_data := zero_page,
                                              page_id := \<lparr>pid_fd = -1, pid_no = INVALID_PAGE_ID\<rparr>\<rparr>))) (\<lambda>_.
            bindE (lift_disk (deallocate_page (pid_no pid))) (\<lambda>_.
            returnE True)))) b)"

definition flush_frame :: "int \<Rightarrow> frame_id_t \<Rightarrow> (BufferPool, unit) stm" where
  "flush_frame fd f b =
     (let pid = page_id (pages b ! f) in
      if pid_no pid \<noteq> INVALID_PAGE_ID \<and> pid_fd pid = fd
      then bindE (modifyE (upd_page f (\<lambda>p. p\<lparr>page_dirty := False\<rparr>))) (\<lambda>_. write_frame f) b
      else (Inr (), b))"

fun forE :: "('a \<Rightarrow> ('s, unit) stm) \<Rightarrow> 'a list \<Rightarrow> ('s, unit) stm" where
  "forE m [] = returnE ()"
| "forE m (x # xs) = bindE (m x) (\<lambda>_. forE m xs)"

definition flush_all_pages :: "int \<Rightarrow> (BufferPool, unit) stm" where
  "flush_all_pages fd b = forE (flush_frame fd) [0..<pool_size b] b"

definition free_page :: "PageId \<Rightarrow> (BufferPool, unit) stm" where
  "free_page pid b =
     (case page_table b pid of
        None \<Rightarrow> (Inr (), b)
      | Some f \<Rightarrow>
          bindE (assertE (page_pins (pages b ! f) = 0)) (\<lambda>_.
          bindE (assertE (page_dirty (pages b ! f) = False)) (\<lambda>_.
          modifyE (\<lambda>b. upd_page f (\<lambda>p. p\<lparr>page_id := (page_id p)\<lparr>pid_no := INVALID_PAGE_ID\<rparr>\<rparr>)
            (b\<lparr>repl := lru_pin (repl b) f, page_table := (page_table b)(pid := None),
               free_list := free_list b @ [f]\<rparr>)))) b)"

definition free_frame :: "int \<Rightarrow> frame_id_t \<Rightarrow> (BufferPool, unit) stm" where
  "free_frame fd f b =
     (let pid = page_id (pages b ! f) in
      if pid_no pid \<noteq> INVALID_PAGE_ID \<and> pid_fd pid = fd
      then
        bindE (assertE (page_pins (pages b ! f) = 0)) (\<lambda>_.
        bindE (assertE (page_dirty (pages b ! f) = False)) (\<lambda>_.
        modifyE (\<lambda>b. upd_page f (\<lambda>p. p\<lparr>page_id := (page_id p)\<lparr>pid_no := INVALID_PAGE_ID\<rparr>\<rparr>)
          (b\<lparr>repl := lru_pin (repl b) f, page_table := (page_table b)(pid := None),
             free_list := free_list b @ [f]\<rparr>)))) b
      else (Inr (), b))"

definition free_all_pages :: "int \<Rightarrow> (BufferPool, unit) stm" where
  "free_all_pages fd b = forE (free_frame fd) [0..<pool_size b] b"

text \<open>What a client does through a pinned \<^verbatim>\<open>Page *\<close>: read the bytes, or overwrite them.\<close>

definition frame_data :: "BufferPool \<Rightarrow> frame_id_t \<Rightarrow> bytes" where
  "frame_data b f = page_data (pages b ! f)"

definition poke :: "frame_id_t \<Rightarrow> bytes \<Rightarrow> BufferPool \<Rightarrow> BufferPool" where
  "poke f bs = upd_page f (\<lambda>p. p\<lparr>page_data := bs\<rparr>)"

section \<open>Abstraction and invariant\<close>

text \<open>The current contents of a page: its frame if it is cached, the disk otherwise.\<close>

definition content :: "BufferPool \<Rightarrow> PageId \<Rightarrow> bytes option" where
  "content b pid =
     (case page_table b pid of
        Some f \<Rightarrow> Some (frame_data b f)
      | None \<Rightarrow> disk_page (disk b) (pid_fd pid) (pid_no pid))"

definition valid_pid :: "DiskManager \<Rightarrow> PageId \<Rightarrow> bool" where
  "valid_pid d pid \<longleftrightarrow> page_in_range (pid_no pid) \<and> fd2path d (pid_fd pid) \<noteq> None"

definition bp_ok :: "BufferPool \<Rightarrow> bool" where
  "bp_ok b \<longleftrightarrow>
     length (pages b) = pool_size b
     \<and> (\<forall>f < pool_size b. length (frame_data b f) = PAGE_SIZE \<and> 0 \<le> page_pins (pages b ! f))
     \<and> disk_ok (disk b) \<and> lru_ok (repl b)
     \<and> distinct (free_list b) \<and> set (free_list b) \<subseteq> {..<pool_size b}
     \<and> (\<forall>pid f. page_table b pid = Some f \<longrightarrow>
           f < pool_size b \<and> f \<notin> set (free_list b) \<and> page_id (pages b ! f) = pid \<and> valid_pid (disk b) pid)
     \<and> (\<forall>f < pool_size b. f \<notin> set (free_list b) \<longrightarrow> page_table b (page_id (pages b ! f)) = Some f)
     \<and> (\<forall>f \<in> set (free_list b). page_pins (pages b ! f) = 0 \<and> \<not> page_dirty (pages b ! f)
           \<and> pid_no (page_id (pages b ! f)) = INVALID_PAGE_ID)
     \<and> set (lru_order (repl b)) = {f. f < pool_size b \<and> f \<notin> set (free_list b) \<and> page_pins (pages b ! f) = 0}
     \<and> (\<forall>f < pool_size b. f \<notin> set (free_list b) \<and> page_pins (pages b ! f) = 0 \<and> \<not> page_dirty (pages b ! f) \<longrightarrow>
           disk_page (disk b) (pid_fd (page_id (pages b ! f))) (pid_no (page_id (pages b ! f)))
             = Some (frame_data b f))"

text \<open>Every page that was readable is still readable with the same bytes.\<close>

definition keeps_content :: "BufferPool \<Rightarrow> BufferPool \<Rightarrow> bool" where
  "keeps_content b b' \<longleftrightarrow>
     (\<forall>pid x. valid_pid (disk b) pid \<longrightarrow> content b pid = Some x \<longrightarrow> content b' pid = Some x)"

text \<open>
  The pin count of a page (0 when it is not cached), and the pages whose bytes would be lost if
  their frame were given away: cached, not marked dirty, and different from the disk.
\<close>

definition pins :: "BufferPool \<Rightarrow> PageId \<Rightarrow> int" where
  "pins b pid = (case page_table b pid of Some f \<Rightarrow> page_pins (pages b ! f) | None \<Rightarrow> 0)"

definition stale :: "BufferPool \<Rightarrow> PageId \<Rightarrow> bool" where
  "stale b pid \<longleftrightarrow>
     (case page_table b pid of
        Some f \<Rightarrow> \<not> page_dirty (pages b ! f) \<and> disk_page (disk b) (pid_fd pid) (pid_no pid) \<noteq> Some (frame_data b f)
      | None \<Rightarrow> False)"

section \<open>Consequences of the invariant\<close>

lemma bp_okD:
  assumes "bp_ok b"
  shows "length (pages b) = pool_size b" and "disk_ok (disk b)" and "lru_ok (repl b)"
    and "distinct (free_list b)"
    and "f \<in> set (free_list b) \<Longrightarrow> f < pool_size b"
    and "f < pool_size b \<Longrightarrow> length (frame_data b f) = PAGE_SIZE"
    and "f < pool_size b \<Longrightarrow> 0 \<le> page_pins (pages b ! f)"
    and "f < pool_size b \<Longrightarrow> f \<notin> set (free_list b) \<Longrightarrow> page_table b (page_id (pages b ! f)) = Some f"
    and "f \<in> set (free_list b) \<Longrightarrow> page_pins (pages b ! f) = 0"
    and "f \<in> set (free_list b) \<Longrightarrow> \<not> page_dirty (pages b ! f)"
    and "f \<in> set (free_list b) \<Longrightarrow> pid_no (page_id (pages b ! f)) = INVALID_PAGE_ID"
    and "f \<in> set (lru_order (repl b)) \<longleftrightarrow> f < pool_size b \<and> f \<notin> set (free_list b) \<and> page_pins (pages b ! f) = 0"
    and "f < pool_size b \<Longrightarrow> f \<notin> set (free_list b) \<Longrightarrow> page_pins (pages b ! f) = 0 \<Longrightarrow> \<not> page_dirty (pages b ! f) \<Longrightarrow>
      disk_page (disk b) (pid_fd (page_id (pages b ! f))) (pid_no (page_id (pages b ! f))) = Some (frame_data b f)"
  using assms unfolding bp_ok_def by auto

lemma bp_ok_table:
  assumes "bp_ok b" and "page_table b pid = Some f"
  shows "f < pool_size b" and "f \<notin> set (free_list b)" and "page_id (pages b ! f) = pid" and "valid_pid (disk b) pid"
  using assms unfolding bp_ok_def by blast+

lemma valid_pid_not_invalid: "valid_pid d pid \<Longrightarrow> pid_no pid \<noteq> INVALID_PAGE_ID"
  by (auto simp: valid_pid_def page_in_range_def INVALID_PAGE_ID_def)

lemma upd_page_simps [simp]:
  "pool_size (upd_page f g b) = pool_size b" "page_table (upd_page f g b) = page_table b"
  "free_list (upd_page f g b) = free_list b" "repl (upd_page f g b) = repl b"
  "disk (upd_page f g b) = disk b" "pages (upd_page f g b) = (pages b)[f := g (pages b ! f)]"
  by (simp_all add: upd_page_def)

lemma page_at_upd: "f < length ps \<Longrightarrow> ps[f := p] ! f' = (if f' = f then p else ps ! f')"
  by auto

lemma PageId_eqI: "pid_fd p = pid_fd q \<Longrightarrow> pid_no p = pid_no q \<Longrightarrow> p = (q :: PageId)"
  by (cases p; cases q) simp

lemma page_clean_same: "\<not> page_dirty p \<Longrightarrow> p\<lparr>page_dirty := False\<rparr> = p"
  by (cases p) simp

lemma page_overwrite:
  "p\<lparr>page_dirty := w, page_pins := n, page_id := pid, page_data := x\<rparr> =
   \<lparr>page_id = pid, page_data = x, page_dirty = w, page_pins = n\<rparr>"
  "p\<lparr>page_data := x, page_pins := n, page_dirty := w, page_id := pid\<rparr> =
   \<lparr>page_id = pid, page_data = x, page_dirty = w, page_pins = n\<rparr>"
  by (cases p; simp)+

lemma bp_init_ok: "disk_ok d \<Longrightarrow> bp_ok (bp_init n junk d)"
  by (auto simp: bp_ok_def bp_init_def frame_data_def zero_page_def)

section \<open>Victims\<close>

lemma find_victim_none:
  assumes "bp_ok b" and "find_victim_page b = (None, b1)"
  shows "b1 = b" and "\<forall>f < pool_size b. 0 < page_pins (pages b ! f)"
proof -
  obtain v r where v: "lru_victim (repl b) = (v, r)" by fastforce
  have e: "free_list b = []" and "v = None" and b1: "b1 = b\<lparr>repl := r\<rparr>"
    using assms(2) v by (auto simp: find_victim_page_def split: list.splits)
  with lru.victim_cases [OF bp_okD(3) [OF assms(1)] v] have r: "r = repl b" "lru_order (repl b) = []"
    by auto
  show "b1 = b" by (simp add: b1 r)
  show "\<forall>f < pool_size b. 0 < page_pins (pages b ! f)"
    using bp_okD(7,12) [OF assms(1)] e r(2) by (fastforce simp: order_less_le)
qed

lemma find_victim_some:
  assumes "bp_ok b" and "find_victim_page b = (Some f, b1)"
  shows "f < pool_size b" and "page_pins (pages b ! f) = 0"
    and "set (free_list b1) = set (free_list b) - {f}" and "distinct (free_list b1)"
    and "lru_ok (repl b1)" and "set (lru_order (repl b1)) = set (lru_order (repl b)) - {f}"
    and "b1 = b\<lparr>free_list := free_list b1, repl := repl b1\<rparr>"
    and "f \<notin> set (free_list b) \<Longrightarrow> page_table b (page_id (pages b ! f)) = Some f"
proof -
  note ok = bp_okD [OF assms(1)]
  have main: "f < pool_size b \<and> page_pins (pages b ! f) = 0
    \<and> set (free_list b1) = set (free_list b) - {f} \<and> distinct (free_list b1)
    \<and> lru_ok (repl b1) \<and> set (lru_order (repl b1)) = set (lru_order (repl b)) - {f}
    \<and> b1 = b\<lparr>free_list := free_list b1, repl := repl b1\<rparr>"
  proof (cases "free_list b")
    case Nil
    obtain v r where v: "lru_victim (repl b) = (v, r)" by fastforce
    have "v = Some f" and b1: "b1 = b\<lparr>repl := r\<rparr>"
      using assms(2) v Nil by (auto simp: find_victim_page_def)
    with lru.victim_cases [OF ok(3) v] have "f \<in> set (lru_order (repl b))" "lru_ok r"
      "set (lru_order r) = set (lru_order (repl b)) - {f}"
      by auto
    with ok(12) Nil show ?thesis by (simp add: b1)
  next
    case (Cons g fs)
    then have b1: "g = f" "b1 = b\<lparr>free_list := fs\<rparr>" using assms(2) by (auto simp: find_victim_page_def)
    then have "f \<in> set (free_list b)" using Cons by simp
    moreover from this have "f \<notin> set (lru_order (repl b))" using ok(12) by simp
    ultimately show ?thesis using ok(3,4,5,9) Cons b1 by auto
  qed
  then show "f < pool_size b" "page_pins (pages b ! f) = 0"
    "set (free_list b1) = set (free_list b) - {f}" "distinct (free_list b1)"
    "lru_ok (repl b1)" "set (lru_order (repl b1)) = set (lru_order (repl b)) - {f}"
    "b1 = b\<lparr>free_list := free_list b1, repl := repl b1\<rparr>"
    by blast+
  with ok(8) show "f \<notin> set (free_list b) \<Longrightarrow> page_table b (page_id (pages b ! f)) = Some f" by simp
qed

lemma find_victim_frame:
  assumes "find_victim_page b = (v, b1)"
  shows "pool_size b1 = pool_size b" and "pages b1 = pages b" and "page_table b1 = page_table b"
    and "disk b1 = disk b"
  using assms by (auto simp: find_victim_page_def split: list.splits prod.splits)

text \<open>
  Putting a new pinned page into the frame of a victim, over a disk on which every page but the
  victim's own is as before.
\<close>

definition install :: "BufferPool \<Rightarrow> BufferPool \<Rightarrow> frame_id_t \<Rightarrow> Page \<Rightarrow> DiskManager \<Rightarrow> BufferPool" where
  "install b b1 f np d =
     b1\<lparr>page_table := (page_table b)(page_id (pages b ! f) := None, page_id np \<mapsto> f),
        disk := d, pages := (pages b)[f := np]\<rparr>"

definition disk_extends :: "DiskManager \<Rightarrow> PageId \<Rightarrow> DiskManager \<Rightarrow> bool" where
  "disk_extends d pid d' \<longleftrightarrow> disk_ok d' \<and> fd2path d' = fd2path d
     \<and> (\<forall>pid' x. fd2path d (pid_fd pid') \<noteq> None \<longrightarrow> disk_page d (pid_fd pid') (pid_no pid') = Some x \<longrightarrow>
          pid' \<noteq> pid \<longrightarrow> disk_page d' (pid_fd pid') (pid_no pid') = Some x)"

lemma disk_extendsD:
  assumes "disk_extends d pid d'"
  shows "disk_ok d'" and "fd2path d' = fd2path d" and "valid_pid d' pid' = valid_pid d pid'"
    and "valid_pid d pid' \<Longrightarrow> disk_page d (pid_fd pid') (pid_no pid') = Some x \<Longrightarrow> pid' \<noteq> pid \<Longrightarrow>
      disk_page d' (pid_fd pid') (pid_no pid') = Some x"
  using assms by (auto simp: disk_extends_def valid_pid_def)

lemma victim_id_differs:
  assumes "bp_ok b" and "find_victim_page b = (Some f, b1)"
    and "page_table b pid = None" and "valid_pid d pid"
  shows "page_id (pages b ! f) \<noteq> pid"
proof (cases "f \<in> set (free_list b)")
  case True
  with bp_okD(11) [OF assms(1)] valid_pid_not_invalid [OF assms(4)] show ?thesis by auto
next
  case False
  with find_victim_some(8) [OF assms(1,2)] assms(3) show ?thesis by auto
qed

lemma install_ok:
  assumes ok: "bp_ok b" and v: "find_victim_page b = (Some f, b1)"
    and fresh: "page_table b (page_id np) = None" and val: "valid_pid (disk b) (page_id np)"
    and len: "length (page_data np) = PAGE_SIZE" and pins: "0 < page_pins np"
    and ext: "disk_extends (disk b) (page_id (pages b ! f)) d"
  shows "bp_ok (install b b1 f np d)"
proof -
  note o = bp_okD [OF ok] and vs = find_victim_some [OF ok v] and e = disk_extendsD [OF ext]
  have neq: "page_id (pages b ! f) \<noteq> page_id np" by (rule victim_id_differs [OF ok v fresh val])
  let ?c = "install b b1 f np d"
  have ps: "pool_size ?c = pool_size b" using find_victim_frame(1) [OF v] by (simp add: install_def)
  have pg: "pages ?c ! g = (if g = f then np else pages b ! g)" for g
    using vs(1) o(1) by (simp add: install_def)
  have fl: "set (free_list ?c) = set (free_list b) - {f}" "distinct (free_list ?c)" "f \<notin> set (free_list ?c)"
    using vs by (simp_all add: install_def)
  have tab: "page_table ?c = (page_table b)(page_id (pages b ! f) := None, page_id np \<mapsto> f)"
    and dk: "disk ?c = d" and rp: "repl ?c = repl b1" and lp: "length (pages ?c) = pool_size b"
    using o(1) by (simp_all add: install_def)
  have other: "page_id (pages b ! g) \<noteq> page_id (pages b ! f)"
    if "g < pool_size b" "g \<notin> set (free_list b)" "g \<noteq> f" for g
  proof
    assume eq: "page_id (pages b ! g) = page_id (pages b ! f)"
    have t: "page_table b (page_id (pages b ! g)) = Some g" by (rule o(8) [OF that(1,2)])
    show False
    proof (cases "f \<in> set (free_list b)")
      case True
      then show False
        using o(11) eq valid_pid_not_invalid [OF bp_ok_table(4) [OF ok t]] by simp
    next
      case False
      then show False using vs(8) t eq that(3) by simp
    qed
  qed
  have nid: "page_id (pages b ! g) \<noteq> page_id np" if "g < pool_size b" "g \<notin> set (free_list b)" for g
    using o(8) [OF that] fresh by auto
  show ?thesis
    unfolding bp_ok_def ps
  proof (intro conjI allI impI ballI)
    show "length (pages ?c) = pool_size b" by (rule lp)
    show "length (frame_data ?c g) = PAGE_SIZE" if "g < pool_size b" for g
      using o(6) [OF that] len by (simp add: frame_data_def pg)
    show "0 \<le> page_pins (pages ?c ! g)" if "g < pool_size b" for g
      using o(7) [OF that] pins by (simp add: pg)
    show "disk_ok (disk ?c)" using e(1) by (simp add: dk)
    show "lru_ok (repl ?c)" using vs(5) by (simp add: rp)
    show "distinct (free_list ?c)" by (rule fl(2))
    show "set (free_list ?c) \<subseteq> {..<pool_size b}" using fl(1) o(5) by auto
  next
    fix pid g
    assume "page_table ?c pid = Some g"
    then consider "pid = page_id np" "g = f" | "pid \<noteq> page_id np" "pid \<noteq> page_id (pages b ! f)" "page_table b pid = Some g"
      by (auto simp: tab split: if_splits)
    then have "g < pool_size b \<and> g \<notin> set (free_list ?c) \<and> page_id (pages ?c ! g) = pid \<and> valid_pid (disk ?c) pid"
    proof cases
      case 1
      then show ?thesis using vs(1) fl(3) val e(3) by (simp add: pg dk)
    next
      case 2
      note t = bp_ok_table [OF ok 2(3)]
      then have "g \<noteq> f" using 2(2) by auto
      with t show ?thesis using fl(1) e(3) by (simp add: pg dk)
    qed
    then show "g < pool_size b" "g \<notin> set (free_list ?c)" "page_id (pages ?c ! g) = pid" "valid_pid (disk ?c) pid"
      by blast+
  next
    fix g
    assume g: "g < pool_size b" "g \<notin> set (free_list ?c)"
    show "page_table ?c (page_id (pages ?c ! g)) = Some g"
    proof (cases "g = f")
      case True
      then show ?thesis by (simp add: pg tab)
    next
      case False
      with g(2) fl(1) have "g \<notin> set (free_list b)" by simp
      with g(1) False show ?thesis using o(8) other nid by (simp add: pg tab)
    qed
  next
    fix g
    assume g: "g \<in> set (free_list ?c)"
    then have "g \<noteq> f" "g \<in> set (free_list b)" using fl by auto
    then show "page_pins (pages ?c ! g) = 0" "\<not> page_dirty (pages ?c ! g)"
      "pid_no (page_id (pages ?c ! g)) = INVALID_PAGE_ID"
      using o(9,10,11) by (simp_all add: pg)
  next
    show "set (lru_order (repl ?c)) = {g. g < pool_size b \<and> g \<notin> set (free_list ?c) \<and> page_pins (pages ?c ! g) = 0}"
      using vs(6) o(12) fl(1) pins by (auto simp: rp pg)
  next
    fix g
    assume g: "g < pool_size b"
      and a: "g \<notin> set (free_list ?c) \<and> page_pins (pages ?c ! g) = 0 \<and> \<not> page_dirty (pages ?c ! g)"
    then have "g \<noteq> f" using pins by (auto simp: pg)
    with a fl(1) have h: "g \<notin> set (free_list b)" "page_pins (pages b ! g) = 0" "\<not> page_dirty (pages b ! g)"
      by (simp_all add: pg)
    have "valid_pid (disk b) (page_id (pages b ! g))" using bp_ok_table(4) [OF ok o(8) [OF g h(1)]] .
    from e(4) [OF this o(13) [OF g h] other [OF g h(1) \<open>g \<noteq> f\<close>]] \<open>g \<noteq> f\<close>
    show "disk_page (disk ?c) (pid_fd (page_id (pages ?c ! g))) (pid_no (page_id (pages ?c ! g))) = Some (frame_data ?c g)"
      by (simp add: pg dk frame_data_def)
  qed
qed

lemma install_content:
  assumes ok: "bp_ok b" and v: "find_victim_page b = (Some f, b1)"
    and fresh: "page_table b (page_id np) = None" and val: "valid_pid (disk b) (page_id np)"
    and ext: "disk_extends (disk b) (page_id (pages b ! f)) d"
    and evicted: "f \<notin> set (free_list b) \<Longrightarrow>
      disk_page d (pid_fd (page_id (pages b ! f))) (pid_no (page_id (pages b ! f))) = Some (frame_data b f)"
  shows "content (install b b1 f np d) (page_id np) = Some (page_data np)"
    and "valid_pid (disk b) pid \<Longrightarrow> pid \<noteq> page_id np \<Longrightarrow> content b pid = Some x \<Longrightarrow>
      content (install b b1 f np d) pid = Some x"
proof -
  note o = bp_okD [OF ok] and vs = find_victim_some [OF ok v] and e = disk_extendsD [OF ext]
  have pg: "frame_data (install b b1 f np d) g = (if g = f then page_data np else frame_data b g)" for g
    using vs(1) o(1) by (simp add: install_def frame_data_def)
  have tab: "page_table (install b b1 f np d) =
      (page_table b)(page_id (pages b ! f) := None, page_id np \<mapsto> f)"
    and dk: "disk (install b b1 f np d) = d"
    by (simp_all add: install_def)
  show "content (install b b1 f np d) (page_id np) = Some (page_data np)"
    by (simp add: content_def pg tab)
  assume p: "valid_pid (disk b) pid" "pid \<noteq> page_id np" "content b pid = Some x"
  show "content (install b b1 f np d) pid = Some x"
  proof (cases "pid = page_id (pages b ! f)")
    case True
    have nf: "f \<notin> set (free_list b)"
      using o(11) valid_pid_not_invalid [OF p(1)] True by auto
    with vs(8) True p(3) have "x = frame_data b f" by (simp add: content_def)
    with evicted [OF nf] True p(2) show ?thesis by (simp add: content_def tab dk)
  next
    case False
    show ?thesis
    proof (cases "page_table b pid")
      case None
      with p(3) have "disk_page (disk b) (pid_fd pid) (pid_no pid) = Some x" by (simp add: content_def)
      from e(4) [OF p(1) this False] None False p(2) show ?thesis by (simp add: content_def tab dk)
    next
      case (Some g)
      with bp_ok_table(3) [OF ok Some] False have "g \<noteq> f" by auto
      with Some False p show ?thesis by (simp add: content_def pg tab)
    qed
  qed
qed

lemma install_pins:
  assumes ok: "bp_ok b" and v: "find_victim_page b = (Some f, b1)" and fresh: "page_table b (page_id np) = None"
    and val: "valid_pid (disk b) (page_id np)"
  shows "pins (install b b1 f np d) = (pins b)(page_id np := page_pins np)"
proof
  fix pid
  note o = bp_okD [OF ok] and vs = find_victim_some [OF ok v]
  have pg: "(pages b)[f := np] ! g = (if g = f then np else pages b ! g)" for g
    using vs(1) o(1) by simp
  have cached: "g \<noteq> f" if "page_table b pid = Some g" "pid \<noteq> page_id (pages b ! f)" for g
    using that bp_ok_table(3) [OF ok that(1)] by auto
  have old: "pins b (page_id (pages b ! f)) = 0"
  proof (cases "page_table b (page_id (pages b ! f))")
    case (Some g)
    have "f \<notin> set (free_list b)"
      using o(11) valid_pid_not_invalid [OF bp_ok_table(4) [OF ok Some]] by auto
    with vs(8) Some have "g = f" by simp
    with Some vs(2) show ?thesis by (simp add: pins_def)
  qed (simp add: pins_def)
  show "pins (install b b1 f np d) pid = ((pins b)(page_id np := page_pins np)) pid"
    using cached old by (auto simp: pins_def install_def pg split: option.splits)
qed

lemma install_stale:
  assumes ok: "bp_ok b" and v: "find_victim_page b = (Some f, b1)"
    and ext: "disk_extends (disk b) (page_id (pages b ! f)) d"
  shows "stale (install b b1 f np d) pid \<Longrightarrow> pid \<noteq> page_id np \<Longrightarrow> stale b pid"
    and "stale (install b b1 f np d) (page_id np) \<longleftrightarrow>
      \<not> page_dirty np \<and> disk_page d (pid_fd (page_id np)) (pid_no (page_id np)) \<noteq> Some (page_data np)"
proof -
  note o = bp_okD [OF ok] and vs = find_victim_some [OF ok v] and e = disk_extendsD [OF ext]
  have pg: "(pages b)[f := np] ! g = (if g = f then np else pages b ! g)" for g
    using vs(1) o(1) by simp
  show "stale (install b b1 f np d) (page_id np) \<longleftrightarrow>
      \<not> page_dirty np \<and> disk_page d (pid_fd (page_id np)) (pid_no (page_id np)) \<noteq> Some (page_data np)"
    by (simp add: stale_def install_def frame_data_def pg)
  assume s: "stale (install b b1 f np d) pid" and n: "pid \<noteq> page_id np"
  then obtain g where g: "page_table b pid = Some g" "pid \<noteq> page_id (pages b ! f)"
    by (auto simp: stale_def install_def split: option.splits if_splits)
  note tg = bp_ok_table [OF ok g(1)]
  then have "g \<noteq> f" using g(2) by auto
  then show "stale b pid"
    using s n g e(4) [OF tg(4)] by (auto simp: stale_def install_def frame_data_def pg)
qed

section \<open>Writing frames back\<close>

lemma write_frame_ok:
  assumes ok: "disk_ok (disk c)" and val: "valid_pid (disk c) (page_id (pages c ! f))"
    and len: "length (page_data (pages c ! f)) = PAGE_SIZE"
  obtains d where "write_frame f c = (Inr (), c\<lparr>disk := d\<rparr>)"
    and "disk_extends (disk c) (page_id (pages c ! f)) d"
    and "disk_page d (pid_fd (page_id (pages c ! f))) (pid_no (page_id (pages c ! f))) = Some (page_data (pages c ! f))"
    and "fd2pageno d = fd2pageno (disk c)" and "path2fd d = path2fd (disk c)" and "log_fd d = log_fd (disk c)"
proof -
  let ?p = "page_id (pages c ! f)" and ?x = "page_data (pages c ! f)"
  from val obtain path where path: "fd2path (disk c) (pid_fd ?p) = Some path" and r: "page_in_range (pid_no ?p)"
    by (auto simp: valid_pid_def)
  obtain res d where w: "write_page (pid_fd ?p) (pid_no ?p) ?x (disk c) = (res, d)" by fastforce
  note wp = write_page_pages [OF ok path r _ w]
  have "disk_extends (disk c) ?p d"
    unfolding disk_extends_def
  proof (intro conjI allI impI)
    fix pid' x
    assume a: "fd2path (disk c) (pid_fd pid') \<noteq> None" "disk_page (disk c) (pid_fd pid') (pid_no pid') = Some x"
      and "pid' \<noteq> ?p"
    then have "(pid_fd pid', pid_no pid') \<noteq> (pid_fd ?p, pid_no ?p)" using PageId_eqI by blast
    with wp(8) [OF eq_refl [OF len]] a show "disk_page d (pid_fd pid') (pid_no pid') = Some x" by blast
  qed (use wp(2,3) len in simp_all)
  then show thesis
    using that [of d] wp(1,4,5,6,7) len w by (simp add: write_frame_def lift_disk_def)
qed

lemma disk_extends_trans:
  "disk_extends d pid d' \<Longrightarrow> disk_ok d'' \<Longrightarrow> fd2path d'' = fd2path d' \<Longrightarrow>
   (\<And>fd pno. disk_page d'' fd pno = disk_page d' fd pno) \<Longrightarrow> disk_extends d pid d''"
  by (auto simp: disk_extends_def)

lemma disk_extends_refl: "disk_ok d \<Longrightarrow> disk_extends d pid d"
  by (auto simp: disk_extends_def)

text \<open>The write-back of a victim: it happens exactly when the frame is dirty.\<close>

lemma evict_disk:
  assumes ok: "bp_ok b" and v: "find_victim_page b = (Some f, b1)"
    and c: "pages c = pages b" "disk_ok (disk c)" "fd2path (disk c) = fd2path (disk b)"
      "\<And>fd pno. disk_page (disk c) fd pno = disk_page (disk b) fd pno"
  obtains d where "(if page_dirty (pages b ! f) then write_frame f else returnE ()) c = (Inr (), c\<lparr>disk := d\<rparr>)"
    and "disk_extends (disk b) (page_id (pages b ! f)) d"
    and "f \<notin> set (free_list b) \<Longrightarrow>
      disk_page d (pid_fd (page_id (pages b ! f))) (pid_no (page_id (pages b ! f))) = Some (frame_data b f)"
    and "fd2pageno d = fd2pageno (disk c)"
proof (cases "page_dirty (pages b ! f)")
  case False
  have "disk_extends (disk b) (page_id (pages b ! f)) (disk c)"
    using c by (auto simp: disk_extends_def)
  moreover have "disk_page (disk c) (pid_fd (page_id (pages b ! f))) (pid_no (page_id (pages b ! f))) = Some (frame_data b f)"
    if "f \<notin> set (free_list b)"
    using bp_okD(13) [OF ok] find_victim_some(1,2) [OF ok v] that False c(4) by simp
  ultimately show thesis using that [of "disk c"] False by (simp add: returnE_def)
next
  case True
  note vs = find_victim_some [OF ok v]
  from True bp_okD(10) [OF ok] have "f \<notin> set (free_list b)" by auto
  with vs(8) bp_ok_table(4) [OF ok] have val: "valid_pid (disk b) (page_id (pages b ! f))" by simp
  then have "valid_pid (disk c) (page_id (pages c ! f))" using c by (simp add: valid_pid_def)
  moreover have "length (page_data (pages c ! f)) = PAGE_SIZE"
    using bp_okD(6) [OF ok vs(1)] c(1) by (simp add: frame_data_def)
  ultimately obtain d where d: "write_frame f c = (Inr (), c\<lparr>disk := d\<rparr>)"
    "disk_extends (disk c) (page_id (pages c ! f)) d"
    "disk_page d (pid_fd (page_id (pages c ! f))) (pid_no (page_id (pages c ! f))) = Some (page_data (pages c ! f))"
    "fd2pageno d = fd2pageno (disk c)"
    using write_frame_ok [OF c(2)] by metis
  have "disk_extends (disk b) (page_id (pages b ! f)) d"
    using d(2) c by (simp add: disk_extends_def)
  with that [of d] d(1,3,4) True c(1) show thesis by (simp add: frame_data_def)
qed

section \<open>fetch\_page\<close>

definition fetched :: "PageId \<Rightarrow> bytes \<Rightarrow> Page" where
  "fetched pid x = \<lparr>page_id = pid, page_data = x, page_dirty = False, page_pins = 1\<rparr>"

lemma fetched_simps [simp]:
  "page_id (fetched pid x) = pid" "page_data (fetched pid x) = x"
  "page_pins (fetched pid x) = 1" "page_dirty (fetched pid x) = False"
  by (simp_all add: fetched_def)

lemma fetch_page_miss:
  assumes ok: "bp_ok b" and miss: "page_table b pid = None" and val: "valid_pid (disk b) pid"
    and v: "find_victim_page b = (Some f, b1)"
  obtains d where "disk_extends (disk b) (page_id (pages b ! f)) d"
    and "f \<notin> set (free_list b) \<Longrightarrow>
      disk_page d (pid_fd (page_id (pages b ! f))) (pid_no (page_id (pages b ! f))) = Some (frame_data b f)"
    and "fd2pageno d = fd2pageno (disk b)"
    and "fetch_page pid b =
      (case disk_page d (pid_fd pid) (pid_no pid) of
         Some x \<Rightarrow> (Inr (Some f), install b b1 f (fetched pid x) d)
       | None \<Rightarrow> (Inl (Throw (InternalError ''DiskManager::read_page Error'')), install b b1 f (fetched pid zero_page) d))"
proof -
  note vf = find_victim_frame [OF v] and vs = find_victim_some [OF ok v] and o = bp_okD [OF ok]
  let ?old = "page_id (pages b ! f)"
  let ?c = "b1\<lparr>page_table := (page_table b)(?old := None, pid \<mapsto> f)\<rparr>"
  have c: "pages ?c = pages b" "disk_ok (disk ?c)" "fd2path (disk ?c) = fd2path (disk b)"
    "\<And>fd pno. disk_page (disk ?c) fd pno = disk_page (disk b) fd pno"
    using vf o(2) by simp_all
  obtain d where d: "(if page_dirty (pages b ! f) then write_frame f else returnE ()) ?c = (Inr (), ?c\<lparr>disk := d\<rparr>)"
    and ext: "disk_extends (disk b) ?old d"
    and ev: "f \<notin> set (free_list b) \<Longrightarrow> disk_page d (pid_fd ?old) (pid_no ?old) = Some (frame_data b f)"
    and pn: "fd2pageno d = fd2pageno (disk ?c)"
    using evict_disk [OF ok v c] by metis
  note e = disk_extendsD [OF ext]
  from val obtain path where path: "fd2path d (pid_fd pid) = Some path" and r: "page_in_range (pid_no pid)"
    using e(2) by (auto simp: valid_pid_def)
  obtain res d2 where rd: "read_page (pid_fd pid) (pid_no pid) PAGE_SIZE d = (res, d2)" by fastforce
  note rp = read_page_ok [OF e(1) path r rd] and rr = read_page_result [OF e(1) path r rd]
  have fl: "f < length (pages b)" using vs(1) o(1) by simp
  have clean: "(if page_dirty (pages b1 ! f)
      then bindE (write_frame f) (\<lambda>_. modifyE (upd_page f (\<lambda>p. p\<lparr>page_dirty := False\<rparr>))) else returnE ()) ?c
      = (Inr (), ?c\<lparr>disk := d, pages := (pages b)[f := (pages b ! f)\<lparr>page_dirty := False\<rparr>]\<rparr>)"
  proof (cases "page_dirty (pages b ! f)")
    case True
    with d vf show ?thesis by (simp add: bindE_def modifyE_def upd_page_def)
  next
    case False
    then have "?c = ?c\<lparr>disk := d\<rparr>" using d by (simp add: returnE_def)
    then have "disk ?c = disk (?c\<lparr>disk := d\<rparr>)" by (rule arg_cong)
    then have "d = disk b1" by simp
    moreover have "(pages b)[f := (pages b ! f)\<lparr>page_dirty := False\<rparr>] = pages b1"
      using False vf(2) by (simp add: page_clean_same)
    ultimately show ?thesis using False vf(2) by (simp add: returnE_def)
  qed
  have run: "fetch_page pid b =
      (case res of
         Inr x \<Rightarrow> (Inr (Some f), install b b1 f (fetched pid x) d2)
       | Inl ex \<Rightarrow> (Inl ex, install b b1 f (fetched pid zero_page) d2))"
    using miss v vf clean fl rd
    by (simp add: fetch_page_def bindE_def modifyE_def lift_disk_def upd_page_def returnE_def
        install_def fetched_def page_overwrite split: sum.splits)
  show thesis
  proof (rule that [of d2])
    show "disk_extends (disk b) ?old d2"
      by (rule disk_extends_trans [OF ext rp(1) rr(3) rp(2)])
    show "disk_page d2 (pid_fd ?old) (pid_no ?old) = Some (frame_data b f)" if "f \<notin> set (free_list b)"
      using ev [OF that] rp(2) by simp
    show "fd2pageno d2 = fd2pageno (disk b)" using rr(4) pn vf by simp
    show "fetch_page pid b =
      (case disk_page d2 (pid_fd pid) (pid_no pid) of
         Some x \<Rightarrow> (Inr (Some f), install b b1 f (fetched pid x) d2)
       | None \<Rightarrow> (Inl (Throw (InternalError ''DiskManager::read_page Error'')), install b b1 f (fetched pid zero_page) d2))"
      using run rp(2,3) by (simp split: option.splits)
  qed
qed

section \<open>Changing one cached page\<close>

definition set_frame :: "BufferPool \<Rightarrow> frame_id_t \<Rightarrow> Page \<Rightarrow> LRUReplacer \<Rightarrow> DiskManager \<Rightarrow> BufferPool" where
  "set_frame b f p r d = b\<lparr>repl := r, disk := d, pages := (pages b)[f := p]\<rparr>"

lemma set_frame_simps [simp]:
  "pool_size (set_frame b f p r d) = pool_size b" "page_table (set_frame b f p r d) = page_table b"
  "free_list (set_frame b f p r d) = free_list b" "repl (set_frame b f p r d) = r"
  "disk (set_frame b f p r d) = d" "pages (set_frame b f p r d) = (pages b)[f := p]"
  by (simp_all add: set_frame_def)

lemma set_frame_ok:
  assumes ok: "bp_ok b" and t: "page_table b pid = Some f"
    and p: "page_id p = pid" "length (page_data p) = PAGE_SIZE" "0 \<le> page_pins p"
    and r: "lru_ok r" "set (lru_order r) =
      (if page_pins p = 0 then insert f (set (lru_order (repl b))) else set (lru_order (repl b)) - {f})"
    and ext: "disk_extends (disk b) pid d"
    and clean: "page_pins p = 0 \<Longrightarrow> \<not> page_dirty p \<Longrightarrow> disk_page d (pid_fd pid) (pid_no pid) = Some (page_data p)"
  shows "bp_ok (set_frame b f p r d)"
proof -
  note o = bp_okD [OF ok] and tf = bp_ok_table [OF ok t] and e = disk_extendsD [OF ext]
  have pg: "(pages b)[f := p] ! g = (if g = f then p else pages b ! g)" for g
    using tf(1) o(1) by simp
  have id: "page_id ((pages b)[f := p] ! g) = page_id (pages b ! g)" for g
    using p(1) tf(3) by (simp add: pg)
  have other: "page_id (pages b ! g) \<noteq> pid" if "g < pool_size b" "g \<notin> set (free_list b)" "g \<noteq> f" for g
    using o(8) [OF that(1,2)] that(3) t by auto
  show ?thesis
    unfolding bp_ok_def set_frame_simps
  proof (intro conjI allI impI ballI)
    show "length ((pages b)[f := p]) = pool_size b" using o(1) by simp
    show "length (frame_data (set_frame b f p r d) g) = PAGE_SIZE" if "g < pool_size b" for g
      using o(6) [OF that] p(2) by (simp add: frame_data_def pg)
    show "0 \<le> page_pins ((pages b)[f := p] ! g)" if "g < pool_size b" for g
      using o(7) [OF that] p(3) by (simp add: pg)
    show "disk_ok d" by (rule e(1))
    show "lru_ok r" by (rule r(1))
    show "distinct (free_list b)" by (rule o(4))
    show "set (free_list b) \<subseteq> {..<pool_size b}" using o(5) by auto
  next
    fix pid' g
    assume "page_table b pid' = Some g"
    note tt = bp_ok_table [OF ok this]
    show "g < pool_size b" "g \<notin> set (free_list b)" "page_id ((pages b)[f := p] ! g) = pid'" "valid_pid d pid'"
      using tt e(3) by (simp_all add: id)
  next
    fix g
    assume "g < pool_size b" "g \<notin> set (free_list b)"
    then show "page_table b (page_id ((pages b)[f := p] ! g)) = Some g" using o(8) by (simp add: id)
  next
    fix g
    assume g: "g \<in> set (free_list b)"
    then have "g \<noteq> f" using tf(2) by auto
    with g show "page_pins ((pages b)[f := p] ! g) = 0" "\<not> page_dirty ((pages b)[f := p] ! g)"
      "pid_no (page_id ((pages b)[f := p] ! g)) = INVALID_PAGE_ID"
      using o(9,10,11) by (simp_all add: pg)
  next
    show "set (lru_order r) = {g. g < pool_size b \<and> g \<notin> set (free_list b) \<and> page_pins ((pages b)[f := p] ! g) = 0}"
      using r(2) o(12) tf by (auto simp: pg)
  next
    fix g
    assume g: "g < pool_size b" and a: "g \<notin> set (free_list b) \<and> page_pins ((pages b)[f := p] ! g) = 0
        \<and> \<not> page_dirty ((pages b)[f := p] ! g)"
    show "disk_page d (pid_fd (page_id ((pages b)[f := p] ! g))) (pid_no (page_id ((pages b)[f := p] ! g)))
        = Some (frame_data (set_frame b f p r d) g)"
    proof (cases "g = f")
      case True
      with a clean p(1) show ?thesis by (simp add: pg frame_data_def)
    next
      case False
      with a have h: "g \<notin> set (free_list b)" "page_pins (pages b ! g) = 0" "\<not> page_dirty (pages b ! g)"
        by (simp_all add: pg)
      have "valid_pid (disk b) (page_id (pages b ! g))" using bp_ok_table(4) [OF ok o(8) [OF g h(1)]] .
      from e(4) [OF this o(13) [OF g h] other [OF g h(1) False]] False
      show ?thesis by (simp add: pg frame_data_def)
    qed
  qed
qed

lemma set_frame_content:
  assumes ok: "bp_ok b" and t: "page_table b pid = Some f" and ext: "disk_extends (disk b) pid d"
  shows "content (set_frame b f p r d) pid = Some (page_data p)"
    and "valid_pid (disk b) pid' \<Longrightarrow> pid' \<noteq> pid \<Longrightarrow> content b pid' = Some x \<Longrightarrow> content (set_frame b f p r d) pid' = Some x"
proof -
  note tf = bp_ok_table [OF ok t]
  have pg: "(pages b)[f := p] ! g = (if g = f then p else pages b ! g)" for g
    using tf(1) bp_okD(1) [OF ok] by simp
  show "content (set_frame b f p r d) pid = Some (page_data p)"
    using t by (simp add: content_def frame_data_def pg)
  assume a: "valid_pid (disk b) pid'" "pid' \<noteq> pid" "content b pid' = Some x"
  show "content (set_frame b f p r d) pid' = Some x"
  proof (cases "page_table b pid'")
    case None
    with a(3) have "disk_page (disk b) (pid_fd pid') (pid_no pid') = Some x" by (simp add: content_def)
    from disk_extendsD(4) [OF ext a(1) this a(2)] None show ?thesis by (simp add: content_def)
  next
    case (Some g)
    with bp_ok_table(3) [OF ok Some] tf(3) a(2) have "g \<noteq> f" by auto
    with Some a(3) show ?thesis by (simp add: content_def frame_data_def pg)
  qed
qed

lemma set_frame_pins:
  assumes ok: "bp_ok b" and t: "page_table b pid = Some f"
  shows "pins (set_frame b f p r d) = (pins b)(pid := page_pins p)"
proof
  fix pid'
  note tf = bp_ok_table [OF ok t]
  have pg: "(pages b)[f := p] ! g = (if g = f then p else pages b ! g)" for g
    using tf(1) bp_okD(1) [OF ok] by simp
  have "g \<noteq> f" if "page_table b pid' = Some g" "pid' \<noteq> pid" for g
    using bp_ok_table(3) [OF ok that(1)] tf(3) that(2) by auto
  then show "pins (set_frame b f p r d) pid' = ((pins b)(pid := page_pins p)) pid'"
    using t by (auto simp: pins_def pg split: option.splits)
qed

lemma set_frame_stale:
  assumes ok: "bp_ok b" and t: "page_table b pid = Some f" and ext: "disk_extends (disk b) pid d"
  shows "stale (set_frame b f p r d) pid' \<Longrightarrow> pid' \<noteq> pid \<Longrightarrow> stale b pid'"
    and "stale (set_frame b f p r d) pid \<longleftrightarrow>
      \<not> page_dirty p \<and> disk_page d (pid_fd pid) (pid_no pid) \<noteq> Some (page_data p)"
proof -
  note tf = bp_ok_table [OF ok t]
  have pg: "(pages b)[f := p] ! g = (if g = f then p else pages b ! g)" for g
    using tf(1) bp_okD(1) [OF ok] by simp
  show "stale (set_frame b f p r d) pid \<longleftrightarrow>
      \<not> page_dirty p \<and> disk_page d (pid_fd pid) (pid_no pid) \<noteq> Some (page_data p)"
    using t by (simp add: stale_def frame_data_def pg)
  assume s: "stale (set_frame b f p r d) pid'" and n: "pid' \<noteq> pid"
  then obtain g where g: "page_table b pid' = Some g" by (auto simp: stale_def split: option.splits)
  note tg = bp_ok_table [OF ok g]
  then have "g \<noteq> f" using n tf(3) by auto
  then show "stale b pid'"
    using s g n disk_extendsD(4) [OF ext tg(4)] by (auto simp: stale_def frame_data_def pg)
qed

text \<open>Moving an unpinned cached page to the free list.\<close>

definition drop_frame :: "BufferPool \<Rightarrow> PageId \<Rightarrow> frame_id_t \<Rightarrow> Page \<Rightarrow> DiskManager \<Rightarrow> BufferPool" where
  "drop_frame b pid f p d =
     b\<lparr>repl := lru_pin (repl b) f, page_table := (page_table b)(pid := None), free_list := free_list b @ [f],
       disk := d, pages := (pages b)[f := p]\<rparr>"

lemma drop_frame_simps [simp]:
  "pool_size (drop_frame b pid f p d) = pool_size b"
  "page_table (drop_frame b pid f p d) = (page_table b)(pid := None)"
  "free_list (drop_frame b pid f p d) = free_list b @ [f]"
  "repl (drop_frame b pid f p d) = lru_pin (repl b) f"
  "disk (drop_frame b pid f p d) = d" "pages (drop_frame b pid f p d) = (pages b)[f := p]"
  by (simp_all add: drop_frame_def)

lemma drop_frame_ok:
  assumes ok: "bp_ok b" and t: "page_table b pid = Some f"
    and p: "pid_no (page_id p) = INVALID_PAGE_ID" "length (page_data p) = PAGE_SIZE" "page_pins p = 0" "\<not> page_dirty p"
    and ext: "disk_extends (disk b) pid d"
  shows "bp_ok (drop_frame b pid f p d)"
proof -
  note o = bp_okD [OF ok] and tf = bp_ok_table [OF ok t] and e = disk_extendsD [OF ext]
  have pg: "(pages b)[f := p] ! g = (if g = f then p else pages b ! g)" for g
    using tf(1) o(1) by simp
  have other: "page_id (pages b ! g) \<noteq> pid" if "g < pool_size b" "g \<notin> set (free_list b)" "g \<noteq> f" for g
    using o(8) [OF that(1,2)] that(3) t by auto
  show ?thesis
    unfolding bp_ok_def drop_frame_simps
  proof (intro conjI allI impI ballI)
    show "length ((pages b)[f := p]) = pool_size b" using o(1) by simp
    show "length (frame_data (drop_frame b pid f p d) g) = PAGE_SIZE" if "g < pool_size b" for g
      using o(6) [OF that] p(2) by (simp add: frame_data_def pg)
    show "0 \<le> page_pins ((pages b)[f := p] ! g)" if "g < pool_size b" for g
      using o(7) [OF that] p(3) by (simp add: pg)
    show "disk_ok d" by (rule e(1))
    show "lru_ok (lru_pin (repl b) f)" by (rule lru_ok_pin [OF o(3)])
    show "distinct (free_list b @ [f])" using o(4) tf(2) by simp
    show "set (free_list b @ [f]) \<subseteq> {..<pool_size b}" using o(5) tf(1) by auto
  next
    fix pid' g
    assume a: "((page_table b)(pid := None)) pid' = Some g"
    then have pt: "page_table b pid' = Some g" "pid' \<noteq> pid" by (auto split: if_splits)
    note tt = bp_ok_table [OF ok pt(1)]
    then have "g \<noteq> f" using pt(2) tf(3) by auto
    with tt e(3) show "g < pool_size b" "g \<notin> set (free_list b @ [f])" "page_id ((pages b)[f := p] ! g) = pid'" "valid_pid d pid'"
      by (simp_all add: pg)
  next
    fix g
    assume g: "g < pool_size b" "g \<notin> set (free_list b @ [f])"
    then show "((page_table b)(pid := None)) (page_id ((pages b)[f := p] ! g)) = Some g"
      using o(8) other by (simp add: pg)
  next
    fix g
    assume "g \<in> set (free_list b @ [f])"
    then show "page_pins ((pages b)[f := p] ! g) = 0" "\<not> page_dirty ((pages b)[f := p] ! g)"
      "pid_no (page_id ((pages b)[f := p] ! g)) = INVALID_PAGE_ID"
      using o(9,10,11) p by (auto simp: pg)
  next
    show "set (lru_order (lru_pin (repl b) f)) =
        {g. g < pool_size b \<and> g \<notin> set (free_list b @ [f]) \<and> page_pins ((pages b)[f := p] ! g) = 0}"
      using o(12) by (auto simp: pg lru.set_order_pin [OF o(3)])
  next
    fix g
    assume g: "g < pool_size b" and a: "g \<notin> set (free_list b @ [f]) \<and> page_pins ((pages b)[f := p] ! g) = 0
        \<and> \<not> page_dirty ((pages b)[f := p] ! g)"
    then have gf: "g \<noteq> f" and h: "g \<notin> set (free_list b)" "page_pins (pages b ! g) = 0" "\<not> page_dirty (pages b ! g)"
      by (auto simp: pg split: if_splits)
    have "valid_pid (disk b) (page_id (pages b ! g))" using bp_ok_table(4) [OF ok o(8) [OF g h(1)]] .
    from e(4) [OF this o(13) [OF g h] other [OF g h(1) gf]] gf
    show "disk_page d (pid_fd (page_id ((pages b)[f := p] ! g))) (pid_no (page_id ((pages b)[f := p] ! g)))
        = Some (frame_data (drop_frame b pid f p d) g)"
      by (simp add: pg frame_data_def)
  qed
qed

lemma drop_frame_content:
  assumes ok: "bp_ok b" and t: "page_table b pid = Some f" and ext: "disk_extends (disk b) pid d"
    and kept: "disk_page d (pid_fd pid) (pid_no pid) = Some (frame_data b f)"
    and a: "valid_pid (disk b) pid'" "content b pid' = Some x"
  shows "content (drop_frame b pid f p d) pid' = Some x"
proof (cases "pid' = pid")
  case True
  with a(2) t kept show ?thesis by (simp add: content_def)
next
  case False
  show ?thesis
  proof (cases "page_table b pid'")
    case None
    with a(2) have "disk_page (disk b) (pid_fd pid') (pid_no pid') = Some x" by (simp add: content_def)
    from disk_extendsD(4) [OF ext a(1) this False] None False show ?thesis by (simp add: content_def)
  next
    case (Some g)
    with bp_ok_table(3) [OF ok Some] bp_ok_table(3) [OF ok t] False have "g \<noteq> f" by auto
    then show ?thesis using Some a(2) False by (simp add: content_def frame_data_def)
  qed
qed

section \<open>The operations keep the invariant and the page contents\<close>

text \<open>Pages that are pinned stay in their frames with their bytes.\<close>

definition keeps_pinned :: "BufferPool \<Rightarrow> BufferPool \<Rightarrow> bool" where
  "keeps_pinned b b' \<longleftrightarrow>
     (\<forall>pid f. page_table b pid = Some f \<longrightarrow> 0 < page_pins (pages b ! f) \<longrightarrow>
        page_table b' pid = Some f \<and> frame_data b' f = frame_data b f
        \<and> page_pins (pages b ! f) \<le> page_pins (pages b' ! f)
        \<and> (page_dirty (pages b ! f) \<longrightarrow> page_dirty (pages b' ! f)))"

definition same_files :: "BufferPool \<Rightarrow> BufferPool \<Rightarrow> bool" where
  "same_files b b' \<longleftrightarrow> fd2path (disk b') = fd2path (disk b) \<and> pool_size b' = pool_size b"

lemma keeps_pinned_refl: "keeps_pinned b b"
  by (simp add: keeps_pinned_def)

lemma install_pinned:
  assumes ok: "bp_ok b" and v: "find_victim_page b = (Some f, b1)" and fresh: "page_table b (page_id np) = None"
  shows "keeps_pinned b (install b b1 f np d)"
  unfolding keeps_pinned_def
proof (intro allI impI)
  fix pid g
  assume t: "page_table b pid = Some g" and p: "0 < page_pins (pages b ! g)"
  have gf: "g \<noteq> f" using p find_victim_some(2) [OF ok v] by auto
  have "page_id (pages b ! f) \<noteq> pid"
  proof
    assume eq: "page_id (pages b ! f) = pid"
    show False
    proof (cases "f \<in> set (free_list b)")
      case True
      with bp_okD(11) [OF ok] eq valid_pid_not_invalid [OF bp_ok_table(4) [OF ok t]] show False by auto
    next
      case False
      with find_victim_some(8) [OF ok v] eq t gf show False by simp
    qed
  qed
  moreover have "pid \<noteq> page_id np" using t fresh by auto
  ultimately show "page_table (install b b1 f np d) pid = Some g \<and>
      frame_data (install b b1 f np d) g = frame_data b g \<and>
      page_pins (pages b ! g) \<le> page_pins (pages (install b b1 f np d) ! g) \<and>
      (page_dirty (pages b ! g) \<longrightarrow> page_dirty (pages (install b b1 f np d) ! g))"
    using gf t by (simp add: install_def frame_data_def)
qed

lemma set_frame_pinned:
  assumes "bp_ok b" and "page_table b pid = Some f" and "page_data p = frame_data b f"
    and "page_pins (pages b ! f) \<le> page_pins p" and "page_dirty (pages b ! f) \<longrightarrow> page_dirty p"
  shows "keeps_pinned b (set_frame b f p r d)"
  using assms bp_ok_table [OF assms(1,2)] bp_okD(1) [OF assms(1)]
  by (auto simp: keeps_pinned_def frame_data_def nth_list_update)

lemma fetch_page_hit:
  "page_table b pid = Some f \<Longrightarrow> fetch_page pid b =
     (Inr (Some f), set_frame b f ((pages b ! f)\<lparr>page_pins := page_pins (pages b ! f) + 1\<rparr>) (lru_pin (repl b) f) (disk b))"
  by (simp add: fetch_page_def set_frame_def upd_page_def)

lemma fetch_page_full:
  "page_table b pid = None \<Longrightarrow> find_victim_page b = (None, b1) \<Longrightarrow> fetch_page pid b = (Inr None, b1)"
  by (simp add: fetch_page_def)

lemma fetch_page_spec:
  assumes ok: "bp_ok b" and val: "valid_pid (disk b) pid" and run: "fetch_page pid b = (res, b')"
  shows "bp_ok b'" and "keeps_pinned b b'" and "same_files b b'"
    and "fd2pageno (disk b') = fd2pageno (disk b)"
    and "\<And>pid' x. valid_pid (disk b) pid' \<Longrightarrow> pid' \<noteq> pid \<Longrightarrow> content b pid' = Some x \<Longrightarrow> content b' pid' = Some x"
    and "case res of
        Inr (Some f) \<Rightarrow> page_table b' pid = Some f \<and> 0 < page_pins (pages b' ! f)
          \<and> (content b pid \<noteq> None \<longrightarrow> content b' pid = content b pid)
          \<and> (page_dirty (pages b' ! f) \<or> page_pins (pages b' ! f) \<noteq> 1
             \<or> disk_page (disk b') (pid_fd pid) (pid_no pid) = Some (frame_data b' f))
      | Inr None \<Rightarrow> b' = b \<and> page_table b pid = None \<and> (\<forall>f < pool_size b. 0 < page_pins (pages b ! f))
      | Inl e \<Rightarrow> content b pid = None \<and> e = Throw (InternalError ''DiskManager::read_page Error'')"
proof -
  note o = bp_okD [OF ok]
  have "bp_ok b' \<and> keeps_pinned b b' \<and> same_files b b' \<and> fd2pageno (disk b') = fd2pageno (disk b)
    \<and> (\<forall>pid' x. valid_pid (disk b) pid' \<longrightarrow> pid' \<noteq> pid \<longrightarrow> content b pid' = Some x \<longrightarrow> content b' pid' = Some x)
    \<and> (case res of
        Inr (Some f) \<Rightarrow> page_table b' pid = Some f \<and> 0 < page_pins (pages b' ! f)
          \<and> (content b pid \<noteq> None \<longrightarrow> content b' pid = content b pid)
          \<and> (page_dirty (pages b' ! f) \<or> page_pins (pages b' ! f) \<noteq> 1
             \<or> disk_page (disk b') (pid_fd pid) (pid_no pid) = Some (frame_data b' f))
      | Inr None \<Rightarrow> b' = b \<and> page_table b pid = None \<and> (\<forall>f < pool_size b. 0 < page_pins (pages b ! f))
      | Inl e \<Rightarrow> content b pid = None \<and> e = Throw (InternalError ''DiskManager::read_page Error''))"
  proof (cases "page_table b pid")
    case (Some f)
    note tf = bp_ok_table [OF ok Some]
    let ?p = "(pages b ! f)\<lparr>page_pins := page_pins (pages b ! f) + 1\<rparr>"
    let ?c = "set_frame b f ?p (lru_pin (repl b) f) (disk b)"
    have r: "res = Inr (Some f)" "b' = ?c" using run by (simp_all add: fetch_page_hit [OF Some])
    have pins: "0 < page_pins ?p" using o(7) [OF tf(1)] by simp
    have len: "length (page_data ?p) = PAGE_SIZE" using o(6) [OF tf(1)] by (simp add: frame_data_def)
    have ext: "disk_extends (disk b) pid (disk b)" by (rule disk_extends_refl [OF o(2)])
    have "bp_ok ?c"
      by (rule set_frame_ok [OF ok Some _ len _ lru_ok_pin [OF o(3)] _ ext])
        (use pins tf(3) in \<open>simp_all add: lru.set_order_pin [OF o(3)]\<close>)
    moreover have "keeps_pinned b ?c"
      by (rule set_frame_pinned [OF ok Some]) (simp_all add: frame_data_def)
    moreover have "content ?c pid = content b pid"
      using set_frame_content(1) [OF ok Some ext] Some by (simp add: content_def frame_data_def)
    moreover have "page_pins ?p \<noteq> 1 \<or> page_dirty ?p \<or> disk_page (disk b) (pid_fd pid) (pid_no pid) = Some (page_data ?p)"
      using o(13) [OF tf(1,2)] tf(3) by (auto simp: frame_data_def)
    ultimately show ?thesis
      using set_frame_content(2) [OF ok Some ext] pins tf(1) o(1) Some
      by (auto simp: r same_files_def frame_data_def)
  next
    case None
    obtain v b1 where v: "find_victim_page b = (v, b1)" by fastforce
    show ?thesis
    proof (cases v)
      case None': None
      with v have v': "find_victim_page b = (None, b1)" by simp
      with run have "res = Inr None" "b' = b1" by (simp_all add: fetch_page_full [OF None])
      with find_victim_none [OF ok v'] show ?thesis by (simp add: keeps_pinned_refl same_files_def ok None)
    next
      case (Some f)
      with v have v': "find_victim_page b = (Some f, b1)" by simp
      obtain d where ext: "disk_extends (disk b) (page_id (pages b ! f)) d"
        and ev: "f \<notin> set (free_list b) \<Longrightarrow>
          disk_page d (pid_fd (page_id (pages b ! f))) (pid_no (page_id (pages b ! f))) = Some (frame_data b f)"
        and pn: "fd2pageno d = fd2pageno (disk b)"
        and f: "fetch_page pid b =
          (case disk_page d (pid_fd pid) (pid_no pid) of
             Some x \<Rightarrow> (Inr (Some f), install b b1 f (fetched pid x) d)
           | None \<Rightarrow> (Inl (Throw (InternalError ''DiskManager::read_page Error'')), install b b1 f (fetched pid zero_page) d))"
        using fetch_page_miss [OF ok None val v'] by metis
      obtain x where b': "b' = install b b1 f (fetched pid x) d" and x: "length x = PAGE_SIZE"
        and res: "res = Inr (Some f) \<and> disk_page d (pid_fd pid) (pid_no pid) = Some x
          \<or> res = Inl (Throw (InternalError ''DiskManager::read_page Error'')) \<and> disk_page d (pid_fd pid) (pid_no pid) = None"
        using f run disk_page_length [of d "pid_fd pid" "pid_no pid"]
        by (cases "disk_page d (pid_fd pid) (pid_no pid)") (auto simp: zero_page_def)
      let ?np = "fetched pid x"
      have np: "page_table b (page_id ?np) = None" "valid_pid (disk b) (page_id ?np)"
        "length (page_data ?np) = PAGE_SIZE" "0 < page_pins ?np"
        using None val x by simp_all
      note ic = install_content [OF ok v' np(1,2) ext ev]
      have "pid \<noteq> page_id (pages b ! f)"
        using victim_id_differs [OF ok v' None val] by simp
      then have keep: "content b pid = Some y \<Longrightarrow> disk_page d (pid_fd pid) (pid_no pid) = Some y" for y
        using disk_extendsD(4) [OF ext val] None by (simp add: content_def)
      have "bp_ok b'" unfolding b' by (rule install_ok [OF ok v' np ext])
      moreover have "keeps_pinned b b'" unfolding b' by (rule install_pinned [OF ok v' np(1)])
      moreover have "same_files b b'"
        using find_victim_frame(1) [OF v'] disk_extendsD(2) [OF ext] by (simp add: b' same_files_def install_def)
      moreover have "page_table b' pid = Some f" "page_pins (pages b' ! f) = 1" "disk b' = d" "frame_data b' f = x"
        using find_victim_some(1) [OF ok v'] o(1) by (simp_all add: b' install_def frame_data_def)
      ultimately show ?thesis
        using ic(2) [folded b'] ic(1) [folded b'] res keep pn
        by (cases "content b pid") (auto simp: b' [symmetric])
    qed
  qed
  then show "bp_ok b'" "keeps_pinned b b'" "same_files b b'" "fd2pageno (disk b') = fd2pageno (disk b)"
    "\<And>pid' x. valid_pid (disk b) pid' \<Longrightarrow> pid' \<noteq> pid \<Longrightarrow> content b pid' = Some x \<Longrightarrow> content b' pid' = Some x"
    "case res of
        Inr (Some f) \<Rightarrow> page_table b' pid = Some f \<and> 0 < page_pins (pages b' ! f)
          \<and> (content b pid \<noteq> None \<longrightarrow> content b' pid = content b pid)
          \<and> (page_dirty (pages b' ! f) \<or> page_pins (pages b' ! f) \<noteq> 1
             \<or> disk_page (disk b') (pid_fd pid) (pid_no pid) = Some (frame_data b' f))
      | Inr None \<Rightarrow> b' = b \<and> page_table b pid = None \<and> (\<forall>f < pool_size b. 0 < page_pins (pages b ! f))
      | Inl e \<Rightarrow> content b pid = None \<and> e = Throw (InternalError ''DiskManager::read_page Error'')"
    by blast+
qed

lemma fetch_page_pins:
  assumes ok: "bp_ok b" and val: "valid_pid (disk b) pid" and run: "fetch_page pid b = (Inr (Some f), b')"
  shows "pins b' = (pins b)(pid := pins b pid + 1)" and "stale b' pid' \<Longrightarrow> stale b pid'"
    and "length (frame_data b' f) = PAGE_SIZE" and "content b' pid = Some (frame_data b' f)"
    and "q \<noteq> pid \<Longrightarrow> page_table b q = None \<Longrightarrow> page_table b' q = None"
proof -
  note s = fetch_page_spec [OF ok val run]
  have t: "page_table b' pid = Some f" using s(6) by simp
  show "length (frame_data b' f) = PAGE_SIZE" "content b' pid = Some (frame_data b' f)"
    using bp_okD(6) [OF s(1)] bp_ok_table(1) [OF s(1) t] t by (simp_all add: content_def)
  have "pins b' = (pins b)(pid := pins b pid + 1) \<and> (\<forall>pid'. stale b' pid' \<longrightarrow> stale b pid')
    \<and> (\<forall>q. q \<noteq> pid \<longrightarrow> page_table b q = None \<longrightarrow> page_table b' q = None)"
  proof (cases "page_table b pid")
    case (Some g)
    let ?p = "(pages b ! g)\<lparr>page_pins := page_pins (pages b ! g) + 1\<rparr>"
    have g: "f = g" "b' = set_frame b g ?p (lru_pin (repl b) g) (disk b)"
      using run by (auto simp: fetch_page_hit [OF Some])
    have "stale b' pid \<longleftrightarrow> stale b pid" if "b' = set_frame b g ?p (lru_pin (repl b) g) (disk b)"
      unfolding that set_frame_stale(2) [OF ok Some disk_extends_refl [OF bp_okD(2) [OF ok]]]
      using Some by (simp add: stale_def frame_data_def)
    moreover have "stale b' pid' \<longrightarrow> pid' \<noteq> pid \<longrightarrow> stale b pid'" for pid'
      unfolding g(2) using set_frame_stale(1) [OF ok Some disk_extends_refl [OF bp_okD(2) [OF ok]]] by blast
    moreover have "pins b' = (pins b)(pid := pins b pid + 1)"
      unfolding g(2) set_frame_pins [OF ok Some] using Some by (simp add: pins_def)
    moreover have "page_table b' = page_table b" by (simp add: g(2))
    ultimately show ?thesis using g(2) by metis
  next
    case None
    obtain v b1 where v: "find_victim_page b = (v, b1)" by fastforce
    obtain g where "v = Some g" using run v fetch_page_full [OF None] by (cases v) auto
    with v have v': "find_victim_page b = (Some g, b1)" by simp
    obtain d where ext: "disk_extends (disk b) (page_id (pages b ! g)) d"
      and f: "fetch_page pid b =
        (case disk_page d (pid_fd pid) (pid_no pid) of
           Some x \<Rightarrow> (Inr (Some g), install b b1 g (fetched pid x) d)
         | None \<Rightarrow> (Inl (Throw (InternalError ''DiskManager::read_page Error'')), install b b1 g (fetched pid zero_page) d))"
      using fetch_page_miss [OF ok None val v'] by metis
    obtain x where x: "disk_page d (pid_fd pid) (pid_no pid) = Some x" "b' = install b b1 g (fetched pid x) d"
      using run f by (auto split: option.splits)
    have np: "page_table b (page_id (fetched pid x)) = None" "valid_pid (disk b) (page_id (fetched pid x))"
      using None val by simp_all
    have "pins b' = (pins b)(pid := pins b pid + 1)"
      unfolding x(2) install_pins [OF ok v' np] using None by (simp add: pins_def)
    moreover have "\<not> stale b' pid"
      using install_stale(2) [OF ok v' ext, of "fetched pid x"] x by simp
    moreover have "stale b' pid' \<longrightarrow> pid' \<noteq> pid \<longrightarrow> stale b pid'" for pid'
      using install_stale(1) [OF ok v' ext, of "fetched pid x"] x by simp
    moreover have "page_table b' q = None" if "q \<noteq> pid" "page_table b q = None" for q
      using that by (simp add: x(2) install_def)
    ultimately show ?thesis by metis
  qed
  then show "pins b' = (pins b)(pid := pins b pid + 1)" "stale b' pid' \<Longrightarrow> stale b pid'"
    "q \<noteq> pid \<Longrightarrow> page_table b q = None \<Longrightarrow> page_table b' q = None" by blast+
qed

section \<open>Unpinning, writing through a pin, marking dirty\<close>

lemma unpin_page_run:
  assumes "page_table b pid = Some f" and "f < length (pages b)"
  shows "unpin_page pid w b =
    (if page_pins (pages b ! f) = 0 then (False, b)
     else (True, set_frame b f ((pages b ! f)\<lparr>page_pins := page_pins (pages b ! f) - 1, page_dirty := w \<or> page_dirty (pages b ! f)\<rparr>)
                   (if page_pins (pages b ! f) = 1 then lru_unpin (repl b) f else repl b) (disk b)))"
  using assms by (auto simp: unpin_page_def upd_page_def set_frame_def Let_def)

lemma unpin_page_absent: "page_table b pid = None \<Longrightarrow> unpin_page pid w b = (False, b)"
  by (simp add: unpin_page_def)

lemma set_frame_content_all:
  assumes "bp_ok b" and "page_table b pid = Some f" and "page_data p = frame_data b f" and "d = disk b"
  shows "content (set_frame b f p r d) = content b"
proof
  fix pid'
  have pg: "(pages b)[f := p] ! g = (if g = f then p else pages b ! g)" for g
    using bp_ok_table(1) [OF assms(1,2)] bp_okD(1) [OF assms(1)] by simp
  show "content (set_frame b f p r d) pid' = content b pid'"
    using assms(3,4) by (simp add: content_def frame_data_def pg split: option.splits)
qed

text \<open>
  The obligation of a client that gives up the last pin of a page: it reports the page dirty, or
  the page is not stale.
\<close>

lemma unpin_page_spec:
  assumes ok: "bp_ok b" and may: "pins b pid = 1 \<Longrightarrow> w \<or> \<not> stale b pid" and run: "unpin_page pid w b = (r, b')"
  shows "bp_ok b'" and "content b' = content b" and "disk b' = disk b" and "page_table b' = page_table b"
    and "r \<longleftrightarrow> 0 < pins b pid" and "pool_size b' = pool_size b"
    and "0 < pins b pid \<Longrightarrow> pins b' = (pins b)(pid := pins b pid - 1)"
    and "stale b' pid' \<Longrightarrow> stale b pid' \<and> (pid' = pid \<longrightarrow> \<not> (r \<and> w))"
    and "frame_data b' = frame_data b"
proof -
  note o = bp_okD [OF ok]
  have "bp_ok b' \<and> content b' = content b \<and> disk b' = disk b \<and> page_table b' = page_table b
    \<and> (r \<longleftrightarrow> 0 < pins b pid) \<and> pool_size b' = pool_size b
    \<and> (0 < pins b pid \<longrightarrow> pins b' = (pins b)(pid := pins b pid - 1))
    \<and> (\<forall>pid'. stale b' pid' \<longrightarrow> stale b pid' \<and> (pid' = pid \<longrightarrow> \<not> (r \<and> w)))
    \<and> frame_data b' = frame_data b"
  proof (cases "page_table b pid")
    case None
    then show ?thesis using run ok by (simp add: unpin_page_absent pins_def)
  next
    case (Some f)
    note tf = bp_ok_table [OF ok Some]
    have fl: "f < length (pages b)" using tf(1) o(1) by simp
    have pf: "pins b pid = page_pins (pages b ! f)" using Some by (simp add: pins_def)
    show ?thesis
    proof (cases "page_pins (pages b ! f) = 0")
      case True
      then show ?thesis using run ok pf by (simp add: unpin_page_run [OF Some fl])
    next
      case False
      let ?p = "(pages b ! f)\<lparr>page_pins := page_pins (pages b ! f) - 1, page_dirty := w \<or> page_dirty (pages b ! f)\<rparr>"
      let ?r = "if page_pins (pages b ! f) = 1 then lru_unpin (repl b) f else repl b"
      let ?b = "set_frame b f ?p ?r (disk b)"
      have pos: "0 < page_pins (pages b ! f)" using o(7) [OF tf(1)] False by simp
      have rb: "r = True" "b' = ?b"
        using run False by (simp_all add: unpin_page_run [OF Some fl])
      have ext: "disk_extends (disk b) pid (disk b)" by (rule disk_extends_refl [OF o(2)])
      have "bp_ok b'" unfolding rb(2)
      proof (rule set_frame_ok [OF ok Some])
        show "lru_ok ?r" using o(3) lru_ok_unpin by auto
        show "set (lru_order ?r) =
          (if page_pins ?p = 0 then insert f (set (lru_order (repl b))) else set (lru_order (repl b)) - {f})"
          using o(12) pos by (auto simp: lru.set_order_unpin [OF o(3)])
        show "disk_page (disk b) (pid_fd pid) (pid_no pid) = Some (page_data ?p)"
          if "page_pins ?p = 0" "\<not> page_dirty ?p"
          using that may Some by (simp add: stale_def pf frame_data_def)
      qed (use tf(3) pos o(6) [OF tf(1)] ext in \<open>simp_all add: frame_data_def\<close>)
      moreover have "content b' = content b" "page_table b' = page_table b" "disk b' = disk b" "pool_size b' = pool_size b"
        unfolding rb(2) set_frame_simps by (rule set_frame_content_all [OF ok Some], simp_all add: frame_data_def)
      moreover have "pins b' = (pins b)(pid := pins b pid - 1)"
        unfolding rb(2) by (simp add: set_frame_pins [OF ok Some] pf)
      moreover have "stale b' pid' \<longrightarrow> stale b pid' \<and> (pid' = pid \<longrightarrow> \<not> w)" for pid'
        unfolding rb(2) using set_frame_stale [OF ok Some ext, where p = ?p and r = ?r] Some
        by (cases "pid' = pid") (auto simp: stale_def frame_data_def)
      moreover have "frame_data b' = frame_data b"
        unfolding rb(2) by (auto simp: fun_eq_iff frame_data_def nth_list_update fl)
      ultimately show ?thesis using rb(1) pf pos by simp
    qed
  qed
  then show "bp_ok b'" "content b' = content b" "disk b' = disk b" "page_table b' = page_table b"
    "r \<longleftrightarrow> 0 < pins b pid" "pool_size b' = pool_size b"
    "0 < pins b pid \<Longrightarrow> pins b' = (pins b)(pid := pins b pid - 1)"
    "stale b' pid' \<Longrightarrow> stale b pid' \<and> (pid' = pid \<longrightarrow> \<not> (r \<and> w))" "frame_data b' = frame_data b"
    by blast+
qed

lemma poke_spec:
  assumes ok: "bp_ok b" and t: "page_table b pid = Some f" and pin: "0 < page_pins (pages b ! f)"
    and len: "length bs = PAGE_SIZE"
  shows "bp_ok (poke f bs b)" and "content (poke f bs b) = (content b)(pid \<mapsto> bs)"
    and "pins (poke f bs b) = pins b" and "stale (poke f bs b) pid' \<Longrightarrow> stale b pid' \<or> pid' = pid"
    and "frame_data (poke f bs b) = (frame_data b)(f := bs)"
proof -
  note o = bp_okD [OF ok] and tf = bp_ok_table [OF ok t]
  let ?p = "(pages b ! f)\<lparr>page_data := bs\<rparr>"
  have ext: "disk_extends (disk b) pid (disk b)" by (rule disk_extends_refl [OF o(2)])
  have run: "poke f bs b = set_frame b f ?p (repl b) (disk b)"
    by (simp add: poke_def upd_page_def set_frame_def)
  show "bp_ok (poke f bs b)"
    unfolding run by (rule set_frame_ok [OF ok t]) (use tf pin len o(3,12) ext in auto)
  show "pins (poke f bs b) = pins b"
    unfolding run set_frame_pins [OF ok t] using t by (auto simp: pins_def)
  show "stale (poke f bs b) pid' \<Longrightarrow> stale b pid' \<or> pid' = pid"
    unfolding run using set_frame_stale(1) [OF ok t ext] by blast
  show "frame_data (poke f bs b) = (frame_data b)(f := bs)"
    using tf(1) o(1) by (auto simp: poke_def frame_data_def)
  show "content (poke f bs b) = (content b)(pid \<mapsto> bs)"
  proof
    fix pid'
    show "content (poke f bs b) pid' = ((content b)(pid \<mapsto> bs)) pid'"
    proof (cases "pid' = pid")
      case True
      then show ?thesis using t tf(1) o(1) by (simp add: poke_def content_def frame_data_def)
    next
      case False
      have "g \<noteq> f" if "page_table b pid' = Some g" for g
        using bp_ok_table(3) [OF ok that] tf(3) False by auto
      with False show ?thesis by (auto simp: poke_def content_def frame_data_def split: option.splits)
    qed
  qed
qed

lemma mark_dirty_spec:
  assumes ok: "bp_ok b" and t: "page_table b pid = Some f"
  shows "bp_ok (mark_dirty f b)" and "content (mark_dirty f b) = content b" and "\<not> stale (mark_dirty f b) pid"
    and "pins (mark_dirty f b) = pins b" and "stale (mark_dirty f b) pid' \<Longrightarrow> stale b pid'"
proof -
  note o = bp_okD [OF ok] and tf = bp_ok_table [OF ok t]
  let ?p = "(pages b ! f)\<lparr>page_dirty := True\<rparr>"
  have ext: "disk_extends (disk b) pid (disk b)" by (rule disk_extends_refl [OF o(2)])
  have run: "mark_dirty f b = set_frame b f ?p (repl b) (disk b)"
    by (simp add: mark_dirty_def upd_page_def set_frame_def)
  show "bp_ok (mark_dirty f b)"
    unfolding run by (rule set_frame_ok [OF ok t])
      (use tf o(3,12) o(6,7) [OF tf(1)] ext in \<open>auto simp: frame_data_def\<close>)
  show "content (mark_dirty f b) = content b"
    unfolding run by (rule set_frame_content_all [OF ok t]) (simp_all add: frame_data_def)
  show "\<not> stale (mark_dirty f b) pid"
    using t tf(1) o(1) by (simp add: stale_def mark_dirty_def)
  then show "stale (mark_dirty f b) pid' \<Longrightarrow> stale b pid'"
    unfolding run using set_frame_stale(1) [OF ok t ext] by blast
  show "pins (mark_dirty f b) = pins b"
    unfolding run set_frame_pins [OF ok t] using t by (auto simp: pins_def)
qed

section \<open>Flushing\<close>

lemma flush_page_spec:
  assumes ok: "bp_ok b" and t: "page_table b pid = Some f"
  obtains b' where "flush_page pid b = (Inr True, b')" and "bp_ok b'" and "content b' pid = content b pid"
    and "\<And>pid' x. valid_pid (disk b) pid' \<Longrightarrow> content b pid' = Some x \<Longrightarrow> content b' pid' = Some x"
    and "disk_page (disk b') (pid_fd pid) (pid_no pid) = content b pid"
    and "disk_extends (disk b) pid (disk b')"
    and "pins b' = pins b" and "page_table b' = page_table b" and "same_files b b'"
    and "pages b' = (pages b)[f := (pages b ! f)\<lparr>page_dirty := False\<rparr>]"
proof -
  note o = bp_okD [OF ok] and tf = bp_ok_table [OF ok t]
  let ?p = "(pages b ! f)\<lparr>page_dirty := False\<rparr>"
  let ?c = "b\<lparr>pages := (pages b)[f := ?p]\<rparr>"
  have fl: "f < length (pages b)" using tf(1) o(1) by simp
  have c: "pages ?c ! f = ?p" using fl by simp
  obtain d where d: "write_frame f ?c = (Inr (), ?c\<lparr>disk := d\<rparr>)" "disk_extends (disk b) pid d"
    "disk_page d (pid_fd pid) (pid_no pid) = Some (frame_data b f)"
  proof (rule write_frame_ok [of ?c f])
    show "disk_ok (disk ?c)" using o(2) by simp
    show "valid_pid (disk ?c) (page_id (pages ?c ! f))" using tf unfolding c by simp
    show "length (page_data (pages ?c ! f)) = PAGE_SIZE" using o(6) [OF tf(1)] unfolding c by (simp add: frame_data_def)
  qed (unfold c, use tf(3) that in \<open>simp add: frame_data_def\<close>)
  let ?b = "set_frame b f ?p (repl b) d"
  have eq: "?c\<lparr>disk := d\<rparr> = ?b" by (simp add: set_frame_def)
  have run: "flush_page pid b = (Inr True, ?b)"
    using t d(1) by (simp add: flush_page_def bindE_def modifyE_def returnE_def upd_page_def eq)
  have ok': "bp_ok ?b"
    by (rule set_frame_ok [OF ok t])
      (use tf d(2,3) o(3,12) o(6,7) [OF tf(1)] in \<open>auto simp: frame_data_def\<close>)
  have cpid: "content ?b pid = content b pid"
    using set_frame_content(1) [OF ok t d(2)] t by (simp add: content_def frame_data_def)
  show thesis
  proof (rule that [OF run ok' cpid])
    show "content ?b pid' = Some x" if "valid_pid (disk b) pid'" "content b pid' = Some x" for pid' x
      using set_frame_content(2) [OF ok t d(2) that(1)] that(2) cpid by (cases "pid' = pid") auto
    show "disk_page (disk ?b) (pid_fd pid) (pid_no pid) = content b pid"
      using d(3) t by (simp add: content_def)
    show "pins ?b = pins b" using set_frame_pins [OF ok t] t by (auto simp: pins_def)
    show "same_files b ?b" using disk_extendsD(2) [OF d(2)] by (simp add: same_files_def)
  qed (simp_all add: d(2))
qed

lemma write_frame_free_list: "write_frame f b = (r, b') \<Longrightarrow> free_list b' = free_list b"
  by (auto simp: write_frame_def lift_disk_def split: prod.splits)

lemma flush_page_free_list: "flush_page pid b = (r, b') \<Longrightarrow> free_list b' = free_list b"
  by (auto simp: flush_page_def bindE_def modifyE_def returnE_def
      dest: write_frame_free_list split: prod.splits sum.splits option.splits)

lemma flush_page_absent: "page_table b pid = None \<Longrightarrow> flush_page pid b = (Inr False, b)"
  by (simp add: flush_page_def)

lemma forE_invariant:
  assumes "P {} s" and "\<And>x D t. x \<in> set xs \<Longrightarrow> P D t \<Longrightarrow> \<exists>t'. m x t = (Inr (), t') \<and> P (insert x D) t'"
  shows "\<exists>s'. forE m xs s = (Inr (), s') \<and> P (set xs) s'"
proof -
  have "P D s \<Longrightarrow> \<exists>s'. forE m xs s = (Inr (), s') \<and> P (D \<union> set xs) s'" for D
    using assms(2)
  proof (induction xs arbitrary: D s)
    case Nil
    then show ?case by (simp add: returnE_def)
  next
    case (Cons x xs)
    then obtain t where t: "m x s = (Inr (), t)" "P (insert x D) t" by (meson list.set_intros(1))
    obtain s' where "forE m xs t = (Inr (), s')" "P (insert x D \<union> set xs) s'"
      using Cons.IH [OF t(2)] Cons.prems(2) by auto
    then show ?case using t(1) by (auto simp: bindE_def)
  qed
  from this [of "{}"] assms(1) show ?thesis by simp
qed

lemma flush_frame_cases:
  assumes ok: "bp_ok b" and f: "f < pool_size b"
  shows "pid_fd (page_id (pages b ! f)) = fd \<and> f \<notin> set (free_list b) \<and> page_table b (page_id (pages b ! f)) = Some f
      \<and> flush_frame fd f b = (case flush_page (page_id (pages b ! f)) b of (r, b') \<Rightarrow> (case r of Inr _ \<Rightarrow> Inr () | Inl e \<Rightarrow> Inl e, b'))
    \<or> (pid_fd (page_id (pages b ! f)) \<noteq> fd \<or> f \<in> set (free_list b)) \<and> flush_frame fd f b = (Inr (), b)"
proof (cases "f \<in> set (free_list b)")
  case True
  then show ?thesis using bp_okD(11) [OF ok] by (simp add: flush_frame_def)
next
  case False
  note t = bp_okD(8) [OF ok f False]
  have "pid_no (page_id (pages b ! f)) \<noteq> INVALID_PAGE_ID"
    using valid_pid_not_invalid [OF bp_ok_table(4) [OF ok t]] .
  then show ?thesis using False t
    by (auto simp: flush_frame_def flush_page_def Let_def bindE_def returnE_def split: prod.splits sum.splits)
qed

text \<open>What the flush loop has achieved after the frames in \<open>D\<close>.\<close>

definition flushed :: "int \<Rightarrow> BufferPool \<Rightarrow> frame_id_t set \<Rightarrow> BufferPool \<Rightarrow> bool" where
  "flushed fd b D c \<longleftrightarrow>
     bp_ok c \<and> same_files b c \<and> page_table c = page_table b \<and> free_list c = free_list b \<and> pins c = pins b
     \<and> (\<forall>f. page_id (pages c ! f) = page_id (pages b ! f) \<and> frame_data c f = frame_data b f)
     \<and> (\<forall>pid x. valid_pid (disk b) pid \<longrightarrow> content b pid = Some x \<longrightarrow> content c pid = Some x)
     \<and> (\<forall>f \<in> D. f < pool_size b \<longrightarrow> f \<notin> set (free_list b) \<longrightarrow> pid_fd (page_id (pages b ! f)) = fd \<longrightarrow>
          \<not> page_dirty (pages c ! f)
          \<and> disk_page (disk c) fd (pid_no (page_id (pages b ! f))) = Some (frame_data b f))"

lemma flush_frame_step:
  assumes I: "flushed fd b D c" and f: "f < pool_size b"
  shows "\<exists>c'. flush_frame fd f c = (Inr (), c') \<and> flushed fd b (insert f D) c'"
proof -
  have ok: "bp_ok c" and ps: "pool_size c = pool_size b" and fl: "free_list c = free_list b"
    and id: "\<And>g. page_id (pages c ! g) = page_id (pages b ! g)" and dat: "\<And>g. frame_data c g = frame_data b g"
    and tab: "page_table c = page_table b"
    using I by (simp_all add: flushed_def same_files_def)
  have fc: "f < pool_size c" using f ps by simp
  let ?pid = "page_id (pages b ! f)"
  show ?thesis
  proof (cases "pid_fd ?pid = fd \<and> f \<notin> set (free_list b)")
    case False
    then have "flush_frame fd f c = (Inr (), c)"
      using flush_frame_cases [OF ok fc, of fd] by (auto simp: id fl)
    then show ?thesis using I False by (auto simp: flushed_def)
  next
    case True
    then have t: "page_table c ?pid = Some f"
      and run: "flush_frame fd f c = (case flush_page ?pid c of (r, b') \<Rightarrow> (case r of Inr _ \<Rightarrow> Inr () | Inl e \<Rightarrow> Inl e, b'))"
      using flush_frame_cases [OF ok fc, of fd] by (auto simp: id fl)
    obtain c' where c': "flush_page ?pid c = (Inr True, c')" "bp_ok c'"
      and keep: "\<And>pid' x. valid_pid (disk c) pid' \<Longrightarrow> content c pid' = Some x \<Longrightarrow> content c' pid' = Some x"
      and dp: "disk_page (disk c') (pid_fd ?pid) (pid_no ?pid) = content c ?pid"
      and ext: "disk_extends (disk c) ?pid (disk c')"
      and pi: "pins c' = pins c" and tab': "page_table c' = page_table c" and sf: "same_files c c'"
      and pg: "pages c' = (pages c)[f := (pages c ! f)\<lparr>page_dirty := False\<rparr>]"
      by (rule flush_page_spec [OF ok t], rule that)
    have fl': "free_list c' = free_list c"
      by (rule flush_page_free_list [OF c'(1)])
    have flen: "f < length (pages c)" using fc bp_okD(1) [OF ok] by simp
    have pg': "pages c' ! g = (if g = f then (pages c ! f)\<lparr>page_dirty := False\<rparr> else pages c ! g)" for g
      using flen by (simp add: pg)
    have valid: "valid_pid (disk c) pid' = valid_pid (disk b) pid'" for pid'
      using I by (simp add: flushed_def same_files_def valid_pid_def)
    have clean: "\<not> page_dirty (pages c' ! g) \<and> disk_page (disk c') fd (pid_no (page_id (pages b ! g))) = Some (frame_data b g)"
      if g: "g \<in> insert f D" "g < pool_size b" "g \<notin> set (free_list b)" "pid_fd (page_id (pages b ! g)) = fd" for g
    proof (cases "g = f")
      case gf: True
      then show ?thesis using dp t True by (simp add: pg' content_def dat)
    next
      case False
      with g have old: "\<not> page_dirty (pages c ! g)" "disk_page (disk c) fd (pid_no (page_id (pages b ! g))) = Some (frame_data b g)"
        using I by (auto simp: flushed_def)
      have tg: "page_table c (page_id (pages b ! g)) = Some g"
        using bp_okD(8) [OF ok, of g] g ps fl id by simp
      then have "page_id (pages b ! g) \<noteq> ?pid" using t False by auto
      then show ?thesis
        using disk_extendsD(4) [OF ext bp_ok_table(4) [OF ok tg]] old g(4) False by (simp add: pg')
    qed
    have "flushed fd b (insert f D) c'"
      unfolding flushed_def
    proof (intro conjI)
      show "\<forall>g. page_id (pages c' ! g) = page_id (pages b ! g) \<and> frame_data c' g = frame_data b g"
        using id dat by (simp add: pg' frame_data_def)
      show "\<forall>pid x. valid_pid (disk b) pid \<longrightarrow> content b pid = Some x \<longrightarrow> content c' pid = Some x"
        using keep valid I unfolding flushed_def by blast
      show "same_files b c'" using sf I by (simp add: flushed_def same_files_def)
    qed (use c'(2) clean tab' fl' pi I in \<open>auto simp: flushed_def\<close>)
    then show ?thesis using run c'(1) by simp
  qed
qed

lemma flush_all_pages_spec:
  assumes ok: "bp_ok b"
  obtains b' where "flush_all_pages fd b = (Inr (), b')" and "flushed fd b {..<pool_size b} b'"
    and "\<And>pid x. valid_pid (disk b) pid \<Longrightarrow> pid_fd pid = fd \<Longrightarrow> content b pid = Some x \<Longrightarrow>
      disk_page (disk b') fd (pid_no pid) = Some x"
proof -
  have "flushed fd b {} b" using ok by (simp add: flushed_def same_files_def)
  moreover have "\<exists>c'. flush_frame fd f c = (Inr (), c') \<and> flushed fd b (insert f D) c'"
    if "f \<in> set [0..<pool_size b]" "flushed fd b D c" for f D c
    using flush_frame_step [OF that(2)] that(1) by simp
  ultimately obtain b' where b': "flush_all_pages fd b = (Inr (), b')" "flushed fd b {..<pool_size b} b'"
    using forE_invariant [of "flushed fd b" b "[0..<pool_size b]" "flush_frame fd"]
    by (auto simp: flush_all_pages_def atLeast_upt)
  show thesis
  proof (rule that [OF b'])
    fix pid x
    assume v: "valid_pid (disk b) pid" "pid_fd pid = fd" and x: "content b pid = Some x"
    show "disk_page (disk b') fd (pid_no pid) = Some x"
    proof (cases "page_table b pid")
      case None
      then have "page_table b' pid = None" using b'(2) by (simp add: flushed_def)
      moreover have "content b' pid = Some x" using b'(2) v x by (simp add: flushed_def)
      ultimately show ?thesis using v(2) by (simp add: content_def)
    next
      case (Some f)
      note tf = bp_ok_table [OF ok Some]
      then have "disk_page (disk b') fd (pid_no (page_id (pages b ! f))) = Some (frame_data b f)"
        using b'(2) v(2) unfolding flushed_def by blast
      then show ?thesis using tf(3) x Some by (simp add: content_def)
    qed
  qed
qed

section \<open>Freeing and deleting pages\<close>

lemma drop_frame_pins:
  assumes ok: "bp_ok b" and t: "page_table b pid = Some f"
  shows "pins (drop_frame b pid f p d) = (pins b)(pid := 0)"
proof
  fix pid'
  have "g \<noteq> f" if "page_table b pid' = Some g" "pid' \<noteq> pid" for g
    using bp_ok_table(3) [OF ok that(1)] bp_ok_table(3) [OF ok t] that(2) by auto
  then show "pins (drop_frame b pid f p d) pid' = ((pins b)(pid := 0)) pid'"
    by (auto simp: pins_def split: option.splits)
qed

lemma clean_on_disk:
  assumes ok: "bp_ok b" and t: "page_table b pid = Some f" and c: "page_pins (pages b ! f) = 0" "\<not> page_dirty (pages b ! f)"
  shows "disk_page (disk b) (pid_fd pid) (pid_no pid) = Some (frame_data b f)"
  using bp_okD(13) [OF ok _ _ c] bp_ok_table [OF ok t] by simp

lemma free_page_run:
  assumes "page_table b pid = Some f" and "page_pins (pages b ! f) = 0" and "\<not> page_dirty (pages b ! f)"
  shows "free_page pid b =
    (Inr (), drop_frame b pid f ((pages b ! f)\<lparr>page_id := (page_id (pages b ! f))\<lparr>pid_no := INVALID_PAGE_ID\<rparr>\<rparr>) (disk b))"
  using assms by (simp add: free_page_def bindE_def assertE_def modifyE_def upd_page_def drop_frame_def returnE_def)

lemma free_page_spec:
  assumes ok: "bp_ok b" and t: "page_table b pid = Some f"
    and c: "page_pins (pages b ! f) = 0" "\<not> page_dirty (pages b ! f)"
  obtains b' where "free_page pid b = (Inr (), b')" and "bp_ok b'" and "page_table b' = (page_table b)(pid := None)"
    and "pins b' = pins b" and "disk b' = disk b" and "pool_size b' = pool_size b"
    and "\<And>pid' x. valid_pid (disk b) pid' \<Longrightarrow> content b pid' = Some x \<Longrightarrow> content b' pid' = Some x"
    and "\<And>g. g \<noteq> f \<Longrightarrow> pages b' ! g = pages b ! g"
proof -
  note o = bp_okD [OF ok] and tf = bp_ok_table [OF ok t]
  let ?p = "(pages b ! f)\<lparr>page_id := (page_id (pages b ! f))\<lparr>pid_no := INVALID_PAGE_ID\<rparr>\<rparr>"
  let ?b = "drop_frame b pid f ?p (disk b)"
  have ext: "disk_extends (disk b) pid (disk b)" by (rule disk_extends_refl [OF o(2)])
  show thesis
  proof (rule that [OF free_page_run [OF t c]])
    show "bp_ok ?b"
      by (rule drop_frame_ok [OF ok t _ _ _ _ ext]) (use c o(6) [OF tf(1)] in \<open>simp_all add: frame_data_def\<close>)
    show "pins ?b = pins b" using t c by (auto simp: drop_frame_pins [OF ok t] pins_def)
    show "content ?b pid' = Some x" if "valid_pid (disk b) pid'" "content b pid' = Some x" for pid' x
      by (rule drop_frame_content [OF ok t ext clean_on_disk [OF ok t c] that])
  qed simp_all
qed

text \<open>What the freeing loop has achieved after the frames in \<open>D\<close>.\<close>

definition freed :: "int \<Rightarrow> BufferPool \<Rightarrow> frame_id_t set \<Rightarrow> BufferPool \<Rightarrow> bool" where
  "freed fd b D c \<longleftrightarrow>
     bp_ok c \<and> disk c = disk b \<and> pool_size c = pool_size b \<and> pins c = pins b
     \<and> (\<forall>pid f. page_table c pid = Some f \<longrightarrow> page_table b pid = Some f \<and> pages c ! f = pages b ! f
          \<and> (f \<in> D \<longrightarrow> pid_fd pid \<noteq> fd))
     \<and> (\<forall>pid f. page_table b pid = Some f \<longrightarrow> pid_fd pid \<noteq> fd \<longrightarrow> page_table c pid = Some f)
     \<and> (\<forall>pid x. valid_pid (disk b) pid \<longrightarrow> content b pid = Some x \<longrightarrow> content c pid = Some x)"

lemma freedD:
  assumes "freed fd b D c"
  shows "bp_ok c" and "disk c = disk b" and "pool_size c = pool_size b" and "pins c = pins b"
    and "page_table c pid = Some f \<Longrightarrow> page_table b pid = Some f"
    and "page_table c pid = Some f \<Longrightarrow> pages c ! f = pages b ! f"
    and "page_table c pid = Some f \<Longrightarrow> f \<in> D \<Longrightarrow> pid_fd pid \<noteq> fd"
    and "page_table b pid = Some f \<Longrightarrow> pid_fd pid \<noteq> fd \<Longrightarrow> page_table c pid = Some f"
    and "valid_pid (disk b) pid \<Longrightarrow> content b pid = Some x \<Longrightarrow> content c pid = Some x"
  using assms unfolding freed_def by blast+

lemma free_frame_step:
  assumes I: "freed fd b D c" and f: "f < pool_size b"
    and idle: "\<And>pid g. page_table b pid = Some g \<Longrightarrow> pid_fd pid = fd \<Longrightarrow>
      page_pins (pages b ! g) = 0 \<and> \<not> page_dirty (pages b ! g)"
  shows "\<exists>c'. free_frame fd f c = (Inr (), c') \<and> freed fd b (insert f D) c'"
proof -
  have ok: "bp_ok c" and ps: "pool_size c = pool_size b" and dk: "disk c = disk b"
    by (rule freedD [OF I])+
  let ?pid = "page_id (pages c ! f)"
  show ?thesis
  proof (cases "pid_no ?pid \<noteq> INVALID_PAGE_ID \<and> pid_fd ?pid = fd")
    case False
    then have "free_frame fd f c = (Inr (), c)" by (auto simp: free_frame_def Let_def)
    moreover have "pid_fd pid \<noteq> fd" if t: "page_table c pid = Some f" for pid
      using False bp_ok_table(3) [OF ok t] valid_pid_not_invalid [OF bp_ok_table(4) [OF ok t]] by auto
    ultimately show ?thesis using I unfolding freed_def by (intro exI [of _ c]) blast
  next
    case True
    have t: "page_table c ?pid = Some f" using True bp_okD(8,11) [OF ok] f ps by metis
    note tb = freedD(5,6) [OF I t]
    have cl: "page_pins (pages c ! f) = 0" "\<not> page_dirty (pages c ! f)"
      using idle [OF tb(1)] True tb(2) by simp_all
    obtain c' where c': "free_page ?pid c = (Inr (), c')" "bp_ok c'" "page_table c' = (page_table c)(?pid := None)"
      "pins c' = pins c" "disk c' = disk c" "pool_size c' = pool_size c"
      and keep: "\<And>pid' x. valid_pid (disk c) pid' \<Longrightarrow> content c pid' = Some x \<Longrightarrow> content c' pid' = Some x"
      and pg: "\<And>g. g \<noteq> f \<Longrightarrow> pages c' ! g = pages c ! g"
      by (rule free_page_spec [OF ok t cl], rule that)
    have run: "free_frame fd f c = (Inr (), c')"
      using True c'(1) t by (simp add: free_frame_def free_page_def Let_def)
    have other: "g \<noteq> f" if "page_table c pid = Some g" "pid \<noteq> ?pid" for pid g
      using bp_ok_table(3) [OF ok that(1)] that(2) by auto
    have "freed fd b (insert f D) c'"
      unfolding freed_def
    proof (intro conjI)
      show "\<forall>pid g. page_table c' pid = Some g \<longrightarrow> page_table b pid = Some g \<and> pages c' ! g = pages b ! g
          \<and> (g \<in> insert f D \<longrightarrow> pid_fd pid \<noteq> fd)"
      proof (intro allI impI)
        fix pid g
        assume "page_table c' pid = Some g"
        then have g: "page_table c pid = Some g" "pid \<noteq> ?pid" by (auto simp: c'(3) split: if_splits)
        show "page_table b pid = Some g \<and> pages c' ! g = pages b ! g
            \<and> (g \<in> insert f D \<longrightarrow> pid_fd pid \<noteq> fd)"
          using freedD(5,6,7) [OF I g(1)] other [OF g] pg by auto
      qed
      show "\<forall>pid g. page_table b pid = Some g \<longrightarrow> pid_fd pid \<noteq> fd \<longrightarrow> page_table c' pid = Some g"
        using freedD(8) [OF I] True by (auto simp: c'(3))
      show "\<forall>pid x. valid_pid (disk b) pid \<longrightarrow> content b pid = Some x \<longrightarrow> content c' pid = Some x"
        using freedD(9) [OF I] keep dk by simp
    qed (use c' freedD(1-4) [OF I] in simp_all)
    then show ?thesis using run by blast
  qed
qed

lemma free_all_pages_spec:
  assumes ok: "bp_ok b"
    and idle: "\<And>pid g. page_table b pid = Some g \<Longrightarrow> pid_fd pid = fd \<Longrightarrow>
      page_pins (pages b ! g) = 0 \<and> \<not> page_dirty (pages b ! g)"
  obtains b' where "free_all_pages fd b = (Inr (), b')" and "freed fd b {..<pool_size b} b'"
    and "\<And>pid. pid_fd pid = fd \<Longrightarrow> page_table b' pid = None"
proof -
  have "freed fd b {} b" using ok by (simp add: freed_def)
  moreover have "\<exists>c'. free_frame fd f c = (Inr (), c') \<and> freed fd b (insert f D) c'"
    if "f \<in> set [0..<pool_size b]" "freed fd b D c" for f D c
    using free_frame_step [OF that(2) _ idle] that(1) by simp
  ultimately obtain b' where b': "free_all_pages fd b = (Inr (), b')" "freed fd b {..<pool_size b} b'"
    using forE_invariant [of "freed fd b" b "[0..<pool_size b]" "free_frame fd"]
    by (auto simp: free_all_pages_def atLeast_upt)
  have "page_table b' pid = None" if "pid_fd pid = fd" for pid
  proof (rule ccontr)
    assume "page_table b' pid \<noteq> None"
    then obtain f where t: "page_table b' pid = Some f" by auto
    have "f < pool_size b" using bp_ok_table(1) [OF freedD(1) [OF b'(2)] t] freedD(3) [OF b'(2)] by simp
    then show False using freedD(7) [OF b'(2) t] that by simp
  qed
  with b' that show thesis by blast
qed

lemma delete_page_pinned:
  "page_table b pid = Some f \<Longrightarrow> 0 < page_pins (pages b ! f) \<Longrightarrow> delete_page pid b = (Inr False, b)"
  by (simp add: delete_page_def)

lemma delete_page_spec:
  assumes ok: "bp_ok b" and unpinned: "pins b pid = 0"
  obtains b' where "delete_page pid b = (Inr True, b')" and "bp_ok b'" and "page_table b' pid = None"
    and "pins b' = pins b" and "same_files b b'"
    and "\<And>pid' x. valid_pid (disk b) pid' \<Longrightarrow> content b pid' = Some x \<Longrightarrow> content b' pid' = Some x"
proof (cases "page_table b pid")
  case None
  then have "delete_page pid b = (Inr True, b)"
    by (simp add: delete_page_def bindE_def lift_disk_def deallocate_page_def returnE_def)
  then show thesis using that [of b] ok None by (simp add: same_files_def)
next
  case (Some f)
  note o = bp_okD [OF ok] and tf = bp_ok_table [OF ok Some]
  let ?c = "b\<lparr>repl := lru_pin (repl b) f, page_table := (page_table b)(pid := None), free_list := free_list b @ [f]\<rparr>"
  let ?p = "\<lparr>page_id = \<lparr>pid_fd = -1, pid_no = INVALID_PAGE_ID\<rparr>, page_data = zero_page, page_dirty = False, page_pins = 0\<rparr>"
  have p0: "page_pins (pages b ! f) = 0" using unpinned Some by (simp add: pins_def)
  have fl: "f < length (pages b)" using tf(1) o(1) by simp
  obtain d where d: "disk_extends (disk b) pid d" "disk_page d (pid_fd pid) (pid_no pid) = Some (frame_data b f)"
    and run: "delete_page pid b = (Inr True, drop_frame b pid f ?p d)"
  proof (cases "page_dirty (pages b ! f)")
    case False
    have "delete_page pid b = (Inr True, drop_frame b pid f ?p (disk b))"
      using False Some p0
      by (simp add: delete_page_def bindE_def modifyE_def returnE_def lift_disk_def deallocate_page_def
          upd_page_def drop_frame_def) (cases "pages b ! f", simp)
    then show thesis
      using that disk_extends_refl [OF o(2)] clean_on_disk [OF ok Some p0 False] by blast
  next
    case True
    obtain d where "write_frame f ?c = (Inr (), ?c\<lparr>disk := d\<rparr>)" "disk_extends (disk b) pid d"
      "disk_page d (pid_fd pid) (pid_no pid) = Some (frame_data b f)"
      by (rule write_frame_ok [of ?c f]) (use o(2) o(6) [OF tf(1)] tf(3,4) that in \<open>simp_all add: frame_data_def\<close>)
    moreover from this(1) have "delete_page pid b = (Inr True, drop_frame b pid f ?p d)"
      using True Some p0 fl
      by (simp add: delete_page_def bindE_def modifyE_def returnE_def lift_disk_def deallocate_page_def
          upd_page_def drop_frame_def) (cases "pages b ! f", simp)
    ultimately show thesis using that by blast
  qed
  show thesis
  proof (rule that [OF run])
    show "bp_ok (drop_frame b pid f ?p d)"
      by (rule drop_frame_ok [OF ok Some _ _ _ _ d(1)]) (simp_all add: zero_page_def)
    show "pins (drop_frame b pid f ?p d) = pins b" using Some p0 by (auto simp: drop_frame_pins [OF ok Some] pins_def)
    show "content (drop_frame b pid f ?p d) pid' = Some x" if "valid_pid (disk b) pid'" "content b pid' = Some x" for pid' x
      by (rule drop_frame_content [OF ok Some d that])
    show "same_files b (drop_frame b pid f ?p d)" using disk_extendsD(2) [OF d(1)] by (simp add: same_files_def)
  qed simp
qed

section \<open>new\_page\<close>

lemma disk_page_alloc [simp]: "disk_page (d\<lparr>fd2pageno := m\<rparr>) fd pno = disk_page d fd pno"
  by (cases "fd_entry d fd") (auto simp: disk_page_def file_of_def)

lemma disk_ok_alloc [simp]: "disk_ok (d\<lparr>fd2pageno := m\<rparr>) = disk_ok d"
  by (simp add: disk_ok_def)

definition created :: "PageId \<Rightarrow> Page" where
  "created pid = \<lparr>page_id = pid, page_data = zero_page, page_dirty = False, page_pins = 1\<rparr>"

lemma created_simps [simp]:
  "page_id (created pid) = pid" "page_data (created pid) = zero_page"
  "page_pins (created pid) = 1" "page_dirty (created pid) = False"
  by (simp_all add: created_def)

lemma new_page_run:
  assumes ok: "bp_ok b" and v: "find_victim_page b = (Some f, b1)" and fd: "0 \<le> fd" "fd < MAX_FD"
  obtains d where "new_page fd b =
      (Inr (Some (f, \<lparr>pid_fd = fd, pid_no = fd2pageno (disk b) fd\<rparr>)),
       install b b1 f (created \<lparr>pid_fd = fd, pid_no = fd2pageno (disk b) fd\<rparr>) d)"
    and "disk_extends (disk b) (page_id (pages b ! f)) d"
    and "f \<notin> set (free_list b) \<Longrightarrow>
      disk_page d (pid_fd (page_id (pages b ! f))) (pid_no (page_id (pages b ! f))) = Some (frame_data b f)"
    and "fd2pageno d = (fd2pageno (disk b))(fd := fd2pageno (disk b) fd + 1)"
proof -
  note vf = find_victim_frame [OF v] and o = bp_okD [OF ok]
  let ?d0 = "(disk b)\<lparr>fd2pageno := (fd2pageno (disk b))(fd := fd2pageno (disk b) fd + 1)\<rparr>"
  let ?c = "b1\<lparr>page_table := (page_table b)(page_id (pages b ! f) := None), disk := ?d0\<rparr>"
  have c: "pages ?c = pages b" "disk_ok (disk ?c)" "fd2path (disk ?c) = fd2path (disk b)"
    "\<And>fd pno. disk_page (disk ?c) fd pno = disk_page (disk b) fd pno"
    using vf o(2) by simp_all
  obtain d where d: "(if page_dirty (pages b ! f) then write_frame f else returnE ()) ?c = (Inr (), ?c\<lparr>disk := d\<rparr>)"
    and ext: "disk_extends (disk b) (page_id (pages b ! f)) d"
    and ev: "f \<notin> set (free_list b) \<Longrightarrow>
      disk_page d (pid_fd (page_id (pages b ! f))) (pid_no (page_id (pages b ! f))) = Some (frame_data b f)"
    and pn: "fd2pageno d = fd2pageno (disk ?c)"
    by (rule evict_disk [OF ok v c], rule that)
  have "new_page fd b =
      (Inr (Some (f, \<lparr>pid_fd = fd, pid_no = fd2pageno (disk b) fd\<rparr>)),
       install b b1 f (created \<lparr>pid_fd = fd, pid_no = fd2pageno (disk b) fd\<rparr>) d)"
    using v vf d fd
    by (simp add: new_page_def bindE_def modifyE_def lift_disk_def allocate_page_def upd_page_def returnE_def
        install_def created_def page_overwrite)
  then show thesis by (rule that) (use ext ev pn in simp_all)
qed

lemma new_page_full: "find_victim_page b = (None, b1) \<Longrightarrow> new_page fd b = (Inr None, b1)"
  by (simp add: new_page_def)

lemma new_page_spec:
  assumes ok: "bp_ok b" and fd: "0 \<le> fd" "fd < MAX_FD"
    and pid: "pid = \<lparr>pid_fd = fd, pid_no = fd2pageno (disk b) fd\<rparr>"
    and val: "valid_pid (disk b) pid" and fresh: "page_table b pid = None"
    and run: "new_page fd b = (res, b')"
  shows "res = Inr None \<and> b' = b \<and> (\<forall>f < pool_size b. 0 < page_pins (pages b ! f))
      \<or> (\<exists>f. res = Inr (Some (f, pid)) \<and> page_table b' pid = Some f \<and> frame_data b' f = zero_page
          \<and> bp_ok b' \<and> keeps_pinned b b' \<and> same_files b b' \<and> pins b' = (pins b)(pid := 1)
          \<and> content b' pid = Some zero_page
          \<and> (\<forall>pid' x. valid_pid (disk b) pid' \<longrightarrow> pid' \<noteq> pid \<longrightarrow> content b pid' = Some x \<longrightarrow> content b' pid' = Some x)
          \<and> (\<forall>pid'. stale b' pid' \<longrightarrow> stale b pid' \<or> pid' = pid)
          \<and> (\<forall>q. q \<noteq> pid \<longrightarrow> page_table b q = None \<longrightarrow> page_table b' q = None)
          \<and> fd2pageno (disk b') = (fd2pageno (disk b))(fd := fd2pageno (disk b) fd + 1))"
proof -
  note o = bp_okD [OF ok]
  obtain v b1 where v: "find_victim_page b = (v, b1)" by fastforce
  show ?thesis
  proof (cases v)
    case None
    with v have v': "find_victim_page b = (None, b1)" by simp
    with run find_victim_none [OF ok v'] show ?thesis by (simp add: new_page_full)
  next
    case (Some f)
    with v have v': "find_victim_page b = (Some f, b1)" by simp
    obtain d where r: "new_page fd b =
        (Inr (Some (f, \<lparr>pid_fd = fd, pid_no = fd2pageno (disk b) fd\<rparr>)),
         install b b1 f (created \<lparr>pid_fd = fd, pid_no = fd2pageno (disk b) fd\<rparr>) d)"
      and ext: "disk_extends (disk b) (page_id (pages b ! f)) d"
      and ev: "f \<notin> set (free_list b) \<Longrightarrow>
        disk_page d (pid_fd (page_id (pages b ! f))) (pid_no (page_id (pages b ! f))) = Some (frame_data b f)"
      and pn: "fd2pageno d = (fd2pageno (disk b))(fd := fd2pageno (disk b) fd + 1)"
      by (rule new_page_run [OF ok v' fd], rule that)
    have b': "res = Inr (Some (f, pid))" "b' = install b b1 f (created pid) d"
      using r run by (simp_all add: pid)
    have np: "page_table b (page_id (created pid)) = None" "valid_pid (disk b) (page_id (created pid))"
      using fresh val by simp_all
    note ic = install_content [OF ok v' np ext ev] and st = install_stale [OF ok v' ext, of "created pid"]
    have "page_table b' pid = Some f" "frame_data b' f = zero_page"
      using find_victim_some(1) [OF ok v'] o(1) by (simp_all add: b' install_def frame_data_def)
    moreover have "bp_ok b'" unfolding b' by (rule install_ok [OF ok v' np]) (use ext in \<open>simp_all add: zero_page_def\<close>)
    moreover have "keeps_pinned b b'" unfolding b' by (rule install_pinned [OF ok v' np(1)])
    moreover have "same_files b b'"
      using find_victim_frame(1) [OF v'] disk_extendsD(2) [OF ext] by (simp add: b' same_files_def install_def)
    moreover have "pins b' = (pins b)(pid := 1)" using install_pins [OF ok v' np] by (simp add: b')
    moreover have "content b' pid = Some zero_page" using ic(1) by (simp add: b')
    moreover have "content b' pid' = Some x"
      if "valid_pid (disk b) pid'" "pid' \<noteq> pid" "content b pid' = Some x" for pid' x
      unfolding b' using ic(2) that by simp
    moreover have "stale b pid' \<or> pid' = pid" if "stale b' pid'" for pid'
      using st(1) [of pid'] that unfolding b' by auto
    moreover have "page_table b' q = None" if "q \<noteq> pid" "page_table b q = None" for q
      using that by (simp add: b' install_def)
    moreover have "fd2pageno (disk b') = (fd2pageno (disk b))(fd := fd2pageno (disk b) fd + 1)"
      using pn by (simp add: b' install_def)
    ultimately show ?thesis using b'(1) by blast
  qed
qed

end
