(* ===== verification/Page_Cache.thy ===== *)
theory Page_Cache
  imports Buffer_Pool
begin

text \<open>
  The contract between the buffer pool and the file handles above it (\<^verbatim>\<open>RmFileHandle\<close>,
  \<^verbatim>\<open>IxIndexHandle\<close>, the scans): a page is fetched, its bytes are read or overwritten through
  the pin, and it is unpinned with the right dirty flag. The locale states what the clients rely
  on, the clients' access patterns are proved from it once, and the buffer pool is shown to
  satisfy it.
\<close>

section \<open>The interface\<close>

locale page_cache =
  fixes ok :: "'s \<Rightarrow> bool" and valid :: "'s \<Rightarrow> 'p \<Rightarrow> bool" and cont :: "'s \<Rightarrow> 'p \<Rightarrow> bytes option"
    and pinc :: "'s \<Rightarrow> 'p \<Rightarrow> int" and lossy :: "'s \<Rightarrow> 'p \<Rightarrow> bool"
    and handle :: "'s \<Rightarrow> 'p \<Rightarrow> 'h option" and get :: "'s \<Rightarrow> 'h \<Rightarrow> bytes"
    and cap :: "'s \<Rightarrow> nat" and meta :: "'s \<Rightarrow> 'm"
    and fetch :: "'p \<Rightarrow> ('s, 'h option) stm" and put :: "'h \<Rightarrow> bytes \<Rightarrow> 's \<Rightarrow> 's"
    and release :: "'p \<Rightarrow> bool \<Rightarrow> 's \<Rightarrow> bool \<times> 's"
  assumes pinc_nonneg: "ok s \<Longrightarrow> 0 \<le> pinc s p"
    and handle_cont: "ok s \<Longrightarrow> handle s p = Some h \<Longrightarrow> cont s p = Some (get s h) \<and> length (get s h) = PAGE_SIZE"
    and fetch_law: "ok s \<Longrightarrow> valid s p \<Longrightarrow> fetch p s = (Inr (Some h), s') \<Longrightarrow>
      ok s' \<and> handle s' p = Some h \<and> pinc s' = (pinc s)(p := pinc s p + 1)
      \<and> (\<forall>q. lossy s' q \<longrightarrow> lossy s q) \<and> valid s' = valid s \<and> cap s' = cap s \<and> meta s' = meta s
      \<and> (\<forall>q x. valid s q \<longrightarrow> cont s q = Some x \<longrightarrow> cont s' q = Some x)
      \<and> (\<forall>q. 0 < pinc s q \<longrightarrow> handle s' q = handle s q)
      \<and> (\<forall>q. q \<noteq> p \<longrightarrow> handle s q = None \<longrightarrow> handle s' q = None)"
    and fetch_total: "ok s \<Longrightarrow> valid s p \<Longrightarrow> cont s p \<noteq> None \<Longrightarrow> card {q. 0 < pinc s q} < cap s \<Longrightarrow>
      \<exists>h s'. fetch p s = (Inr (Some h), s')"
    and put_law: "ok s \<Longrightarrow> handle s p = Some h \<Longrightarrow> 0 < pinc s p \<Longrightarrow> length x = PAGE_SIZE \<Longrightarrow>
      ok (put h x s) \<and> cont (put h x s) = (cont s)(p \<mapsto> x) \<and> pinc (put h x s) = pinc s
      \<and> handle (put h x s) = handle s \<and> valid (put h x s) = valid s \<and> cap (put h x s) = cap s
      \<and> meta (put h x s) = meta s \<and> (\<forall>q. lossy (put h x s) q \<longrightarrow> lossy s q \<or> q = p)"
    and release_law: "ok s \<Longrightarrow> 0 < pinc s p \<Longrightarrow> w \<or> \<not> lossy s p \<Longrightarrow> release p w s = (r, s') \<Longrightarrow>
      r \<and> ok s' \<and> cont s' = cont s \<and> pinc s' = (pinc s)(p := pinc s p - 1) \<and> handle s' = handle s
      \<and> valid s' = valid s \<and> cap s' = cap s \<and> meta s' = meta s
      \<and> (\<forall>q. lossy s' q \<longrightarrow> lossy s q \<and> (q = p \<longrightarrow> \<not> w))"
begin

lemma open_page:
  assumes ok: "ok s" and calm: "\<And>q. \<not> lossy s q" and v: "valid s p" and x: "cont s p = Some x"
    and room: "card {q. 0 < pinc s q} < cap s"
  obtains h s1 where "fetch p s = (Inr (Some h), s1)" and "ok s1" and "handle s1 p = Some h" and "get s1 h = x"
    and "pinc s1 = (pinc s)(p := pinc s p + 1)" and "\<And>q. \<not> lossy s1 q" and "length x = PAGE_SIZE"
    and "valid s1 = valid s" and "cap s1 = cap s" and "meta s1 = meta s"
    and "\<And>q y. valid s q \<Longrightarrow> cont s q = Some y \<Longrightarrow> cont s1 q = Some y"
    and "\<And>q. 0 < pinc s q \<Longrightarrow> handle s1 q = handle s q"
    and "\<And>q. q \<noteq> p \<Longrightarrow> handle s q = None \<Longrightarrow> handle s1 q = None"
proof -
  obtain h s1 where run: "fetch p s = (Inr (Some h), s1)"
    using fetch_total [OF ok v _ room] x by auto
  note l = fetch_law [OF ok v run]
  then have "cont s1 p = Some x" using v x by blast
  with l handle_cont [of s1 p h] have "get s1 h = x" "length x = PAGE_SIZE" by auto
  with l calm show thesis using that [OF run] by blast
qed

lemma read_only:
  assumes ok: "ok s" and calm: "\<And>q. \<not> lossy s q" and v: "valid s p" and x: "cont s p = Some x"
    and room: "card {q. 0 < pinc s q} < cap s"
  obtains h s1 s2 where "fetch p s = (Inr (Some h), s1)" and "get s1 h = x" and "handle s1 p = Some h"
    and "release p False s1 = (True, s2)" and "ok s2" and "pinc s2 = pinc s" and "\<And>q. \<not> lossy s2 q"
    and "valid s2 = valid s" and "cap s2 = cap s" and "meta s2 = meta s"
    and "\<And>q y. valid s q \<Longrightarrow> cont s q = Some y \<Longrightarrow> cont s2 q = Some y"
    and "\<And>q. q \<noteq> p \<Longrightarrow> handle s q = None \<Longrightarrow> handle s2 q = None"
proof -
  obtain h s1 where s1: "fetch p s = (Inr (Some h), s1)" "ok s1" "handle s1 p = Some h" "get s1 h = x"
    "pinc s1 = (pinc s)(p := pinc s p + 1)" and cl: "\<And>q. \<not> lossy s1 q"
    and v1: "valid s1 = valid s" "cap s1 = cap s" "meta s1 = meta s"
    and keep: "\<And>q y. valid s q \<Longrightarrow> cont s q = Some y \<Longrightarrow> cont s1 q = Some y"
    and new: "\<And>q. q \<noteq> p \<Longrightarrow> handle s q = None \<Longrightarrow> handle s1 q = None"
    by (rule open_page [OF assms], rule that)
  obtain r s2 where rel: "release p False s1 = (r, s2)" by fastforce
  have "0 < pinc s1 p" using pinc_nonneg [OF ok, of p] s1(5) by simp
  note l = release_law [OF s1(2) this _ rel]
  show thesis
    by (rule that [OF s1(1,4,3), of s2]) (use l cl rel v1 keep new s1(5) in auto)
qed

lemma read_modify_write:
  assumes ok: "ok s" and calm: "\<And>q. \<not> lossy s q" and v: "valid s p" and x: "cont s p = Some x"
    and room: "card {q. 0 < pinc s q} < cap s"
  obtains h s1 where "fetch p s = (Inr (Some h), s1)" and "get s1 h = x" and "handle s1 p = Some h"
    and "length x = PAGE_SIZE"
    and "\<And>y. length y = PAGE_SIZE \<Longrightarrow> \<exists>s2. release p True (put h y s1) = (True, s2)
      \<and> ok s2 \<and> pinc s2 = pinc s \<and> (\<forall>q. \<not> lossy s2 q) \<and> cont s2 p = Some y
      \<and> valid s2 = valid s \<and> cap s2 = cap s \<and> meta s2 = meta s
      \<and> (\<forall>q z. valid s q \<longrightarrow> q \<noteq> p \<longrightarrow> cont s q = Some z \<longrightarrow> cont s2 q = Some z)
      \<and> (\<forall>q. q \<noteq> p \<longrightarrow> handle s q = None \<longrightarrow> handle s2 q = None)"
proof -
  obtain h s1 where s1: "fetch p s = (Inr (Some h), s1)" "ok s1" "handle s1 p = Some h" "get s1 h = x"
    "pinc s1 = (pinc s)(p := pinc s p + 1)" and cl: "\<And>q. \<not> lossy s1 q" and len: "length x = PAGE_SIZE"
    and v1: "valid s1 = valid s" "cap s1 = cap s" "meta s1 = meta s"
    and keep: "\<And>q y. valid s q \<Longrightarrow> cont s q = Some y \<Longrightarrow> cont s1 q = Some y"
    and new: "\<And>q. q \<noteq> p \<Longrightarrow> handle s q = None \<Longrightarrow> handle s1 q = None"
    by (rule open_page [OF assms], rule that)
  have pos: "0 < pinc s1 p" using pinc_nonneg [OF ok, of p] s1(5) by simp
  show thesis
  proof (rule that [OF s1(1,4,3) len])
    fix y :: bytes
    assume y: "length y = PAGE_SIZE"
    note pl = put_law [OF s1(2,3) pos y]
    obtain r s2 where rel: "release p True (put h y s1) = (r, s2)" by fastforce
    have "0 < pinc (put h y s1) p" using pos pl by simp
    note l = release_law [OF _ this _ rel]
    show "\<exists>s2. release p True (put h y s1) = (True, s2)
      \<and> ok s2 \<and> pinc s2 = pinc s \<and> (\<forall>q. \<not> lossy s2 q) \<and> cont s2 p = Some y
      \<and> valid s2 = valid s \<and> cap s2 = cap s \<and> meta s2 = meta s
      \<and> (\<forall>q z. valid s q \<longrightarrow> q \<noteq> p \<longrightarrow> cont s q = Some z \<longrightarrow> cont s2 q = Some z)
      \<and> (\<forall>q. q \<noteq> p \<longrightarrow> handle s q = None \<longrightarrow> handle s2 q = None)"
      by (rule exI [of _ s2]) (use l pl cl rel v1 keep new s1(5) in auto)
  qed
qed

end

section \<open>The buffer pool provides it\<close>

lemma pinned_frames_card:
  assumes ok: "bp_ok b"
  shows "finite {pid. 0 < pins b pid}" and "card {pid. 0 < pins b pid} = card {f. f < pool_size b \<and> 0 < page_pins (pages b ! f)}"
proof -
  let ?F = "{f. f < pool_size b \<and> 0 < page_pins (pages b ! f)}"
  have nf: "f \<notin> set (free_list b)" if "f \<in> ?F" for f
    using that bp_okD(9) [OF ok, of f] by auto
  have im: "{pid. 0 < pins b pid} = (\<lambda>f. page_id (pages b ! f)) ` ?F"
  proof (intro set_eqI iffI)
    fix pid
    assume "pid \<in> {pid. 0 < pins b pid}"
    then obtain f where t: "page_table b pid = Some f" "0 < page_pins (pages b ! f)"
      by (auto simp: pins_def split: option.splits)
    then show "pid \<in> (\<lambda>f. page_id (pages b ! f)) ` ?F"
      using bp_ok_table [OF ok t(1)] by (intro image_eqI [of _ _ f]) simp_all
  next
    fix pid
    assume "pid \<in> (\<lambda>f. page_id (pages b ! f)) ` ?F"
    then obtain f where "f \<in> ?F" "pid = page_id (pages b ! f)" by blast
    then show "pid \<in> {pid. 0 < pins b pid}"
      using bp_okD(8) [OF ok _ nf] by (simp add: pins_def)
  qed
  have inj: "inj_on (\<lambda>f. page_id (pages b ! f)) ?F"
  proof (rule inj_onI)
    fix f g
    assume f: "f \<in> ?F" and g: "g \<in> ?F" and eq: "page_id (pages b ! f) = page_id (pages b ! g)"
    have "page_table b (page_id (pages b ! f)) = Some f" using bp_okD(8) [OF ok _ nf [OF f]] f by simp
    moreover have "page_table b (page_id (pages b ! g)) = Some g" using bp_okD(8) [OF ok _ nf [OF g]] g by simp
    ultimately show "f = g" unfolding eq by simp
  qed
  show "finite {pid. 0 < pins b pid}" unfolding im by simp
  show "card {pid. 0 < pins b pid} = card ?F" unfolding im by (rule card_image [OF inj])
qed

lemma pool_has_room:
  assumes ok: "bp_ok b" and room: "card {pid. 0 < pins b pid} < pool_size b"
  shows "\<not> (\<forall>f < pool_size b. 0 < page_pins (pages b ! f))"
proof
  assume "\<forall>f < pool_size b. 0 < page_pins (pages b ! f)"
  then have "{f. f < pool_size b \<and> 0 < page_pins (pages b ! f)} = {..<pool_size b}" by auto
  with room pinned_frames_card(2) [OF ok] show False by simp
qed

lemma pins_nonneg: "bp_ok b \<Longrightarrow> 0 \<le> pins b pid"
  by (auto simp: pins_def bp_ok_table(1) intro!: bp_okD(7) split: option.splits)

lemma keeps_pinned_handle:
  "keeps_pinned b b' \<Longrightarrow> 0 < pins b pid \<Longrightarrow> page_table b' pid = page_table b pid"
  by (auto simp: keeps_pinned_def pins_def split: option.splits)

interpretation pool: page_cache bp_ok "\<lambda>b. valid_pid (disk b)" content pins stale page_table frame_data
  pool_size "\<lambda>b. (fd2path (disk b), fd2pageno (disk b))" fetch_page poke unpin_page
proof unfold_locales
  fix b pid
  assume "bp_ok b"
  then show "0 \<le> pins b pid" by (rule pins_nonneg)
next
  fix b pid f
  assume "bp_ok b" "page_table b pid = Some f"
  then show "content b pid = Some (frame_data b f) \<and> length (frame_data b f) = PAGE_SIZE"
    using bp_okD(6) bp_ok_table(1) by (auto simp: content_def)
next
  fix b pid f b'
  assume a: "bp_ok b" "valid_pid (disk b) pid" "fetch_page pid b = (Inr (Some f), b')"
  note s = fetch_page_spec [OF a] and p = fetch_page_pins [OF a]
  have "valid_pid (disk b') = valid_pid (disk b)"
    using s(3) by (auto simp: same_files_def valid_pid_def fun_eq_iff)
  moreover have "content b' pid' = Some x" if "valid_pid (disk b) pid'" "content b pid' = Some x" for pid' x
    using s(5,6) that by (cases "pid' = pid") auto
  ultimately show "bp_ok b' \<and> page_table b' pid = Some f \<and> pins b' = (pins b)(pid := pins b pid + 1)
      \<and> (\<forall>q. stale b' q \<longrightarrow> stale b q) \<and> valid_pid (disk b') = valid_pid (disk b) \<and> pool_size b' = pool_size b
      \<and> (fd2path (disk b'), fd2pageno (disk b')) = (fd2path (disk b), fd2pageno (disk b))
      \<and> (\<forall>q x. valid_pid (disk b) q \<longrightarrow> content b q = Some x \<longrightarrow> content b' q = Some x)
      \<and> (\<forall>q. 0 < pins b q \<longrightarrow> page_table b' q = page_table b q)
      \<and> (\<forall>q. q \<noteq> pid \<longrightarrow> page_table b q = None \<longrightarrow> page_table b' q = None)"
    using s p keeps_pinned_handle [OF s(2)] by (simp add: same_files_def)
next
  fix b pid
  assume a: "bp_ok b" "valid_pid (disk b) pid" "content b pid \<noteq> None" "card {q. 0 < pins b q} < pool_size b"
  obtain res b' where run: "fetch_page pid b = (res, b')" by fastforce
  note s = fetch_page_spec(6) [OF a(1,2) run]
  show "\<exists>h b'. fetch_page pid b = (Inr (Some h), b')"
    using run s a(3) pool_has_room [OF a(1,4)] by (auto split: sum.splits option.splits)
next
  fix b pid f and x :: bytes
  assume a: "bp_ok b" "page_table b pid = Some f" "0 < pins b pid" "length x = PAGE_SIZE"
  then have "0 < page_pins (pages b ! f)" by (simp add: pins_def)
  note s = poke_spec [OF a(1,2) this a(4)]
  show "bp_ok (poke f x b) \<and> content (poke f x b) = (content b)(pid \<mapsto> x) \<and> pins (poke f x b) = pins b
      \<and> page_table (poke f x b) = page_table b \<and> valid_pid (disk (poke f x b)) = valid_pid (disk b)
      \<and> pool_size (poke f x b) = pool_size b \<and> (fd2path (disk (poke f x b)), fd2pageno (disk (poke f x b))) = (fd2path (disk b), fd2pageno (disk b))
      \<and> (\<forall>q. stale (poke f x b) q \<longrightarrow> stale b q \<or> q = pid)"
    using s by (simp add: poke_def)
next
  fix b pid w r b'
  assume a: "bp_ok b" "0 < pins b pid" "w \<or> \<not> stale b pid" "unpin_page pid w b = (r, b')"
  note s = unpin_page_spec [OF a(1) a(3) a(4)]
  show "r \<and> bp_ok b' \<and> content b' = content b \<and> pins b' = (pins b)(pid := pins b pid - 1)
      \<and> page_table b' = page_table b \<and> valid_pid (disk b') = valid_pid (disk b) \<and> pool_size b' = pool_size b
      \<and> (fd2path (disk b'), fd2pageno (disk b')) = (fd2path (disk b), fd2pageno (disk b))
      \<and> (\<forall>q. stale b' q \<longrightarrow> stale b q \<and> (q = pid \<longrightarrow> \<not> w))"
    using s a(2) by auto
qed

section \<open>Clients of the pool see a plain page store\<close>

datatype page_op = PRead PageId | PWrite PageId bytes

fun op_page :: "page_op \<Rightarrow> PageId" where
  "op_page (PRead pid) = pid"
| "op_page (PWrite pid _) = pid"

fun op_fits :: "page_op \<Rightarrow> bool" where
  "op_fits (PRead _) = True"
| "op_fits (PWrite _ y) = (length y = PAGE_SIZE)"

text \<open>A \<^verbatim>\<open>Page *\<close> that is used without a test for \<^verbatim>\<open>nullptr\<close>.\<close>

definition deref :: "'a option \<Rightarrow> ('s, 'a) stm" where
  "deref p = (case p of Some f \<Rightarrow> returnE f | None \<Rightarrow> throwE NullDeref)"

definition getsE :: "('s \<Rightarrow> 'a) \<Rightarrow> ('s, 'a) stm" where
  "getsE g s = (Inr (g s), s)"

definition unpinE :: "PageId \<Rightarrow> bool \<Rightarrow> (BufferPool, unit) stm" where
  "unpinE pid w = modifyE (\<lambda>b. snd (unpin_page pid w b))"

fun page_access :: "page_op \<Rightarrow> (BufferPool, bytes) stm" where
  "page_access (PRead pid) =
     bindE (fetch_page pid) (\<lambda>p. bindE (deref p) (\<lambda>f. bindE (getsE (\<lambda>b. frame_data b f)) (\<lambda>x.
     bindE (unpinE pid False) (\<lambda>_. returnE x))))"
| "page_access (PWrite pid y) =
     bindE (fetch_page pid) (\<lambda>p. bindE (deref p) (\<lambda>f. bindE (getsE (\<lambda>b. frame_data b f)) (\<lambda>x.
     bindE (modifyE (poke f y)) (\<lambda>_. bindE (unpinE pid True) (\<lambda>_. returnE x)))))"

fun store_access :: "page_op \<Rightarrow> (PageId \<rightharpoonup> bytes) \<Rightarrow> bytes \<times> (PageId \<rightharpoonup> bytes)" where
  "store_access (PRead pid) m = (the (m pid), m)"
| "store_access (PWrite pid y) m = (the (m pid), m(pid \<mapsto> y))"

fun store_run :: "page_op list \<Rightarrow> (PageId \<rightharpoonup> bytes) \<Rightarrow> bytes list \<times> (PageId \<rightharpoonup> bytes)" where
  "store_run [] m = ([], m)"
| "store_run (p # ps) m =
     (case store_access p m of (x, m') \<Rightarrow> (case store_run ps m' of (xs, m'') \<Rightarrow> (x # xs, m'')))"

lemma store_access_frame:
  "m (op_page p) = Some x \<Longrightarrow> snd (store_access p m) pid = None \<longleftrightarrow> m pid = None"
  "pid \<noteq> op_page p \<Longrightarrow> snd (store_access p m) pid = m pid"
  "m (op_page p) = m' (op_page p) \<Longrightarrow> snd (store_access p m) (op_page p) = snd (store_access p m') (op_page p)"
  by (cases p; simp)+

text \<open>No page can lose bytes and at least one frame is unpinned.\<close>

definition calm :: "BufferPool \<Rightarrow> bool" where
  "calm b \<longleftrightarrow> bp_ok b \<and> (\<forall>pid. \<not> stale b pid) \<and> card {pid. 0 < pins b pid} < pool_size b"

text \<open>
  The state after balanced accesses: as before but for the bytes of the pages in \<open>X\<close>, and pages of
  \<open>F\<close> may have come into the pool.
\<close>

definition evolves :: "PageId set \<Rightarrow> PageId set \<Rightarrow> BufferPool \<Rightarrow> BufferPool \<Rightarrow> bool" where
  "evolves F X b b' \<longleftrightarrow>
     calm b' \<and> valid_pid (disk b') = valid_pid (disk b) \<and> pins b' = pins b \<and> pool_size b' = pool_size b
     \<and> fd2path (disk b') = fd2path (disk b) \<and> fd2pageno (disk b') = fd2pageno (disk b)
     \<and> (\<forall>pid x. valid_pid (disk b) pid \<longrightarrow> pid \<notin> X \<longrightarrow> content b pid = Some x \<longrightarrow> content b' pid = Some x)
     \<and> (\<forall>pid. pid \<notin> F \<longrightarrow> page_table b pid = None \<longrightarrow> page_table b' pid = None)"

lemma evolvesD:
  assumes "evolves F X b b'"
  shows "calm b'" and "valid_pid (disk b') = valid_pid (disk b)" and "pins b' = pins b"
    and "pool_size b' = pool_size b" and "fd2pageno (disk b') = fd2pageno (disk b)"
    and "valid_pid (disk b) pid \<Longrightarrow> pid \<notin> X \<Longrightarrow> content b pid = Some x \<Longrightarrow> content b' pid = Some x"
    and "pid \<notin> F \<Longrightarrow> page_table b pid = None \<Longrightarrow> page_table b' pid = None"
    and "fd2path (disk b') = fd2path (disk b)"
  using assms unfolding evolves_def by blast+

lemma evolves_trans: "evolves F X b b' \<Longrightarrow> evolves G Y b' b'' \<Longrightarrow> evolves (F \<union> G) (X \<union> Y) b b''"
  unfolding evolves_def by simp

lemma evolves_mono: "evolves F X b b' \<Longrightarrow> F \<subseteq> G \<Longrightarrow> X \<subseteq> Y \<Longrightarrow> evolves G Y b b'"
  unfolding evolves_def by blast

lemma evolves_refl: "calm b \<Longrightarrow> evolves F X b b"
  by (simp add: evolves_def)

lemma calm_read:
  assumes c: "calm b" and v: "valid_pid (disk b) pid" and x: "content b pid = Some x"
  obtains f b1 b2 where "fetch_page pid b = (Inr (Some f), b1)" and "frame_data b1 f = x" and "page_table b1 pid = Some f"
    and "page_id (pages b1 ! f) = pid" and "unpin_page pid False b1 = (True, b2)" and "evolves {pid} {} b b2"
proof -
  have h: "bp_ok b" "\<And>q. \<not> stale b q" "card {q. 0 < pins b q} < pool_size b" using c by (simp_all add: calm_def)
  obtain f b1 b2 where r: "fetch_page pid b = (Inr (Some f), b1)" "frame_data b1 f = x" "page_table b1 pid = Some f"
    "unpin_page pid False b1 = (True, b2)" "bp_ok b2" "pins b2 = pins b" and ns: "\<And>q. \<not> stale b2 q"
    and e: "valid_pid (disk b2) = valid_pid (disk b)" "pool_size b2 = pool_size b"
      "(fd2path (disk b2), fd2pageno (disk b2)) = (fd2path (disk b), fd2pageno (disk b))"
    and k: "\<And>q y. valid_pid (disk b) q \<Longrightarrow> content b q = Some y \<Longrightarrow> content b2 q = Some y"
    and nw: "\<And>q. q \<noteq> pid \<Longrightarrow> page_table b q = None \<Longrightarrow> page_table b2 q = None"
    by (rule pool.read_only [OF h(1,2) v x h(3)], rule that)
  have "page_id (pages b1 ! f) = pid"
    using bp_ok_table(3) [OF fetch_page_spec(1) [OF h(1) v r(1)] r(3)] .
  moreover have "evolves {pid} {} b b2" using r(5,6) ns e k nw h(3) by (simp add: evolves_def calm_def)
  ultimately show thesis using that [OF r(1,2,3)] r(4) by blast
qed

lemma calm_write:
  assumes c: "calm b" and v: "valid_pid (disk b) pid" and x: "content b pid = Some x"
  obtains f b1 where "fetch_page pid b = (Inr (Some f), b1)" and "frame_data b1 f = x" and "page_table b1 pid = Some f"
    and "page_id (pages b1 ! f) = pid" and "length x = PAGE_SIZE"
    and "\<And>y. length y = PAGE_SIZE \<Longrightarrow> \<exists>b2. unpin_page pid True (poke f y b1) = (True, b2)
      \<and> evolves {pid} {pid} b b2 \<and> content b2 pid = Some y"
proof -
  have h: "bp_ok b" "\<And>q. \<not> stale b q" "card {q. 0 < pins b q} < pool_size b" using c by (simp_all add: calm_def)
  obtain f b1 where r: "fetch_page pid b = (Inr (Some f), b1)" "frame_data b1 f = x" "page_table b1 pid = Some f"
    "length x = PAGE_SIZE"
    and w: "\<And>y. length y = PAGE_SIZE \<Longrightarrow> \<exists>s2. unpin_page pid True (poke f y b1) = (True, s2)
      \<and> bp_ok s2 \<and> pins s2 = pins b \<and> (\<forall>q. \<not> stale s2 q) \<and> content s2 pid = Some y
      \<and> valid_pid (disk s2) = valid_pid (disk b) \<and> pool_size s2 = pool_size b
      \<and> (fd2path (disk s2), fd2pageno (disk s2)) = (fd2path (disk b), fd2pageno (disk b))
      \<and> (\<forall>q z. valid_pid (disk b) q \<longrightarrow> q \<noteq> pid \<longrightarrow> content b q = Some z \<longrightarrow> content s2 q = Some z)
      \<and> (\<forall>q. q \<noteq> pid \<longrightarrow> page_table b q = None \<longrightarrow> page_table s2 q = None)"
    by (rule pool.read_modify_write [OF h(1,2) v x h(3)], rule that)
  have "page_id (pages b1 ! f) = pid"
    using bp_ok_table(3) [OF fetch_page_spec(1) [OF h(1) v r(1)] r(3)] .
  then show thesis
  proof (rule that [OF r(1,2,3) _ r(4)])
    fix y :: bytes
    assume "length y = PAGE_SIZE"
    from w [OF this] obtain b2 where b2: "unpin_page pid True (poke f y b1) = (True, b2)" "bp_ok b2" "pins b2 = pins b"
      "\<forall>q. \<not> stale b2 q" "content b2 pid = Some y" "valid_pid (disk b2) = valid_pid (disk b)"
      "pool_size b2 = pool_size b" "(fd2path (disk b2), fd2pageno (disk b2)) = (fd2path (disk b), fd2pageno (disk b))"
      "\<forall>q z. valid_pid (disk b) q \<longrightarrow> q \<noteq> pid \<longrightarrow> content b q = Some z \<longrightarrow> content b2 q = Some z"
      "\<forall>q. q \<noteq> pid \<longrightarrow> page_table b q = None \<longrightarrow> page_table b2 q = None"
      by blast
    have "evolves {pid} {pid} b b2" using b2 h(3) by (simp add: evolves_def calm_def)
    with b2 show "\<exists>b2. unpin_page pid True (poke f y b1) = (True, b2) \<and> evolves {pid} {pid} b b2 \<and> content b2 pid = Some y"
      by blast
  qed
qed

text \<open>Writing the first bytes of a new page: like a write, but the file grows by the page.\<close>

definition grows :: "int \<Rightarrow> BufferPool \<Rightarrow> BufferPool \<Rightarrow> bool" where
  "grows fd b b' \<longleftrightarrow>
     (let pid = \<lparr>pid_fd = fd, pid_no = fd2pageno (disk b) fd\<rparr> in
      calm b' \<and> valid_pid (disk b') = valid_pid (disk b) \<and> pins b' = pins b \<and> pool_size b' = pool_size b
      \<and> fd2path (disk b') = fd2path (disk b)
      \<and> fd2pageno (disk b') = (fd2pageno (disk b))(fd := fd2pageno (disk b) fd + 1)
      \<and> (\<forall>q x. valid_pid (disk b) q \<longrightarrow> q \<noteq> pid \<longrightarrow> content b q = Some x \<longrightarrow> content b' q = Some x)
      \<and> (\<forall>q. q \<noteq> pid \<longrightarrow> page_table b q = None \<longrightarrow> page_table b' q = None))"

lemma calm_new:
  assumes c: "calm b" and fd: "0 \<le> fd" "fd < MAX_FD" and pid: "pid = \<lparr>pid_fd = fd, pid_no = fd2pageno (disk b) fd\<rparr>"
    and v: "valid_pid (disk b) pid" and fresh: "page_table b pid = None"
  obtains f b1 where "new_page fd b = (Inr (Some (f, pid)), b1)" and "frame_data b1 f = zero_page"
    and "page_table b1 pid = Some f" and "bp_ok b1" and "page_id (pages b1 ! f) = pid"
    and "\<And>y. length y = PAGE_SIZE \<Longrightarrow> \<exists>b2. unpin_page pid True (poke f y b1) = (True, b2)
      \<and> grows fd b b2 \<and> content b2 pid = Some y"
proof -
  have h: "bp_ok b" "\<And>q. \<not> stale b q" "card {q. 0 < pins b q} < pool_size b" using c by (simp_all add: calm_def)
  obtain res b1 where run: "new_page fd b = (res, b1)" by fastforce
  from new_page_spec [OF h(1) fd pid v fresh run] pool_has_room [OF h(1,3)]
  obtain f where f: "res = Inr (Some (f, pid))" "page_table b1 pid = Some f" "frame_data b1 f = zero_page" "bp_ok b1"
    "same_files b b1" "pins b1 = (pins b)(pid := 1)"
    and keep: "\<And>q x. valid_pid (disk b) q \<Longrightarrow> q \<noteq> pid \<Longrightarrow> content b q = Some x \<Longrightarrow> content b1 q = Some x"
    and st: "\<And>q. stale b1 q \<Longrightarrow> stale b q \<or> q = pid"
    and new: "\<And>q. q \<noteq> pid \<Longrightarrow> page_table b q = None \<Longrightarrow> page_table b1 q = None"
    and pn: "fd2pageno (disk b1) = (fd2pageno (disk b))(fd := fd2pageno (disk b) fd + 1)"
    by auto
  have zero: "pins b pid = 0" using fresh by (simp add: pins_def)
  have "page_id (pages b1 ! f) = pid" by (rule bp_ok_table(3) [OF f(4,2)])
  then show thesis
  proof (rule that [OF run [unfolded f(1)] f(3,2,4)])
    fix y :: bytes
    assume y: "length y = PAGE_SIZE"
    have pos: "0 < pins b1 pid" using f(6) by simp
    note pl = pool.put_law [OF f(4,2) pos y]
    obtain r b2 where rel: "unpin_page pid True (poke f y b1) = (r, b2)" by fastforce
    have "0 < pins (poke f y b1) pid" using pos pl by simp
    note l = pool.release_law [OF _ this _ rel]
    have pl': "bp_ok (poke f y b1)" "content (poke f y b1) = (content b1)(pid \<mapsto> y)" "pins (poke f y b1) = pins b1"
      "page_table (poke f y b1) = page_table b1" "disk (poke f y b1) = disk b1" "pool_size (poke f y b1) = pool_size b1"
      and pst: "\<And>q. stale (poke f y b1) q \<Longrightarrow> stale b1 q \<or> q = pid"
      using pl by (simp_all add: poke_def)
    have l': "r" "bp_ok b2" "content b2 = content (poke f y b1)" "pins b2 = (pins b1)(pid := pins b1 pid - 1)"
      "page_table b2 = page_table b1" "valid_pid (disk b2) = valid_pid (disk b1)" "pool_size b2 = pool_size b1"
      "fd2path (disk b2) = fd2path (disk b1)" "fd2pageno (disk b2) = fd2pageno (disk b1)"
      and lst: "\<And>q. stale b2 q \<Longrightarrow> stale (poke f y b1) q \<and> q \<noteq> pid"
      using l [OF pl'(1)] pl' by auto
    have pins2: "pins b2 = pins b" using l'(4) f(6) zero by auto
    have vp: "valid_pid (disk b1) = valid_pid (disk b)" using f(5) by (auto simp: same_files_def valid_pid_def fun_eq_iff)
    have "calm b2"
      using l'(2,7) pins2 h(2,3) lst pst st f(5) by (auto simp: calm_def same_files_def)
    then have "grows fd b b2"
      using l' pins2 vp f(5) pn keep new pl'(2) by (auto simp: grows_def Let_def same_files_def simp flip: pid)
    with rel l' pl'(2) show "\<exists>b2. unpin_page pid True (poke f y b1) = (True, b2) \<and> grows fd b b2 \<and> content b2 pid = Some y"
      by auto
  qed
qed

lemmas access_defs = bindE_def deref_def getsE_def modifyE_def unpinE_def returnE_def throwE_def

lemma page_access_store:
  assumes c: "calm b" and v: "valid_pid (disk b) (op_page p)" and x: "content b (op_page p) = Some x" and f: "op_fits p"
  shows "\<exists>b'. page_access p b = (Inr x, b') \<and> evolves {op_page p} {op_page p} b b'
    \<and> content b' (op_page p) = snd (store_access p (content b)) (op_page p)"
proof (cases p)
  case (PRead pid)
  with v x obtain f b1 b2 where "fetch_page pid b = (Inr (Some f), b1)" "frame_data b1 f = x"
    "unpin_page pid False b1 = (True, b2)" "evolves {pid} {} b b2"
    using calm_read [OF c, of pid x] by (metis op_page.simps(1))
  moreover from this(4) have "evolves {pid} {pid} b b2" by (simp add: evolves_def)
  ultimately show ?thesis
    using PRead v x evolvesD(6) [of "{pid}" "{}" b b2 pid x] by (simp add: access_defs)
next
  case (PWrite pid y)
  with v x obtain f b1 where r: "fetch_page pid b = (Inr (Some f), b1)" "frame_data b1 f = x"
    and w: "length y = PAGE_SIZE \<Longrightarrow> \<exists>b2. unpin_page pid True (poke f y b1) = (True, b2)
      \<and> evolves {pid} {pid} b b2 \<and> content b2 pid = Some y"
    using calm_write [OF c, of pid x] by (metis op_page.simps(2))
  then obtain b2 where "unpin_page pid True (poke f y b1) = (True, b2)" "evolves {pid} {pid} b b2" "content b2 pid = Some y"
    using f PWrite by auto
  then show ?thesis using PWrite r by (simp add: access_defs)
qed

text \<open>
  C1: any sequence of page reads and page writes (each one fetching, using and unpinning its page)
  returns through the buffer pool what it returns on a plain page store, whatever is evicted and
  written back on the way; every page that was readable holds at the end what the plain store
  holds, the pool invariant is kept and no pin is leaked.
\<close>

theorem pool_refines_store:
  assumes "calm b"
    and "\<And>p. p \<in> set ps \<Longrightarrow> valid_pid (disk b) (op_page p) \<and> content b (op_page p) \<noteq> None \<and> op_fits p"
  shows "\<exists>b'. mapME page_access ps b = (Inr (fst (store_run ps (content b))), b')
    \<and> calm b' \<and> pins b' = pins b
    \<and> (\<forall>pid. valid_pid (disk b) pid \<longrightarrow> content b pid \<noteq> None \<longrightarrow>
         content b' pid = snd (store_run ps (content b)) pid)"
proof -
  have "\<exists>b'. mapME page_access ps b = (Inr (fst (store_run ps m)), b')
    \<and> calm b' \<and> pins b' = pins b
    \<and> (\<forall>pid. valid_pid (disk b) pid \<longrightarrow> m pid \<noteq> None \<longrightarrow> content b' pid = snd (store_run ps m) pid)"
    if "calm b"
      "\<And>p. p \<in> set ps \<Longrightarrow> valid_pid (disk b) (op_page p) \<and> m (op_page p) \<noteq> None \<and> op_fits p"
      "\<And>pid. valid_pid (disk b) pid \<Longrightarrow> m pid \<noteq> None \<Longrightarrow> content b pid = m pid" for m
    using that
  proof (induction ps arbitrary: b m)
    case Nil
    then show ?case by (simp add: returnE_def)
  next
    case (Cons p ps)
    have p: "valid_pid (disk b) (op_page p)" "m (op_page p) \<noteq> None" "op_fits p" using Cons.prems(2) by simp_all
    then obtain x where x: "m (op_page p) = Some x" "content b (op_page p) = Some x"
      using Cons.prems(3) [OF p(1,2)] by (cases "m (op_page p)") simp_all
    obtain b1 where b1: "page_access p b = (Inr x, b1)" "evolves {op_page p} {op_page p} b b1"
      "content b1 (op_page p) = snd (store_access p (content b)) (op_page p)"
      using page_access_store [OF Cons.prems(1) p(1) x(2) p(3)] by blast
    note e = evolvesD [OF b1(2)]
    obtain m1 where m1: "store_access p m = (x, m1)" using x(1) by (cases p) auto
    then have m1s: "m1 = snd (store_access p m)" by simp
    have m1': "m1 pid = None \<longleftrightarrow> m pid = None" "pid \<noteq> op_page p \<Longrightarrow> m1 pid = m pid"
      "m1 (op_page p) = snd (store_access p (content b)) (op_page p)" for pid
      unfolding m1s using x 
      by (simp_all add: store_access_frame(1) [where m = m and p = p and x = x] store_access_frame(2)
          store_access_frame(3) [where m = m and m' = "content b"])
    have "content b1 pid = m1 pid" if "valid_pid (disk b1) pid" "m1 pid \<noteq> None" for pid
    proof (cases "pid = op_page p")
      case False
      with that have pid: "valid_pid (disk b) pid" "m1 pid = m pid" "m pid \<noteq> None" using e(2) m1' by simp_all
      then obtain y where "m pid = Some y" "content b pid = Some y" using Cons.prems(3) by fastforce
      with e(6) [of pid y] pid False show ?thesis by simp
    qed (use b1(3) m1'(3) in simp)
    moreover have "valid_pid (disk b1) (op_page q) \<and> m1 (op_page q) \<noteq> None \<and> op_fits q" if "q \<in> set ps" for q
      using Cons.prems(2) [of q] that e(2) m1'(1) by simp
    ultimately obtain b' where b': "mapME page_access ps b1 = (Inr (fst (store_run ps m1)), b')" "calm b'" "pins b' = pins b1"
      "\<forall>pid. valid_pid (disk b1) pid \<longrightarrow> m1 pid \<noteq> None \<longrightarrow> content b' pid = snd (store_run ps m1) pid"
      using Cons.IH [OF e(1), of m1] by blast
    then show ?case
      using b1(1) e(2,3) m1 m1'(1) by (auto simp: bindE_def returnE_def split: prod.splits)
  qed
  from this [OF assms(1), of "content b"] assms(2) show ?thesis by blast
qed

text \<open>A pool of one frame over a file of two pages: every other access evicts.\<close>

definition tiny_pool :: BufferPool where
  "tiny_pool = bp_init 1 (\<lambda>_. 0) (one_file_disk ''t'' (replicate (2 * PAGE_SIZE) 0))"

lemma tiny_pool_calm: "calm tiny_pool"
  by (simp add: calm_def tiny_pool_def bp_init_ok one_file_disk_ok) (simp add: bp_init_def stale_def pins_def)

lemma tiny_pool_valid: "valid_pid (disk tiny_pool) \<lparr>pid_fd = 0, pid_no = 0\<rparr>" "valid_pid (disk tiny_pool) \<lparr>pid_fd = 0, pid_no = 1\<rparr>"
  by (simp_all add: tiny_pool_def bp_init_def valid_pid_def page_in_range_def PAGE_SIZE_def)

lemma tiny_pool_content:
  "p = 0 \<or> p = 1 \<Longrightarrow> content tiny_pool \<lparr>pid_fd = 0, pid_no = p\<rparr> = Some zero_page"
  by (auto simp: tiny_pool_def bp_init_def content_def disk_page_def file_of_def one_file_disk_def fd_entry_def
      page_pos_def mem_get_def zero_page_def)

theorem pool_refines_store_witness:
  "fst (mapME page_access [PWrite \<lparr>pid_fd = 0, pid_no = 0\<rparr> (replicate PAGE_SIZE 7), PRead \<lparr>pid_fd = 0, pid_no = 1\<rparr>,
      PRead \<lparr>pid_fd = 0, pid_no = 0\<rparr>] tiny_pool)
   = Inr [zero_page, zero_page, replicate PAGE_SIZE 7]"
proof -
  let ?ps = "[PWrite \<lparr>pid_fd = 0, pid_no = 0\<rparr> (replicate PAGE_SIZE 7), PRead \<lparr>pid_fd = 0, pid_no = 1\<rparr>,
      PRead \<lparr>pid_fd = 0, pid_no = 0\<rparr>]"
  have "valid_pid (disk tiny_pool) (op_page p) \<and> content tiny_pool (op_page p) \<noteq> None \<and> op_fits p" if "p \<in> set ?ps" for p
    using that tiny_pool_valid tiny_pool_content by auto
  from pool_refines_store [OF tiny_pool_calm this]
  obtain b' where "mapME page_access ?ps tiny_pool = (Inr (fst (store_run ?ps (content tiny_pool))), b')" by blast
  moreover have "fst (store_run ?ps (content tiny_pool)) = [zero_page, zero_page, replicate PAGE_SIZE 7]"
    by (simp add: tiny_pool_content)
  ultimately show ?thesis by (simp only: fst_conv)
qed

text \<open>
  \<^verbatim>\<open>fetch_page\<close> on a page of an open file keeps the pool invariant and every page that is pinned
  (same frame, same bytes, same dirty mark); it returns the frame holding the current bytes of the
  page, or \<^verbatim>\<open>nullptr\<close> with the state unchanged when all frames are pinned, or the read error of a
  page that is neither cached nor on disk.
\<close>

theorem fetch_page_result:
  assumes "bp_ok b" and "valid_pid (disk b) pid" and "fetch_page pid b = (res, b')"
  shows "bp_ok b' \<and> keeps_pinned b b' \<and>
    (case res of
       Inr (Some f) \<Rightarrow> page_table b' pid = Some f \<and> pins b' = (pins b)(pid := pins b pid + 1)
         \<and> (content b pid \<noteq> None \<longrightarrow> content b pid = Some (frame_data b' f))
     | Inr None \<Rightarrow> b' = b \<and> page_table b pid = None \<and> (\<forall>f < pool_size b. 0 < page_pins (pages b ! f))
     | Inl e \<Rightarrow> content b pid = None \<and> e = Throw (InternalError ''DiskManager::read_page Error''))"
proof -
  note s = fetch_page_spec [OF assms]
  show ?thesis
  proof (cases "\<exists>f. res = Inr (Some f)")
    case True
    then obtain f where f: "res = Inr (Some f)" by blast
    note p = fetch_page_pins [OF assms(1,2) assms(3) [unfolded f]]
    have "page_table b' pid = Some f" "content b pid \<noteq> None \<longrightarrow> content b' pid = content b pid" using s(6) f by simp_all
    with s(1,2) p(1,4) f show ?thesis by auto
  next
    case False
    with s(1,2,6) show ?thesis by (auto split: sum.splits option.splits)
  qed
qed

theorem fetch_page_result_witness:
  "\<exists>f b'. fetch_page \<lparr>pid_fd = 0, pid_no = 1\<rparr> tiny_pool = (Inr (Some f), b') \<and> frame_data b' f = zero_page
     \<and> pins b' \<lparr>pid_fd = 0, pid_no = 1\<rparr> = 1"
proof -
  let ?pid = "\<lparr>pid_fd = 0, pid_no = 1\<rparr> :: PageId"
  obtain res b' where run: "fetch_page ?pid tiny_pool = (res, b')" by fastforce
  have ok: "bp_ok tiny_pool" using tiny_pool_calm by (simp add: calm_def)
  have pin0: "pins tiny_pool ?pid = 0" "page_pins (pages tiny_pool ! 0) = 0" "0 < pool_size tiny_pool"
    by (simp_all add: tiny_pool_def bp_init_def pins_def)
  from fetch_page_result [OF ok tiny_pool_valid(2) run] tiny_pool_content [of 1] pin0
  show ?thesis by (auto simp: run split: sum.splits option.splits)
qed

text \<open>
  C2: \<^verbatim>\<open>flush_all_pages\<close> makes every page of the file durable: afterwards the disk holds the bytes
  each readable page of the descriptor had, none of its frames is dirty, and pins, page table and
  the contents of all pages are as before.
\<close>

theorem flush_all_pages_durable:
  assumes "bp_ok b"
  shows "\<exists>b'. flush_all_pages fd b = (Inr (), b') \<and> bp_ok b' \<and> page_table b' = page_table b \<and> pins b' = pins b
    \<and> (\<forall>pid x. valid_pid (disk b) pid \<and> content b pid = Some x \<longrightarrow>
         content b' pid = Some x \<and> (pid_fd pid = fd \<longrightarrow> disk_page (disk b') fd (pid_no pid) = Some x))
    \<and> (\<forall>pid f. page_table b' pid = Some f \<and> pid_fd pid = fd \<longrightarrow> \<not> page_dirty (pages b' ! f))"
proof -
  obtain b' where b': "flush_all_pages fd b = (Inr (), b')" "flushed fd b {..<pool_size b} b'"
    and dur: "\<And>pid x. valid_pid (disk b) pid \<Longrightarrow> pid_fd pid = fd \<Longrightarrow> content b pid = Some x \<Longrightarrow>
      disk_page (disk b') fd (pid_no pid) = Some x"
    by (rule flush_all_pages_spec [OF assms], rule that)
  have "\<not> page_dirty (pages b' ! f)" if t: "page_table b' pid = Some f" and fd: "pid_fd pid = fd" for pid f
  proof -
    have "page_table b pid = Some f" using t b'(2) by (simp add: flushed_def)
    note tf = bp_ok_table [OF assms this]
    then show ?thesis using b'(2) fd unfolding flushed_def by blast
  qed
  with b' dur show ?thesis unfolding flushed_def by blast
qed

theorem flush_all_pages_durable_witness:
  "\<exists>b'. flush_all_pages 0 tiny_pool = (Inr (), b') \<and> disk_page (disk b') 0 1 = Some zero_page"
proof -
  have ok: "bp_ok tiny_pool" using tiny_pool_calm by (simp add: calm_def)
  from flush_all_pages_durable [OF ok, of 0] tiny_pool_valid(2) tiny_pool_content [of 1]
  show ?thesis by fastforce
qed

text \<open>
  C3: after a flush, \<^verbatim>\<open>free_all_pages\<close> on a file none of whose pages is pinned succeeds (both of
  its assertions hold), removes all pages of the file from the pool, keeps the cached pages of the
  other files where they are, and no page loses its bytes.
\<close>

theorem flush_then_free_all_pages:
  assumes ok: "bp_ok b" and idle: "\<And>pid. pid_fd pid = fd \<Longrightarrow> pins b pid = 0"
  shows "\<exists>b'. bindE (flush_all_pages fd) (\<lambda>_. free_all_pages fd) b = (Inr (), b') \<and> bp_ok b'
    \<and> (\<forall>pid. pid_fd pid = fd \<longrightarrow> page_table b' pid = None)
    \<and> (\<forall>pid. pid_fd pid \<noteq> fd \<longrightarrow> page_table b' pid = page_table b pid)
    \<and> (\<forall>pid x. valid_pid (disk b) pid \<and> content b pid = Some x \<longrightarrow> content b' pid = Some x)"
proof -
  obtain c where c: "flush_all_pages fd b = (Inr (), c)" "flushed fd b {..<pool_size b} c"
    by (rule flush_all_pages_spec [OF ok], rule that)
  have okc: "bp_ok c" and tab: "page_table c = page_table b" and pin: "pins c = pins b"
    and keep: "\<And>pid x. valid_pid (disk b) pid \<Longrightarrow> content b pid = Some x \<Longrightarrow> content c pid = Some x"
    and val: "valid_pid (disk c) = valid_pid (disk b)"
    using c(2) by (auto simp: flushed_def same_files_def valid_pid_def fun_eq_iff)
  have clean: "page_pins (pages c ! g) = 0 \<and> \<not> page_dirty (pages c ! g)"
    if t: "page_table c pid = Some g" and fd: "pid_fd pid = fd" for pid g
  proof -
    have tb: "page_table b pid = Some g" using t tab by simp
    have "pins c pid = 0" using idle [OF fd] pin by simp
    moreover have "\<not> page_dirty (pages c ! g)"
      using c(2) bp_ok_table [OF ok tb] fd unfolding flushed_def by blast
    ultimately show ?thesis using t by (simp add: pins_def)
  qed
  obtain b' where b': "free_all_pages fd c = (Inr (), b')" "freed fd c {..<pool_size c} b'"
    and gone: "\<And>pid. pid_fd pid = fd \<Longrightarrow> page_table b' pid = None"
    by (rule free_all_pages_spec [where fd = fd, OF okc clean], assumption+, rule that)
  note f = freedD [OF b'(2)]
  have "page_table b' pid = page_table b pid" if "pid_fd pid \<noteq> fd" for pid
    using f(5) [of pid] f(8) [of pid, OF _ that] tab by (cases "page_table b' pid"; cases "page_table c pid") auto
  with c(1) b'(1) f(1,9) gone keep val show ?thesis by (auto simp: bindE_def)
qed

theorem flush_then_free_all_pages_witness:
  "\<exists>b'. bindE (flush_all_pages 0) (\<lambda>_. free_all_pages 0) tiny_pool = (Inr (), b')
     \<and> content b' \<lparr>pid_fd = 0, pid_no = 0\<rparr> = Some zero_page"
proof -
  have ok: "bp_ok tiny_pool" using tiny_pool_calm by (simp add: calm_def)
  have "pins tiny_pool pid = 0" for pid by (simp add: tiny_pool_def bp_init_def pins_def)
  from flush_then_free_all_pages [OF ok this, of 0] tiny_pool_valid(1) tiny_pool_content [of 0]
  show ?thesis by blast
qed

text \<open>
  \<^verbatim>\<open>delete_page\<close> refuses a pinned page without changing anything; otherwise it returns true, the
  page is no longer cached, and all readable pages, the deleted one included, keep their bytes,
  since a dirty page is written back first.
\<close>

theorem delete_page_result:
  assumes "bp_ok b"
  shows "if 0 < pins b pid then delete_page pid b = (Inr False, b)
    else \<exists>b'. delete_page pid b = (Inr True, b') \<and> bp_ok b' \<and> page_table b' pid = None \<and> pins b' = pins b
      \<and> (\<forall>pid' x. valid_pid (disk b) pid' \<and> content b pid' = Some x \<longrightarrow> content b' pid' = Some x)"
proof (cases "0 < pins b pid")
  case True
  then show ?thesis by (auto simp: pins_def delete_page_pinned split: option.splits)
next
  case False
  then have "pins b pid = 0" using pins_nonneg [OF assms, of pid] by simp
  from delete_page_spec [OF assms this] False show ?thesis by (metis (no_types, lifting))
qed

theorem delete_page_result_witness:
  "\<exists>b'. delete_page \<lparr>pid_fd = 0, pid_no = 0\<rparr> tiny_pool = (Inr True, b')
     \<and> content b' \<lparr>pid_fd = 0, pid_no = 0\<rparr> = Some zero_page"
proof -
  have ok: "bp_ok tiny_pool" using tiny_pool_calm by (simp add: calm_def)
  have "pins tiny_pool pid = 0" for pid by (simp add: tiny_pool_def bp_init_def pins_def)
  with delete_page_result [OF ok, of "\<lparr>pid_fd = 0, pid_no = 0\<rparr>"] tiny_pool_valid(1) tiny_pool_content [of 0]
  show ?thesis by (auto split: if_splits)
qed

end
