(* ===== verification/Bitmap.thy ===== *)
theory Bitmap
  imports Rmdb_Prelude
begin

text \<open>
  The slot bitmap of a record page, \<^verbatim>\<open>record/bitmap.h\<close>: one bit per slot, most significant
  bit of each byte first. Positions are the nonnegative \<^verbatim>\<open>int\<close>s the callers pass;
  \<^verbatim>\<open>next_bit\<close> alone also takes \<open>-1\<close>. The abstraction is the set of positions whose bit is one.
\<close>

section \<open>Operations\<close>

definition BITMAP_WIDTH :: nat where "BITMAP_WIDTH = 8"

definition BITMAP_HIGHEST_BIT :: "32 word" where "BITMAP_HIGHEST_BIT = 0x80"

definition get_bucket :: "nat \<Rightarrow> nat" where
  "get_bucket pos = pos div BITMAP_WIDTH"

definition get_bit :: "nat \<Rightarrow> u8" where
  "get_bit pos = ucast (drop_bit (pos mod BITMAP_WIDTH) BITMAP_HIGHEST_BIT)"

definition bitmap_init :: "bytes \<Rightarrow> nat \<Rightarrow> bytes" where
  "bitmap_init bm n = mem_put 0 (replicate n 0) bm"

definition bitmap_set :: "bytes \<Rightarrow> nat \<Rightarrow> bytes" where
  "bitmap_set bm pos = bm[get_bucket pos := bm ! get_bucket pos OR get_bit pos]"

definition bitmap_reset :: "bytes \<Rightarrow> nat \<Rightarrow> bytes" where
  "bitmap_reset bm pos = bm[get_bucket pos := bm ! get_bucket pos AND NOT (get_bit pos)]"

definition is_set :: "bytes \<Rightarrow> nat \<Rightarrow> bool" where
  "is_set bm pos \<longleftrightarrow> bm ! get_bucket pos AND get_bit pos \<noteq> 0"

text \<open>The loop of \<^verbatim>\<open>next_bit\<close> from \<open>i\<close> on, and the function itself.\<close>

function next_bit_loop :: "bool \<Rightarrow> bytes \<Rightarrow> nat \<Rightarrow> nat \<Rightarrow> nat" where
  "next_bit_loop b bm max_n i =
     (if i < max_n then if is_set bm i = b then i else next_bit_loop b bm max_n (Suc i) else max_n)"
  by pat_completeness auto
termination
  by (relation "measure (\<lambda>(b, bm, max_n, i). max_n - i)") auto

declare next_bit_loop.simps [simp del]

definition next_bit :: "bool \<Rightarrow> bytes \<Rightarrow> nat \<Rightarrow> int \<Rightarrow> nat" where
  "next_bit b bm max_n cur = next_bit_loop b bm max_n (nat (cur + 1))"

definition first_bit :: "bool \<Rightarrow> bytes \<Rightarrow> nat \<Rightarrow> nat" where
  "first_bit b bm max_n = next_bit b bm max_n (-1)"

text \<open>The abstraction: the positions below \<open>n\<close> that are one.\<close>

definition bits_of :: "bytes \<Rightarrow> nat \<Rightarrow> nat set" where
  "bits_of bm n = {p. p < n \<and> is_set bm p}"

definition fits :: "bytes \<Rightarrow> nat \<Rightarrow> bool" where
  "fits bm n \<longleftrightarrow> (\<forall>p < n. get_bucket p < length bm)"

section \<open>Single bits\<close>

lemma get_bit_power: "get_bit pos = push_bit (7 - pos mod 8) 1"
proof -
  have "pos mod 8 \<in> {0, 1, 2, 3, 4, 5, 6, 7}" by auto
  then show ?thesis
    by (auto simp: get_bit_def BITMAP_WIDTH_def BITMAP_HIGHEST_BIT_def)
qed

lemma bit_get_bit: "bit (get_bit pos) n \<longleftrightarrow> n = 7 - pos mod 8"
  by (auto simp: get_bit_power push_bit_of_1 bit_exp_iff)

lemma and_get_bit_zero: "w AND get_bit pos \<noteq> 0 \<longleftrightarrow> bit w (7 - pos mod 8)"
proof
  assume "w AND get_bit pos \<noteq> 0"
  then obtain n where "bit (w AND get_bit pos) n" by (auto simp: bit_eq_iff)
  then show "bit w (7 - pos mod 8)" by (auto simp: bit_and_iff bit_get_bit)
next
  assume "bit w (7 - pos mod 8)"
  then have "bit (w AND get_bit pos) (7 - pos mod 8)" by (simp add: bit_and_iff bit_get_bit)
  then show "w AND get_bit pos \<noteq> 0" by auto
qed

lemma is_set_bit: "is_set bm pos \<longleftrightarrow> bit (bm ! (pos div 8)) (7 - pos mod 8)"
  by (simp add: is_set_def and_get_bit_zero get_bucket_def BITMAP_WIDTH_def)

lemma same_bit_iff: "p div 8 = q div 8 \<Longrightarrow> 7 - p mod 8 = 7 - q mod 8 \<longleftrightarrow> p = q" for p q :: nat
proof -
  assume d: "p div 8 = q div 8"
  have "7 - p mod 8 = 7 - q mod 8 \<longleftrightarrow> p mod 8 = q mod 8"
    using mod_less_divisor [of 8 p] mod_less_divisor [of 8 q] by linarith
  also have "\<dots> \<longleftrightarrow> p = q" using d by (metis div_mult_mod_eq)
  finally show ?thesis .
qed

lemma length_bitmap_ops [simp]:
  "length (bitmap_set bm pos) = length bm" "length (bitmap_reset bm pos) = length bm"
  by (simp_all add: bitmap_set_def bitmap_reset_def)

lemma is_set_bitmap_set:
  assumes "get_bucket p < length bm"
  shows "is_set (bitmap_set bm p) q \<longleftrightarrow> q = p \<or> is_set bm q"
proof (cases "p div 8 = q div 8")
  case True
  then have "is_set (bitmap_set bm p) q \<longleftrightarrow> bit (bm ! (q div 8) OR get_bit p) (7 - q mod 8)"
    using assms by (simp add: is_set_bit bitmap_set_def get_bucket_def BITMAP_WIDTH_def)
  then show ?thesis
    using same_bit_iff [OF True] by (auto simp: bit_or_iff bit_get_bit is_set_bit)
next
  case False
  then show ?thesis
    by (auto simp: is_set_bit bitmap_set_def get_bucket_def BITMAP_WIDTH_def)
qed

lemma is_set_bitmap_reset:
  assumes "get_bucket p < length bm"
  shows "is_set (bitmap_reset bm p) q \<longleftrightarrow> q \<noteq> p \<and> is_set bm q"
proof (cases "p div 8 = q div 8")
  case True
  then have "is_set (bitmap_reset bm p) q \<longleftrightarrow> bit (bm ! (q div 8) AND NOT (get_bit p)) (7 - q mod 8)"
    using assms by (simp add: is_set_bit bitmap_reset_def get_bucket_def BITMAP_WIDTH_def)
  then show ?thesis
    using same_bit_iff [OF True] by (auto simp: bit_and_iff bit_not_iff bit_get_bit is_set_bit)
next
  case False
  then show ?thesis
    by (auto simp: is_set_bit bitmap_reset_def get_bucket_def BITMAP_WIDTH_def)
qed

section \<open>The set of occupied positions\<close>

lemma finite_bits_of [simp]: "finite (bits_of bm n)"
  by (simp add: bits_of_def)

lemma card_bits_of_le: "card (bits_of bm n) \<le> n"
  using card_mono [of "{..<n}" "bits_of bm n"] by (auto simp: bits_of_def)

lemma bits_of_set: "fits bm n \<Longrightarrow> p < n \<Longrightarrow> bits_of (bitmap_set bm p) n = insert p (bits_of bm n)"
  by (auto simp: bits_of_def fits_def is_set_bitmap_set)

lemma bits_of_reset: "fits bm n \<Longrightarrow> p < n \<Longrightarrow> bits_of (bitmap_reset bm p) n = bits_of bm n - {p}"
  by (auto simp: bits_of_def fits_def is_set_bitmap_reset)

lemma fits_ops [simp]: "fits (bitmap_set bm p) n = fits bm n" "fits (bitmap_reset bm p) n = fits bm n"
  by (simp_all add: fits_def)

lemma fits_if_bytes: "n \<le> 8 * length bm \<Longrightarrow> fits bm n"
  by (auto simp: fits_def get_bucket_def BITMAP_WIDTH_def)

lemma bits_of_init:
  assumes "m \<le> length bm" and "n \<le> 8 * m"
  shows "bits_of (bitmap_init bm m) n = {}"
proof -
  have "\<not> is_set (bitmap_init bm m) p" if "p < n" for p
  proof -
    have "p div 8 < m" using that assms(2) by auto
    then have "bitmap_init bm m ! (p div 8) = 0"
      using assms(1) by (simp add: bitmap_init_def nth_mem_put)
    then show ?thesis by (simp add: is_set_bit)
  qed
  then show ?thesis by (auto simp: bits_of_def)
qed

lemma bits_of_full: "card (bits_of bm n) = n \<longleftrightarrow> bits_of bm n = {..<n}"
proof
  assume "card (bits_of bm n) = n"
  then show "bits_of bm n = {..<n}"
    by (intro card_subset_eq) (auto simp: bits_of_def)
next
  assume "bits_of bm n = {..<n}"
  then show "card (bits_of bm n) = n" by (simp only: card_lessThan)
qed

section \<open>Searching\<close>

lemma next_bit_loop_spec:
  assumes "i \<le> n"
  shows "i \<le> next_bit_loop b bm n i \<and> next_bit_loop b bm n i \<le> n
    \<and> (next_bit_loop b bm n i < n \<longrightarrow> is_set bm (next_bit_loop b bm n i) = b)
    \<and> (\<forall>j. i \<le> j \<and> j < next_bit_loop b bm n i \<longrightarrow> is_set bm j \<noteq> b)"
  using assms
proof (induction b bm n i rule: next_bit_loop.induct)
  case (1 b bm n i)
  show ?case
  proof (cases "i < n \<and> is_set bm i \<noteq> b")
    case True
    with "1.IH" have IH: "Suc i \<le> next_bit_loop b bm n (Suc i) \<and> next_bit_loop b bm n (Suc i) \<le> n
      \<and> (next_bit_loop b bm n (Suc i) < n \<longrightarrow> is_set bm (next_bit_loop b bm n (Suc i)) = b)
      \<and> (\<forall>j. Suc i \<le> j \<and> j < next_bit_loop b bm n (Suc i) \<longrightarrow> is_set bm j \<noteq> b)"
      by auto
    have eq: "next_bit_loop b bm n i = next_bit_loop b bm n (Suc i)"
      using True by (simp add: next_bit_loop.simps [of b bm n i])
    have "is_set bm j \<noteq> b" if "i \<le> j" "j < next_bit_loop b bm n (Suc i)" for j
      using that IH True by (cases "i = j") auto
    with IH show ?thesis unfolding eq by simp
  next
    case False
    with "1.prems" show ?thesis by (auto simp: next_bit_loop.simps [of b bm n i])
  qed
qed

lemma first_bit_eq_max: "first_bit b bm n = n \<longleftrightarrow> (\<forall>j < n. is_set bm j \<noteq> b)"
  using next_bit_loop_spec [of 0 n b bm] by (auto simp: first_bit_def next_bit_def le_less)

section \<open>Properties\<close>

text \<open>
  C5: in a bitmap with room for \<open>n\<close> positions, setting or resetting position \<open>p\<close> changes the set of
  occupied positions by exactly \<open>p\<close> and leaves the size of the bitmap alone.
\<close>

theorem bitmap_update:
  assumes "fits bm n" and "p < n"
  shows "bits_of (bitmap_set bm p) n = insert p (bits_of bm n)
    \<and> bits_of (bitmap_reset bm p) n = bits_of bm n - {p}
    \<and> length (bitmap_set bm p) = length bm \<and> length (bitmap_reset bm p) = length bm"
  using assms by (simp add: bits_of_set bits_of_reset)

theorem bitmap_update_witness:
  "bits_of (bitmap_set [0x81, 0] 9) 16 = insert 9 (bits_of [0x81, 0] 16)
   \<and> bits_of (bitmap_reset [0x81, 0] 9) 16 = bits_of [0x81, 0] 16 - {9}"
  using bitmap_update [of "[0x81, 0]" 16 9] by (simp add: fits_if_bytes)

text \<open>
  \<^verbatim>\<open>Bitmap::next_bit\<close> returns the first position after \<open>cur\<close> whose bit has the wanted value, and
  the bound when there is none.
\<close>

theorem next_bit_first:
  assumes "-1 \<le> cur" and "cur < int n"
  shows "next_bit b bm n cur \<le> n \<and> cur < int (next_bit b bm n cur)
    \<and> (next_bit b bm n cur < n \<longrightarrow> is_set bm (next_bit b bm n cur) = b)
    \<and> (\<forall>j. cur < int j \<and> j < next_bit b bm n cur \<longrightarrow> is_set bm j \<noteq> b)"
proof -
  have "nat (cur + 1) \<le> n" using assms by linarith
  note s = next_bit_loop_spec [OF this, of b bm]
  have "nat (cur + 1) \<le> j" if "cur < int j" for j using that by linarith
  with s assms show ?thesis unfolding next_bit_def by (auto simp: nat_le_iff)
qed

theorem next_bit_first_witness:
  "next_bit True [0x81, 0] 16 0 \<le> 16 \<and> is_set [0x81, 0] 7 \<and> next_bit True [0x81, 0] 16 0 = 7"
proof -
  have set7: "is_set [0x81, 0] 7" by (simp add: is_set_def get_bucket_def get_bit_def BITMAP_WIDTH_def BITMAP_HIGHEST_BIT_def)
  have clear: "\<not> is_set [0x81, 0] j" if "0 < j" "j < 7" for j
  proof -
    have "j \<in> {1, 2, 3, 4, 5, 6}" using that by auto
    then show ?thesis by (auto simp: is_set_def get_bucket_def get_bit_def BITMAP_WIDTH_def BITMAP_HIGHEST_BIT_def)
  qed
  have clear': "\<not> is_set [0x81, 0] j" if "7 < j" "j < 16" for j
  proof -
    have "j \<in> {8, 9, 10, 11, 12, 13, 14, 15}" using that by auto
    then show ?thesis by (auto simp: is_set_def get_bucket_def get_bit_def BITMAP_WIDTH_def BITMAP_HIGHEST_BIT_def)
  qed
  let ?k = "next_bit True [0x81, 0] 16 0"
  have k: "?k \<le> 16" "0 < ?k" "?k < 16 \<longrightarrow> is_set [0x81, 0] ?k" "\<forall>j. 0 < j \<and> j < ?k \<longrightarrow> \<not> is_set [0x81, 0] j"
    using next_bit_first [of 0 16 True "[0x81, 0]"] by simp_all
  have "\<not> 7 < ?k" using k(4) set7 by auto
  moreover have "\<not> ?k < 7" using k(2,3) clear by auto
  ultimately show ?thesis using k(1) set7 by simp
qed

end
