(* ===== verification/Txn_Defs.thy ===== *)
theory Txn_Defs
  imports Rmdb_Prelude
begin

text \<open>
  The data of \<^verbatim>\<open>transaction/txn_defs.h\<close> and \<^verbatim>\<open>transaction/transaction.h\<close>: transaction states,
  the records of the write set, the identities of lockable objects, and the transaction object
  with its accessors. A \<^verbatim>\<open>WriteRecord *\<close> is an address \<open>wr_addr\<close>; a \<^verbatim>\<open>Page *\<close> of the index sets is
  the index of its frame. \<^verbatim>\<open>thread_id_\<close> is a number chosen by the caller of the constructor.
\<close>

datatype TransactionState = DEFAULT | GROWING | SHRINKING | COMMITTED | ABORTED

datatype IsolationLevel = READ_UNCOMMITTED | REPEATABLE_READ | READ_COMMITTED | SERIALIZABLE

datatype WType = INSERT_TUPLE | DELETE_TUPLE | UPDATE_TUPLE

text \<open>\<^verbatim>\<open>RmRecord\<close>: \<^verbatim>\<open>size\<close> bytes at \<^verbatim>\<open>data\<close>. \<^verbatim>\<open>new_record_\<close> is left unset by the first two constructors.\<close>

record WriteRecord =
  wr_addr :: nat
  wtype :: WType
  tab_name :: string
  wr_rid :: Rid
  wr_record :: "bytes option"
  new_record :: "bytes option"

definition WriteRecord_insert :: "nat \<Rightarrow> WType \<Rightarrow> string \<Rightarrow> Rid \<Rightarrow> WriteRecord" where
  "WriteRecord_insert a w t r =
     \<lparr>wr_addr = a, wtype = w, tab_name = t, wr_rid = r, wr_record = None, new_record = None\<rparr>"

definition WriteRecord_delete :: "nat \<Rightarrow> WType \<Rightarrow> string \<Rightarrow> Rid \<Rightarrow> bytes \<Rightarrow> WriteRecord" where
  "WriteRecord_delete a w t r rec =
     \<lparr>wr_addr = a, wtype = w, tab_name = t, wr_rid = r, wr_record = Some rec, new_record = None\<rparr>"

definition WriteRecord_update :: "nat \<Rightarrow> WType \<Rightarrow> string \<Rightarrow> Rid \<Rightarrow> bytes \<Rightarrow> bytes \<Rightarrow> WriteRecord" where
  "WriteRecord_update a w t r rec rec' =
     \<lparr>wr_addr = a, wtype = w, tab_name = t, wr_rid = r, wr_record = Some rec, new_record = Some rec'\<rparr>"

datatype LockDataType = TABLE | RECORD

record LockDataId =
  ld_fd :: int
  ld_rid :: Rid
  ld_type :: LockDataType

definition LockDataId_table :: "int \<Rightarrow> LockDataId" where
  "LockDataId_table fd = \<lparr>ld_fd = fd, ld_rid = \<lparr>page_no = -1, slot_no = -1\<rparr>, ld_type = TABLE\<rparr>"

definition LockDataId_record :: "int \<Rightarrow> Rid \<Rightarrow> LockDataId" where
  "LockDataId_record fd rid = \<lparr>ld_fd = fd, ld_rid = rid, ld_type = RECORD\<rparr>"

unbundle bit_operations_syntax

text \<open>\<^verbatim>\<open>LockDataId::Get\<close>, the hash key of the lock table, in 64-bit arithmetic.\<close>

definition LockDataId_Get :: "LockDataId \<Rightarrow> 64 word" where
  "LockDataId_Get l =
     (case ld_type l of
        TABLE \<Rightarrow> word_of_int (ld_fd l)
      | RECORD \<Rightarrow> push_bit 63 1 OR push_bit 31 (word_of_int (ld_fd l))
          OR push_bit 16 (word_of_int (page_no (ld_rid l))) OR word_of_int (slot_no (ld_rid l)))"

definition abort_info :: "txn_id_t \<Rightarrow> AbortReason \<Rightarrow> string" where
  "abort_info t r =
     (case r of
        LOCK_ON_SHIRINKING \<Rightarrow>
          ''Transaction '' @ to_string t @ '' aborted because it cannot request locks on SHRINKING phase'' @ [CHR 0x0A]
      | UPGRADE_CONFLICT \<Rightarrow>
          ''Transaction '' @ to_string t @ '' aborted because another transaction is waiting for upgrading'' @ [CHR 0x0A]
      | DEADLOCK_PREVENTION \<Rightarrow> ''Transaction '' @ to_string t @ '' aborted for deadlock prevention'' @ [CHR 0x0A]
      | _ \<Rightarrow> ''Transaction aborted'' @ [CHR 0x0A])"

record Transaction =
  txn_mode :: bool
  txn_state :: TransactionState
  isolation_level :: IsolationLevel
  thread_id :: nat
  so_far_lsn :: lsn_t
  txn_id :: txn_id_t
  start_ts :: int
  write_records :: "WriteRecord list"
  lock_set :: "LockDataId set"
  index_latch_page_set :: "frame_id_t list"
  index_deleted_page_set :: "frame_id_t list"

text \<open>The constructor; \<^verbatim>\<open>txn_mode_\<close> and \<^verbatim>\<open>start_ts_\<close> have no initialiser and are parameters.\<close>

definition new_Transaction :: "bool \<Rightarrow> int \<Rightarrow> nat \<Rightarrow> txn_id_t \<Rightarrow> Transaction" where
  "new_Transaction m ts thread i =
     \<lparr>txn_mode = m, txn_state = DEFAULT, isolation_level = SERIALIZABLE, thread_id = thread,
      so_far_lsn = INVALID_LSN, txn_id = i, start_ts = ts, write_records = [], lock_set = {},
      index_latch_page_set = [], index_deleted_page_set = []\<rparr>"

definition append_write_record :: "WriteRecord \<Rightarrow> Transaction \<Rightarrow> Transaction" where
  "append_write_record w t = t\<lparr>write_records := write_records t @ [w]\<rparr>"

definition append_index_deleted_page :: "frame_id_t \<Rightarrow> Transaction \<Rightarrow> Transaction" where
  "append_index_deleted_page f t = t\<lparr>index_deleted_page_set := index_deleted_page_set t @ [f]\<rparr>"

definition append_index_latch_page_set :: "frame_id_t \<Rightarrow> Transaction \<Rightarrow> Transaction" where
  "append_index_latch_page_set f t = t\<lparr>index_latch_page_set := index_latch_page_set t @ [f]\<rparr>"

lemma lock_ids_distinct [simp]:
  "LockDataId_table fd \<noteq> LockDataId_record fd' rid" "LockDataId_record fd' rid \<noteq> LockDataId_table fd"
  "LockDataId_table fd = LockDataId_table fd' \<longleftrightarrow> fd = fd'"
  "LockDataId_record fd rid = LockDataId_record fd' rid' \<longleftrightarrow> fd = fd' \<and> rid = rid'"
  by (auto simp: LockDataId_table_def LockDataId_record_def)

end
