(* ===== verification/Lock_Manager.thy ===== *)
theory Lock_Manager
  imports Txn_Defs
begin

text \<open>
  \<^verbatim>\<open>LockManager\<close> of \<^verbatim>\<open>transaction/concurrency/lock_manager.{h,cpp}\<close>: the no-wait lock table with
  record locks (S, X) and table locks (IS, IX, S, SIX, X), and \<^verbatim>\<open>TransactionManager::release_locks\<close>.
  Every operation runs under \<^verbatim>\<open>latch_\<close> and is one step on the lock table and the calling transaction.
\<close>

section \<open>State and operations\<close>

datatype LockMode = LS | LX | LIS | LIX | LSIX

record LockRequest =
  lr_txn :: txn_id_t
  lr_mode :: LockMode
  granted :: bool

record LockRequestQueue =
  request_queue :: "LockRequest list"
  lq_num :: int
  lq_curr :: txn_id_t

record LockManager =
  lock_table :: "LockDataId \<rightharpoonup> LockRequestQueue"

definition new_LockRequest :: "txn_id_t \<Rightarrow> LockMode \<Rightarrow> LockRequest" where
  "new_LockRequest t m = \<lparr>lr_txn = t, lr_mode = m, granted = False\<rparr>"

definition empty_queue :: LockRequestQueue where
  "empty_queue = \<lparr>request_queue = [], lq_num = 0, lq_curr = -1\<rparr>"

definition new_LockManager :: LockManager where
  "new_LockManager = \<lparr>lock_table = Map.empty\<rparr>"

type_synonym lock_state = "LockManager \<times> Transaction"

text \<open>\<^verbatim>\<open>lock_table_[id]\<close>: the entry, created empty when it is missing.\<close>

definition queue_at :: "LockManager \<Rightarrow> LockDataId \<Rightarrow> LockRequestQueue" where
  "queue_at lm l = (case lock_table lm l of Some q \<Rightarrow> q | None \<Rightarrow> empty_queue)"

definition touch :: "LockDataId \<Rightarrow> lock_state \<Rightarrow> lock_state" where
  "touch l s = (case s of (lm, t) \<Rightarrow> (lm\<lparr>lock_table := (lock_table lm)(l \<mapsto> queue_at lm l)\<rparr>, t))"

definition requests :: "LockManager \<Rightarrow> LockDataId \<Rightarrow> LockRequest list" where
  "requests lm l = request_queue (queue_at lm l)"

definition push_request :: "LockDataId \<Rightarrow> LockMode \<Rightarrow> lock_state \<Rightarrow> lock_state" where
  "push_request l m s =
     (case s of (lm, t) \<Rightarrow>
        (lm\<lparr>lock_table := (lock_table lm)(l \<mapsto> (queue_at lm l)\<lparr>request_queue :=
            requests lm l @ [new_LockRequest (txn_id t) m]\<rparr>)\<rparr>,
         t\<lparr>lock_set := insert l (lock_set t)\<rparr>))"

text \<open>The test of the phase that opens every request.\<close>

definition enter_growing :: "(lock_state, unit) stm" where
  "enter_growing s =
     (case s of (lm, t) \<Rightarrow>
        if txn_state t = SHRINKING
        then (Inl (TransactionAbortException (txn_id t) LOCK_ON_SHIRINKING), (lm, t\<lparr>txn_state := ABORTED\<rparr>))
        else (Inr (), (lm, t\<lparr>txn_state := GROWING\<rparr>)))"

definition lock_table_request :: "LockMode \<Rightarrow> (LockMode \<Rightarrow> bool) \<Rightarrow> int \<Rightarrow> (lock_state, bool) stm" where
  "lock_table_request m conflicts tab_fd =
     bindE enter_growing (\<lambda>_ s.
       let l = LockDataId_table tab_fd; s1 = touch l s in
       if \<exists>r \<in> set (requests (fst s1) l). conflicts (lr_mode r) \<and> lr_txn r \<noteq> txn_id (snd s1)
       then (Inr False, s1)
       else (Inr True, push_request l m s1))"

definition lock_shared_on_table :: "int \<Rightarrow> (lock_state, bool) stm" where
  "lock_shared_on_table = lock_table_request LS (\<lambda>m. m = LIX \<or> m = LSIX \<or> m = LX)"

definition lock_exclusive_on_table :: "int \<Rightarrow> (lock_state, bool) stm" where
  "lock_exclusive_on_table = lock_table_request LX (\<lambda>m. True)"

definition lock_IS_on_table :: "int \<Rightarrow> (lock_state, bool) stm" where
  "lock_IS_on_table = lock_table_request LIS (\<lambda>m. m = LX)"

definition lock_IX_on_table :: "int \<Rightarrow> (lock_state, bool) stm" where
  "lock_IX_on_table = lock_table_request LIX (\<lambda>m. m = LS \<or> m = LSIX \<or> m = LX)"

definition lock_SIX_on_table :: "int \<Rightarrow> (lock_state, bool) stm" where
  "lock_SIX_on_table = lock_table_request LSIX (\<lambda>m. m = LIX \<or> m = LS \<or> m = LSIX \<or> m = LX)"

text \<open>
  The loops over the queue of a record: \<open>Some b\<close> is a \<^verbatim>\<open>return b\<close> in the body, \<open>None\<close> falls through.
\<close>

fun shared_scan :: "txn_id_t \<Rightarrow> LockRequest list \<Rightarrow> exc + bool option" where
  "shared_scan t [] = Inr None"
| "shared_scan t (r # rs) =
     (if \<not> (lr_mode r = LS \<or> lr_mode r = LX) then Inl AssertFail
      else if lr_mode r = LX then Inr (Some (lr_txn r = t))
      else shared_scan t rs)"

fun exclusive_scan :: "txn_id_t \<Rightarrow> LockRequest list \<Rightarrow> exc + bool option" where
  "exclusive_scan t [] = Inr None"
| "exclusive_scan t (r # rs) =
     (if \<not> (lr_mode r = LS \<or> lr_mode r = LX) then Inl AssertFail
      else if lr_txn r \<noteq> t then Inr (Some False)
      else exclusive_scan t rs)"

definition lock_record_request ::
  "(int \<Rightarrow> (lock_state, bool) stm) \<Rightarrow> (txn_id_t \<Rightarrow> LockRequest list \<Rightarrow> exc + bool option) \<Rightarrow> LockMode
    \<Rightarrow> Rid \<Rightarrow> int \<Rightarrow> (lock_state, bool) stm" where
  "lock_record_request intent scan m rid tab_fd =
     bindE enter_growing (\<lambda>_ s.
       let l = LockDataId_record tab_fd rid in
       bindE (intent tab_fd) (\<lambda>granted s1.
         if \<not> granted then (Inr False, s1)
         else (case scan (txn_id (snd s1)) (requests (fst s1) l) of
                 Inl e \<Rightarrow> (Inl e, s1)
               | Inr (Some b) \<Rightarrow> (Inr b, s1)
               | Inr None \<Rightarrow> (Inr True, push_request l m s1))) (touch l s))"

definition lock_shared_on_record :: "Rid \<Rightarrow> int \<Rightarrow> (lock_state, bool) stm" where
  "lock_shared_on_record rid tab_fd s =
     (if txn_state (snd s) = ABORTED then (Inr False, s)
      else lock_record_request lock_IS_on_table shared_scan LS rid tab_fd s)"

definition lock_exclusive_on_record :: "Rid \<Rightarrow> int \<Rightarrow> (lock_state, bool) stm" where
  "lock_exclusive_on_record rid tab_fd = lock_record_request lock_IX_on_table exclusive_scan LX rid tab_fd"

definition unlock :: "LockDataId \<Rightarrow> lock_state \<Rightarrow> lock_state" where
  "unlock l s =
     (case s of (lm, t) \<Rightarrow>
        let t' = (if txn_state t = GROWING then t\<lparr>txn_state := SHRINKING\<rparr> else t);
            q = filter (\<lambda>r. lr_txn r \<noteq> txn_id t) (requests lm l)
        in (lm\<lparr>lock_table := (lock_table lm)(l := if q = [] then None
                              else Some ((queue_at lm l)\<lparr>request_queue := q\<rparr>))\<rparr>, t'))"

text \<open>
  \<^verbatim>\<open>TransactionManager::release_locks\<close>: \<open>order\<close> is the iteration order of the hash set.
\<close>

definition release_locks :: "LockDataId list \<Rightarrow> lock_state \<Rightarrow> lock_state" where
  "release_locks order s =
     (case fold unlock order s of (lm, t) \<Rightarrow> (lm, t\<lparr>lock_set := {}\<rparr>))"

section \<open>Compatibility\<close>

fun compatible :: "LockMode \<Rightarrow> LockMode \<Rightarrow> bool" where
  "compatible LIS m = (m \<noteq> LX)"
| "compatible LIX m = (m = LIS \<or> m = LIX)"
| "compatible LS m = (m = LIS \<or> m = LS)"
| "compatible LSIX m = (m = LIS)"
| "compatible LX m = False"

lemma compatible_sym: "compatible a b = compatible b a"
  by (cases a; cases b) simp_all

text \<open>Requests of different transactions for the same object are compatible.\<close>

definition conflict_free :: "LockManager \<Rightarrow> bool" where
  "conflict_free lm \<longleftrightarrow>
     (\<forall>l. \<forall>r \<in> set (requests lm l). \<forall>r' \<in> set (requests lm l).
        lr_txn r \<noteq> lr_txn r' \<longrightarrow> compatible (lr_mode r) (lr_mode r'))"

text \<open>Record queues hold record modes; a record lock comes with an intention lock on its table.\<close>

definition record_modes :: "LockManager \<Rightarrow> bool" where
  "record_modes lm \<longleftrightarrow>
     (\<forall>fd rid. \<forall>r \<in> set (requests lm (LockDataId_record fd rid)). lr_mode r = LS \<or> lr_mode r = LX)"

definition intention_held :: "LockManager \<Rightarrow> bool" where
  "intention_held lm \<longleftrightarrow>
     (\<forall>fd rid. \<forall>r \<in> set (requests lm (LockDataId_record fd rid)).
        \<exists>r' \<in> set (requests lm (LockDataId_table fd)). lr_txn r' = lr_txn r
          \<and> (if lr_mode r = LX then lr_mode r' = LIX else lr_mode r' = LIS))"

definition lock_ok :: "LockManager \<Rightarrow> bool" where
  "lock_ok lm \<longleftrightarrow> conflict_free lm \<and> record_modes lm \<and> intention_held lm"

text \<open>The lock set of a transaction covers all of its requests.\<close>

definition covered :: "LockManager \<Rightarrow> Transaction \<Rightarrow> bool" where
  "covered lm t \<longleftrightarrow> (\<forall>l. \<forall>r \<in> set (requests lm l). lr_txn r = txn_id t \<longrightarrow> l \<in> lock_set t)"

section \<open>The queues after each operation\<close>

lemma requests_touch [simp]: "requests (fst (touch l s)) l' = requests (fst s) l'"
  by (cases s) (simp add: requests_def queue_at_def touch_def)

lemma snd_touch [simp]: "snd (touch l s) = snd s"
  by (cases s) (simp add: touch_def)

lemma requests_push:
  "requests (fst (push_request l m s)) l' =
     (if l' = l then requests (fst s) l @ [new_LockRequest (txn_id (snd s)) m] else requests (fst s) l')"
  by (cases s) (simp add: requests_def queue_at_def push_request_def)

lemma snd_push [simp]: "snd (push_request l m s) = (snd s)\<lparr>lock_set := insert l (lock_set (snd s))\<rparr>"
  by (cases s) (simp add: push_request_def)

lemma new_LockRequest_simps [simp]: "lr_txn (new_LockRequest t m) = t" "lr_mode (new_LockRequest t m) = m"
  by (simp_all add: new_LockRequest_def)

lemma requests_unlock:
  "requests (fst (unlock l s)) l' =
     (if l' = l then filter (\<lambda>r. lr_txn r \<noteq> txn_id (snd s)) (requests (fst s) l) else requests (fst s) l')"
  by (cases s) (auto simp: unlock_def Let_def requests_def queue_at_def empty_queue_def split: option.splits)

lemma txn_id_unlock [simp]: "txn_id (snd (unlock l s)) = txn_id (snd s)"
  by (cases s) (simp add: unlock_def Let_def)

lemma lock_set_unlock [simp]: "lock_set (snd (unlock l s)) = lock_set (snd s)"
  by (cases s) (simp add: unlock_def Let_def)

lemma enter_growing_cases:
  "enter_growing s = (if txn_state (snd s) = SHRINKING
     then (Inl (TransactionAbortException (txn_id (snd s)) LOCK_ON_SHIRINKING), (fst s, (snd s)\<lparr>txn_state := ABORTED\<rparr>))
     else (Inr (), (fst s, (snd s)\<lparr>txn_state := GROWING\<rparr>)))"
  by (cases s) (simp add: enter_growing_def)

section \<open>Granting a request\<close>

definition pushed :: "LockManager \<Rightarrow> LockDataId \<Rightarrow> LockRequest \<Rightarrow> LockManager \<Rightarrow> bool" where
  "pushed lm l r lm' \<longleftrightarrow> (\<forall>l'. requests lm' l' = (if l' = l then requests lm l @ [r] else requests lm l'))"

definition unchanged :: "lock_state \<Rightarrow> lock_state \<Rightarrow> bool" where
  "unchanged s s' \<longleftrightarrow> (\<forall>l. requests (fst s') l = requests (fst s) l) \<and> txn_id (snd s') = txn_id (snd s)
     \<and> lock_set (snd s') = lock_set (snd s)"

text \<open>A step that leaves the queues alone, or grants \<open>m\<close> on \<open>l\<close> to the calling transaction.\<close>

definition grants :: "LockDataId \<Rightarrow> LockMode \<Rightarrow> lock_state \<Rightarrow> lock_state \<Rightarrow> bool" where
  "grants l m s s' \<longleftrightarrow> pushed (fst s) l (new_LockRequest (txn_id (snd s)) m) (fst s') \<and> txn_id (snd s') = txn_id (snd s)
     \<and> lock_set (snd s') = insert l (lock_set (snd s))
     \<and> (\<forall>r \<in> set (requests (fst s) l). lr_txn r \<noteq> txn_id (snd s) \<longrightarrow> compatible m (lr_mode r))"

lemma lock_table_request_cases:
  assumes run: "lock_table_request m c fd s = (res, s')"
    and c: "\<And>m'. \<not> c m' \<Longrightarrow> compatible m m'"
  shows "res \<noteq> Inr True \<and> unchanged s s' \<or> res = Inr True \<and> grants (LockDataId_table fd) m s s'"
proof (cases "txn_state (snd s) = SHRINKING")
  case True
  with run show ?thesis
    by (auto simp: lock_table_request_def bindE_def enter_growing_cases unchanged_def)
next
  case False
  let ?l = "LockDataId_table fd" and ?s1 = "(fst s, (snd s)\<lparr>txn_state := GROWING\<rparr>)"
  have req: "requests (fst (touch ?l ?s1)) l' = requests (fst s) l'" for l' by simp
  show ?thesis
  proof (cases "\<exists>r \<in> set (requests (fst s) ?l). c (lr_mode r) \<and> lr_txn r \<noteq> txn_id (snd s)")
    case True
    with run False have "res = Inr False" "s' = touch ?l ?s1"
      by (auto simp: lock_table_request_def bindE_def enter_growing_cases Let_def split: if_splits)
    then show ?thesis by (auto simp: unchanged_def)
  next
    case free: False
    with run False have "res = Inr True" "s' = push_request ?l m (touch ?l ?s1)"
      by (auto simp: lock_table_request_def bindE_def enter_growing_cases Let_def split: if_splits)
    then show ?thesis using free c by (auto simp: grants_def pushed_def requests_push)
  qed
qed

lemma lock_IS_cases:
  "lock_IS_on_table fd s = (res, s') \<Longrightarrow>
   res \<noteq> Inr True \<and> unchanged s s' \<or> res = Inr True \<and> grants (LockDataId_table fd) LIS s s'"
  unfolding lock_IS_on_table_def by (erule lock_table_request_cases) simp

lemma lock_IX_cases:
  "lock_IX_on_table fd s = (res, s') \<Longrightarrow>
   res \<noteq> Inr True \<and> unchanged s s' \<or> res = Inr True \<and> grants (LockDataId_table fd) LIX s s'"
  unfolding lock_IX_on_table_def by (erule lock_table_request_cases) (auto intro: LockMode.exhaust)

lemma lock_S_cases:
  "lock_shared_on_table fd s = (res, s') \<Longrightarrow>
   res \<noteq> Inr True \<and> unchanged s s' \<or> res = Inr True \<and> grants (LockDataId_table fd) LS s s'"
  unfolding lock_shared_on_table_def by (erule lock_table_request_cases) (auto intro: LockMode.exhaust)

lemma lock_SIX_cases:
  "lock_SIX_on_table fd s = (res, s') \<Longrightarrow>
   res \<noteq> Inr True \<and> unchanged s s' \<or> res = Inr True \<and> grants (LockDataId_table fd) LSIX s s'"
  unfolding lock_SIX_on_table_def by (erule lock_table_request_cases) (auto intro: LockMode.exhaust)

lemma lock_X_cases:
  "lock_exclusive_on_table fd s = (res, s') \<Longrightarrow>
   res \<noteq> Inr True \<and> unchanged s s' \<or> res = Inr True \<and> grants (LockDataId_table fd) LX s s'"
  unfolding lock_exclusive_on_table_def by (erule lock_table_request_cases) simp

lemma shared_scan_none: "shared_scan t rs = Inr None \<Longrightarrow> r \<in> set rs \<Longrightarrow> lr_mode r = LS"
  by (induction rs) (auto split: if_splits)

lemma exclusive_scan_none: "exclusive_scan t rs = Inr None \<Longrightarrow> r \<in> set rs \<Longrightarrow> lr_txn r = t"
  by (induction rs) (auto split: if_splits)

lemma scans_no_assert:
  assumes "\<forall>r \<in> set rs. lr_mode r = LS \<or> lr_mode r = LX"
  shows "shared_scan t rs \<noteq> Inl e" "exclusive_scan t rs \<noteq> Inl e"
  using assms by (induction rs) auto

text \<open>
  The three outcomes of a record request: nothing is granted, only the intention lock on the table
  is, or the intention lock and then the record lock.
\<close>

lemma lock_record_request_cases:
  assumes run: "lock_record_request intent scan m rid fd s = (res, s')"
    and intent: "\<And>s res s'. intent fd s = (res, s') \<Longrightarrow>
      res \<noteq> Inr True \<and> unchanged s s' \<or> res = Inr True \<and> grants (LockDataId_table fd) im s s'"
    and scan: "\<And>t rs r. scan t rs = Inr None \<Longrightarrow> r \<in> set rs \<Longrightarrow> lr_txn r \<noteq> t \<Longrightarrow> compatible m (lr_mode r)"
  shows "unchanged s s' \<and> res \<noteq> Inr True \<or> grants (LockDataId_table fd) im s s'
    \<or> res = Inr True \<and> (\<exists>s1. grants (LockDataId_table fd) im s s1 \<and> grants (LockDataId_record fd rid) m s1 s')"
proof (cases "txn_state (snd s) = SHRINKING")
  case True
  with run show ?thesis
    by (auto simp: lock_record_request_def bindE_def enter_growing_cases unchanged_def)
next
  case False
  let ?l = "LockDataId_record fd rid"
  let ?s0 = "touch ?l (fst s, (snd s)\<lparr>txn_state := GROWING\<rparr>)"
  obtain g s1 where g: "intent fd ?s0 = (g, s1)" by (cases "intent fd ?s0")
  have pre: "unchanged s ?s0" by (simp add: unchanged_def)
  have grant_pre: "grants l' m' s t" if "grants l' m' ?s0 t" for l' m' t
    using that pre by (simp add: grants_def pushed_def unchanged_def)
  have run': "(case g of Inl e \<Rightarrow> (Inl e, s1) | Inr gr \<Rightarrow>
      if \<not> gr then (Inr False, s1)
      else (case scan (txn_id (snd s1)) (requests (fst s1) ?l) of
              Inl e \<Rightarrow> (Inl e, s1) | Inr (Some b) \<Rightarrow> (Inr b, s1)
            | Inr None \<Rightarrow> (Inr True, push_request ?l m s1))) = (res, s')"
    using run False g by (simp add: lock_record_request_def bindE_def enter_growing_cases Let_def split: sum.splits)
  consider "g \<noteq> Inr True" "unchanged ?s0 s1" | "g = Inr True" "grants (LockDataId_table fd) im ?s0 s1"
    using intent [OF g] by blast
  then show ?thesis
  proof cases
    case 1
    then have "s' = s1" "res \<noteq> Inr True" using run' by (auto split: sum.splits if_splits)
    with 1 pre show ?thesis by (auto simp: unchanged_def)
  next
    case 2
    have gt: "grants (LockDataId_table fd) im s s1" by (rule grant_pre [OF 2(2)])
    show ?thesis
    proof (cases "scan (txn_id (snd s1)) (requests (fst s1) ?l) = Inr None")
      case True
      then have "res = Inr True" "s' = push_request ?l m s1" using run' 2(1) by auto
      moreover have "grants ?l m s1 (push_request ?l m s1)"
        using scan [OF True] by (auto simp: grants_def pushed_def requests_push)
      ultimately show ?thesis using gt by blast
    next
      case False
      then have "s' = s1" using run' 2(1) by (auto split: sum.splits option.splits)
      then show ?thesis using gt by blast
    qed
  qed
qed

lemma lock_shared_on_record_cases:
  assumes "lock_shared_on_record rid fd s = (res, s')"
  shows "unchanged s s' \<and> res \<noteq> Inr True \<or> grants (LockDataId_table fd) LIS s s'
    \<or> res = Inr True \<and> (\<exists>s1. grants (LockDataId_table fd) LIS s s1 \<and> grants (LockDataId_record fd rid) LS s1 s')"
proof (cases "txn_state (snd s) = ABORTED")
  case True
  with assms show ?thesis by (auto simp: lock_shared_on_record_def unchanged_def)
next
  case False
  with assms have "lock_record_request lock_IS_on_table shared_scan LS rid fd s = (res, s')"
    by (simp add: lock_shared_on_record_def)
  from lock_record_request_cases [OF this lock_IS_cases] show ?thesis
    using shared_scan_none by fastforce
qed

lemma lock_exclusive_on_record_cases:
  assumes "lock_exclusive_on_record rid fd s = (res, s')"
  shows "unchanged s s' \<and> res \<noteq> Inr True \<or> grants (LockDataId_table fd) LIX s s'
    \<or> res = Inr True \<and> (\<exists>s1. grants (LockDataId_table fd) LIX s s1 \<and> grants (LockDataId_record fd rid) LX s1 s')"
  using assms unfolding lock_exclusive_on_record_def
  by (rule lock_record_request_cases [OF _ lock_IX_cases]) (assumption, drule (1) exclusive_scan_none, simp)

section \<open>The invariant is kept\<close>

lemma unchanged_ok: "unchanged s s' \<Longrightarrow> lock_ok (fst s) \<Longrightarrow> lock_ok (fst s')"
  by (simp add: unchanged_def lock_ok_def conflict_free_def record_modes_def intention_held_def)

lemma grants_requests:
  "grants l m s s' \<Longrightarrow> set (requests (fst s') l') =
     (if l' = l then insert (new_LockRequest (txn_id (snd s)) m) (set (requests (fst s) l)) else set (requests (fst s) l'))"
  by (simp add: grants_def pushed_def)

lemma grants_conflict_free:
  assumes g: "grants l m s s'" and ok: "conflict_free (fst s)"
  shows "conflict_free (fst s')"
  unfolding conflict_free_def
proof (intro allI ballI impI)
  fix l' r r'
  assume r: "r \<in> set (requests (fst s') l')" "r' \<in> set (requests (fst s') l')" "lr_txn r \<noteq> lr_txn r'"
  show "compatible (lr_mode r) (lr_mode r')"
  proof (cases "l' = l")
    case True
    have comp: "compatible m (lr_mode q)" if "q \<in> set (requests (fst s) l)" "lr_txn q \<noteq> txn_id (snd s)" for q
      using g that by (simp add: grants_def)
    show ?thesis
      using r ok comp True compatible_sym [of _ m] unfolding grants_requests [OF g]
      by (auto simp: conflict_free_def)
  next
    case False
    then show ?thesis using r ok unfolding grants_requests [OF g] by (simp add: conflict_free_def)
  qed
qed

lemma grants_table_ok:
  assumes g: "grants (LockDataId_table fd) m s s'" and ok: "lock_ok (fst s)"
  shows "lock_ok (fst s')"
proof -
  have rec: "requests (fst s') (LockDataId_record fd' rid) = requests (fst s) (LockDataId_record fd' rid)" for fd' rid
    using g by (simp add: grants_def pushed_def)
  have "record_modes (fst s')" using ok by (simp add: lock_ok_def record_modes_def rec)
  moreover have "intention_held (fst s')"
    using ok unfolding lock_ok_def intention_held_def rec grants_requests [OF g] by (metis (no_types, lifting) insertCI)
  ultimately show ?thesis using grants_conflict_free [OF g] ok by (simp add: lock_ok_def)
qed

lemma grants_record_ok:
  assumes g: "grants (LockDataId_record fd rid) m s s'" and ok: "lock_ok (fst s)" and m: "m = LS \<or> m = LX"
    and intent: "new_LockRequest (txn_id (snd s)) (if m = LX then LIX else LIS) \<in> set (requests (fst s) (LockDataId_table fd))"
  shows "lock_ok (fst s')"
proof -
  have tab: "requests (fst s') (LockDataId_table fd') = requests (fst s) (LockDataId_table fd')" for fd'
    using g by (simp add: grants_def pushed_def)
  have "record_modes (fst s')"
    using ok m unfolding lock_ok_def record_modes_def grants_requests [OF g] by auto
  moreover have "intention_held (fst s')"
    unfolding intention_held_def
  proof (intro allI ballI)
    fix fd' rid' r
    assume r: "r \<in> set (requests (fst s') (LockDataId_record fd' rid'))"
    show "\<exists>r' \<in> set (requests (fst s') (LockDataId_table fd')). lr_txn r' = lr_txn r
        \<and> (if lr_mode r = LX then lr_mode r' = LIX else lr_mode r' = LIS)"
    proof (cases "r \<in> set (requests (fst s) (LockDataId_record fd' rid'))")
      case True
      then show ?thesis using ok unfolding tab lock_ok_def intention_held_def by blast
    next
      case False
      with r have "fd' = fd" "r = new_LockRequest (txn_id (snd s)) m"
        unfolding grants_requests [OF g] by (auto split: if_splits)
      then show ?thesis using intent m unfolding tab
        by (intro bexI [of _ "new_LockRequest (txn_id (snd s)) (if m = LX then LIX else LIS)"]) auto
    qed
  qed
  ultimately show ?thesis using grants_conflict_free [OF g] ok by (simp add: lock_ok_def)
qed

lemma grants_pair_ok:
  assumes "grants (LockDataId_table fd) (if m = LX then LIX else LIS) s s1" "grants (LockDataId_record fd rid) m s1 s'"
    and "lock_ok (fst s)" and "m = LS \<or> m = LX"
  shows "lock_ok (fst s')"
proof (rule grants_record_ok [OF assms(2) grants_table_ok [OF assms(1,3)] assms(4)])
  have "txn_id (snd s1) = txn_id (snd s)" using assms(1) by (simp add: grants_def)
  then show "new_LockRequest (txn_id (snd s1)) (if m = LX then LIX else LIS) \<in> set (requests (fst s1) (LockDataId_table fd))"
    unfolding grants_requests [OF assms(1)] by simp
qed

section \<open>Any interleaving of requests\<close>

datatype lock_call = SharedRecord Rid int | ExclusiveRecord Rid int | SharedTable int | ExclusiveTable int
  | IntentSharedTable int | IntentExclusiveTable int | SharedIntentExclusiveTable int

fun lock_run :: "lock_call \<Rightarrow> (lock_state, bool) stm" where
  "lock_run (SharedRecord rid fd) = lock_shared_on_record rid fd"
| "lock_run (ExclusiveRecord rid fd) = lock_exclusive_on_record rid fd"
| "lock_run (SharedTable fd) = lock_shared_on_table fd"
| "lock_run (ExclusiveTable fd) = lock_exclusive_on_table fd"
| "lock_run (IntentSharedTable fd) = lock_IS_on_table fd"
| "lock_run (IntentExclusiveTable fd) = lock_IX_on_table fd"
| "lock_run (SharedIntentExclusiveTable fd) = lock_SIX_on_table fd"

text \<open>One call either leaves the queues alone, or grants one lock, or an intention and a record lock.\<close>

inductive call_effect :: "lock_state \<Rightarrow> lock_state \<Rightarrow> bool" where
  nothing: "unchanged s s' \<Longrightarrow> call_effect s s'"
| on_table: "grants (LockDataId_table fd) m s s' \<Longrightarrow> call_effect s s'"
| on_record: "grants (LockDataId_table fd) (if m = LX then LIX else LIS) s s1 \<Longrightarrow>
    grants (LockDataId_record fd rid) m s1 s' \<Longrightarrow> m = LS \<or> m = LX \<Longrightarrow> call_effect s s'"

lemma lock_run_effect:
  assumes "lock_run c s = (res, s')"
  shows "call_effect s s'"
proof (cases c)
  case (SharedRecord rid fd)
  then have "lock_shared_on_record rid fd s = (res, s')" using assms by simp
  from lock_shared_on_record_cases [OF this] consider "unchanged s s'" | "grants (LockDataId_table fd) LIS s s'"
    | s1 where "grants (LockDataId_table fd) LIS s s1" "grants (LockDataId_record fd rid) LS s1 s'"
    by blast
  then show ?thesis
    by cases (auto intro: call_effect.nothing call_effect.on_table call_effect.on_record [where m = LS])
next
  case (ExclusiveRecord rid fd)
  then have "lock_exclusive_on_record rid fd s = (res, s')" using assms by simp
  from lock_exclusive_on_record_cases [OF this] consider "unchanged s s'" | "grants (LockDataId_table fd) LIX s s'"
    | s1 where "grants (LockDataId_table fd) LIX s s1" "grants (LockDataId_record fd rid) LX s1 s'"
    by blast
  then show ?thesis
    by cases (auto intro: call_effect.nothing call_effect.on_table call_effect.on_record [where m = LX])
qed (use assms in \<open>auto dest!: lock_S_cases lock_X_cases lock_IS_cases lock_IX_cases lock_SIX_cases intro: call_effect.nothing call_effect.on_table\<close>)

lemma call_effect_ok: "call_effect s s' \<Longrightarrow> lock_ok (fst s) \<Longrightarrow> lock_ok (fst s')"
  by (induction rule: call_effect.induct) (auto intro: unchanged_ok grants_table_ok grants_pair_ok)

lemma grants_covered:
  assumes "grants l m s s'" and "covered (fst s) (snd s)"
  shows "covered (fst s') (snd s')"
proof -
  have "txn_id (snd s') = txn_id (snd s)" "lock_set (snd s') = insert l (lock_set (snd s))"
    using assms(1) by (simp_all add: grants_def)
  then show ?thesis
    using assms(2) unfolding covered_def grants_requests [OF assms(1)] by (auto split: if_splits)
qed

lemma call_effect_covered: "call_effect s s' \<Longrightarrow> covered (fst s) (snd s) \<Longrightarrow> covered (fst s') (snd s')"
proof (induction rule: call_effect.induct)
  case (nothing s s')
  then show ?case by (simp add: covered_def unchanged_def)
qed (auto intro: grants_covered)

lemma call_effect_id: "call_effect s s' \<Longrightarrow> txn_id (snd s') = txn_id (snd s)"
  by (induction rule: call_effect.induct) (auto simp: unchanged_def grants_def)

lemma call_effect_others:
  "call_effect s s' \<Longrightarrow> r \<in> set (requests (fst s') l) \<Longrightarrow> lr_txn r \<noteq> txn_id (snd s) \<Longrightarrow> r \<in> set (requests (fst s) l)"
proof (induction rule: call_effect.induct)
  case (on_record fd m s s1 rid s')
  have "txn_id (snd s1) = txn_id (snd s)" using on_record(1) by (simp add: grants_def)
  with on_record show ?case
    unfolding grants_requests [OF on_record(2)] grants_requests [OF on_record(1)] by (auto split: if_splits)
qed (auto simp: unchanged_def grants_requests split: if_splits)

lemma fold_unlock:
  "requests (fst (fold unlock ls s)) l =
     (if l \<in> set ls then filter (\<lambda>r. lr_txn r \<noteq> txn_id (snd s)) (requests (fst s) l) else requests (fst s) l)"
  "txn_id (snd (fold unlock ls s)) = txn_id (snd s)"
  by (induction ls arbitrary: s) (auto simp: requests_unlock)

lemma release_locks_requests:
  assumes "covered (fst s) (snd s)" and "set ls = lock_set (snd s)"
  shows "requests (fst (release_locks ls s)) l = filter (\<lambda>r. lr_txn r \<noteq> txn_id (snd s)) (requests (fst s) l)"
proof -
  have "filter (\<lambda>r. lr_txn r \<noteq> txn_id (snd s)) (requests (fst s) l) = requests (fst s) l" if "l \<notin> set ls"
    using that assms by (auto simp: covered_def filter_id_conv)
  then show ?thesis by (auto simp: release_locks_def fold_unlock split: prod.splits)
      (metis fold_unlock(1) fst_conv)+
qed

lemma release_locks_txn:
  "txn_id (snd (release_locks ls s)) = txn_id (snd s)" "lock_set (snd (release_locks ls s)) = {}"
  using fold_unlock(2) [of ls s] by (auto simp: release_locks_def split: prod.splits)

lemma lock_ok_filter:
  assumes ok: "lock_ok lm" and req: "\<And>l. requests lm' l = filter (\<lambda>r. lr_txn r \<noteq> i) (requests lm l)"
  shows "lock_ok lm'"
  unfolding lock_ok_def
proof (intro conjI)
  show "conflict_free lm'" using ok unfolding lock_ok_def conflict_free_def req by auto
  show "record_modes lm'" using ok unfolding lock_ok_def record_modes_def req by auto
  show "intention_held lm'"
    unfolding intention_held_def req set_filter
  proof (intro allI ballI)
    fix fd rid r
    assume "r \<in> {x \<in> set (requests lm (LockDataId_record fd rid)). lr_txn x \<noteq> i}"
    then have r: "r \<in> set (requests lm (LockDataId_record fd rid))" "lr_txn r \<noteq> i" by simp_all
    then obtain r' where "r' \<in> set (requests lm (LockDataId_table fd))" "lr_txn r' = lr_txn r"
      "if lr_mode r = LX then lr_mode r' = LIX else lr_mode r' = LIS"
      using ok unfolding lock_ok_def intention_held_def by blast
    with r(2) show "\<exists>r' \<in> {x \<in> set (requests lm (LockDataId_table fd)). lr_txn x \<noteq> i}. lr_txn r' = lr_txn r
        \<and> (if lr_mode r = LX then lr_mode r' = LIX else lr_mode r' = LIS)"
      by (intro bexI [of _ r']) auto
  qed
qed

type_synonym lock_sys = "LockManager \<times> (txn_id_t \<rightharpoonup> Transaction)"

text \<open>
  The system: transactions begin, make lock requests in any order and interleaving, and end
  (\<^verbatim>\<open>commit\<close> or \<^verbatim>\<open>abort\<close>) by releasing all their locks.
\<close>

inductive lock_step :: "lock_sys \<Rightarrow> lock_sys \<Rightarrow> bool" where
  start: "ts i = None \<Longrightarrow> (\<forall>l. \<forall>r \<in> set (requests lm l). lr_txn r \<noteq> i) \<Longrightarrow>
    lock_step (lm, ts) (lm, ts(i \<mapsto> new_Transaction m tm th i))"
| request: "ts i = Some t \<Longrightarrow> lock_run c (lm, t) = (res, (lm', t')) \<Longrightarrow> lock_step (lm, ts) (lm', ts(i \<mapsto> t'))"
| finish: "ts i = Some t \<Longrightarrow> st = COMMITTED \<or> st = ABORTED \<Longrightarrow> set ls = lock_set t \<Longrightarrow>
    release_locks ls (lm, t\<lparr>txn_state := st\<rparr>) = (lm', t') \<Longrightarrow> lock_step (lm, ts) (lm', ts(i \<mapsto> t'))"

definition sys_ok :: "lock_sys \<Rightarrow> bool" where
  "sys_ok s \<longleftrightarrow> lock_ok (fst s) \<and> (\<forall>i t. snd s i = Some t \<longrightarrow> txn_id t = i \<and> covered (fst s) t)"

lemma covered_other:
  assumes "covered lm t" and "\<And>l r. r \<in> set (requests lm' l) \<Longrightarrow> lr_txn r = txn_id t \<Longrightarrow> r \<in> set (requests lm l)"
  shows "covered lm' t"
  using assms by (auto simp: covered_def)

lemma lock_step_ok: "lock_step s s' \<Longrightarrow> sys_ok s \<Longrightarrow> sys_ok s'"
proof (induction rule: lock_step.induct)
  case (start ts i lm m tm th)
  then have "covered lm (new_Transaction m tm th i)" by (auto simp: covered_def new_Transaction_def)
  with start show ?case by (auto simp: sys_ok_def new_Transaction_def)
next
  case (request ts i t c lm res lm' t')
  have e: "call_effect (lm, t) (lm', t')" by (rule lock_run_effect [OF request(2)])
  have t: "txn_id t = i" "covered lm t" "lock_ok lm" using request by (auto simp: sys_ok_def)
  have "covered lm' u" if "ts j = Some u" "j \<noteq> i" for j u
  proof (rule covered_other)
    have u: "txn_id u = j" "covered lm u" using that request by (auto simp: sys_ok_def)
    then show "covered lm u" by simp
    show "r \<in> set (requests lm l)" if "r \<in> set (requests lm' l)" "lr_txn r = txn_id u" for l r
      using call_effect_others [OF e, of r l] that u(1) \<open>j \<noteq> i\<close> t(1) by simp
  qed
  with request call_effect_ok [OF e] call_effect_covered [OF e] call_effect_id [OF e] t show ?case
    by (auto simp: sys_ok_def)
next
  case (finish ts i t st ls lm lm' t')
  let ?s = "(lm, t\<lparr>txn_state := st\<rparr>)"
  have t: "txn_id t = i" "covered lm t" "lock_ok lm" using finish by (auto simp: sys_ok_def)
  have req: "requests lm' l = filter (\<lambda>r. lr_txn r \<noteq> i) (requests lm l)" for l
    using release_locks_requests [of ?s ls l] finish(3,4) t by (simp add: covered_def)
  have "covered lm' u" if "ts j = Some u" for j u
  proof (rule covered_other)
    show "covered lm u" using finish that by (auto simp: sys_ok_def)
  qed (simp add: req)
  moreover have "txn_id t' = i" "covered lm' t'"
    using release_locks_txn [of ls ?s] finish(4) t(1) by (auto simp: covered_def req)
  ultimately show ?case
    using lock_ok_filter [OF t(3) req] finish by (auto simp: sys_ok_def)
qed

lemma lock_reachable_ok:
  assumes "lock_step\<^sup>*\<^sup>* (new_LockManager, Map.empty) s"
  shows "sys_ok s"
  using assms
proof (induction rule: rtranclp_induct)
  case base
  have "requests new_LockManager l = []" for l
    by (simp add: requests_def queue_at_def new_LockManager_def empty_queue_def)
  then show ?case by (simp add: sys_ok_def lock_ok_def conflict_free_def record_modes_def intention_held_def)
qed (rule lock_step_ok)

section \<open>Properties\<close>

text \<open>A reachable state in which transaction 1 holds an exclusive lock on record (2, 3) of table 5.\<close>

definition rid23 :: Rid where "rid23 = \<lparr>page_no = 2, slot_no = 3\<rparr>"

definition one_lock :: "(exc + bool) \<times> lock_state" where
  "one_lock = lock_exclusive_on_record rid23 5 (new_LockManager, new_Transaction True 0 0 1)"

lemmas lock_eval = lock_exclusive_on_record_def lock_record_request_def lock_IX_on_table_def lock_table_request_def
  enter_growing_def bindE_def Let_def touch_def push_request_def requests_def queue_at_def empty_queue_def
  new_LockManager_def new_Transaction_def new_LockRequest_def

lemma one_lock_run:
  "fst one_lock = Inr True"
  "requests (fst (snd one_lock)) (LockDataId_record 5 rid23) = [new_LockRequest 1 LX]"
  "requests (fst (snd one_lock)) (LockDataId_table 5) = [new_LockRequest 1 LIX]"
  "lock_set (snd (snd one_lock)) = {LockDataId_record 5 rid23, LockDataId_table 5}"
  by (simp_all add: one_lock_def lock_eval)

lemma one_lock_reachable:
  "lock_step\<^sup>*\<^sup>* (new_LockManager, Map.empty) (fst (snd one_lock), [1 \<mapsto> snd (snd one_lock)])"
proof -
  let ?t = "new_Transaction True 0 0 1"
  have "lock_step (new_LockManager, Map.empty) (new_LockManager, [1 \<mapsto> ?t])"
    by (rule lock_step.start [where ts = Map.empty]) (simp_all add: requests_def queue_at_def new_LockManager_def empty_queue_def)
  moreover have "lock_step (new_LockManager, [1 \<mapsto> ?t]) (fst (snd one_lock), [1 \<mapsto> ?t](1 \<mapsto> snd (snd one_lock)))"
    by (rule lock_step.request [where c = "ExclusiveRecord rid23 5" and t = ?t and res = "fst one_lock"])
      (simp_all add: one_lock_def)
  ultimately show ?thesis by (simp add: rtranclp.rtrancl_into_rtrancl)
qed

text \<open>
  C6: under any interleaving of lock requests and of commits and aborts, any two requests of
  different transactions in the queue of the same object are compatible in the standard matrix
  of IS, IX, S, SIX and X.
\<close>

theorem granted_locks_compatible:
  assumes "lock_step\<^sup>*\<^sup>* (new_LockManager, Map.empty) (lm, ts)"
    and "r \<in> set (requests lm l)" and "r' \<in> set (requests lm l)" and "lr_txn r \<noteq> lr_txn r'"
  shows "compatible (lr_mode r) (lr_mode r')"
  using lock_reachable_ok [OF assms(1)] assms(2-4) by (simp add: sys_ok_def lock_ok_def conflict_free_def)

theorem granted_locks_compatible_witness:
  "\<exists>lm ts r r'. lock_step\<^sup>*\<^sup>* (new_LockManager, Map.empty) (lm, ts) \<and> r \<in> set (requests lm (LockDataId_table 5))
     \<and> r' \<in> set (requests lm (LockDataId_table 5)) \<and> lr_txn r \<noteq> lr_txn r' \<and> compatible (lr_mode r) (lr_mode r')"
proof -
  let ?s = "lock_IX_on_table 5 (fst (snd one_lock), new_Transaction True 0 0 2)"
  let ?lm = "fst (snd one_lock)" and ?ts = "[1 \<mapsto> snd (snd one_lock)]"
  have "lock_step (?lm, ?ts) (?lm, ?ts(2 \<mapsto> new_Transaction True 0 0 2))"
    by (rule lock_step.start) (auto simp: one_lock_def lock_eval)
  moreover have "lock_step (?lm, ?ts(2 \<mapsto> new_Transaction True 0 0 2))
      (fst (snd ?s), (?ts(2 \<mapsto> new_Transaction True 0 0 2))(2 \<mapsto> snd (snd ?s)))"
    by (rule lock_step.request [where c = "IntentExclusiveTable 5" and t = "new_Transaction True 0 0 2" and res = "fst ?s"])
      simp_all
  ultimately have reach: "lock_step\<^sup>*\<^sup>* (new_LockManager, Map.empty)
      (fst (snd ?s), (?ts(2 \<mapsto> new_Transaction True 0 0 2))(2 \<mapsto> snd (snd ?s)))"
    using one_lock_reachable by (meson rtranclp.rtrancl_into_rtrancl)
  have req: "requests (fst (snd ?s)) (LockDataId_table 5) = [new_LockRequest 1 LIX, new_LockRequest 2 LIX]"
    by (simp add: one_lock_def lock_eval)
  have "new_LockRequest 1 LIX \<in> set (requests (fst (snd ?s)) (LockDataId_table 5))"
    "new_LockRequest 2 LIX \<in> set (requests (fst (snd ?s)) (LockDataId_table 5))" by (simp_all add: req)
  moreover from granted_locks_compatible [OF reach this] have "compatible LIX LIX" by simp
  ultimately show ?thesis using reach
    by (intro exI [of _ "fst (snd ?s)"] exI [of _ "(?ts(2 \<mapsto> new_Transaction True 0 0 2))(2 \<mapsto> snd (snd ?s))"]
        exI [of _ "new_LockRequest 1 LIX"] exI [of _ "new_LockRequest 2 LIX"]) simp
qed



text \<open>
  \<^verbatim>\<open>release_locks\<close> at the end of a transaction removes every request of that transaction from the
  lock table, in whatever order the lock set is traversed, and leaves the requests of the other
  transactions and their order alone.
\<close>

theorem release_locks_complete:
  assumes "lock_step\<^sup>*\<^sup>* (new_LockManager, Map.empty) (lm, ts)" and "ts i = Some t" and "set ls = lock_set t"
  shows "requests (fst (release_locks ls (lm, t))) l = filter (\<lambda>r. lr_txn r \<noteq> i) (requests lm l)
    \<and> lock_set (snd (release_locks ls (lm, t))) = {}"
  using lock_reachable_ok [OF assms(1)] assms(2,3) release_locks_requests [of "(lm, t)" ls l] release_locks_txn
  by (simp add: sys_ok_def)

theorem release_locks_complete_witness:
  "requests (fst (release_locks [LockDataId_table 5, LockDataId_record 5 rid23] (snd one_lock))) (LockDataId_record 5 rid23) = []"
  using release_locks_complete [OF one_lock_reachable, of 1 "snd (snd one_lock)"
      "[LockDataId_table 5, LockDataId_record 5 rid23]" "LockDataId_record 5 rid23"] one_lock_run
  by (auto simp: insert_commute)



text \<open>
  An exclusive record request ignores that its transaction is aborted: it behaves exactly as in
  a fresh transaction and puts the transaction back into the growing phase, whereas the shared
  request of the same transaction returns \<^verbatim>\<open>false\<close> and changes nothing.
\<close>

theorem exclusive_request_revives_aborted:
  "lock_exclusive_on_record rid fd (lm, t\<lparr>txn_state := ABORTED\<rparr>)
     = lock_exclusive_on_record rid fd (lm, t\<lparr>txn_state := DEFAULT\<rparr>)
   \<and> txn_state (snd (snd (lock_exclusive_on_record rid fd (lm, t\<lparr>txn_state := ABORTED\<rparr>)))) = GROWING
   \<and> lock_shared_on_record rid fd (lm, t\<lparr>txn_state := ABORTED\<rparr>) = (Inr False, (lm, t\<lparr>txn_state := ABORTED\<rparr>))"
  by (simp add: lock_eval lock_shared_on_record_def split: sum.splits option.splits)

end
