(* ===== verification/Log_Record.thy ===== *)
theory Log_Record
  imports Rmdb_Prelude
begin

text \<open>
  The log records of \<^verbatim>\<open>recovery/log_manager.h\<close> with the offsets of \<^verbatim>\<open>recovery/log_defs.h\<close>: their
  constructors, \<^verbatim>\<open>serialize\<close> (a sequence of \<^verbatim>\<open>memcpy\<close> calls into the log buffer) and \<^verbatim>\<open>deserialize\<close>.
  \<open>dest\<close> is the buffer and \<open>d\<close> the position a record is written at; \<open>src\<close> is the memory from the
  position a record is read at. A table name is the array of its characters.
\<close>

section \<open>Layout\<close>

definition OFFSET_LOG_TYPE :: nat where "OFFSET_LOG_TYPE = 0"
definition OFFSET_LSN :: nat where "OFFSET_LSN = 4"
definition OFFSET_LOG_TOT_LEN :: nat where "OFFSET_LOG_TOT_LEN = OFFSET_LSN + 4"
definition OFFSET_LOG_TID :: nat where "OFFSET_LOG_TID = OFFSET_LOG_TOT_LEN + 4"
definition OFFSET_PREV_LSN :: nat where "OFFSET_PREV_LSN = OFFSET_LOG_TID + 4"
definition OFFSET_UNDO_NEXT :: nat where "OFFSET_UNDO_NEXT = OFFSET_PREV_LSN + 4"
definition OFFSET_LOG_DATA :: nat where "OFFSET_LOG_DATA = OFFSET_UNDO_NEXT + 4"
definition LOG_HEADER_SIZE :: nat where "LOG_HEADER_SIZE = OFFSET_LOG_DATA"

lemmas log_offsets = OFFSET_LOG_TYPE_def OFFSET_LSN_def OFFSET_LOG_TOT_LEN_def OFFSET_LOG_TID_def
  OFFSET_PREV_LSN_def OFFSET_UNDO_NEXT_def OFFSET_LOG_DATA_def LOG_HEADER_SIZE_def

datatype LogType = UPDATE | INSERT | DELETE | BEGIN | COMMIT | ABORT | CLR_UPDATE | CLR_INSERT | CLR_DELETE
  | CREATE_INDEX

fun logtype_code :: "LogType \<Rightarrow> int" where
  "logtype_code UPDATE = 0"
| "logtype_code INSERT = 1"
| "logtype_code DELETE = 2"
| "logtype_code BEGIN = 3"
| "logtype_code COMMIT = 4"
| "logtype_code ABORT = 5"
| "logtype_code CLR_UPDATE = 6"
| "logtype_code CLR_INSERT = 7"
| "logtype_code CLR_DELETE = 8"
| "logtype_code CREATE_INDEX = 9"

definition logtypes :: "LogType list" where
  "logtypes = [UPDATE, INSERT, DELETE, BEGIN, COMMIT, ABORT, CLR_UPDATE, CLR_INSERT, CLR_DELETE, CREATE_INDEX]"

definition logtype_of_code :: "int \<Rightarrow> LogType option" where
  "logtype_of_code c = (if 0 \<le> c \<and> c < 10 then Some (logtypes ! nat c) else None)"

lemma logtype_of_code_code [simp]: "logtype_of_code (logtype_code t) = Some t"
  by (cases t) (simp_all add: logtype_of_code_def logtypes_def)

lemma logtype_code_i32 [simp]: "in_i32 (logtype_code t)"
  by (cases t) (simp_all add: in_i32_def)

record LogRecord =
  log_type :: LogType
  lsn :: lsn_t
  log_tot_len :: int
  log_tid :: txn_id_t
  prev_lsn :: lsn_t
  undo_next :: lsn_t

text \<open>\<^verbatim>\<open>InsertLogRecord\<close> and \<^verbatim>\<open>DeleteLogRecord\<close> have the same fields; the update record has two values.\<close>

record RowLogRecord = LogRecord +
  row_value :: bytes
  row_rid :: Rid
  row_table :: string

record UpdateLogRecord = LogRecord +
  old_value :: bytes
  new_value :: bytes
  upd_rid :: Rid
  upd_table :: string

section \<open>Constructors\<close>

definition u32 :: "int \<Rightarrow> int" where "u32 x = x mod 2 ^ 32"

definition new_LogRecord :: "LogType \<Rightarrow> LogRecord" where
  "new_LogRecord t =
     \<lparr>log_type = t, lsn = INVALID_LSN, log_tot_len = int LOG_HEADER_SIZE, log_tid = INVALID_TXN_ID,
      prev_lsn = INVALID_LSN, undo_next = INVALID_LSN\<rparr>"

definition BeginLogRecord :: "lsn_t \<Rightarrow> lsn_t \<Rightarrow> txn_id_t \<Rightarrow> LogRecord" where
  "BeginLogRecord l p t = (new_LogRecord BEGIN)\<lparr>lsn := l, prev_lsn := p, log_tid := t\<rparr>"

definition CommitLogRecord :: "lsn_t \<Rightarrow> lsn_t \<Rightarrow> txn_id_t \<Rightarrow> LogRecord" where
  "CommitLogRecord l p t = (new_LogRecord COMMIT)\<lparr>lsn := l, log_tid := t, prev_lsn := p\<rparr>"

definition AbortLogRecord :: "lsn_t \<Rightarrow> lsn_t \<Rightarrow> txn_id_t \<Rightarrow> LogRecord" where
  "AbortLogRecord l p t = (new_LogRecord ABORT)\<lparr>lsn := l, log_tid := t, prev_lsn := p\<rparr>"

definition row_LogRecord :: "LogType \<Rightarrow> txn_id_t \<Rightarrow> bytes \<Rightarrow> Rid \<Rightarrow> string \<Rightarrow> RowLogRecord" where
  "row_LogRecord ty t v rid tab =
     LogRecord.extend
       ((new_LogRecord ty)\<lparr>log_tid := t,
          log_tot_len := u32 (int LOG_HEADER_SIZE + 4 + int (length v) + 8 + (8 + int (length tab)))\<rparr>)
       (RowLogRecord.fields v rid tab)"

definition InsertLogRecord :: "txn_id_t \<Rightarrow> bytes \<Rightarrow> Rid \<Rightarrow> string \<Rightarrow> RowLogRecord" where
  "InsertLogRecord = row_LogRecord INSERT"

definition DeleteLogRecord :: "txn_id_t \<Rightarrow> bytes \<Rightarrow> Rid \<Rightarrow> string \<Rightarrow> RowLogRecord" where
  "DeleteLogRecord = row_LogRecord DELETE"

definition new_UpdateLogRecord :: "txn_id_t \<Rightarrow> bytes \<Rightarrow> bytes \<Rightarrow> Rid \<Rightarrow> string \<Rightarrow> UpdateLogRecord" where
  "new_UpdateLogRecord t v w rid tab =
     LogRecord.extend
       ((new_LogRecord UPDATE)\<lparr>log_tid := t,
          log_tot_len := u32 (int LOG_HEADER_SIZE + 4 + int (length v) + 4 + int (length w) + 8 + (8 + int (length tab)))\<rparr>)
       (UpdateLogRecord.fields v w rid tab)"

definition setCLR :: "'a LogRecord_scheme \<Rightarrow> exc + 'a LogRecord_scheme" where
  "setCLR r =
     (case log_type r of
        UPDATE \<Rightarrow> Inr (r\<lparr>log_type := CLR_UPDATE\<rparr>)
      | DELETE \<Rightarrow> Inr (r\<lparr>log_type := CLR_INSERT\<rparr>)
      | INSERT \<Rightarrow> Inr (r\<lparr>log_type := CLR_DELETE\<rparr>)
      | _ \<Rightarrow> Inl AssertFail)"

section \<open>Serialization\<close>

definition rid_bytes :: "Rid \<Rightarrow> bytes" where
  "rid_bytes r = enc_le 4 (page_no r) @ enc_le 4 (slot_no r)"

definition rid_at :: "nat \<Rightarrow> bytes \<Rightarrow> Rid" where
  "rid_at off m = \<lparr>page_no = rd_i32 off m, slot_no = rd_i32 (off + 4) m\<rparr>"

definition LogRecord_serialize :: "'a LogRecord_scheme \<Rightarrow> nat \<Rightarrow> bytes \<Rightarrow> bytes" where
  "LogRecord_serialize r d dest =
     (let m1 = mem_put (d + OFFSET_LOG_TYPE) (enc_le 4 (logtype_code (log_type r))) dest;
          m2 = mem_put (d + OFFSET_LSN) (enc_le 4 (lsn r)) m1;
          m3 = mem_put (d + OFFSET_LOG_TOT_LEN) (enc_le 4 (log_tot_len r)) m2;
          m4 = mem_put (d + OFFSET_LOG_TID) (enc_le 4 (log_tid r)) m3;
          m5 = mem_put (d + OFFSET_PREV_LSN) (enc_le 4 (prev_lsn r)) m4
      in mem_put (d + OFFSET_UNDO_NEXT) (enc_le 4 (undo_next r)) m5)"

definition LogRecord_deserialize :: "bytes \<Rightarrow> LogRecord option" where
  "LogRecord_deserialize src =
     (case logtype_of_code (rd_i32 0 src) of
        None \<Rightarrow> None
      | Some t \<Rightarrow> Some \<lparr>log_type = t, lsn = rd_i32 OFFSET_LSN src,
                        log_tot_len = dec_u (mem_get OFFSET_LOG_TOT_LEN 4 src),
                        log_tid = rd_i32 OFFSET_LOG_TID src, prev_lsn = rd_i32 OFFSET_PREV_LSN src,
                        undo_next = rd_i32 OFFSET_UNDO_NEXT src\<rparr>)"

definition row_serialize :: "RowLogRecord \<Rightarrow> nat \<Rightarrow> bytes \<Rightarrow> bytes" where
  "row_serialize r d dest =
     (let m0 = LogRecord_serialize r d dest;
          offset = OFFSET_LOG_DATA;
          m1 = mem_put (d + offset) (enc_le 4 (int (length (row_value r)))) m0;
          offset = offset + 4;
          m2 = mem_put (d + offset) (row_value r) m1;
          offset = offset + length (row_value r);
          m3 = mem_put (d + offset) (rid_bytes (row_rid r)) m2;
          offset = offset + 8;
          m4 = mem_put (d + offset) (enc_le 8 (int (length (row_table r)))) m3;
          offset = offset + 8
      in mem_put (d + offset) (str_bytes (row_table r)) m4)"

definition InsertLogRecord_serialize :: "RowLogRecord \<Rightarrow> nat \<Rightarrow> bytes \<Rightarrow> bytes" where
  "InsertLogRecord_serialize = row_serialize"

definition DeleteLogRecord_serialize :: "RowLogRecord \<Rightarrow> nat \<Rightarrow> bytes \<Rightarrow> bytes" where
  "DeleteLogRecord_serialize = row_serialize"

text \<open>
  \<^verbatim>\<open>RmRecord::Deserialize\<close>; \<^verbatim>\<open>new char[size]\<close> throws on a negative size.
\<close>

definition RmRecord_Deserialize :: "bytes \<Rightarrow> bytes option" where
  "RmRecord_Deserialize src =
     (let sz = rd_i32 0 src in if sz < 0 then None else Some (mem_get 4 (nat sz) src))"

definition row_deserialize :: "bytes \<Rightarrow> RowLogRecord option" where
  "row_deserialize src =
     (case LogRecord_deserialize src of None \<Rightarrow> None | Some h \<Rightarrow>
      case RmRecord_Deserialize (drop OFFSET_LOG_DATA src) of None \<Rightarrow> None | Some v \<Rightarrow>
        let offset = OFFSET_LOG_DATA + length v + 4;
            rid = rid_at offset src;
            offset = offset + 8;
            table_name_size = nat (dec_u (mem_get offset 8 src));
            offset = offset + 8
        in Some (LogRecord.extend h (RowLogRecord.fields v rid (bytes_str (mem_get offset table_name_size src)))))"

definition InsertLogRecord_deserialize :: "bytes \<Rightarrow> RowLogRecord option" where
  "InsertLogRecord_deserialize = row_deserialize"

definition DeleteLogRecord_deserialize :: "bytes \<Rightarrow> RowLogRecord option" where
  "DeleteLogRecord_deserialize = row_deserialize"

text \<open>
  The update record copies \<^verbatim>\<open>old_value_.size\<close> bytes of the new value: it reads past the new value
  when that one is shorter, and leaves the end of it unwritten when it is longer.
\<close>

definition UpdateLogRecord_serialize :: "UpdateLogRecord \<Rightarrow> nat \<Rightarrow> bytes \<Rightarrow> exc + bytes" where
  "UpdateLogRecord_serialize r d dest =
     (let m0 = LogRecord_serialize r d dest;
          offset = OFFSET_LOG_DATA;
          m1 = mem_put (d + offset) (enc_le 4 (int (length (old_value r)))) m0;
          offset = offset + 4;
          m2 = mem_put (d + offset) (old_value r) m1;
          offset = offset + length (old_value r);
          m3 = mem_put (d + offset) (enc_le 4 (int (length (new_value r)))) m2;
          offset = offset + 4
      in if length (new_value r) < length (old_value r) then Inl OutOfRange
      else
        let m4 = mem_put (d + offset) (take (length (old_value r)) (new_value r)) m3;
            offset = offset + length (new_value r);
            m5 = mem_put (d + offset) (rid_bytes (upd_rid r)) m4;
            offset = offset + 8;
            m6 = mem_put (d + offset) (enc_le 8 (int (length (upd_table r)))) m5;
            offset = offset + 8
        in Inr (mem_put (d + offset) (str_bytes (upd_table r)) m6))"

definition UpdateLogRecord_deserialize :: "bytes \<Rightarrow> UpdateLogRecord option" where
  "UpdateLogRecord_deserialize src =
     (case LogRecord_deserialize src of None \<Rightarrow> None | Some h \<Rightarrow>
      case RmRecord_Deserialize (drop OFFSET_LOG_DATA src) of None \<Rightarrow> None | Some v \<Rightarrow>
        let offset = OFFSET_LOG_DATA + 4 + length v in
        case RmRecord_Deserialize (drop offset src) of None \<Rightarrow> None | Some w \<Rightarrow>
        let offset = offset + (4 + length w);
            rid = rid_at offset src;
            offset = offset + 8;
            table_name_size = nat (dec_u (mem_get offset 8 src));
            offset = offset + 8
        in Some (LogRecord.extend h (UpdateLogRecord.fields v w rid (bytes_str (mem_get offset table_name_size src)))))"

text \<open>A record of any class; \<^verbatim>\<open>serialize\<close> is virtual.\<close>

datatype AnyLogRecord = LPlain LogRecord | LInsert RowLogRecord | LDelete RowLogRecord | LUpdate UpdateLogRecord

fun log_base :: "AnyLogRecord \<Rightarrow> LogRecord" where
  "log_base (LPlain r) = r"
| "log_base (LInsert r) = LogRecord.truncate r"
| "log_base (LDelete r) = LogRecord.truncate r"
| "log_base (LUpdate r) = LogRecord.truncate r"

fun serialize :: "AnyLogRecord \<Rightarrow> nat \<Rightarrow> bytes \<Rightarrow> exc + bytes" where
  "serialize (LPlain r) d dest = Inr (LogRecord_serialize r d dest)"
| "serialize (LInsert r) d dest = Inr (InsertLogRecord_serialize r d dest)"
| "serialize (LDelete r) d dest = Inr (DeleteLogRecord_serialize r d dest)"
| "serialize (LUpdate r) d dest = UpdateLogRecord_serialize r d dest"

section \<open>The contract of a record class\<close>

text \<open>
  What the log manager and recovery rely on: a record is written as a fixed byte string of its own,
  and reading at the place it starts gives it back whatever follows.
\<close>

locale log_codec =
  fixes enc :: "'r \<Rightarrow> bytes" and put :: "'r \<Rightarrow> nat \<Rightarrow> bytes \<Rightarrow> exc + bytes"
    and get :: "bytes \<Rightarrow> 'r option" and wf :: "'r \<Rightarrow> bool"
  assumes put_enc: "wf r \<Longrightarrow> d + length (enc r) \<le> length m \<Longrightarrow> put r d m = Inr (mem_put d (enc r) m)"
    and get_enc: "wf r \<Longrightarrow> get (enc r @ rest) = Some r"
begin

lemma roundtrip:
  assumes "wf r" and "d + length (enc r) \<le> length m"
  shows "\<exists>m'. put r d m = Inr m' \<and> length m' = length m \<and> get (drop d m') = Some r
    \<and> (\<forall>off n. off + n \<le> d \<or> d + length (enc r) \<le> off \<longrightarrow> mem_get off n m' = mem_get off n m)"
proof -
  let ?m = "mem_put d (enc r) m"
  have "drop d ?m = enc r @ drop (d + length (enc r)) m" using assms(2) by (simp add: mem_put_def)
  then have "get (drop d ?m) = Some r" using get_enc [OF assms(1)] by simp
  moreover have "mem_get off n ?m = mem_get off n m" if "off + n \<le> d \<or> d + length (enc r) \<le> off" for off n
    using that assms(2) by (elim disjE) (simp add: mem_get_put_before, simp add: mem_get_def mem_put_def)
  moreover have "length ?m = length m" using assms(2) by (simp add: mem_put_def)
  ultimately show ?thesis using put_enc [OF assms] by blast
qed

end

section \<open>The classes satisfy it\<close>

lemma length_rid_bytes [simp]: "length (rid_bytes r) = 8"
  by (simp add: rid_bytes_def)

definition rid_in_range :: "Rid \<Rightarrow> bool" where
  "rid_in_range r \<longleftrightarrow> in_i32 (page_no r) \<and> in_i32 (slot_no r)"

definition hdr_bytes :: "'a LogRecord_scheme \<Rightarrow> bytes" where
  "hdr_bytes r = enc_le 4 (logtype_code (log_type r)) @ enc_le 4 (lsn r) @ enc_le 4 (log_tot_len r)
     @ enc_le 4 (log_tid r) @ enc_le 4 (prev_lsn r) @ enc_le 4 (undo_next r)"

definition row_bytes :: "RowLogRecord \<Rightarrow> bytes" where
  "row_bytes r = hdr_bytes r @ enc_le 4 (int (length (row_value r))) @ row_value r @ rid_bytes (row_rid r)
     @ enc_le 8 (int (length (row_table r))) @ str_bytes (row_table r)"

definition upd_bytes :: "UpdateLogRecord \<Rightarrow> bytes" where
  "upd_bytes r = hdr_bytes r @ enc_le 4 (int (length (old_value r))) @ old_value r
     @ enc_le 4 (int (length (new_value r))) @ new_value r @ rid_bytes (upd_rid r)
     @ enc_le 8 (int (length (upd_table r))) @ str_bytes (upd_table r)"

definition hdr_ok :: "'a LogRecord_scheme \<Rightarrow> bool" where
  "hdr_ok r \<longleftrightarrow> in_i32 (lsn r) \<and> in_u32 (log_tot_len r) \<and> in_i32 (log_tid r) \<and> in_i32 (prev_lsn r) \<and> in_i32 (undo_next r)"

definition row_ok :: "RowLogRecord \<Rightarrow> bool" where
  "row_ok r \<longleftrightarrow> hdr_ok r \<and> length (row_value r) < 2 ^ 31 \<and> rid_in_range (row_rid r) \<and> length (row_table r) < 2 ^ 64"

definition upd_ok :: "UpdateLogRecord \<Rightarrow> bool" where
  "upd_ok r \<longleftrightarrow> hdr_ok r \<and> length (old_value r) < 2 ^ 31 \<and> length (new_value r) = length (old_value r)
     \<and> rid_in_range (upd_rid r) \<and> length (upd_table r) < 2 ^ 64"

lemma length_hdr_bytes [simp]: "length (hdr_bytes r) = 24"
  by (simp add: hdr_bytes_def)

lemma LogRecord_serialize_bytes:
  "d + 24 \<le> length m \<Longrightarrow> LogRecord_serialize r d m = mem_put d (hdr_bytes r) m"
  by (simp add: LogRecord_serialize_def Let_def log_offsets mem_put_append hdr_bytes_def)

lemma rd_i32_prefix [simp]: "length a = 4 \<Longrightarrow> rd_i32 0 (a @ b) = dec_s a"
  by (simp add: rd_i32_def mem_get_def)

lemma rd_i32_skip: "length a \<le> off \<Longrightarrow> rd_i32 off (a @ b) = rd_i32 (off - length a) b"
  by (simp add: rd_i32_def mem_get_append_right)

lemma mem_get_prefix [simp]: "n = length a \<Longrightarrow> mem_get 0 n (a @ b) = a"
  by (simp add: mem_get_def)

lemma mem_get_skip: "length a \<le> off \<Longrightarrow> mem_get off n (a @ b) = mem_get (off - length a) n b"
  by (rule mem_get_append_right)

lemma LogRecord_deserialize_bytes:
  "hdr_ok r \<Longrightarrow> LogRecord_deserialize (hdr_bytes r @ rest) = Some (LogRecord.truncate r)"
  by (simp add: hdr_ok_def LogRecord_deserialize_def hdr_bytes_def log_offsets rd_i32_skip mem_get_skip
      LogRecord.truncate_def)

lemma rid_at_bytes: "rid_in_range r \<Longrightarrow> rid_at 0 (rid_bytes r @ rest) = r"
  by (simp add: rid_in_range_def rid_at_def rid_bytes_def rd_i32_skip)

lemma rid_at_skip: "length a \<le> off \<Longrightarrow> rid_at off (a @ b) = rid_at (off - length a) b"
  by (simp add: rid_at_def rd_i32_skip)

lemma RmRecord_Deserialize_bytes:
  "length v < 2 ^ 31 \<Longrightarrow> RmRecord_Deserialize (enc_le 4 (int (length v)) @ v @ rest) = Some v"
  by (simp add: RmRecord_Deserialize_def in_i32_def mem_get_skip)

lemma row_serialize_bytes:
  "d + length (row_bytes r) \<le> length m \<Longrightarrow> row_serialize r d m = mem_put d (row_bytes r) m"
  by (simp add: row_serialize_def Let_def LogRecord_serialize_bytes mem_put_append row_bytes_def log_offsets)

lemma row_deserialize_bytes:
  assumes "row_ok r"
  shows "row_deserialize (row_bytes r @ rest) = Some r"
proof -
  have t: "in_u64 (int (length (row_table r)))" using assms by (simp add: row_ok_def in_u64_def)
  have ext: "LogRecord.extend (LogRecord.truncate r) (RowLogRecord.fields (row_value r) (row_rid r) (row_table r)) = r"
    by (cases r) (simp add: LogRecord.truncate_def LogRecord.extend_def RowLogRecord.fields_def)
  have v: "RmRecord_Deserialize (drop OFFSET_LOG_DATA (row_bytes r @ rest)) = Some (row_value r)"
    using assms by (simp add: row_ok_def row_bytes_def log_offsets RmRecord_Deserialize_bytes)
  have h: "LogRecord_deserialize (row_bytes r @ rest) = Some (LogRecord.truncate r)"
    using assms by (simp add: row_ok_def row_bytes_def LogRecord_deserialize_bytes)
  show ?thesis
    using assms t unfolding row_deserialize_def h option.case v
    by (simp add: Let_def row_ok_def row_bytes_def log_offsets mem_get_skip rid_at_skip rid_at_bytes ext)
qed

lemma UpdateLogRecord_serialize_bytes:
  "upd_ok r \<Longrightarrow> d + length (upd_bytes r) \<le> length m \<Longrightarrow>
   UpdateLogRecord_serialize r d m = Inr (mem_put d (upd_bytes r) m)"
  by (simp add: upd_ok_def UpdateLogRecord_serialize_def Let_def LogRecord_serialize_bytes mem_put_append
      upd_bytes_def log_offsets)

lemma UpdateLogRecord_deserialize_bytes:
  assumes "upd_ok r"
  shows "UpdateLogRecord_deserialize (upd_bytes r @ rest) = Some r"
proof -
  have t: "in_u64 (int (length (upd_table r)))" using assms by (simp add: upd_ok_def in_u64_def)
  have ext: "LogRecord.extend (LogRecord.truncate r)
      (UpdateLogRecord.fields (old_value r) (new_value r) (upd_rid r) (upd_table r)) = r"
    by (cases r) (simp add: LogRecord.truncate_def LogRecord.extend_def UpdateLogRecord.fields_def)
  have v: "RmRecord_Deserialize (drop OFFSET_LOG_DATA (upd_bytes r @ rest)) = Some (old_value r)"
    using assms by (simp add: upd_ok_def upd_bytes_def log_offsets RmRecord_Deserialize_bytes)
  have w: "RmRecord_Deserialize (drop (OFFSET_LOG_DATA + 4 + length (old_value r)) (upd_bytes r @ rest)) = Some (new_value r)"
    using assms RmRecord_Deserialize_bytes [of "new_value r"] by (simp add: upd_ok_def upd_bytes_def log_offsets)
  have h: "LogRecord_deserialize (upd_bytes r @ rest) = Some (LogRecord.truncate r)"
    using assms by (simp add: upd_ok_def upd_bytes_def LogRecord_deserialize_bytes)
  show ?thesis
    using assms t unfolding UpdateLogRecord_deserialize_def h option.case v Let_def w
    by (simp add: upd_ok_def upd_bytes_def log_offsets mem_get_skip rid_at_skip rid_at_bytes ext)
qed

interpretation plain_log: log_codec hdr_bytes "\<lambda>r d m. Inr (LogRecord_serialize r d m)" LogRecord_deserialize
  "hdr_ok :: LogRecord \<Rightarrow> bool"
  by unfold_locales (simp_all add: LogRecord_serialize_bytes LogRecord_deserialize_bytes LogRecord.truncate_def)

interpretation insert_log: log_codec row_bytes "\<lambda>r d m. Inr (InsertLogRecord_serialize r d m)"
  InsertLogRecord_deserialize row_ok
  by unfold_locales (simp_all add: InsertLogRecord_serialize_def InsertLogRecord_deserialize_def
      row_serialize_bytes row_deserialize_bytes)

interpretation delete_log: log_codec row_bytes "\<lambda>r d m. Inr (DeleteLogRecord_serialize r d m)"
  DeleteLogRecord_deserialize row_ok
  by unfold_locales (simp_all add: DeleteLogRecord_serialize_def DeleteLogRecord_deserialize_def
      row_serialize_bytes row_deserialize_bytes)

interpretation update_log: log_codec upd_bytes UpdateLogRecord_serialize UpdateLogRecord_deserialize upd_ok
  by unfold_locales (simp_all add: UpdateLogRecord_serialize_bytes UpdateLogRecord_deserialize_bytes)

section \<open>Properties\<close>

definition demo_row :: RowLogRecord where
  "demo_row = (InsertLogRecord 3 [1, 2, 3] \<lparr>page_no = 1, slot_no = 0\<rparr> ''t'')\<lparr>lsn := 7\<rparr>"

definition demo_update :: UpdateLogRecord where
  "demo_update = (new_UpdateLogRecord 3 [1, 2] [5, 6] \<lparr>page_no = 1, slot_no = 0\<rparr> ''t'')\<lparr>lsn := 8\<rparr>"

lemmas demo_defs = row_LogRecord_def InsertLogRecord_def new_UpdateLogRecord_def new_LogRecord_def LogRecord.extend_def
  RowLogRecord.fields_def UpdateLogRecord.fields_def u32_def log_offsets hdr_ok_def in_i32_def in_u32_def
  INVALID_LSN_def INVALID_TXN_ID_def rid_in_range_def

text \<open>
  An insert or delete record written into the log buffer is read back field by field from the
  place it was written at, whatever stood in the buffer, and no byte outside its own is touched.
\<close>

theorem row_log_roundtrip:
  assumes "row_ok r" and "d + length (row_bytes r) \<le> length m"
  shows "InsertLogRecord_deserialize (drop d (InsertLogRecord_serialize r d m)) = Some r
    \<and> DeleteLogRecord_deserialize (drop d (DeleteLogRecord_serialize r d m)) = Some r
    \<and> length (InsertLogRecord_serialize r d m) = length m
    \<and> (\<forall>off n. off + n \<le> d \<or> d + length (row_bytes r) \<le> off \<longrightarrow>
         mem_get off n (InsertLogRecord_serialize r d m) = mem_get off n m)"
  using insert_log.roundtrip [OF assms] delete_log.roundtrip [OF assms] by simp

theorem row_log_roundtrip_witness:
  "InsertLogRecord_deserialize (drop 2 (InsertLogRecord_serialize demo_row 2 (replicate 100 0))) = Some demo_row"
proof -
  have "row_ok demo_row" by (simp add: row_ok_def demo_row_def demo_defs)
  moreover have "2 + length (row_bytes demo_row) \<le> length (replicate 100 (0 :: u8))"
    by (simp add: row_bytes_def demo_row_def demo_defs)
  ultimately show ?thesis using row_log_roundtrip [of demo_row 2 "replicate 100 0"] by blast
qed

text \<open>
  C10: an update record whose two values have the same size, as rows of one table do, is read back
  field by field; when the new value is shorter than the old one, serialization reads past its end.
\<close>

theorem update_log_roundtrip:
  "(upd_ok r \<and> d + length (upd_bytes r) \<le> length m \<longrightarrow>
      (\<exists>m'. UpdateLogRecord_serialize r d m = Inr m' \<and> UpdateLogRecord_deserialize (drop d m') = Some r
         \<and> length m' = length m))
   \<and> (length (new_value r) < length (old_value r) \<longrightarrow> UpdateLogRecord_serialize r d m = Inl OutOfRange)"
proof -
  have "UpdateLogRecord_serialize r d m = Inl OutOfRange" if "length (new_value r) < length (old_value r)"
    using that by (simp add: UpdateLogRecord_serialize_def Let_def)
  then show ?thesis using update_log.roundtrip [of r d m] by blast
qed

theorem update_log_roundtrip_witness:
  "\<exists>m'. UpdateLogRecord_serialize demo_update 2 (replicate 100 0) = Inr m'
     \<and> UpdateLogRecord_deserialize (drop 2 m') = Some demo_update"
proof -
  have "upd_ok demo_update" by (simp add: upd_ok_def demo_update_def demo_defs)
  moreover have "2 + length (upd_bytes demo_update) \<le> length (replicate 100 (0 :: u8))"
    by (simp add: upd_bytes_def demo_update_def demo_defs)
  ultimately show ?thesis using update_log_roundtrip [of demo_update 2 "replicate 100 0"] by blast
qed

end
