(* ===== verification/Log_Manager.thy ===== *)
theory Log_Manager
  imports Log_Record Txn_Defs Disk
begin

text \<open>
  \<^verbatim>\<open>LogManager\<close> and \<^verbatim>\<open>LogBuffer\<close> of \<^verbatim>\<open>recovery/log_manager.{h,cpp}\<close> over the log file of the disk
  manager. \<^verbatim>\<open>latch_\<close> is part of the state, because \<^verbatim>\<open>flush_log_to_disk\<close> locks it again under the
  \<^verbatim>\<open>gen_log\<close> functions: locking a latch that the same call already holds is the outcome
  \<^const>\<open>SelfDeadlock\<close>. The maps keyed by \<^verbatim>\<open>WriteRecord *\<close> use the address of the record;
  \<^verbatim>\<open>insert\<close> of a map keeps an entry that is already there.
\<close>

section \<open>State and operations\<close>

record LogManager =
  global_lsn :: lsn_t
  log_latch :: bool
  log_buffer :: bytes
  log_offset :: nat
  buffer_lsn :: lsn_t
  persist_lsn :: lsn_t
  lsn_prevlsn_table :: "lsn_t \<rightharpoonup> lsn_t"
  write_rec_to_lsn_table :: "nat \<rightharpoonup> lsn_t"

type_synonym log_state = "LogManager \<times> DiskManager"

text \<open>\<^verbatim>\<open>buffer_lsn_\<close> and \<^verbatim>\<open>persist_lsn_\<close> have no initialiser.\<close>

definition new_LogManager :: "lsn_t \<Rightarrow> lsn_t \<Rightarrow> LogManager" where
  "new_LogManager bl pl =
     \<lparr>global_lsn = 0, log_latch = False, log_buffer = replicate (nat LOG_BUFFER_SIZE + 1) 0, log_offset = 0,
      buffer_lsn = bl, persist_lsn = pl, lsn_prevlsn_table = Map.empty, write_rec_to_lsn_table = Map.empty\<rparr>"

definition log_is_full :: "int \<Rightarrow> LogManager \<Rightarrow> bool" where
  "log_is_full append_size lm \<longleftrightarrow> int (log_offset lm) + append_size > LOG_BUFFER_SIZE"

definition modify_log :: "(LogManager \<Rightarrow> LogManager) \<Rightarrow> (log_state, unit) stm" where
  "modify_log g s = (Inr (), (g (fst s), snd s))"

definition latch_lock :: "(log_state, unit) stm" where
  "latch_lock s =
     (if log_latch (fst s) then (Inl SelfDeadlock, s) else (Inr (), ((fst s)\<lparr>log_latch := True\<rparr>, snd s)))"

definition latch_unlock :: "(log_state, unit) stm" where
  "latch_unlock = modify_log (\<lambda>lm. lm\<lparr>log_latch := False\<rparr>)"

definition flush_log_to_disk :: "(log_state, unit) stm" where
  "flush_log_to_disk =
     bindE latch_lock (\<lambda>_ s.
       case write_log (take (log_offset (fst s)) (log_buffer (fst s))) (snd s) of
         (Inl e, d) \<Rightarrow> (Inl e, ((fst s)\<lparr>log_latch := False\<rparr>, d))
       | (Inr _, d) \<Rightarrow>
           (Inr (), ((fst s)\<lparr>persist_lsn := buffer_lsn (fst s), log_offset := 0, log_latch := False\<rparr>, d)))"

definition add_log_to_buffer :: "AnyLogRecord \<Rightarrow> (log_state, lsn_t) stm" where
  "add_log_to_buffer r =
     bindE (\<lambda>s. if log_is_full (log_tot_len (log_base r)) (fst s) then flush_log_to_disk s else (Inr (), s)) (\<lambda>_ s.
       let lm = fst s in
       if log_offset lm + nat (log_tot_len (log_base r)) > length (log_buffer lm) then (Inl OutOfRange, s)
       else (case serialize r (log_offset lm) (log_buffer lm) of
               Inl e \<Rightarrow> (Inl e, s)
             | Inr m \<Rightarrow>
                 (Inr (lsn (log_base r)),
                  (lm\<lparr>log_buffer := m, log_offset := log_offset lm + nat (log_tot_len (log_base r)),
                      buffer_lsn := lsn (log_base r)\<rparr>, snd s))))"

definition alloc_lsn :: "(log_state, lsn_t) stm" where
  "alloc_lsn s = (Inr (global_lsn (fst s)), ((fst s)\<lparr>global_lsn := wrap_i32 (global_lsn (fst s) + 1)\<rparr>, snd s))"

definition set_lsn :: "lsn_t \<Rightarrow> LogManager \<Rightarrow> LogManager" where
  "set_lsn n lm = lm\<lparr>global_lsn := n\<rparr>"

definition map_insert :: "'k \<Rightarrow> 'v \<Rightarrow> ('k \<rightharpoonup> 'v) \<Rightarrow> ('k \<rightharpoonup> 'v)" where
  "map_insert k v m = (case m k of None \<Rightarrow> m(k \<mapsto> v) | Some _ \<Rightarrow> m)"

fun set_lsns :: "lsn_t \<Rightarrow> lsn_t \<Rightarrow> AnyLogRecord \<Rightarrow> AnyLogRecord" where
  "set_lsns l p (LPlain r) = LPlain (r\<lparr>lsn := l, prev_lsn := p\<rparr>)"
| "set_lsns l p (LInsert r) = LInsert (r\<lparr>lsn := l, prev_lsn := p\<rparr>)"
| "set_lsns l p (LDelete r) = LDelete (r\<lparr>lsn := l, prev_lsn := p\<rparr>)"
| "set_lsns l p (LUpdate r) = LUpdate (r\<lparr>lsn := l, prev_lsn := p\<rparr>)"

text \<open>The record built for a write; an \<^verbatim>\<open>RmRecord\<close> that was never set cannot be copied.\<close>

definition log_of_write :: "txn_id_t \<Rightarrow> WriteRecord \<Rightarrow> exc + AnyLogRecord" where
  "log_of_write t w =
     (case wtype w of
        INSERT_TUPLE \<Rightarrow> (case wr_record w of None \<Rightarrow> Inl OutOfRange
                         | Some v \<Rightarrow> Inr (LInsert (InsertLogRecord t v (wr_rid w) (tab_name w))))
      | DELETE_TUPLE \<Rightarrow> (case wr_record w of None \<Rightarrow> Inl OutOfRange
                         | Some v \<Rightarrow> Inr (LDelete (DeleteLogRecord t v (wr_rid w) (tab_name w))))
      | UPDATE_TUPLE \<Rightarrow> (case (wr_record w, new_record w) of
                           (Some v, Some v') \<Rightarrow> Inr (LUpdate (new_UpdateLogRecord t v v' (wr_rid w) (tab_name w)))
                         | _ \<Rightarrow> Inl OutOfRange))"

definition gen_log_from_write_set :: "Transaction \<Rightarrow> WriteRecord \<Rightarrow> (log_state, lsn_t \<times> Transaction) stm" where
  "gen_log_from_write_set txn w s =
     (case log_of_write (txn_id txn) w of
        Inl e \<Rightarrow> (Inl e, s)
      | Inr log \<Rightarrow>
          bindE latch_lock (\<lambda>_. bindE alloc_lsn (\<lambda>l.
          bindE (modify_log (\<lambda>lm. lm\<lparr>lsn_prevlsn_table := map_insert l (so_far_lsn txn) (lsn_prevlsn_table lm),
                                     write_rec_to_lsn_table := map_insert (wr_addr w) l (write_rec_to_lsn_table lm)\<rparr>)) (\<lambda>_.
          bindE (add_log_to_buffer (set_lsns l (so_far_lsn txn) log)) (\<lambda>_.
          bindE latch_unlock (\<lambda>_. returnE (l, txn\<lparr>so_far_lsn := l\<rparr>)))))) s)"

text \<open>
  The compensation records: \<^verbatim>\<open>undo_next_\<close> is assigned to the record object after it has been
  serialized, so the argument does not reach the buffer.
\<close>

definition gen_log_CLR :: "(lsn_t \<Rightarrow> exc + AnyLogRecord) \<Rightarrow> lsn_t \<Rightarrow> (log_state, lsn_t) stm" where
  "gen_log_CLR mk undo =
     bindE latch_lock (\<lambda>_. bindE alloc_lsn (\<lambda>l s.
       case mk l of Inl e \<Rightarrow> (Inl e, s)
       | Inr log \<Rightarrow> bindE (add_log_to_buffer log) (\<lambda>_. bindE latch_unlock (\<lambda>_. returnE l)) s))"

definition gen_log_upadte_CLR ::
  "txn_id_t \<Rightarrow> lsn_t \<Rightarrow> bytes \<Rightarrow> bytes \<Rightarrow> Rid \<Rightarrow> string \<Rightarrow> (log_state, lsn_t) stm" where
  "gen_log_upadte_CLR t undo v v' rid tab =
     gen_log_CLR (\<lambda>l. case setCLR (new_UpdateLogRecord t v' v rid tab) of
        Inl e \<Rightarrow> Inl e | Inr r \<Rightarrow> Inr (LUpdate (r\<lparr>lsn := l\<rparr>))) undo"

definition gen_log_insert_CLR :: "txn_id_t \<Rightarrow> lsn_t \<Rightarrow> bytes \<Rightarrow> Rid \<Rightarrow> string \<Rightarrow> (log_state, lsn_t) stm" where
  "gen_log_insert_CLR t undo v rid tab =
     gen_log_CLR (\<lambda>l. case setCLR (InsertLogRecord t v rid tab) of
        Inl e \<Rightarrow> Inl e | Inr r \<Rightarrow> Inr (LInsert (r\<lparr>lsn := l\<rparr>))) undo"

definition gen_log_delete_CLR :: "txn_id_t \<Rightarrow> lsn_t \<Rightarrow> bytes \<Rightarrow> Rid \<Rightarrow> string \<Rightarrow> (log_state, lsn_t) stm" where
  "gen_log_delete_CLR t undo v rid tab =
     gen_log_CLR (\<lambda>l. case setCLR (DeleteLogRecord t v rid tab) of
        Inl e \<Rightarrow> Inl e | Inr r \<Rightarrow> Inr (LDelete (r\<lparr>lsn := l\<rparr>))) undo"

definition gen_log_plain :: "(lsn_t \<Rightarrow> lsn_t \<Rightarrow> txn_id_t \<Rightarrow> LogRecord) \<Rightarrow> Transaction \<Rightarrow> (log_state, lsn_t \<times> Transaction) stm" where
  "gen_log_plain mk txn =
     bindE latch_lock (\<lambda>_. bindE alloc_lsn (\<lambda>l.
     bindE (add_log_to_buffer (LPlain (mk l (so_far_lsn txn) (txn_id txn)))) (\<lambda>_.
     bindE latch_unlock (\<lambda>_. returnE (l, txn\<lparr>so_far_lsn := l\<rparr>)))))"

definition gen_log_bein :: "Transaction \<Rightarrow> (log_state, lsn_t \<times> Transaction) stm" where
  "gen_log_bein = gen_log_plain BeginLogRecord"

definition gen_log_commit :: "Transaction \<Rightarrow> (log_state, lsn_t \<times> Transaction) stm" where
  "gen_log_commit = gen_log_plain CommitLogRecord"

definition gen_log_abort :: "Transaction \<Rightarrow> (log_state, lsn_t \<times> Transaction) stm" where
  "gen_log_abort = gen_log_plain AbortLogRecord"

section \<open>The bytes of a record\<close>

fun any_bytes :: "AnyLogRecord \<Rightarrow> bytes" where
  "any_bytes (LPlain r) = hdr_bytes r"
| "any_bytes (LInsert r) = row_bytes r"
| "any_bytes (LDelete r) = row_bytes r"
| "any_bytes (LUpdate r) = upd_bytes r"

text \<open>A record that can be written and whose length field is the length of its bytes.\<close>

fun any_ok :: "AnyLogRecord \<Rightarrow> bool" where
  "any_ok (LPlain r) = (hdr_ok r \<and> log_tot_len r = 24)"
| "any_ok (LInsert r) = (row_ok r \<and> log_tot_len r = int (length (row_bytes r)))"
| "any_ok (LDelete r) = (row_ok r \<and> log_tot_len r = int (length (row_bytes r)))"
| "any_ok (LUpdate r) = (upd_ok r \<and> log_tot_len r = int (length (upd_bytes r)))"

lemma truncate_simps [simp]:
  "lsn (LogRecord.truncate r) = lsn r" "log_tot_len (LogRecord.truncate r) = log_tot_len r"
  "log_type (LogRecord.truncate r) = log_type r" "log_tid (LogRecord.truncate r) = log_tid r"
  "prev_lsn (LogRecord.truncate r) = prev_lsn r" "undo_next (LogRecord.truncate r) = undo_next r"
  by (simp_all add: LogRecord.truncate_def)

lemma any_ok_length: "any_ok r \<Longrightarrow> log_tot_len (log_base r) = int (length (any_bytes r))"
  by (cases r) simp_all

lemma serialize_any:
  "any_ok r \<Longrightarrow> d + length (any_bytes r) \<le> length m \<Longrightarrow> serialize r d m = Inr (mem_put d (any_bytes r) m)"
  by (cases r) (simp_all add: plain_log.put_enc [simplified] insert_log.put_enc [simplified]
      delete_log.put_enc [simplified] update_log.put_enc)

section \<open>The log as a stream of bytes\<close>

definition log_ok :: "LogManager \<Rightarrow> bool" where
  "log_ok lm \<longleftrightarrow> \<not> log_latch lm \<and> length (log_buffer lm) = nat LOG_BUFFER_SIZE + 1 \<and> log_offset lm \<le> nat LOG_BUFFER_SIZE"

definition pending :: "LogManager \<Rightarrow> bytes" where
  "pending lm = take (log_offset lm) (log_buffer lm)"

lemma new_LogManager_ok: "log_ok (new_LogManager a b)" "pending (new_LogManager a b) = []"
  by (simp_all add: log_ok_def new_LogManager_def pending_def LOG_BUFFER_SIZE_def PAGE_SIZE_def)

lemma LOG_BUFFER_SIZE_pos [simp]: "0 < LOG_BUFFER_SIZE" "0 \<le> LOG_BUFFER_SIZE"
  by (simp_all add: LOG_BUFFER_SIZE_def PAGE_SIZE_def)

text \<open>A record that fits behind the pending ones is appended to them.\<close>

lemma add_log_fits:
  assumes ok: "any_ok r" and len: "length (log_buffer (fst s)) = nat LOG_BUFFER_SIZE + 1"
    and fits: "log_offset (fst s) + length (any_bytes r) \<le> nat LOG_BUFFER_SIZE"
  obtains lm' where "add_log_to_buffer r s = (Inr (lsn (log_base r)), (lm', snd s))"
    and "pending lm' = pending (fst s) @ any_bytes r" and "log_offset lm' = log_offset (fst s) + length (any_bytes r)"
    and "length (log_buffer lm') = nat LOG_BUFFER_SIZE + 1"
    and "lm' = (fst s)\<lparr>log_buffer := log_buffer lm', log_offset := log_offset lm', buffer_lsn := lsn (log_base r)\<rparr>"
proof -
  let ?lm = "fst s" and ?b = "any_bytes r"
  let ?m = "mem_put (log_offset ?lm) ?b (log_buffer ?lm)"
  have l: "log_tot_len (log_base r) = int (length ?b)" by (rule any_ok_length [OF ok])
  have nf: "\<not> log_is_full (log_tot_len (log_base r)) ?lm"
    using fits LOG_BUFFER_SIZE_pos(2) unfolding log_is_full_def l by linarith
  have ser: "serialize r (log_offset ?lm) (log_buffer ?lm) = Inr ?m"
    by (rule serialize_any [OF ok]) (use fits len in simp)
  have run: "add_log_to_buffer r s = (Inr (lsn (log_base r)),
      (?lm\<lparr>log_buffer := ?m, log_offset := log_offset ?lm + length ?b, buffer_lsn := lsn (log_base r)\<rparr>, snd s))"
    using nf ser fits len unfolding add_log_to_buffer_def l by (simp add: bindE_def l Let_def)
  show thesis
    by (rule that [OF run]) (use fits len in \<open>simp_all add: pending_def mem_put_def\<close>)
qed

lemma add_log_full:
  assumes "log_latch (fst s)" and "LOG_BUFFER_SIZE < int (log_offset (fst s)) + log_tot_len (log_base r)"
  shows "add_log_to_buffer r s = (Inl SelfDeadlock, s)"
  using assms by (simp add: add_log_to_buffer_def bindE_def log_is_full_def flush_log_to_disk_def latch_lock_def)

section \<open>What the generators append\<close>

definition appends :: "LogManager \<Rightarrow> AnyLogRecord \<Rightarrow> LogManager \<Rightarrow> bool" where
  "appends lm r lm' \<longleftrightarrow> log_ok lm' \<and> pending lm' = pending lm @ any_bytes r
     \<and> global_lsn lm' = wrap_i32 (global_lsn lm + 1) \<and> buffer_lsn lm' = lsn (log_base r)
     \<and> persist_lsn lm' = persist_lsn lm"

definition room_for :: "LogManager \<Rightarrow> AnyLogRecord \<Rightarrow> bool" where
  "room_for lm r \<longleftrightarrow> log_offset lm + length (any_bytes r) \<le> nat LOG_BUFFER_SIZE"

text \<open>Everything between \<^verbatim>\<open>latch_.lock()\<close> and \<^verbatim>\<open>latch_.unlock()\<close>, for a record that fits.\<close>

lemma latched_add:
  assumes ok: "log_ok lm" and r: "any_ok r" and room: "room_for lm r"
    and lm1: "log_latch lm1" "log_buffer lm1 = log_buffer lm" "log_offset lm1 = log_offset lm"
      "global_lsn lm1 = wrap_i32 (global_lsn lm + 1)" "persist_lsn lm1 = persist_lsn lm"
  obtains lm' where "bindE (add_log_to_buffer r) (\<lambda>_. bindE latch_unlock (\<lambda>_. returnE x)) (lm1, d) = (Inr x, (lm', d))"
    and "appends lm r lm'" and "lsn_prevlsn_table lm' = lsn_prevlsn_table lm1"
    and "write_rec_to_lsn_table lm' = write_rec_to_lsn_table lm1"
proof -
  have len: "length (log_buffer (fst (lm1, d))) = nat LOG_BUFFER_SIZE + 1" using ok lm1 by (simp add: log_ok_def)
  have fits: "log_offset (fst (lm1, d)) + length (any_bytes r) \<le> nat LOG_BUFFER_SIZE" using room lm1 by (simp add: room_for_def)
  obtain lm2 where lm2: "add_log_to_buffer r (lm1, d) = (Inr (lsn (log_base r)), (lm2, d))"
    "pending lm2 = pending lm1 @ any_bytes r" "log_offset lm2 = log_offset lm1 + length (any_bytes r)"
    "length (log_buffer lm2) = nat LOG_BUFFER_SIZE + 1"
    "lm2 = lm1\<lparr>log_buffer := log_buffer lm2, log_offset := log_offset lm2, buffer_lsn := lsn (log_base r)\<rparr>"
    by (rule add_log_fits [OF r len fits]) auto
  have f: "global_lsn lm2 = global_lsn lm1" "persist_lsn lm2 = persist_lsn lm1" "buffer_lsn lm2 = lsn (log_base r)"
    "lsn_prevlsn_table lm2 = lsn_prevlsn_table lm1" "write_rec_to_lsn_table lm2 = write_rec_to_lsn_table lm1"
    by (subst lm2(5), simp)+
  show thesis
  proof (rule that [of "lm2\<lparr>log_latch := False\<rparr>"])
    show "appends lm r (lm2\<lparr>log_latch := False\<rparr>)"
      using lm2(2,3,4) lm1 fits f by (simp add: appends_def log_ok_def pending_def)
  qed (use lm2(1) f in \<open>simp_all add: bindE_def latch_unlock_def modify_log_def returnE_def\<close>)
qed

lemma gen_log_plain_spec:
  assumes ok: "log_ok lm" and r: "r = LPlain (mk (global_lsn lm) (so_far_lsn txn) (txn_id txn))"
    and rok: "any_ok r" and room: "room_for lm r"
  obtains lm' where "gen_log_plain mk txn (lm, d) =
      (Inr (global_lsn lm, txn\<lparr>so_far_lsn := global_lsn lm\<rparr>), (lm', d))"
    and "appends lm r lm'"
proof -
  have lt: "\<not> log_latch lm" using ok by (simp add: log_ok_def)
  let ?lm1 = "lm\<lparr>log_latch := True, global_lsn := wrap_i32 (global_lsn lm + 1)\<rparr>"
  obtain lm' where "bindE (add_log_to_buffer r) (\<lambda>_. bindE latch_unlock (\<lambda>_.
      returnE (global_lsn lm, txn\<lparr>so_far_lsn := global_lsn lm\<rparr>))) (?lm1, d)
      = (Inr (global_lsn lm, txn\<lparr>so_far_lsn := global_lsn lm\<rparr>), (lm', d))" and a: "appends lm r lm'"
    by (rule latched_add [OF ok rok room, of ?lm1]) auto
  then have "gen_log_plain mk txn (lm, d) = (Inr (global_lsn lm, txn\<lparr>so_far_lsn := global_lsn lm\<rparr>), (lm', d))"
    using lt unfolding gen_log_plain_def r
    by (simp add: bindE_def [of latch_lock] bindE_def [of alloc_lsn] latch_lock_def alloc_lsn_def)
  with a show thesis using that by blast
qed

lemma gen_log_CLR_spec:
  assumes ok: "log_ok lm" and mk: "mk (global_lsn lm) = Inr r" and rok: "any_ok r" and room: "room_for lm r"
  obtains lm' where "gen_log_CLR mk undo (lm, d) = (Inr (global_lsn lm), (lm', d))" and "appends lm r lm'"
proof -
  have lt: "\<not> log_latch lm" using ok by (simp add: log_ok_def)
  let ?lm1 = "lm\<lparr>log_latch := True, global_lsn := wrap_i32 (global_lsn lm + 1)\<rparr>"
  obtain lm' where "bindE (add_log_to_buffer r) (\<lambda>_. bindE latch_unlock (\<lambda>_. returnE (global_lsn lm))) (?lm1, d)
      = (Inr (global_lsn lm), (lm', d))" and a: "appends lm r lm'"
    by (rule latched_add [OF ok rok room, of ?lm1]) auto
  then have "gen_log_CLR mk undo (lm, d) = (Inr (global_lsn lm), (lm', d))"
    using lt mk unfolding gen_log_CLR_def
    by (simp add: bindE_def [of latch_lock] bindE_def [of alloc_lsn] latch_lock_def alloc_lsn_def)
  with a show thesis using that by blast
qed

lemma gen_log_from_write_set_spec:
  assumes ok: "log_ok lm" and log: "log_of_write (txn_id txn) w = Inr log"
    and r: "r = set_lsns (global_lsn lm) (so_far_lsn txn) log" and rok: "any_ok r" and room: "room_for lm r"
  obtains lm' where "gen_log_from_write_set txn w (lm, d) =
      (Inr (global_lsn lm, txn\<lparr>so_far_lsn := global_lsn lm\<rparr>), (lm', d))"
    and "appends lm r lm'"
    and "lsn_prevlsn_table lm' = map_insert (global_lsn lm) (so_far_lsn txn) (lsn_prevlsn_table lm)"
    and "write_rec_to_lsn_table lm' = map_insert (wr_addr w) (global_lsn lm) (write_rec_to_lsn_table lm)"
proof -
  have lt: "\<not> log_latch lm" using ok by (simp add: log_ok_def)
  let ?lm1 = "lm\<lparr>log_latch := True, global_lsn := wrap_i32 (global_lsn lm + 1),
      lsn_prevlsn_table := map_insert (global_lsn lm) (so_far_lsn txn) (lsn_prevlsn_table lm),
      write_rec_to_lsn_table := map_insert (wr_addr w) (global_lsn lm) (write_rec_to_lsn_table lm)\<rparr>"
  obtain lm' where run: "bindE (add_log_to_buffer r) (\<lambda>_. bindE latch_unlock (\<lambda>_.
      returnE (global_lsn lm, txn\<lparr>so_far_lsn := global_lsn lm\<rparr>))) (?lm1, d)
      = (Inr (global_lsn lm, txn\<lparr>so_far_lsn := global_lsn lm\<rparr>), (lm', d))" and a: "appends lm r lm'"
    and t: "lsn_prevlsn_table lm' = lsn_prevlsn_table ?lm1" "write_rec_to_lsn_table lm' = write_rec_to_lsn_table ?lm1"
    by (rule latched_add [OF ok rok room, of ?lm1]) auto
  have "gen_log_from_write_set txn w (lm, d) = (Inr (global_lsn lm, txn\<lparr>so_far_lsn := global_lsn lm\<rparr>), (lm', d))"
    using lt run log unfolding gen_log_from_write_set_def r
    by (simp add: bindE_def [of latch_lock] bindE_def [of alloc_lsn] bindE_def [of "modify_log _"]
        latch_lock_def alloc_lsn_def modify_log_def)
  then show thesis using that [OF _ a] t by simp
qed

lemma flush_log_spec:
  assumes ok: "log_ok lm" and d: "disk_ok d" "log_fd d \<noteq> -1" "fd2path d (log_fd d) = Some LOG_FILE_NAME"
    and c: "files d LOG_FILE_NAME = Some c"
  obtains lm' d' where "flush_log_to_disk (lm, d) = (Inr (), (lm', d'))" and "log_ok lm'" and "pending lm' = []"
    and "files d' = (files d)(LOG_FILE_NAME \<mapsto> c @ pending lm)" and "disk_ok d'" and "log_fd d' = log_fd d"
    and "fd2path d' = fd2path d" and "persist_lsn lm' = buffer_lsn lm" and "global_lsn lm' = global_lsn lm"
    and "fd2pageno d' = fd2pageno d"
proof -
  obtain d' where d': "write_log (pending lm) d = (Inr (), d')" "files d' = (files d)(LOG_FILE_NAME \<mapsto> c @ pending lm)"
    "disk_ok d'" "log_fd d' = log_fd d" "fd2path d' = fd2path d" "fd2pageno d' = fd2pageno d"
    using write_log_append [OF d c] by blast
  let ?lm = "lm\<lparr>persist_lsn := buffer_lsn lm, log_offset := 0, log_latch := False\<rparr>"
  have "flush_log_to_disk (lm, d) = (Inr (), (?lm, d'))"
    using ok d'(1) by (simp add: flush_log_to_disk_def bindE_def latch_lock_def log_ok_def pending_def)
  then show thesis by (rule that) (use d' ok in \<open>simp_all add: log_ok_def pending_def\<close>)
qed

section \<open>Records built by the constructors\<close>

lemma row_simps:
  "log_tid (row_LogRecord ty t v rid tab) = t" "row_value (row_LogRecord ty t v rid tab) = v"
  "row_rid (row_LogRecord ty t v rid tab) = rid" "row_table (row_LogRecord ty t v rid tab) = tab"
  "log_type (row_LogRecord ty t v rid tab) = ty" "lsn (row_LogRecord ty t v rid tab) = INVALID_LSN"
  "prev_lsn (row_LogRecord ty t v rid tab) = INVALID_LSN" "undo_next (row_LogRecord ty t v rid tab) = INVALID_LSN"
  "log_tot_len (row_LogRecord ty t v rid tab) = u32 (int LOG_HEADER_SIZE + 4 + int (length v) + 8 + (8 + int (length tab)))"
  by (simp_all add: row_LogRecord_def LogRecord.extend_def RowLogRecord.fields_def new_LogRecord_def)

lemma length_row_bytes: "length (row_bytes r) = 44 + length (row_value r) + length (row_table r)"
  by (simp add: row_bytes_def)

lemma length_upd_bytes:
  "length (upd_bytes r) = 48 + length (old_value r) + length (new_value r) + length (upd_table r)"
  by (simp add: upd_bytes_def)

lemma upd_simps:
  "log_tid (new_UpdateLogRecord t v w rid tab) = t" "old_value (new_UpdateLogRecord t v w rid tab) = v"
  "new_value (new_UpdateLogRecord t v w rid tab) = w"
  "upd_rid (new_UpdateLogRecord t v w rid tab) = rid" "upd_table (new_UpdateLogRecord t v w rid tab) = tab"
  "log_type (new_UpdateLogRecord t v w rid tab) = UPDATE" "lsn (new_UpdateLogRecord t v w rid tab) = INVALID_LSN"
  "prev_lsn (new_UpdateLogRecord t v w rid tab) = INVALID_LSN" "undo_next (new_UpdateLogRecord t v w rid tab) = INVALID_LSN"
  "log_tot_len (new_UpdateLogRecord t v w rid tab) =
     u32 (int LOG_HEADER_SIZE + 4 + int (length v) + 4 + int (length w) + 8 + (8 + int (length tab)))"
  by (simp_all add: new_UpdateLogRecord_def LogRecord.extend_def UpdateLogRecord.fields_def new_LogRecord_def)

lemma invalid_ids_i32 [simp]: "in_i32 INVALID_LSN" "in_i32 INVALID_TXN_ID"
  by (simp_all add: in_i32_def INVALID_LSN_def INVALID_TXN_ID_def)

lemma row_sized:
  assumes "44 + length v + length tab < 2 ^ 31" and "in_i32 t" and "in_i32 l" and "in_i32 p" and "rid_in_range rid"
  shows "row_ok ((row_LogRecord ty t v rid tab)\<lparr>log_type := ty', lsn := l, prev_lsn := p\<rparr>)"
    and "log_tot_len (row_LogRecord ty t v rid tab) = int (44 + length v + length tab)"
  using assms by (simp_all add: row_ok_def hdr_ok_def row_simps u32_def LOG_HEADER_SIZE_def log_offsets in_u32_def)

lemma log_of_write_ok:
  assumes v: "wr_record w = Some v" and sz: "48 + 2 * length v + length (tab_name w) < 2 ^ 31"
    and t: "in_i32 t" "in_i32 l" "in_i32 p" "rid_in_range (wr_rid w)"
    and upd: "wtype w = UPDATE_TUPLE \<Longrightarrow> \<exists>v'. new_record w = Some v' \<and> length v' = length v"
  obtains log where "log_of_write t w = Inr log" and "any_ok (set_lsns l p log)"
proof (cases "wtype w")
  case UPDATE_TUPLE
  with upd obtain v' where v': "new_record w = Some v'" "length v' = length v" by blast
  have "any_ok (set_lsns l p (LUpdate (new_UpdateLogRecord t v v' (wr_rid w) (tab_name w))))"
    using t sz v'(2)
    by (simp add: upd_ok_def hdr_ok_def upd_simps u32_def log_offsets in_u32_def length_upd_bytes)
  with UPDATE_TUPLE v v' that show thesis by (simp add: log_of_write_def)
next
  case INSERT_TUPLE
  have "any_ok (set_lsns l p (LInsert (InsertLogRecord t v (wr_rid w) (tab_name w))))"
    using t sz row_sized(1) [of v "tab_name w" t l p "wr_rid w" INSERT INSERT] row_sized(2) [of v "tab_name w" t l p "wr_rid w" INSERT]
    by (simp add: InsertLogRecord_def length_row_bytes row_simps row_ok_def hdr_ok_def)
  with INSERT_TUPLE v that show thesis by (simp add: log_of_write_def)
next
  case DELETE_TUPLE
  have "any_ok (set_lsns l p (LDelete (DeleteLogRecord t v (wr_rid w) (tab_name w))))"
    using t sz row_sized(1) [of v "tab_name w" t l p "wr_rid w" DELETE DELETE] row_sized(2) [of v "tab_name w" t l p "wr_rid w" DELETE]
    by (simp add: DeleteLogRecord_def length_row_bytes row_simps row_ok_def hdr_ok_def)
  with DELETE_TUPLE v that show thesis by (simp add: log_of_write_def)
qed

section \<open>Properties\<close>

definition demo_write :: WriteRecord where
  "demo_write = WriteRecord_delete 9 INSERT_TUPLE ''t'' \<lparr>page_no = 1, slot_no = 0\<rparr> [1, 2, 3]"

definition demo_txn :: Transaction where
  "demo_txn = new_Transaction True 0 0 4"

definition log_disk :: DiskManager where
  "log_disk = (one_file_disk LOG_FILE_NAME [])\<lparr>log_fd := 0\<rparr>"

lemma demo_write_log:
  "log_of_write 4 demo_write = Inr (LInsert (InsertLogRecord 4 [1, 2, 3] \<lparr>page_no = 1, slot_no = 0\<rparr> ''t''))"
  by (simp add: log_of_write_def demo_write_def WriteRecord_delete_def)

lemma demo_any_ok:
  "any_ok (LInsert ((InsertLogRecord 4 [1, 2, 3] \<lparr>page_no = 1, slot_no = 0\<rparr> ''t'')\<lparr>lsn := 0, prev_lsn := INVALID_LSN\<rparr>))"
  by (simp add: row_ok_def length_row_bytes demo_defs)

text \<open>
  C9: logging a write of a transaction appends exactly the bytes of its record behind the pending
  log, numbered with the next free lsn and linked to the previous record of the transaction; the
  transaction now points to the new record and the undo link of the new lsn is the old pointer.
\<close>

theorem gen_log_appends:
  assumes ok: "log_ok lm" and log: "log_of_write (txn_id txn) w = Inr log"
    and rok: "any_ok (set_lsns (global_lsn lm) (so_far_lsn txn) log)"
    and room: "room_for lm (set_lsns (global_lsn lm) (so_far_lsn txn) log)"
    and fresh: "lsn_prevlsn_table lm (global_lsn lm) = None"
  shows "\<exists>lm'. gen_log_from_write_set txn w (lm, d) =
        (Inr (global_lsn lm, txn\<lparr>so_far_lsn := global_lsn lm\<rparr>), (lm', d))
    \<and> log_ok lm' \<and> pending lm' = pending lm @ any_bytes (set_lsns (global_lsn lm) (so_far_lsn txn) log)
    \<and> global_lsn lm' = wrap_i32 (global_lsn lm + 1)
    \<and> lsn_prevlsn_table lm' (global_lsn lm) = Some (so_far_lsn txn)"
proof -
  obtain lm' where "gen_log_from_write_set txn w (lm, d) =
      (Inr (global_lsn lm, txn\<lparr>so_far_lsn := global_lsn lm\<rparr>), (lm', d))"
    and "appends lm (set_lsns (global_lsn lm) (so_far_lsn txn) log) lm'"
    and "lsn_prevlsn_table lm' = map_insert (global_lsn lm) (so_far_lsn txn) (lsn_prevlsn_table lm)"
    by (rule gen_log_from_write_set_spec [OF ok log refl rok room], rule that)
  then show ?thesis using fresh by (simp add: appends_def map_insert_def)
qed

theorem gen_log_appends_witness:
  "\<exists>lm'. gen_log_from_write_set demo_txn demo_write (new_LogManager 0 0, log_disk) =
        (Inr (0, demo_txn\<lparr>so_far_lsn := 0\<rparr>), (lm', log_disk)) \<and> global_lsn lm' = 1"
proof -
  have t: "txn_id demo_txn = 4" "so_far_lsn demo_txn = INVALID_LSN" "global_lsn (new_LogManager 0 0) = 0"
    "log_offset (new_LogManager 0 0) = 0" "lsn_prevlsn_table (new_LogManager 0 0) = Map.empty"
    by (simp_all add: demo_txn_def new_Transaction_def new_LogManager_def)
  have room: "room_for (new_LogManager 0 0)
      (LInsert ((InsertLogRecord 4 [1, 2, 3] \<lparr>page_no = 1, slot_no = 0\<rparr> ''t'')\<lparr>lsn := 0, prev_lsn := INVALID_LSN\<rparr>))"
    by (simp add: room_for_def t length_row_bytes InsertLogRecord_def row_simps LOG_BUFFER_SIZE_def PAGE_SIZE_def)
  from gen_log_appends [OF new_LogManager_ok(1), of demo_txn demo_write "LInsert (InsertLogRecord 4 [1, 2, 3] \<lparr>page_no = 1, slot_no = 0\<rparr> ''t'')" 0 0 log_disk]
    demo_any_ok room
  show ?thesis by (auto simp: t demo_write_log wrap_i32_id in_i32_def)
qed

text \<open>
  \<^verbatim>\<open>flush_log_to_disk\<close> moves the pending bytes, all of them and in order, to the end of the log
  file and empties the buffer: nothing of the log is lost or written twice.
\<close>

theorem flush_log_durable:
  assumes "log_ok lm" and "disk_ok d" and "log_fd d \<noteq> -1" and "fd2path d (log_fd d) = Some LOG_FILE_NAME"
    and "files d LOG_FILE_NAME = Some c"
  shows "\<exists>lm' d'. flush_log_to_disk (lm, d) = (Inr (), (lm', d')) \<and> log_ok lm' \<and> pending lm' = []
    \<and> files d' = (files d)(LOG_FILE_NAME \<mapsto> c @ pending lm) \<and> persist_lsn lm' = buffer_lsn lm"
proof -
  obtain lm' d' where "flush_log_to_disk (lm, d) = (Inr (), (lm', d'))" and "log_ok lm'" and "pending lm' = []"
    and "files d' = (files d)(LOG_FILE_NAME \<mapsto> c @ pending lm)" and "persist_lsn lm' = buffer_lsn lm"
    by (rule flush_log_spec [OF assms], rule that)
  then show ?thesis by blast
qed

theorem flush_log_durable_witness:
  "\<exists>lm' d'. flush_log_to_disk ((new_LogManager 0 0)\<lparr>log_offset := 5\<rparr>, log_disk) = (Inr (), (lm', d'))
     \<and> files d' LOG_FILE_NAME = Some (replicate 5 0)"
proof -
  have ok: "log_ok ((new_LogManager 0 0)\<lparr>log_offset := 5\<rparr>)" and p: "pending ((new_LogManager 0 0)\<lparr>log_offset := 5\<rparr>) = replicate 5 0"
    by (simp_all add: log_ok_def pending_def new_LogManager_def LOG_BUFFER_SIZE_def PAGE_SIZE_def take_replicate)
  have "disk_ok log_disk"
    using one_file_disk_ok [of LOG_FILE_NAME "[]"] by (simp add: log_disk_def disk_ok_def fd_entry_def)
  from flush_log_durable [OF ok this, of "[]"] p show ?thesis
    by (auto simp: log_disk_def one_file_disk_def)
qed

text \<open>
  When the record does not fit into the buffer any more, logging it never returns: under the
  latch it already holds, \<^verbatim>\<open>gen_log_from_write_set\<close> calls \<^verbatim>\<open>flush_log_to_disk\<close>, which locks the same
  latch. The same holds for begin, commit and abort records.
\<close>

theorem full_log_buffer_deadlocks:
  assumes "log_ok lm" and "log_of_write (txn_id txn) w = Inr log"
  shows "(LOG_BUFFER_SIZE < int (log_offset lm) + log_tot_len (log_base log) \<longrightarrow>
      fst (gen_log_from_write_set txn w (lm, d)) = Inl SelfDeadlock)
    \<and> (LOG_BUFFER_SIZE < int (log_offset lm) + 24 \<longrightarrow>
      fst (gen_log_commit txn (lm, d)) = Inl SelfDeadlock \<and> fst (gen_log_abort txn (lm, d)) = Inl SelfDeadlock
      \<and> fst (gen_log_bein txn (lm, d)) = Inl SelfDeadlock)"
proof -
  have len: "log_tot_len (log_base (set_lsns l p log)) = log_tot_len (log_base log)" for l p by (cases log) simp_all
  have lt: "\<not> log_latch lm" using assms(1) by (simp add: log_ok_def)
  have "fst (gen_log_from_write_set txn w (lm, d)) = Inl SelfDeadlock"
    if "LOG_BUFFER_SIZE < int (log_offset lm) + log_tot_len (log_base log)"
    using that lt assms(2)
    by (simp add: gen_log_from_write_set_def bindE_def latch_lock_def alloc_lsn_def modify_log_def add_log_full len)
  moreover have "fst (gen_log_plain mk txn (lm, d)) = Inl SelfDeadlock"
    if "LOG_BUFFER_SIZE < int (log_offset lm) + 24" "\<And>a b c. log_tot_len (mk a b c) = 24" for mk
    using that lt by (simp add: gen_log_plain_def bindE_def latch_lock_def alloc_lsn_def add_log_full)
  ultimately show ?thesis
    by (simp add: gen_log_commit_def gen_log_abort_def gen_log_bein_def CommitLogRecord_def AbortLogRecord_def
        BeginLogRecord_def new_LogRecord_def log_offsets)
qed

theorem full_log_buffer_deadlocks_witness:
  "fst (gen_log_from_write_set demo_txn demo_write ((new_LogManager 0 0)\<lparr>log_offset := nat LOG_BUFFER_SIZE\<rparr>, log_disk))
     = Inl SelfDeadlock"
proof -
  let ?lm = "(new_LogManager 0 0)\<lparr>log_offset := nat LOG_BUFFER_SIZE\<rparr>"
  have "log_ok ?lm" by (simp add: log_ok_def new_LogManager_def)
  moreover have "txn_id demo_txn = 4" by (simp add: demo_txn_def new_Transaction_def)
  ultimately show ?thesis
    using full_log_buffer_deadlocks [of ?lm demo_txn demo_write "LInsert (InsertLogRecord 4 [1, 2, 3] \<lparr>page_no = 1, slot_no = 0\<rparr> ''t'')" log_disk]
    by (simp add: demo_write_log InsertLogRecord_def row_simps u32_def log_offsets)
qed

text \<open>
  The \<^verbatim>\<open>undo_next\<close> argument of a compensation record never reaches the log: the record that
  \<^verbatim>\<open>gen_log_insert_CLR\<close> appends has type \<^verbatim>\<open>CLR_DELETE\<close> and the link \<^verbatim>\<open>INVALID_LSN\<close>, and the whole step
  is the same for every value of the argument.
\<close>

theorem clr_undo_next_lost:
  assumes ok: "log_ok lm" and ids: "in_i32 t" "in_i32 (global_lsn lm)" "rid_in_range rid"
    and sz: "log_offset lm + 44 + length v + length tab \<le> nat LOG_BUFFER_SIZE"
  shows "\<exists>lm' r. gen_log_insert_CLR t undo v rid tab (lm, d) = (Inr (global_lsn lm), (lm', d))
    \<and> pending lm' = pending lm @ row_bytes r \<and> log_type r = CLR_DELETE \<and> undo_next r = INVALID_LSN
    \<and> row_value r = v \<and> row_rid r = rid \<and> row_table r = tab
    \<and> gen_log_insert_CLR t undo' v rid tab (lm, d) = (Inr (global_lsn lm), (lm', d))"
proof -
  let ?r = "(row_LogRecord INSERT t v rid tab)\<lparr>log_type := CLR_DELETE, lsn := global_lsn lm\<rparr>"
  have clr: "setCLR (InsertLogRecord t v rid tab) = Inr ((row_LogRecord INSERT t v rid tab)\<lparr>log_type := CLR_DELETE\<rparr>)"
    by (simp add: setCLR_def InsertLogRecord_def row_simps)
  have small: "44 + length v + length tab < 2 ^ 31" using sz by (simp add: LOG_BUFFER_SIZE_def PAGE_SIZE_def)
  have pl: "?r\<lparr>prev_lsn := INVALID_LSN\<rparr> = ?r"
    by (simp add: row_LogRecord_def LogRecord.extend_def new_LogRecord_def)
  have rok: "any_ok (LInsert ?r)"
    using row_sized(1) [OF small ids(1,2) invalid_ids_i32(1) ids(3), of CLR_DELETE INSERT] pl
      row_sized(2) [OF small ids(1,2) invalid_ids_i32(1) ids(3), of INSERT]
    by (simp add: length_row_bytes row_simps)
  have room: "room_for lm (LInsert ?r)" using sz by (simp add: room_for_def length_row_bytes row_simps)
  let ?mk = "\<lambda>l. case setCLR (InsertLogRecord t v rid tab) of Inl e \<Rightarrow> Inl e | Inr r \<Rightarrow> Inr (LInsert (r\<lparr>lsn := l\<rparr>))"
  have mk: "?mk (global_lsn lm) = Inr (LInsert ?r)" by (simp add: clr)
  obtain lm' where g: "gen_log_CLR ?mk undo (lm, d) = (Inr (global_lsn lm), (lm', d))" and a: "appends lm (LInsert ?r) lm'"
    by (rule gen_log_CLR_spec [where mk = ?mk and lm = lm, OF ok mk rok room], rule that)
  have "gen_log_CLR ?mk undo' (lm, d) = (Inr (global_lsn lm), (lm', d))" using g by (simp add: gen_log_CLR_def)
  with g a show ?thesis
    unfolding gen_log_insert_CLR_def by (intro exI [of _ lm'] exI [of _ ?r]) (simp add: appends_def row_simps)
qed

theorem clr_undo_next_lost_witness:
  "\<exists>lm'. gen_log_insert_CLR 4 77 [1] \<lparr>page_no = 1, slot_no = 0\<rparr> ''t'' (new_LogManager 0 0, log_disk) = (Inr 0, (lm', log_disk))"
  using clr_undo_next_lost [OF new_LogManager_ok(1), of 4 0 0 "\<lparr>page_no = 1, slot_no = 0\<rparr>" "[1]" "''t''" 77 log_disk 0]
  by (auto simp: in_i32_def rid_in_range_def new_LogManager_def LOG_BUFFER_SIZE_def PAGE_SIZE_def)

end
