(* ===== verification/Rm_File.thy ===== *)
theory Rm_File
  imports Page_Cache Bitmap Log_Manager
begin

text \<open>
  The record manager: \<^verbatim>\<open>record/rm_defs.h\<close>, \<^verbatim>\<open>rm_file_handle.{h,cpp}\<close>, \<^verbatim>\<open>rm_manager.h\<close> and
  \<^verbatim>\<open>rm_scan.{h,cpp}\<close>. A table file has its header in page 0 and records in pages 1, 2, \dots; a record
  page is a page header of 16 bytes, a bitmap of the occupied slots, and the slots. Pages with a
  free slot form a list through \<^verbatim>\<open>next_free_page_no\<close>. The state of an operation is the buffer pool
  (with the disk), the file header kept by the handle, the log manager and the transaction of the
  context; \<open>ctx\<close> tells whether the context pointer is not null.
\<close>

section \<open>Headers\<close>

definition RM_NO_PAGE :: int where "RM_NO_PAGE = -1"
definition RM_FILE_HDR_PAGE :: int where "RM_FILE_HDR_PAGE = 0"
definition RM_FIRST_RECORD_PAGE :: int where "RM_FIRST_RECORD_PAGE = 1"
definition RM_MAX_RECORD_SIZE :: int where "RM_MAX_RECORD_SIZE = 2048"

record RmFileHdr =
  record_size :: int
  num_pages :: int
  num_records_per_page :: int
  first_free_page_no :: int
  bitmap_size :: int

text \<open>The file header as it lies in memory and on disk.\<close>

definition filehdr_bytes :: "RmFileHdr \<Rightarrow> bytes" where
  "filehdr_bytes h = enc_le 4 (record_size h) @ enc_le 4 (num_pages h) @ enc_le 4 (num_records_per_page h)
     @ enc_le 4 (first_free_page_no h) @ enc_le 4 (bitmap_size h)"

definition filehdr_of_bytes :: "bytes \<Rightarrow> RmFileHdr" where
  "filehdr_of_bytes m =
     \<lparr>record_size = rd_i32 0 m, num_pages = rd_i32 4 m, num_records_per_page = rd_i32 8 m,
      first_free_page_no = rd_i32 12 m, bitmap_size = rd_i32 16 m\<rparr>"

definition sizeof_RmFileHdr :: nat where "sizeof_RmFileHdr = 20"
definition sizeof_RmPageHdr :: nat where "sizeof_RmPageHdr = 16"
definition OFFSET_PAGE_HDR :: nat where "OFFSET_PAGE_HDR = 0"

text \<open>The fields of \<^verbatim>\<open>RmPageHdr\<close> in the bytes of a page.\<close>

definition page_lsn :: "bytes \<Rightarrow> int" where "page_lsn x = rd_i32 OFFSET_PAGE_HDR x"
definition rec_lsn :: "bytes \<Rightarrow> int" where "rec_lsn x = rd_i32 (OFFSET_PAGE_HDR + 4) x"
definition next_free_page_no :: "bytes \<Rightarrow> int" where "next_free_page_no x = rd_i32 (OFFSET_PAGE_HDR + 8) x"
definition num_records :: "bytes \<Rightarrow> int" where "num_records x = rd_i32 (OFFSET_PAGE_HDR + 12) x"

definition set_page_lsn :: "int \<Rightarrow> bytes \<Rightarrow> bytes" where "set_page_lsn v = wr_i32 OFFSET_PAGE_HDR v"
definition set_rec_lsn :: "int \<Rightarrow> bytes \<Rightarrow> bytes" where "set_rec_lsn v = wr_i32 (OFFSET_PAGE_HDR + 4) v"
definition set_next_free :: "int \<Rightarrow> bytes \<Rightarrow> bytes" where "set_next_free v = wr_i32 (OFFSET_PAGE_HDR + 8) v"
definition set_num_records :: "int \<Rightarrow> bytes \<Rightarrow> bytes" where "set_num_records v = wr_i32 (OFFSET_PAGE_HDR + 12) v"

text \<open>\<^verbatim>\<open>RmPageHandle::bitmap\<close> points behind the page header, \<^verbatim>\<open>slots\<close> behind the bitmap.\<close>

definition BITMAP_AT :: nat where "BITMAP_AT = sizeof_RmPageHdr + OFFSET_PAGE_HDR"

definition bitmap_at :: "bytes \<Rightarrow> bytes" where
  "bitmap_at x = drop BITMAP_AT x"

definition put_bitmap :: "bytes \<Rightarrow> bytes \<Rightarrow> bytes" where
  "put_bitmap x bm = take BITMAP_AT x @ bm"

definition get_slot :: "RmFileHdr \<Rightarrow> int \<Rightarrow> nat" where
  "get_slot h i = BITMAP_AT + nat (bitmap_size h) + nat (i * record_size h)"

section \<open>State\<close>

record RmSys =
  rm_bp :: BufferPool
  rm_hdr :: RmFileHdr
  rm_log :: LogManager
  rm_txn :: Transaction

definition in_bp :: "(BufferPool, 'a) stm \<Rightarrow> (RmSys, 'a) stm" where
  "in_bp m s = (case m (rm_bp s) of (r, b) \<Rightarrow> (r, s\<lparr>rm_bp := b\<rparr>))"

definition in_log :: "(log_state, 'a) stm \<Rightarrow> (RmSys, 'a) stm" where
  "in_log m s =
     (case m (rm_log s, disk (rm_bp s)) of (r, (lm, d)) \<Rightarrow> (r, s\<lparr>rm_log := lm, rm_bp := (rm_bp s)\<lparr>disk := d\<rparr>\<rparr>))"

definition set_hdr :: "(RmFileHdr \<Rightarrow> RmFileHdr) \<Rightarrow> (RmSys, unit) stm" where
  "set_hdr g = modifyE (\<lambda>s. s\<lparr>rm_hdr := g (rm_hdr s)\<rparr>)"

definition frame_bytes :: "frame_id_t \<Rightarrow> (RmSys, bytes) stm" where
  "frame_bytes f = getsE (\<lambda>s. frame_data (rm_bp s) f)"

definition frame_pid :: "frame_id_t \<Rightarrow> (RmSys, PageId) stm" where
  "frame_pid f = getsE (\<lambda>s. page_id (pages (rm_bp s) ! f))"

definition poke_frame :: "frame_id_t \<Rightarrow> bytes \<Rightarrow> (RmSys, unit) stm" where
  "poke_frame f x = in_bp (modifyE (poke f x))"

text \<open>\<^verbatim>\<open>buffer_pool_manager_->unpin_page(page->get_page_id(), dirty)\<close>; the result is ignored.\<close>

definition unpin_frame :: "frame_id_t \<Rightarrow> bool \<Rightarrow> (RmSys, unit) stm" where
  "unpin_frame f w = bindE (frame_pid f) (\<lambda>pid. in_bp (unpinE pid w))"

section \<open>RmFileHandle\<close>

definition rm_fetch_page_handle :: "int \<Rightarrow> int \<Rightarrow> (RmSys, frame_id_t) stm" where
  "rm_fetch_page_handle fd pno = bindE (in_bp (fetch_page \<lparr>pid_fd = fd, pid_no = pno\<rparr>)) deref"

definition rm_unpin_page :: "PageId \<Rightarrow> bool \<Rightarrow> (RmSys, unit) stm" where
  "rm_unpin_page pid w = in_bp (\<lambda>b. case unpin_page pid w b of (r, b') \<Rightarrow> if r then (Inr (), b') else (Inl AssertFail, b'))"

definition is_record :: "int \<Rightarrow> Rid \<Rightarrow> (RmSys, bool) stm" where
  "is_record fd rid =
     bindE (rm_fetch_page_handle fd (page_no rid)) (\<lambda>f.
     bindE (frame_bytes f) (\<lambda>x.
     bindE (unpin_frame f False) (\<lambda>_.
     returnE (is_set (bitmap_at x) (nat (slot_no rid))))))"

text \<open>The slot lies inside the page.\<close>

definition slot_in_page :: "RmFileHdr \<Rightarrow> int \<Rightarrow> bool" where
  "slot_in_page h i \<longleftrightarrow> 0 \<le> i \<and> get_slot h i + nat (record_size h) \<le> PAGE_SIZE"

definition check_slot :: "RmFileHdr \<Rightarrow> int \<Rightarrow> (RmSys, unit) stm" where
  "check_slot h i = (if slot_in_page h i then returnE () else throwE OutOfRange)"

definition get_record :: "int \<Rightarrow> Rid \<Rightarrow> (RmSys, bytes) stm" where
  "get_record fd rid =
     bindE (rm_fetch_page_handle fd (page_no rid)) (\<lambda>f.
     bindE (frame_bytes f) (\<lambda>x.
     bindE (getsE rm_hdr) (\<lambda>h.
     bindE (check_slot h (slot_no rid)) (\<lambda>_.
     bindE (unpin_frame f False) (\<lambda>_.
     returnE (mem_get (get_slot h (slot_no rid)) (nat (record_size h)) x))))))"

definition init_page_hdr :: "bytes \<Rightarrow> bytes" where
  "init_page_hdr x = set_rec_lsn (-1) (set_page_lsn (-1) (set_num_records 0 (set_next_free (-1) x)))"

definition fetch_free_page_handle :: "int \<Rightarrow> (RmSys, frame_id_t) stm" where
  "fetch_free_page_handle fd =
     bindE (getsE rm_hdr) (\<lambda>h.
       if first_free_page_no h = -1 then
         bindE (in_bp (new_page fd)) (\<lambda>p.
         bindE (assertE (p \<noteq> None)) (\<lambda>_.
         let (f, pid) = the p in
         bindE (frame_bytes f) (\<lambda>x.
         bindE (poke_frame f (init_page_hdr x)) (\<lambda>_.
         bindE (set_hdr (\<lambda>h. h\<lparr>num_pages := num_pages h + 1, first_free_page_no := pid_no pid\<rparr>)) (\<lambda>_.
         returnE f)))))
       else
         bindE (in_bp (fetch_page \<lparr>pid_fd = fd, pid_no = first_free_page_no h\<rparr>)) (\<lambda>p.
         bindE (assertE (p \<noteq> None)) (\<lambda>_. returnE (the p))))"

text \<open>The part of \<^verbatim>\<open>insert_record\<close> under \<^verbatim>\<open>context != nullptr\<close>; \<open>addr\<close> is the address of the new write record.\<close>

definition log_insert :: "int \<Rightarrow> nat \<Rightarrow> Rid \<Rightarrow> bytes \<Rightarrow> (RmSys, unit) stm" where
  "log_insert fd addr rid rec =
     bindE (getsE rm_txn) (\<lambda>txn.
       if txn_state txn = DEFAULT \<or> txn_state txn = GROWING then
         bindE (in_bp (lift_disk (get_file_name fd))) (\<lambda>table_name.
         let w = WriteRecord_delete addr INSERT_TUPLE table_name rid rec in
         bindE (in_log (gen_log_from_write_set txn w)) (\<lambda>(l, txn').
         modifyE (\<lambda>s. s\<lparr>rm_txn := append_write_record w txn'\<rparr>)))
       else throwE AssertFail)"

definition stamp_lsn :: "lsn_t \<Rightarrow> bool \<Rightarrow> bytes \<Rightarrow> bytes" where
  "stamp_lsn l dirty x =
     (let x1 = set_page_lsn (if page_lsn x > l then page_lsn x else l) x
      in if \<not> dirty then set_rec_lsn l x1 else x1)"

definition page_insert :: "RmFileHdr \<Rightarrow> nat \<Rightarrow> bytes \<Rightarrow> bytes \<Rightarrow> bytes" where
  "page_insert h i buf x =
     (let x1 = mem_put (get_slot h (int i)) (take (nat (record_size h)) buf) x;
          x2 = put_bitmap x1 (bitmap_set (bitmap_at x1) i)
      in set_num_records (num_records x2 + 1) x2)"

definition insert_record :: "int \<Rightarrow> bool \<Rightarrow> nat \<Rightarrow> bytes \<Rightarrow> (RmSys, Rid) stm" where
  "insert_record fd ctx addr buf =
     bindE (fetch_free_page_handle fd) (\<lambda>f.
     bindE (getsE rm_hdr) (\<lambda>h.
     bindE (frame_bytes f) (\<lambda>x.
     bindE (frame_pid f) (\<lambda>pid.
       case List.find (\<lambda>i. \<not> is_set (bitmap_at x) i) [0..<nat (num_records_per_page h)] of
         None \<Rightarrow> throwE AssertFail
       | Some i \<Rightarrow>
           let rid = \<lparr>page_no = pid_no pid, slot_no = int i\<rparr> in
           if length buf < nat (record_size h) then throwE OutOfRange else
           bindE (if ctx then log_insert fd addr rid (take (nat (record_size h)) buf) else returnE ()) (\<lambda>_.
           bindE (getsE (\<lambda>s. (so_far_lsn (rm_txn s), page_dirty (pages (rm_bp s) ! f)))) (\<lambda>(l, dirty).
           let x1 = (if ctx then stamp_lsn l dirty x else x);
               x2 = page_insert h i buf x1 in
           bindE (poke_frame f x2) (\<lambda>_.
           bindE (if num_records x2 = num_records_per_page h
                  then set_hdr (\<lambda>h. h\<lparr>first_free_page_no := next_free_page_no x2\<rparr>) else returnE ()) (\<lambda>_.
           bindE (in_bp (unpinE pid True)) (\<lambda>_.
           returnE rid)))))))))"

text \<open>\<^verbatim>\<open>insert_record(rid, buf)\<close>, used by rollback and recovery: first a loop that may not end.\<close>

partial_function (option) free_page_from :: "int \<Rightarrow> int \<Rightarrow> RmSys \<Rightarrow> ((exc + frame_id_t) \<times> RmSys) option" where
  "free_page_from fd pno s =
     (case fetch_free_page_handle fd s of
        (Inl e, s') \<Rightarrow> Some (Inl e, s')
      | (Inr f, s') \<Rightarrow>
          if pid_no (page_id (pages (rm_bp s') ! f)) < pno then free_page_from fd pno s' else Some (Inr f, s'))"

definition place_record :: "int \<Rightarrow> Rid \<Rightarrow> bytes \<Rightarrow> (RmSys, unit) stm" where
  "place_record fd rid buf =
     bindE (rm_fetch_page_handle fd (page_no rid)) (\<lambda>f.
     bindE (getsE rm_hdr) (\<lambda>h.
     bindE (frame_bytes f) (\<lambda>x.
     bindE (check_slot h (slot_no rid)) (\<lambda>_.
       if length buf < nat (record_size h) then throwE OutOfRange
       else if is_set (bitmap_at x) (nat (slot_no rid)) then
         bindE (poke_frame f (mem_put (get_slot h (slot_no rid)) (take (nat (record_size h)) buf) x)) (\<lambda>_.
         unpin_frame f True)
       else
         let x2 = page_insert h (nat (slot_no rid)) buf x in
         bindE (poke_frame f x2) (\<lambda>_.
         bindE (if num_records x2 = num_records_per_page h
                then set_hdr (\<lambda>h. h\<lparr>first_free_page_no := next_free_page_no x2\<rparr>) else returnE ()) (\<lambda>_.
         unpin_frame f True))))))"

definition insert_record_at :: "int \<Rightarrow> Rid \<Rightarrow> bytes \<Rightarrow> RmSys \<Rightarrow> ((exc + unit) \<times> RmSys) option" where
  "insert_record_at fd rid buf s =
     (case free_page_from fd (page_no rid) s of
        None \<Rightarrow> None
      | Some (Inl e, s') \<Rightarrow> Some (Inl e, s')
      | Some (Inr _, s') \<Rightarrow> Some (place_record fd rid buf s'))"

definition page_delete :: "nat \<Rightarrow> bytes \<Rightarrow> bytes" where
  "page_delete i x =
     (let x1 = put_bitmap x (bitmap_reset (bitmap_at x) i) in set_num_records (num_records x1 - 1) x1)"

text \<open>The common end of the two \<^verbatim>\<open>delete_record\<close> functions: \<open>x\<close> are the bytes of the frame.\<close>

definition finish_delete :: "frame_id_t \<Rightarrow> Rid \<Rightarrow> bytes \<Rightarrow> (RmSys, unit) stm" where
  "finish_delete f rid x =
     bindE (getsE rm_hdr) (\<lambda>h.
       if is_set (bitmap_at x) (nat (slot_no rid)) then
         let x1 = page_delete (nat (slot_no rid)) x in
         bindE (if num_records x1 = num_records_per_page h - 1
                then bindE (poke_frame f (set_next_free (first_free_page_no h) x1)) (\<lambda>_.
                     set_hdr (\<lambda>h. h\<lparr>first_free_page_no := page_no rid\<rparr>))
                else poke_frame f x1) (\<lambda>_.
         unpin_frame f True)
       else throwE AssertFail)"

definition delete_record :: "int \<Rightarrow> bool \<Rightarrow> Rid \<Rightarrow> (RmSys, unit) stm" where
  "delete_record fd ctx rid =
     bindE (rm_fetch_page_handle fd (page_no rid)) (\<lambda>f.
       if \<not> ctx then throwE NullDeref
       else
         bindE (getsE (\<lambda>s. (so_far_lsn (rm_txn s), page_dirty (pages (rm_bp s) ! f), frame_data (rm_bp s) f))) (\<lambda>(l, dirty, x).
         bindE (poke_frame f (stamp_lsn l dirty x)) (\<lambda>_.
         finish_delete f rid (stamp_lsn l dirty x))))"

definition delete_record_recovery :: "int \<Rightarrow> Rid \<Rightarrow> (RmSys, unit) stm" where
  "delete_record_recovery fd rid =
     bindE (rm_fetch_page_handle fd (page_no rid)) (\<lambda>f. bindE (frame_bytes f) (\<lambda>x. finish_delete f rid x))"

definition update_record :: "int \<Rightarrow> bool \<Rightarrow> Rid \<Rightarrow> bytes \<Rightarrow> (RmSys, unit) stm" where
  "update_record fd ctx rid buf =
     bindE (rm_fetch_page_handle fd (page_no rid)) (\<lambda>f.
       if \<not> ctx then throwE NullDeref
       else
         bindE (getsE (\<lambda>s. (so_far_lsn (rm_txn s), page_dirty (pages (rm_bp s) ! f), frame_data (rm_bp s) f))) (\<lambda>(l, dirty, x).
         bindE (getsE rm_hdr) (\<lambda>h.
         let x1 = stamp_lsn l dirty x in
         bindE (poke_frame f x1) (\<lambda>_.
           if is_set (bitmap_at x1) (nat (slot_no rid)) then
             bindE (check_slot h (slot_no rid)) (\<lambda>_.
               if length buf < nat (record_size h) then throwE OutOfRange
               else bindE (poke_frame f (mem_put (get_slot h (slot_no rid)) (take (nat (record_size h)) buf) x1)) (\<lambda>_.
                    unpin_frame f True))
           else throwE AssertFail))))"

section \<open>RmManager\<close>

definition new_RmFileHdr :: "int \<Rightarrow> RmFileHdr" where
  "new_RmFileHdr rs =
     (let n = (int BITMAP_WIDTH * (int PAGE_SIZE - 1 - int sizeof_RmFileHdr) + 1) div (1 + rs * int BITMAP_WIDTH)
      in \<lparr>record_size = rs, num_pages = 1, num_records_per_page = n, first_free_page_no = RM_NO_PAGE,
          bitmap_size = (n + int BITMAP_WIDTH - 1) div int BITMAP_WIDTH\<rparr>)"

definition rm_create_file :: "string \<Rightarrow> int \<Rightarrow> (DiskManager, unit) stm" where
  "rm_create_file filename rs =
     (if rs < 1 \<or> rs > RM_MAX_RECORD_SIZE then throwE (Throw (InvalidRecordSizeError rs))
      else
        bindE (create_file filename) (\<lambda>_.
        bindE (open_file filename) (\<lambda>fd.
        bindE (write_page fd RM_FILE_HDR_PAGE (filehdr_bytes (new_RmFileHdr rs))) (\<lambda>_.
        close_file fd))))"

definition rm_destroy_file :: "string \<Rightarrow> (DiskManager, unit) stm" where
  "rm_destroy_file filename = destroy_file filename"

text \<open>\<^verbatim>\<open>open_file\<close> with the constructor of \<^verbatim>\<open>RmFileHandle\<close>: the descriptor and the header read from page 0.\<close>

definition rm_open_file :: "string \<Rightarrow> (DiskManager, int \<times> RmFileHdr) stm" where
  "rm_open_file filename =
     bindE (open_file filename) (\<lambda>fd.
     bindE (read_page fd RM_FILE_HDR_PAGE sizeof_RmFileHdr) (\<lambda>m.
     bindE (modifyE (set_fd2pageno fd (num_pages (filehdr_of_bytes m)))) (\<lambda>_.
     returnE (fd, filehdr_of_bytes m))))"

definition rm_close_file :: "int \<Rightarrow> (RmSys, unit) stm" where
  "rm_close_file fd =
     bindE (getsE rm_hdr) (\<lambda>h.
     bindE (in_bp (lift_disk (write_page fd RM_FILE_HDR_PAGE (filehdr_bytes h)))) (\<lambda>_.
     bindE (in_bp (flush_all_pages fd)) (\<lambda>_.
     bindE (in_bp (free_all_pages fd)) (\<lambda>_.
     in_bp (lift_disk (close_file fd))))))"

section \<open>RmScan\<close>

text \<open>The position of the scan; the loop over the pages from page \<open>i\<close>, the first one from slot \<open>j\<close>.\<close>

function scan_from :: "int \<Rightarrow> RmFileHdr \<Rightarrow> int \<Rightarrow> nat \<Rightarrow> (RmSys, Rid) stm" where
  "scan_from fd h i j =
     (if i < num_pages h then
        bindE (rm_fetch_page_handle fd i) (\<lambda>f.
        bindE (frame_bytes f) (\<lambda>x.
        bindE (unpin_frame f False) (\<lambda>_.
          case List.find (\<lambda>k. is_set (bitmap_at x) k) [j..<nat (num_records_per_page h)] of
            Some k \<Rightarrow> returnE \<lparr>page_no = i, slot_no = int k\<rparr>
          | None \<Rightarrow> scan_from fd h (i + 1) 0)))
      else returnE \<lparr>page_no = INVALID_PAGE_ID, slot_no = -1\<rparr>)"
  by auto
termination by (relation "measure (\<lambda>(fd, h, i, j). nat (num_pages h - i))") auto

declare scan_from.simps [simp del]

definition RmScan_init :: "int \<Rightarrow> (RmSys, Rid) stm" where
  "RmScan_init fd = bindE (getsE rm_hdr) (\<lambda>h. scan_from fd h 1 0)"

definition RmScan_next :: "int \<Rightarrow> Rid \<Rightarrow> (RmSys, Rid) stm" where
  "RmScan_next fd rid = bindE (getsE rm_hdr) (\<lambda>h. scan_from fd h (page_no rid) (nat (slot_no rid + 1)))"

definition RmScan_is_end :: "Rid \<Rightarrow> bool" where
  "RmScan_is_end rid \<longleftrightarrow> page_no rid = INVALID_PAGE_ID \<and> slot_no rid = -1"

end
