(* ===== verification/Rm_Page.thy ===== *)
theory Rm_Page
  imports Rm_File
begin

text \<open>
  One record page: its header fields, bitmap and slots lie in disjoint byte ranges, and the writes
  of the file handle act on the map from occupied slots to records as expected.
\<close>

section \<open>The layout fits\<close>

definition hdr_wf :: "RmFileHdr \<Rightarrow> bool" where
  "hdr_wf h \<longleftrightarrow> 1 \<le> record_size h \<and> 1 \<le> num_records_per_page h \<and> 0 \<le> bitmap_size h
     \<and> num_records_per_page h \<le> 8 * bitmap_size h
     \<and> int BITMAP_AT + bitmap_size h + num_records_per_page h * record_size h \<le> int PAGE_SIZE"

lemma BITMAP_AT_eq: "BITMAP_AT = 16"
  by (simp add: BITMAP_AT_def sizeof_RmPageHdr_def OFFSET_PAGE_HDR_def)

lemma new_RmFileHdr_wf:
  assumes "1 \<le> rs" and "rs \<le> RM_MAX_RECORD_SIZE"
  shows "hdr_wf (new_RmFileHdr rs)"
proof -
  let ?n = "32601 div (1 + rs * 8)"
  have n: "num_records_per_page (new_RmFileHdr rs) = ?n" "bitmap_size (new_RmFileHdr rs) = (?n + 7) div 8"
    "record_size (new_RmFileHdr rs) = rs"
    by (simp_all add: new_RmFileHdr_def Let_def BITMAP_WIDTH_def PAGE_SIZE_def sizeof_RmFileHdr_def)
  have rs: "rs \<le> 2048" using assms(2) by (simp add: RM_MAX_RECORD_SIZE_def)
  have pos: "1 \<le> ?n" using assms(1) rs by (simp add: pos_imp_zdiv_pos_iff int_one_le_iff_zero_less)
  have "?n * (1 + rs * 8) \<le> 32601"
    using div_mult_mod_eq [of 32601 "1 + rs * 8"] pos_mod_sign [of "1 + rs * 8" 32601] assms(1) by linarith
  then have "?n + 8 * (?n * rs) \<le> 32601" by (simp add: algebra_simps)
  moreover have "8 * ((?n + 7) div 8) \<le> ?n + 7" "?n \<le> 8 * ((?n + 7) div 8)"
    using div_mult_mod_eq [of "?n + 7" 8] pos_mod_sign [of 8 "?n + 7"] pos_mod_bound [of 8 "?n + 7"] by linarith+
  ultimately show ?thesis
    using assms(1) pos unfolding hdr_wf_def n by (simp add: BITMAP_AT_eq PAGE_SIZE_def)
qed

lemma slot_range:
  assumes "hdr_wf h" and "i < nat (num_records_per_page h)"
  shows "get_slot h (int i) + nat (record_size h) \<le> PAGE_SIZE"
    and "16 + nat (bitmap_size h) \<le> get_slot h (int i)" and "slot_in_page h (int i)"
proof -
  have "int i * record_size h + record_size h \<le> num_records_per_page h * record_size h"
    using assms mult_right_mono [of "int i + 1" "num_records_per_page h" "record_size h"]
    by (simp add: hdr_wf_def algebra_simps)
  with assms(1) have "16 + bitmap_size h + (int i * record_size h + record_size h) \<le> int PAGE_SIZE"
    by (simp add: hdr_wf_def BITMAP_AT_eq)
  moreover have "0 \<le> int i * record_size h" "0 \<le> record_size h" "0 \<le> bitmap_size h"
    using assms(1) by (simp_all add: hdr_wf_def)
  ultimately show le: "get_slot h (int i) + nat (record_size h) \<le> PAGE_SIZE"
    unfolding get_slot_def BITMAP_AT_eq by linarith
  then show "slot_in_page h (int i)" by (simp add: slot_in_page_def)
  show "16 + nat (bitmap_size h) \<le> get_slot h (int i)" by (simp add: get_slot_def BITMAP_AT_eq)
qed

lemma slots_disjoint:
  assumes "hdr_wf h" and "i < j"
  shows "get_slot h (int i) + nat (record_size h) \<le> get_slot h (int j)"
proof -
  have "int i * record_size h + record_size h \<le> int j * record_size h"
    using assms mult_right_mono [of "int i + 1" "int j" "record_size h"] by (simp add: hdr_wf_def algebra_simps)
  moreover have "0 \<le> int i * record_size h" "0 \<le> int j * record_size h" "0 \<le> record_size h"
    using assms(1) by (simp_all add: hdr_wf_def)
  ultimately show ?thesis unfolding get_slot_def by linarith
qed

section \<open>Disjoint accesses\<close>

lemmas page_field_defs = page_lsn_def rec_lsn_def next_free_page_no_def num_records_def set_page_lsn_def
  set_rec_lsn_def set_next_free_def set_num_records_def OFFSET_PAGE_HDR_def

lemma length_setters [simp]:
  assumes "length x = PAGE_SIZE"
  shows "length (set_page_lsn v x) = PAGE_SIZE" "length (set_rec_lsn v x) = PAGE_SIZE"
    "length (set_next_free v x) = PAGE_SIZE" "length (set_num_records v x) = PAGE_SIZE"
  using assms by (simp_all add: page_field_defs mem_simps PAGE_SIZE_def)

lemma field_reads [simp]:
  assumes "length x = PAGE_SIZE"
  shows "num_records (set_page_lsn v x) = num_records x" "num_records (set_rec_lsn v x) = num_records x"
    "num_records (set_next_free v x) = num_records x" "in_i32 v \<Longrightarrow> num_records (set_num_records v x) = v"
    "next_free_page_no (set_page_lsn v x) = next_free_page_no x" "next_free_page_no (set_rec_lsn v x) = next_free_page_no x"
    "next_free_page_no (set_num_records v x) = next_free_page_no x" "in_i32 v \<Longrightarrow> next_free_page_no (set_next_free v x) = v"
  using assms by (simp_all add: page_field_defs mem_simps PAGE_SIZE_def)

lemma drop_wr_i32: "off + 4 \<le> k \<Longrightarrow> k \<le> length x \<Longrightarrow> drop k (wr_i32 off v x) = drop k x"
  by (simp add: wr_i32_def mem_put_def)

lemma bitmap_at_setters [simp]:
  assumes "length x = PAGE_SIZE"
  shows "bitmap_at (set_page_lsn v x) = bitmap_at x" "bitmap_at (set_rec_lsn v x) = bitmap_at x"
    "bitmap_at (set_next_free v x) = bitmap_at x" "bitmap_at (set_num_records v x) = bitmap_at x"
  using assms by (simp_all add: page_field_defs bitmap_at_def BITMAP_AT_eq drop_wr_i32 PAGE_SIZE_def)

definition slot_bytes :: "RmFileHdr \<Rightarrow> bytes \<Rightarrow> nat \<Rightarrow> bytes" where
  "slot_bytes h x i = mem_get (get_slot h (int i)) (nat (record_size h)) x"

lemma get_slot_ge: "16 \<le> get_slot h i"
  by (simp add: get_slot_def BITMAP_AT_eq)

lemma slot_bytes_setters [simp]:
  assumes "length x = PAGE_SIZE"
  shows "slot_bytes h (set_page_lsn v x) i = slot_bytes h x i" "slot_bytes h (set_rec_lsn v x) i = slot_bytes h x i"
    "slot_bytes h (set_next_free v x) i = slot_bytes h x i" "slot_bytes h (set_num_records v x) i = slot_bytes h x i"
proof -
  have "mem_get k n (wr_i32 off v x) = mem_get k n x" if "off + 4 \<le> 16" "16 \<le> k" for off k n
    using that assms by (simp add: wr_i32_def mem_put_def mem_get_def PAGE_SIZE_def)
  then show "slot_bytes h (set_page_lsn v x) i = slot_bytes h x i" "slot_bytes h (set_rec_lsn v x) i = slot_bytes h x i"
    "slot_bytes h (set_next_free v x) i = slot_bytes h x i" "slot_bytes h (set_num_records v x) i = slot_bytes h x i"
    using get_slot_ge by (simp_all add: page_field_defs slot_bytes_def)
qed

lemma length_bitmap_at: "length x = PAGE_SIZE \<Longrightarrow> length (bitmap_at x) = PAGE_SIZE - 16"
  by (simp add: bitmap_at_def BITMAP_AT_eq)

lemma bitmap_fits: "hdr_wf h \<Longrightarrow> length x = PAGE_SIZE \<Longrightarrow> fits (bitmap_at x) (nat (num_records_per_page h))"
proof (rule fits_if_bytes)
  assume h: "hdr_wf h" and "length x = PAGE_SIZE"
  have "0 \<le> num_records_per_page h * record_size h" using h by (simp add: hdr_wf_def)
  with h have "bitmap_size h \<le> int PAGE_SIZE - 16" unfolding hdr_wf_def BITMAP_AT_eq by linarith
  moreover have "num_records_per_page h \<le> 8 * bitmap_size h" using h by (simp add: hdr_wf_def)
  ultimately show "nat (num_records_per_page h) \<le> 8 * length (bitmap_at x)"
    using \<open>length x = PAGE_SIZE\<close> by (simp add: length_bitmap_at PAGE_SIZE_def)
qed

text \<open>Bitmap updates as single-byte updates of the page.\<close>

lemma put_bitmap_simps:
  assumes "length x = PAGE_SIZE" and "length bm = PAGE_SIZE - 16"
  shows "bitmap_at (put_bitmap x bm) = bm" "length (put_bitmap x bm) = PAGE_SIZE"
    "num_records (put_bitmap x bm) = num_records x" "next_free_page_no (put_bitmap x bm) = next_free_page_no x"
  using assms
  by (simp_all add: put_bitmap_def bitmap_at_def BITMAP_AT_eq PAGE_SIZE_def page_field_defs rd_i32_def mem_get_def drop_take)

lemma slot_bytes_put_bitmap:
  assumes "hdr_wf h" and "length x = PAGE_SIZE" and "p < nat (num_records_per_page h)"
    and "bm = (bitmap_at x)[get_bucket p := w]"
  shows "slot_bytes h (put_bitmap x bm) i = slot_bytes h x i"
proof -
  have "p div 8 < nat (bitmap_size h)" using assms(1,3) by (auto simp: hdr_wf_def)
  then have k: "16 + get_bucket p < get_slot h (int i)"
    by (simp add: get_bucket_def BITMAP_WIDTH_def get_slot_def BITMAP_AT_eq)
  then have "drop (get_slot h (int i)) (put_bitmap x bm) = drop (get_slot h (int i)) x"
    using assms(2,4) by (simp add: put_bitmap_def bitmap_at_def BITMAP_AT_eq PAGE_SIZE_def drop_update_cancel)
  then show ?thesis by (simp add: slot_bytes_def mem_get_def)
qed

lemma is_set_after_slot_write:
  assumes h: "hdr_wf h" and len: "length x = PAGE_SIZE" and i: "i < nat (num_records_per_page h)"
    and v: "length v = nat (record_size h)" and p: "p < nat (num_records_per_page h)"
  shows "is_set (bitmap_at (mem_put (get_slot h (int i)) v x)) p = is_set (bitmap_at x) p"
proof -
  have "p div 8 < nat (bitmap_size h)" using h p by (auto simp: hdr_wf_def)
  then have k: "16 + p div 8 < get_slot h (int i)" by (simp add: get_slot_def BITMAP_AT_eq)
  moreover have "get_slot h (int i) + length v \<le> length x" using slot_range(1) [OF h i] v len by simp
  ultimately show ?thesis by (simp add: is_set_bit bitmap_at_def BITMAP_AT_eq nth_mem_put mem_simps)
qed

section \<open>The records of a page\<close>

definition page_recs :: "RmFileHdr \<Rightarrow> bytes \<Rightarrow> nat \<rightharpoonup> bytes" where
  "page_recs h x i = (if i < nat (num_records_per_page h) \<and> is_set (bitmap_at x) i then Some (slot_bytes h x i) else None)"

definition page_wf :: "RmFileHdr \<Rightarrow> bytes \<Rightarrow> bool" where
  "page_wf h x \<longleftrightarrow> length x = PAGE_SIZE
     \<and> num_records x = int (card (bits_of (bitmap_at x) (nat (num_records_per_page h))))"

lemma page_wf_len [dest]: "page_wf h x \<Longrightarrow> length x = PAGE_SIZE"
  by (simp add: page_wf_def)

lemma page_wf_stamp [simp]:
  assumes "page_wf h x"
  shows "page_wf h (set_page_lsn v x)" "page_wf h (set_rec_lsn v x)" "page_wf h (set_next_free v x)"
    "page_recs h (set_page_lsn v x) = page_recs h x" "page_recs h (set_rec_lsn v x) = page_recs h x"
    "page_recs h (set_next_free v x) = page_recs h x"
  using assms by (simp_all add: page_wf_def page_recs_def fun_eq_iff)

lemma stamp_lsn_page:
  assumes "page_wf h x"
  shows "page_wf h (stamp_lsn l w x)" "page_recs h (stamp_lsn l w x) = page_recs h x"
    "next_free_page_no (stamp_lsn l w x) = next_free_page_no x" "num_records (stamp_lsn l w x) = num_records x"
  using assms page_wf_len [OF assms] by (simp_all add: stamp_lsn_def Let_def)

lemma slot_bytes_write:
  assumes h: "hdr_wf h" and len: "length x = PAGE_SIZE" and i: "i < nat (num_records_per_page h)"
    and j: "j < nat (num_records_per_page h)" and v: "length v = nat (record_size h)"
  shows "slot_bytes h (mem_put (get_slot h (int i)) v x) j = (if j = i then v else slot_bytes h x j)"
proof -
  note ri = slot_range(1) [OF h i] and rj = slot_range(1) [OF h j]
  consider "j = i" | "j < i" | "i < j" by linarith
  then show ?thesis
  proof cases
    case 1
    then show ?thesis using ri len v by (simp add: slot_bytes_def mem_simps)
  next
    case 2
    with slots_disjoint [OF h 2] show ?thesis using ri len v by (simp add: slot_bytes_def mem_simps)
  next
    case 3
    with slots_disjoint [OF h 3] show ?thesis using ri rj len v by (simp add: slot_bytes_def mem_simps)
  qed
qed

lemma slot_write_page:
  assumes h: "hdr_wf h" and wf: "page_wf h x" and i: "i < nat (num_records_per_page h)" and v: "length v = nat (record_size h)"
  shows "page_wf h (mem_put (get_slot h (int i)) v x)"
    and "is_set (bitmap_at x) i \<Longrightarrow> page_recs h (mem_put (get_slot h (int i)) v x) = (page_recs h x)(i \<mapsto> v)"
    and "num_records (mem_put (get_slot h (int i)) v x) = num_records x"
    and "next_free_page_no (mem_put (get_slot h (int i)) v x) = next_free_page_no x"
proof -
  note len = page_wf_len [OF wf] and ri = slot_range [OF h i]
  have bits: "bits_of (bitmap_at (mem_put (get_slot h (int i)) v x)) (nat (num_records_per_page h))
      = bits_of (bitmap_at x) (nat (num_records_per_page h))"
    using is_set_after_slot_write [OF h len i v] by (auto simp: bits_of_def)
  show num: "num_records (mem_put (get_slot h (int i)) v x) = num_records x"
    and "next_free_page_no (mem_put (get_slot h (int i)) v x) = next_free_page_no x"
    using ri(1) v len get_slot_ge [of h "int i"] by (simp_all add: page_field_defs mem_simps PAGE_SIZE_def)
  have "length (mem_put (get_slot h (int i)) v x) = PAGE_SIZE" using ri(1) v len by (simp add: mem_simps)
  then show "page_wf h (mem_put (get_slot h (int i)) v x)" using wf num bits by (simp add: page_wf_def)
  show "page_recs h (mem_put (get_slot h (int i)) v x) = (page_recs h x)(i \<mapsto> v)" if "is_set (bitmap_at x) i"
    using that is_set_after_slot_write [OF h len i v] slot_bytes_write [OF h len i _ v] i
    by (auto simp: page_recs_def fun_eq_iff)
qed

lemma num_records_bound:
  assumes "page_wf h x" and "hdr_wf h"
  shows "0 \<le> num_records x" "num_records x \<le> num_records_per_page h" "num_records_per_page h \<le> 32768"
proof -
  show "0 \<le> num_records x" "num_records x \<le> num_records_per_page h"
    using assms card_bits_of_le [of "bitmap_at x" "nat (num_records_per_page h)"] by (auto simp: page_wf_def hdr_wf_def)
  have "num_records_per_page h * 1 \<le> num_records_per_page h * record_size h"
    using assms(2) by (intro mult_left_mono) (auto simp: hdr_wf_def)
  moreover have "int BITMAP_AT + bitmap_size h + num_records_per_page h * record_size h \<le> int PAGE_SIZE"
    "0 \<le> bitmap_size h"
    using assms(2) unfolding hdr_wf_def by blast+
  ultimately show "num_records_per_page h \<le> 32768" unfolding PAGE_SIZE_def by linarith
qed

lemma page_insert_page:
  assumes h: "hdr_wf h" and wf: "page_wf h x" and i: "i < nat (num_records_per_page h)"
    and free: "\<not> is_set (bitmap_at x) i" and buf: "nat (record_size h) \<le> length buf"
  shows "page_wf h (page_insert h i buf x)"
    and "page_recs h (page_insert h i buf x) = (page_recs h x)(i \<mapsto> take (nat (record_size h)) buf)"
    and "num_records (page_insert h i buf x) = num_records x + 1"
    and "next_free_page_no (page_insert h i buf x) = next_free_page_no x"
proof -
  let ?v = "take (nat (record_size h)) buf" and ?n = "nat (num_records_per_page h)"
  let ?x1 = "mem_put (get_slot h (int i)) ?v x"
  let ?bm = "bitmap_set (bitmap_at ?x1) i"
  let ?x2 = "put_bitmap ?x1 ?bm"
  have v: "length ?v = nat (record_size h)" using buf by simp
  note w1 = slot_write_page [OF h wf i v] and len = page_wf_len [OF wf]
  have len1: "length ?x1 = PAGE_SIZE" using w1(1) by (simp add: page_wf_def)
  have "length ?bm = PAGE_SIZE - 16" using len1 by (simp add: length_bitmap_at)
  note p2 = put_bitmap_simps [OF len1 this]
  have fit: "fits (bitmap_at ?x1) ?n" by (rule bitmap_fits [OF h len1])
  have set1: "is_set (bitmap_at ?x1) p = is_set (bitmap_at x) p" if "p < ?n" for p
    by (rule is_set_after_slot_write [OF h len i v that])
  have bits: "bits_of ?bm ?n = insert i (bits_of (bitmap_at x) ?n)"
    using bits_of_set [OF fit i] set1 by (auto simp: bits_of_def)
  have ni: "i \<notin> bits_of (bitmap_at x) ?n" using free by (simp add: bits_of_def)
  have r: "in_i32 (num_records x + 1)" using num_records_bound [OF wf h] by (simp add: in_i32_def)
  have pi: "page_insert h i buf x = set_num_records (num_records ?x2 + 1) ?x2"
    by (simp add: page_insert_def Let_def)
  have nr: "num_records ?x2 = num_records x" using p2(3) w1(3) by simp
  show num: "num_records (page_insert h i buf x) = num_records x + 1" using r p2(2) by (simp add: pi nr)
  show "next_free_page_no (page_insert h i buf x) = next_free_page_no x" using p2(2,4) w1(4) by (simp add: pi)
  show "page_wf h (page_insert h i buf x)"
    using wf num p2(1,2) bits ni by (simp add: page_wf_def pi)
  show "page_recs h (page_insert h i buf x) = (page_recs h x)(i \<mapsto> ?v)"
  proof
    fix j
    have "slot_bytes h ?x2 j = slot_bytes h ?x1 j"
      by (rule slot_bytes_put_bitmap [OF h len1 i]) (simp add: bitmap_set_def)
    moreover have "j < ?n \<Longrightarrow> is_set ?bm j \<longleftrightarrow> j = i \<or> is_set (bitmap_at x) j"
      using bits by (auto simp: bits_of_def)
    ultimately show "page_recs h (page_insert h i buf x) j = ((page_recs h x)(i \<mapsto> ?v)) j"
      using p2(1,2) i slot_bytes_write [OF h len i _ v, of j] by (auto simp: page_recs_def pi)
  qed
qed

lemma page_delete_page:
  assumes h: "hdr_wf h" and wf: "page_wf h x" and i: "i < nat (num_records_per_page h)" and set: "is_set (bitmap_at x) i"
  shows "page_wf h (page_delete i x)" and "page_recs h (page_delete i x) = (page_recs h x)(i := None)"
    and "num_records (page_delete i x) = num_records x - 1"
    and "next_free_page_no (page_delete i x) = next_free_page_no x"
proof -
  let ?n = "nat (num_records_per_page h)" and ?bm = "bitmap_reset (bitmap_at x) i"
  let ?x1 = "put_bitmap x ?bm"
  note len = page_wf_len [OF wf]
  have "length ?bm = PAGE_SIZE - 16" using len by (simp add: length_bitmap_at)
  note p1 = put_bitmap_simps [OF len this]
  have fit: "fits (bitmap_at x) ?n" by (rule bitmap_fits [OF h len])
  have bits: "bits_of ?bm ?n = bits_of (bitmap_at x) ?n - {i}" by (rule bits_of_reset [OF fit i])
  have ii: "i \<in> bits_of (bitmap_at x) ?n" using set i by (simp add: bits_of_def)
  then have card: "0 < card (bits_of (bitmap_at x) ?n)" by (auto simp: card_gt_0_iff)
  have r: "in_i32 (num_records x - 1)" using num_records_bound [OF wf h] by (simp add: in_i32_def)
  have pd: "page_delete i x = set_num_records (num_records ?x1 - 1) ?x1" by (simp add: page_delete_def Let_def)
  show num: "num_records (page_delete i x) = num_records x - 1" using r p1(2,3) by (simp add: pd)
  show "next_free_page_no (page_delete i x) = next_free_page_no x" using p1(2,4) by (simp add: pd)
  show "page_wf h (page_delete i x)"
    using wf num p1(1,2) bits ii card by (simp add: page_wf_def pd of_nat_diff)
  show "page_recs h (page_delete i x) = (page_recs h x)(i := None)"
  proof
    fix j
    have "slot_bytes h ?x1 j = slot_bytes h x j"
      by (rule slot_bytes_put_bitmap [OF h len i]) (simp add: bitmap_reset_def)
    moreover have "j < ?n \<Longrightarrow> is_set ?bm j \<longleftrightarrow> j \<noteq> i \<and> is_set (bitmap_at x) j"
      using bits by (auto simp: bits_of_def)
    ultimately show "page_recs h (page_delete i x) j = ((page_recs h x)(i := None)) j"
      using p1(1,2) by (auto simp: page_recs_def pd)
  qed
qed

lemma init_page:
  assumes h: "hdr_wf h"
  shows "page_wf h (init_page_hdr zero_page)" and "page_recs h (init_page_hdr zero_page) = Map.empty"
    and "num_records (init_page_hdr zero_page) = 0" and "next_free_page_no (init_page_hdr zero_page) = -1"
proof -
  have len: "length zero_page = PAGE_SIZE" by (simp add: zero_page_def)
  have i: "in_i32 0" "in_i32 (-1)" by (simp_all add: in_i32_def)
  have bm: "bitmap_at (init_page_hdr zero_page) = bitmap_at zero_page" using len by (simp add: init_page_hdr_def)
  have zero: "\<not> is_set (bitmap_at zero_page) p" if "p < nat (num_records_per_page h)" for p
  proof -
    have "get_bucket p < length (bitmap_at zero_page)" using bitmap_fits [OF h len] that by (simp add: fits_def)
    then show ?thesis
      by (simp add: is_set_bit get_bucket_def BITMAP_WIDTH_def bitmap_at_def BITMAP_AT_eq zero_page_def)
  qed
  show num: "num_records (init_page_hdr zero_page) = 0" and "next_free_page_no (init_page_hdr zero_page) = -1"
    using len i by (simp_all add: init_page_hdr_def)
  show "page_recs h (init_page_hdr zero_page) = Map.empty" using zero by (auto simp: page_recs_def bm)
  have "bits_of (bitmap_at zero_page) (nat (num_records_per_page h)) = {}" using zero by (auto simp: bits_of_def)
  moreover have "length (init_page_hdr zero_page) = PAGE_SIZE" using len by (simp add: init_page_hdr_def)
  ultimately show "page_wf h (init_page_hdr zero_page)" by (simp add: page_wf_def bm num)
qed

end
