(* ===== verification/Rm_Table.thy ===== *)
theory Rm_Table
  imports Rm_Page
begin

text \<open>
  The pages of a table file taken together, still as plain bytes: a partial map from page numbers
  to page contents with the file header. The invariant says that the record pages are well formed
  and that the list through \<^verbatim>\<open>next_free_page_no\<close> holds exactly the pages with a free slot; the
  abstraction is the map from record identifiers to records.
\<close>

section \<open>The free list and the records of a file\<close>

type_synonym page_map = "int \<Rightarrow> bytes option"

fun chain :: "page_map \<Rightarrow> int \<Rightarrow> int list \<Rightarrow> bool" where
  "chain g p [] \<longleftrightarrow> p = RM_NO_PAGE"
| "chain g p (q # qs) \<longleftrightarrow> p = q \<and> (\<exists>x. g q = Some x \<and> chain g (next_free_page_no x) qs)"

definition record_page :: "RmFileHdr \<Rightarrow> int \<Rightarrow> bool" where
  "record_page h p \<longleftrightarrow> 1 \<le> p \<and> p < num_pages h"

definition open_pages :: "RmFileHdr \<Rightarrow> page_map \<Rightarrow> int set" where
  "open_pages h g = {p. record_page h p \<and> (\<exists>x. g p = Some x \<and> num_records x < num_records_per_page h)}"

definition file_ok :: "RmFileHdr \<Rightarrow> page_map \<Rightarrow> bool" where
  "file_ok h g \<longleftrightarrow> hdr_wf h \<and> 1 \<le> num_pages h
     \<and> (\<forall>p. record_page h p \<longrightarrow> (\<exists>x. g p = Some x \<and> page_wf h x))
     \<and> (\<exists>ps. chain g (first_free_page_no h) ps \<and> distinct ps \<and> set ps = open_pages h g)"

definition file_recs :: "RmFileHdr \<Rightarrow> page_map \<Rightarrow> Rid \<rightharpoonup> bytes" where
  "file_recs h g rid =
     (if record_page h (page_no rid) \<and> 0 \<le> slot_no rid
      then case g (page_no rid) of None \<Rightarrow> None | Some x \<Rightarrow> page_recs h x (nat (slot_no rid)) else None)"

text \<open>Only the fields of the header that describe the layout matter for a single page.\<close>

definition same_layout :: "RmFileHdr \<Rightarrow> RmFileHdr \<Rightarrow> bool" where
  "same_layout h h' \<longleftrightarrow> record_size h' = record_size h \<and> num_records_per_page h' = num_records_per_page h
     \<and> bitmap_size h' = bitmap_size h"

lemma same_layout_simps:
  assumes "same_layout h h'"
  shows "hdr_wf h' = hdr_wf h" "get_slot h' = get_slot h" "slot_bytes h' = slot_bytes h" "page_recs h' = page_recs h"
    "page_wf h' = page_wf h"
proof -
  show gs: "get_slot h' = get_slot h" using assms by (auto simp: same_layout_def get_slot_def fun_eq_iff)
  show sb: "slot_bytes h' = slot_bytes h" using assms gs by (auto simp: same_layout_def slot_bytes_def fun_eq_iff)
  show "hdr_wf h' = hdr_wf h" "page_wf h' = page_wf h" using assms by (auto simp: same_layout_def hdr_wf_def page_wf_def fun_eq_iff)
  show "page_recs h' = page_recs h" using assms sb by (auto simp: same_layout_def page_recs_def fun_eq_iff)
qed

lemma same_layout_upd [simp]:
  "same_layout h (h\<lparr>first_free_page_no := v\<rparr>)" "same_layout h (h\<lparr>num_pages := k, first_free_page_no := v\<rparr>)" "same_layout h h"
  by (simp_all add: same_layout_def)

lemma chain_upd_notin: "q \<notin> set ps \<Longrightarrow> chain (g(q \<mapsto> y)) p ps = chain g p ps"
  by (induction ps arbitrary: p) auto

lemma chain_upd_same_next:
  "g q = Some x \<Longrightarrow> next_free_page_no y = next_free_page_no x \<Longrightarrow> chain (g(q \<mapsto> y)) p ps = chain g p ps"
  by (induction ps arbitrary: p) auto

lemma chain_cong: "(\<And>p. p \<in> set ps \<Longrightarrow> g p = g' p) \<Longrightarrow> chain g p ps = chain g' p ps"
  by (induction ps arbitrary: p) auto

lemma file_okD:
  assumes "file_ok h g"
  shows "hdr_wf h" and "1 \<le> num_pages h" and "record_page h p \<Longrightarrow> \<exists>x. g p = Some x \<and> page_wf h x"
    and "\<exists>ps. chain g (first_free_page_no h) ps \<and> distinct ps \<and> set ps = open_pages h g"
  using assms by (auto simp: file_ok_def)

lemma file_cong:
  assumes "\<And>p. record_page h p \<Longrightarrow> g' p = g p"
  shows "file_ok h g' = file_ok h g" and "file_recs h g' = file_recs h g"
proof -
  have op: "open_pages h g' = open_pages h g" using assms by (auto simp: open_pages_def)
  have sub: "p \<in> open_pages h g \<Longrightarrow> g' p = g p" for p using assms by (simp add: open_pages_def)
  have "chain g' (first_free_page_no h) ps = chain g (first_free_page_no h) ps" if "set ps = open_pages h g" for ps
    using that sub by (intro chain_cong) simp
  then show "file_ok h g' = file_ok h g" using assms by (auto simp: file_ok_def op)
  show "file_recs h g' = file_recs h g" using assms by (auto simp: file_recs_def fun_eq_iff)
qed

text \<open>The first page of the free list: absent, or a record page with a free slot.\<close>

lemma first_free:
  assumes ok: "file_ok h g" and ne: "first_free_page_no h \<noteq> RM_NO_PAGE"
  obtains x qs where "record_page h (first_free_page_no h)" and "g (first_free_page_no h) = Some x" and "page_wf h x"
    and "num_records x < num_records_per_page h" and "chain g (next_free_page_no x) qs"
    and "distinct (first_free_page_no h # qs)" and "set (first_free_page_no h # qs) = open_pages h g"
proof -
  let ?p = "first_free_page_no h"
  obtain ps where ps: "chain g ?p ps" "distinct ps" "set ps = open_pages h g" using file_okD(4) [OF ok] by blast
  with ne obtain qs where qs: "ps = ?p # qs" by (cases ps) auto
  then have "?p \<in> open_pages h g" using ps(3) by auto
  then obtain x where x: "record_page h ?p" "g ?p = Some x" "num_records x < num_records_per_page h"
    by (auto simp: open_pages_def)
  have wf: "page_wf h x" using file_okD(3) [OF ok x(1)] x(2) by auto
  have ch: "chain g (next_free_page_no x) qs" using ps(1) qs x(2) by auto
  show thesis using ps(2,3) unfolding qs by (rule that [OF x(1,2) wf x(3) ch])
qed

section \<open>Replacing one page\<close>

lemma recs_upd:
  assumes lay: "same_layout h h'" and np: "num_pages h' = num_pages h" and p: "record_page h p" and x: "g p = Some x"
    and i: "i < nat (num_records_per_page h)" and y: "page_recs h y = (page_recs h x)(i := v)"
  shows "file_recs h' (g(p \<mapsto> y)) = (file_recs h g)(\<lparr>page_no = p, slot_no = int i\<rparr> := v)"
proof
  fix rid :: Rid
  have "record_page h' = record_page h" using np by (simp add: record_page_def fun_eq_iff)
  then show "file_recs h' (g(p \<mapsto> y)) rid = ((file_recs h g)(\<lparr>page_no = p, slot_no = int i\<rparr> := v)) rid"
    using p x y same_layout_simps(4) [OF lay] by (cases rid) (auto simp: file_recs_def split: option.splits)
qed

text \<open>A page that stays in, leaves, or enters the free list.\<close>

lemma file_upd_stay:
  assumes ok: "file_ok h g" and p: "record_page h p" and x: "g p = Some x" and y: "page_wf h y"
    and nx: "next_free_page_no y = next_free_page_no x"
    and eq: "num_records y < num_records_per_page h \<longleftrightarrow> num_records x < num_records_per_page h"
  shows "file_ok h (g(p \<mapsto> y))"
proof -
  have "open_pages h (g(p \<mapsto> y)) = open_pages h g" using x eq by (auto simp: open_pages_def)
  moreover have "chain (g(p \<mapsto> y)) q ps = chain g q ps" for q ps
    using chain_upd_same_next [where g = g, OF x nx] .
  ultimately show ?thesis using ok y by (auto simp: file_ok_def)
qed

lemma file_upd_leave:
  assumes ok: "file_ok h g" and p: "first_free_page_no h = p" "p \<noteq> RM_NO_PAGE" and x: "g p = Some x" and y: "page_wf h y"
    and nx: "next_free_page_no y = next_free_page_no x" and full: "num_records y = num_records_per_page h"
  shows "file_ok (h\<lparr>first_free_page_no := next_free_page_no y\<rparr>) (g(p \<mapsto> y))"
proof -
  let ?h = "h\<lparr>first_free_page_no := next_free_page_no y\<rparr>"
  obtain x' qs where f: "record_page h p" "g p = Some x'" "page_wf h x'"
    "num_records x' < num_records_per_page h" "chain g (next_free_page_no x') qs"
    "distinct (p # qs)" "set (p # qs) = open_pages h g"
    using first_free [OF ok] p by blast
  then have x': "x' = x" using x by simp
  have rp: "record_page ?h = record_page h" by (simp add: record_page_def fun_eq_iff)
  have "open_pages ?h (g(p \<mapsto> y)) = open_pages h g - {p}" using full by (auto simp: open_pages_def rp)
  also have "\<dots> = set qs" using f(6) unfolding f(7) [symmetric] by auto
  finally have "chain (g(p \<mapsto> y)) (first_free_page_no ?h) qs \<and> distinct qs \<and> set qs = open_pages ?h (g(p \<mapsto> y))"
    using f(5,6) nx x' by (simp add: chain_upd_notin)
  moreover have "hdr_wf ?h" "page_wf ?h = page_wf h"
    using same_layout_simps(1,5) [of h ?h] file_okD(1) [OF ok] by simp_all
  ultimately show ?thesis using ok y rp by (auto simp: file_ok_def)
qed

lemma file_upd_enter:
  assumes ok: "file_ok h g" and p: "record_page h p" and x: "g p = Some x" and y: "page_wf h y"
    and nx: "next_free_page_no y = first_free_page_no h"
    and full: "\<not> num_records x < num_records_per_page h" and fr: "num_records y < num_records_per_page h"
  shows "file_ok (h\<lparr>first_free_page_no := p\<rparr>) (g(p \<mapsto> y))"
proof -
  let ?h = "h\<lparr>first_free_page_no := p\<rparr>"
  obtain ps where ps: "chain g (first_free_page_no h) ps" "distinct ps" "set ps = open_pages h g"
    using file_okD(4) [OF ok] by blast
  have np: "p \<notin> set ps" using ps(3) x full by (auto simp: open_pages_def)
  have rp: "record_page ?h = record_page h" by (simp add: record_page_def fun_eq_iff)
  have "open_pages ?h (g(p \<mapsto> y)) = insert p (open_pages h g)" using p fr by (auto simp: open_pages_def rp)
  then have "chain (g(p \<mapsto> y)) (first_free_page_no ?h) (p # ps) \<and> distinct (p # ps)
      \<and> set (p # ps) = open_pages ?h (g(p \<mapsto> y))"
    using ps np nx by (simp add: chain_upd_notin)
  moreover have "hdr_wf ?h" "page_wf ?h = page_wf h"
    using same_layout_simps(1,5) [of h ?h] file_okD(1) [OF ok] by simp_all
  ultimately show ?thesis using ok y rp unfolding file_ok_def by (auto simp del: chain.simps)
qed

text \<open>A new empty page at the end of a file without free pages.\<close>

lemma file_grow:
  assumes ok: "file_ok h g" and no: "first_free_page_no h = RM_NO_PAGE" and p: "p = num_pages h"
    and y: "page_wf h y" "num_records y = 0" "next_free_page_no y = RM_NO_PAGE" "page_recs h y = Map.empty"
  shows "file_ok (h\<lparr>num_pages := num_pages h + 1, first_free_page_no := p\<rparr>) (g(p \<mapsto> y))"
    and "file_recs (h\<lparr>num_pages := num_pages h + 1, first_free_page_no := p\<rparr>) (g(p \<mapsto> y)) = file_recs h g"
proof -
  let ?h = "h\<lparr>num_pages := num_pages h + 1, first_free_page_no := p\<rparr>"
  have lay: "same_layout h ?h" by simp
  note l = same_layout_simps [OF lay]
  obtain ps where ps: "chain g RM_NO_PAGE ps" "set ps = open_pages h g" using file_okD(4) [OF ok] no by auto
  have "ps = []"
  proof (cases ps)
    case (Cons q qs)
    with ps have "q = RM_NO_PAGE" "record_page h q" by (auto simp: open_pages_def)
    then show ?thesis by (simp add: RM_NO_PAGE_def record_page_def)
  qed
  with ps have none: "open_pages h g = {}" by simp
  have n: "1 \<le> num_records_per_page h" "1 \<le> num_pages h" using file_okD [OF ok] by (auto simp: hdr_wf_def)
  have rp: "record_page ?h q \<longleftrightarrow> record_page h q \<or> q = p" for q using n p by (auto simp: record_page_def)
  have nrp: "\<not> record_page h p" using p by (simp add: record_page_def)
  have "open_pages ?h (g(p \<mapsto> y)) = {p}" using none n(1) y(2) by (auto simp: open_pages_def rp)
  then have "chain (g(p \<mapsto> y)) (first_free_page_no ?h) [p] \<and> distinct [p] \<and> set [p] = open_pages ?h (g(p \<mapsto> y))"
    using y(3) by simp
  moreover have "\<forall>q. record_page ?h q \<longrightarrow> (\<exists>x. (g(p \<mapsto> y)) q = Some x \<and> page_wf ?h x)"
    using ok y(1) l(5) by (auto simp: file_ok_def rp)
  moreover have "hdr_wf ?h" "1 \<le> num_pages ?h" using l(1) file_okD(1) [OF ok] n by simp_all
  ultimately show "file_ok ?h (g(p \<mapsto> y))" unfolding file_ok_def by blast
  show "file_recs ?h (g(p \<mapsto> y)) = file_recs h g"
  proof
    fix rid
    show "file_recs ?h (g(p \<mapsto> y)) rid = file_recs h g rid"
      using y(4) l(4) nrp by (auto simp: file_recs_def rp split: option.splits)
  qed
qed

end
