(* ===== verification/Rm_Ops.thy ===== *)
theory Rm_Ops
  imports Rm_Table
begin

text \<open>
  The operations of \<^verbatim>\<open>RmFileHandle\<close> run through the buffer pool and act on a table file as on a map
  from record identifiers to records.
\<close>

section \<open>Invariant and abstraction of an open table\<close>

definition pages_of :: "int \<Rightarrow> BufferPool \<Rightarrow> page_map" where
  "pages_of fd b p = content b \<lparr>pid_fd = fd, pid_no = p\<rparr>"

definition table_ok :: "int \<Rightarrow> RmFileHdr \<Rightarrow> BufferPool \<Rightarrow> bool" where
  "table_ok fd h b \<longleftrightarrow> calm b \<and> file_ok h (pages_of fd b) \<and> 0 \<le> fd \<and> fd < MAX_FD \<and> fd2path (disk b) fd \<noteq> None
     \<and> fd2pageno (disk b) fd = num_pages h \<and> (\<forall>p. record_page h p \<longrightarrow> page_in_range p)
     \<and> (\<forall>p. \<not> record_page h p \<longrightarrow> page_table b \<lparr>pid_fd = fd, pid_no = p\<rparr> = None)"

definition rm_ok :: "int \<Rightarrow> RmSys \<Rightarrow> bool" where
  "rm_ok fd s \<longleftrightarrow> table_ok fd (rm_hdr s) (rm_bp s)"

definition rm_abs :: "int \<Rightarrow> RmSys \<Rightarrow> Rid \<rightharpoonup> bytes" where
  "rm_abs fd s = file_recs (rm_hdr s) (pages_of fd (rm_bp s))"

text \<open>What an operation on the table \<open>fd\<close> leaves alone: every other open table.\<close>

definition other_tables :: "int \<Rightarrow> BufferPool \<Rightarrow> BufferPool \<Rightarrow> bool" where
  "other_tables fd b b' \<longleftrightarrow>
     (\<forall>fd' h. fd' \<noteq> fd \<longrightarrow> table_ok fd' h b \<longrightarrow> table_ok fd' h b' \<and> file_recs h (pages_of fd' b') = file_recs h (pages_of fd' b))"

lemma table_okD:
  assumes "table_ok fd h b"
  shows "calm b" and "file_ok h (pages_of fd b)" and "0 \<le> fd" and "fd < MAX_FD" and "fd2pageno (disk b) fd = num_pages h"
    and "record_page h p \<Longrightarrow> page_in_range p" and "\<not> record_page h p \<Longrightarrow> page_table b \<lparr>pid_fd = fd, pid_no = p\<rparr> = None"
    and "page_in_range p \<Longrightarrow> valid_pid (disk b) \<lparr>pid_fd = fd, pid_no = p\<rparr>"
  using assms by (auto simp: table_ok_def valid_pid_def)

lemma table_page:
  assumes "table_ok fd h b" and "record_page h p"
  obtains x where "content b \<lparr>pid_fd = fd, pid_no = p\<rparr> = Some x" and "page_wf h x"
    and "valid_pid (disk b) \<lparr>pid_fd = fd, pid_no = p\<rparr>"
proof -
  note t = table_okD [OF assms(1)]
  obtain x where "pages_of fd b p = Some x" "page_wf h x" using file_okD(3) [OF t(2) assms(2)] by blast
  then show thesis using that t(8) [OF t(6) [OF assms(2)]] by (simp add: pages_of_def)
qed

text \<open>One argument for reads, writes and growth: the pages in \<open>X\<close> may have changed.\<close>

lemma pages_of_keep:
  assumes t: "table_ok fd h b"
    and keep: "\<And>pid x. valid_pid (disk b) pid \<Longrightarrow> pid \<notin> X \<Longrightarrow> content b pid = Some x \<Longrightarrow> content b' pid = Some x"
    and p: "record_page h p" "\<lparr>pid_fd = fd, pid_no = p\<rparr> \<notin> X"
  shows "pages_of fd b' p = pages_of fd b p"
  using table_page [OF t p(1)] keep [OF _ p(2)] by (metis pages_of_def)

lemma table_ok_keep:
  assumes t: "table_ok fd h b" and c: "calm b'" and path: "fd2path (disk b') fd = fd2path (disk b) fd"
    and pn: "fd2pageno (disk b') fd = fd2pageno (disk b) fd"
    and keep: "\<And>pid x. valid_pid (disk b) pid \<Longrightarrow> pid \<notin> X \<Longrightarrow> content b pid = Some x \<Longrightarrow> content b' pid = Some x"
    and new: "\<And>pid. pid \<notin> F \<Longrightarrow> page_table b pid = None \<Longrightarrow> page_table b' pid = None"
    and X: "\<And>p. record_page h p \<Longrightarrow> \<lparr>pid_fd = fd, pid_no = p\<rparr> \<notin> X"
    and F: "\<And>p. \<not> record_page h p \<Longrightarrow> \<lparr>pid_fd = fd, pid_no = p\<rparr> \<notin> F"
  shows "table_ok fd h b' \<and> file_recs h (pages_of fd b') = file_recs h (pages_of fd b)"
proof -
  have eq: "pages_of fd b' p = pages_of fd b p" if "record_page h p" for p
    by (rule pages_of_keep [OF t keep that X [OF that]])
  note fc = file_cong [of h "pages_of fd b'" "pages_of fd b", OF eq]
  have "page_table b' \<lparr>pid_fd = fd, pid_no = p\<rparr> = None" if "\<not> record_page h p" for p
    using new [OF F [OF that] table_okD(7) [OF t that]] .
  then show ?thesis using t c path pn fc by (simp add: table_ok_def)
qed

lemma evolves_other_tables:
  assumes "evolves F X b b'" and "\<And>pid. pid \<in> F \<union> X \<Longrightarrow> pid_fd pid = fd"
  shows "other_tables fd b b'"
  unfolding other_tables_def
proof (intro allI impI)
  fix fd' h
  assume "fd' \<noteq> fd" "table_ok fd' h b"
  note e = evolvesD [OF assms(1)]
  show "table_ok fd' h b' \<and> file_recs h (pages_of fd' b') = file_recs h (pages_of fd' b)"
    by (rule table_ok_keep [where F = F and X = X]) (use \<open>table_ok fd' h b\<close> \<open>fd' \<noteq> fd\<close> e assms(2) in force)+
qed

lemma growsD:
  assumes "grows fd b b'"
  shows "calm b'" and "fd2path (disk b') = fd2path (disk b)" and "pins b' = pins b"
    and "fd2pageno (disk b') = (fd2pageno (disk b))(fd := fd2pageno (disk b) fd + 1)"
    and "valid_pid (disk b) q \<Longrightarrow> q \<notin> {\<lparr>pid_fd = fd, pid_no = fd2pageno (disk b) fd\<rparr>} \<Longrightarrow> content b q = Some x \<Longrightarrow> content b' q = Some x"
    and "q \<notin> {\<lparr>pid_fd = fd, pid_no = fd2pageno (disk b) fd\<rparr>} \<Longrightarrow> page_table b q = None \<Longrightarrow> page_table b' q = None"
    and "pool_size b' = pool_size b"
  using assms unfolding grows_def Let_def by blast+

lemma grows_other_tables:
  assumes "grows fd b b'"
  shows "other_tables fd b b'"
  unfolding other_tables_def
proof (intro allI impI)
  fix fd' h
  assume "fd' \<noteq> fd" "table_ok fd' h b"
  note g = growsD [OF assms]
  let ?P = "{\<lparr>pid_fd = fd, pid_no = fd2pageno (disk b) fd\<rparr>}"
  show "table_ok fd' h b' \<and> file_recs h (pages_of fd' b') = file_recs h (pages_of fd' b)"
    by (rule table_ok_keep [where F = ?P and X = ?P]) (use \<open>table_ok fd' h b\<close> \<open>fd' \<noteq> fd\<close> g in force)+
qed

text \<open>The three ways the pages of the table itself change.\<close>

lemma table_read:
  assumes t: "table_ok fd h b" and p: "record_page h p" and e: "evolves {\<lparr>pid_fd = fd, pid_no = p\<rparr>} {} b b'"
  shows "table_ok fd h b'" and "file_recs h (pages_of fd b') = file_recs h (pages_of fd b)" and "other_tables fd b b'"
proof -
  note ev = evolvesD [OF e]
  have "table_ok fd h b' \<and> file_recs h (pages_of fd b') = file_recs h (pages_of fd b)"
    by (rule table_ok_keep [where F = "{\<lparr>pid_fd = fd, pid_no = p\<rparr>}" and X = "{}"]) (use t p ev in \<open>auto simp: record_page_def\<close>)
  then show "table_ok fd h b'" "file_recs h (pages_of fd b') = file_recs h (pages_of fd b)" by auto
  show "other_tables fd b b'" by (rule evolves_other_tables [OF e]) auto
qed

lemma table_write:
  assumes t: "table_ok fd h b" and p: "record_page h p" and np: "num_pages h' = num_pages h"
    and e: "evolves {\<lparr>pid_fd = fd, pid_no = p\<rparr>} {\<lparr>pid_fd = fd, pid_no = p\<rparr>} b b'" and y: "content b' \<lparr>pid_fd = fd, pid_no = p\<rparr> = Some y"
    and ok: "file_ok h' ((pages_of fd b)(p \<mapsto> y))"
  shows "table_ok fd h' b'" and "file_recs h' (pages_of fd b') = file_recs h' ((pages_of fd b)(p \<mapsto> y))"
    and "other_tables fd b b'"
proof -
  note ev = evolvesD [OF e]
  have rp: "record_page h' = record_page h" using np by (simp add: record_page_def fun_eq_iff)
  have eq: "pages_of fd b' q = ((pages_of fd b)(p \<mapsto> y)) q" if "record_page h' q" for q
  proof (cases "q = p")
    case False
    have "pages_of fd b' q = pages_of fd b q"
      by (rule pages_of_keep [where X = "{\<lparr>pid_fd = fd, pid_no = p\<rparr>}", OF t]) (use ev(6) False that rp in auto)
    with False show ?thesis by simp
  qed (use y in \<open>simp add: pages_of_def\<close>)
  note fc = file_cong [of h' "pages_of fd b'" "(pages_of fd b)(p \<mapsto> y)", OF eq]
  have "page_table b' \<lparr>pid_fd = fd, pid_no = q\<rparr> = None" if "\<not> record_page h q" for q
    using ev(7) [of "\<lparr>pid_fd = fd, pid_no = q\<rparr>"] table_okD(7) [OF t that] that p by (auto simp: record_page_def)
  then show "table_ok fd h' b'" using t ev(1,5,8) fc(1) ok np rp by (simp add: table_ok_def)
  show "file_recs h' (pages_of fd b') = file_recs h' ((pages_of fd b)(p \<mapsto> y))" by (rule fc(2))
  show "other_tables fd b b'" by (rule evolves_other_tables [OF e]) auto
qed

lemma table_grow:
  assumes t: "table_ok fd h b" and p: "p = num_pages h" "page_in_range p" and np: "num_pages h' = num_pages h + 1"
    and g: "grows fd b b'" and y: "content b' \<lparr>pid_fd = fd, pid_no = p\<rparr> = Some y"
    and ok: "file_ok h' ((pages_of fd b)(p \<mapsto> y))"
  shows "table_ok fd h' b'" and "file_recs h' (pages_of fd b') = file_recs h' ((pages_of fd b)(p \<mapsto> y))"
    and "other_tables fd b b'"
proof -
  note gr = growsD [OF g] and td = table_okD [OF t]
  have rp: "record_page h' q \<longleftrightarrow> q = p \<or> record_page h q" for q
    using np p file_okD(2) [OF td(2)] by (auto simp: record_page_def)
  have eq: "pages_of fd b' q = ((pages_of fd b)(p \<mapsto> y)) q" if "record_page h' q" for q
  proof (cases "q = p")
    case False
    have "pages_of fd b' q = pages_of fd b q"
      by (rule pages_of_keep [where X = "{\<lparr>pid_fd = fd, pid_no = p\<rparr>}", OF t])
        (use gr(5) False that rp td(5) p(1) in auto)
    with False show ?thesis by simp
  qed (use y in \<open>simp add: pages_of_def\<close>)
  note fc = file_cong [of h' "pages_of fd b'" "(pages_of fd b)(p \<mapsto> y)", OF eq]
  have "page_table b' \<lparr>pid_fd = fd, pid_no = q\<rparr> = None" if "\<not> record_page h' q" for q
    using gr(6) [of "\<lparr>pid_fd = fd, pid_no = q\<rparr>"] td(7) [of q] td(5) that rp p(1) by auto
  then show "table_ok fd h' b'" using t gr(1,2,4) fc(1) ok np rp p(2) by (auto simp: table_ok_def)
  show "file_recs h' (pages_of fd b') = file_recs h' ((pages_of fd b)(p \<mapsto> y))" by (rule fc(2))
  show "other_tables fd b b'" by (rule grows_other_tables [OF g])
qed

section \<open>Running the operations\<close>

lemma poke_simps [simp]:
  "poke f y (poke f x b) = poke f y b" "page_id (pages (poke f x b) ! g) = page_id (pages b ! g)"
  "page_dirty (pages (poke f x b) ! g) = page_dirty (pages b ! g)" "disk (poke f x b) = disk b"
  by (cases "f < length (pages b)"; cases "g = f"; simp add: poke_def upd_page_def list_update_beyond)+

lemma frame_data_poke: "bp_ok b \<Longrightarrow> page_table b pid = Some f \<Longrightarrow> frame_data (poke f x b) f = x"
  using bp_ok_table(1) [of b pid f] bp_okD(1) [of b] by (simp add: poke_def upd_page_def frame_data_def)

lemmas rm_run = bindE_def returnE_def throwE_def getsE_def modifyE_def unpinE_def in_bp_def set_hdr_def frame_bytes_def
  frame_pid_def poke_frame_def unpin_frame_def deref_def check_slot_def rm_fetch_page_handle_def

lemma abs_record:
  assumes ok: "rm_ok fd s" and r: "rm_abs fd s rid = Some v"
  obtains x i where "record_page (rm_hdr s) (page_no rid)" and "slot_no rid = int i"
    and "i < nat (num_records_per_page (rm_hdr s))"
    and "content (rm_bp s) \<lparr>pid_fd = fd, pid_no = page_no rid\<rparr> = Some x" and "is_set (bitmap_at x) i"
    and "slot_bytes (rm_hdr s) x i = v" and "page_wf (rm_hdr s) x"
    and "valid_pid (disk (rm_bp s)) \<lparr>pid_fd = fd, pid_no = page_no rid\<rparr>" and "hdr_wf (rm_hdr s)"
proof -
  have t: "table_ok fd (rm_hdr s) (rm_bp s)" using ok by (simp add: rm_ok_def)
  have rp: "record_page (rm_hdr s) (page_no rid)" and nn: "0 \<le> slot_no rid"
    using r by (auto simp: rm_abs_def file_recs_def split: if_splits)
  obtain x where x: "content (rm_bp s) \<lparr>pid_fd = fd, pid_no = page_no rid\<rparr> = Some x" "page_wf (rm_hdr s) x"
    "valid_pid (disk (rm_bp s)) \<lparr>pid_fd = fd, pid_no = page_no rid\<rparr>"
    by (rule table_page [OF t rp], rule that)
  have "page_recs (rm_hdr s) x (nat (slot_no rid)) = Some v"
    using r rp nn x(1) by (simp add: rm_abs_def file_recs_def pages_of_def)
  then have "nat (slot_no rid) < nat (num_records_per_page (rm_hdr s))" "is_set (bitmap_at x) (nat (slot_no rid))"
    "slot_bytes (rm_hdr s) x (nat (slot_no rid)) = v"
    by (auto simp: page_recs_def split: if_splits)
  moreover have "slot_no rid = int (nat (slot_no rid))" using nn by simp
  ultimately show thesis
    by (intro that [of "nat (slot_no rid)" x]) (use rp x file_okD(1) [OF table_okD(2) [OF t]] in auto)
qed

text \<open>An operation that read one page of the table.\<close>

definition only_read :: "int \<Rightarrow> RmSys \<Rightarrow> RmSys \<Rightarrow> bool" where
  "only_read fd s s' \<longleftrightarrow> rm_ok fd s' \<and> rm_abs fd s' = rm_abs fd s \<and> other_tables fd (rm_bp s) (rm_bp s')
     \<and> pins (rm_bp s') = pins (rm_bp s) \<and> pool_size (rm_bp s') = pool_size (rm_bp s) \<and> s' = s\<lparr>rm_bp := rm_bp s'\<rparr>"

lemma read_page_of_table:
  assumes ok: "rm_ok fd s" and p: "record_page (rm_hdr s) p"
  obtains f b1 b2 x where "fetch_page \<lparr>pid_fd = fd, pid_no = p\<rparr> (rm_bp s) = (Inr (Some f), b1)" and "frame_data b1 f = x"
    and "page_id (pages b1 ! f) = \<lparr>pid_fd = fd, pid_no = p\<rparr>" and "unpin_page \<lparr>pid_fd = fd, pid_no = p\<rparr> False b1 = (True, b2)"
    and "content (rm_bp s) \<lparr>pid_fd = fd, pid_no = p\<rparr> = Some x" and "page_wf (rm_hdr s) x"
    and "only_read fd s (s\<lparr>rm_bp := b2\<rparr>)"
proof -
  have t: "table_ok fd (rm_hdr s) (rm_bp s)" using ok by (simp add: rm_ok_def)
  obtain x where x: "content (rm_bp s) \<lparr>pid_fd = fd, pid_no = p\<rparr> = Some x" "page_wf (rm_hdr s) x"
    "valid_pid (disk (rm_bp s)) \<lparr>pid_fd = fd, pid_no = p\<rparr>"
    by (rule table_page [OF t p], rule that)
  obtain f b1 b2 where r: "fetch_page \<lparr>pid_fd = fd, pid_no = p\<rparr> (rm_bp s) = (Inr (Some f), b1)" "frame_data b1 f = x"
    "page_table b1 \<lparr>pid_fd = fd, pid_no = p\<rparr> = Some f"
    "page_id (pages b1 ! f) = \<lparr>pid_fd = fd, pid_no = p\<rparr>" "unpin_page \<lparr>pid_fd = fd, pid_no = p\<rparr> False b1 = (True, b2)"
    "evolves {\<lparr>pid_fd = fd, pid_no = p\<rparr>} {} (rm_bp s) b2"
    by (rule calm_read [OF table_okD(1) [OF t] x(3,1)], rule that)
  have "only_read fd s (s\<lparr>rm_bp := b2\<rparr>)"
    using table_read [OF t p r(6)] evolvesD(3,4) [OF r(6)] by (simp add: only_read_def rm_ok_def rm_abs_def)
  then show thesis by (rule that [OF r(1,2,4,5) x(1,2)])
qed

lemma get_record_spec:
  assumes ok: "rm_ok fd s" and r: "rm_abs fd s rid = Some v"
  obtains s' where "get_record fd rid s = (Inr v, s')" and "only_read fd s s'"
proof -
  obtain x i where x: "record_page (rm_hdr s) (page_no rid)" "slot_no rid = int i" "i < nat (num_records_per_page (rm_hdr s))"
    "content (rm_bp s) \<lparr>pid_fd = fd, pid_no = page_no rid\<rparr> = Some x" "slot_bytes (rm_hdr s) x i = v" "hdr_wf (rm_hdr s)"
    by (rule abs_record [OF ok r]) metis
  obtain f b1 b2 x' where f: "fetch_page \<lparr>pid_fd = fd, pid_no = page_no rid\<rparr> (rm_bp s) = (Inr (Some f), b1)"
    "frame_data b1 f = x'" "page_id (pages b1 ! f) = \<lparr>pid_fd = fd, pid_no = page_no rid\<rparr>"
    "unpin_page \<lparr>pid_fd = fd, pid_no = page_no rid\<rparr> False b1 = (True, b2)"
    "content (rm_bp s) \<lparr>pid_fd = fd, pid_no = page_no rid\<rparr> = Some x'" "only_read fd s (s\<lparr>rm_bp := b2\<rparr>)"
    by (rule read_page_of_table [OF ok x(1)], rule that)
  have "slot_in_page (rm_hdr s) (slot_no rid)" using slot_range(3) [OF x(6,3)] x(2) by simp
  then have "get_record fd rid s = (Inr v, s\<lparr>rm_bp := b2\<rparr>)"
    using f(1-5) x(2,4,5) by (simp add: get_record_def rm_run slot_bytes_def)
  then show thesis using f(6) by (rule that)
qed

lemma is_record_spec:
  assumes ok: "rm_ok fd s" and p: "record_page (rm_hdr s) (page_no rid)" and i: "0 \<le> slot_no rid" "slot_no rid < num_records_per_page (rm_hdr s)"
  obtains s' where "is_record fd rid s = (Inr (rm_abs fd s rid \<noteq> None), s')" and "only_read fd s s'"
proof -
  obtain f b1 b2 x where f: "fetch_page \<lparr>pid_fd = fd, pid_no = page_no rid\<rparr> (rm_bp s) = (Inr (Some f), b1)"
    "frame_data b1 f = x" "page_id (pages b1 ! f) = \<lparr>pid_fd = fd, pid_no = page_no rid\<rparr>"
    "unpin_page \<lparr>pid_fd = fd, pid_no = page_no rid\<rparr> False b1 = (True, b2)"
    "content (rm_bp s) \<lparr>pid_fd = fd, pid_no = page_no rid\<rparr> = Some x" "only_read fd s (s\<lparr>rm_bp := b2\<rparr>)"
    by (rule read_page_of_table [OF ok p], rule that)
  have "is_set (bitmap_at x) (nat (slot_no rid)) = (rm_abs fd s rid \<noteq> None)"
    using p i f(5) by (simp add: rm_abs_def file_recs_def pages_of_def page_recs_def)
  then have "is_record fd rid s = (Inr (rm_abs fd s rid \<noteq> None), s\<lparr>rm_bp := b2\<rparr>)"
    using f(1-4) by (simp add: is_record_def rm_run)
  then show thesis using f(6) by (rule that)
qed

section \<open>Writing operations\<close>

text \<open>A balanced operation on the table: no pin is leaked and nothing but the table changes.\<close>

definition table_step :: "int \<Rightarrow> RmSys \<Rightarrow> RmSys \<Rightarrow> bool" where
  "table_step fd s s' \<longleftrightarrow> rm_ok fd s' \<and> other_tables fd (rm_bp s) (rm_bp s') \<and> pins (rm_bp s') = pins (rm_bp s)
     \<and> pool_size (rm_bp s') = pool_size (rm_bp s) \<and> same_layout (rm_hdr s) (rm_hdr s')"

lemma only_read_step: "only_read fd s s' \<Longrightarrow> table_step fd s s'"
proof -
  assume a: "only_read fd s s'"
  then have "rm_hdr s' = rm_hdr s" unfolding only_read_def by (metis RmSys.select_convs(2) RmSys.surjective RmSys.update_convs(1))
  with a show ?thesis by (simp add: only_read_def table_step_def)
qed

lemma write_page_of_table:
  assumes ok: "rm_ok fd s" and p: "record_page (rm_hdr s) p"
  obtains f b1 x where "fetch_page \<lparr>pid_fd = fd, pid_no = p\<rparr> (rm_bp s) = (Inr (Some f), b1)" and "frame_data b1 f = x"
    and "page_id (pages b1 ! f) = \<lparr>pid_fd = fd, pid_no = p\<rparr>"
    and "content (rm_bp s) \<lparr>pid_fd = fd, pid_no = p\<rparr> = Some x" and "page_wf (rm_hdr s) x"
    and "\<And>y h'. page_wf (rm_hdr s) y \<Longrightarrow> file_ok h' ((pages_of fd (rm_bp s))(p \<mapsto> y)) \<Longrightarrow>
      num_pages h' = num_pages (rm_hdr s) \<Longrightarrow> same_layout (rm_hdr s) h' \<Longrightarrow>
      \<exists>b2. unpin_page \<lparr>pid_fd = fd, pid_no = p\<rparr> True (poke f y b1) = (True, b2)
        \<and> table_step fd s (s\<lparr>rm_bp := b2, rm_hdr := h'\<rparr>)
        \<and> rm_abs fd (s\<lparr>rm_bp := b2, rm_hdr := h'\<rparr>) = file_recs h' ((pages_of fd (rm_bp s))(p \<mapsto> y))"
proof -
  have t: "table_ok fd (rm_hdr s) (rm_bp s)" using ok by (simp add: rm_ok_def)
  let ?pid = "\<lparr>pid_fd = fd, pid_no = p\<rparr> :: PageId"
  obtain x where x: "content (rm_bp s) ?pid = Some x" "page_wf (rm_hdr s) x" "valid_pid (disk (rm_bp s)) ?pid"
    by (rule table_page [OF t p], rule that)
  obtain f b1 where r: "fetch_page ?pid (rm_bp s) = (Inr (Some f), b1)" "frame_data b1 f = x"
    "page_table b1 ?pid = Some f" "page_id (pages b1 ! f) = ?pid" "length x = PAGE_SIZE"
    and w: "\<And>y. length y = PAGE_SIZE \<Longrightarrow> \<exists>b2. unpin_page ?pid True (poke f y b1) = (True, b2)
      \<and> evolves {?pid} {?pid} (rm_bp s) b2 \<and> content b2 ?pid = Some y"
    by (rule calm_write [OF table_okD(1) [OF t] x(3,1)], rule that)
  show thesis
  proof (rule that [OF r(1,2,4) x(1,2)])
    fix y h'
    assume a: "page_wf (rm_hdr s) y" "file_ok h' ((pages_of fd (rm_bp s))(p \<mapsto> y))"
      "num_pages h' = num_pages (rm_hdr s)" "same_layout (rm_hdr s) h'"
    from w [OF page_wf_len [OF a(1)]] obtain b2 where b2: "unpin_page ?pid True (poke f y b1) = (True, b2)"
      "evolves {?pid} {?pid} (rm_bp s) b2" "content b2 ?pid = Some y" by blast
    note tw = table_write [OF t p a(3) b2(2,3) a(2)] and pi = evolvesD(3,4) [OF b2(2)]
    show "\<exists>b2. unpin_page ?pid True (poke f y b1) = (True, b2) \<and> table_step fd s (s\<lparr>rm_bp := b2, rm_hdr := h'\<rparr>)
        \<and> rm_abs fd (s\<lparr>rm_bp := b2, rm_hdr := h'\<rparr>) = file_recs h' ((pages_of fd (rm_bp s))(p \<mapsto> y))"
      using b2(1) tw pi a(4) by (auto simp: table_step_def rm_ok_def rm_abs_def)
  qed
qed

lemma update_record_spec:
  assumes ok: "rm_ok fd s" and r: "rm_abs fd s rid = Some v" and buf: "nat (record_size (rm_hdr s)) \<le> length buf"
  obtains s' where "update_record fd True rid buf s = (Inr (), s')" and "table_step fd s s'"
    and "rm_abs fd s' = (rm_abs fd s)(rid \<mapsto> take (nat (record_size (rm_hdr s))) buf)"
proof -
  let ?h = "rm_hdr s" and ?b = "rm_bp s" and ?pid = "\<lparr>pid_fd = fd, pid_no = page_no rid\<rparr> :: PageId"
  let ?v = "take (nat (record_size ?h)) buf"
  have fok: "file_ok ?h (pages_of fd ?b)" using ok by (simp add: rm_ok_def table_ok_def)
  obtain x i where x: "record_page ?h (page_no rid)" "slot_no rid = int i" "i < nat (num_records_per_page ?h)"
    "content ?b ?pid = Some x" "is_set (bitmap_at x) i" "hdr_wf ?h"
    by (rule abs_record [OF ok r]) metis
  obtain f b1 where f: "fetch_page ?pid ?b = (Inr (Some f), b1)" "frame_data b1 f = x" "page_id (pages b1 ! f) = ?pid"
    "page_wf ?h x"
    and w: "\<And>y h'. page_wf ?h y \<Longrightarrow> file_ok h' ((pages_of fd ?b)(page_no rid \<mapsto> y)) \<Longrightarrow>
      num_pages h' = num_pages ?h \<Longrightarrow> same_layout ?h h' \<Longrightarrow>
      \<exists>b2. unpin_page ?pid True (poke f y b1) = (True, b2) \<and> table_step fd s (s\<lparr>rm_bp := b2, rm_hdr := h'\<rparr>)
        \<and> rm_abs fd (s\<lparr>rm_bp := b2, rm_hdr := h'\<rparr>) = file_recs h' ((pages_of fd ?b)(page_no rid \<mapsto> y))"
    by (rule write_page_of_table [OF ok x(1)]) (use x(4) in simp)
  let ?x1 = "stamp_lsn (so_far_lsn (rm_txn s)) (page_dirty (pages b1 ! f)) x"
  note st = stamp_lsn_page [OF f(4), of "so_far_lsn (rm_txn s)" "page_dirty (pages b1 ! f)"]
  have set1: "is_set (bitmap_at ?x1) i"
    using fun_cong [OF st(2), of i] x(3,5) by (simp add: page_recs_def split: if_splits)
  let ?y = "mem_put (get_slot ?h (int i)) ?v ?x1"
  note sw = slot_write_page [OF x(6) st(1) x(3), of ?v]
  have y: "page_wf ?h ?y" "page_recs ?h ?y = (page_recs ?h x)(i \<mapsto> ?v)" "num_records ?y = num_records x"
    "next_free_page_no ?y = next_free_page_no x"
    using sw set1 buf st by simp_all
  have px: "pages_of fd ?b (page_no rid) = Some x" using x(4) by (simp add: pages_of_def)
  have fok': "file_ok ?h ((pages_of fd ?b)(page_no rid \<mapsto> ?y))"
    by (rule file_upd_stay [OF fok x(1) px y(1)]) (use y in simp_all)
  obtain b2 where b2: "unpin_page ?pid True (poke f ?y b1) = (True, b2)" "table_step fd s (s\<lparr>rm_bp := b2, rm_hdr := ?h\<rparr>)"
    "rm_abs fd (s\<lparr>rm_bp := b2, rm_hdr := ?h\<rparr>) = file_recs ?h ((pages_of fd ?b)(page_no rid \<mapsto> ?y))"
    using w [OF y(1) fok'] by auto
  have "file_recs ?h ((pages_of fd ?b)(page_no rid \<mapsto> ?y)) = (rm_abs fd s)(\<lparr>page_no = page_no rid, slot_no = int i\<rparr> := Some ?v)"
    unfolding rm_abs_def by (rule recs_upd [where g = "pages_of fd ?b", OF _ _ x(1) px x(3) y(2)]) simp_all
  moreover have "\<lparr>page_no = page_no rid, slot_no = int i\<rparr> = rid" using x(2) by simp
  moreover have "update_record fd True rid buf s = (Inr (), s\<lparr>rm_bp := b2, rm_hdr := ?h\<rparr>)"
    using f b2(1) set1 x(2) slot_range(3) [OF x(6,3)] buf
    by (simp add: update_record_def rm_run Let_def)
  ultimately show thesis using that b2(2,3) by simp
qed

text \<open>Both \<^verbatim>\<open>delete_record\<close> functions: \<open>x'\<close> are the bytes the bitmap is reset in, \<open>b\<close> the pool with the page pinned.\<close>

lemma finish_delete_spec:
  assumes ok: "rm_ok fd s" and r: "rm_abs fd s rid = Some v"
    and x: "content (rm_bp s) \<lparr>pid_fd = fd, pid_no = page_no rid\<rparr> = Some x"
    and x': "page_wf (rm_hdr s) x'" "page_recs (rm_hdr s) x' = page_recs (rm_hdr s) x"
      "next_free_page_no x' = next_free_page_no x" "num_records x' = num_records x"
    and w: "\<And>y h'. page_wf (rm_hdr s) y \<Longrightarrow> file_ok h' ((pages_of fd (rm_bp s))(page_no rid \<mapsto> y)) \<Longrightarrow>
      num_pages h' = num_pages (rm_hdr s) \<Longrightarrow> same_layout (rm_hdr s) h' \<Longrightarrow>
      \<exists>b2. unpin_page \<lparr>pid_fd = fd, pid_no = page_no rid\<rparr> True (poke f y b) = (True, b2)
        \<and> table_step fd s (s\<lparr>rm_bp := b2, rm_hdr := h'\<rparr>)
        \<and> rm_abs fd (s\<lparr>rm_bp := b2, rm_hdr := h'\<rparr>) = file_recs h' ((pages_of fd (rm_bp s))(page_no rid \<mapsto> y))"
    and b: "page_id (pages b ! f) = \<lparr>pid_fd = fd, pid_no = page_no rid\<rparr>"
  obtains s' where "finish_delete f rid x' (s\<lparr>rm_bp := b\<rparr>) = (Inr (), s')" and "table_step fd s s'"
    and "rm_abs fd s' = (rm_abs fd s)(rid := None)"
proof -
  let ?h = "rm_hdr s" and ?g = "pages_of fd (rm_bp s)" and ?p = "page_no rid"
  note result = that
  have fok: "file_ok ?h ?g" using ok by (simp add: rm_ok_def table_ok_def)
  obtain i where i: "record_page ?h ?p" "slot_no rid = int i" "i < nat (num_records_per_page ?h)"
    "is_set (bitmap_at x) i" "hdr_wf ?h" "page_wf ?h x"
    by (rule abs_record [OF ok r]) (use x in auto)
  have set: "is_set (bitmap_at x') i"
    using fun_cong [OF x'(2), of i] i(3,4) by (simp add: page_recs_def split: if_splits)
  let ?x1 = "page_delete i x'"
  note pd = page_delete_page [OF i(5) x'(1) i(3) set]
  have gx: "?g ?p = Some x" using x by (simp add: pages_of_def)
  have nb: "num_records x \<le> num_records_per_page ?h" using num_records_bound(2) [OF i(6,5)] .
  have ff: "in_i32 (first_free_page_no ?h)"
  proof (cases "first_free_page_no ?h = RM_NO_PAGE")
    case False
    then have "record_page ?h (first_free_page_no ?h)" by (rule first_free [OF fok])
    then have "page_in_range (first_free_page_no ?h)" using ok by (simp add: rm_ok_def table_ok_def)
    then show ?thesis by (auto simp: page_in_range_def in_i32_def PAGE_SIZE_def)
  qed (simp add: RM_NO_PAGE_def in_i32_def)
  have step: thesis
    if y: "page_wf ?h y" "page_recs ?h y = (page_recs ?h x)(i := None)" and h': "num_pages h' = num_pages ?h" "same_layout ?h h'"
      and fk: "file_ok h' (?g(?p \<mapsto> y))"
      and run: "\<And>b2. unpin_page \<lparr>pid_fd = fd, pid_no = ?p\<rparr> True (poke f y b) = (True, b2) \<Longrightarrow>
        finish_delete f rid x' (s\<lparr>rm_bp := b\<rparr>) = (Inr (), s\<lparr>rm_bp := b2, rm_hdr := h'\<rparr>)" for y h'
  proof -
    obtain b2 where b2: "unpin_page \<lparr>pid_fd = fd, pid_no = ?p\<rparr> True (poke f y b) = (True, b2)"
      "table_step fd s (s\<lparr>rm_bp := b2, rm_hdr := h'\<rparr>)"
      "rm_abs fd (s\<lparr>rm_bp := b2, rm_hdr := h'\<rparr>) = file_recs h' (?g(?p \<mapsto> y))"
      using w [OF y(1) fk h'] by blast
    have "file_recs h' (?g(?p \<mapsto> y)) = (rm_abs fd s)(\<lparr>page_no = ?p, slot_no = int i\<rparr> := None)"
      unfolding rm_abs_def by (rule recs_upd [where g = "?g", OF h'(2,1) i(1) gx i(3) y(2)])
    moreover have "\<lparr>page_no = ?p, slot_no = int i\<rparr> = rid" using i(2) by simp
    ultimately show thesis using result [OF run [OF b2(1)] b2(2)] b2(3) by simp
  qed
  show thesis
  proof (cases "num_records ?x1 = num_records_per_page ?h - 1")
    case True
    let ?y = "set_next_free (first_free_page_no ?h) ?x1" and ?h' = "?h\<lparr>first_free_page_no := ?p\<rparr>"
    have y: "page_wf ?h ?y" "page_recs ?h ?y = (page_recs ?h x)(i := None)" "num_records ?y = num_records x - 1"
      "next_free_page_no ?y = first_free_page_no ?h"
      using pd x' page_wf_len [OF pd(1)] ff by simp_all
    have "file_ok ?h' (?g(?p \<mapsto> ?y))"
      by (rule file_upd_enter [where g = "?g", OF fok i(1) gx y(1,4)]) (use True pd(3) x'(4) y(3) nb in auto)
    then show thesis
      by (rule step [OF y(1,2), of ?h', rotated 2]) (use True set i(2) b in \<open>auto simp: finish_delete_def rm_run Let_def\<close>)
  next
    case False
    have "file_ok ?h (?g(?p \<mapsto> ?x1))"
      by (rule file_upd_stay [where g = "?g", OF fok i(1) gx pd(1)]) (use False pd x' nb in auto)
    then show thesis
      by (rule step [of ?x1 ?h, rotated 4]) (use pd x' False set i(2) b in \<open>auto simp: finish_delete_def rm_run Let_def\<close>)
  qed
qed

lemma delete_record_spec:
  assumes ok: "rm_ok fd s" and r: "rm_abs fd s rid = Some v"
  obtains s' where "delete_record fd True rid s = (Inr (), s')" and "table_step fd s s'"
    and "rm_abs fd s' = (rm_abs fd s)(rid := None)"
proof -
  let ?h = "rm_hdr s" and ?pid = "\<lparr>pid_fd = fd, pid_no = page_no rid\<rparr> :: PageId"
  have rp: "record_page ?h (page_no rid)" by (rule abs_record [OF ok r])
  obtain f b1 x where f: "fetch_page ?pid (rm_bp s) = (Inr (Some f), b1)" "frame_data b1 f = x" "page_id (pages b1 ! f) = ?pid"
    "content (rm_bp s) ?pid = Some x" "page_wf ?h x"
    and w: "\<And>y h'. page_wf ?h y \<Longrightarrow> file_ok h' ((pages_of fd (rm_bp s))(page_no rid \<mapsto> y)) \<Longrightarrow>
      num_pages h' = num_pages ?h \<Longrightarrow> same_layout ?h h' \<Longrightarrow>
      \<exists>b2. unpin_page ?pid True (poke f y b1) = (True, b2) \<and> table_step fd s (s\<lparr>rm_bp := b2, rm_hdr := h'\<rparr>)
        \<and> rm_abs fd (s\<lparr>rm_bp := b2, rm_hdr := h'\<rparr>) = file_recs h' ((pages_of fd (rm_bp s))(page_no rid \<mapsto> y))"
    by (rule write_page_of_table [OF ok rp], rule that)
  let ?x1 = "stamp_lsn (so_far_lsn (rm_txn s)) (page_dirty (pages b1 ! f)) x"
  note st = stamp_lsn_page [OF f(5), of "so_far_lsn (rm_txn s)" "page_dirty (pages b1 ! f)"]
  obtain s' where s': "finish_delete f rid ?x1 (s\<lparr>rm_bp := poke f ?x1 b1\<rparr>) = (Inr (), s')" "table_step fd s s'"
    "rm_abs fd s' = (rm_abs fd s)(rid := None)"
    by (rule finish_delete_spec [OF ok r f(4) st, of f "poke f ?x1 b1"]) (use w f(3) in auto)
  have "delete_record fd True rid s = (Inr (), s')"
    using f(1,2) s'(1) by (simp add: delete_record_def rm_run)
  then show thesis using s'(2,3) by (rule that)
qed

lemma delete_record_recovery_spec:
  assumes ok: "rm_ok fd s" and r: "rm_abs fd s rid = Some v"
  obtains s' where "delete_record_recovery fd rid s = (Inr (), s')" and "table_step fd s s'"
    and "rm_abs fd s' = (rm_abs fd s)(rid := None)"
proof -
  let ?h = "rm_hdr s" and ?pid = "\<lparr>pid_fd = fd, pid_no = page_no rid\<rparr> :: PageId"
  have rp: "record_page ?h (page_no rid)" by (rule abs_record [OF ok r])
  obtain f b1 x where f: "fetch_page ?pid (rm_bp s) = (Inr (Some f), b1)" "frame_data b1 f = x" "page_id (pages b1 ! f) = ?pid"
    "content (rm_bp s) ?pid = Some x" "page_wf ?h x"
    and w: "\<And>y h'. page_wf ?h y \<Longrightarrow> file_ok h' ((pages_of fd (rm_bp s))(page_no rid \<mapsto> y)) \<Longrightarrow>
      num_pages h' = num_pages ?h \<Longrightarrow> same_layout ?h h' \<Longrightarrow>
      \<exists>b2. unpin_page ?pid True (poke f y b1) = (True, b2) \<and> table_step fd s (s\<lparr>rm_bp := b2, rm_hdr := h'\<rparr>)
        \<and> rm_abs fd (s\<lparr>rm_bp := b2, rm_hdr := h'\<rparr>) = file_recs h' ((pages_of fd (rm_bp s))(page_no rid \<mapsto> y))"
    by (rule write_page_of_table [OF ok rp], rule that)
  obtain s' where s': "finish_delete f rid x (s\<lparr>rm_bp := b1\<rparr>) = (Inr (), s')" "table_step fd s s'"
    "rm_abs fd s' = (rm_abs fd s)(rid := None)"
    by (rule finish_delete_spec [OF ok r f(4,5) refl refl refl, of f b1]) (use w f(3) in auto)
  have "delete_record_recovery fd rid s = (Inr (), s')"
    using f(1,2) s'(1) by (simp add: delete_record_recovery_def rm_run)
  then show thesis using s'(2,3) by (rule that)
qed

section \<open>Insertion\<close>

lemma unpin_page_disk: "disk (snd (unpin_page pid w b)) = disk b"
  by (simp add: unpin_page_def Let_def upd_page_def split: option.splits)

text \<open>The page a record goes to: the head of the free list, or a new page.\<close>

lemma fetch_free_spec:
  assumes ok: "rm_ok fd s" and room: "first_free_page_no (rm_hdr s) = RM_NO_PAGE \<Longrightarrow> page_in_range (num_pages (rm_hdr s))"
  obtains f b1 h1 p x where "fetch_free_page_handle fd s = (Inr f, s\<lparr>rm_bp := b1, rm_hdr := h1\<rparr>)" and "frame_data b1 f = x"
    and "page_id (pages b1 ! f) = \<lparr>pid_fd = fd, pid_no = p\<rparr>" and "page_wf h1 x"
    and "num_records x < num_records_per_page h1" and "first_free_page_no h1 = p" and "record_page h1 p"
    and "same_layout (rm_hdr s) h1" and "file_ok h1 ((pages_of fd (rm_bp s))(p \<mapsto> x))"
    and "file_recs h1 ((pages_of fd (rm_bp s))(p \<mapsto> x)) = rm_abs fd s" and "page_in_range p"
    and "fd2path (disk b1) = fd2path (disk (rm_bp s))"
    and "\<And>y h'. page_wf h1 y \<Longrightarrow> file_ok h' ((pages_of fd (rm_bp s))(p \<mapsto> y)) \<Longrightarrow>
      num_pages h' = num_pages h1 \<Longrightarrow> same_layout (rm_hdr s) h' \<Longrightarrow>
      \<exists>b2. unpin_page \<lparr>pid_fd = fd, pid_no = p\<rparr> True (poke f y b1) = (True, b2)
        \<and> table_ok fd h' b2 \<and> other_tables fd (rm_bp s) b2 \<and> pins b2 = pins (rm_bp s) \<and> pool_size b2 = pool_size (rm_bp s)
        \<and> file_recs h' (pages_of fd b2) = file_recs h' ((pages_of fd (rm_bp s))(p \<mapsto> y))"
proof (cases "first_free_page_no (rm_hdr s) = RM_NO_PAGE")
  case True
  let ?h = "rm_hdr s" and ?p = "num_pages (rm_hdr s)" and ?g = "pages_of fd (rm_bp s)"
  let ?pid = "\<lparr>pid_fd = fd, pid_no = ?p\<rparr> :: PageId" and ?x = "init_page_hdr zero_page"
  let ?h1 = "?h\<lparr>num_pages := num_pages ?h + 1, first_free_page_no := ?p\<rparr>"
  have t: "table_ok fd ?h (rm_bp s)" using ok by (simp add: rm_ok_def)
  note td = table_okD [OF t] and fd = file_okD [OF table_okD(2) [OF t]]
  have pid: "?pid = \<lparr>pid_fd = fd, pid_no = fd2pageno (disk (rm_bp s)) fd\<rparr>" using td(5) by simp
  obtain f b1 where n: "new_page fd (rm_bp s) = (Inr (Some (f, ?pid)), b1)" "frame_data b1 f = zero_page"
    "page_table b1 ?pid = Some f" "bp_ok b1" "page_id (pages b1 ! f) = ?pid"
    and w: "\<And>y. length y = PAGE_SIZE \<Longrightarrow> \<exists>b2. unpin_page ?pid True (poke f y b1) = (True, b2)
      \<and> grows fd (rm_bp s) b2 \<and> content b2 ?pid = Some y"
    by (rule calm_new [OF td(1,3,4) pid td(8) [OF room [OF True]] td(7)], simp add: record_page_def, rule that)
  note i = init_page [OF fd(1)]
  have fg: "file_ok ?h1 (?g(?p \<mapsto> ?x))" "file_recs ?h1 (?g(?p \<mapsto> ?x)) = file_recs ?h ?g"
    by (rule file_grow [OF table_okD(2) [OF t] True refl]; simp add: i RM_NO_PAGE_def)+
  have lay: "same_layout ?h ?h1" by simp
  have path: "fd2path (disk b1) = fd2path (disk (rm_bp s))"
  proof -
    obtain b2 where "unpin_page ?pid True (poke f zero_page b1) = (True, b2)" "grows fd (rm_bp s) b2"
      using w [of zero_page] by (auto simp: zero_page_def)
    then show ?thesis using unpin_page_disk [of ?pid True "poke f zero_page b1"] growsD(2) [of fd "rm_bp s" b2] by simp
  qed
  show thesis
  proof (rule that [where f = f and ?b1.0 = "poke f ?x b1" and ?h1.0 = ?h1 and x = ?x and p = ?p])
    show "fetch_free_page_handle fd s = (Inr f, s\<lparr>rm_bp := poke f ?x b1, rm_hdr := ?h1\<rparr>)"
      using True n(1,2) by (simp add: fetch_free_page_handle_def rm_run RM_NO_PAGE_def assertE_def)
    show "frame_data (poke f ?x b1) f = ?x" by (rule frame_data_poke [OF n(4,3)])
    show "page_wf ?h1 ?x" using i(1) same_layout_simps(5) [OF lay] by simp
    show "num_records ?x < num_records_per_page ?h1" using i(3) fd(1) by (simp add: hdr_wf_def)
    show "record_page ?h1 ?p" using fd(2) by (simp add: record_page_def)
    show "page_in_range ?p" by (rule room [OF True])
    show "\<exists>b2. unpin_page ?pid True (poke f y (poke f ?x b1)) = (True, b2)
        \<and> table_ok fd h' b2 \<and> other_tables fd (rm_bp s) b2 \<and> pins b2 = pins (rm_bp s) \<and> pool_size b2 = pool_size (rm_bp s)
        \<and> file_recs h' (pages_of fd b2) = file_recs h' (?g(?p \<mapsto> y))"
      if y: "page_wf ?h1 y" and fk: "file_ok h' (?g(?p \<mapsto> y))" and np: "num_pages h' = num_pages ?h1" for y h'
    proof -
      obtain b2 where b2: "unpin_page ?pid True (poke f y b1) = (True, b2)" "grows fd (rm_bp s) b2" "content b2 ?pid = Some y"
        using w [OF page_wf_len [OF y]] by blast
      have np': "num_pages h' = ?p + 1" using np by simp
      note tg = table_grow [OF t refl room [OF True] np' b2(2,3) fk]
      with b2(1) growsD(3,7) [OF b2(2)] show ?thesis by auto
    qed
  qed (use n(5) fg path lay in \<open>simp_all add: rm_abs_def\<close>)
next
  case False
  let ?h = "rm_hdr s" and ?p = "first_free_page_no (rm_hdr s)" and ?g = "pages_of fd (rm_bp s)"
  have t: "table_ok fd ?h (rm_bp s)" using ok by (simp add: rm_ok_def)
  have fk: "file_ok ?h ?g" by (rule table_okD(2) [OF t])
  obtain x where x: "record_page ?h ?p" "?g ?p = Some x" "page_wf ?h x" "num_records x < num_records_per_page ?h"
    by (rule first_free [OF fk False], rule that)
  obtain f b1 where f: "fetch_page \<lparr>pid_fd = fd, pid_no = ?p\<rparr> (rm_bp s) = (Inr (Some f), b1)" "frame_data b1 f = x"
    "page_id (pages b1 ! f) = \<lparr>pid_fd = fd, pid_no = ?p\<rparr>"
    and w: "\<And>y h'. page_wf ?h y \<Longrightarrow> file_ok h' (?g(?p \<mapsto> y)) \<Longrightarrow> num_pages h' = num_pages ?h \<Longrightarrow> same_layout ?h h' \<Longrightarrow>
      \<exists>b2. unpin_page \<lparr>pid_fd = fd, pid_no = ?p\<rparr> True (poke f y b1) = (True, b2)
        \<and> table_step fd s (s\<lparr>rm_bp := b2, rm_hdr := h'\<rparr>)
        \<and> rm_abs fd (s\<lparr>rm_bp := b2, rm_hdr := h'\<rparr>) = file_recs h' (?g(?p \<mapsto> y))"
    by (rule write_page_of_table [OF ok x(1)]) (use x(2) in \<open>simp add: pages_of_def\<close>)
  have same: "?g(?p \<mapsto> x) = ?g" using x(2) by auto
  have v: "valid_pid (disk (rm_bp s)) \<lparr>pid_fd = fd, pid_no = ?p\<rparr>" by (rule table_okD(8) [OF t table_okD(6) [OF t x(1)]])
  have bk: "bp_ok (rm_bp s)" using table_okD(1) [OF t] by (simp add: calm_def)
  have path: "fd2path (disk b1) = fd2path (disk (rm_bp s))"
    using pool.fetch_law [OF bk v f(1)] by simp
  show thesis
  proof (rule that [where f = f and ?b1.0 = b1 and ?h1.0 = ?h and x = x and p = ?p])
    show "fetch_free_page_handle fd s = (Inr f, s\<lparr>rm_bp := b1, rm_hdr := ?h\<rparr>)"
      using False f(1) by (simp add: fetch_free_page_handle_def rm_run RM_NO_PAGE_def assertE_def)
    show "page_in_range ?p" by (rule table_okD(6) [OF t x(1)])
    show "\<exists>b2. unpin_page \<lparr>pid_fd = fd, pid_no = ?p\<rparr> True (poke f y b1) = (True, b2)
        \<and> table_ok fd h' b2 \<and> other_tables fd (rm_bp s) b2 \<and> pins b2 = pins (rm_bp s) \<and> pool_size b2 = pool_size (rm_bp s)
        \<and> file_recs h' (pages_of fd b2) = file_recs h' (?g(?p \<mapsto> y))"
      if "page_wf ?h y" "file_ok h' (?g(?p \<mapsto> y))" "num_pages h' = num_pages ?h" "same_layout ?h h'" for y h'
      using w [OF that] by (auto simp: table_step_def rm_ok_def rm_abs_def)
  qed (use f x fk same path in \<open>simp_all add: rm_abs_def\<close>)
qed

lemma free_slot:
  assumes h: "hdr_wf h" and wf: "page_wf h x" and lt: "num_records x < num_records_per_page h"
  obtains i where "List.find (\<lambda>i. \<not> is_set (bitmap_at x) i) [0..<nat (num_records_per_page h)] = Some i"
    and "i < nat (num_records_per_page h)" and "\<not> is_set (bitmap_at x) i"
    and "\<And>j. j < i \<Longrightarrow> is_set (bitmap_at x) j"
proof -
  let ?n = "nat (num_records_per_page h)" and ?P = "\<lambda>i. \<not> is_set (bitmap_at x) i"
  have "List.find ?P [0..<?n] \<noteq> None"
  proof
    assume "List.find ?P [0..<?n] = None"
    then have "bits_of (bitmap_at x) ?n = {..<?n}" by (auto simp: find_None_iff bits_of_def)
    with wf lt h show False by (auto simp: page_wf_def hdr_wf_def)
  qed
  then obtain i where i: "List.find ?P [0..<?n] = Some i" by blast
  then obtain k where k: "k < length [0..<?n]" "?P ([0..<?n] ! k)" "i = [0..<?n] ! k" "\<forall>j<k. \<not> ?P ([0..<?n] ! j)"
    by (auto simp: find_Some_iff)
  then show thesis using that [OF i] by auto
qed

lemma insert_into_first:
  assumes ok: "file_ok h (g(p \<mapsto> x))" and p: "first_free_page_no h = p" "record_page h p" and x: "page_wf h x"
    and lt: "num_records x < num_records_per_page h"
    and x1: "page_wf h x1" "page_recs h x1 = page_recs h x" "next_free_page_no x1 = next_free_page_no x" "num_records x1 = num_records x"
    and i: "i < nat (num_records_per_page h)" "\<not> is_set (bitmap_at x) i" and buf: "nat (record_size h) \<le> length buf"
    and y: "y = page_insert h i buf x1"
    and h': "h' = (if num_records y = num_records_per_page h then h\<lparr>first_free_page_no := next_free_page_no y\<rparr> else h)"
  shows "page_wf h y" and "file_ok h' (g(p \<mapsto> y))" and "num_pages h' = num_pages h" and "same_layout h h'"
    and "file_recs h' (g(p \<mapsto> y)) = (file_recs h (g(p \<mapsto> x)))(\<lparr>page_no = p, slot_no = int i\<rparr> \<mapsto> take (nat (record_size h)) buf)"
    and "file_recs h (g(p \<mapsto> x)) \<lparr>page_no = p, slot_no = int i\<rparr> = None"
proof -
  have hw: "hdr_wf h" by (rule file_okD(1) [OF ok])
  have "\<not> is_set (bitmap_at x1) i"
    using fun_cong [OF x1(2), of i] i by (simp add: page_recs_def split: if_splits)
  note pi = page_insert_page [OF hw x1(1) i(1) this buf, folded y]
  show wf: "page_wf h y" by (rule pi(1))
  show np: "num_pages h' = num_pages h" and lay: "same_layout h h'" by (simp_all add: h')
  have gx: "(g(p \<mapsto> x)) p = Some x" by simp
  have "file_ok h' ((g(p \<mapsto> x))(p \<mapsto> y))"
  proof (cases "num_records y = num_records_per_page h")
    case True
    have "p \<noteq> RM_NO_PAGE" using p(2) by (simp add: record_page_def RM_NO_PAGE_def)
    with file_upd_leave [where g = "g(p \<mapsto> x)", OF ok p(1) _ gx wf _ True] pi(4) x1(3) True show ?thesis by (simp add: h')
  next
    case False
    with file_upd_stay [where g = "g(p \<mapsto> x)", OF ok p(2) gx wf] pi(3,4) x1(3,4) lt show ?thesis by (simp add: h')
  qed
  then show "file_ok h' (g(p \<mapsto> y))" by simp
  have "page_recs h y = (page_recs h x)(i := Some (take (nat (record_size h)) buf))" using pi(2) x1(2) by simp
  from recs_upd [where g = "g(p \<mapsto> x)", OF lay np p(2) gx i(1) this]
  show "file_recs h' (g(p \<mapsto> y)) = (file_recs h (g(p \<mapsto> x)))(\<lparr>page_no = p, slot_no = int i\<rparr> \<mapsto> take (nat (record_size h)) buf)"
    by simp
  show "file_recs h (g(p \<mapsto> x)) \<lparr>page_no = p, slot_no = int i\<rparr> = None"
    using i p(2) by (simp add: file_recs_def page_recs_def)
qed

text \<open>The transaction may write and the log buffer has room for the record of one insertion.\<close>

definition log_ready :: "int \<Rightarrow> RmSys \<Rightarrow> bool" where
  "log_ready fd s \<longleftrightarrow> log_ok (rm_log s) \<and> (txn_state (rm_txn s) = DEFAULT \<or> txn_state (rm_txn s) = GROWING)
     \<and> in_i32 (txn_id (rm_txn s)) \<and> in_i32 (so_far_lsn (rm_txn s)) \<and> in_i32 (global_lsn (rm_log s))
     \<and> log_offset (rm_log s) + 44 + nat (record_size (rm_hdr s)) + length (the (fd2path (disk (rm_bp s)) fd)) \<le> nat LOG_BUFFER_SIZE"

definition insert_write :: "int \<Rightarrow> nat \<Rightarrow> RmSys \<Rightarrow> Rid \<Rightarrow> bytes \<Rightarrow> WriteRecord" where
  "insert_write fd addr s rid v = WriteRecord_delete addr INSERT_TUPLE (the (fd2path (disk (rm_bp s)) fd)) rid v"

text \<open>What an insertion leaves in the log buffer and in the transaction.\<close>

definition logged_insert :: "int \<Rightarrow> nat \<Rightarrow> RmSys \<Rightarrow> Rid \<Rightarrow> bytes \<Rightarrow> LogManager \<Rightarrow> Transaction \<Rightarrow> bool" where
  "logged_insert fd addr s rid v lm t \<longleftrightarrow>
     log_ok lm \<and> pending lm = pending (rm_log s) @ any_bytes (set_lsns (global_lsn (rm_log s)) (so_far_lsn (rm_txn s))
       (LInsert (InsertLogRecord (txn_id (rm_txn s)) v rid (the (fd2path (disk (rm_bp s)) fd)))))
     \<and> t = append_write_record (insert_write fd addr s rid v) ((rm_txn s)\<lparr>so_far_lsn := global_lsn (rm_log s)\<rparr>)"

lemma log_insert_spec:
  assumes r: "log_ready fd s" and path: "fd2path (disk (rm_bp s)) fd = Some tab" and rid: "rid_in_range rid"
    and v: "length v = nat (record_size (rm_hdr s))"
  obtains lm t where "log_insert fd addr rid v s = (Inr (), s\<lparr>rm_log := lm, rm_txn := t\<rparr>)" and "logged_insert fd addr s rid v lm t"
proof -
  let ?lm = "rm_log s" and ?t = "rm_txn s" and ?w = "WriteRecord_delete addr INSERT_TUPLE tab rid v"
  let ?log = "LInsert (InsertLogRecord (txn_id ?t) v rid tab)"
  let ?r = "set_lsns (global_lsn ?lm) (so_far_lsn ?t) ?log"
  have sz: "log_offset ?lm + 44 + length v + length tab \<le> nat LOG_BUFFER_SIZE" using r path v by (simp add: log_ready_def)
  have big: "nat LOG_BUFFER_SIZE = 4194304" by (simp add: LOG_BUFFER_SIZE_def PAGE_SIZE_def)
  have log: "log_of_write (txn_id ?t) ?w = Inr ?log" by (simp add: log_of_write_def WriteRecord_delete_def)
  have s48: "48 + 2 * length v + length (tab_name ?w) < 2 ^ 31" using sz big by (simp add: WriteRecord_delete_def)
  have rok: "any_ok ?r"
    by (rule log_of_write_ok [of ?w v "txn_id ?t" "global_lsn ?lm" "so_far_lsn ?t", OF _ s48])
      (use r rid log in \<open>auto simp: WriteRecord_delete_def log_ready_def\<close>)
  have room: "room_for ?lm ?r"
    using sz by (simp add: room_for_def InsertLogRecord_def length_row_bytes row_simps)
  have lok: "log_ok ?lm" using r by (simp add: log_ready_def)
  obtain lm' where lm': "gen_log_from_write_set ?t ?w (?lm, disk (rm_bp s)) =
      (Inr (global_lsn ?lm, ?t\<lparr>so_far_lsn := global_lsn ?lm\<rparr>), (lm', disk (rm_bp s)))" "appends ?lm ?r lm'"
    by (rule gen_log_from_write_set_spec [OF lok log refl rok room], rule that)
  let ?t' = "append_write_record ?w (?t\<lparr>so_far_lsn := global_lsn ?lm\<rparr>)"
  have st: "txn_state ?t = DEFAULT \<or> txn_state ?t = GROWING" using r by (simp add: log_ready_def)
  have "log_insert fd addr rid v s = (Inr (), s\<lparr>rm_log := lm', rm_txn := ?t'\<rparr>)"
    using st path lm'(1) by (simp add: log_insert_def rm_run in_log_def lift_disk_def get_file_name_def Let_def)
  then show thesis
    by (rule that) (use lm'(2) path in \<open>simp add: logged_insert_def appends_def insert_write_def\<close>)
qed

lemma insert_record_spec:
  assumes ok: "rm_ok fd s" and room: "first_free_page_no (rm_hdr s) = RM_NO_PAGE \<Longrightarrow> page_in_range (num_pages (rm_hdr s))"
    and buf: "nat (record_size (rm_hdr s)) \<le> length buf" and ctx: "ctx \<Longrightarrow> log_ready fd s"
  obtains rid s' where "insert_record fd ctx addr buf s = (Inr rid, s')" and "table_step fd s s'"
    and "rm_abs fd s rid = None" and "rm_abs fd s' = (rm_abs fd s)(rid \<mapsto> take (nat (record_size (rm_hdr s))) buf)"
    and "if ctx then logged_insert fd addr s rid (take (nat (record_size (rm_hdr s))) buf) (rm_log s') (rm_txn s')
      else rm_log s' = rm_log s \<and> rm_txn s' = rm_txn s"
proof -
  let ?h = "rm_hdr s" and ?g = "pages_of fd (rm_bp s)"
  let ?v = "take (nat (record_size ?h)) buf"
  obtain f b1 h1 p x where f: "fetch_free_page_handle fd s = (Inr f, s\<lparr>rm_bp := b1, rm_hdr := h1\<rparr>)" "frame_data b1 f = x"
    "page_id (pages b1 ! f) = \<lparr>pid_fd = fd, pid_no = p\<rparr>" "page_wf h1 x"
    "num_records x < num_records_per_page h1" "first_free_page_no h1 = p" "record_page h1 p"
    "same_layout ?h h1" "file_ok h1 (?g(p \<mapsto> x))" "file_recs h1 (?g(p \<mapsto> x)) = rm_abs fd s" "page_in_range p"
    "fd2path (disk b1) = fd2path (disk (rm_bp s))"
    and w: "\<And>y h'. page_wf h1 y \<Longrightarrow> file_ok h' (?g(p \<mapsto> y)) \<Longrightarrow> num_pages h' = num_pages h1 \<Longrightarrow> same_layout ?h h' \<Longrightarrow>
      \<exists>b2. unpin_page \<lparr>pid_fd = fd, pid_no = p\<rparr> True (poke f y b1) = (True, b2)
        \<and> table_ok fd h' b2 \<and> other_tables fd (rm_bp s) b2 \<and> pins b2 = pins (rm_bp s) \<and> pool_size b2 = pool_size (rm_bp s)
        \<and> file_recs h' (pages_of fd b2) = file_recs h' (?g(p \<mapsto> y))"
    by (rule fetch_free_spec [OF ok room], assumption, rule that)
  have rs: "record_size h1 = record_size ?h" using f(8) by (simp add: same_layout_def)
  have hw: "hdr_wf h1" by (rule file_okD(1) [OF f(9)])
  obtain i where i: "List.find (\<lambda>i. \<not> is_set (bitmap_at x) i) [0..<nat (num_records_per_page h1)] = Some i"
    "i < nat (num_records_per_page h1)" "\<not> is_set (bitmap_at x) i"
    by (rule free_slot [OF hw f(4,5)], rule that)
  let ?rid = "\<lparr>page_no = p, slot_no = int i\<rparr> :: Rid"
  let ?s1 = "s\<lparr>rm_bp := b1, rm_hdr := h1\<rparr>"
  have v: "length ?v = nat (record_size (rm_hdr ?s1))" using buf rs by simp
  obtain tab where tab: "fd2path (disk b1) fd = Some tab"
    using ok f(12) by (auto simp: rm_ok_def table_ok_def)
  have ridr: "rid_in_range ?rid"
    using f(11) i(2) num_records_bound(3) [OF f(4) hw]
    by (auto simp: rid_in_range_def in_i32_def page_in_range_def PAGE_SIZE_def)
  have "\<exists>lm t. (if ctx then log_insert fd addr ?rid ?v else returnE ()) ?s1 = (Inr (), ?s1\<lparr>rm_log := lm, rm_txn := t\<rparr>)
      \<and> (if ctx then logged_insert fd addr s ?rid ?v lm t else lm = rm_log s \<and> t = rm_txn s)"
  proof (cases ctx)
    case True
    have lr: "log_ready fd ?s1" using ctx [OF True] f(12) rs by (simp add: log_ready_def)
    have fp: "fd2path (disk (rm_bp ?s1)) fd = Some tab" using tab by simp
    obtain lm t where
      "log_insert fd addr ?rid ?v ?s1 = (Inr (), ?s1\<lparr>rm_log := lm, rm_txn := t\<rparr>)" "logged_insert fd addr ?s1 ?rid ?v lm t"
      by (rule log_insert_spec [OF lr fp ridr v, where addr = addr], rule that)
    with True f(12) show ?thesis by (auto simp: logged_insert_def insert_write_def)
  qed (auto simp: returnE_def)
  then obtain lm t where lg: "(if ctx then log_insert fd addr ?rid ?v else returnE ()) ?s1 = (Inr (), ?s1\<lparr>rm_log := lm, rm_txn := t\<rparr>)"
    "if ctx then logged_insert fd addr s ?rid ?v lm t else lm = rm_log s \<and> t = rm_txn s" by blast
  define x1 where "x1 = (if ctx then stamp_lsn (so_far_lsn t) (page_dirty (pages b1 ! f)) x else x)"
  define y where "y = page_insert h1 i buf x1"
  define h' where "h' = (if num_records y = num_records_per_page h1 then h1\<lparr>first_free_page_no := next_free_page_no y\<rparr> else h1)"
  have x1: "page_wf h1 x1" "page_recs h1 x1 = page_recs h1 x" "next_free_page_no x1 = next_free_page_no x" "num_records x1 = num_records x"
    unfolding x1_def using f(4) stamp_lsn_page [OF f(4)] by simp_all
  have buf1: "nat (record_size h1) \<le> length buf" using buf rs by simp
  note ins = insert_into_first [OF f(9,6,7,4,5) x1 i(2,3) buf1 y_def h'_def]
  have "same_layout ?h h'" using ins(4) f(8) by (simp add: same_layout_def)
  from w [OF ins(1,2,3) this] obtain b2 where b2: "unpin_page \<lparr>pid_fd = fd, pid_no = p\<rparr> True (poke f y b1) = (True, b2)"
    "table_ok fd h' b2" "other_tables fd (rm_bp s) b2" "pins b2 = pins (rm_bp s)"
    "file_recs h' (pages_of fd b2) = file_recs h' (?g(p \<mapsto> y))" "pool_size b2 = pool_size (rm_bp s)" by blast
  let ?s' = "?s1\<lparr>rm_log := lm, rm_txn := t, rm_hdr := h', rm_bp := b2\<rparr>"
  have nl: "\<not> length buf < nat (record_size h1)" using buf1 by simp
  have "insert_record fd ctx addr buf s = (Inr ?rid, ?s')"
    using f(1,2,3) i(1) nl lg b2(1)
    by (cases ctx) (auto simp: insert_record_def rm_run Let_def x1_def y_def h'_def rs)
  then show thesis
  proof (rule that)
    show "table_step fd s ?s'" using b2(2-4,6) \<open>same_layout ?h h'\<close> by (simp add: table_step_def rm_ok_def)
    show "rm_abs fd s ?rid = None" using ins(6) f(10) by simp
    show "rm_abs fd ?s' = (rm_abs fd s)(?rid \<mapsto> ?v)" using ins(5) b2(5) f(10) rs by (simp add: rm_abs_def)
  qed (use lg(2) in simp)
qed

end
