(* ===== verification/Rm_Scan.thy ===== *)
theory Rm_Scan
  imports Rm_Ops
begin

text \<open>
  The scan interface \<^verbatim>\<open>RecScan\<close> (\<^verbatim>\<open>defs.h\<close>: \<^verbatim>\<open>next\<close>, \<^verbatim>\<open>is_end\<close>, \<^verbatim>\<open>rid\<close>) as a locale, the loop its
  clients run, and \<^verbatim>\<open>RmScan\<close> as an implementation that visits every record of a table once, in
  the order of the file.
\<close>

section \<open>The interface\<close>

text \<open>The clients' loop \<^verbatim>\<open>while (!scan->is_end()) { use(scan->rid()); scan->next(); }\<close>, with fuel.\<close>

fun scan_loop :: "('r \<Rightarrow> ('s, 'r) stm) \<Rightarrow> ('r \<Rightarrow> bool) \<Rightarrow> nat \<Rightarrow> 'r \<Rightarrow> 's \<Rightarrow> ((exc + 'r list) \<times> 's) option" where
  "scan_loop nxt fin fuel r s =
     (if fin r then Some (Inr [], s)
      else case fuel of 0 \<Rightarrow> None
      | Suc n \<Rightarrow> (case nxt r s of (Inl e, s') \<Rightarrow> Some (Inl e, s')
                 | (Inr r', s') \<Rightarrow> (case scan_loop nxt fin n r' s' of
                      None \<Rightarrow> None
                    | Some (Inl e, s'') \<Rightarrow> Some (Inl e, s'')
                    | Some (Inr rs, s'') \<Rightarrow> Some (Inr (r # rs), s''))))"

declare scan_loop.simps [simp del]

locale rec_scan =
  fixes inv :: "'s \<Rightarrow> bool" and items :: "'s \<Rightarrow> 'r list" and init :: "('s, 'r) stm" and nxt :: "'r \<Rightarrow> ('s, 'r) stm"
    and fin :: "'r \<Rightarrow> bool" and keeps :: "'s \<Rightarrow> 's \<Rightarrow> bool"
  assumes init_law: "inv s \<Longrightarrow> \<exists>r s'. init s = (Inr r, s') \<and> keeps s s'
      \<and> (case items s of [] \<Rightarrow> fin r | x # _ \<Rightarrow> r = x)"
    and next_law: "inv s \<Longrightarrow> items s = xs @ r # ys \<Longrightarrow> \<exists>r' s'. nxt r s = (Inr r', s') \<and> keeps s s'
      \<and> (case ys of [] \<Rightarrow> fin r' | y # _ \<Rightarrow> r' = y)"
    and item_not_end: "inv s \<Longrightarrow> r \<in> set (items s) \<Longrightarrow> \<not> fin r"
    and keeps_law: "inv s \<Longrightarrow> keeps s s' \<Longrightarrow> inv s' \<and> items s' = items s"
    and keeps_refl: "inv s \<Longrightarrow> keeps s s"
    and keeps_trans: "keeps s s' \<Longrightarrow> keeps s' s'' \<Longrightarrow> keeps s s''"
begin

lemma loop_rest:
  "inv s \<Longrightarrow> items s = xs @ ys \<Longrightarrow> (case ys of [] \<Rightarrow> fin r | y # _ \<Rightarrow> r = y) \<Longrightarrow> length ys \<le> fuel \<Longrightarrow>
   \<exists>s'. scan_loop nxt fin fuel r s = Some (Inr ys, s') \<and> keeps s s'"
proof (induction ys arbitrary: xs r s fuel)
  case Nil
  then show ?case using keeps_refl by (auto simp: scan_loop.simps)
next
  case (Cons y ys)
  then obtain n where n: "fuel = Suc n" "length ys \<le> n" by (cases fuel) auto
  have r: "r = y" and ne: "\<not> fin y" using Cons.prems item_not_end [of s y] by simp_all
  obtain r' s1 where s1: "nxt y s = (Inr r', s1)" "keeps s s1" "case ys of [] \<Rightarrow> fin r' | z # _ \<Rightarrow> r' = z"
    using next_law [OF Cons.prems(1,2)] by blast
  have i1: "inv s1" "items s1 = (xs @ [y]) @ ys" using keeps_law [OF Cons.prems(1) s1(2)] Cons.prems(2) by simp_all
  from Cons.IH [OF i1 s1(3) n(2)] obtain s' where "scan_loop nxt fin n r' s1 = Some (Inr ys, s')" "keeps s1 s'" by blast
  then show ?case using s1 keeps_trans ne r n(1) by (subst scan_loop.simps) auto
qed

text \<open>The loop ends and visits every item once, in order.\<close>

lemma loop_visits_all:
  assumes "inv s"
  obtains r s1 s2 where "init s = (Inr r, s1)" and "keeps s s2"
    and "scan_loop nxt fin (length (items s)) r s1 = Some (Inr (items s), s2)"
proof -
  obtain r s1 where s1: "init s = (Inr r, s1)" "keeps s s1" "case items s of [] \<Rightarrow> fin r | x # _ \<Rightarrow> r = x"
    using init_law [OF assms] by blast
  note k = keeps_law [OF assms s1(2)]
  obtain s2 where "scan_loop nxt fin (length (items s)) r s1 = Some (Inr (items s), s2)" "keeps s1 s2"
    using loop_rest [of s1 "[]" "items s" r "length (items s)"] k s1(3) by auto
  then show thesis using that [OF s1(1)] keeps_trans [OF s1(2)] by blast
qed

end

section \<open>The records of a table in file order\<close>

definition slots_from :: "RmFileHdr \<Rightarrow> (Rid \<rightharpoonup> bytes) \<Rightarrow> int \<Rightarrow> nat \<Rightarrow> Rid list" where
  "slots_from h a p j = map (\<lambda>k. \<lparr>page_no = p, slot_no = int k\<rparr>)
     (filter (\<lambda>k. a \<lparr>page_no = p, slot_no = int k\<rparr> \<noteq> None) [j..<nat (num_records_per_page h)])"

definition rids_from :: "RmFileHdr \<Rightarrow> (Rid \<rightharpoonup> bytes) \<Rightarrow> int \<Rightarrow> Rid list" where
  "rids_from h a i = concat (map (\<lambda>p. slots_from h a p 0) [i..num_pages h - 1])"

definition table_rids :: "int \<Rightarrow> RmSys \<Rightarrow> Rid list" where
  "table_rids fd s = rids_from (rm_hdr s) (rm_abs fd s) 1"

definition END_RID :: Rid where "END_RID = \<lparr>page_no = INVALID_PAGE_ID, slot_no = -1\<rparr>"

lemma find_filter: "List.find P xs = (case filter P xs of [] \<Rightarrow> None | x # _ \<Rightarrow> Some x)"
  by (induction xs) auto

lemma scan_step:
  assumes ok: "rm_ok fd s" and i: "1 \<le> i" "i < num_pages (rm_hdr s)"
  obtains s' where "only_read fd s s'"
    and "scan_from fd (rm_hdr s) i j s =
      (case slots_from (rm_hdr s) (rm_abs fd s) i j of r # _ \<Rightarrow> (Inr r, s') | [] \<Rightarrow> scan_from fd (rm_hdr s) (i + 1) 0 s')"
proof -
  let ?h = "rm_hdr s"
  have rp: "record_page ?h i" using i by (simp add: record_page_def)
  obtain f b1 b2 x where f: "fetch_page \<lparr>pid_fd = fd, pid_no = i\<rparr> (rm_bp s) = (Inr (Some f), b1)"
    "frame_data b1 f = x" "page_id (pages b1 ! f) = \<lparr>pid_fd = fd, pid_no = i\<rparr>"
    "unpin_page \<lparr>pid_fd = fd, pid_no = i\<rparr> False b1 = (True, b2)"
    "content (rm_bp s) \<lparr>pid_fd = fd, pid_no = i\<rparr> = Some x" "only_read fd s (s\<lparr>rm_bp := b2\<rparr>)"
    by (rule read_page_of_table [OF ok rp], rule that)
  let ?L = "filter (is_set (bitmap_at x)) [j..<nat (num_records_per_page ?h)]"
  have "slots_from ?h (rm_abs fd s) i j = map (\<lambda>k. \<lparr>page_no = i, slot_no = int k\<rparr>) ?L"
    using rp f(5) unfolding slots_from_def
    by (intro arg_cong [where f = "map _"] filter_cong) (auto simp: rm_abs_def file_recs_def pages_of_def page_recs_def)
  then have "scan_from fd ?h i j s =
      (case slots_from ?h (rm_abs fd s) i j of r # _ \<Rightarrow> (Inr r, s\<lparr>rm_bp := b2\<rparr>) | [] \<Rightarrow> scan_from fd ?h (i + 1) 0 (s\<lparr>rm_bp := b2\<rparr>))"
    using f(1-4) i(2) by (subst scan_from.simps) (simp add: rm_run find_filter split: list.splits)
  with f(6) show thesis by (rule that)
qed

lemma only_readD:
  assumes "only_read fd s s'"
  shows "rm_ok fd s'" and "rm_abs fd s' = rm_abs fd s" and "rm_hdr s' = rm_hdr s" and "table_rids fd s' = table_rids fd s"
proof -
  have s': "s' = s\<lparr>rm_bp := rm_bp s'\<rparr>" using assms by (simp add: only_read_def)
  show h: "rm_hdr s' = rm_hdr s" by (subst s') simp
  show "rm_ok fd s'" "rm_abs fd s' = rm_abs fd s" using assms by (simp_all add: only_read_def)
  then show "table_rids fd s' = table_rids fd s" using h by (simp add: table_rids_def)
qed

lemma other_tables_trans: "other_tables fd b b' \<Longrightarrow> other_tables fd b' b'' \<Longrightarrow> other_tables fd b b''"
  unfolding other_tables_def by metis

lemma only_read_refl: "rm_ok fd s \<Longrightarrow> only_read fd s s"
  by (simp add: only_read_def other_tables_def)

lemma only_read_trans:
  assumes "only_read fd s s'" and "only_read fd s' s''"
  shows "only_read fd s s''"
proof -
  have "s' = s\<lparr>rm_bp := rm_bp s'\<rparr>" "s'' = s'\<lparr>rm_bp := rm_bp s''\<rparr>" using assms by (simp_all add: only_read_def)
  then have "s'' = s\<lparr>rm_bp := rm_bp s''\<rparr>" by (metis RmSys.surjective RmSys.update_convs(1))
  with assms other_tables_trans show ?thesis unfolding only_read_def by metis
qed

lemma scan_from_spec:
  assumes "rm_ok fd s" and "1 \<le> i" and "h = rm_hdr s"
  shows "\<exists>s'. only_read fd s s' \<and> scan_from fd h i j s =
    (Inr (case slots_from h (rm_abs fd s) i j @ rids_from h (rm_abs fd s) (i + 1) of r # _ \<Rightarrow> if i < num_pages h then r else END_RID
          | [] \<Rightarrow> END_RID), s')"
  using assms
proof (induction "nat (num_pages h - i)" arbitrary: i j s)
  case 0
  then show ?case using only_read_refl
    by (subst scan_from.simps) (auto simp: returnE_def END_RID_def split: list.splits)
next
  case (Suc n)
  then have i: "i < num_pages (rm_hdr s)" by simp
  obtain s1 where t1: "only_read fd s s1" "scan_from fd (rm_hdr s) i j s =
      (case slots_from (rm_hdr s) (rm_abs fd s) i j of r # _ \<Rightarrow> (Inr r, s1) | [] \<Rightarrow> scan_from fd (rm_hdr s) (i + 1) 0 s1)"
    by (rule scan_step [OF Suc.prems(1,2) i, where j = j], rule that)
  note s1 = t1(1) t1(2) [folded Suc.prems(3)]
  note o = only_readD [OF s1(1)]
  show ?case
  proof (cases "slots_from h (rm_abs fd s) i j")
    case (Cons r rs)
    with s1 i Suc.prems(3) show ?thesis by auto
  next
    case Nil
    have n: "n = nat (num_pages h - (i + 1))" "1 \<le> i + 1" "h = rm_hdr s1"
      using Suc.hyps(2) Suc.prems(2,3) o(3) by simp_all
    obtain s2 where s2: "only_read fd s1 s2" "scan_from fd h (i + 1) 0 s1 =
      (Inr (case slots_from h (rm_abs fd s) (i + 1) 0 @ rids_from h (rm_abs fd s) (i + 1 + 1) of
              r # _ \<Rightarrow> if i + 1 < num_pages h then r else END_RID | [] \<Rightarrow> END_RID), s2)"
      using Suc.hyps(1) [OF n(1) o(1) n(2,3), of 0] o(2) by auto
    have "(case slots_from h (rm_abs fd s) (i + 1) 0 @ rids_from h (rm_abs fd s) (i + 1 + 1) of
              r # _ \<Rightarrow> if i + 1 < num_pages h then r else END_RID | [] \<Rightarrow> END_RID)
      = (case rids_from h (rm_abs fd s) (i + 1) of r # _ \<Rightarrow> if i < num_pages h then r else END_RID | [] \<Rightarrow> END_RID)"
    proof (cases "i + 1 < num_pages h")
      case True
      then have "[i + 1..num_pages h - 1] = (i + 1) # [i + 1 + 1..num_pages h - 1]" by (intro upto_rec1) simp
      then have "rids_from h (rm_abs fd s) (i + 1) =
          slots_from h (rm_abs fd s) (i + 1) 0 @ rids_from h (rm_abs fd s) (i + 1 + 1)"
        by (simp add: rids_from_def)
      with True show ?thesis by (simp split: list.splits)
    qed (auto simp: rids_from_def split: list.splits)
    with s1(2) s2 Nil only_read_trans [OF s1(1) s2(1)] show ?thesis by auto
  qed
qed

lemma page_of_slots: "r \<in> set (slots_from h a p j) \<Longrightarrow> page_no r = p"
  by (auto simp: slots_from_def)

lemma distinct_slots: "distinct (slots_from h a p j)"
  by (auto simp: slots_from_def distinct_map inj_on_def)

lemma distinct_rids: "distinct ps \<Longrightarrow> distinct (concat (map (\<lambda>p. slots_from h a p j) ps))"
  by (induction ps) (auto simp: distinct_slots dest: page_of_slots)

lemma table_rids_distinct: "distinct (table_rids fd s)"
  by (simp add: table_rids_def rids_from_def distinct_rids)

lemma abs_dom:
  assumes "rm_abs fd s rid = Some v"
  shows "record_page (rm_hdr s) (page_no rid)" and "0 \<le> slot_no rid"
    and "nat (slot_no rid) < nat (num_records_per_page (rm_hdr s))"
  using assms by (auto simp: rm_abs_def file_recs_def page_recs_def split: if_splits option.splits)

lemma table_rids_set: "set (table_rids fd s) = dom (rm_abs fd s)"
proof
  show "set (table_rids fd s) \<subseteq> dom (rm_abs fd s)"
    by (auto simp: table_rids_def rids_from_def slots_from_def)
  show "dom (rm_abs fd s) \<subseteq> set (table_rids fd s)"
  proof
    fix rid
    assume "rid \<in> dom (rm_abs fd s)"
    then obtain v where v: "rm_abs fd s rid = Some v" by blast
    note d = abs_dom [OF v]
    have rid: "rid = \<lparr>page_no = page_no rid, slot_no = int (nat (slot_no rid))\<rparr>" using d(2) by simp
    then have "rid \<in> set (slots_from (rm_hdr s) (rm_abs fd s) (page_no rid) 0)"
      using d(3) v by (auto simp: slots_from_def intro!: image_eqI [of _ _ "nat (slot_no rid)"])
    with d(1) show "rid \<in> set (table_rids fd s)"
      by (auto simp: table_rids_def rids_from_def record_page_def)
  qed
qed

text \<open>The records behind a position.\<close>

lemma rids_split:
  assumes "rm_abs fd s rid = Some v"
  obtains xs where "table_rids fd s = xs @ rid # (slots_from (rm_hdr s) (rm_abs fd s) (page_no rid) (nat (slot_no rid + 1))
      @ rids_from (rm_hdr s) (rm_abs fd s) (page_no rid + 1))"
proof -
  let ?h = "rm_hdr s" and ?a = "rm_abs fd s" and ?p = "page_no rid"
  note d = abs_dom [OF assms]
  obtain i where i: "slot_no rid = int i" using d(2) nonneg_int_cases by blast
  then have rid: "\<lparr>page_no = ?p, slot_no = int i\<rparr> = rid" by simp
  have ai: "?a \<lparr>page_no = ?p, slot_no = int i\<rparr> = Some v" unfolding rid by (rule assms)
  have "[0..<nat (num_records_per_page ?h)] = [0..<i] @ i # [Suc i..<nat (num_records_per_page ?h)]"
    using d(3) i by (metis nat_int upt_conv_Cons upt_add_eq_append le_add_diff_inverse less_imp_le_nat zero_le)
  then have sl: "slots_from ?h ?a ?p 0 = map (\<lambda>k. \<lparr>page_no = ?p, slot_no = int k\<rparr>)
      (filter (\<lambda>k. ?a \<lparr>page_no = ?p, slot_no = int k\<rparr> \<noteq> None) [0..<i]) @ \<lparr>page_no = ?p, slot_no = int i\<rparr> # slots_from ?h ?a ?p (Suc i)"
    using ai by (simp add: slots_from_def)
  have si: "nat (slot_no rid + 1) = Suc i" using i by simp
  have "[1..num_pages ?h - 1] = [1..?p - 1] @ ?p # [?p + 1..num_pages ?h - 1]"
    using d(1) by (intro upto_split3) (auto simp: record_page_def)
  then have "table_rids fd s = concat (map (\<lambda>p. slots_from ?h ?a p 0) [1..?p - 1]) @ slots_from ?h ?a ?p 0 @ rids_from ?h ?a (?p + 1)"
    by (simp add: table_rids_def rids_from_def)
  then show thesis using that unfolding sl rid si by (metis append.assoc append_Cons)
qed

lemma distinct_split_unique: "distinct (xs @ r # ys) \<Longrightarrow> xs @ r # ys = xs' @ r # ys' \<Longrightarrow> ys = ys'"
  by (metis append_Cons_eq_iff distinct.simps(2) distinct_append not_distinct_conv_prefix)

interpretation rm_scan: rec_scan "rm_ok fd" "table_rids fd" "RmScan_init fd" "RmScan_next fd" RmScan_is_end "only_read fd" for fd
proof unfold_locales
  fix s
  assume ok: "rm_ok fd s"
  have fe: "RmScan_is_end END_RID" by (simp add: RmScan_is_end_def END_RID_def)
  {
    define r where "r = (case slots_from (rm_hdr s) (rm_abs fd s) 1 0 @ rids_from (rm_hdr s) (rm_abs fd s) (1 + 1) of
        r # _ \<Rightarrow> if 1 < num_pages (rm_hdr s) then r else END_RID | [] \<Rightarrow> END_RID)"
    obtain s' where s': "only_read fd s s'" "scan_from fd (rm_hdr s) 1 0 s = (Inr r, s')"
      using scan_from_spec [OF ok order_refl refl, of 0] unfolding r_def by blast
    have "case table_rids fd s of [] \<Rightarrow> RmScan_is_end r | x # _ \<Rightarrow> r = x"
    proof (cases "1 < num_pages (rm_hdr s)")
      case True
      then have "[1..num_pages (rm_hdr s) - 1] = 1 # [1 + 1..num_pages (rm_hdr s) - 1]" by (intro upto_rec1) simp
      then have tr: "table_rids fd s = slots_from (rm_hdr s) (rm_abs fd s) 1 0 @ rids_from (rm_hdr s) (rm_abs fd s) (1 + 1)"
        by (simp add: table_rids_def rids_from_def)
      show ?thesis unfolding tr r_def using True fe by (simp split: list.splits)
    qed (use fe in \<open>auto simp: r_def table_rids_def rids_from_def split: list.splits\<close>)
    with s' show "\<exists>r s'. RmScan_init fd s = (Inr r, s') \<and> only_read fd s s' \<and> (case table_rids fd s of [] \<Rightarrow> RmScan_is_end r | x # _ \<Rightarrow> r = x)"
      by (auto simp: RmScan_init_def bindE_def getsE_def)
  }
  {
    fix xs r ys
    assume sp: "table_rids fd s = xs @ r # ys"
    then have "r \<in> dom (rm_abs fd s)" using table_rids_set [of fd s] by auto
    then obtain v where v: "rm_abs fd s r = Some v" by blast
    note d = abs_dom [OF v]
    obtain zs where "table_rids fd s = zs @ r # (slots_from (rm_hdr s) (rm_abs fd s) (page_no r) (nat (slot_no r + 1))
        @ rids_from (rm_hdr s) (rm_abs fd s) (page_no r + 1))" by (rule rids_split [OF v])
    then have ys: "slots_from (rm_hdr s) (rm_abs fd s) (page_no r) (nat (slot_no r + 1)) @ rids_from (rm_hdr s) (rm_abs fd s) (page_no r + 1) = ys"
      using distinct_split_unique [of zs r _ xs ys] table_rids_distinct [of fd s] sp by metis
    have p: "1 \<le> page_no r" "page_no r < num_pages (rm_hdr s)" using d(1) by (simp_all add: record_page_def)
    obtain s' where "only_read fd s s'" "scan_from fd (rm_hdr s) (page_no r) (nat (slot_no r + 1)) s
        = (Inr (case ys of r # _ \<Rightarrow> r | [] \<Rightarrow> END_RID), s')"
      using scan_from_spec [OF ok p(1) refl, of "nat (slot_no r + 1)"] p(2) unfolding ys by (auto split: list.splits)
    then show "\<exists>r' s'. RmScan_next fd r s = (Inr r', s') \<and> only_read fd s s' \<and> (case ys of [] \<Rightarrow> RmScan_is_end r' | y # _ \<Rightarrow> r' = y)"
      using fe by (auto simp: RmScan_next_def bindE_def getsE_def split: list.splits)
  }
  {
    fix r
    assume "r \<in> set (table_rids fd s)"
    then obtain v where "rm_abs fd s r = Some v" using table_rids_set [of fd s] by blast
    from abs_dom(2) [OF this] show "\<not> RmScan_is_end r" by (auto simp: RmScan_is_end_def)
  }
qed (auto simp: only_readD only_read_refl intro: only_read_trans)

end
