(* ===== verification/Rm_Props.thy ===== *)
theory Rm_Props
  imports Rm_Scan
begin

text \<open>
  The properties of the record manager: its operations refine those of a map from record
  identifiers to records, a scan visits the map, and the file header survives on disk.
\<close>

section \<open>A small table\<close>

text \<open>An empty table of 4-byte records, open at descriptor 0 in a pool of two frames.\<close>

definition demo_sys :: RmSys where
  "demo_sys = \<lparr>rm_bp = bp_init 2 (\<lambda>_. 0) (set_fd2pageno 0 1 (one_file_disk ''t'' [])), rm_hdr = new_RmFileHdr 4,
     rm_log = new_LogManager 0 0, rm_txn = new_Transaction True 0 0 4\<rparr>"

lemma demo_hdr: "record_size (rm_hdr demo_sys) = 4" "num_pages (rm_hdr demo_sys) = 1"
  "first_free_page_no (rm_hdr demo_sys) = RM_NO_PAGE" "num_records_per_page (rm_hdr demo_sys) = 987"
  by (simp_all add: demo_sys_def new_RmFileHdr_def Let_def BITMAP_WIDTH_def PAGE_SIZE_def sizeof_RmFileHdr_def)

lemma demo_disk_ok: "disk_ok (set_fd2pageno 0 1 (one_file_disk ''t'' []))"
  using one_file_disk_ok [of "''t''" "[]"] by (auto simp: disk_ok_def set_fd2pageno_def fd_entry_def)

lemma demo_sys_ok: "rm_ok 0 demo_sys"
proof -
  have h: "hdr_wf (rm_hdr demo_sys)"
    using new_RmFileHdr_wf [of 4] by (simp add: demo_sys_def RM_MAX_RECORD_SIZE_def)
  have c: "calm (rm_bp demo_sys)"
    using demo_disk_ok by (simp add: calm_def demo_sys_def bp_init_ok) (simp add: bp_init_def stale_def pins_def)
  have "file_ok (rm_hdr demo_sys) g" for g
    using h demo_hdr by (auto simp: file_ok_def record_page_def open_pages_def intro!: exI [of _ "[]"])
  moreover have "fd2path (disk (rm_bp demo_sys)) 0 = Some ''t''" "fd2pageno (disk (rm_bp demo_sys)) 0 = 1"
    "page_table (rm_bp demo_sys) = Map.empty"
    by (simp_all add: demo_sys_def bp_init_def set_fd2pageno_def one_file_disk_def)
  ultimately show ?thesis using c demo_hdr by (auto simp: rm_ok_def table_ok_def MAX_FD_def record_page_def)
qed

lemma demo_abs: "rm_abs 0 demo_sys = Map.empty"
  by (auto simp: rm_abs_def file_recs_def record_page_def demo_hdr fun_eq_iff)

lemma demo_log_ready: "log_ready 0 demo_sys"
  by (simp add: log_ready_def demo_hdr)
    (simp add: demo_sys_def new_LogManager_ok new_Transaction_def new_LogManager_def log_ok_def bp_init_def set_fd2pageno_def
      one_file_disk_def in_i32_def INVALID_LSN_def LOG_BUFFER_SIZE_def PAGE_SIZE_def)

text \<open>A table with one record.\<close>

lemma one_record:
  obtains rid s where "rm_ok 0 s" and "rm_abs 0 s = [rid \<mapsto> [1, 2, 3, 4]]" and "record_size (rm_hdr s) = 4"
proof -
  have r1: "page_in_range 1" by (simp add: page_in_range_def PAGE_SIZE_def)
  obtain rid s' where "table_step 0 demo_sys s'" "rm_abs 0 s' = (rm_abs 0 demo_sys)(rid \<mapsto> take (nat (record_size (rm_hdr demo_sys))) [1, 2, 3, 4])"
    by (rule insert_record_spec [OF demo_sys_ok, of "[1, 2, 3, 4]" False 0]) (use r1 in \<open>auto simp: demo_hdr\<close>)
  then show thesis using that [of s' rid] by (simp add: table_step_def same_layout_def demo_hdr demo_abs)
qed

section \<open>Properties\<close>

text \<open>
  C11: \<^verbatim>\<open>insert_record(buf, context)\<close> on a well-formed table returns a record identifier that was free
  and adds exactly that record; the table stays well formed (free list, page counts), no page stays
  pinned, and every other open table is untouched. With a context the insertion is logged first: the
  log buffer gets the record and the transaction the entry its rollback needs.
\<close>

theorem insert_record_adds:
  assumes "rm_ok fd s" and "first_free_page_no (rm_hdr s) = RM_NO_PAGE \<Longrightarrow> page_in_range (num_pages (rm_hdr s))"
    and "nat (record_size (rm_hdr s)) \<le> length buf" and "ctx \<Longrightarrow> log_ready fd s"
  shows "\<exists>rid s'. insert_record fd ctx addr buf s = (Inr rid, s') \<and> rm_ok fd s'
    \<and> rm_abs fd s rid = None \<and> rm_abs fd s' = (rm_abs fd s)(rid \<mapsto> take (nat (record_size (rm_hdr s))) buf)
    \<and> other_tables fd (rm_bp s) (rm_bp s') \<and> pins (rm_bp s') = pins (rm_bp s)
    \<and> (if ctx then logged_insert fd addr s rid (take (nat (record_size (rm_hdr s))) buf) (rm_log s') (rm_txn s')
       else rm_log s' = rm_log s \<and> rm_txn s' = rm_txn s)"
proof -
  obtain rid s' where r: "insert_record fd ctx addr buf s = (Inr rid, s')" "table_step fd s s'"
    "rm_abs fd s rid = None" "rm_abs fd s' = (rm_abs fd s)(rid \<mapsto> take (nat (record_size (rm_hdr s))) buf)"
    "if ctx then logged_insert fd addr s rid (take (nat (record_size (rm_hdr s))) buf) (rm_log s') (rm_txn s')
      else rm_log s' = rm_log s \<and> rm_txn s' = rm_txn s"
    by (rule insert_record_spec [where fd = fd and s = s and buf = buf and ctx = ctx and addr = addr])
      (use assms that in blast)+
  then show ?thesis unfolding table_step_def by blast
qed

theorem insert_record_adds_witness:
  "\<exists>rid s'. insert_record 0 True 7 [1, 2, 3, 4] demo_sys = (Inr rid, s') \<and> rm_abs 0 s' = [rid \<mapsto> [1, 2, 3, 4]]"
proof -
  have "page_in_range (num_pages (rm_hdr demo_sys))" by (simp add: demo_hdr page_in_range_def PAGE_SIZE_def)
  from insert_record_adds [OF demo_sys_ok this, of "[1, 2, 3, 4]" True 7] demo_log_ready
  show ?thesis by (auto simp: demo_hdr demo_abs)
qed

text \<open>
  \<^verbatim>\<open>get_record\<close> returns the bytes of the record and changes nothing; \<^verbatim>\<open>is_record\<close> answers whether a slot
  of a record page is occupied.
\<close>

theorem get_record_reads:
  assumes "rm_ok fd s"
  shows "(\<forall>v. rm_abs fd s rid = Some v \<longrightarrow> (\<exists>s'. get_record fd rid s = (Inr v, s') \<and> only_read fd s s'))
    \<and> (record_page (rm_hdr s) (page_no rid) \<and> 0 \<le> slot_no rid \<and> slot_no rid < num_records_per_page (rm_hdr s) \<longrightarrow>
      (\<exists>s'. is_record fd rid s = (Inr (rm_abs fd s rid \<noteq> None), s') \<and> only_read fd s s'))"
proof (intro conjI allI impI)
  show "\<exists>s'. get_record fd rid s = (Inr v, s') \<and> only_read fd s s'" if "rm_abs fd s rid = Some v" for v
    by (rule get_record_spec [OF assms that]) blast
  assume "record_page (rm_hdr s) (page_no rid) \<and> 0 \<le> slot_no rid \<and> slot_no rid < num_records_per_page (rm_hdr s)"
  then show "\<exists>s'. is_record fd rid s = (Inr (rm_abs fd s rid \<noteq> None), s') \<and> only_read fd s s'"
    using is_record_spec [OF assms] by metis
qed

theorem get_record_reads_witness:
  "\<exists>rid s s'. rm_ok 0 s \<and> get_record 0 rid s = (Inr [1, 2, 3, 4], s')"
proof -
  obtain rid s where "rm_ok 0 s" "rm_abs 0 s = [rid \<mapsto> [1, 2, 3, 4]]" by (rule one_record)
  then show ?thesis using get_record_reads [of 0 s rid] by fastforce
qed

text \<open>
  C13: \<^verbatim>\<open>update_record\<close> with a context replaces the bytes of an existing record and nothing else.
\<close>

theorem update_record_replaces:
  assumes "rm_ok fd s" and "rm_abs fd s rid = Some v" and "nat (record_size (rm_hdr s)) \<le> length buf"
  shows "\<exists>s'. update_record fd True rid buf s = (Inr (), s') \<and> rm_ok fd s'
    \<and> rm_abs fd s' = (rm_abs fd s)(rid \<mapsto> take (nat (record_size (rm_hdr s))) buf)
    \<and> other_tables fd (rm_bp s) (rm_bp s') \<and> pins (rm_bp s') = pins (rm_bp s)"
proof -
  obtain s' where "update_record fd True rid buf s = (Inr (), s')" "table_step fd s s'"
    "rm_abs fd s' = (rm_abs fd s)(rid \<mapsto> take (nat (record_size (rm_hdr s))) buf)"
    by (rule update_record_spec [OF assms], rule that)
  then show ?thesis unfolding table_step_def by blast
qed

theorem update_record_replaces_witness:
  "\<exists>rid s s'. rm_ok 0 s \<and> update_record 0 True rid [9, 9, 9, 9] s = (Inr (), s') \<and> rm_abs 0 s' = [rid \<mapsto> [9, 9, 9, 9]]"
proof -
  obtain rid s where s: "rm_ok 0 s" "rm_abs 0 s = [rid \<mapsto> [1, 2, 3, 4]]" "record_size (rm_hdr s) = 4" by (rule one_record)
  then have "rm_abs 0 s rid = Some [1, 2, 3, 4]" by simp
  from update_record_replaces [OF s(1) this, of "[9, 9, 9, 9]"] s show ?thesis by (simp, blast)
qed

text \<open>
  C12: both \<^verbatim>\<open>delete_record\<close> functions, the one with a context and the one used by recovery, remove exactly
  the given record; a page that was full returns to the free list, so the table stays well formed.
\<close>

theorem delete_record_removes:
  assumes "rm_ok fd s" and "rm_abs fd s rid = Some v"
  shows "\<exists>s'. (if rec then delete_record_recovery fd rid else delete_record fd True rid) s = (Inr (), s') \<and> rm_ok fd s'
    \<and> rm_abs fd s' = (rm_abs fd s)(rid := None)
    \<and> other_tables fd (rm_bp s) (rm_bp s') \<and> pins (rm_bp s') = pins (rm_bp s)"
proof (cases rec)
  case True
  obtain s' where "delete_record_recovery fd rid s = (Inr (), s')" "table_step fd s s'" "rm_abs fd s' = (rm_abs fd s)(rid := None)"
    by (rule delete_record_recovery_spec [OF assms], rule that)
  with True show ?thesis unfolding table_step_def by auto
next
  case False
  obtain s' where "delete_record fd True rid s = (Inr (), s')" "table_step fd s s'" "rm_abs fd s' = (rm_abs fd s)(rid := None)"
    by (rule delete_record_spec [OF assms], rule that)
  with False show ?thesis unfolding table_step_def by auto
qed

theorem delete_record_removes_witness:
  "\<exists>rid s s'. rm_ok 0 s \<and> rm_abs 0 s \<noteq> Map.empty \<and> delete_record 0 True rid s = (Inr (), s') \<and> rm_abs 0 s' = Map.empty"
proof -
  obtain rid s where s: "rm_ok 0 s" "rm_abs 0 s = [rid \<mapsto> [1, 2, 3, 4]]" by (rule one_record)
  then have "rm_abs 0 s rid = Some [1, 2, 3, 4]" by simp
  from delete_record_removes [OF s(1) this, of False] obtain s' where
    "delete_record 0 True rid s = (Inr (), s')" "rm_abs 0 s' = (rm_abs 0 s)(rid := None)" by auto
  moreover from this(2) have "rm_abs 0 s' = Map.empty" unfolding s(2) by simp
  moreover have "rm_abs 0 s \<noteq> Map.empty" unfolding s(2) by simp
  ultimately show ?thesis using s(1) by blast
qed

text \<open>
  C14: the loop over \<^verbatim>\<open>RmScan\<close> ends and visits every record of the table exactly once, in the order of
  pages and slots, without changing the table.
\<close>

theorem scan_visits_all_records:
  assumes "rm_ok fd s"
  shows "\<exists>r s1 s2 rids. RmScan_init fd s = (Inr r, s1)
    \<and> scan_loop (RmScan_next fd) RmScan_is_end (card (dom (rm_abs fd s))) r s1 = Some (Inr rids, s2)
    \<and> distinct rids \<and> set rids = dom (rm_abs fd s) \<and> only_read fd s s2"
proof -
  obtain r s1 s2 where "RmScan_init fd s = (Inr r, s1)" "only_read fd s s2"
    "scan_loop (RmScan_next fd) RmScan_is_end (length (table_rids fd s)) r s1 = Some (Inr (table_rids fd s), s2)"
    by (rule rm_scan.loop_visits_all [OF assms], rule that)
  moreover have "length (table_rids fd s) = card (dom (rm_abs fd s))"
    using table_rids_distinct [of fd s] table_rids_set [of fd s] distinct_card by fastforce
  ultimately show ?thesis using table_rids_distinct [of fd s] table_rids_set [of fd s] by auto
qed

theorem scan_visits_all_records_witness:
  "\<exists>rid s r s1 s2. rm_ok 0 s \<and> RmScan_init 0 s = (Inr r, s1)
     \<and> scan_loop (RmScan_next 0) RmScan_is_end 1 r s1 = Some (Inr [rid], s2)"
proof -
  obtain rid s where s: "rm_ok 0 s" "rm_abs 0 s = [rid \<mapsto> [1, 2, 3, 4]]" by (rule one_record)
  have one: "xs = [rid]" if "distinct xs" "set xs = {rid}" for xs
  proof (cases xs)
    case (Cons y ys)
    with that show ?thesis by (cases ys) auto
  qed (use that in simp)
  have dom: "dom (rm_abs 0 s) = {rid}" "card (dom (rm_abs 0 s)) = 1" unfolding s(2) by simp_all
  obtain r s1 s2 rids where r: "RmScan_init 0 s = (Inr r, s1)"
    "scan_loop (RmScan_next 0) RmScan_is_end (card (dom (rm_abs 0 s))) r s1 = Some (Inr rids, s2)"
    "distinct rids" "set rids = dom (rm_abs 0 s)"
    using scan_visits_all_records [OF s(1)] by blast
  have "rids = [rid]" using one [OF r(3)] r(4) dom(1) by simp
  with r(1,2) s(1) dom(2) show ?thesis by metis
qed

lemma free_page_from_step:
  assumes "bp_ok (rm_bp s)" and "valid_pid (disk (rm_bp s)) \<lparr>pid_fd = fd, pid_no = p\<rparr>"
    and "content (rm_bp s) \<lparr>pid_fd = fd, pid_no = p\<rparr> \<noteq> None"
    and "page_table (rm_bp s) \<lparr>pid_fd = fd, pid_no = p\<rparr> \<noteq> None \<or> card {pid. 0 < pins (rm_bp s) pid} < pool_size (rm_bp s)"
    and "first_free_page_no (rm_hdr s) = p" and "p \<noteq> RM_NO_PAGE"
  obtains f b where "fetch_page \<lparr>pid_fd = fd, pid_no = p\<rparr> (rm_bp s) = (Inr (Some f), b)"
    and "fetch_free_page_handle fd s = (Inr f, s\<lparr>rm_bp := b\<rparr>)"
    and "page_id (pages b ! f) = \<lparr>pid_fd = fd, pid_no = p\<rparr>" and "page_table b \<lparr>pid_fd = fd, pid_no = p\<rparr> = Some f" and "bp_ok b"
    and "valid_pid (disk b) \<lparr>pid_fd = fd, pid_no = p\<rparr>" and "content b \<lparr>pid_fd = fd, pid_no = p\<rparr> \<noteq> None"
proof -
  let ?pid = "\<lparr>pid_fd = fd, pid_no = p\<rparr> :: PageId"
  obtain res b where run: "fetch_page ?pid (rm_bp s) = (res, b)" by fastforce
  note r = fetch_page_spec [OF assms(1,2) run]
  have "\<not> (page_table (rm_bp s) ?pid = None \<and> (\<forall>f < pool_size (rm_bp s). 0 < page_pins (pages (rm_bp s) ! f)))"
    using assms(4) pool_has_room [OF assms(1)] by blast
  then have n1: "res \<noteq> Inr None" using r(6) by auto
  have n2: "res \<noteq> Inl e" for e using r(6) assms(3) by auto
  obtain f where f: "res = Inr (Some f)"
  proof (cases res)
    case (Inr q)
    with n1 that show thesis by (cases q) simp_all
  qed (use n2 in simp)
  note l = pool.fetch_law [OF assms(1,2) run [unfolded f]]
  have t: "page_table b ?pid = Some f" "bp_ok b" using l by simp_all
  have ff: "fetch_free_page_handle fd s = (Inr f, s\<lparr>rm_bp := b\<rparr>)"
    using run f assms(5,6) by (simp add: fetch_free_page_handle_def rm_run RM_NO_PAGE_def assertE_def)
  have pg: "page_id (pages b ! f) = ?pid" by (rule bp_ok_table(3) [OF t(2,1)])
  have v: "valid_pid (disk b) ?pid" by (rule bp_ok_table(4) [OF t(2,1)])
  have c: "content b ?pid \<noteq> None" using t(1) by (simp add: content_def)
  show thesis by (rule that [OF run [unfolded f] ff pg t v c])
qed

text \<open>
  \<^verbatim>\<open>insert_record(rid, buf)\<close>, called by rollback and by redo, never returns when the first page of the
  free list lies before the page of \<^verbatim>\<open>rid\<close>: its loop fetches and pins that same page again and again.
\<close>

theorem insert_record_at_hangs:
  assumes ok: "rm_ok fd s" and ff: "first_free_page_no (rm_hdr s) \<noteq> RM_NO_PAGE"
    and lt: "first_free_page_no (rm_hdr s) < page_no rid"
  shows "insert_record_at fd rid buf s = None"
proof -
  define stuck where "stuck fd pno t \<longleftrightarrow>
     (let p = first_free_page_no (rm_hdr t); pid = \<lparr>pid_fd = fd, pid_no = p\<rparr>; b = rm_bp t in
      bp_ok b \<and> valid_pid (disk b) pid \<and> content b pid \<noteq> None \<and> p \<noteq> RM_NO_PAGE \<and> p < pno
      \<and> (page_table b pid \<noteq> None \<or> card {q. 0 < pins b q} < pool_size b))" for fd pno and t :: RmSys
  have never: "\<not> stuck fd pno t" if "free_page_from fd pno t = Some y" for fd pno t y
  proof (rule free_page_from.raw_induct [OF _ that])
    fix F :: "int \<Rightarrow> int \<Rightarrow> RmSys \<Rightarrow> ((exc + frame_id_t) \<times> RmSys) option" and fd pno t y
    assume IH: "\<And>fd pno t y. F fd pno t = Some y \<Longrightarrow> \<not> stuck fd pno t"
      and body: "(case fetch_free_page_handle fd t of (Inl e, s') \<Rightarrow> Some (Inl e, s')
        | (Inr f, s') \<Rightarrow> if pid_no (page_id (pages (rm_bp s') ! f)) < pno then F fd pno s' else Some (Inr f, s')) = Some y"
    show "\<not> stuck fd pno t"
    proof
      assume st: "stuck fd pno t"
      let ?p = "first_free_page_no (rm_hdr t)"
      have h: "bp_ok (rm_bp t)" "valid_pid (disk (rm_bp t)) \<lparr>pid_fd = fd, pid_no = ?p\<rparr>"
        "content (rm_bp t) \<lparr>pid_fd = fd, pid_no = ?p\<rparr> \<noteq> None"
        "page_table (rm_bp t) \<lparr>pid_fd = fd, pid_no = ?p\<rparr> \<noteq> None \<or> card {pid. 0 < pins (rm_bp t) pid} < pool_size (rm_bp t)"
        "?p \<noteq> RM_NO_PAGE" "?p < pno"
        using st by (simp_all add: stuck_def Let_def)
      obtain f b where f: "fetch_free_page_handle fd t = (Inr f, t\<lparr>rm_bp := b\<rparr>)"
        "page_id (pages b ! f) = \<lparr>pid_fd = fd, pid_no = ?p\<rparr>" "page_table b \<lparr>pid_fd = fd, pid_no = ?p\<rparr> = Some f" "bp_ok b"
        "valid_pid (disk b) \<lparr>pid_fd = fd, pid_no = ?p\<rparr>" "content b \<lparr>pid_fd = fd, pid_no = ?p\<rparr> \<noteq> None"
        by (rule free_page_from_step [OF h(1-4) refl h(5)], rule that)
      from body f(1,2) h(6) have "F fd pno (t\<lparr>rm_bp := b\<rparr>) = Some y" by simp
      from IH [OF this] f h show False by (simp add: stuck_def Let_def)
    qed
  qed
  have fok: "file_ok (rm_hdr s) (pages_of fd (rm_bp s))" and t: "table_ok fd (rm_hdr s) (rm_bp s)"
    using ok by (simp_all add: rm_ok_def table_ok_def)
  have rp: "record_page (rm_hdr s) (first_free_page_no (rm_hdr s))" by (rule first_free [OF fok ff])
  obtain x where "content (rm_bp s) \<lparr>pid_fd = fd, pid_no = first_free_page_no (rm_hdr s)\<rparr> = Some x"
    "valid_pid (disk (rm_bp s)) \<lparr>pid_fd = fd, pid_no = first_free_page_no (rm_hdr s)\<rparr>"
    by (rule table_page [OF t rp], rule that)
  then have "stuck fd (page_no rid) s" using t ff lt by (simp add: stuck_def Let_def table_ok_def calm_def)
  with never show ?thesis by (cases "free_page_from fd (page_no rid) s") (auto simp: insert_record_at_def)
qed

text \<open>A table whose free list is not empty.\<close>

lemma some_free_page:
  obtains s where "rm_ok 0 s" and "record_page (rm_hdr s) (first_free_page_no (rm_hdr s))" and "record_size (rm_hdr s) = 4"
    and "pool_size (rm_bp s) = 2" and "pins (rm_bp s) = (\<lambda>_. 0)" and "num_records_per_page (rm_hdr s) = 987"
proof -
  have r1: "page_in_range (num_pages (rm_hdr demo_sys))" by (simp add: page_in_range_def PAGE_SIZE_def demo_hdr)
  obtain h1 p x b2 where f: "first_free_page_no h1 = p" "record_page h1 p" "same_layout (rm_hdr demo_sys) h1" "table_ok 0 h1 b2"
    "pins b2 = pins (rm_bp demo_sys)" "pool_size b2 = pool_size (rm_bp demo_sys)"
  proof (rule fetch_free_spec [OF demo_sys_ok r1], goal_cases)
    case (1 f b1 h1 p x)
    from 1(14) [OF 1(5,10) refl 1(9)] obtain b2 where
      "table_ok 0 h1 b2" "pins b2 = pins (rm_bp demo_sys)" "pool_size b2 = pool_size (rm_bp demo_sys)" by blast
    with 1 show ?case by blast
  qed
  have "pins (rm_bp demo_sys) = (\<lambda>_. 0)" "pool_size (rm_bp demo_sys) = 2" by (auto simp: demo_sys_def bp_init_def pins_def)
  then show thesis
    using that [of "demo_sys\<lparr>rm_bp := b2, rm_hdr := h1\<rparr>"] f by (simp add: rm_ok_def same_layout_def demo_hdr)
qed

theorem insert_record_at_hangs_witness:
  "\<exists>s rid. rm_ok 0 s \<and> insert_record_at 0 rid [1, 2, 3, 4] s = None"
proof -
  obtain s where s: "rm_ok 0 s" "record_page (rm_hdr s) (first_free_page_no (rm_hdr s))" by (rule some_free_page)
  then have ne: "first_free_page_no (rm_hdr s) \<noteq> RM_NO_PAGE" by (auto simp: record_page_def RM_NO_PAGE_def)
  let ?rid = "\<lparr>page_no = first_free_page_no (rm_hdr s) + 1, slot_no = 0\<rparr> :: Rid"
  have "insert_record_at 0 ?rid [1, 2, 3, 4] s = None" by (rule insert_record_at_hangs [OF s(1) ne]) simp
  with s(1) show ?thesis by blast
qed

text \<open>
  When \<^verbatim>\<open>insert_record(rid, buf)\<close> does return, the page at the head of the free list keeps a pin that
  nothing releases: its pin count grows by one with every call.
\<close>

theorem insert_record_at_leaks_pin:
  assumes ok: "rm_ok fd s" and ff: "first_free_page_no (rm_hdr s) \<noteq> RM_NO_PAGE"
    and le: "page_no rid \<le> first_free_page_no (rm_hdr s)" and p: "record_page (rm_hdr s) (page_no rid)"
    and i: "0 \<le> slot_no rid" "slot_no rid < num_records_per_page (rm_hdr s)" and buf: "nat (record_size (rm_hdr s)) \<le> length buf"
    and room: "card {pid. 0 < pins (rm_bp s) pid} + 1 < pool_size (rm_bp s)"
  shows "\<exists>s'. insert_record_at fd rid buf s = Some (Inr (), s')
    \<and> pins (rm_bp s') = (pins (rm_bp s))(\<lparr>pid_fd = fd, pid_no = first_free_page_no (rm_hdr s)\<rparr> :=
        pins (rm_bp s) \<lparr>pid_fd = fd, pid_no = first_free_page_no (rm_hdr s)\<rparr> + 1)"
proof -
  let ?h = "rm_hdr s" and ?p = "first_free_page_no (rm_hdr s)" and ?b = "rm_bp s"
  let ?q = "\<lparr>pid_fd = fd, pid_no = ?p\<rparr> :: PageId" and ?r = "\<lparr>pid_fd = fd, pid_no = page_no rid\<rparr> :: PageId"
  have t: "table_ok fd ?h ?b" and fok: "file_ok ?h (pages_of fd ?b)" using ok by (simp_all add: rm_ok_def table_ok_def)
  have bk: "bp_ok ?b" "\<And>pid. \<not> stale ?b pid" using table_okD(1) [OF t] by (simp_all add: calm_def)
  have rp: "record_page ?h ?p" by (rule first_free [OF fok ff])
  obtain x where x: "content ?b ?q = Some x" "valid_pid (disk ?b) ?q" by (rule table_page [OF t rp], rule that)
  obtain y where y: "content ?b ?r = Some y" "page_wf ?h y" "valid_pid (disk ?b) ?r" by (rule table_page [OF t p], rule that)
  have h: "content ?b ?q \<noteq> None" "page_table ?b ?q \<noteq> None \<or> card {pid. 0 < pins ?b pid} < pool_size ?b" using x room by simp_all
  obtain f b where f: "fetch_page ?q ?b = (Inr (Some f), b)" "fetch_free_page_handle fd s = (Inr f, s\<lparr>rm_bp := b\<rparr>)"
    "page_id (pages b ! f) = ?q"
    by (rule free_page_from_step [OF bk(1) x(2) h refl ff], rule that)
  note l = pool.fetch_law [OF bk(1) x(2) f(1)]
  have pins: "pins b = (pins ?b)(?q := pins ?b ?q + 1)" and val: "valid_pid (disk b) = valid_pid (disk ?b)"
    and ps: "pool_size b = pool_size ?b" and okb: "bp_ok b" and ns: "\<And>q. stale b q \<Longrightarrow> stale ?b q"
    and cont: "\<And>q x. valid_pid (disk ?b) q \<Longrightarrow> content ?b q = Some x \<Longrightarrow> content b q = Some x"
    using l by blast+
  have "{pid. 0 < pins b pid} \<subseteq> insert ?q {pid. 0 < pins ?b pid}" unfolding pins by auto
  then have "card {pid. 0 < pins b pid} \<le> card (insert ?q {pid. 0 < pins ?b pid})"
    using pinned_frames_card(1) [OF bk(1)] by (intro card_mono) auto
  also have "\<dots> \<le> card {pid. 0 < pins ?b pid} + 1"
    using pinned_frames_card(1) [OF bk(1)] by (simp add: card_insert_if)
  finally have cd: "card {pid. 0 < pins b pid} \<le> card {pid. 0 < pins ?b pid} + 1" .
  have "card {pid. 0 < pins b pid} < pool_size b" using cd room unfolding ps by linarith
  then have calm: "calm b" using okb ns bk(2) unfolding calm_def by blast
  have yb: "content b ?r = Some y" "valid_pid (disk b) ?r" using cont [OF y(3,1)] val y(3) by simp_all
  obtain g b1 where g: "fetch_page ?r b = (Inr (Some g), b1)" "frame_data b1 g = y" "page_id (pages b1 ! g) = ?r"
    and w: "\<And>z. length z = PAGE_SIZE \<Longrightarrow> \<exists>b2. unpin_page ?r True (poke g z b1) = (True, b2) \<and> evolves {?r} {?r} b b2 \<and> content b2 ?r = Some z"
    by (rule calm_write [OF calm yb(2,1)], rule that)
  have hw: "hdr_wf ?h" by (rule file_okD(1) [OF fok])
  obtain j where j: "slot_no rid = int j" "j < nat (num_records_per_page ?h)" 
    using i by (cases "slot_no rid") auto
  let ?v = "take (nat (record_size ?h)) buf"
  have free: "free_page_from fd (page_no rid) s = Some (Inr f, s\<lparr>rm_bp := b\<rparr>)"
    using f(2,3) le by (simp add: free_page_from.simps)
  have z1: "length (mem_put (get_slot ?h (slot_no rid)) ?v y) = PAGE_SIZE"
    using slot_write_page(1) [OF hw y(2) j(2), of ?v] buf j(1) by (auto simp: page_wf_def)
  have z2: "length (page_insert ?h j buf y) = PAGE_SIZE" if "\<not> is_set (bitmap_at y) j"
    using page_insert_page(1) [OF hw y(2) j(2) that buf] by (auto simp: page_wf_def)
  have "\<exists>s'. place_record fd rid buf (s\<lparr>rm_bp := b\<rparr>) = (Inr (), s') \<and> pins (rm_bp s') = pins b"
  proof (cases "is_set (bitmap_at y) j")
    case True
    from w [OF z1] obtain b2 where "unpin_page ?r True (poke g (mem_put (get_slot ?h (slot_no rid)) ?v y) b1) = (True, b2)"
      "evolves {?r} {?r} b b2" by blast
    with True g j buf slot_range(3) [OF hw j(2)] evolvesD(3) show ?thesis by (simp add: place_record_def rm_run)
  next
    case False
    from w [OF z2 [OF False]] obtain b2 where "unpin_page ?r True (poke g (page_insert ?h j buf y) b1) = (True, b2)"
      "evolves {?r} {?r} b b2" by blast
    with False g j buf slot_range(3) [OF hw j(2)] evolvesD(3) show ?thesis by (auto simp: place_record_def rm_run Let_def)
  qed
  with free pins show ?thesis by (auto simp: insert_record_at_def)
qed

theorem insert_record_at_leaks_pin_witness:
  "\<exists>s rid s'. rm_ok 0 s \<and> insert_record_at 0 rid [1, 2, 3, 4] s = Some (Inr (), s')
     \<and> pins (rm_bp s) = (\<lambda>_. 0) \<and> pins (rm_bp s') \<lparr>pid_fd = 0, pid_no = page_no rid\<rparr> = 1"
proof -
  obtain s where s: "rm_ok 0 s" "record_page (rm_hdr s) (first_free_page_no (rm_hdr s))" "record_size (rm_hdr s) = 4"
    "pool_size (rm_bp s) = 2" "pins (rm_bp s) = (\<lambda>_. 0)" "num_records_per_page (rm_hdr s) = 987" by (rule some_free_page)
  then have ne: "first_free_page_no (rm_hdr s) \<noteq> RM_NO_PAGE" by (auto simp: record_page_def RM_NO_PAGE_def)
  let ?rid = "\<lparr>page_no = first_free_page_no (rm_hdr s), slot_no = 0\<rparr> :: Rid"
  from insert_record_at_leaks_pin [OF s(1) ne, of ?rid "[1, 2, 3, 4]"] s
  obtain s' where "insert_record_at 0 ?rid [1, 2, 3, 4] s = Some (Inr (), s')"
    "pins (rm_bp s') \<lparr>pid_fd = 0, pid_no = first_free_page_no (rm_hdr s)\<rparr> = 1" by auto
  with s(1,5) show ?thesis by (intro exI [of _ s] exI [of _ ?rid] exI [of _ s']) simp
qed

text \<open>The file header on disk.\<close>

definition filehdr_range :: "RmFileHdr \<Rightarrow> bool" where
  "filehdr_range h \<longleftrightarrow> in_i32 (record_size h) \<and> in_i32 (num_pages h) \<and> in_i32 (num_records_per_page h)
     \<and> in_i32 (first_free_page_no h) \<and> in_i32 (bitmap_size h)"

lemma filehdr_roundtrip:
  assumes "filehdr_range h"
  shows "filehdr_of_bytes (filehdr_bytes h) = h" and "length (filehdr_bytes h) = sizeof_RmFileHdr"
  using assms
  by (simp_all add: filehdr_range_def filehdr_of_bytes_def filehdr_bytes_def rd_i32_def mem_get_def sizeof_RmFileHdr_def)

lemma new_RmFileHdr_range:
  assumes "1 \<le> rs" and "rs \<le> RM_MAX_RECORD_SIZE"
  shows "filehdr_range (new_RmFileHdr rs)"
proof -
  let ?n = "32601 div (1 + rs * 8)"
  have n: "num_records_per_page (new_RmFileHdr rs) = ?n" "bitmap_size (new_RmFileHdr rs) = (?n + 7) div 8"
    "record_size (new_RmFileHdr rs) = rs" "num_pages (new_RmFileHdr rs) = 1" "first_free_page_no (new_RmFileHdr rs) = -1"
    by (simp_all add: new_RmFileHdr_def Let_def BITMAP_WIDTH_def PAGE_SIZE_def sizeof_RmFileHdr_def RM_NO_PAGE_def)
  have "0 \<le> ?n" using assms(1) by (simp add: pos_imp_zdiv_nonneg_iff)
  moreover have "?n \<le> 32601" using zdiv_mono2 [of 32601 1 "1 + rs * 8"] assms(1) by simp
  ultimately have "0 \<le> (?n + 7) div 8" "(?n + 7) div 8 \<le> 32608" by linarith+
  with \<open>0 \<le> ?n\<close> \<open>?n \<le> 32601\<close> show ?thesis using assms unfolding filehdr_range_def n in_i32_def RM_MAX_RECORD_SIZE_def by simp
qed

text \<open>Creating a table file: only the new file appears, and no descriptor stays open.\<close>

lemma rm_create_run:
  assumes ok: "disk_ok d" and new: "\<not> is_file filename d" and rs: "1 \<le> rs" "rs \<le> RM_MAX_RECORD_SIZE"
  obtains d' where "rm_create_file filename rs d = (Inr (), d')" and "disk_ok d'" and "fd2path d' = fd2path d" and "path2fd d' = path2fd d"
    and "files d' = (files d)(filename \<mapsto> filehdr_bytes (new_RmFileHdr rs))" and "log_fd d' = log_fd d" and "fd2pageno d' = fd2pageno d"
    and "path2fd d filename = None"
proof -
  let ?h = "new_RmFileHdr rs"
  have hr: "filehdr_of_bytes (filehdr_bytes ?h) = ?h" "length (filehdr_bytes ?h) = sizeof_RmFileHdr"
    using filehdr_roundtrip new_RmFileHdr_range rs by blast+
  have r0: "page_in_range RM_FILE_HDR_PAGE" "page_pos RM_FILE_HDR_PAGE = 0"
    by (simp_all add: page_in_range_def RM_FILE_HDR_PAGE_def page_pos_def)
  have cl: "path2fd d filename = None"
    using new disk_ok_inv [OF ok, of filename] ok unfolding disk_ok_def is_file_def by (metis option.exhaust)
  obtain r1 d1 where c1: "create_file filename d = (r1, d1)" by fastforce
  note c = create_file_ok [OF ok new c1]
  have c': "log_fd d1 = log_fd d" "fd2pageno d1 = fd2pageno d"
    using c1 new by (auto simp: create_file_def os_open_def os_close_def Let_def split: if_splits prod.splits)
  obtain r2 d2 where o2: "open_file filename d1 = (r2, d2)" by fastforce
  have ex1: "files d1 filename \<noteq> None" "path2fd d1 filename = None" using c(3,4) cl by simp_all
  obtain fd where o: "r2 = Inr fd" "disk_ok d2" "files d2 = files d1" "fd2path d2 = (fd2path d1)(fd \<mapsto> filename)"
    "path2fd d2 = (path2fd d1)(filename \<mapsto> fd)" "fd2path d1 fd = None" "fd2pageno d2 = fd2pageno d1" "log_fd d2 = log_fd d1"
    by (rule open_file_ok [OF c(2) ex1 o2], rule that)
  have p2: "fd2path d2 fd = Some filename" "files d2 filename = Some []" using o c(3) by simp_all
  obtain d3 where w: "write_page fd RM_FILE_HDR_PAGE (filehdr_bytes ?h) d2 = (Inr (), d3)" "disk_ok d3"
    "files d3 = (files d2)(filename \<mapsto> write_at (page_pos RM_FILE_HDR_PAGE) (filehdr_bytes ?h) [])"
    "path2fd d3 = path2fd d2" "fd2path d3 = fd2path d2" "fd2pageno d3 = fd2pageno d2" "log_fd d3 = log_fd d2"
    by (rule write_page_result [OF o(2) p2(1) r0(1) p2(2), of "filehdr_bytes ?h"], rule that)
  have f3: "files d3 filename = Some (filehdr_bytes ?h)" using w(3) r0(2) by (simp add: write_at_def mem_put_def)
  obtain r4 d4 where c4: "close_file fd d3 = (r4, d4)" by fastforce
  have p3: "fd2path d3 fd = Some filename" using p2(1) w(5) by simp
  note x = close_file_ok [OF w(2) p3 c4]
  have x': "log_fd d4 = log_fd d3" "fd2pageno d4 = fd2pageno d3"
    using c4 p3 by (auto simp: close_file_def os_close_def Let_def split: option.splits if_splits)
  have n4: "fd2path d4 = fd2path d" "path2fd d4 = path2fd d" "log_fd d4 = log_fd d" "fd2pageno d4 = fd2pageno d"
    using x(4,5) x' w(4-7) o(4-8) c(4,5) c' cl by (simp_all add: fun_upd_idem)
  have create: "rm_create_file filename rs d = (Inr (), d4)"
    using rs c1 c(1) o2 o(1) w(1) c4 x(1) by (simp add: rm_create_file_def bindE_def)
  have "files d4 = (files d)(filename \<mapsto> filehdr_bytes ?h)" using x(3) w(3) f3 o(3) c(3) by (auto simp: fun_eq_iff)
  then show thesis by (rule that [OF create x(2) n4(1,2) _ n4(3,4) cl])
qed

text \<open>Opening a table file reads its header; the descriptor was free and the files that are open stay as they are.\<close>

lemma rm_open_run:
  assumes ok: "disk_ok d4" and f3: "files d4 filename = Some (filehdr_bytes h)" and hr: "filehdr_range h" and cl: "path2fd d4 filename = None"
  obtains fd d'' where "rm_open_file filename d4 = (Inr (fd, h), d'')" and "disk_ok d''" and "0 \<le> fd" and "fd2path d4 fd = None"
    and "fd2path d'' = (fd2path d4)(fd \<mapsto> filename)" and "fd2pageno d'' = (fd2pageno d4)(fd := num_pages h)"
    and "files d'' = files d4" and "log_fd d'' = log_fd d4"
proof -
  note h = filehdr_roundtrip [OF hr]
  have r0: "page_in_range RM_FILE_HDR_PAGE" "page_pos RM_FILE_HDR_PAGE = 0"
    by (simp_all add: page_in_range_def RM_FILE_HDR_PAGE_def page_pos_def)
  obtain r5 d5 where o5: "open_file filename d4 = (r5, d5)" by fastforce
  have ex4: "files d4 filename \<noteq> None" using f3 by simp
  obtain fd' where o': "r5 = Inr fd'" "disk_ok d5" "files d5 = files d4" "fd2path d5 = (fd2path d4)(fd' \<mapsto> filename)"
    "0 \<le> fd'" "fd2path d4 fd' = None" "fd2pageno d5 = fd2pageno d4" "log_fd d5 = log_fd d4"
    by (rule open_file_ok [OF ok ex4 cl o5], rule that)
  have p5: "fd2path d5 fd' = Some filename" "the (files d5 filename) = filehdr_bytes h" using o' f3 by simp_all
  obtain r6 d6 where r6: "read_page fd' RM_FILE_HDR_PAGE sizeof_RmFileHdr d5 = (r6, d6)" by fastforce
  note rd = read_page_result [OF o'(2) p5(1) r0(1) r6]
  have ok6: "disk_ok d6" by (rule disk_okI [OF o'(2)]) (use rd in auto)
  have r6': "r6 = Inr (filehdr_bytes h)" using rd(7) p5(2) r0(2) h(2) by (simp add: mem_get_def Let_def)
  let ?d7 = "set_fd2pageno fd' (num_pages h) d6"
  have op: "rm_open_file filename d4 = (Inr (fd', h), ?d7)"
    using o5 o'(1) r6 r6' h(1) by (simp add: rm_open_file_def bindE_def modifyE_def returnE_def)
  have "disk_ok ?d7" using ok6 by (auto simp: set_fd2pageno_def disk_ok_def fd_entry_def)
  then show thesis using o' rd by (intro that [OF op]) (auto simp: set_fd2pageno_def fun_eq_iff)
qed

text \<open>
  C15: \<^verbatim>\<open>RmManager::create_file\<close> rejects record sizes outside 1..2048 without touching the disk; for the others the
  page layout it computes fits a page (at least one record, bitmap and slots within 4096 bytes), and
  \<^verbatim>\<open>open_file\<close> reads back exactly the header that was written and continues page numbers at 1.
\<close>

theorem create_then_open_file:
  assumes ok: "disk_ok d" and new: "\<not> is_file filename d"
  shows "if 1 \<le> rs \<and> rs \<le> RM_MAX_RECORD_SIZE
    then \<exists>d' fd d''. rm_create_file filename rs d = (Inr (), d') \<and> rm_open_file filename d' = (Inr (fd, new_RmFileHdr rs), d'')
      \<and> disk_ok d'' \<and> fd2path d'' fd = Some filename \<and> fd2pageno d'' fd = 1 \<and> hdr_wf (new_RmFileHdr rs)
    else rm_create_file filename rs d = (Inl (Throw (InvalidRecordSizeError rs)), d)"
proof (cases "1 \<le> rs \<and> rs \<le> RM_MAX_RECORD_SIZE")
  case False
  then show ?thesis by (auto simp: rm_create_file_def throwE_def)
next
  case True
  note rs = True [THEN conjunct1] True [THEN conjunct2]
  obtain d' where d': "rm_create_file filename rs d = (Inr (), d')" "disk_ok d'" "path2fd d' = path2fd d"
    "files d' = (files d)(filename \<mapsto> filehdr_bytes (new_RmFileHdr rs))" "path2fd d filename = None"
    by (rule rm_create_run [OF ok new rs], rule that)
  have f: "files d' filename = Some (filehdr_bytes (new_RmFileHdr rs))" "path2fd d' filename = None" using d' by simp_all
  obtain fd d'' where "rm_open_file filename d' = (Inr (fd, new_RmFileHdr rs), d'')" "disk_ok d''" "fd2path d'' fd = Some filename"
    "fd2pageno d'' fd = num_pages (new_RmFileHdr rs)"
    by (rule rm_open_run [OF d'(2) f(1) new_RmFileHdr_range [OF rs] f(2)]) auto
  then show ?thesis using True d'(1) new_RmFileHdr_wf [of rs] by (auto simp: new_RmFileHdr_def Let_def)
qed

theorem create_then_open_file_witness:
  "\<exists>d' fd d''. rm_create_file ''new'' 8 (one_file_disk ''t'' []) = (Inr (), d')
     \<and> rm_open_file ''new'' d' = (Inr (fd, new_RmFileHdr 8), d'')"
  using create_then_open_file [OF one_file_disk_ok, of "''new''" "''t''" "[]" 8]
  by (auto simp: is_file_def one_file_disk_def RM_MAX_RECORD_SIZE_def)

end
