(* ===== verification/Float32.thy ===== *)
theory Float32
  imports Rmdb_Prelude
begin

text \<open>
  What the program uses of C++ \<^verbatim>\<open>float\<close>: IEEE 754 single precision numbers as their 32 bits, their
  comparison, addition, and the conversion of decimal text by \<^verbatim>\<open>std::stof\<close>, both rounding to nearest
  with ties to even.
\<close>

section \<open>Comparison\<close>

text \<open>
  A \<^verbatim>\<open>float\<close> as its 32 bits. Comparison of IEEE singles: a NaN is neither below nor above anything,
  the other values are ordered as sign and magnitude, and the two zeros are equal.
\<close>

definition float_bits :: "bytes \<Rightarrow> int" where "float_bits bs = dec_u (take 4 bs)"

definition float_nan :: "int \<Rightarrow> bool" where
  "float_nan b \<longleftrightarrow> (b mod 2 ^ 31) > 255 * 2 ^ 23"

definition float_ord :: "int \<Rightarrow> int" where
  "float_ord b = (if b \<ge> 2 ^ 31 then - (b mod 2 ^ 31) else b mod 2 ^ 31)"

definition float_lt :: "int \<Rightarrow> int \<Rightarrow> bool" where
  "float_lt a b \<longleftrightarrow> \<not> float_nan a \<and> \<not> float_nan b \<and> float_ord a < float_ord b"

definition float_eq :: "int \<Rightarrow> int \<Rightarrow> bool" where
  "float_eq a b \<longleftrightarrow> \<not> float_nan a \<and> \<not> float_nan b \<and> float_ord a = float_ord b"

section \<open>Rounding\<close>

function bit_length :: "int \<Rightarrow> int" where
  "bit_length n = (if n \<le> 0 then 0 else 1 + bit_length (n div 2))"
  by auto
termination by (relation "measure nat") auto

declare bit_length.simps [simp del]

text \<open>\<open>n / d\<close> scaled by \<open>2 ^ k\<close>, as a fraction.\<close>

definition scaled :: "int \<Rightarrow> int \<Rightarrow> int \<Rightarrow> int \<times> int" where
  "scaled n d k = (if 0 \<le> k then (n * 2 ^ nat k, d) else (n, d * 2 ^ nat (- k)))"

text \<open>The exponent of the leading bit of \<open>n / d\<close>, not below that of the smallest normal number.\<close>

definition lead_exp :: "int \<Rightarrow> int \<Rightarrow> int" where
  "lead_exp n d =
     (let e = bit_length n - bit_length d; (a, b) = scaled n d (- e) in
      max (-126) (if a < b then e - 1 else e))"

definition round_even :: "int \<Rightarrow> int \<Rightarrow> int" where
  "round_even n d =
     (let q = n div d; r = n mod d in if 2 * r > d \<or> 2 * r = d \<and> odd q then q + 1 else q)"

text \<open>The bits of the number nearest to \<open>n / d\<close>, for \<open>0 \<le> n\<close> and \<open>0 < d\<close>; too large a number becomes infinity.\<close>

definition FLOAT_INF :: int where "FLOAT_INF = 255 * 2 ^ 23"

definition round_pos :: "int \<Rightarrow> int \<Rightarrow> int" where
  "round_pos n d =
     (if n = 0 then 0
      else
        let e = lead_exp n d; (a, b) = scaled n d (23 - e);
            bits = (e + 126) * 2 ^ 23 + round_even a b
        in if bits \<ge> FLOAT_INF then FLOAT_INF else bits)"

definition with_sign :: "bool \<Rightarrow> int \<Rightarrow> int" where
  "with_sign neg b = (if neg then 2 ^ 31 + b else b)"

section \<open>Addition\<close>

definition FLOAT_NAN :: int where "FLOAT_NAN = 255 * 2 ^ 23 + 2 ^ 22"

definition float_inf :: "int \<Rightarrow> bool" where "float_inf b \<longleftrightarrow> b mod 2 ^ 31 = FLOAT_INF"

text \<open>A finite number as a multiple of \<open>2 ^ -149\<close>.\<close>

definition float_units :: "int \<Rightarrow> int" where
  "float_units b =
     (let m = b mod 2 ^ 31; ex = m div 2 ^ 23; fr = m mod 2 ^ 23;
          u = (if ex = 0 then fr else (fr + 2 ^ 23) * 2 ^ nat (ex - 1))
      in if b \<ge> 2 ^ 31 then - u else u)"

definition float_add :: "int \<Rightarrow> int \<Rightarrow> int" where
  "float_add a b =
     (if float_nan a \<or> float_nan b then FLOAT_NAN
      else if float_inf a then (if float_inf b \<and> (a \<ge> 2 ^ 31) \<noteq> (b \<ge> 2 ^ 31) then FLOAT_NAN else a)
      else if float_inf b then b
      else
        let s = float_units a + float_units b in
        if s = 0 then with_sign (a \<ge> 2 ^ 31 \<and> b \<ge> 2 ^ 31) 0
        else with_sign (s < 0) (round_pos \<bar>s\<bar> (2 ^ 149)))"

end
