(* ===== verification/Ix_Node.thy ===== *)
theory Ix_Node
  imports Page_Cache Float32 "HOL-Library.List_Lexorder"
begin

text \<open>
  One node of a B+ tree index: \<^verbatim>\<open>index/ix_defs.h\<close> and \<^verbatim>\<open>IxNodeHandle\<close> of \<^verbatim>\<open>index/ix_index_handle.{h,cpp}\<close>.
  A node is a page: a header of 24 bytes, an array of \<^verbatim>\<open>btree_order + 1\<close> keys, and an array of record
  identifiers (child page numbers in an inner node). The functions here work on the bytes of the
  page; the next theory runs them through the buffer pool.
\<close>

section \<open>The file header\<close>

definition IX_NO_PAGE :: int where "IX_NO_PAGE = -1"
definition IX_FILE_HDR_PAGE :: int where "IX_FILE_HDR_PAGE = 0"
definition IX_INIT_ROOT_PAGE :: int where "IX_INIT_ROOT_PAGE = 1"
definition IX_INIT_NUM_PAGES :: int where "IX_INIT_NUM_PAGES = 2"
definition IX_MAX_COL_LEN :: int where "IX_MAX_COL_LEN = 2000"

record IxFileHdr =
  ih_first_free_page_no :: page_id_t
  ih_num_pages :: int
  ih_root_page :: page_id_t
  ih_col_num :: int
  ih_col_types :: "ColType list"
  ih_col_lens :: "int list"
  ih_col_tot_len :: int
  ih_btree_order :: int
  ih_keys_size :: int
  ih_first_leaf :: page_id_t
  ih_last_leaf :: page_id_t
  ih_tot_len :: int

definition update_tot_len :: "IxFileHdr \<Rightarrow> IxFileHdr" where
  "update_tot_len h = h\<lparr>ih_tot_len := 4 * 4 + 4 * 6 + (4 * ih_col_num h + 4 * ih_col_num h)\<rparr>"

text \<open>\<^verbatim>\<open>serialize\<close>: the bytes it writes; the two vectors must have \<^verbatim>\<open>col_num\<close> elements.\<close>

definition IxFileHdr_serialize :: "IxFileHdr \<Rightarrow> exc + bytes" where
  "IxFileHdr_serialize h =
     (let n = nat (ih_col_num h) in
      if length (ih_col_types h) < n \<or> length (ih_col_lens h) < n then Inl OutOfRange
      else
        let bs = enc_le 4 (ih_tot_len h) @ enc_le 4 (ih_first_free_page_no h) @ enc_le 4 (ih_num_pages h)
          @ enc_le 4 (ih_root_page h) @ enc_le 4 (ih_col_num h)
          @ concat (map (\<lambda>t. enc_le 4 (coltype_code t)) (take n (ih_col_types h)))
          @ concat (map (enc_le 4) (take n (ih_col_lens h)))
          @ enc_le 4 (ih_col_tot_len h) @ enc_le 4 (ih_btree_order h) @ enc_le 4 (ih_keys_size h)
          @ enc_le 4 (ih_first_leaf h) @ enc_le 4 (ih_last_leaf h)
        in if int (length bs) = ih_tot_len h then Inr bs else Inl AssertFail)"

text \<open>\<^verbatim>\<open>n\<close> integers of four bytes from \<open>off\<close> on, and the column types they stand for.\<close>

definition rd_ints :: "nat \<Rightarrow> nat \<Rightarrow> bytes \<Rightarrow> int list" where
  "rd_ints off n m = map (\<lambda>i. rd_i32 (off + 4 * i) m) [0..<n]"

definition coltypes_of :: "int list \<Rightarrow> ColType list option" where
  "coltypes_of cs = (if list_all (\<lambda>c. coltype_of_code c \<noteq> None) cs then Some (map (the \<circ> coltype_of_code) cs) else None)"

definition IxFileHdr_deserialize :: "bytes \<Rightarrow> exc + IxFileHdr" where
  "IxFileHdr_deserialize m =
     (let n = nat (rd_i32 16 m); o1 = 20 + 4 * n; o2 = o1 + 4 * n in
      if length m < o2 + 20 then Inl OutOfRange
      else case coltypes_of (rd_ints 20 n m) of
        None \<Rightarrow> Inl OutOfRange
      | Some ts \<Rightarrow>
          if int (o2 + 20) = rd_i32 0 m then
            Inr \<lparr>ih_first_free_page_no = rd_i32 4 m, ih_num_pages = rd_i32 8 m, ih_root_page = rd_i32 12 m,
                 ih_col_num = rd_i32 16 m, ih_col_types = ts, ih_col_lens = rd_ints o1 n m,
                 ih_col_tot_len = rd_i32 o2 m, ih_btree_order = rd_i32 (o2 + 4) m, ih_keys_size = rd_i32 (o2 + 8) m,
                 ih_first_leaf = rd_i32 (o2 + 12) m, ih_last_leaf = rd_i32 (o2 + 16) m, ih_tot_len = rd_i32 0 m\<rparr>
          else Inl AssertFail)"

section \<open>Comparing keys\<close>

fun memcmp :: "bytes \<Rightarrow> bytes \<Rightarrow> int" where
  "memcmp (x # xs) (y # ys) = (if x < y then -1 else if y < x then 1 else memcmp xs ys)"
| "memcmp _ _ = 0"

definition cmp3 :: "('a \<Rightarrow> 'a \<Rightarrow> bool) \<Rightarrow> 'a \<Rightarrow> 'a \<Rightarrow> int" where
  "cmp3 lt a b = (if lt a b then -1 else if lt b a then 1 else 0)"

definition ix_compare1 :: "bytes \<Rightarrow> bytes \<Rightarrow> ColType \<Rightarrow> int \<Rightarrow> exc + int" where
  "ix_compare1 a b t len =
     (case t of
        TYPE_INT \<Rightarrow> Inr (cmp3 (<) (rd_i32 0 a) (rd_i32 0 b))
      | TYPE_FLOAT \<Rightarrow> Inr (cmp3 float_lt (float_bits a) (float_bits b))
      | TYPE_STRING \<Rightarrow> Inr (memcmp (take (nat len) a) (take (nat len) b))
      | _ \<Rightarrow> Inl (Throw (InternalError ''Unexpected data type'')))"

fun ix_compare_cols :: "bytes \<Rightarrow> bytes \<Rightarrow> (ColType \<times> int) list \<Rightarrow> exc + int" where
  "ix_compare_cols a b [] = Inr 0"
| "ix_compare_cols a b ((t, len) # cs) =
     (case ix_compare1 a b t len of
        Inl e \<Rightarrow> Inl e
      | Inr r \<Rightarrow> if r \<noteq> 0 then Inr r else ix_compare_cols (drop (nat len) a) (drop (nat len) b) cs)"

definition ix_compare :: "bytes \<Rightarrow> bytes \<Rightarrow> ColType list \<Rightarrow> int list \<Rightarrow> nat \<Rightarrow> exc + int" where
  "ix_compare a b types lens pre =
     (let pre = (if pre > 0 then pre else length lens) in
      if pre \<le> length types \<and> pre \<le> length lens then ix_compare_cols a b (zip (take pre types) (take pre lens))
      else case ix_compare_cols a b (zip types lens) of
             Inl e \<Rightarrow> Inl e | Inr r \<Rightarrow> if r \<noteq> 0 then Inr r else Inl OutOfRange)"

section \<open>The fields of a node\<close>

definition sizeof_IxPageHdr :: nat where "sizeof_IxPageHdr = 24"

definition ix_next_free :: "bytes \<Rightarrow> int" where "ix_next_free x = rd_i32 0 x"
definition get_parent_page_no :: "bytes \<Rightarrow> int" where "get_parent_page_no x = rd_i32 4 x"
definition get_size :: "bytes \<Rightarrow> int" where "get_size x = rd_i32 8 x"
definition is_leaf_page :: "bytes \<Rightarrow> bool" where "is_leaf_page x \<longleftrightarrow> x ! 12 \<noteq> 0"
definition get_prev_leaf :: "bytes \<Rightarrow> int" where "get_prev_leaf x = rd_i32 16 x"
definition get_next_leaf :: "bytes \<Rightarrow> int" where "get_next_leaf x = rd_i32 20 x"

definition set_parent_page_no :: "int \<Rightarrow> bytes \<Rightarrow> bytes" where "set_parent_page_no v = wr_i32 4 v"
definition set_size :: "int \<Rightarrow> bytes \<Rightarrow> bytes" where "set_size v = wr_i32 8 v"
definition set_is_leaf :: "bool \<Rightarrow> bytes \<Rightarrow> bytes" where "set_is_leaf b x = x[12 := (if b then 1 else 0)]"
definition set_prev_leaf :: "int \<Rightarrow> bytes \<Rightarrow> bytes" where "set_prev_leaf v = wr_i32 16 v"
definition set_next_leaf :: "int \<Rightarrow> bytes \<Rightarrow> bytes" where "set_next_leaf v = wr_i32 20 v"

text \<open>Assigning a whole \<^verbatim>\<open>IxPageHdr\<close>.\<close>

definition set_page_hdr :: "int \<Rightarrow> int \<Rightarrow> bool \<Rightarrow> int \<Rightarrow> int \<Rightarrow> bytes \<Rightarrow> bytes" where
  "set_page_hdr parent n leaf prev nxt x =
     set_next_leaf nxt (set_prev_leaf prev (set_is_leaf leaf (set_size n (set_parent_page_no parent (wr_i32 0 IX_NO_PAGE x)))))"

definition get_max_rid_size :: "IxFileHdr \<Rightarrow> int" where "get_max_rid_size h = ih_btree_order h"
definition get_min_rid_size :: "IxFileHdr \<Rightarrow> int" where "get_min_rid_size h = (get_max_rid_size h + 1) div 2"

definition get_max_key_size :: "IxFileHdr \<Rightarrow> bytes \<Rightarrow> int" where
  "get_max_key_size h x = (if is_leaf_page x then get_max_rid_size h else get_max_rid_size h - 1)"

definition get_min_key_size :: "IxFileHdr \<Rightarrow> bytes \<Rightarrow> int" where
  "get_min_key_size h x = (if is_leaf_page x then get_min_rid_size h else get_min_rid_size h - 1)"

definition is_root_page :: "bytes \<Rightarrow> bool" where "is_root_page x \<longleftrightarrow> get_parent_page_no x = IX_NO_PAGE"

definition key_off :: "IxFileHdr \<Rightarrow> nat \<Rightarrow> nat" where
  "key_off h i = sizeof_IxPageHdr + i * nat (ih_col_tot_len h)"

definition rid_off :: "IxFileHdr \<Rightarrow> nat \<Rightarrow> nat" where
  "rid_off h i = sizeof_IxPageHdr + nat (ih_keys_size h) + 8 * i"

definition get_key :: "IxFileHdr \<Rightarrow> bytes \<Rightarrow> nat \<Rightarrow> bytes" where
  "get_key h x i = mem_get (key_off h i) (nat (ih_col_tot_len h)) x"

definition set_key :: "IxFileHdr \<Rightarrow> nat \<Rightarrow> bytes \<Rightarrow> bytes \<Rightarrow> bytes" where
  "set_key h i k = mem_put (key_off h i) (take (nat (ih_col_tot_len h)) k)"

definition get_rid :: "IxFileHdr \<Rightarrow> bytes \<Rightarrow> nat \<Rightarrow> Rid" where
  "get_rid h x i = \<lparr>page_no = rd_i32 (rid_off h i) x, slot_no = rd_i32 (rid_off h i + 4) x\<rparr>"

definition set_rid :: "IxFileHdr \<Rightarrow> nat \<Rightarrow> Rid \<Rightarrow> bytes \<Rightarrow> bytes" where
  "set_rid h i r = mem_put (rid_off h i) (enc_le 4 (page_no r) @ enc_le 4 (slot_no r))"

definition value_at :: "IxFileHdr \<Rightarrow> bytes \<Rightarrow> nat \<Rightarrow> page_id_t" where
  "value_at h x i = page_no (get_rid h x i)"

section \<open>Searching a node\<close>

text \<open>The loop of the three searches: \<open>below i\<close> tells to continue to the right of \<open>i\<close>.\<close>

function search_loop :: "(nat \<Rightarrow> exc + bool) \<Rightarrow> nat \<Rightarrow> nat \<Rightarrow> exc + nat" where
  "search_loop below l r =
     (if l < r then
        (case below ((l + r) div 2) of
           Inl e \<Rightarrow> Inl e
         | Inr True \<Rightarrow> search_loop below ((l + r) div 2 + 1) r
         | Inr False \<Rightarrow> search_loop below l ((l + r) div 2))
      else Inr r)"
  by auto
termination by (relation "measure (\<lambda>(below, l, r). r - l)") auto

declare search_loop.simps [simp del]

definition node_cmp :: "IxFileHdr \<Rightarrow> bytes \<Rightarrow> bytes \<Rightarrow> nat \<Rightarrow> nat \<Rightarrow> exc + int" where
  "node_cmp h x target pre i = ix_compare (get_key h x i) target (ih_col_types h) (ih_col_lens h) pre"

definition node_search :: "(int \<Rightarrow> bool) \<Rightarrow> IxFileHdr \<Rightarrow> bytes \<Rightarrow> bytes \<Rightarrow> nat \<Rightarrow> exc + nat" where
  "node_search small h x target pre =
     (if get_size x = 0 then Inr 0
      else
        let pre = (if pre = 0 then nat (ih_col_num h) else pre);
            below = (\<lambda>i. case node_cmp h x target pre i of Inl e \<Rightarrow> Inl e | Inr c \<Rightarrow> Inr (small c))
        in case search_loop below 0 (nat (get_size x) - 1) of
             Inl e \<Rightarrow> Inl e
           | Inr r \<Rightarrow> (case node_cmp h x target pre r of
                         Inl e \<Rightarrow> Inl e
                       | Inr c \<Rightarrow> Inr (if \<not> small c then r else nat (get_size x))))"

definition node_lower_bound :: "IxFileHdr \<Rightarrow> bytes \<Rightarrow> bytes \<Rightarrow> nat \<Rightarrow> exc + nat" where
  "node_lower_bound = node_search (\<lambda>c. c < 0)"

definition node_upper_bound :: "IxFileHdr \<Rightarrow> bytes \<Rightarrow> bytes \<Rightarrow> nat \<Rightarrow> exc + nat" where
  "node_upper_bound = node_search (\<lambda>c. c \<le> 0)"

text \<open>\<^verbatim>\<open>leaf_lookup\<close>; on an empty node it compares the bytes before the key array.\<close>

definition leaf_lookup :: "IxFileHdr \<Rightarrow> bytes \<Rightarrow> bytes \<Rightarrow> exc + Rid option" where
  "leaf_lookup h x key =
     (if get_size x = 0 then Inl OutOfRange
      else
        let pre = nat (ih_col_num h);
            below = (\<lambda>i. case node_cmp h x key pre i of Inl e \<Rightarrow> Inl e | Inr c \<Rightarrow> Inr (c < 0))
        in case search_loop below 0 (nat (get_size x) - 1) of
             Inl e \<Rightarrow> Inl e
           | Inr r \<Rightarrow> (case node_cmp h x key pre r of
                         Inl e \<Rightarrow> Inl e
                       | Inr c \<Rightarrow> Inr (if c = 0 then Some (get_rid h x r) else None)))"

definition internal_lookup :: "IxFileHdr \<Rightarrow> bytes \<Rightarrow> bytes \<Rightarrow> nat \<Rightarrow> exc + page_id_t" where
  "internal_lookup h x key pre =
     (case node_upper_bound h x key pre of Inl e \<Rightarrow> Inl e | Inr i \<Rightarrow> Inr (page_no (get_rid h x i)))"

section \<open>Changing a node\<close>

definition copy_pair :: "IxFileHdr \<Rightarrow> nat \<Rightarrow> nat \<Rightarrow> bytes \<Rightarrow> bytes" where
  "copy_pair h i j x = (let x1 = set_key h i (get_key h x j) x in set_rid h i (get_rid h x1 j) x1)"

text \<open>\<^verbatim>\<open>for (i = num_key; i > pos; --i)\<close> copy pair \<open>i - 1\<close> to \<open>i\<close>.\<close>

fun shift_right :: "IxFileHdr \<Rightarrow> nat \<Rightarrow> nat \<Rightarrow> bytes \<Rightarrow> bytes" where
  "shift_right h pos 0 x = x"
| "shift_right h pos (Suc i) x = (if Suc i > pos then shift_right h pos i (copy_pair h (Suc i) i x) else x)"

definition insert_pair :: "IxFileHdr \<Rightarrow> nat \<Rightarrow> bytes \<Rightarrow> Rid \<Rightarrow> bytes \<Rightarrow> exc + bytes" where
  "insert_pair h pos key rid x =
     (if int pos \<le> get_size x then
        let x1 = shift_right h pos (nat (get_size x)) x;
            x2 = set_rid h pos rid (set_key h pos key x1)
        in Inr (set_size (get_size x2 + 1) x2)
      else Inl AssertFail)"

definition node_insert :: "IxFileHdr \<Rightarrow> bytes \<Rightarrow> Rid \<Rightarrow> bytes \<Rightarrow> exc + ((nat \<times> int) \<times> bytes)" where
  "node_insert h key rid x =
     (if \<not> is_leaf_page x then Inl AssertFail
      else case node_lower_bound h x key 0 of
        Inl e \<Rightarrow> Inl e
      | Inr i \<Rightarrow>
          (case (if int i = get_size x then Inr 1 else node_cmp h x key 0 i) of
             Inl e \<Rightarrow> Inl e
           | Inr c \<Rightarrow>
               if c > 0 then
                 (case insert_pair h i key rid x of Inl e \<Rightarrow> Inl e | Inr x' \<Rightarrow> Inr ((i, get_size x'), x'))
               else Inl (Throw IndexEntryNotUniqueError)))"

fun shift_left :: "IxFileHdr \<Rightarrow> nat \<Rightarrow> nat \<Rightarrow> bytes \<Rightarrow> bytes" where
  "shift_left h pos 0 x = x"
| "shift_left h pos (Suc k) x = shift_left h (Suc pos) k (copy_pair h pos (Suc pos) x)"

definition erase_pair :: "IxFileHdr \<Rightarrow> nat \<Rightarrow> bytes \<Rightarrow> exc + bytes" where
  "erase_pair h pos x =
     (if int pos < get_size x \<and> is_leaf_page x then
        let x1 = shift_left h pos (nat (get_size x - 1) - pos) x in Inr (set_size (get_size x1 - 1) x1)
      else Inl AssertFail)"

text \<open>The loop of \<^verbatim>\<open>remove\<close>; \<open>fuel\<close> is the number of pairs of the node.\<close>

fun remove_loop :: "IxFileHdr \<Rightarrow> nat \<Rightarrow> bytes \<Rightarrow> nat \<Rightarrow> bytes \<Rightarrow> exc + bytes" where
  "remove_loop h 0 key i x = (if int i < get_size x then Inl OutOfFuel else Inr x)"
| "remove_loop h (Suc n) key i x =
     (if int i < get_size x then
        (case node_cmp h x key 0 i of
           Inl e \<Rightarrow> Inl e
         | Inr c \<Rightarrow> if c = 0 then (case erase_pair h i x of Inl e \<Rightarrow> Inl e | Inr x' \<Rightarrow> remove_loop h n key (Suc i) x')
                    else Inr x)
      else Inr x)"

definition node_remove :: "IxFileHdr \<Rightarrow> bytes \<Rightarrow> bytes \<Rightarrow> exc + (int \<times> bytes)" where
  "node_remove h key x =
     (if \<not> is_leaf_page x then Inl AssertFail
      else case node_lower_bound h x key 0 of
        Inl e \<Rightarrow> Inl e
      | Inr i \<Rightarrow> (case remove_loop h (nat (get_size x)) key i x of Inl e \<Rightarrow> Inl e | Inr x' \<Rightarrow> Inr (get_size x', x')))"

definition remove_and_return_only_child :: "IxFileHdr \<Rightarrow> bytes \<Rightarrow> exc + (page_id_t \<times> bytes)" where
  "remove_and_return_only_child h x =
     (if get_size x = 1 then
        (case erase_pair h 0 x of
           Inl e \<Rightarrow> Inl e
         | Inr x' \<Rightarrow> if get_size x' = 0 then Inr (value_at h x 0, x') else Inl AssertFail)
      else Inl AssertFail)"

definition find_child :: "IxFileHdr \<Rightarrow> bytes \<Rightarrow> page_id_t \<Rightarrow> exc + nat" where
  "find_child h x child =
     (case List.find (\<lambda>i. page_no (get_rid h x i) = child) [0..<nat (get_size x + 1)] of
        Some i \<Rightarrow> Inr i | None \<Rightarrow> Inl AssertFail)"

end
