(* ===== verification/Ix_Tree.thy ===== *)
theory Ix_Tree
  imports Ix_Node
begin

text \<open>
  The B+ tree: \<^verbatim>\<open>IxIndexHandle\<close> of \<^verbatim>\<open>index/ix_index_handle.{h,cpp}\<close> and the scan over its leaves,
  \<^verbatim>\<open>index/ix_scan.{h,cpp}\<close>. The state is the buffer pool and the file header the handle keeps; an
  \<^verbatim>\<open>IxNodeHandle *\<close> is the frame of its page, which stays pinned while the handle is used. Loops that
  walk along page numbers, and the recursion of \<^verbatim>\<open>split\<close> and \<^verbatim>\<open>coalesce\<close> up the tree, take the number
  of levels they may visit as fuel.
\<close>

section \<open>State and access to nodes\<close>

record IxSys =
  ix_bp :: BufferPool
  ix_hdr :: IxFileHdr

definition ix_pool :: "(BufferPool, 'a) stm \<Rightarrow> (IxSys, 'a) stm" where
  "ix_pool m s = (case m (ix_bp s) of (r, b) \<Rightarrow> (r, s\<lparr>ix_bp := b\<rparr>))"

definition set_ix_hdr :: "(IxFileHdr \<Rightarrow> IxFileHdr) \<Rightarrow> (IxSys, unit) stm" where
  "set_ix_hdr g = modifyE (\<lambda>s. s\<lparr>ix_hdr := g (ix_hdr s)\<rparr>)"

text \<open>The bytes of a node, a change of them, its page number, and a field or key read with the header.\<close>

definition node_bytes :: "frame_id_t \<Rightarrow> (IxSys, bytes) stm" where
  "node_bytes f = getsE (\<lambda>s. frame_data (ix_bp s) f)"

definition upd_node :: "frame_id_t \<Rightarrow> (IxFileHdr \<Rightarrow> bytes \<Rightarrow> bytes) \<Rightarrow> (IxSys, unit) stm" where
  "upd_node f g = modifyE (\<lambda>s. s\<lparr>ix_bp := poke f (g (ix_hdr s) (frame_data (ix_bp s) f)) (ix_bp s)\<rparr>)"

definition node_no :: "frame_id_t \<Rightarrow> (IxSys, page_id_t) stm" where
  "node_no f = getsE (\<lambda>s. pid_no (page_id (pages (ix_bp s) ! f)))"

definition node_get :: "frame_id_t \<Rightarrow> (IxFileHdr \<Rightarrow> bytes \<Rightarrow> 'a) \<Rightarrow> (IxSys, 'a) stm" where
  "node_get f g = getsE (\<lambda>s. g (ix_hdr s) (frame_data (ix_bp s) f))"

text \<open>A computation on the bytes of a node that may fail, as a step of the handle.\<close>

definition liftR :: "exc + 'a \<Rightarrow> ('s, 'a) stm" where
  "liftR r = (case r of Inl e \<Rightarrow> throwE e | Inr x \<Rightarrow> returnE x)"

definition node_try :: "frame_id_t \<Rightarrow> (IxFileHdr \<Rightarrow> bytes \<Rightarrow> exc + 'a) \<Rightarrow> (IxSys, 'a) stm" where
  "node_try f g = bindE (node_get f g) liftR"

definition fetch_node :: "int \<Rightarrow> page_id_t \<Rightarrow> (IxSys, frame_id_t) stm" where
  "fetch_node fd pno = bindE (ix_pool (fetch_page \<lparr>pid_fd = fd, pid_no = pno\<rparr>)) deref"

definition release_node_handle :: "frame_id_t \<Rightarrow> bool \<Rightarrow> (IxSys, unit) stm" where
  "release_node_handle f dirty =
     bindE (getsE (\<lambda>s. page_id (pages (ix_bp s) ! f))) (\<lambda>pid.
     bindE (ix_pool (\<lambda>b. case unpin_page pid dirty b of (r, b') \<Rightarrow> (Inr r, b'))) (\<lambda>r. assertE r))"

definition create_node :: "int \<Rightarrow> (IxSys, frame_id_t) stm" where
  "create_node fd =
     bindE (set_ix_hdr (\<lambda>h. h\<lparr>ih_num_pages := ih_num_pages h + 1\<rparr>)) (\<lambda>_.
     bindE (getsE ix_hdr) (\<lambda>h.
       if ih_first_free_page_no h \<noteq> IX_NO_PAGE then
         bindE (fetch_node fd (ih_first_free_page_no h)) (\<lambda>f.
         bindE (node_get f (\<lambda>_. ix_next_free)) (\<lambda>nf.
         bindE (set_ix_hdr (\<lambda>h. h\<lparr>ih_first_free_page_no := nf\<rparr>)) (\<lambda>_.
         returnE f)))
       else bindE (ix_pool (new_page fd)) (\<lambda>p. bindE (deref p) (\<lambda>(f, pid). returnE f))))"

section \<open>Going down the tree\<close>

text \<open>\<^verbatim>\<open>internal_lookup\<close> and \<^verbatim>\<open>release_node_handle\<close> until a leaf is reached.\<close>

fun find_leaf_from :: "nat \<Rightarrow> int \<Rightarrow> bytes \<Rightarrow> frame_id_t \<Rightarrow> (IxSys, frame_id_t) stm" where
  "find_leaf_from n fd key f =
     bindE (node_get f (\<lambda>_. is_leaf_page)) (\<lambda>leaf.
       if leaf then returnE f
       else
         (case n of
            0 \<Rightarrow> throwE OutOfFuel
          | Suc m \<Rightarrow>
              bindE (node_try f (\<lambda>h x. internal_lookup h x key 0)) (\<lambda>pno.
              bindE (release_node_handle f False) (\<lambda>_.
              bindE (fetch_node fd pno) (find_leaf_from m fd key)))))"

declare find_leaf_from.simps [simp del]

definition find_leaf_page :: "nat \<Rightarrow> int \<Rightarrow> bytes \<Rightarrow> (IxSys, frame_id_t) stm" where
  "find_leaf_page n fd key =
     bindE (getsE (\<lambda>s. ih_root_page (ix_hdr s))) (\<lambda>root. bindE (fetch_node fd root) (find_leaf_from n fd key))"

text \<open>The leaf below the leftmost child; the nodes on the way are released, the leaf is not.\<close>

fun min_leaf_from :: "nat \<Rightarrow> int \<Rightarrow> page_id_t \<Rightarrow> (IxSys, frame_id_t) stm" where
  "min_leaf_from n fd pno =
     bindE (fetch_node fd pno) (\<lambda>f.
     bindE (node_get f (\<lambda>_. is_leaf_page)) (\<lambda>leaf.
       if leaf then returnE f
       else
         (case n of
            0 \<Rightarrow> throwE OutOfFuel
          | Suc m \<Rightarrow>
              bindE (node_get f (\<lambda>h x. page_no (get_rid h x 0))) (\<lambda>pno'.
              bindE (release_node_handle f False) (\<lambda>_. min_leaf_from m fd pno')))))"

declare min_leaf_from.simps [simp del]

definition get_min_leafnode :: "nat \<Rightarrow> int \<Rightarrow> frame_id_t \<Rightarrow> (IxSys, frame_id_t) stm" where
  "get_min_leafnode n fd f =
     bindE (node_get f (\<lambda>_. is_leaf_page)) (\<lambda>leaf.
       if leaf then returnE f
       else bindE (node_get f (\<lambda>h x. page_no (get_rid h x 0))) (min_leaf_from n fd))"

definition is_exist :: "nat \<Rightarrow> int \<Rightarrow> bytes \<Rightarrow> (IxSys, bool) stm" where
  "is_exist n fd key =
     bindE (find_leaf_page n fd key) (\<lambda>f.
     bindE (node_try f (\<lambda>h x. node_lower_bound h x key 0)) (\<lambda>i.
     bindE (node_try f (\<lambda>h x. if int i < get_size x
                              then (case ix_compare key (get_key h x i) (ih_col_types h) (ih_col_lens h) 0 of
                                      Inl e \<Rightarrow> Inl e | Inr c \<Rightarrow> Inr (c = 0))
                              else Inr False)) (\<lambda>found.
     bindE (release_node_handle f False) (\<lambda>_. returnE found))))"

text \<open>The loop of \<^verbatim>\<open>get_value\<close> over the slots from the lower bound on.\<close>

fun equal_rids :: "IxFileHdr \<Rightarrow> bytes \<Rightarrow> bytes \<Rightarrow> nat list \<Rightarrow> exc + Rid list" where
  "equal_rids h x key [] = Inr []"
| "equal_rids h x key (i # is) =
     (case ix_compare key (get_key h x i) (ih_col_types h) (ih_col_lens h) 0 of
        Inl e \<Rightarrow> Inl e
      | Inr c \<Rightarrow>
          if c = 0 then (case equal_rids h x key is of Inl e \<Rightarrow> Inl e | Inr rs \<Rightarrow> Inr (get_rid h x i # rs))
          else Inr [])"

definition get_value :: "nat \<Rightarrow> int \<Rightarrow> bytes \<Rightarrow> (IxSys, bool \<times> Rid list) stm" where
  "get_value n fd key =
     bindE (find_leaf_page n fd key) (\<lambda>f.
     bindE (node_try f (\<lambda>h x. node_lower_bound h x key 0)) (\<lambda>i.
     bindE (node_try f (\<lambda>h x. equal_rids h x key [i..<nat (get_size x)])) (\<lambda>rs.
     bindE (release_node_handle f False) (\<lambda>_.
     returnE (rs \<noteq> [], rs)))))"

section \<open>Keeping parents right\<close>

definition maintain_child :: "int \<Rightarrow> frame_id_t \<Rightarrow> nat \<Rightarrow> (IxSys, unit) stm" where
  "maintain_child fd f i =
     bindE (node_get f (\<lambda>_. is_leaf_page)) (\<lambda>leaf.
       if \<not> leaf then
         bindE (node_get f (\<lambda>h x. value_at h x i)) (\<lambda>cno.
         bindE (fetch_node fd cno) (\<lambda>c.
         bindE (node_no f) (\<lambda>pno.
         bindE (upd_node c (\<lambda>_. set_parent_page_no pno)) (\<lambda>_.
         release_node_handle c True))))
       else returnE ())"

text \<open>
  The loop of \<^verbatim>\<open>maintain_parent\<close>: \<open>first\<close> tells that \<open>cur\<close> is the node the call started from, which
  stays pinned; the other nodes on the way up are released.
\<close>

fun maintain_up :: "nat \<Rightarrow> int \<Rightarrow> bytes \<Rightarrow> bool \<Rightarrow> frame_id_t \<Rightarrow> page_id_t \<Rightarrow> (IxSys, unit) stm" where
  "maintain_up n fd min_key first cur pno =
     (if pno = IX_NO_PAGE then release_node_handle cur False
      else
        (case n of
           0 \<Rightarrow> throwE OutOfFuel
         | Suc m \<Rightarrow>
             bindE (fetch_node fd pno) (\<lambda>p.
             bindE (node_no cur) (\<lambda>cno.
             bindE (node_try p (\<lambda>h x. find_child h x cno)) (\<lambda>rank.
             bindE (if first then returnE () else release_node_handle cur False) (\<lambda>_.
               if rank > 0 then
                 bindE (upd_node p (\<lambda>h. set_key h (rank - 1) min_key)) (\<lambda>_. release_node_handle p True)
               else bindE (node_get p (\<lambda>_. get_parent_page_no)) (maintain_up m fd min_key False p)))))))"

declare maintain_up.simps [simp del]

definition maintain_parent :: "nat \<Rightarrow> int \<Rightarrow> frame_id_t \<Rightarrow> (IxSys, unit) stm" where
  "maintain_parent n fd f =
     bindE (node_get f (\<lambda>_. get_parent_page_no)) (\<lambda>pno.
     bindE (assertE (pno \<noteq> IX_NO_PAGE)) (\<lambda>_.
     bindE (get_min_leafnode n fd f) (\<lambda>m.
     bindE (node_get m (\<lambda>h x. get_key h x 0)) (\<lambda>min_key.
     bindE (node_get f (\<lambda>_. is_leaf_page)) (\<lambda>leaf.
     bindE (maintain_up n fd min_key True f pno) (\<lambda>_.
       if leaf then returnE () else release_node_handle m False))))))"

definition erase_leaf :: "int \<Rightarrow> frame_id_t \<Rightarrow> (IxSys, unit) stm" where
  "erase_leaf fd f =
     bindE (node_bytes f) (\<lambda>x.
     bindE (assertE (is_leaf_page x)) (\<lambda>_.
     bindE (fetch_node fd (get_prev_leaf x)) (\<lambda>p.
     bindE (upd_node p (\<lambda>_. set_next_leaf (get_next_leaf x))) (\<lambda>_.
     bindE (release_node_handle p True) (\<lambda>_.
     bindE (fetch_node fd (get_next_leaf x)) (\<lambda>q.
     bindE (upd_node q (\<lambda>_. set_prev_leaf (get_prev_leaf x))) (\<lambda>_.
     release_node_handle q True)))))))"

section \<open>Splitting\<close>

text \<open>
  \<^verbatim>\<open>memcpy\<close> of \<open>n\<close> consecutive keys, or record identifiers, from position \<open>j\<close> of one node to position
  \<open>i\<close> of another.
\<close>

definition copy_keys :: "IxFileHdr \<Rightarrow> nat \<Rightarrow> nat \<Rightarrow> nat \<Rightarrow> bytes \<Rightarrow> bytes \<Rightarrow> bytes" where
  "copy_keys h i j n src x = mem_put (key_off h i) (mem_get (key_off h j) (nat (ih_col_tot_len h) * n) src) x"

definition copy_rids :: "IxFileHdr \<Rightarrow> nat \<Rightarrow> nat \<Rightarrow> nat \<Rightarrow> bytes \<Rightarrow> bytes \<Rightarrow> bytes" where
  "copy_rids h i j n src x = mem_put (rid_off h i) (mem_get (rid_off h j) (8 * n) src) x"

text \<open>The node after the split one points back to the new node.\<close>

definition relink_next :: "int \<Rightarrow> frame_id_t \<Rightarrow> page_id_t \<Rightarrow> (IxSys, unit) stm" where
  "relink_next fd f new_no =
     bindE (node_get f (\<lambda>_. get_next_leaf)) (\<lambda>nxt.
     bindE (fetch_node fd nxt) (\<lambda>q.
     bindE (upd_node q (\<lambda>_. set_prev_leaf new_no)) (\<lambda>_.
     release_node_handle q True)))"

definition split_leaf :: "int \<Rightarrow> frame_id_t \<Rightarrow> frame_id_t \<Rightarrow> nat \<Rightarrow> nat \<Rightarrow> (IxSys, unit) stm" where
  "split_leaf fd f g from to =
     bindE (node_bytes f) (\<lambda>x.
     bindE (node_no f) (\<lambda>fno.
     bindE (node_no g) (\<lambda>gno.
     bindE (upd_node g (\<lambda>h y. set_page_hdr (get_parent_page_no x) (int to - int from) True fno (get_next_leaf x)
              (copy_rids h 0 from (to - from) x (copy_keys h 0 from (to - from) x y)))) (\<lambda>_.
     bindE (upd_node f (\<lambda>_. set_size (int from))) (\<lambda>_.
     bindE (if get_next_leaf x \<noteq> IX_NO_PAGE then relink_next fd f gno
            else set_ix_hdr (\<lambda>h. h\<lparr>ih_last_leaf := gno\<rparr>)) (\<lambda>_.
     upd_node f (\<lambda>_. set_next_leaf gno)))))))"

definition split_inner :: "int \<Rightarrow> frame_id_t \<Rightarrow> frame_id_t \<Rightarrow> nat \<Rightarrow> nat \<Rightarrow> (IxSys, unit) stm" where
  "split_inner fd f g from to =
     bindE (node_bytes f) (\<lambda>x.
     bindE (node_no f) (\<lambda>fno.
     bindE (node_no g) (\<lambda>gno.
     bindE (upd_node g (\<lambda>h y. set_page_hdr (get_parent_page_no x) (int to - int from - 1) False fno (get_next_leaf x)
              (copy_rids h 0 (from + 1) (to - from) x (copy_keys h 0 (from + 1) (to - from - 1) x y)))) (\<lambda>_.
     bindE (upd_node f (\<lambda>_. set_size (int from))) (\<lambda>_.
     bindE (if get_next_leaf x \<noteq> IX_NO_PAGE then relink_next fd f gno else returnE ()) (\<lambda>_.
     bindE (upd_node f (\<lambda>_. set_next_leaf gno)) (\<lambda>_.
     forE (maintain_child fd g) [0..<to - from])))))))"

text \<open>\<^verbatim>\<open>split\<close> before it calls \<^verbatim>\<open>insert_into_parent\<close>: the key to insert above and the new node.\<close>

definition split_node :: "int \<Rightarrow> frame_id_t \<Rightarrow> (IxSys, bytes \<times> frame_id_t) stm" where
  "split_node fd f =
     bindE (node_get f (\<lambda>h x. get_size x = get_max_key_size h x + 1)) (\<lambda>full.
     bindE (assertE full) (\<lambda>_.
     bindE (create_node fd) (\<lambda>g.
     bindE (node_get f (\<lambda>h x. (nat (get_min_key_size h x), nat (get_size x), is_leaf_page x))) (\<lambda>(from, to, leaf).
     bindE (node_get f (\<lambda>h x. get_key h x from)) (\<lambda>up_key.
     bindE (if leaf then split_leaf fd f g from to else split_inner fd f g from to) (\<lambda>_.
     returnE (up_key, g)))))))"

text \<open>\<^verbatim>\<open>for (i = size; i > key_idx; --i)\<close> key \<open>i - 1\<close> to \<open>i\<close> and child \<open>i\<close> to \<open>i + 1\<close>.\<close>

fun shift_right_inner :: "IxFileHdr \<Rightarrow> nat \<Rightarrow> nat \<Rightarrow> bytes \<Rightarrow> bytes" where
  "shift_right_inner h pos 0 x = x"
| "shift_right_inner h pos (Suc i) x =
     (if Suc i > pos then
        (let x1 = set_key h (Suc i) (get_key h x i) x
         in shift_right_inner h pos i (set_rid h (Suc (Suc i)) (get_rid h x1 (Suc i)) x1))
      else x)"

text \<open>The new root above a split one.\<close>

definition set_child_no :: "IxFileHdr \<Rightarrow> nat \<Rightarrow> page_id_t \<Rightarrow> bytes \<Rightarrow> bytes" where
  "set_child_no h i pno = wr_i32 (rid_off h i) pno"

definition new_root :: "int \<Rightarrow> frame_id_t \<Rightarrow> bytes \<Rightarrow> frame_id_t \<Rightarrow> (IxSys, frame_id_t) stm" where
  "new_root fd f key g =
     bindE (create_node fd) (\<lambda>p.
     bindE (node_no f) (\<lambda>fno.
     bindE (node_no g) (\<lambda>gno.
     bindE (node_no p) (\<lambda>pno.
     bindE (upd_node p (\<lambda>h y. set_size 1 (set_child_no h 1 gno (set_child_no h 0 fno (set_key h 0 key
              (set_page_hdr IX_NO_PAGE 0 False IX_NO_PAGE IX_NO_PAGE y)))))) (\<lambda>_.
     bindE (upd_node f (\<lambda>_. set_parent_page_no pno)) (\<lambda>_.
     bindE (upd_node g (\<lambda>_. set_parent_page_no pno)) (\<lambda>_.
     bindE (set_ix_hdr (\<lambda>h. h\<lparr>ih_root_page := pno\<rparr>)) (\<lambda>_.
     returnE p))))))))"

text \<open>\<^verbatim>\<open>insert_into_parent\<close> calls \<^verbatim>\<open>split\<close>, which calls it: the recursive call is the first argument.\<close>

definition insert_into_parent ::
  "(frame_id_t \<Rightarrow> (IxSys, frame_id_t) stm) \<Rightarrow> int \<Rightarrow> frame_id_t \<Rightarrow> bytes \<Rightarrow> frame_id_t \<Rightarrow> (IxSys, unit) stm" where
  "insert_into_parent split_rec fd f key g =
     bindE (node_get f (\<lambda>_. is_root_page)) (\<lambda>root.
     bindE (if root then new_root fd f key g
            else
              bindE (node_get f (\<lambda>_. get_parent_page_no)) (\<lambda>pno.
              bindE (fetch_node fd pno) (\<lambda>p.
              bindE (node_try p (\<lambda>h x. node_upper_bound h x key 0)) (\<lambda>i.
              bindE (node_no g) (\<lambda>gno.
              bindE (upd_node p (\<lambda>h x. set_rid h (i + 1) \<lparr>page_no = gno, slot_no = -1\<rparr>
                       (set_key h i key (shift_right_inner h i (nat (get_size x)) x)))) (\<lambda>_.
              bindE (upd_node p (\<lambda>_ x. set_size (get_size x + 1) x)) (\<lambda>_.
              bindE (node_get p (\<lambda>h x. get_size x > get_max_key_size h x)) (\<lambda>over.
              bindE (if over then bindE (split_rec p) (\<lambda>q. release_node_handle q True) else returnE ()) (\<lambda>_.
              returnE p))))))))) (\<lambda>p.
     release_node_handle p True))"

fun split_tree :: "nat \<Rightarrow> int \<Rightarrow> frame_id_t \<Rightarrow> (IxSys, frame_id_t) stm" where
  "split_tree 0 fd f = throwE OutOfFuel"
| "split_tree (Suc n) fd f =
     bindE (split_node fd f) (\<lambda>(key, g).
     bindE (insert_into_parent (split_tree n fd) fd f key g) (\<lambda>_. returnE g))"

section \<open>Moving pairs between siblings\<close>

text \<open>Copying the pair \<open>j\<close> of one leaf to position \<open>i\<close> of another.\<close>

definition put_pair :: "IxFileHdr \<Rightarrow> nat \<Rightarrow> nat \<Rightarrow> bytes \<Rightarrow> bytes \<Rightarrow> bytes" where
  "put_pair h i j src x = set_rid h i (get_rid h src j) (set_key h i (get_key h src j) x)"

text \<open>
  The two loops of \<^verbatim>\<open>redistribute\<close> between leaves \<open>l\<close> and \<open>r\<close>; each round narrows the difference of the
  sizes by two, so the difference at the start is enough fuel.
\<close>

fun pull_left :: "nat \<Rightarrow> IxFileHdr \<Rightarrow> bytes \<Rightarrow> bytes \<Rightarrow> bytes \<times> bytes" where
  "pull_left n h l r =
     (if get_size r - get_size l > 1 then
        (case n of
           0 \<Rightarrow> (l, r)
         | Suc m \<Rightarrow>
             let l1 = put_pair h (nat (get_size l)) 0 r l;
                 l2 = set_size (get_size l1 + 1) l1;
                 r1 = shift_left h 0 (nat (get_size r - 1)) r;
                 r2 = set_size (get_size r1 - 1) r1
             in pull_left m h l2 r2)
      else (l, r))"

declare pull_left.simps [simp del]

fun push_right :: "nat \<Rightarrow> IxFileHdr \<Rightarrow> bytes \<Rightarrow> bytes \<Rightarrow> bytes \<times> bytes" where
  "push_right n h l r =
     (if get_size l - get_size r > 1 then
        (case n of
           0 \<Rightarrow> (l, r)
         | Suc m \<Rightarrow>
             let r1 = shift_right h 0 (nat (get_size r)) r;
                 r2 = put_pair h 0 (nat (get_size l - 1)) l r1;
                 r3 = set_size (get_size r2 + 1) r2;
                 l1 = set_size (get_size l - 1) l
             in push_right m h l1 r3)
      else (l, r))"

declare push_right.simps [simp del]

definition redistribute_leaf :: "IxFileHdr \<Rightarrow> bytes \<Rightarrow> bytes \<Rightarrow> bytes \<times> bytes" where
  "redistribute_leaf h l r =
     (if get_size l < get_size r then pull_left (nat (get_size r - get_size l)) h l r
      else push_right (nat (get_size l - get_size r)) h l r)"

text \<open>One round of each loop between inner nodes.\<close>

definition pull_inner :: "nat \<Rightarrow> int \<Rightarrow> frame_id_t \<Rightarrow> frame_id_t \<Rightarrow> (IxSys, unit) stm" where
  "pull_inner n fd l r =
     bindE (get_min_leafnode n fd r) (\<lambda>tmp.
     bindE (node_get tmp (\<lambda>h x. get_key h x 0)) (\<lambda>k.
     bindE (upd_node l (\<lambda>h x. set_key h (nat (get_size x)) k x)) (\<lambda>_.
     bindE (release_node_handle tmp False) (\<lambda>_.
     bindE (node_get r (\<lambda>h x. get_rid h x 0)) (\<lambda>c.
     bindE (upd_node l (\<lambda>h x. set_rid h (nat (get_size x) + 1) c x)) (\<lambda>_.
     bindE (upd_node r (\<lambda>h x. let n = nat (get_size x); y = shift_left h 0 (n - 1) x
                              in set_rid h (n - 1) (get_rid h y n) y)) (\<lambda>_.
     bindE (upd_node l (\<lambda>_ x. set_size (get_size x + 1) x)) (\<lambda>_.
     bindE (upd_node r (\<lambda>_ x. set_size (get_size x - 1) x)) (\<lambda>_.
     bindE (node_get l (\<lambda>_. get_size)) (\<lambda>i.
     maintain_child fd l (nat i)))))))))))"

definition push_inner :: "nat \<Rightarrow> int \<Rightarrow> frame_id_t \<Rightarrow> frame_id_t \<Rightarrow> (IxSys, unit) stm" where
  "push_inner n fd l r =
     bindE (get_min_leafnode n fd r) (\<lambda>tmp.
     bindE (upd_node r (\<lambda>h x. let y = shift_right_inner h 0 (nat (get_size x)) x in set_rid h 1 (get_rid h y 0) y)) (\<lambda>_.
     bindE (node_get tmp (\<lambda>h x. get_key h x 0)) (\<lambda>k.
     bindE (upd_node r (\<lambda>h. set_key h 0 k)) (\<lambda>_.
     bindE (release_node_handle tmp False) (\<lambda>_.
     bindE (node_get l (\<lambda>h x. get_rid h x (nat (get_size x)))) (\<lambda>c.
     bindE (upd_node r (\<lambda>h. set_rid h 0 c)) (\<lambda>_.
     bindE (upd_node r (\<lambda>_ x. set_size (get_size x + 1) x)) (\<lambda>_.
     bindE (upd_node l (\<lambda>_ x. set_size (get_size x - 1) x)) (\<lambda>_.
     maintain_child fd r 0)))))))))"

text \<open>\<^verbatim>\<open>while (size(b) - size(a) > 1)\<close> around such a round, \<open>k\<close> rounds at most.\<close>

fun balance_loop :: "nat \<Rightarrow> frame_id_t \<Rightarrow> frame_id_t \<Rightarrow> (IxSys, unit) stm \<Rightarrow> (IxSys, unit) stm" where
  "balance_loop k a b step =
     bindE (node_get a (\<lambda>_. get_size)) (\<lambda>na.
     bindE (node_get b (\<lambda>_. get_size)) (\<lambda>nb.
       if nb - na > 1 then (case k of 0 \<Rightarrow> throwE OutOfFuel | Suc m \<Rightarrow> bindE step (\<lambda>_. balance_loop m a b step))
       else returnE ()))"

declare balance_loop.simps [simp del]

definition redistribute :: "nat \<Rightarrow> int \<Rightarrow> frame_id_t \<Rightarrow> frame_id_t \<Rightarrow> (IxSys, unit) stm" where
  "redistribute n fd l r =
     bindE (node_bytes l) (\<lambda>xl.
     bindE (node_bytes r) (\<lambda>xr.
     let nl = get_size xl; nr = get_size xr in
     bindE (assertE (nl - nr > 1 \<or> nr - nl > 1)) (\<lambda>_.
     bindE (if is_leaf_page xl then
              bindE (assertE (is_leaf_page xr)) (\<lambda>_.
              bindE (getsE ix_hdr) (\<lambda>h.
              let (yl, yr) = redistribute_leaf h xl xr in
              bindE (upd_node l (\<lambda>_ _. yl)) (\<lambda>_. upd_node r (\<lambda>_ _. yr))))
            else if nl < nr then balance_loop (nat (nr - nl)) l r (pull_inner n fd l r)
            else balance_loop (nat (nl - nr)) r l (push_inner n fd l r)) (\<lambda>_.
     maintain_parent n fd r))))"

section \<open>Inserting\<close>

text \<open>\<^verbatim>\<open>ix_compare(key, node->get_key(0)) >= 0\<close>\<close>

definition key_ge_first :: "bytes \<Rightarrow> frame_id_t \<Rightarrow> (IxSys, bool) stm" where
  "key_ge_first key f =
     node_try f (\<lambda>h x. case ix_compare key (get_key h x 0) (ih_col_types h) (ih_col_lens h) 0 of
                         Inl e \<Rightarrow> Inl e | Inr c \<Rightarrow> Inr (c \<ge> 0))"

text \<open>
  Room in a neighbour of the full leaf: \<open>sib\<close> is its page number; \<open>l\<close> and \<open>r\<close> choose which of the two
  frames is the left one. None when there is no neighbour with room.
\<close>

definition spill :: "nat \<Rightarrow> int \<Rightarrow> bytes \<Rightarrow> frame_id_t \<Rightarrow> page_id_t \<Rightarrow> bool \<Rightarrow> (IxSys, page_id_t option) stm" where
  "spill n fd key f sib left =
     (if sib = IX_NO_PAGE then returnE None
      else
        bindE (fetch_node fd sib) (\<lambda>g.
        bindE (node_get g (\<lambda>h x. get_size x < get_max_key_size h x)) (\<lambda>room.
          if room then
            let l = (if left then g else f); r = (if left then f else g) in
            bindE (redistribute n fd l r) (\<lambda>_.
            bindE (key_ge_first key r) (\<lambda>ge.
            bindE (node_no (if ge then r else l)) (\<lambda>pno.
            bindE (release_node_handle g True) (\<lambda>_.
            bindE (release_node_handle f True) (\<lambda>_.
            returnE (Some pno))))))
          else bindE (release_node_handle g False) (\<lambda>_. returnE None))))"

definition insert_split :: "nat \<Rightarrow> int \<Rightarrow> bytes \<Rightarrow> frame_id_t \<Rightarrow> (IxSys, page_id_t) stm" where
  "insert_split n fd key f =
     bindE (split_tree n fd f) (\<lambda>g.
     bindE (key_ge_first key g) (\<lambda>ge.
     bindE (node_no (if ge then g else f)) (\<lambda>pno.
     bindE (release_node_handle g True) (\<lambda>_.
     bindE (release_node_handle f True) (\<lambda>_.
     returnE pno)))))"

definition insert_entry :: "nat \<Rightarrow> int \<Rightarrow> bytes \<Rightarrow> Rid \<Rightarrow> (IxSys, page_id_t) stm" where
  "insert_entry n fd key value =
     bindE (find_leaf_page n fd key) (\<lambda>f.
     bindE (node_get f (\<lambda>h. node_insert h key value)) (\<lambda>r.
       case r of
         Inl e \<Rightarrow>
           if e = Throw IndexEntryNotUniqueError then bindE (release_node_handle f False) (\<lambda>_. throwE e) else throwE e
       | Inr ((pos, cnt), x) \<Rightarrow>
           bindE (upd_node f (\<lambda>_ _. x)) (\<lambda>_.
           bindE (node_get f get_max_key_size) (\<lambda>mx.
             if cnt > mx then
               bindE (assertE (cnt = mx + 1)) (\<lambda>_.
               bindE (spill n fd key f (get_prev_leaf x) True) (\<lambda>res.
                 case res of
                   Some pno \<Rightarrow> returnE pno
                 | None \<Rightarrow>
                     bindE (spill n fd key f (get_next_leaf x) False) (\<lambda>res.
                       case res of Some pno \<Rightarrow> returnE pno | None \<Rightarrow> insert_split n fd key f)))
             else
               bindE (node_no f) (\<lambda>pno. bindE (release_node_handle f True) (\<lambda>_. returnE pno))))))"

section \<open>Deleting\<close>

definition adjust_root :: "int \<Rightarrow> frame_id_t \<Rightarrow> (IxSys, bool) stm" where
  "adjust_root fd f =
     bindE (node_bytes f) (\<lambda>x.
     bindE (assertE (\<not> is_leaf_page x)) (\<lambda>_.
     bindE (assertE (get_size x = 0)) (\<lambda>_.
     bindE (node_get f (\<lambda>h x. value_at h x 0)) (\<lambda>rno.
     bindE (fetch_node fd rno) (\<lambda>r.
     bindE (getsE (\<lambda>s. page_id (pages (ix_bp s) ! f))) (\<lambda>pid.
     bindE (ix_pool (unpinE pid False)) (\<lambda>_.
     bindE (ix_pool (delete_page pid)) (\<lambda>_.
     bindE (set_ix_hdr (\<lambda>h. h\<lparr>ih_root_page := rno\<rparr>)) (\<lambda>_.
     bindE (upd_node r (\<lambda>_. set_parent_page_no IX_NO_PAGE)) (\<lambda>_.
     bindE (release_node_handle r True) (\<lambda>_.
     returnE True)))))))))))"

text \<open>The pairs of a parent without those of its child number \<open>c\<close>.\<close>

fun shift_left_inner :: "IxFileHdr \<Rightarrow> nat \<Rightarrow> nat \<Rightarrow> bytes \<Rightarrow> bytes" where
  "shift_left_inner h pos 0 x = x"
| "shift_left_inner h pos (Suc k) x =
     (let x1 = set_key h pos (get_key h x (Suc pos)) x
      in shift_left_inner h (Suc pos) k (set_rid h (Suc pos) (get_rid h x1 (Suc (Suc pos))) x1))"

definition drop_child :: "IxFileHdr \<Rightarrow> nat \<Rightarrow> bytes \<Rightarrow> bytes" where
  "drop_child h c x =
     (let n = nat (get_size x) in
      if c = 0 then
        let y = shift_left h 0 (n - 1) x; z = set_rid h (n - 1) (get_rid h y n) y in set_size (get_size z - 1) z
      else
        let y = shift_left_inner h (c - 1) ((n - 1) - (c - 1)) x in set_size (get_size y - 1) y)"

definition update_right_parent :: "(frame_id_t \<Rightarrow> (IxSys, bool) stm) \<Rightarrow> nat \<Rightarrow> int \<Rightarrow> frame_id_t \<Rightarrow> (IxSys, unit) stm" where
  "update_right_parent rebalance n fd r =
     bindE (node_get r (\<lambda>_. get_parent_page_no)) (\<lambda>pno.
     bindE (fetch_node fd pno) (\<lambda>p.
     bindE (node_no r) (\<lambda>rno.
     bindE (node_try p (\<lambda>h x. find_child h x rno)) (\<lambda>c.
     bindE (getsE (\<lambda>s. page_id (pages (ix_bp s) ! r))) (\<lambda>pid.
     bindE (ix_pool (unpinE pid False)) (\<lambda>_.
     bindE (ix_pool (delete_page pid)) (\<lambda>_.
     bindE (upd_node p (\<lambda>h. drop_child h c)) (\<lambda>_.
     bindE (if c = 0 then maintain_parent n fd p else returnE ()) (\<lambda>_.
     bindE (node_get p (\<lambda>h x. is_root_page x \<and> get_size x = 0
                              \<or> \<not> is_root_page x \<and> get_size x < get_min_key_size h x)) (\<lambda>small.
       if small then bindE (rebalance p) (\<lambda>gone. if \<not> gone then release_node_handle p True else returnE ())
       else release_node_handle p True))))))))))"

text \<open>All pairs of leaf \<open>r\<close> appended to leaf \<open>l\<close>; the pairs of an inner node behind the separating key.\<close>

definition append_pairs :: "IxFileHdr \<Rightarrow> nat \<Rightarrow> nat \<Rightarrow> bytes \<Rightarrow> bytes \<Rightarrow> bytes" where
  "append_pairs h i n src x = fold (\<lambda>j. put_pair h (i + j) j src) [0..<n] x"

definition unlink_right :: "int \<Rightarrow> frame_id_t \<Rightarrow> frame_id_t \<Rightarrow> bool \<Rightarrow> (IxSys, unit) stm" where
  "unlink_right fd l r leaf =
     bindE (node_get r (\<lambda>_. get_next_leaf)) (\<lambda>rr.
     bindE (upd_node l (\<lambda>_. set_next_leaf rr)) (\<lambda>_.
     bindE (node_no l) (\<lambda>lno.
       if rr \<noteq> IX_NO_PAGE then
         bindE (fetch_node fd rr) (\<lambda>q.
         bindE (upd_node q (\<lambda>_. set_prev_leaf lno)) (\<lambda>_. release_node_handle q True))
       else if leaf then set_ix_hdr (\<lambda>h. h\<lparr>ih_last_leaf := lno\<rparr>) else returnE ())))"

definition coalesce :: "(frame_id_t \<Rightarrow> (IxSys, unit) stm) \<Rightarrow> nat \<Rightarrow> int \<Rightarrow> frame_id_t \<Rightarrow> frame_id_t \<Rightarrow> (IxSys, unit) stm" where
  "coalesce up n fd l r =
     bindE (node_bytes l) (\<lambda>xl.
     bindE (node_bytes r) (\<lambda>xr.
     bindE (node_no r) (\<lambda>rno.
     bindE (getsE ix_hdr) (\<lambda>h.
     let nl = get_size xl; nr = get_size xr in
       if is_leaf_page xl then
         bindE (assertE (nl + nr \<le> get_max_key_size h xl)) (\<lambda>_.
         bindE (assertE (is_leaf_page xr)) (\<lambda>_.
         bindE (assertE (get_next_leaf xl = rno)) (\<lambda>_.
         bindE (unlink_right fd l r True) (\<lambda>_.
         bindE (upd_node l (\<lambda>h x. let y = append_pairs h (nat nl) (nat nr) xr x in set_size (get_size y + nr) y)) (\<lambda>_.
         up r)))))
       else
         bindE (assertE (nl + nr < get_max_key_size h xl)) (\<lambda>_.
         bindE (unlink_right fd l r False) (\<lambda>_.
         bindE (get_min_leafnode n fd r) (\<lambda>m.
         bindE (node_get m (\<lambda>h x. get_key h x 0)) (\<lambda>k.
         bindE (upd_node l (\<lambda>h. set_key h (nat nl) k)) (\<lambda>_.
         bindE (release_node_handle m False) (\<lambda>_.
         bindE (upd_node l (\<lambda>h x. let y = append_pairs h (nat nl + 1) (nat nr) xr x
                                  in set_rid h (nat (nl + nr) + 1) (get_rid h xr (nat nr)) y)) (\<lambda>_.
         bindE (forE (maintain_child fd l) [nat nl + 1..<nat (nl + nr) + 2]) (\<lambda>_.
         bindE (upd_node l (\<lambda>_. set_size (nl + nr + 1))) (\<lambda>_.
         up r)))))))))))))"

fun coalesce_or_redistribute :: "nat \<Rightarrow> int \<Rightarrow> frame_id_t \<Rightarrow> (IxSys, bool) stm" where
  "coalesce_or_redistribute 0 fd f = throwE OutOfFuel"
| "coalesce_or_redistribute (Suc n) fd f =
     bindE (node_bytes f) (\<lambda>x.
       if is_root_page x then adjust_root fd f
       else
         let merge = coalesce (update_right_parent (coalesce_or_redistribute n fd) n fd) n fd in
         if get_prev_leaf x \<noteq> IX_NO_PAGE then
           bindE (fetch_node fd (get_prev_leaf x)) (\<lambda>l.
           bindE (node_get l (\<lambda>h y. get_size y > get_min_key_size h y)) (\<lambda>rich.
             if rich then
               bindE (redistribute n fd l f) (\<lambda>_. bindE (release_node_handle l True) (\<lambda>_. returnE False))
             else bindE (merge l f) (\<lambda>_. bindE (release_node_handle l True) (\<lambda>_. returnE True))))
         else if get_next_leaf x \<noteq> IX_NO_PAGE then
           bindE (fetch_node fd (get_next_leaf x)) (\<lambda>r.
           bindE (node_get r (\<lambda>h y. get_size y > get_min_key_size h y)) (\<lambda>rich.
             if rich then
               bindE (redistribute n fd f r) (\<lambda>_. bindE (release_node_handle r True) (\<lambda>_. returnE False))
             else bindE (merge f r) (\<lambda>_. returnE False)))
         else throwE AssertFail)"

definition delete_entry :: "nat \<Rightarrow> int \<Rightarrow> bytes \<Rightarrow> (IxSys, bool) stm" where
  "delete_entry n fd key =
     bindE (find_leaf_page n fd key) (\<lambda>f.
     bindE (node_try f (\<lambda>h. node_remove h key)) (\<lambda>(cnt, x).
     bindE (upd_node f (\<lambda>_ _. x)) (\<lambda>_.
     bindE (node_get f (\<lambda>h x. \<not> is_root_page x \<and> cnt < get_min_key_size h x)) (\<lambda>small.
     bindE (if small then
              bindE (coalesce_or_redistribute n fd f) (\<lambda>gone. if \<not> gone then release_node_handle f True else returnE ())
            else release_node_handle f True) (\<lambda>_.
     returnE False)))))"

section \<open>Positions of entries, and the scan\<close>

definition ix_get_rid :: "int \<Rightarrow> Rid \<Rightarrow> (IxSys, Rid) stm" where
  "ix_get_rid fd iid =
     bindE (fetch_node fd (page_no iid)) (\<lambda>f.
     bindE (node_bytes f) (\<lambda>x.
       if slot_no iid = get_size x then
         bindE (release_node_handle f False) (\<lambda>_. returnE \<lparr>page_no = -1, slot_no = -1\<rparr>)
       else if slot_no iid > get_size x then throwE (Throw IndexEntryNotFoundError)
       else if slot_no iid < 0 then throwE OutOfRange
       else
         bindE (node_get f (\<lambda>h x. get_rid h x (nat (slot_no iid)))) (\<lambda>r.
         bindE (release_node_handle f False) (\<lambda>_. returnE r))))"

definition leaf_bound :: "(IxFileHdr \<Rightarrow> bytes \<Rightarrow> bytes \<Rightarrow> nat \<Rightarrow> exc + nat) \<Rightarrow> nat \<Rightarrow> int \<Rightarrow> bytes \<Rightarrow> nat \<Rightarrow> (IxSys, Rid) stm" where
  "leaf_bound bound n fd key pre =
     bindE (find_leaf_page n fd key) (\<lambda>f.
     bindE (node_try f (\<lambda>h x. bound h x key pre)) (\<lambda>i.
     bindE (node_bytes f) (\<lambda>x.
     bindE (node_no f) (\<lambda>fno.
     let iid = (if int i = get_size x \<and> get_next_leaf x \<noteq> IX_NO_PAGE
                then \<lparr>page_no = get_next_leaf x, slot_no = 0\<rparr> else \<lparr>page_no = fno, slot_no = int i\<rparr>) in
     bindE (release_node_handle f False) (\<lambda>_. returnE iid)))))"

definition ix_lower_bound :: "nat \<Rightarrow> int \<Rightarrow> bytes \<Rightarrow> nat \<Rightarrow> (IxSys, Rid) stm" where
  "ix_lower_bound = leaf_bound node_lower_bound"

definition ix_upper_bound :: "nat \<Rightarrow> int \<Rightarrow> bytes \<Rightarrow> nat \<Rightarrow> (IxSys, Rid) stm" where
  "ix_upper_bound = leaf_bound node_upper_bound"

definition leaf_end :: "int \<Rightarrow> (IxSys, Rid) stm" where
  "leaf_end fd =
     bindE (getsE (\<lambda>s. ih_last_leaf (ix_hdr s))) (\<lambda>last.
     bindE (fetch_node fd last) (\<lambda>f.
     bindE (node_get f (\<lambda>_. get_size)) (\<lambda>n.
     bindE (release_node_handle f False) (\<lambda>_.
     returnE \<lparr>page_no = last, slot_no = n\<rparr>))))"

definition leaf_begin :: "IxSys \<Rightarrow> Rid" where
  "leaf_begin s = \<lparr>page_no = ih_first_leaf (ix_hdr s), slot_no = 0\<rparr>"

record IxScan =
  sc_iid :: Rid
  sc_end :: Rid
  sc_is_end :: bool
  sc_node_size :: int

definition IxScan_is_end :: "IxScan \<Rightarrow> bool" where
  "IxScan_is_end c \<longleftrightarrow> sc_is_end c \<or> sc_iid c = sc_end c"

text \<open>The size of a leaf, read through a pin that is released at once.\<close>

definition leaf_size_of :: "int \<Rightarrow> page_id_t \<Rightarrow> (IxSys, int) stm" where
  "leaf_size_of fd pno =
     bindE (fetch_node fd pno) (\<lambda>f.
     bindE (node_bytes f) (\<lambda>x.
     bindE (assertE (is_leaf_page x)) (\<lambda>_.
     bindE (release_node_handle f False) (\<lambda>_.
     returnE (get_size x)))))"

definition IxScan_init :: "int \<Rightarrow> Rid \<Rightarrow> Rid \<Rightarrow> bool \<Rightarrow> (IxSys, IxScan) stm" where
  "IxScan_init fd lower upper is_end =
     (let c = \<lparr>sc_iid = lower, sc_end = upper, sc_is_end = is_end, sc_node_size = -1\<rparr> in
      if \<not> (is_end \<or> lower = upper)
      then bindE (leaf_size_of fd (page_no lower)) (\<lambda>n. returnE (c\<lparr>sc_node_size := n\<rparr>))
      else returnE c)"

definition IxScan_next :: "int \<Rightarrow> IxScan \<Rightarrow> (IxSys, IxScan) stm" where
  "IxScan_next fd c =
     bindE (assertE (\<not> IxScan_is_end c)) (\<lambda>_.
     bindE (getsE (\<lambda>s. ih_last_leaf (ix_hdr s))) (\<lambda>last.
     let iid = (sc_iid c)\<lparr>slot_no := slot_no (sc_iid c) + 1\<rparr> in
       if page_no iid \<noteq> last \<and> slot_no iid = sc_node_size c then
         bindE (fetch_node fd (page_no iid)) (\<lambda>f.
         bindE (node_get f (\<lambda>_. get_next_leaf)) (\<lambda>nxt.
         bindE (release_node_handle f False) (\<lambda>_.
         bindE (leaf_size_of fd nxt) (\<lambda>n.
         returnE (c\<lparr>sc_iid := \<lparr>page_no = nxt, slot_no = 0\<rparr>, sc_node_size := n\<rparr>)))))
       else if page_no iid = last \<and> slot_no iid = sc_node_size c then
         returnE (c\<lparr>sc_iid := iid, sc_is_end := True\<rparr>)
       else returnE (c\<lparr>sc_iid := iid\<rparr>)))"

definition IxScan_rid :: "int \<Rightarrow> IxScan \<Rightarrow> (IxSys, Rid) stm" where
  "IxScan_rid fd c = ix_get_rid fd (sc_iid c)"

end
