(* ===== verification/Ix_Key.thy ===== *)
theory Ix_Key
  imports Ix_Node
begin

text \<open>
  The order of index keys and the searches that rely on it. \<open>key_val\<close> maps the bytes of a key to a
  list of integers; \<^verbatim>\<open>ix_compare\<close> of \<^verbatim>\<open>index/ix_index_handle.h\<close> is the three-way comparison of those
  lists in lexicographic order. The binary searches of \<^verbatim>\<open>IxNodeHandle\<close> are verified once in the
  locale \<open>key_search\<close> from that law alone.
\<close>

section \<open>The value of a key\<close>

fun col_val :: "ColType \<Rightarrow> int \<Rightarrow> bytes \<Rightarrow> int list" where
  "col_val TYPE_INT len bs = [rd_i32 0 bs]"
| "col_val TYPE_FLOAT len bs = [float_ord (float_bits bs)]"
| "col_val TYPE_STRING len bs = map uint (take (nat len) bs)"
| "col_val _ len bs = []"

fun key_val :: "(ColType \<times> int) list \<Rightarrow> bytes \<Rightarrow> int list" where
  "key_val [] bs = []"
| "key_val ((t, len) # cs) bs = col_val t len bs @ key_val cs (drop (nat len) bs)"

text \<open>Column types an index can compare, with the length \<^verbatim>\<open>ColMeta\<close> gives them.\<close>

fun col_ok :: "ColType \<times> int \<Rightarrow> bool" where
  "col_ok (TYPE_INT, len) \<longleftrightarrow> len = 4"
| "col_ok (TYPE_FLOAT, len) \<longleftrightarrow> len = 4"
| "col_ok (TYPE_STRING, len) \<longleftrightarrow> 0 \<le> len"
| "col_ok (_, len) \<longleftrightarrow> False"

fun no_nan :: "(ColType \<times> int) list \<Rightarrow> bytes \<Rightarrow> bool" where
  "no_nan [] bs \<longleftrightarrow> True"
| "no_nan ((t, len) # cs) bs \<longleftrightarrow> (t = TYPE_FLOAT \<longrightarrow> \<not> float_nan (float_bits bs)) \<and> no_nan cs (drop (nat len) bs)"

definition cols_len :: "(ColType \<times> int) list \<Rightarrow> nat" where
  "cols_len cs = sum_list (map (nat \<circ> snd) cs)"

text \<open>A key is long enough for its columns and none of its \<^verbatim>\<open>float\<close> columns is a NaN.\<close>

definition key_ok :: "(ColType \<times> int) list \<Rightarrow> bytes \<Rightarrow> bool" where
  "key_ok cs bs \<longleftrightarrow> list_all col_ok cs \<and> cols_len cs \<le> length bs \<and> no_nan cs bs"

section \<open>The comparison is the lexicographic order of the values\<close>

lemma cmp3_Cons:
  "cmp3 (<) ((x::'a::linorder) # xs) (y # ys) = (if x < y then -1 else if y < x then 1 else cmp3 (<) xs ys)"
  by (auto simp: cmp3_def)

lemma cmp3_append:
  fixes a b :: "'a::linorder list"
  assumes "length a = length b"
  shows "cmp3 (<) (a @ u) (b @ v) = (if cmp3 (<) a b \<noteq> 0 then cmp3 (<) a b else cmp3 (<) u v)"
  using assms
proof (induction a b rule: list_induct2)
  case Nil
  then show ?case by (simp add: cmp3_def)
next
  case (Cons x xs y ys)
  then show ?case
    by (cases x y rule: linorder_cases) (simp_all add: cmp3_Cons)
qed

lemma cmp3_zero [simp]: "cmp3 (<) (a::'a::linorder) b = 0 \<longleftrightarrow> a = b"
  and cmp3_neg [simp]: "cmp3 (<) a b < 0 \<longleftrightarrow> a < b"
  and cmp3_pos [simp]: "0 < cmp3 (<) a b \<longleftrightarrow> b < a"
  and cmp3_nonpos [simp]: "cmp3 (<) a b \<le> 0 \<longleftrightarrow> a \<le> b"
  by (auto simp: cmp3_def)

lemma cmp3_singleton: "cmp3 (<) [a] [b] = cmp3 (<) (a::int) b"
  by (simp add: cmp3_def)

lemma memcmp_val: "length a = length b \<Longrightarrow> memcmp a b = cmp3 (<) (map uint a) (map uint b)"
  by (induction a b rule: list_induct2) (auto simp: cmp3_def word_less_def)

lemma length_col_val:
  assumes "col_ok (t, len)" "nat len \<le> length a" "nat len \<le> length b"
  shows "length (col_val t len a) = length (col_val t len b)"
  using assms by (cases t) auto

lemma ix_compare1_val:
  assumes "col_ok (t, len)" "nat len \<le> length a" "nat len \<le> length b"
    and "t = TYPE_FLOAT \<longrightarrow> \<not> float_nan (float_bits a) \<and> \<not> float_nan (float_bits b)"
  shows "ix_compare1 a b t len = Inr (cmp3 (<) (col_val t len a) (col_val t len b))"
  using assms
  by (cases t) (auto simp: ix_compare1_def memcmp_val cmp3_singleton cmp3_def float_lt_def)

lemma key_ok_Cons:
  "key_ok ((t, len) # cs) a \<Longrightarrow> col_ok (t, len) \<and> nat len \<le> length a \<and> key_ok cs (drop (nat len) a)
     \<and> (t = TYPE_FLOAT \<longrightarrow> \<not> float_nan (float_bits a))"
  by (auto simp: key_ok_def cols_len_def)

lemma ix_compare_cols_val:
  "key_ok cs a \<Longrightarrow> key_ok cs b \<Longrightarrow> ix_compare_cols a b cs = Inr (cmp3 (<) (key_val cs a) (key_val cs b))"
proof (induction cs arbitrary: a b)
  case Nil
  then show ?case by (simp add: cmp3_def)
next
  case (Cons c cs)
  obtain t len where c: "c = (t, len)" by force
  note a = key_ok_Cons [OF Cons.prems(1) [unfolded c]] and b = key_ok_Cons [OF Cons.prems(2) [unfolded c]]
  have "ix_compare1 a b t len = Inr (cmp3 (<) (col_val t len a) (col_val t len b))"
    using a b by (intro ix_compare1_val) auto
  moreover have "length (col_val t len a) = length (col_val t len b)"
    using a b by (intro length_col_val) auto
  ultimately show ?case using a b c by (simp add: Cons.IH cmp3_append)
qed

section \<open>Binary search over a comparison\<close>

text \<open>
  What the searches rely on: a comparison that is, on the keys that are \<open>ok\<close>, the three-way
  comparison of their values.
\<close>

locale key_search =
  fixes compare :: "'h \<Rightarrow> 'k \<Rightarrow> 'k \<Rightarrow> exc + int"
    and val :: "'h \<Rightarrow> 'k \<Rightarrow> 'v::linorder"
    and ok :: "'h \<Rightarrow> 'k \<Rightarrow> bool"
  assumes compare_val: "ok h a \<Longrightarrow> ok h b \<Longrightarrow> compare h a b = Inr (cmp3 (<) (val h a) (val h b))"
begin

definition below :: "(int \<Rightarrow> bool) \<Rightarrow> 'h \<Rightarrow> (nat \<Rightarrow> 'k) \<Rightarrow> 'k \<Rightarrow> nat \<Rightarrow> exc + bool" where
  "below small h key t i = (case compare h (key i) t of Inl e \<Rightarrow> Inl e | Inr c \<Rightarrow> Inr (small c))"

lemma loop_finds:
  assumes "\<And>i. i < n \<Longrightarrow> bl i = Inr (P i)" "l \<le> r" "r < n"
    and anti: "\<And>i j. i \<le> j \<Longrightarrow> j < n \<Longrightarrow> P j \<Longrightarrow> P i"
  shows "\<exists>m. search_loop bl l r = Inr m \<and> l \<le> m \<and> m \<le> r \<and> (\<forall>i. l \<le> i \<and> i < m \<longrightarrow> P i) \<and> (m < r \<longrightarrow> \<not> P m)"
  using assms(2,3)
proof (induction "r - l" arbitrary: l r rule: less_induct)
  case less
  show ?case
  proof (cases "l < r")
    case False
    with less.prems have "l = r" by simp
    then show ?thesis by (subst search_loop.simps) auto
  next
    case True
    let ?m = "(l + r) div 2"
    have m: "l \<le> ?m" "?m < r" using True by auto
    have bm: "bl ?m = Inr (P ?m)" using assms(1) m less.prems by simp
    show ?thesis
    proof (cases "P ?m")
      case P: True
      have "r - (?m + 1) < r - l" using m by linarith
      then obtain k where k: "search_loop bl (?m + 1) r = Inr k" "?m + 1 \<le> k" "k \<le> r"
          "\<forall>i. ?m + 1 \<le> i \<and> i < k \<longrightarrow> P i" "k < r \<longrightarrow> \<not> P k"
        using less.hyps [of r "?m + 1"] m less.prems True by auto
      have "P i" if "l \<le> i" "i < k" for i
        using that k(4) anti [of i ?m] P m less.prems by (cases "?m + 1 \<le> i") auto
      then show ?thesis using k m True bm P by (subst search_loop.simps) auto
    next
      case P: False
      have "?m - l < r - l" using m by linarith
      then obtain k where "search_loop bl l ?m = Inr k" "l \<le> k" "k \<le> ?m"
          "\<forall>i. l \<le> i \<and> i < k \<longrightarrow> P i" "k < ?m \<longrightarrow> \<not> P k"
        using less.hyps [of ?m l] m less.prems True by auto
      then show ?thesis using m True bm P by (subst search_loop.simps) (auto simp: le_less)
    qed
  qed
qed

text \<open>The search of a whole node: the loop, then the test of the element it stopped at.\<close>

lemma search_counts:
  assumes key: "\<And>i. i < n \<Longrightarrow> ok h (key i)" and t: "ok h t" and n: "0 < n"
    and anti: "\<And>i j. i \<le> j \<Longrightarrow> j < n \<Longrightarrow> small (cmp3 (<) (val h (key j)) (val h t)) \<Longrightarrow> small (cmp3 (<) (val h (key i)) (val h t))"
  obtains m c where "search_loop (below small h key t) 0 (n - 1) = Inr m" "m < n"
    "compare h (key m) t = Inr c" "c = cmp3 (<) (val h (key m)) (val h t)"
    "(if small c then n else m) = length (takeWhile (\<lambda>i. small (cmp3 (<) (val h (key i)) (val h t))) [0..<n])"
proof -
  let ?P = "\<lambda>i. small (cmp3 (<) (val h (key i)) (val h t))"
  have "below small h key t i = Inr (?P i)" if "i < n" for i
    using that by (simp add: below_def compare_val key t)
  then obtain m where m: "search_loop (below small h key t) 0 (n - 1) = Inr m" "m \<le> n - 1"
      "\<forall>i. 0 \<le> i \<and> i < m \<longrightarrow> ?P i" "m < n - 1 \<longrightarrow> \<not> ?P m"
    using loop_finds [of n "below small h key t" ?P 0 "n - 1"] anti n by auto
  have mn: "m < n" using m n by simp
  have split: "[0..<n] = [0..<m] @ m # [Suc m..<n]"
    using mn upt_add_eq_append [of 0 m "n - m"] by (simp add: upt_conv_Cons)
  have tm: "takeWhile ?P ([0..<m] @ ys) = [0..<m] @ takeWhile ?P ys" for ys
    using m(3) by (intro takeWhile_append2) auto
  have len: "length (takeWhile ?P [0..<n]) = m + length (takeWhile ?P (m # [Suc m..<n]))"
    by (subst split, subst tm) simp
  have count: "(if ?P m then n else m) = length (takeWhile ?P [0..<n])"
  proof (cases "?P m")
    case True
    with m have "n = Suc m" using mn by auto
    with True len show ?thesis by simp
  next
    case False
    with len show ?thesis by simp
  qed
  show thesis
    using that [OF m(1) mn compare_val [OF key [OF mn] t] refl] count by blast
qed

end

interpretation ixk: key_search "\<lambda>cs a b. ix_compare_cols a b cs" key_val key_ok
  by unfold_locales (rule ix_compare_cols_val)

end
