(* ===== verification/Ix_Pairs.thy ===== *)
theory Ix_Pairs
  imports Ix_Key
begin

text \<open>
  A node as a list of key/record-identifier pairs. The byte-level operations of \<^verbatim>\<open>IxNodeHandle\<close>
  (\<^verbatim>\<open>insert_pair\<close>, \<^verbatim>\<open>erase_pair\<close>, the loops that shift pairs) are related to list operations on
  \<open>node_pairs\<close>, and the searches to counting over the keys.
\<close>

section \<open>Well-formed file headers and nodes\<close>

definition ix_cols :: "IxFileHdr \<Rightarrow> (ColType \<times> int) list" where
  "ix_cols h = zip (ih_col_types h) (ih_col_lens h)"

text \<open>The layout \<^verbatim>\<open>IxManager::create_index\<close> computes: the keys and one spare pair fit a page.\<close>

definition ix_hdr_ok :: "IxFileHdr \<Rightarrow> bool" where
  "ix_hdr_ok h \<longleftrightarrow>
     0 < ih_col_num h \<and> length (ih_col_types h) = nat (ih_col_num h) \<and> length (ih_col_lens h) = nat (ih_col_num h)
     \<and> list_all col_ok (ix_cols h) \<and> ih_col_tot_len h = int (cols_len (ix_cols h))
     \<and> 2 < ih_btree_order h \<and> ih_keys_size h = (ih_btree_order h + 1) * ih_col_tot_len h
     \<and> 24 + ih_keys_size h + 8 * (ih_btree_order h + 1) \<le> int PAGE_SIZE"

definition key_len :: "IxFileHdr \<Rightarrow> nat" where "key_len h = nat (ih_col_tot_len h)"

definition ix_order :: "IxFileHdr \<Rightarrow> nat" where "ix_order h = nat (ih_btree_order h)"

definition pr :: "IxFileHdr \<Rightarrow> bytes \<Rightarrow> nat \<Rightarrow> bytes \<times> Rid" where
  "pr h x i = (get_key h x i, get_rid h x i)"

definition node_pairs :: "IxFileHdr \<Rightarrow> bytes \<Rightarrow> (bytes \<times> Rid) list" where
  "node_pairs h x = map (pr h x) [0..<nat (get_size x)]"

text \<open>The order key of a stored key or of a search argument.\<close>

definition kv :: "IxFileHdr \<Rightarrow> bytes \<Rightarrow> int list" where
  "kv h k = key_val (ix_cols h) k"

definition page_fits :: "bytes \<Rightarrow> bool" where
  "page_fits x \<longleftrightarrow> length x = PAGE_SIZE"

definition rid_ok :: "Rid \<Rightarrow> bool" where
  "rid_ok r \<longleftrightarrow> in_i32 (page_no r) \<and> in_i32 (slot_no r)"

text \<open>A leaf: at most \<^verbatim>\<open>btree_order\<close> pairs, strictly increasing keys.\<close>

definition leaf_ok :: "IxFileHdr \<Rightarrow> bytes \<Rightarrow> bool" where
  "leaf_ok h x \<longleftrightarrow> page_fits x \<and> is_leaf_page x \<and> 0 \<le> get_size x \<and> get_size x \<le> ih_btree_order h
     \<and> list_all (\<lambda>p. key_ok (ix_cols h) (fst p)) (node_pairs h x)
     \<and> sorted_wrt (<) (map (kv h \<circ> fst) (node_pairs h x))"

section \<open>Offsets\<close>

lemma hdr_order: "ix_hdr_ok h \<Longrightarrow> int (ix_order h) = ih_btree_order h \<and> 2 < ix_order h"
  by (auto simp: ix_hdr_ok_def ix_order_def)

lemma hdr_key_len: "ix_hdr_ok h \<Longrightarrow> int (key_len h) = ih_col_tot_len h"
  by (auto simp: ix_hdr_ok_def key_len_def)

lemma hdr_keys_size: "ix_hdr_ok h \<Longrightarrow> nat (ih_keys_size h) = Suc (ix_order h) * key_len h"
proof -
  assume h: "ix_hdr_ok h"
  then have "ih_keys_size h = (int (ix_order h) + 1) * int (key_len h)"
    using hdr_order hdr_key_len by (auto simp: ix_hdr_ok_def)
  also have "\<dots> = int (Suc (ix_order h) * key_len h)" by (simp add: algebra_simps)
  finally show ?thesis by (metis nat_int)
qed

lemma hdr_fits: "ix_hdr_ok h \<Longrightarrow> 24 + Suc (ix_order h) * key_len h + 8 * Suc (ix_order h) \<le> PAGE_SIZE"
proof -
  assume h: "ix_hdr_ok h"
  then have "24 + ih_keys_size h + 8 * (ih_btree_order h + 1) \<le> int PAGE_SIZE" "0 \<le> ih_keys_size h"
    by (auto simp: ix_hdr_ok_def)
  then have "24 + int (nat (ih_keys_size h)) + 8 * (int (ix_order h) + 1) \<le> int PAGE_SIZE"
    using hdr_order [OF h] by simp
  then have "int (24 + nat (ih_keys_size h) + 8 * Suc (ix_order h)) \<le> int PAGE_SIZE" by simp
  then have "24 + nat (ih_keys_size h) + 8 * Suc (ix_order h) \<le> PAGE_SIZE" by (simp only: of_nat_le_iff)
  then show ?thesis by (simp only: hdr_keys_size [OF h])
qed

lemma key_off_le:
  assumes "ix_hdr_ok h" "i \<le> ix_order h"
  shows "key_off h i + key_len h \<le> 24 + Suc (ix_order h) * key_len h"
proof -
  have "i * key_len h \<le> ix_order h * key_len h" using assms(2) by (rule mult_le_mono1)
  then show ?thesis by (simp add: key_off_def sizeof_IxPageHdr_def key_len_def)
qed

lemma key_off_bounds:
  assumes "ix_hdr_ok h" "i \<le> ix_order h"
  shows "24 \<le> key_off h i" "key_off h i + key_len h \<le> PAGE_SIZE"
  using key_off_le [OF assms] hdr_fits [OF assms(1)] by (auto simp: key_off_def sizeof_IxPageHdr_def)

lemma rid_off_eq: "ix_hdr_ok h \<Longrightarrow> rid_off h i = 24 + Suc (ix_order h) * key_len h + 8 * i"
  by (simp add: rid_off_def sizeof_IxPageHdr_def hdr_keys_size)

lemma rid_off_bounds:
  assumes "ix_hdr_ok h" "i \<le> ix_order h"
  shows "24 \<le> rid_off h i" "rid_off h i + 8 \<le> PAGE_SIZE"
  using assms hdr_fits [OF assms(1)] by (auto simp: rid_off_eq)

lemma key_before_rid:
  assumes "ix_hdr_ok h" "i \<le> ix_order h"
  shows "key_off h i + key_len h \<le> rid_off h j"
  using key_off_le [OF assms] by (simp add: rid_off_eq [OF assms(1)])

lemma key_off_disjoint:
  assumes "i < j"
  shows "key_off h i + key_len h \<le> key_off h j"
proof -
  have "Suc i * key_len h \<le> j * key_len h" using assms by (intro mult_le_mono1) simp
  then show ?thesis by (simp add: key_off_def key_len_def)
qed

lemma rid_off_disjoint: "i < j \<Longrightarrow> rid_off h i + 8 \<le> rid_off h j"
  by (simp add: rid_off_def)

section \<open>Reading a pair after writing one\<close>

lemma get_key_alt: "get_key h x i = mem_get (key_off h i) (key_len h) x"
  by (simp add: get_key_def key_len_def)

lemma set_key_alt: "set_key h i k x = mem_put (key_off h i) (take (key_len h) k) x"
  by (simp add: set_key_def key_len_def)

lemma get_rid_alt:
  "get_rid h x i = \<lparr>page_no = dec_s (mem_get (rid_off h i) 4 x), slot_no = dec_s (mem_get (rid_off h i + 4) 4 x)\<rparr>"
  by (simp add: get_rid_def rd_i32_def)

text \<open>Both writes leave the length and the page header alone.\<close>

definition same_frame :: "bytes \<Rightarrow> bytes \<Rightarrow> bool" where
  "same_frame x x' \<longleftrightarrow> length x' = length x \<and> take 24 x' = take 24 x"

lemma same_frame_refl [simp]: "same_frame x x"
  by (simp add: same_frame_def)

lemma same_frame_trans: "same_frame x y \<Longrightarrow> same_frame y z \<Longrightarrow> same_frame x z"
  by (simp add: same_frame_def)

lemma same_frame_fits: "same_frame x y \<Longrightarrow> page_fits x \<Longrightarrow> page_fits y"
  by (simp add: same_frame_def page_fits_def)

lemma same_frame_put: "24 \<le> off \<Longrightarrow> off + length s \<le> length x \<Longrightarrow> same_frame x (mem_put off s x)"
  by (simp add: same_frame_def mem_put_def)

lemma mem_get_take: "off + n \<le> m \<Longrightarrow> mem_get off n (take m x) = mem_get off n x"
  by (simp add: mem_get_def drop_take min_def)

lemma same_frame_rd: "same_frame x y \<Longrightarrow> off + 4 \<le> 24 \<Longrightarrow> rd_i32 off y = rd_i32 off x"
  unfolding rd_i32_def same_frame_def by (metis mem_get_take)

lemma same_frame_nth: "same_frame x y \<Longrightarrow> i < 24 \<Longrightarrow> y ! i = x ! i"
  by (metis nth_take same_frame_def)

lemma same_frame_fields:
  assumes "same_frame x y"
  shows "get_size y = get_size x" "is_leaf_page y = is_leaf_page x" "get_parent_page_no y = get_parent_page_no x"
    "get_prev_leaf y = get_prev_leaf x" "get_next_leaf y = get_next_leaf x" "ix_next_free y = ix_next_free x"
  using assms
  by (simp_all add: get_size_def is_leaf_page_def get_parent_page_no_def get_prev_leaf_def get_next_leaf_def
      ix_next_free_def same_frame_rd same_frame_nth)

lemma set_key_frame:
  assumes "ix_hdr_ok h" "page_fits x" "i \<le> ix_order h"
  shows "same_frame x (set_key h i k x)"
  unfolding set_key_alt using key_off_bounds [OF assms(1,3)] assms(2)
  by (intro same_frame_put) (auto simp: page_fits_def min_def)

lemma set_rid_frame:
  assumes "ix_hdr_ok h" "page_fits x" "i \<le> ix_order h"
  shows "same_frame x (set_rid h i r x)"
  unfolding set_rid_def using rid_off_bounds [OF assms(1,3)] assms(2)
  by (intro same_frame_put) (auto simp: page_fits_def)

lemma get_key_set_key:
  assumes h: "ix_hdr_ok h" and x: "page_fits x" and ij: "i \<le> ix_order h" "j \<le> ix_order h" and k: "key_len h \<le> length k"
  shows "get_key h (set_key h i k x) j = (if j = i then take (key_len h) k else get_key h x j)"
proof -
  have b: "key_off h i + key_len h \<le> length x" "key_off h j + key_len h \<le> length x"
    using key_off_bounds [OF h] ij x by (auto simp: page_fits_def)
  consider "j = i" | "i < j" | "j < i" by linarith
  then show ?thesis
    using key_off_disjoint [of i j h] key_off_disjoint [of j i h] b k
    by cases (simp_all add: get_key_alt set_key_alt mem_simps min_def)
qed

lemma get_rid_set_key:
  assumes h: "ix_hdr_ok h" and x: "page_fits x" and ij: "i \<le> ix_order h" "j \<le> ix_order h"
  shows "get_rid h (set_key h i k x) j = get_rid h x j"
  using key_off_bounds [OF h ij(1)] rid_off_bounds [OF h ij(2)] key_before_rid [OF h ij(1), of j] x
  by (simp add: get_rid_def set_key_alt mem_simps page_fits_def)

lemma get_key_set_rid:
  assumes h: "ix_hdr_ok h" and x: "page_fits x" and ij: "i \<le> ix_order h" "j \<le> ix_order h"
  shows "get_key h (set_rid h i r x) j = get_key h x j"
  using key_off_bounds [OF h ij(2)] rid_off_bounds [OF h ij(1)] key_before_rid [OF h ij(2), of i] x
  by (simp add: get_key_alt set_rid_def mem_simps page_fits_def)

lemma get_rid_set_rid:
  assumes h: "ix_hdr_ok h" and x: "page_fits x" and ij: "i \<le> ix_order h" "j \<le> ix_order h" and r: "rid_ok r"
  shows "get_rid h (set_rid h i r x) j = (if j = i then r else get_rid h x j)"
proof -
  have b: "rid_off h i + 8 \<le> length x" "rid_off h j + 8 \<le> length x"
    using rid_off_bounds [OF h] ij x by (auto simp: page_fits_def)
  have set: "set_rid h i r x = wr_i32 (rid_off h i + 4) (slot_no r) (wr_i32 (rid_off h i) (page_no r) x)"
    using b by (simp add: set_rid_def wr_i32_def mem_put_append)
  consider "j = i" | "i < j" | "j < i" by linarith
  then show ?thesis
    using rid_off_disjoint [of i j h] rid_off_disjoint [of j i h] b r
    by cases (simp_all add: get_rid_def set mem_simps rid_ok_def)
qed

lemma get_rid_ok: "ix_hdr_ok h \<Longrightarrow> page_fits x \<Longrightarrow> i \<le> ix_order h \<Longrightarrow> rid_ok (get_rid h x i)"
  using rid_off_bounds [of h i] by (simp add: rid_ok_def get_rid_def rd_i32_range page_fits_def)

lemma get_key_length: "ix_hdr_ok h \<Longrightarrow> page_fits x \<Longrightarrow> i \<le> ix_order h \<Longrightarrow> length (get_key h x i) = key_len h"
  using key_off_bounds [of h i] by (simp add: get_key_alt mem_simps page_fits_def)

text \<open>Writing a pair.\<close>

lemma put_pair:
  assumes h: "ix_hdr_ok h" and x: "page_fits x" and ij: "i \<le> ix_order h" "j \<le> ix_order h" and r: "rid_ok r"
    and k: "key_len h \<le> length k"
  shows "pr h (set_rid h i r (set_key h i k x)) j = (if j = i then (take (key_len h) k, r) else pr h x j)"
proof -
  have x1: "page_fits (set_key h i k x)" by (rule same_frame_fits [OF set_key_frame x]) (use assms in auto)
  show ?thesis
    by (simp add: pr_def get_key_set_rid [OF h x1 ij] get_rid_set_rid [OF h x1 ij r] get_key_set_key [OF h x ij k]
        get_rid_set_key [OF h x ij])
qed

lemma put_pair_frame:
  assumes h: "ix_hdr_ok h" and x: "page_fits x" and i: "i \<le> ix_order h"
  shows "same_frame x (set_rid h i r (set_key h i k x))"
  by (rule same_frame_trans [OF set_key_frame [OF h x i] set_rid_frame [OF h _ i]])
    (rule same_frame_fits [OF set_key_frame [OF h x i] x])

lemma copy_pair_alt:
  assumes h: "ix_hdr_ok h" and x: "page_fits x" and ij: "i \<le> ix_order h" "j \<le> ix_order h"
  shows "copy_pair h i j x = set_rid h i (get_rid h x j) (set_key h i (get_key h x j) x)"
  by (simp add: copy_pair_def Let_def get_rid_set_key [OF h x ij])

lemma copy_pair_frame:
  assumes "ix_hdr_ok h" "page_fits x" "i \<le> ix_order h" "j \<le> ix_order h"
  shows "same_frame x (copy_pair h i j x)"
  unfolding copy_pair_alt [OF assms] by (rule put_pair_frame [OF assms(1-3)])

lemma pr_copy_pair:
  assumes h: "ix_hdr_ok h" and x: "page_fits x" and ij: "i \<le> ix_order h" "j \<le> ix_order h" and k: "k \<le> ix_order h"
  shows "pr h (copy_pair h i j x) k = (if k = i then pr h x j else pr h x k)"
  unfolding copy_pair_alt [OF h x ij]
  by (subst put_pair [OF h x ij(1) k get_rid_ok [OF h x ij(2)]]) (auto simp: get_key_length [OF h x ij(2)] pr_def)

section \<open>Shifting pairs\<close>

lemma shift_right_spec:
  assumes h: "ix_hdr_ok h"
  shows "page_fits x \<Longrightarrow> n \<le> ix_order h \<Longrightarrow>
    same_frame x (shift_right h pos n x) \<and>
    (\<forall>k \<le> ix_order h. pr h (shift_right h pos n x) k = pr h x (if pos < k \<and> k \<le> n then k - 1 else k))"
proof (induction n arbitrary: x)
  case 0
  then show ?case by simp
next
  case (Suc n)
  show ?case
  proof (cases "pos < Suc n")
    case False
    then show ?thesis by auto
  next
    case True
    let ?y = "copy_pair h (Suc n) n x"
    have fr: "same_frame x ?y" using h Suc.prems by (intro copy_pair_frame) auto
    have y: "page_fits ?y" using same_frame_fits [OF fr Suc.prems(1)] .
    have pry: "pr h ?y k = (if k = Suc n then pr h x n else pr h x k)" if "k \<le> ix_order h" for k
      using h Suc.prems that by (intro pr_copy_pair) auto
    have ih: "same_frame ?y (shift_right h pos n ?y)"
      "\<forall>k \<le> ix_order h. pr h (shift_right h pos n ?y) k = pr h ?y (if pos < k \<and> k \<le> n then k - 1 else k)"
      using Suc.IH [OF y] Suc.prems by auto
    have "pr h (shift_right h pos n ?y) k = pr h x (if pos < k \<and> k \<le> Suc n then k - 1 else k)"
      if "k \<le> ix_order h" for k
      using ih(2) that True by (cases "k = Suc n") (auto simp: pry)
    then show ?thesis using True same_frame_trans [OF fr ih(1)] by auto
  qed
qed

lemma shift_left_spec:
  assumes h: "ix_hdr_ok h"
  shows "page_fits x \<Longrightarrow> pos + c \<le> ix_order h \<Longrightarrow>
    same_frame x (shift_left h pos c x) \<and>
    (\<forall>k \<le> ix_order h. pr h (shift_left h pos c x) k = pr h x (if pos \<le> k \<and> k < pos + c then Suc k else k))"
proof (induction c arbitrary: x pos)
  case 0
  then show ?case by auto
next
  case (Suc c)
  let ?y = "copy_pair h pos (Suc pos) x"
  have fr: "same_frame x ?y" using h Suc.prems by (intro copy_pair_frame) auto
  have y: "page_fits ?y" using same_frame_fits [OF fr Suc.prems(1)] .
  have pry: "pr h ?y k = (if k = pos then pr h x (Suc pos) else pr h x k)" if "k \<le> ix_order h" for k
    using h Suc.prems that by (intro pr_copy_pair) auto
  show ?case
    using Suc.IH [OF y, of "Suc pos"] Suc.prems pry fr by (auto intro: same_frame_trans)
qed

section \<open>Inserting and erasing a pair\<close>

lemma nth_wr_i32: "off + 4 \<le> length m \<Longrightarrow> i < length m \<Longrightarrow> i < off \<or> off + 4 \<le> i \<Longrightarrow> wr_i32 off v m ! i = m ! i"
  by (auto simp: wr_i32_def nth_mem_put)

lemma set_size_spec:
  assumes "page_fits x" "in_i32 n"
  shows "page_fits (set_size n x)" "get_size (set_size n x) = n" "is_leaf_page (set_size n x) = is_leaf_page x"
    "get_parent_page_no (set_size n x) = get_parent_page_no x" "get_prev_leaf (set_size n x) = get_prev_leaf x"
    "get_next_leaf (set_size n x) = get_next_leaf x"
  using assms
  by (simp_all add: set_size_def page_fits_def get_size_def get_parent_page_no_def get_prev_leaf_def get_next_leaf_def
      is_leaf_page_def PAGE_SIZE_def mem_simps nth_wr_i32)

lemma pr_set_size:
  assumes "ix_hdr_ok h" "page_fits x" "i \<le> ix_order h"
  shows "pr h (set_size n x) i = pr h x i"
  using key_off_bounds [OF assms(1,3)] rid_off_bounds [OF assms(1,3)] assms(2)
  by (simp add: pr_def get_key_alt get_rid_def set_size_def page_fits_def mem_simps)

text \<open>The fields of a node besides the pairs and their number.\<close>

definition node_links :: "bytes \<Rightarrow> bool \<times> int \<times> int \<times> int" where
  "node_links x = (is_leaf_page x, get_parent_page_no x, get_prev_leaf x, get_next_leaf x)"

lemma node_links_frame: "same_frame x y \<Longrightarrow> node_links y = node_links x"
  by (simp add: node_links_def same_frame_fields)

lemma order_in_i32: "ix_hdr_ok h \<Longrightarrow> 0 \<le> n \<Longrightarrow> n \<le> int (ix_order h) + 1 \<Longrightarrow> in_i32 n"
  using hdr_fits [of h] by (simp add: in_i32_def PAGE_SIZE_def)

lemma length_node_pairs [simp]: "length (node_pairs h x) = nat (get_size x)"
  by (simp add: node_pairs_def)

lemma nth_node_pairs: "i < nat (get_size x) \<Longrightarrow> node_pairs h x ! i = pr h x i"
  by (simp add: node_pairs_def)

definition node_sized :: "IxFileHdr \<Rightarrow> bytes \<Rightarrow> bool" where
  "node_sized h x \<longleftrightarrow> page_fits x \<and> 0 \<le> get_size x \<and> get_size x \<le> ih_btree_order h"

lemma insert_pair_spec:
  assumes h: "ix_hdr_ok h" and x: "node_sized h x" and pos: "pos \<le> nat (get_size x)" and r: "rid_ok r"
    and k: "length k = key_len h"
  obtains x' where "insert_pair h pos k r x = Inr x'" "page_fits x'" "get_size x' = get_size x + 1"
    "node_links x' = node_links x" "node_pairs h x' = take pos (node_pairs h x) @ (k, r) # drop pos (node_pairs h x)"
proof -
  let ?n = "nat (get_size x)"
  have n: "?n \<le> ix_order h" "int ?n = get_size x" "0 \<le> get_size x" and fx: "page_fits x"
    using x hdr_order [OF h] by (auto simp: node_sized_def)
  define y where "y = shift_right h pos ?n x"
  note sr = shift_right_spec [OF h fx n(1), of pos, folded y_def]
  have fy: "page_fits y" using sr same_frame_fits fx by blast
  have po: "pos \<le> ix_order h" using pos n by simp
  define z where "z = set_rid h pos r (set_key h pos k y)"
  have frz: "same_frame x z" using sr put_pair_frame [OF h fy po] same_frame_trans unfolding z_def by blast
  have fz: "page_fits z" using same_frame_fits [OF frz fx] .
  have szz: "get_size z = get_size x" using same_frame_fields [OF frz] by simp
  define w where "w = set_size (get_size z + 1) z"
  have i32: "in_i32 (get_size z + 1)" using order_in_i32 [OF h, of "get_size z + 1"] n szz by linarith
  note ws = set_size_spec [OF fz i32, folded w_def]
  have prw: "pr h w j = (if j = pos then (k, r) else pr h x (if pos < j \<and> j \<le> ?n then j - 1 else j))"
    if "j \<le> ix_order h" for j
  proof -
    have "pr h w j = pr h z j" by (simp add: w_def pr_set_size [OF h fz that])
    also have "\<dots> = (if j = pos then (k, r) else pr h y j)"
      using put_pair [OF h fy po that r, of k] k by (simp add: z_def)
    finally show ?thesis using sr that by simp
  qed
  have pairs: "node_pairs h w = take pos (node_pairs h x) @ (k, r) # drop pos (node_pairs h x)"
  proof (rule nth_equalityI)
    show "length (node_pairs h w) = length (take pos (node_pairs h x) @ (k, r) # drop pos (node_pairs h x))"
      using ws(2) szz pos n by (simp add: nat_add_distrib)
  next
    fix i assume "i < length (node_pairs h w)"
    then have i: "i \<le> ?n" "i < nat (get_size w)" using ws(2) szz n by auto
    show "node_pairs h w ! i = (take pos (node_pairs h x) @ (k, r) # drop pos (node_pairs h x)) ! i"
      using i pos n prw [of i]
      by (cases i pos rule: linorder_cases) (auto simp: nth_append nth_node_pairs nth_Cons')
  qed
  have "insert_pair h pos k r x = Inr w"
    using pos n by (simp add: insert_pair_def Let_def y_def z_def w_def)
  moreover have "node_links w = node_links x"
    using ws node_links_frame [OF frz] by (simp add: node_links_def)
  ultimately show thesis using that ws pairs szz by simp
qed

lemma erase_pair_spec:
  assumes h: "ix_hdr_ok h" and x: "node_sized h x" and leaf: "is_leaf_page x" and pos: "pos < nat (get_size x)"
  obtains x' where "erase_pair h pos x = Inr x'" "page_fits x'" "get_size x' = get_size x - 1"
    "node_links x' = node_links x" "node_pairs h x' = take pos (node_pairs h x) @ drop (Suc pos) (node_pairs h x)"
proof -
  let ?n = "nat (get_size x)"
  have n: "?n \<le> ix_order h" "int ?n = get_size x" "0 \<le> get_size x" and fx: "page_fits x"
    using x hdr_order [OF h] by (auto simp: node_sized_def)
  have c: "pos + (nat (get_size x - 1) - pos) = ?n - 1" using pos n by auto
  define y where "y = shift_left h pos (nat (get_size x - 1) - pos) x"
  have sl: "same_frame x y" "\<forall>k \<le> ix_order h. pr h y k = pr h x (if pos \<le> k \<and> k < ?n - 1 then Suc k else k)"
    using shift_left_spec [OF h fx, of pos "nat (get_size x - 1) - pos"] n unfolding y_def c by auto
  have fy: "page_fits y" using sl same_frame_fits fx by blast
  have szy: "get_size y = get_size x" using same_frame_fields [OF sl(1)] by simp
  define w where "w = set_size (get_size y - 1) y"
  have i32: "in_i32 (get_size y - 1)" using order_in_i32 [OF h, of "get_size y - 1"] n szy pos by linarith
  note ws = set_size_spec [OF fy i32, folded w_def]
  have pairs: "node_pairs h w = take pos (node_pairs h x) @ drop (Suc pos) (node_pairs h x)"
  proof (rule nth_equalityI)
    show "length (node_pairs h w) = length (take pos (node_pairs h x) @ drop (Suc pos) (node_pairs h x))"
      using ws(2) szy pos n by simp
  next
    fix i assume "i < length (node_pairs h w)"
    then have i: "i < ?n - 1" "i < nat (get_size w)" "i \<le> ix_order h" using ws(2) szy n by auto
    have "pr h w i = pr h x (if pos \<le> i then Suc i else i)"
      using i sl unfolding w_def pr_set_size [OF h fy i(3)] by auto
    then show "node_pairs h w ! i = (take pos (node_pairs h x) @ drop (Suc pos) (node_pairs h x)) ! i"
      using i pos by (auto simp: nth_append nth_node_pairs)
  qed
  have "erase_pair h pos x = Inr w"
    using pos n leaf by (simp add: erase_pair_def Let_def y_def w_def)
  moreover have "node_links w = node_links x"
    using ws node_links_frame [OF sl(1)] by (simp add: node_links_def)
  ultimately show thesis using that ws pairs szy by simp
qed

section \<open>Searching\<close>

text \<open>The columns a search with prefix \<^verbatim>\<open>pre\<close> compares.\<close>

definition pre_cols :: "IxFileHdr \<Rightarrow> nat \<Rightarrow> (ColType \<times> int) list" where
  "pre_cols h pre = take (if pre = 0 then nat (ih_col_num h) else pre) (ix_cols h)"

lemma length_ix_cols: "ix_hdr_ok h \<Longrightarrow> length (ix_cols h) = nat (ih_col_num h)"
  by (simp add: ix_hdr_ok_def ix_cols_def)

lemma pre_cols_0 [simp]: "ix_hdr_ok h \<Longrightarrow> pre_cols h 0 = ix_cols h"
  by (simp add: pre_cols_def length_ix_cols)

lemma node_cmp_cols:
  assumes "ix_hdr_ok h" "pre \<le> nat (ih_col_num h)"
  shows "node_cmp h x t pre i = ix_compare_cols (get_key h x i) t (pre_cols h pre)"
  using assms
  by (auto simp: node_cmp_def ix_compare_def ix_hdr_ok_def pre_cols_def ix_cols_def take_zip Let_def)

lemma key_val_prefix: "\<exists>r. key_val cs k = key_val (take n cs) k @ r"
proof (induction cs arbitrary: k n)
  case (Cons c cs)
  then show ?case by (cases n; cases c) auto
qed simp

lemma length_key_val:
  "key_ok cs a \<Longrightarrow> key_ok cs b \<Longrightarrow> length (key_val cs a) = length (key_val cs b)"
proof (induction cs arbitrary: a b)
  case (Cons c cs)
  obtain t len where c: "c = (t, len)" by force
  note a = key_ok_Cons [OF Cons.prems(1) [unfolded c]] and b = key_ok_Cons [OF Cons.prems(2) [unfolded c]]
  show ?case using a b c Cons.IH length_col_val [of t len a b] by simp
qed simp

lemma key_ok_take: "key_ok cs k \<Longrightarrow> key_ok (take n cs) k"
proof (induction cs arbitrary: k n)
  case (Cons c cs)
  obtain t len where c: "c = (t, len)" by force
  note k = key_ok_Cons [OF Cons.prems [unfolded c]]
  show ?case
    using Cons.IH [of "drop (nat len) k" "n - 1"] k c by (cases n) (auto simp: key_ok_def cols_len_def)
qed simp

lemma key_val_take_mono:
  assumes "key_ok cs a" "key_ok cs b" "key_val cs a \<le> key_val cs b"
  shows "key_val (take n cs) a \<le> key_val (take n cs) b"
proof -
  obtain r s where r: "key_val cs a = key_val (take n cs) a @ r" and s: "key_val cs b = key_val (take n cs) b @ s"
    using key_val_prefix by metis
  have "length (key_val (take n cs) a) = length (key_val (take n cs) b)"
    using assms by (intro length_key_val key_ok_take)
  from cmp3_append [OF this, of r s] assms(3) show ?thesis
    unfolding r s by (metis cmp3_neg cmp3_nonpos cmp3_pos linorder_not_less order_refl)
qed

end
