(* ===== verification/Ix_Leaf.thy ===== *)
theory Ix_Leaf
  imports Ix_Pairs
begin

text \<open>
  The searches of a node equal a linear scan over its keys, and a leaf is a finite map from key
  values to record identifiers: \<^verbatim>\<open>leaf_lookup\<close>, \<^verbatim>\<open>insert\<close> and \<^verbatim>\<open>remove\<close> of \<^verbatim>\<open>IxNodeHandle\<close> refine the
  operations of that map.
\<close>

section \<open>Searches\<close>

text \<open>Pairs of a node whose keys can be compared and are in order.\<close>

definition keys_ok :: "IxFileHdr \<Rightarrow> bytes \<Rightarrow> bool" where
  "keys_ok h x \<longleftrightarrow> node_sized h x \<and> list_all (\<lambda>p. key_ok (ix_cols h) (fst p)) (node_pairs h x)
     \<and> sorted (map (kv h \<circ> fst) (node_pairs h x))"

lemma keys_okD:
  assumes "keys_ok h x" "i < nat (get_size x)"
  shows "key_ok (ix_cols h) (get_key h x i)"
    and "\<And>j. i \<le> j \<Longrightarrow> j < nat (get_size x) \<Longrightarrow> kv h (get_key h x i) \<le> kv h (get_key h x j)"
proof -
  have nth: "node_pairs h x ! j = pr h x j" if "j < nat (get_size x)" for j
    using that by (rule nth_node_pairs)
  show "key_ok (ix_cols h) (get_key h x i)"
    using assms nth [of i] by (auto simp: keys_ok_def list_all_length pr_def)
  show "kv h (get_key h x i) \<le> kv h (get_key h x j)" if "i \<le> j" "j < nat (get_size x)" for j
    using assms that nth [of i] nth [of j] sorted_nth_mono [of "map (kv h \<circ> fst) (node_pairs h x)" i j]
    by (auto simp: keys_ok_def pr_def)
qed

definition downward :: "(int \<Rightarrow> bool) \<Rightarrow> bool" where
  "downward small \<longleftrightarrow> (\<forall>c d. c \<le> d \<longrightarrow> small d \<longrightarrow> small c)"

lemma cmp3_mono: "a \<le> b \<Longrightarrow> cmp3 (<) a t \<le> cmp3 (<) (b::'a::linorder) t"
  by (auto simp: cmp3_def)

text \<open>The number of leading pairs a search skips.\<close>

definition skips :: "(int \<Rightarrow> bool) \<Rightarrow> IxFileHdr \<Rightarrow> nat \<Rightarrow> bytes \<Rightarrow> bytes \<times> Rid \<Rightarrow> bool" where
  "skips small h pre t p \<longleftrightarrow> small (cmp3 (<) (key_val (pre_cols h pre) (fst p)) (key_val (pre_cols h pre) t))"

lemma search_node:
  assumes h: "ix_hdr_ok h" and x: "keys_ok h x" and t: "key_ok (pre_cols h pre) t" and pre: "pre \<le> nat (ih_col_num h)"
    and small: "downward small" and n: "0 < get_size x"
  obtains m where "search_loop (\<lambda>i. case node_cmp h x t pre i of Inl e \<Rightarrow> Inl e | Inr c \<Rightarrow> Inr (small c)) 0 (nat (get_size x) - 1) = Inr m"
    "m < nat (get_size x)"
    "node_cmp h x t pre m = Inr (cmp3 (<) (key_val (pre_cols h pre) (get_key h x m)) (key_val (pre_cols h pre) t))"
    "(if skips small h pre t (pr h x m) then nat (get_size x) else m) = length (takeWhile (skips small h pre t) (node_pairs h x))"
proof -
  let ?cs = "pre_cols h pre" and ?n = "nat (get_size x)"
  have ok: "key_ok ?cs (get_key h x i)" if "i < ?n" for i
    using keys_okD(1) [OF x that] by (simp add: pre_cols_def key_ok_take)
  have anti: "small (cmp3 (<) (key_val ?cs (get_key h x i)) (key_val ?cs t))"
    if "i \<le> j" "j < ?n" "small (cmp3 (<) (key_val ?cs (get_key h x j)) (key_val ?cs t))" for i j
  proof -
    have "key_val ?cs (get_key h x i) \<le> key_val ?cs (get_key h x j)"
      unfolding pre_cols_def using that keys_okD [OF x, of i] keys_okD(1) [OF x, of j]
      by (intro key_val_take_mono) (auto simp: kv_def)
    then show ?thesis using cmp3_mono small that(3) unfolding downward_def by blast
  qed
  have bl: "(\<lambda>i. case node_cmp h x t pre i of Inl e \<Rightarrow> Inl e | Inr c \<Rightarrow> Inr (small c)) = ixk.below small ?cs (get_key h x) t"
    by (rule ext) (simp add: ixk.below_def node_cmp_cols [OF h pre])
  have len: "length (takeWhile (\<lambda>i. small (cmp3 (<) (key_val ?cs (get_key h x i)) (key_val ?cs t))) [0..<?n])
      = length (takeWhile (skips small h pre t) (node_pairs h x))"
    by (simp add: node_pairs_def takeWhile_map comp_def skips_def pr_def)
  have n': "0 < ?n" using n by simp
  show thesis
  proof (rule ixk.search_counts [where n = ?n and h = ?cs and key = "get_key h x" and t = t and small = small])
    show "key_ok ?cs (get_key h x i)" if "i < ?n" for i using that by (rule ok)
    show "key_ok ?cs t" "0 < ?n" by (rule t, rule n')
    show "small (cmp3 (<) (key_val ?cs (get_key h x i)) (key_val ?cs t))"
      if "i \<le> j" "j < ?n" "small (cmp3 (<) (key_val ?cs (get_key h x j)) (key_val ?cs t))" for i j
      using that by (rule anti)
    fix m c
    assume m: "search_loop (ixk.below small ?cs (get_key h x) t) 0 (?n - 1) = Inr m" "m < ?n"
      "ix_compare_cols (get_key h x m) t ?cs = Inr c" "c = cmp3 (<) (key_val ?cs (get_key h x m)) (key_val ?cs t)"
      "(if small c then ?n else m) = length (takeWhile (\<lambda>i. small (cmp3 (<) (key_val ?cs (get_key h x i)) (key_val ?cs t))) [0..<?n])"
    show thesis
    proof (rule that [of m])
      show "search_loop (\<lambda>i. case node_cmp h x t pre i of Inl e \<Rightarrow> Inl e | Inr c \<Rightarrow> Inr (small c)) 0 (?n - 1) = Inr m"
        unfolding bl by (rule m(1))
      show "node_cmp h x t pre m = Inr (cmp3 (<) (key_val ?cs (get_key h x m)) (key_val ?cs t))"
        using m(3,4) by (simp add: node_cmp_cols [OF h pre])
      show "(if skips small h pre t (pr h x m) then ?n else m) = length (takeWhile (skips small h pre t) (node_pairs h x))"
        using m(4,5) len by (simp add: skips_def pr_def)
    qed (rule m(2))
  qed
qed

lemma node_search_counts:
  assumes h: "ix_hdr_ok h" and x: "keys_ok h x" and t: "key_ok (pre_cols h pre) t" and pre: "pre \<le> nat (ih_col_num h)"
    and small: "downward small"
  shows "node_search small h x t pre = Inr (length (takeWhile (skips small h pre t) (node_pairs h x)))"
proof (cases "get_size x = 0")
  case True
  then show ?thesis by (simp add: node_search_def node_pairs_def)
next
  case False
  then have n: "0 < get_size x" using x by (simp add: keys_ok_def node_sized_def)
  let ?pre = "if pre = 0 then nat (ih_col_num h) else pre"
  have same: "pre_cols h ?pre = pre_cols h pre" by (simp add: pre_cols_def)
  have sk: "skips small h ?pre t = skips small h pre t" by (rule ext) (simp only: skips_def same)
  have pre': "?pre \<le> nat (ih_col_num h)" using pre by simp
  show ?thesis
  proof (rule search_node [OF h x t [folded same] pre' small n])
    fix m
    let ?loop = "search_loop (\<lambda>i. case node_cmp h x t ?pre i of Inl e \<Rightarrow> Inl e | Inr c \<Rightarrow> Inr (small c)) 0 (nat (get_size x) - 1)"
    let ?c = "cmp3 (<) (key_val (pre_cols h ?pre) (get_key h x m)) (key_val (pre_cols h ?pre) t)"
    assume m: "?loop = Inr m" "node_cmp h x t ?pre m = Inr ?c"
      "(if skips small h ?pre t (pr h x m) then nat (get_size x) else m) = length (takeWhile (skips small h ?pre t) (node_pairs h x))"
    have "node_search small h x t pre = Inr (if \<not> small ?c then m else nat (get_size x))"
      unfolding node_search_def using False m(1,2) by (simp add: Let_def del: if_split)
    also have "(if \<not> small ?c then m else nat (get_size x)) = (if skips small h ?pre t (pr h x m) then nat (get_size x) else m)"
      by (simp add: skips_def pr_def)
    finally show ?thesis using m(3) sk by simp
  qed
qed

lemma downward_neg [simp]: "downward (\<lambda>c. c < 0)" and downward_nonpos [simp]: "downward (\<lambda>c. c \<le> 0)"
  by (auto simp: downward_def)

section \<open>A leaf as a finite map\<close>

definition leaf_map :: "IxFileHdr \<Rightarrow> bytes \<Rightarrow> int list \<rightharpoonup> Rid" where
  "leaf_map h x = map_of (map (\<lambda>p. (kv h (fst p), snd p)) (node_pairs h x))"

lemma leaf_keys_ok: "leaf_ok h x \<Longrightarrow> keys_ok h x"
  by (auto simp: leaf_ok_def keys_ok_def node_sized_def intro: strict_sorted_imp_sorted)

lemma skips_lower: "ix_hdr_ok h \<Longrightarrow> skips (\<lambda>c. c < 0) h 0 t p \<longleftrightarrow> kv h (fst p) < kv h t"
  by (simp add: skips_def kv_def)

text \<open>Facts on lists whose keys are strictly increasing.\<close>

lemma sorted_split:
  assumes "sorted_wrt (<) (map f ps)"
  shows "\<forall>p \<in> set (takeWhile (\<lambda>p. f p < v) ps). f p < (v::'v::linorder)"
    and "\<forall>p \<in> set (dropWhile (\<lambda>p. f p < v) ps). v \<le> f p"
proof -
  show "\<forall>p \<in> set (takeWhile (\<lambda>p. f p < v) ps). f p < v"
    using set_takeWhileD by fastforce
  show "\<forall>p \<in> set (dropWhile (\<lambda>p. f p < v) ps). v \<le> f p"
    using assms
  proof (induction ps)
    case (Cons a ps)
    then show ?case by (cases "f a < v") (auto simp: not_less intro: order.trans less_imp_le)
  qed simp
qed

lemma sorted_insert_at:
  assumes s: "sorted_wrt (<) (map f ps)" and new: "v \<notin> f ` set ps" and q: "f q = (v::'v::linorder)"
  shows "sorted_wrt (<) (map f (takeWhile (\<lambda>p. f p < v) ps @ q # dropWhile (\<lambda>p. f p < v) ps))"
proof -
  have "sorted_wrt (<) (map f (takeWhile (\<lambda>p. f p < v) ps) @ map f (dropWhile (\<lambda>p. f p < v) ps))"
    using s by (metis map_append takeWhile_dropWhile_id)
  moreover have "\<forall>p \<in> set (dropWhile (\<lambda>p. f p < v) ps). v < f p"
    using sorted_split(2) [OF s, of v] new set_dropWhileD by (fastforce simp: less_le)
  ultimately show ?thesis using sorted_split(1) [OF s, of v] q
    by (auto simp: sorted_wrt_append intro: less_trans)
qed

lemma map_of_insert_at:
  assumes "fst ` set xs \<inter> {k} = {}"
  shows "map_of (xs @ (k, r) # ys) = (map_of (xs @ ys))(k \<mapsto> r)"
  using assms by (induction xs) (auto simp: fun_upd_twist)

lemma map_of_delete_at:
  assumes "k \<notin> fst ` set xs" "k \<notin> fst ` set ys"
  shows "map_of (xs @ ys) = (map_of (xs @ (k, r) # ys))(k := None)"
proof -
  have "map_of (xs @ ys) k = None" using assms by (auto simp: map_of_eq_None_iff)
  then show ?thesis using assms by (subst map_of_insert_at) auto
qed

lemma lower_bound_leaf:
  assumes h: "ix_hdr_ok h" and x: "leaf_ok h x" and k: "key_ok (ix_cols h) k"
  shows "node_lower_bound h x k 0 = Inr (length (takeWhile (\<lambda>p. kv h (fst p) < kv h k) (node_pairs h x)))"
  unfolding node_lower_bound_def
  using node_search_counts [OF h leaf_keys_ok [OF x], of 0 k "\<lambda>c. c < 0"] h k
  by (simp add: skips_lower cong: takeWhile_cong)

lemma node_cmp_kv:
  assumes h: "ix_hdr_ok h" and x: "leaf_ok h x" and k: "key_ok (ix_cols h) k" and i: "i < nat (get_size x)"
  shows "node_cmp h x k 0 i = Inr (cmp3 (<) (kv h (fst (node_pairs h x ! i))) (kv h k))"
  using node_cmp_cols [OF h, of 0 x k i] keys_okD(1) [OF leaf_keys_ok [OF x] i] k h i
  by (simp add: ix_compare_cols_val kv_def nth_node_pairs pr_def)

lemma leaf_pairs_len:
  assumes h: "ix_hdr_ok h" and x: "leaf_ok h x" and p: "p \<in> set (node_pairs h x)"
  shows "length (fst p) = key_len h"
  using assms hdr_order [OF h] by (auto simp: node_pairs_def pr_def leaf_ok_def intro!: get_key_length)

section \<open>The three operations\<close>

lemma dropWhile_nth: "length (takeWhile P xs) < length xs \<Longrightarrow> xs ! length (takeWhile P xs) = hd (dropWhile P xs)"
  by (simp add: dropWhile_eq_drop hd_drop_conv_nth)

text \<open>Whether the key at the lower bound is the one searched for.\<close>

lemma lower_bound_hit:
  assumes x: "leaf_ok h x" and i: "i = length (takeWhile (\<lambda>p. kv h (fst p) < kv h k) (node_pairs h x))"
  shows "leaf_map h x (kv h k) =
    (if i < length (node_pairs h x) \<and> kv h (fst (node_pairs h x ! i)) = kv h k then Some (snd (node_pairs h x ! i)) else None)"
proof -
  let ?ps = "node_pairs h x" and ?P = "\<lambda>p. kv h (fst p) < kv h k" and ?f = "\<lambda>p. (kv h (fst p), snd p)"
  have s: "sorted_wrt (<) (map (kv h \<circ> fst) ?ps)" using x by (simp add: leaf_ok_def)
  have pre: "map_of (map ?f (takeWhile ?P ?ps)) (kv h k) = None"
    using sorted_split(1) [OF s, of "kv h k"] by (force simp: map_of_eq_None_iff comp_def)
  have "leaf_map h x (kv h k) = map_of (map ?f (takeWhile ?P ?ps) @ map ?f (dropWhile ?P ?ps)) (kv h k)"
    unfolding leaf_map_def by (metis map_append takeWhile_dropWhile_id)
  also have "\<dots> = map_of (map ?f (dropWhile ?P ?ps)) (kv h k)" using pre by (simp add: map_add_def split: option.split)
  finally have lm: "leaf_map h x (kv h k) = map_of (map ?f (dropWhile ?P ?ps)) (kv h k)" .
  show ?thesis
  proof (cases "i < length ?ps")
    case False
    then have "length (takeWhile ?P ?ps) = length ?ps" using i length_takeWhile_le [of ?P ?ps] by simp
    then have nil: "dropWhile ?P ?ps = []" by (simp add: dropWhile_eq_drop)
    show ?thesis using False unfolding lm nil by simp
  next
    case True
    then obtain q qs where q: "dropWhile ?P ?ps = q # qs" "?ps ! i = q"
      using i dropWhile_nth [of ?P ?ps] by (cases "dropWhile ?P ?ps") (auto simp: dropWhile_eq_drop)
    have "sorted_wrt (<) (map (kv h \<circ> fst) (q # qs))"
      using s by (metis map_append q(1) sorted_wrt_append takeWhile_dropWhile_id)
    moreover have "kv h k \<le> kv h (fst q)" using sorted_split(2) [OF s, of "kv h k"] q by (simp add: comp_def)
    ultimately have "kv h (fst q) \<noteq> kv h k \<Longrightarrow> map_of (map ?f qs) (kv h k) = None"
      by (fastforce simp: map_of_eq_None_iff)
    then show ?thesis using lm q True by auto
  qed
qed

lemma leaf_lookup_map:
  assumes h: "ix_hdr_ok h" and x: "leaf_ok h x" and k: "key_ok (ix_cols h) k" and n: "0 < get_size x"
  shows "leaf_lookup h x k = Inr (leaf_map h x (kv h k))"
proof -
  have pre: "nat (ih_col_num h) \<le> nat (ih_col_num h)" by simp
  have cols: "pre_cols h (nat (ih_col_num h)) = ix_cols h" using h by (simp add: pre_cols_def length_ix_cols)
  show ?thesis
  proof (rule search_node [OF h leaf_keys_ok [OF x] _ pre downward_neg n, of k])
    show "key_ok (pre_cols h (nat (ih_col_num h))) k" using k cols by simp
    fix m
    let ?bl = "\<lambda>i. case node_cmp h x k (nat (ih_col_num h)) i of Inl e \<Rightarrow> Inl e | Inr c \<Rightarrow> Inr (c < 0)"
    assume m: "search_loop ?bl 0 (nat (get_size x) - 1) = Inr m" "m < nat (get_size x)"
      "node_cmp h x k (nat (ih_col_num h)) m = Inr (cmp3 (<) (key_val (pre_cols h (nat (ih_col_num h))) (get_key h x m)) (key_val (pre_cols h (nat (ih_col_num h))) k))"
      "(if skips (\<lambda>c. c < 0) h (nat (ih_col_num h)) k (pr h x m) then nat (get_size x) else m)
        = length (takeWhile (skips (\<lambda>c. c < 0) h (nat (ih_col_num h)) k) (node_pairs h x))"
    let ?P = "\<lambda>p. kv h (fst p) < kv h k"
    have sk: "skips (\<lambda>c. c < 0) h (nat (ih_col_num h)) k = ?P" by (rule ext) (simp add: skips_def cols kv_def)
    have nth: "node_pairs h x ! m = pr h x m" using m(2) by (rule nth_node_pairs)
    have res: "leaf_lookup h x k = Inr (if kv h (get_key h x m) = kv h k then Some (get_rid h x m) else None)"
      unfolding leaf_lookup_def using n m(1,3) by (simp add: Let_def cols kv_def)
    show ?thesis
    proof (cases "?P (pr h x m)")
      case True
      then show ?thesis using res lower_bound_hit [OF x, of "nat (get_size x)" k] m(4) sk by (auto simp: pr_def)
    next
      case False
      then show ?thesis using res lower_bound_hit [OF x, of m k] m sk nth by (auto simp: pr_def)
    qed
  qed
qed

lemma leaf_map_None_iff: "leaf_map h x v = None \<longleftrightarrow> v \<notin> (kv h \<circ> fst) ` set (node_pairs h x)"
  by (auto simp: leaf_map_def map_of_eq_None_iff image_iff)

lemma node_insert_map:
  assumes h: "ix_hdr_ok h" and x: "leaf_ok h x" and k: "key_ok (ix_cols h) k" "length k = key_len h" and r: "rid_ok r"
    and new: "leaf_map h x (kv h k) = None"
  obtains i x' where "node_insert h k r x = Inr ((i, get_size x + 1), x')" "page_fits x'" "get_size x' = get_size x + 1"
    "node_links x' = node_links x" "node_pairs h x' ! i = (k, r)" "i \<le> nat (get_size x)"
    "leaf_map h x' = (leaf_map h x)(kv h k \<mapsto> r)" "sorted_wrt (<) (map (kv h \<circ> fst) (node_pairs h x'))"
    "list_all (\<lambda>p. key_ok (ix_cols h) (fst p)) (node_pairs h x')"
proof -
  let ?ps = "node_pairs h x" and ?P = "\<lambda>p. kv h (fst p) < kv h k" and ?f = "\<lambda>p. (kv h (fst p), snd p)"
  define i where "i = length (takeWhile ?P ?ps)"
  have leaf: "is_leaf_page x" and sized: "node_sized h x" and s: "sorted_wrt (<) (map (kv h \<circ> fst) ?ps)"
    and oks: "list_all (\<lambda>p. key_ok (ix_cols h) (fst p)) ?ps"
    using x by (auto simp: leaf_ok_def node_sized_def)
  have iN: "i \<le> nat (get_size x)" using length_takeWhile_le [of ?P ?ps] by (simp add: i_def)
  obtain x' where x': "insert_pair h i k r x = Inr x'" "page_fits x'" "get_size x' = get_size x + 1"
      "node_links x' = node_links x" "node_pairs h x' = take i ?ps @ (k, r) # drop i ?ps"
    using h sized iN r k(2) by (rule insert_pair_spec)
  have lb: "node_lower_bound h x k 0 = Inr i" unfolding i_def by (rule lower_bound_leaf [OF h x k(1)])
  have c: "(if int i = get_size x then Inr 1 else node_cmp h x k 0 i) = (Inr (1::int) :: exc + int)"
  proof (cases "int i = get_size x")
    case False
    then have lt: "i < nat (get_size x)" using iN sized by (auto simp: node_sized_def)
    have ge: "kv h k \<le> kv h (fst (?ps ! i))"
      using nth_length_takeWhile [of ?P ?ps] lt by (auto simp: i_def)
    have "kv h (fst (?ps ! i)) \<noteq> kv h k" using new lower_bound_hit [OF x i_def] lt by auto
    with ge have "cmp3 (<) (kv h (fst (?ps ! i))) (kv h k) = 1" by (auto simp: cmp3_def)
    then show ?thesis using False node_cmp_kv [OF h x k(1) lt] by simp
  qed simp
  have ins: "node_insert h k r x = Inr ((i, get_size x + 1), x')"
    unfolding node_insert_def using leaf lb c x' by (simp del: if_split)
  have eq: "node_pairs h x' = takeWhile ?P ?ps @ (k, r) # dropWhile ?P ?ps"
    unfolding x'(5) i_def by (metis append_eq_conv_conj dropWhile_eq_drop takeWhile_dropWhile_id)
  have notin: "kv h k \<notin> (kv h \<circ> fst) ` set ?ps" using new leaf_map_None_iff by blast
  have sorted: "sorted_wrt (<) (map (kv h \<circ> fst) (node_pairs h x'))"
    unfolding eq using sorted_insert_at [OF s notin, of "(k, r)"] by (simp add: comp_def)
  have "fst ` set (map ?f (takeWhile ?P ?ps)) \<inter> {kv h k} = {}"
    using sorted_split(1) [OF s, of "kv h k"] by (force simp: comp_def)
  then have map: "leaf_map h x' = (leaf_map h x)(kv h k \<mapsto> r)"
    using map_of_insert_at [of "map ?f (takeWhile ?P ?ps)" "kv h k" r "map ?f (dropWhile ?P ?ps)"]
    unfolding leaf_map_def eq by (metis (no_types, lifting) fst_conv list.simps(9) map_append snd_conv takeWhile_dropWhile_id)
  have nth: "node_pairs h x' ! i = (k, r)" unfolding eq i_def by simp
  have "list_all (\<lambda>p. key_ok (ix_cols h) (fst p)) (node_pairs h x')"
    using oks k(1) unfolding x'(5) by (auto simp: list_all_iff dest: in_set_takeD in_set_dropD)
  then show thesis using that ins x' nth iN map sorted by blast
qed

lemma node_insert_duplicate:
  assumes h: "ix_hdr_ok h" and x: "leaf_ok h x" and k: "key_ok (ix_cols h) k" and dup: "leaf_map h x (kv h k) \<noteq> None"
  shows "node_insert h k r x = Inl (Throw IndexEntryNotUniqueError)"
proof -
  define i where "i = length (takeWhile (\<lambda>p. kv h (fst p) < kv h k) (node_pairs h x))"
  have leaf: "is_leaf_page x" using x by (simp add: leaf_ok_def)
  have hit: "i < length (node_pairs h x)" "kv h (fst (node_pairs h x ! i)) = kv h k"
    using dup lower_bound_hit [OF x i_def] by (auto split: if_splits)
  then have "node_cmp h x k 0 i = Inr 0" "int i \<noteq> get_size x" using node_cmp_kv [OF h x k, of i] by (auto simp: cmp3_def)
  moreover have "node_lower_bound h x k 0 = Inr i" unfolding i_def by (rule lower_bound_leaf [OF h x k])
  ultimately show ?thesis unfolding node_insert_def using leaf by simp
qed

lemma remove_loop_stop:
  assumes "n = 0 \<longrightarrow> get_size x \<le> int i"
    and "int i < get_size x \<Longrightarrow> \<exists>c. node_cmp h x k 0 i = Inr c \<and> c \<noteq> 0"
  shows "remove_loop h n k i x = Inr x"
  using assms by (cases n) auto

text \<open>A leaf without the pair at one position.\<close>

lemma leaf_ok_erased:
  assumes h: "ix_hdr_ok h" and x: "leaf_ok h x" and i: "i < nat (get_size x)" and x': "page_fits x'"
    "get_size x' = get_size x - 1" "node_links x' = node_links x"
    "node_pairs h x' = take i (node_pairs h x) @ drop (Suc i) (node_pairs h x)"
  shows "leaf_ok h x'"
proof -
  have split: "node_pairs h x = take i (node_pairs h x) @ node_pairs h x ! i # drop (Suc i) (node_pairs h x)"
    using i by (simp add: id_take_nth_drop)
  have s: "sorted_wrt (<) (map (kv h \<circ> fst) (take i (node_pairs h x) @ node_pairs h x ! i # drop (Suc i) (node_pairs h x)))"
    using x split by (simp add: leaf_ok_def)
  then have "sorted_wrt (<) (map (kv h \<circ> fst) (node_pairs h x'))"
    unfolding x'(4) by (auto simp: sorted_wrt_append)
  moreover have "list_all (\<lambda>p. key_ok (ix_cols h) (fst p)) (node_pairs h x')"
    using x unfolding x'(4) leaf_ok_def by (auto simp: list_all_iff dest: in_set_takeD in_set_dropD)
  ultimately show ?thesis using x x'(1-3) i by (auto simp: leaf_ok_def node_links_def)
qed

lemma node_remove_map:
  assumes h: "ix_hdr_ok h" and x: "leaf_ok h x" and k: "key_ok (ix_cols h) k"
  obtains x' where "node_remove h k x = Inr (get_size x', x')" "leaf_ok h x'" "node_links x' = node_links x"
    "get_size x' = get_size x - (if leaf_map h x (kv h k) = None then 0 else 1)"
    "leaf_map h x' = (leaf_map h x)(kv h k := None)"
proof -
  let ?ps = "node_pairs h x" and ?P = "\<lambda>p. kv h (fst p) < kv h k" and ?f = "\<lambda>p. (kv h (fst p), snd p)"
  define i where "i = length (takeWhile ?P ?ps)"
  have leaf: "is_leaf_page x" and sized: "node_sized h x" and s: "sorted_wrt (<) (map (kv h \<circ> fst) ?ps)"
    using x by (auto simp: leaf_ok_def node_sized_def)
  have lb: "node_lower_bound h x k 0 = Inr i" unfolding i_def by (rule lower_bound_leaf [OF h x k])
  note hit = lower_bound_hit [OF x i_def]
  show thesis
  proof (cases "leaf_map h x (kv h k)")
    case None
    have "remove_loop h (nat (get_size x)) k i x = Inr x"
    proof (rule remove_loop_stop)
      assume "int i < get_size x"
      then have "i < nat (get_size x)" by simp
      then show "\<exists>c. node_cmp h x k 0 i = Inr c \<and> c \<noteq> 0" using node_cmp_kv [OF h x k, of i] None hit by auto
    qed (use sized in \<open>auto simp: node_sized_def\<close>)
    then have "node_remove h k x = Inr (get_size x, x)" unfolding node_remove_def using leaf lb by simp
    moreover have "leaf_map h x = (leaf_map h x)(kv h k := None)" using None by auto
    ultimately show thesis using that [of x] x None by simp
  next
    case (Some r)
    then have i: "i < nat (get_size x)" and ki: "kv h (fst (?ps ! i)) = kv h k"
      using hit by (auto split: if_splits)
    obtain x' where x': "erase_pair h i x = Inr x'" "page_fits x'" "get_size x' = get_size x - 1"
        "node_links x' = node_links x" "node_pairs h x' = take i ?ps @ drop (Suc i) ?ps"
      using h sized leaf i by (rule erase_pair_spec)
    have ok': "leaf_ok h x'" by (rule leaf_ok_erased [OF h x i x'(2-5)])
    have sp: "?ps = take i ?ps @ ?ps ! i # drop (Suc i) ?ps" using i by (simp add: id_take_nth_drop)
    have s': "sorted_wrt (<) (map (kv h \<circ> fst) (take i ?ps @ ?ps ! i # drop (Suc i) ?ps))" using s sp by simp
    have gone: "kv h k \<notin> fst ` set (map ?f (take i ?ps))" "kv h k \<notin> fst ` set (map ?f (drop (Suc i) ?ps))"
      using s' ki by (fastforce simp: sorted_wrt_append)+
    have map: "leaf_map h x' = (leaf_map h x)(kv h k := None)"
      using map_of_delete_at [OF gone, of "snd (?ps ! i)"] sp ki unfolding leaf_map_def x'(5)
      by (metis (no_types, lifting) list.simps(9) map_append)
    have absent: "leaf_map h x' (kv h k) = None" using map by simp
    have "remove_loop h (nat (get_size x) - 1) k (Suc i) x' = Inr x'"
    proof (rule remove_loop_stop)
      assume si: "int (Suc i) < get_size x'"
      then have "node_pairs h x' ! Suc i \<in> set (node_pairs h x')" by (intro nth_mem) simp
      then have "kv h (fst (node_pairs h x' ! Suc i)) \<noteq> kv h k"
        using absent unfolding leaf_map_None_iff comp_def by (metis image_eqI)
      then show "\<exists>c. node_cmp h x' k 0 (Suc i) = Inr c \<and> c \<noteq> 0"
        using node_cmp_kv [OF h ok' k, of "Suc i"] si by simp
    qed (use i x'(3) in auto)
    moreover obtain n where n: "nat (get_size x) = Suc n" using i by (cases "nat (get_size x)") auto
    moreover have "int i < get_size x" using i by auto
    moreover have "node_cmp h x k 0 i = Inr 0" using node_cmp_kv [OF h x k i] ki by (simp add: cmp3_def)
    ultimately have "remove_loop h (nat (get_size x)) k i x = Inr x'"
      using x'(1) by simp
    then have "node_remove h k x = Inr (get_size x', x')" unfolding node_remove_def using leaf lb by simp
    then show thesis using that [of x'] ok' x' map Some by simp
  qed
qed

end
