(* ===== verification/Sm_Meta.thy ===== *)
theory Sm_Meta
  imports Rmdb_Prelude
begin

text \<open>
  The catalogue of a database: \<^verbatim>\<open>system/sm_meta.h\<close>. Columns, indexes, tables and the database, their
  lookups, and the text form in which \<^verbatim>\<open>SmManager\<close> stores the catalogue in the file \<^verbatim>\<open>db.meta\<close>. The
  stream operators are functions to and from strings: a reader returns the value and the rest of
  the input, or None when the stream goes bad.
\<close>

section \<open>Metadata\<close>

record ColMeta =
  cm_tab_name :: string
  cm_name :: string
  cm_type :: ColType
  cm_len :: int
  cm_offset :: int
  cm_index :: bool

record IndexMeta =
  im_tab_name :: string
  im_col_tot_len :: int
  im_col_num :: int
  im_cols :: "ColMeta list"

record TabMeta =
  tm_name :: string
  tm_cols :: "ColMeta list"
  tm_indexes :: "IndexMeta list"

text \<open>\<^verbatim>\<open>std::map<std::string, TabMeta>\<close>: the entries in the order of their keys.\<close>

record DbMeta =
  db_name :: string
  db_tabs :: "(string \<times> TabMeta) list"

definition find_from_cols :: "ColMeta list \<Rightarrow> string \<Rightarrow> exc + ColMeta" where
  "find_from_cols cols n =
     (case List.find (\<lambda>c. cm_name c = n) cols of None \<Rightarrow> Inl (Throw (ColumnNotFoundError n)) | Some c \<Rightarrow> Inr c)"

definition index_file_name :: "string \<Rightarrow> string list \<Rightarrow> string" where
  "index_file_name tab cols = tab @ concat (map (\<lambda>c. ''_'' @ c) cols) @ ''.idx''"

definition IndexMeta_get_index_name :: "IndexMeta \<Rightarrow> string" where
  "IndexMeta_get_index_name m = index_file_name (im_tab_name m) (map cm_name (im_cols m))"

definition is_col :: "TabMeta \<Rightarrow> string \<Rightarrow> bool" where
  "is_col t n \<longleftrightarrow> List.find (\<lambda>c. cm_name c = n) (tm_cols t) \<noteq> None"

definition get_col :: "TabMeta \<Rightarrow> string \<Rightarrow> exc + ColMeta" where
  "get_col t n =
     (case List.find (\<lambda>c. cm_name c = n) (tm_cols t) of None \<Rightarrow> Inl (Throw (ColumnNotFoundError n)) | Some c \<Rightarrow> Inr c)"

text \<open>
  The comparison of the columns of one index with the names; the vector of columns is indexed
  without a check, so a \<^verbatim>\<open>col_num\<close> beyond its end is an access outside it.
\<close>

fun cols_match :: "ColMeta list \<Rightarrow> string list \<Rightarrow> exc + bool" where
  "cols_match cs [] = Inr True"
| "cols_match [] (n # ns) = Inl OutOfRange"
| "cols_match (c # cs) (n # ns) = (if cm_name c = n then cols_match cs ns else Inr False)"

definition index_matches :: "IndexMeta \<Rightarrow> string list \<Rightarrow> exc + bool" where
  "index_matches m ns =
     (if im_col_num m < 0 then Inl AssertFail
      else if im_col_num m = int (length ns) then cols_match (im_cols m) ns
      else Inr False)"

fun find_index :: "IndexMeta list \<Rightarrow> string list \<Rightarrow> exc + IndexMeta option" where
  "find_index [] ns = Inr None"
| "find_index (m # ms) ns =
     (case index_matches m ns of
        Inl e \<Rightarrow> Inl e | Inr True \<Rightarrow> Inr (Some m) | Inr False \<Rightarrow> find_index ms ns)"

definition is_index :: "TabMeta \<Rightarrow> string list \<Rightarrow> exc + bool" where
  "is_index t ns = (case find_index (tm_indexes t) ns of Inl e \<Rightarrow> Inl e | Inr r \<Rightarrow> Inr (r \<noteq> None))"

definition get_index_meta :: "TabMeta \<Rightarrow> string list \<Rightarrow> exc + IndexMeta" where
  "get_index_meta t ns =
     (case find_index (tm_indexes t) ns of
        Inl e \<Rightarrow> Inl e | Inr (Some m) \<Rightarrow> Inr m | Inr None \<Rightarrow> Inl (Throw (IndexNotFoundError (tm_name t) ns)))"

definition is_table :: "DbMeta \<Rightarrow> string \<Rightarrow> bool" where
  "is_table d n \<longleftrightarrow> map_of (db_tabs d) n \<noteq> None"

definition get_table :: "DbMeta \<Rightarrow> string \<Rightarrow> exc + TabMeta" where
  "get_table d n = (case map_of (db_tabs d) n of None \<Rightarrow> Inl (Throw (TableNotFoundError n)) | Some t \<Rightarrow> Inr t)"

text \<open>\<^verbatim>\<open>std::string\<close> order, and \<^verbatim>\<open>tabs_[k] = v\<close>.\<close>

fun str_less :: "string \<Rightarrow> string \<Rightarrow> bool" where
  "str_less _ [] = False"
| "str_less [] (_ # _) = True"
| "str_less (a # as) (b # bs) =
     (if (of_char a :: nat) < of_char b then True else if (of_char b :: nat) < of_char a then False else str_less as bs)"

fun map_put :: "string \<Rightarrow> 'v \<Rightarrow> (string \<times> 'v) list \<Rightarrow> (string \<times> 'v) list" where
  "map_put k v [] = [(k, v)]"
| "map_put k v ((j, w) # m) =
     (if k = j then (k, v) # m else if str_less k j then (k, v) # (j, w) # m else (j, w) # map_put k v m)"

section \<open>The text form\<close>

definition is_space :: "char \<Rightarrow> bool" where
  "is_space c \<longleftrightarrow> c \<in> set [CHR '' '', CHR 0x09, CHR 0x0A, CHR 0x0B, CHR 0x0C, CHR 0x0D]"

definition show_bool :: "bool \<Rightarrow> string" where
  "show_bool b = (if b then ''1'' else ''0'')"

definition newline :: string where "newline = [CHR 0x0A]"

definition show_ColMeta :: "ColMeta \<Rightarrow> string" where
  "show_ColMeta c = cm_tab_name c @ '' '' @ cm_name c @ '' '' @ to_string (coltype_code (cm_type c)) @ '' ''
     @ to_string (cm_len c) @ '' '' @ to_string (cm_offset c) @ '' '' @ show_bool (cm_index c)"

definition show_IndexMeta :: "IndexMeta \<Rightarrow> string" where
  "show_IndexMeta m = im_tab_name m @ '' '' @ to_string (im_col_tot_len m) @ '' '' @ to_string (im_col_num m)
     @ concat (map (\<lambda>c. newline @ show_ColMeta c) (im_cols m))"

definition show_TabMeta :: "TabMeta \<Rightarrow> string" where
  "show_TabMeta t = tm_name t @ newline @ to_string (int (length (tm_cols t))) @ newline
     @ concat (map (\<lambda>c. show_ColMeta c @ newline) (tm_cols t))
     @ to_string (int (length (tm_indexes t))) @ newline
     @ concat (map (\<lambda>m. show_IndexMeta m @ newline) (tm_indexes t))"

definition show_DbMeta :: "DbMeta \<Rightarrow> string" where
  "show_DbMeta d = db_name d @ newline @ to_string (int (length (db_tabs d))) @ newline
     @ concat (map (\<lambda>e. show_TabMeta (snd e) @ newline) (db_tabs d))"

section \<open>Reading it\<close>

type_synonym 'a reader = "string \<Rightarrow> ('a \<times> string) option"

definition bindR :: "'a reader \<Rightarrow> ('a \<Rightarrow> 'b reader) \<Rightarrow> 'b reader" where
  "bindR r f s = (case r s of None \<Rightarrow> None | Some (x, s') \<Rightarrow> f x s')"

definition returnR :: "'a \<Rightarrow> 'a reader" where
  "returnR x s = Some (x, s)"

text \<open>\<^verbatim>\<open>is >> std::string\<close>: skip white space, then all characters up to the next one.\<close>

definition read_string :: "string reader" where
  "read_string s =
     (let t = dropWhile is_space s; w = takeWhile (\<lambda>c. \<not> is_space c) t
      in if w = [] then None else Some (w, drop (length w) t))"

definition is_digit :: "char \<Rightarrow> bool" where
  "is_digit c \<longleftrightarrow> (48::nat) \<le> of_char c \<and> (of_char c :: nat) \<le> 57"

definition digits_val :: "string \<Rightarrow> nat" where
  "digits_val ds = foldl (\<lambda>n c. 10 * n + (of_char c - 48)) 0 ds"

text \<open>An optional sign and the longest run of digits; a value outside \<open>[lo, hi]\<close> sets the fail bit.\<close>

definition read_num :: "int \<Rightarrow> int \<Rightarrow> int reader" where
  "read_num lo hi s =
     (let t = dropWhile is_space s;
          neg = (t \<noteq> [] \<and> hd t = CHR ''-'');
          u = (if t \<noteq> [] \<and> (hd t = CHR ''-'' \<or> hd t = CHR ''+'') then tl t else t);
          ds = takeWhile is_digit u;
          v = (if neg then - int (digits_val ds) else int (digits_val ds))
      in if ds = [] \<or> v < lo \<or> hi < v then None else Some (v, drop (length ds) u))"

definition read_int :: "int reader" where "read_int = read_num (- (2 ^ 31)) (2 ^ 31 - 1)"

definition read_size :: "int reader" where "read_size = read_num 0 (2 ^ 64 - 1)"

definition read_bool :: "bool reader" where
  "read_bool = bindR (read_num 0 1) (\<lambda>v. returnR (v = 1))"

text \<open>An \<^verbatim>\<open>enum\<close> is read as an \<^verbatim>\<open>int\<close>; a number that is no enumerator counts as a failure here.\<close>

definition read_ColType :: "ColType reader" where
  "read_ColType = bindR read_int (\<lambda>v s. case coltype_of_code v of None \<Rightarrow> None | Some t \<Rightarrow> Some (t, s))"

fun read_list :: "'a reader \<Rightarrow> nat \<Rightarrow> 'a list reader" where
  "read_list r 0 = returnR []"
| "read_list r (Suc n) = bindR r (\<lambda>x. bindR (read_list r n) (\<lambda>xs. returnR (x # xs)))"

definition read_ColMeta :: "ColMeta reader" where
  "read_ColMeta =
     bindR read_string (\<lambda>tab. bindR read_string (\<lambda>n. bindR read_ColType (\<lambda>t.
     bindR read_int (\<lambda>len. bindR read_int (\<lambda>off. bindR read_bool (\<lambda>ix.
     returnR \<lparr>cm_tab_name = tab, cm_name = n, cm_type = t, cm_len = len, cm_offset = off, cm_index = ix\<rparr>))))))"

definition read_IndexMeta :: "IndexMeta reader" where
  "read_IndexMeta =
     bindR read_string (\<lambda>tab. bindR read_int (\<lambda>len. bindR read_int (\<lambda>n.
     bindR (read_list read_ColMeta (nat n)) (\<lambda>cols.
     returnR \<lparr>im_tab_name = tab, im_col_tot_len = len, im_col_num = n, im_cols = cols\<rparr>))))"

definition read_TabMeta :: "TabMeta reader" where
  "read_TabMeta =
     bindR read_string (\<lambda>nm. bindR read_size (\<lambda>n. bindR (read_list read_ColMeta (nat n)) (\<lambda>cols.
     bindR read_size (\<lambda>m. bindR (read_list read_IndexMeta (nat m)) (\<lambda>ixs.
     returnR \<lparr>tm_name = nm, tm_cols = cols, tm_indexes = ixs\<rparr>)))))"

definition read_DbMeta :: "DbMeta reader" where
  "read_DbMeta =
     bindR read_string (\<lambda>nm. bindR read_size (\<lambda>n. bindR (read_list read_TabMeta (nat n)) (\<lambda>tabs.
     returnR \<lparr>db_name = nm, db_tabs = foldl (\<lambda>m t. map_put (tm_name t) t m) [] tabs\<rparr>)))"

end
