(* ===== verification/Ix_Manager.thy ===== *)
theory Ix_Manager
  imports Ix_Tree Ix_Leaf Sm_Meta Rm_File
begin

text \<open>
  Creating, opening and closing index files, and filling a new index from a table:
  \<^verbatim>\<open>index/ix_manager.h\<close>.
\<close>

section \<open>IxManager\<close>

definition get_index_name :: "string \<Rightarrow> string list \<Rightarrow> string" where
  "get_index_name filename cols = index_file_name filename cols"

definition get_index_name_cols :: "string \<Rightarrow> ColMeta list \<Rightarrow> string" where
  "get_index_name_cols filename cols = index_file_name filename (map cm_name cols)"

definition ix_exists :: "string \<Rightarrow> string list \<Rightarrow> DiskManager \<Rightarrow> bool" where
  "ix_exists filename cols d = is_file (get_index_name filename cols) d"

definition ix_exists_cols :: "string \<Rightarrow> ColMeta list \<Rightarrow> DiskManager \<Rightarrow> bool" where
  "ix_exists_cols filename cols d = is_file (get_index_name_cols filename cols) d"

text \<open>The layout of a new index with these columns.\<close>

definition cols_tot_len :: "ColMeta list \<Rightarrow> int" where
  "cols_tot_len cols = sum_list (map cm_len cols)"

definition ix_btree_order :: "int \<Rightarrow> int" where
  "ix_btree_order tot = (int PAGE_SIZE - int sizeof_IxPageHdr) div (tot + 8) - 1"

definition new_IxFileHdr :: "ColMeta list \<Rightarrow> IxFileHdr" where
  "new_IxFileHdr cols =
     (let tot = cols_tot_len cols; ord = ix_btree_order tot in
      update_tot_len
        \<lparr>ih_first_free_page_no = IX_NO_PAGE, ih_num_pages = IX_INIT_NUM_PAGES, ih_root_page = IX_INIT_ROOT_PAGE,
         ih_col_num = int (length cols), ih_col_types = map cm_type cols, ih_col_lens = map cm_len cols,
         ih_col_tot_len = tot, ih_btree_order = ord, ih_keys_size = (ord + 1) * tot,
         ih_first_leaf = IX_INIT_ROOT_PAGE, ih_last_leaf = IX_INIT_ROOT_PAGE, ih_tot_len = 0\<rparr>)"

text \<open>The root page of a new index: allocated, given an empty leaf header, flushed and dropped from the pool.\<close>

definition create_root_page :: "int \<Rightarrow> (BufferPool, unit) stm" where
  "create_root_page fd =
     bindE (new_page fd) (\<lambda>p.
     bindE (deref p) (\<lambda>(f, pid).
     bindE (assertE (pid_no pid = IX_INIT_ROOT_PAGE)) (\<lambda>_.
     bindE (modifyE (\<lambda>b. poke f (set_page_hdr IX_NO_PAGE 0 True IX_NO_PAGE IX_NO_PAGE (frame_data b f)) b)) (\<lambda>_.
     bindE (unpinE pid True) (\<lambda>_.
     bindE (flush_page pid) (\<lambda>_.
     free_page pid))))))"

definition create_index :: "string \<Rightarrow> ColMeta list \<Rightarrow> (BufferPool, unit) stm" where
  "create_index filename cols =
     (let name = get_index_name_cols filename cols in
      bindE (lift_disk (create_file name)) (\<lambda>_.
      bindE (lift_disk (open_file name)) (\<lambda>fd.
        if cols_tot_len cols > IX_MAX_COL_LEN then throwE (Throw (InvalidColLengthError (cols_tot_len cols)))
        else
          bindE (assertE (ix_btree_order (cols_tot_len cols) > 2)) (\<lambda>_.
          bindE (liftR (IxFileHdr_serialize (new_IxFileHdr cols))) (\<lambda>bs.
          bindE (lift_disk (write_page fd IX_FILE_HDR_PAGE bs)) (\<lambda>_.
          bindE (lift_disk (modifyE (set_fd2pageno fd IX_INIT_ROOT_PAGE))) (\<lambda>_.
          bindE (create_root_page fd) (\<lambda>_.
          lift_disk (close_file fd)))))))))"

definition destroy_index :: "string \<Rightarrow> string list \<Rightarrow> (BufferPool, unit) stm" where
  "destroy_index filename cols = lift_disk (destroy_file (get_index_name filename cols))"

text \<open>The constructor of \<^verbatim>\<open>IxIndexHandle\<close>, and the functions that open an index file and construct the handle.\<close>

definition IxIndexHandle_init :: "int \<Rightarrow> (DiskManager, IxFileHdr) stm" where
  "IxIndexHandle_init fd =
     bindE (read_page fd IX_FILE_HDR_PAGE PAGE_SIZE) (\<lambda>m.
     bindE (liftR (IxFileHdr_deserialize m)) (\<lambda>h.
     bindE (modifyE (set_fd2pageno fd (ih_num_pages h))) (\<lambda>_.
     returnE h)))"

definition open_index_file :: "string \<Rightarrow> (DiskManager, int \<times> IxFileHdr) stm" where
  "open_index_file name =
     bindE (open_file name) (\<lambda>fd. bindE (IxIndexHandle_init fd) (\<lambda>h. returnE (fd, h)))"

definition open_index :: "string \<Rightarrow> string list \<Rightarrow> (DiskManager, int \<times> IxFileHdr) stm" where
  "open_index filename cols = open_index_file (get_index_name filename cols)"

definition open_index_cols :: "string \<Rightarrow> ColMeta list \<Rightarrow> (DiskManager, int \<times> IxFileHdr) stm" where
  "open_index_cols filename cols = open_index_file (get_index_name_cols filename cols)"

definition close_index :: "int \<Rightarrow> (IxSys, unit) stm" where
  "close_index fd =
     bindE (getsE ix_hdr) (\<lambda>h.
     bindE (liftR (IxFileHdr_serialize h)) (\<lambda>bs.
     bindE (ix_pool (lift_disk (write_page fd IX_FILE_HDR_PAGE bs))) (\<lambda>_.
     bindE (ix_pool (flush_all_pages fd)) (\<lambda>_.
     bindE (ix_pool (free_all_pages fd)) (\<lambda>_.
     ix_pool (lift_disk (close_file fd)))))))"

text \<open>
  Filling an index from a table that shares the buffer pool with it. \<open>index_key\<close> collects the bytes of
  the indexed columns of a record; the loop runs over the scan of the table.
\<close>

definition in_table :: "(RmSys, 'a) stm \<Rightarrow> (RmSys \<times> IxFileHdr, 'a) stm" where
  "in_table m s = (case m (fst s) of (r, t) \<Rightarrow> (r, (t, snd s)))"

definition in_index :: "(IxSys, 'a) stm \<Rightarrow> (RmSys \<times> IxFileHdr, 'a) stm" where
  "in_index m s =
     (case m \<lparr>ix_bp = rm_bp (fst s), ix_hdr = snd s\<rparr> of
        (r, i) \<Rightarrow> (r, ((fst s)\<lparr>rm_bp := ix_bp i\<rparr>, ix_hdr i)))"

definition index_key :: "ColMeta list \<Rightarrow> bytes \<Rightarrow> bytes" where
  "index_key cols rec = concat (map (\<lambda>c. mem_get (nat (cm_offset c)) (nat (cm_len c)) rec) cols)"

fun init_tree_from :: "nat \<Rightarrow> nat \<Rightarrow> int \<Rightarrow> int \<Rightarrow> ColMeta list \<Rightarrow> Rid \<Rightarrow> (RmSys \<times> IxFileHdr, unit) stm" where
  "init_tree_from k n fd ifd cols rid =
     (if RmScan_is_end rid then returnE ()
      else
        (case k of
           0 \<Rightarrow> throwE OutOfFuel
         | Suc k' \<Rightarrow>
             bindE (in_table (get_record fd rid)) (\<lambda>rec.
             bindE (getsE (\<lambda>s. cols_tot_len cols = ih_col_tot_len (snd s))) (\<lambda>fits.
             bindE (assertE fits) (\<lambda>_.
             bindE (in_index (insert_entry n ifd (index_key cols rec) rid)) (\<lambda>_.
             bindE (in_table (RmScan_next fd rid)) (init_tree_from k' n fd ifd cols)))))))"

declare init_tree_from.simps [simp del]

definition init_tree :: "nat \<Rightarrow> nat \<Rightarrow> int \<Rightarrow> int \<Rightarrow> ColMeta list \<Rightarrow> (RmSys \<times> IxFileHdr, unit) stm" where
  "init_tree k n fd ifd cols = bindE (in_table (RmScan_init fd)) (init_tree_from k n fd ifd cols)"

end
