(* ===== verification/Ix_Props.thy ===== *)
theory Ix_Props
  imports Ix_Manager
begin

text \<open>
  The properties of the index component: the searches of a node, a leaf as a finite map, the file
  header, and the layout of new indexes.
\<close>

section \<open>The file header\<close>

definition hdr_i32 :: "IxFileHdr \<Rightarrow> bool" where
  "hdr_i32 h \<longleftrightarrow> in_i32 (ih_first_free_page_no h) \<and> in_i32 (ih_num_pages h) \<and> in_i32 (ih_root_page h) \<and> in_i32 (ih_col_num h)
     \<and> list_all in_i32 (ih_col_lens h) \<and> in_i32 (ih_col_tot_len h) \<and> in_i32 (ih_btree_order h) \<and> in_i32 (ih_keys_size h)
     \<and> in_i32 (ih_first_leaf h) \<and> in_i32 (ih_last_leaf h) \<and> in_i32 (ih_tot_len h)"

text \<open>The vectors have \<^verbatim>\<open>col_num\<close> elements and \<^verbatim>\<open>update_tot_len\<close> has been called.\<close>

definition hdr_shape :: "IxFileHdr \<Rightarrow> bool" where
  "hdr_shape h \<longleftrightarrow> 0 \<le> ih_col_num h \<and> length (ih_col_types h) = nat (ih_col_num h) \<and> length (ih_col_lens h) = nat (ih_col_num h)
     \<and> ih_tot_len h = 40 + 8 * ih_col_num h"

lemma length_concat_enc: "length (concat (map (\<lambda>v. enc_le 4 (f v)) vs)) = 4 * length vs"
  by (induction vs) auto

lemma rd_i32_at: "length a = off \<Longrightarrow> in_i32 v \<Longrightarrow> rd_i32 off (a @ enc_le 4 v @ b) = v"
  by (simp add: rd_i32_def mem_get_def)

lemma rd_ints_concat:
  assumes "length a = off" "list_all in_i32 vs"
  shows "rd_ints off (length vs) (a @ concat (map (enc_le 4) vs) @ b) = vs"
proof (rule nth_equalityI)
  show "length (rd_ints off (length vs) (a @ concat (map (enc_le 4) vs) @ b)) = length vs" by (simp add: rd_ints_def)
next
  fix i assume "i < length (rd_ints off (length vs) (a @ concat (map (enc_le 4) vs) @ b))"
  then have i: "i < length vs" by (simp add: rd_ints_def)
  have "vs = take i vs @ vs ! i # drop (Suc i) vs" using i by (simp add: id_take_nth_drop)
  then have "a @ concat (map (enc_le 4) vs) @ b
      = (a @ concat (map (enc_le 4) (take i vs))) @ enc_le 4 (vs ! i) @ (concat (map (enc_le 4) (drop (Suc i) vs)) @ b)"
    by (metis append.assoc concat.simps(2) concat_append list.simps(9) map_append)
  moreover have "length (a @ concat (map (enc_le 4) (take i vs))) = off + 4 * i"
    using assms(1) i length_concat_enc [of id "take i vs"] by simp
  moreover have "in_i32 (vs ! i)" using assms(2) i by (simp add: list_all_length)
  ultimately have "rd_i32 (off + 4 * i) (a @ concat (map (enc_le 4) vs) @ b) = vs ! i"
    using rd_i32_at by metis
  then show "rd_ints off (length vs) (a @ concat (map (enc_le 4) vs) @ b) ! i = vs ! i"
    using i by (simp add: rd_ints_def)
qed

lemma coltypes_of_codes: "coltypes_of (map coltype_code ts) = Some ts"
  by (simp add: coltypes_of_def list_all_iff comp_def)

lemma coltype_code_i32: "in_i32 (coltype_code t)"
  by (cases t) (auto simp: in_i32_def)

lemma serialize_deserialize:
  assumes i32: "hdr_i32 h" and shape: "hdr_shape h"
  obtains bs where "IxFileHdr_serialize h = Inr bs" "int (length bs) = ih_tot_len h"
    "\<And>pad. IxFileHdr_deserialize (bs @ pad) = Inr h"
proof -
  define n where "n = nat (ih_col_num h)"
  have n: "int n = ih_col_num h" "length (ih_col_types h) = n" "length (ih_col_lens h) = n" "ih_tot_len h = 40 + 8 * int n"
    using shape by (auto simp: hdr_shape_def n_def)
  define c1 where "c1 = concat (map (enc_le 4) (map coltype_code (ih_col_types h)))"
  define c2 where "c2 = concat (map (enc_le 4) (ih_col_lens h))"
  define p0 where "p0 = enc_le 4 (ih_tot_len h) @ enc_le 4 (ih_first_free_page_no h) @ enc_le 4 (ih_num_pages h)
    @ enc_le 4 (ih_root_page h) @ enc_le 4 (ih_col_num h)"
  define q where "q = enc_le 4 (ih_col_tot_len h) @ enc_le 4 (ih_btree_order h) @ enc_le 4 (ih_keys_size h)
    @ enc_le 4 (ih_first_leaf h) @ enc_le 4 (ih_last_leaf h)"
  define bs where "bs = p0 @ c1 @ c2 @ q"
  have len: "length p0 = 20" "length c1 = 4 * n" "length c2 = 4 * n" "length q = 20"
    using n length_concat_enc [of coltype_code "ih_col_types h"] length_concat_enc [of "\<lambda>v. v" "ih_col_lens h"]
    by (simp_all add: p0_def q_def c1_def c2_def comp_def)
  have c1': "concat (map (\<lambda>t. enc_le 4 (coltype_code t)) (ih_col_types h)) = c1" by (simp add: c1_def comp_def)
  have ser: "IxFileHdr_serialize h = Inr bs"
    using n len unfolding IxFileHdr_serialize_def Let_def n_def [symmetric]
    by (simp add: bs_def p0_def q_def c1' c2_def [symmetric])
  have lbs: "int (length bs) = ih_tot_len h" using len n by (simp add: bs_def)
  have des: "IxFileHdr_deserialize (bs @ pad) = Inr h" for pad
  proof -
    let ?m = "bs @ pad"
    have f: "in_i32 (ih_first_free_page_no h)" "in_i32 (ih_num_pages h)" "in_i32 (ih_root_page h)" "in_i32 (ih_col_num h)"
      "list_all in_i32 (ih_col_lens h)" "in_i32 (ih_col_tot_len h)" "in_i32 (ih_btree_order h)" "in_i32 (ih_keys_size h)"
      "in_i32 (ih_first_leaf h)" "in_i32 (ih_last_leaf h)" "in_i32 (ih_tot_len h)"
      using i32 by (auto simp: hdr_i32_def)
    have r: "rd_i32 0 ?m = ih_tot_len h" "rd_i32 4 ?m = ih_first_free_page_no h" "rd_i32 8 ?m = ih_num_pages h"
      "rd_i32 12 ?m = ih_root_page h" "rd_i32 16 ?m = ih_col_num h"
      using f by (simp_all add: bs_def p0_def rd_i32_def mem_get_def)
    have t: "rd_ints 20 n ?m = map coltype_code (ih_col_types h)"
      using rd_ints_concat [of p0 20 "map coltype_code (ih_col_types h)" "c2 @ q @ pad"] len n coltype_code_i32
      unfolding c1_def [symmetric] by (simp add: bs_def list_all_iff)
    have l: "rd_ints (20 + 4 * n) n ?m = ih_col_lens h"
      using rd_ints_concat [of "p0 @ c1" "20 + 4 * n" "ih_col_lens h" "q @ pad"] len n f(5)
      by (simp add: bs_def c2_def [symmetric])
    have e: "rd_i32 (20 + 4 * n + 4 * n + k) ?m = rd_i32 k (q @ pad)" for k
    proof -
      have "?m = (p0 @ c1 @ c2) @ q @ pad" and l: "length (p0 @ c1 @ c2) = 20 + 4 * n + 4 * n" using len by (simp_all add: bs_def)
      then have "mem_get (20 + 4 * n + 4 * n + k) 4 ?m = mem_get (20 + 4 * n + 4 * n + k - length (p0 @ c1 @ c2)) 4 (q @ pad)"
        by (metis le_add1 mem_get_append_right)
      then show ?thesis unfolding l by (simp add: rd_i32_def)
    qed
    have e': "rd_i32 0 (q @ pad) = ih_col_tot_len h" "rd_i32 4 (q @ pad) = ih_btree_order h" "rd_i32 8 (q @ pad) = ih_keys_size h"
      "rd_i32 12 (q @ pad) = ih_first_leaf h" "rd_i32 16 (q @ pad) = ih_last_leaf h"
      using f by (simp_all add: q_def rd_i32_def mem_get_def)
    have "\<not> length ?m < 20 + 4 * n + 4 * n + 20" "int (20 + 4 * n + 4 * n + 20) = ih_tot_len h" using len n by (simp_all add: bs_def)
    then show ?thesis
      unfolding IxFileHdr_deserialize_def Let_def r n_def [symmetric] t coltypes_of_codes l
      using e [of 0] e [of 4] e [of 8] e [of 12] e [of 16] e' by (cases h) simp
  qed
  show thesis using ser lbs des by (rule that)
qed

section \<open>New indexes\<close>

lemma sum_len_nat: "list_all col_ok cs \<Longrightarrow> int (cols_len cs) = sum_list (map snd cs)"
proof (induction cs)
  case (Cons c cs)
  then have "0 \<le> snd c" by (cases c; cases "fst c") auto
  with Cons show ?case by (simp add: cols_len_def)
qed (simp add: cols_len_def)

definition cols_index_ok :: "ColMeta list \<Rightarrow> bool" where
  "cols_index_ok cols \<longleftrightarrow> cols \<noteq> [] \<and> list_all (\<lambda>c. col_ok (cm_type c, cm_len c)) cols"

lemma new_hdr_fields [simp]:
  "ih_col_num (new_IxFileHdr cols) = int (length cols)" "ih_col_types (new_IxFileHdr cols) = map cm_type cols"
  "ih_col_lens (new_IxFileHdr cols) = map cm_len cols" "ih_col_tot_len (new_IxFileHdr cols) = cols_tot_len cols"
  "ih_btree_order (new_IxFileHdr cols) = ix_btree_order (cols_tot_len cols)"
  "ih_keys_size (new_IxFileHdr cols) = (ix_btree_order (cols_tot_len cols) + 1) * cols_tot_len cols"
  "ih_first_free_page_no (new_IxFileHdr cols) = -1" "ih_num_pages (new_IxFileHdr cols) = 2"
  "ih_root_page (new_IxFileHdr cols) = 1" "ih_first_leaf (new_IxFileHdr cols) = 1" "ih_last_leaf (new_IxFileHdr cols) = 1"
  "ih_tot_len (new_IxFileHdr cols) = 40 + 8 * int (length cols)"
  by (simp_all add: new_IxFileHdr_def update_tot_len_def Let_def IX_NO_PAGE_def IX_INIT_NUM_PAGES_def IX_INIT_ROOT_PAGE_def)

lemma new_hdr_cols: "ix_cols (new_IxFileHdr cols) = map (\<lambda>c. (cm_type c, cm_len c)) cols"
  by (simp add: ix_cols_def zip_map_map) (induction cols; simp)

lemma cols_tot_len_sum: "cols_index_ok cols \<Longrightarrow> cols_tot_len cols = int (cols_len (ix_cols (new_IxFileHdr cols)))"
  by (subst sum_len_nat) (auto simp: new_hdr_cols cols_tot_len_def cols_index_ok_def list_all_iff comp_def)

lemma le_div_iff_mult_le:
  assumes "0 < (b::int)"
  shows "c \<le> a div b \<longleftrightarrow> c * b \<le> a"
proof
  assume "c \<le> a div b"
  then have "c * b \<le> a div b * b" using assms by (intro mult_right_mono) auto
  also have "\<dots> \<le> a" using assms pos_mod_sign [of b a] div_mult_mod_eq [of a b] by linarith
  finally show "c * b \<le> a" .
next
  assume "c * b \<le> a"
  then have "c * b div b \<le> a div b" using assms by (rule zdiv_mono1)
  then show "c \<le> a div b" using assms by simp
qed

lemma order_room:
  assumes "0 \<le> tot"
  shows "24 + (ix_btree_order tot + 1) * tot + 8 * (ix_btree_order tot + 1) \<le> int PAGE_SIZE"
proof -
  have "(ix_btree_order tot + 1) * (tot + 8) \<le> 4072"
    using assms le_div_iff_mult_le [of "tot + 8" "4072 div (tot + 8)" 4072]
    by (simp add: ix_btree_order_def PAGE_SIZE_def sizeof_IxPageHdr_def mult.commute)
  moreover have "(ix_btree_order tot + 1) * (tot + 8) = (ix_btree_order tot + 1) * tot + 8 * (ix_btree_order tot + 1)"
    by (simp add: algebra_simps)
  ultimately show ?thesis by (simp add: PAGE_SIZE_def)
qed

lemma order_large_iff:
  assumes "0 \<le> tot"
  shows "2 < ix_btree_order tot \<longleftrightarrow> tot \<le> 1010"
proof -
  have "2 < ix_btree_order tot \<longleftrightarrow> 4 \<le> 4072 div (tot + 8)"
    by (auto simp: ix_btree_order_def PAGE_SIZE_def sizeof_IxPageHdr_def)
  also have "\<dots> \<longleftrightarrow> 4 * (tot + 8) \<le> 4072" using assms by (intro le_div_iff_mult_le) auto
  finally show ?thesis by auto
qed

lemma new_hdr_ok_iff: "cols_index_ok cols \<Longrightarrow> ix_hdr_ok (new_IxFileHdr cols) \<longleftrightarrow> cols_tot_len cols \<le> 1010"
  using order_large_iff [of "cols_tot_len cols"] order_room [of "cols_tot_len cols"] cols_tot_len_sum [of cols]
  by (auto simp: ix_hdr_ok_def cols_index_ok_def new_hdr_cols list_all_iff)

section \<open>An empty leaf\<close>

lemma set_page_hdr_spec:
  assumes "page_fits x" "in_i32 p" "in_i32 n" "in_i32 a" "in_i32 b"
  shows "page_fits (set_page_hdr p n leaf a b x)" "get_size (set_page_hdr p n leaf a b x) = n"
    "is_leaf_page (set_page_hdr p n leaf a b x) = leaf" "get_parent_page_no (set_page_hdr p n leaf a b x) = p"
    "get_prev_leaf (set_page_hdr p n leaf a b x) = a" "get_next_leaf (set_page_hdr p n leaf a b x) = b"
proof -
  have upd: "rd_i32 off (y[12 := v]) = rd_i32 off y" if "off + 4 \<le> 12 \<or> 12 < off" for off v and y :: bytes
    using that by (auto simp: rd_i32_def mem_get_def drop_update_swap take_update_swap list_update_beyond)
  show "page_fits (set_page_hdr p n leaf a b x)" "get_size (set_page_hdr p n leaf a b x) = n"
    "is_leaf_page (set_page_hdr p n leaf a b x) = leaf" "get_parent_page_no (set_page_hdr p n leaf a b x) = p"
    "get_prev_leaf (set_page_hdr p n leaf a b x) = a" "get_next_leaf (set_page_hdr p n leaf a b x) = b"
    using assms
    by (simp_all add: set_page_hdr_def page_fits_def PAGE_SIZE_def set_size_def set_is_leaf_def set_parent_page_no_def
        set_prev_leaf_def set_next_leaf_def get_size_def get_parent_page_no_def get_prev_leaf_def get_next_leaf_def
        is_leaf_page_def mem_simps upd nth_wr_i32)
qed

definition empty_leaf :: bytes where
  "empty_leaf = set_page_hdr IX_NO_PAGE 0 True IX_NO_PAGE IX_NO_PAGE (replicate PAGE_SIZE 0)"

lemma empty_leaf_ok:
  assumes "ix_hdr_ok h"
  shows "leaf_ok h empty_leaf" and "get_size empty_leaf = 0" and "leaf_map h empty_leaf = Map.empty"
proof -
  have "page_fits (replicate PAGE_SIZE 0)" by (simp add: page_fits_def)
  note e = set_page_hdr_spec [OF this, of "-1" 0 "-1" "-1" True]
  have f: "page_fits empty_leaf" "get_size empty_leaf = 0" "is_leaf_page empty_leaf"
    using e by (simp_all add: empty_leaf_def IX_NO_PAGE_def in_i32_def)
  show "leaf_ok h empty_leaf" "get_size empty_leaf = 0" "leaf_map h empty_leaf = Map.empty"
    using f assms by (simp_all add: leaf_ok_def node_pairs_def leaf_map_def ix_hdr_ok_def)
qed

text \<open>A one-column index and two of its keys, for the examples below.\<close>

definition demo_cols :: "ColMeta list" where
  "demo_cols = [\<lparr>cm_tab_name = ''t'', cm_name = ''a'', cm_type = TYPE_INT, cm_len = 4, cm_offset = 0, cm_index = True\<rparr>]"

definition demo_key :: "int \<Rightarrow> bytes" where "demo_key v = enc_le 4 v"

lemma demo_cols_ok: "cols_index_ok demo_cols" "cols_tot_len demo_cols = 4"
  by (simp_all add: demo_cols_def cols_index_ok_def cols_tot_len_def)

lemma demo_hdr_ok: "ix_hdr_ok (new_IxFileHdr demo_cols)"
  using new_hdr_ok_iff [OF demo_cols_ok(1)] demo_cols_ok(2) by simp

lemma demo_key_ok:
  "key_ok (ix_cols (new_IxFileHdr demo_cols)) (demo_key v)" "length (demo_key v) = key_len (new_IxFileHdr demo_cols)"
  by (simp_all add: new_hdr_cols demo_cols_def key_ok_def cols_len_def demo_key_def key_len_def cols_tot_len_def)

lemma demo_kv: "in_i32 v \<Longrightarrow> kv (new_IxFileHdr demo_cols) (demo_key v) = [v]"
  by (simp add: kv_def new_hdr_cols demo_cols_def demo_key_def rd_i32_def mem_get_def)

section \<open>Properties\<close>

text \<open>
  C16: the binary searches of a node equal a linear scan. In a node whose keys are in order,
  \<^verbatim>\<open>lower_bound\<close> returns the number of leading keys below the target and \<^verbatim>\<open>upper_bound\<close> the number of
  leading keys not above it, where only the first \<^verbatim>\<open>pre\<close> columns count (all of them for
  \<^verbatim>\<open>pre = 0\<close>) and keys are ordered column by column: integers and floats by value, strings by their
  unsigned bytes. Both searches end and throw nothing.
\<close>

theorem node_bounds_equal_linear_scan:
  assumes "ix_hdr_ok h" "keys_ok h x" "pre \<le> nat (ih_col_num h)" "key_ok (pre_cols h pre) t"
  shows "node_lower_bound h x t pre
      = Inr (length (takeWhile (\<lambda>p. key_val (pre_cols h pre) (fst p) < key_val (pre_cols h pre) t) (node_pairs h x)))
    \<and> node_upper_bound h x t pre
      = Inr (length (takeWhile (\<lambda>p. key_val (pre_cols h pre) (fst p) \<le> key_val (pre_cols h pre) t) (node_pairs h x)))"
  using node_search_counts [OF assms(1,2,4,3)]
  by (simp add: node_lower_bound_def node_upper_bound_def skips_def [abs_def])

theorem node_bounds_equal_linear_scan_witness:
  "\<exists>x. keys_ok (new_IxFileHdr demo_cols) x \<and> get_size x = 1
     \<and> node_lower_bound (new_IxFileHdr demo_cols) x (demo_key 5) 0 = Inr 0
     \<and> node_upper_bound (new_IxFileHdr demo_cols) x (demo_key 5) 0 = Inr 1"
proof -
  let ?h = "new_IxFileHdr demo_cols"
  note e = empty_leaf_ok [OF demo_hdr_ok]
  have r: "rid_ok \<lparr>page_no = 1, slot_no = 0\<rparr>" by (simp add: rid_ok_def in_i32_def)
  obtain i x where x: "get_size x = get_size empty_leaf + 1" "page_fits x" "node_pairs ?h x ! i = (demo_key 5, \<lparr>page_no = 1, slot_no = 0\<rparr>)"
      "i \<le> nat (get_size empty_leaf)" "sorted_wrt (<) (map (kv ?h \<circ> fst) (node_pairs ?h x))"
      "list_all (\<lambda>p. key_ok (ix_cols ?h) (fst p)) (node_pairs ?h x)"
    by (rule node_insert_map [OF demo_hdr_ok e(1) demo_key_ok r, of 5], simp add: e(3), rule that)
  have pairs: "node_pairs ?h x = [(demo_key 5, \<lparr>page_no = 1, slot_no = 0\<rparr>)]"
    using x(1,3,4) e(2) by (cases "node_pairs ?h x") (auto simp: node_pairs_def)
  have "2 < ih_btree_order ?h" using demo_hdr_ok unfolding ix_hdr_ok_def by blast
  then have ok: "keys_ok ?h x" using x(1,2,6) e(2) by (simp add: keys_ok_def node_sized_def pairs)
  show ?thesis
    using node_bounds_equal_linear_scan [OF demo_hdr_ok ok, of 0 "demo_key 5"] demo_key_ok(1) demo_hdr_ok ok x(1) e(2)
    by (intro exI [of _ x]) (simp add: pairs)
qed

text \<open>
  C17: a leaf refines a finite map under insertion. \<^verbatim>\<open>insert\<close> throws \<^verbatim>\<open>IndexEntryNotUniqueError\<close> exactly when
  the leaf has an entry with an equal key; otherwise it returns the number of pairs, adds exactly
  the new entry, keeps the keys strictly increasing, the links to parent and neighbours, and (unless
  the leaf was full) the leaf's invariant, after which \<^verbatim>\<open>leaf_lookup\<close> finds the record identifier.
\<close>

theorem leaf_insert_refines_map:
  assumes "ix_hdr_ok h" "leaf_ok h x" "key_ok (ix_cols h) k" "length k = key_len h" "rid_ok r"
  shows "if leaf_map h x (kv h k) \<noteq> None then node_insert h k r x = Inl (Throw IndexEntryNotUniqueError)
    else \<exists>i x'. node_insert h k r x = Inr ((i, get_size x + 1), x') \<and> get_size x' = get_size x + 1
      \<and> leaf_map h x' = (leaf_map h x)(kv h k \<mapsto> r) \<and> node_links x' = node_links x
      \<and> sorted_wrt (<) (map (kv h \<circ> fst) (node_pairs h x'))
      \<and> (get_size x < ih_btree_order h \<longrightarrow> leaf_ok h x' \<and> leaf_lookup h x' k = Inr (Some r))"
proof (cases "leaf_map h x (kv h k)")
  case (Some r')
  then show ?thesis using node_insert_duplicate [OF assms(1-3)] by simp
next
  case None
  obtain i x' where x': "node_insert h k r x = Inr ((i, get_size x + 1), x')" "page_fits x'" "get_size x' = get_size x + 1"
      "node_links x' = node_links x" "leaf_map h x' = (leaf_map h x)(kv h k \<mapsto> r)"
      "sorted_wrt (<) (map (kv h \<circ> fst) (node_pairs h x'))" "list_all (\<lambda>p. key_ok (ix_cols h) (fst p)) (node_pairs h x')"
    by (rule node_insert_map [OF assms None], rule that)
  have "leaf_ok h x' \<and> leaf_lookup h x' k = Inr (Some r)" if "get_size x < ih_btree_order h"
  proof -
    have ok: "leaf_ok h x'" and pos: "0 < get_size x'"
      using x' assms(2) that by (auto simp: leaf_ok_def node_links_def)
    then show ?thesis using leaf_lookup_map [OF assms(1) ok assms(3) pos] x'(5) by simp
  qed
  then show ?thesis using None x' by auto
qed

theorem leaf_insert_refines_map_witness:
  "\<exists>i x'. node_insert (new_IxFileHdr demo_cols) (demo_key 5) \<lparr>page_no = 1, slot_no = 0\<rparr> empty_leaf = Inr ((i, 1), x')
     \<and> leaf_map (new_IxFileHdr demo_cols) x' = [[5] \<mapsto> \<lparr>page_no = 1, slot_no = 0\<rparr>]"
  using leaf_insert_refines_map [OF demo_hdr_ok empty_leaf_ok(1) [OF demo_hdr_ok] demo_key_ok, of "\<lparr>page_no = 1, slot_no = 0\<rparr>" 5]
    empty_leaf_ok(2,3) [OF demo_hdr_ok] demo_kv [of 5] by (auto simp: rid_ok_def in_i32_def)

text \<open>
  C18: a leaf refines a finite map under removal. \<^verbatim>\<open>remove\<close> ends, throws nothing, removes the entry with
  the given key if there is one and no other entry, returns the remaining number of pairs, and keeps
  the leaf's invariant and its links.
\<close>

theorem leaf_remove_refines_map:
  assumes "ix_hdr_ok h" "leaf_ok h x" "key_ok (ix_cols h) k"
  shows "\<exists>x'. node_remove h k x = Inr (get_size x', x') \<and> leaf_ok h x' \<and> node_links x' = node_links x
    \<and> get_size x' = get_size x - (if leaf_map h x (kv h k) = None then 0 else 1)
    \<and> leaf_map h x' = (leaf_map h x)(kv h k := None)"
  by (rule node_remove_map [OF assms]) blast

theorem leaf_remove_refines_map_witness:
  "\<exists>x'. node_remove (new_IxFileHdr demo_cols) (demo_key 5) empty_leaf = Inr (0, x')
     \<and> leaf_map (new_IxFileHdr demo_cols) x' = Map.empty"
  using leaf_remove_refines_map [OF demo_hdr_ok empty_leaf_ok(1) [OF demo_hdr_ok] demo_key_ok(1), of 5]
    empty_leaf_ok(2,3) [OF demo_hdr_ok] by auto

text \<open>
  \<^verbatim>\<open>IxFileHdr::deserialize\<close> undoes \<^verbatim>\<open>serialize\<close>. For a header whose fields are 32-bit integers,
  whose vectors have \<^verbatim>\<open>col_num_\<close> elements and whose \<^verbatim>\<open>tot_len_\<close> is up to date, \<^verbatim>\<open>serialize\<close> passes its
  assertion and writes \<^verbatim>\<open>tot_len_\<close> bytes, and \<^verbatim>\<open>deserialize\<close> of those bytes, whatever follows them on the
  page, passes its assertion and yields the same header.
\<close>

theorem index_header_roundtrip:
  assumes "hdr_i32 h" "hdr_shape h"
  shows "\<exists>bs. IxFileHdr_serialize h = Inr bs \<and> int (length bs) = ih_tot_len h
    \<and> (\<forall>pad. IxFileHdr_deserialize (bs @ pad) = Inr h)"
  by (rule serialize_deserialize [OF assms]) blast

theorem index_header_roundtrip_witness:
  "\<exists>bs. IxFileHdr_serialize (new_IxFileHdr demo_cols) = Inr bs
     \<and> IxFileHdr_deserialize (bs @ replicate 100 0) = Inr (new_IxFileHdr demo_cols)"
proof -
  have "hdr_i32 (new_IxFileHdr demo_cols)" "hdr_shape (new_IxFileHdr demo_cols)"
    by (simp_all add: hdr_i32_def hdr_shape_def demo_cols_def cols_tot_len_def ix_btree_order_def PAGE_SIZE_def
        sizeof_IxPageHdr_def in_i32_def)
  from index_header_roundtrip [OF this] show ?thesis by blast
qed



text \<open>
  An index whose first column is a \<^verbatim>\<open>BIGINT\<close> or a \<^verbatim>\<open>DATETIME\<close> takes one entry at most per leaf.
  \<^verbatim>\<open>ix_compare\<close> has no case for these types, so inserting any key into a leaf that has an entry
  throws \<^verbatim>\<open>InternalError\<close>, although \<^verbatim>\<open>create_index\<close> accepts such columns.
\<close>

theorem bigint_index_insert_throws:
  assumes "ih_col_types h = t # ts" "t = TYPE_BIGINT \<or> t = TYPE_DATETIME" "ih_col_lens h = len # lens"
    and "0 < ih_col_num h" "is_leaf_page x" "0 < get_size x"
  shows "node_insert h k r x = Inl (Throw (InternalError ''Unexpected data type''))"
proof -
  have cmp: "node_cmp h x k pre i = Inl (Throw (InternalError ''Unexpected data type''))" for pre i
    using assms(1-3) by (cases pre) (auto simp: node_cmp_def ix_compare_def ix_compare1_def Let_def)
  have "node_search (\<lambda>c. c < 0) h x k 0 = Inl (Throw (InternalError ''Unexpected data type''))"
    using assms(4,6) unfolding node_search_def Let_def
    by (cases "1 < get_size x")
      (simp_all add: cmp search_loop.simps [of _ 0 "nat (get_size x) - Suc 0"] search_loop.simps [of _ 0 0])
  then show ?thesis using assms(5) by (simp add: node_insert_def node_lower_bound_def)
qed

theorem bigint_index_insert_throws_witness:
  "node_insert ((new_IxFileHdr demo_cols)\<lparr>ih_col_types := [TYPE_BIGINT], ih_col_lens := [8]\<rparr>) (replicate 8 0) \<lparr>page_no = 1, slot_no = 0\<rparr>
     (set_page_hdr IX_NO_PAGE 1 True IX_NO_PAGE IX_NO_PAGE (replicate PAGE_SIZE 0)) = Inl (Throw (InternalError ''Unexpected data type''))"
proof -
  have "page_fits (replicate PAGE_SIZE 0)" by (simp add: page_fits_def)
  note e = set_page_hdr_spec [OF this, of "-1" 1 "-1" "-1" True]
  show ?thesis
    by (rule bigint_index_insert_throws [where t = TYPE_BIGINT and len = 8])
      (use e in \<open>simp_all add: IX_NO_PAGE_def in_i32_def demo_cols_def\<close>)
qed

end
