(* ===== verification/Values.thy ===== *)
theory Values
  imports Float32 Sm_Meta
begin

text \<open>
  Values and conditions: \<^verbatim>\<open>common/common.h\<close>. A \<^verbatim>\<open>Value\<close> is a tagged union of the five column types with an
  optional buffer that holds its bytes as they lie in a record; \<^verbatim>\<open>float\<close>s are their 32 bits. The
  checks that a literal fits its type work on the decimal text.
\<close>

section \<open>Decimal text and overflow\<close>

text \<open>\<^verbatim>\<open>char\<close> is signed on the target.\<close>

definition char_val :: "char \<Rightarrow> int" where
  "char_val c = (let v = int (of_char c) in if v \<ge> 128 then v - 256 else v)"

fun compare_same_length :: "string \<Rightarrow> string \<Rightarrow> int" where
  "compare_same_length (a # as) (b # bs) =
     (if char_val a > char_val b then 1 else if char_val a < char_val b then -1 else compare_same_length as bs)"
| "compare_same_length _ _ = 0"

definition compare_pos_int_string :: "string \<Rightarrow> string \<Rightarrow> int" where
  "compare_pos_int_string a b =
     (if length a > length b then 1 else if length a < length b then -1 else compare_same_length a b)"

definition compare_int_string :: "string \<Rightarrow> string \<Rightarrow> exc + int" where
  "compare_int_string a b =
     (if a = [] \<or> b = [] then Inl AssertFail
      else Inr
        (if hd b = CHR ''-'' \<and> hd a \<noteq> CHR ''-'' then 1
         else if hd a = CHR ''-'' \<and> hd b \<noteq> CHR ''-'' then -1
         else if hd a = CHR ''-'' \<and> hd b = CHR ''-'' then - compare_pos_int_string (tl a) (tl b)
         else compare_pos_int_string (if hd a = CHR ''+'' then tl a else a) (if hd b = CHR ''+'' then tl b else b)))"

text \<open>\<^verbatim>\<open>no_overflow<type>\<close>: the arguments are \<^verbatim>\<open>std::to_string\<close> of the limits of the type.\<close>

definition no_overflow :: "string \<Rightarrow> string \<Rightarrow> string \<Rightarrow> exc + bool" where
  "no_overflow hi lo s =
     (case compare_int_string s hi of
        Inl e \<Rightarrow> Inl e
      | Inr c \<Rightarrow>
          if c \<le> 0 then (case compare_int_string s lo of Inl e \<Rightarrow> Inl e | Inr d \<Rightarrow> Inr (d \<ge> 0)) else Inr False)"

definition no_overflow_int :: "string \<Rightarrow> exc + bool" where
  "no_overflow_int = no_overflow (to_string (2 ^ 31 - 1)) (to_string (- (2 ^ 31)))"

definition no_overflow_int64 :: "string \<Rightarrow> exc + bool" where
  "no_overflow_int64 = no_overflow (to_string (2 ^ 63 - 1)) (to_string (- (2 ^ 63)))"

text \<open>\<^verbatim>\<open>std::to_string\<close> of a \<^verbatim>\<open>float\<close> prints six digits after the point.\<close>

definition no_overflow_float :: "string \<Rightarrow> exc + bool" where
  "no_overflow_float =
     no_overflow ''340282346638528859811704183484516925440.000000'' ''-340282346638528859811704183484516925440.000000''"

section \<open>std::stoi, std::stoll and std::stof\<close>

definition sign_split :: "string \<Rightarrow> bool \<times> string" where
  "sign_split t =
     (t \<noteq> [] \<and> hd t = CHR ''-'', if t \<noteq> [] \<and> (hd t = CHR ''-'' \<or> hd t = CHR ''+'') then tl t else t)"

definition digits_int :: "string \<Rightarrow> int" where
  "digits_int ds = foldl (\<lambda>n c. 10 * n + (int (of_char c) - 48)) 0 ds"

definition sto_integer :: "int \<Rightarrow> int \<Rightarrow> string \<Rightarrow> exc + int" where
  "sto_integer lo hi s =
     (let (neg, u) = sign_split (dropWhile is_space s); ds = takeWhile is_digit u;
          v = (if neg then - digits_int ds else digits_int ds)
      in if ds = [] then Inl InvalidArgument else if v < lo \<or> hi < v then Inl OutOfRange else Inr v)"

definition stoi :: "string \<Rightarrow> exc + int" where "stoi = sto_integer (- (2 ^ 31)) (2 ^ 31 - 1)"

definition stoll :: "string \<Rightarrow> exc + int" where "stoll = sto_integer (- (2 ^ 63)) (2 ^ 63 - 1)"

text \<open>
  \<^verbatim>\<open>std::stof\<close> of decimal text: digits with an optional point and an optional exponent. It throws
  \<^verbatim>\<open>std::out_of_range\<close> when the number overflows, or underflows inexactly.
\<close>

definition exponent_of :: "string \<Rightarrow> int" where
  "exponent_of s =
     (if s \<noteq> [] \<and> (hd s = CHR ''e'' \<or> hd s = CHR ''E'') then
        let (neg, u) = sign_split (tl s); ds = takeWhile is_digit u in if neg then - digits_int ds else digits_int ds
      else 0)"

definition stof :: "string \<Rightarrow> exc + int" where
  "stof s =
     (let (neg, u) = sign_split (dropWhile is_space s);
          ip = takeWhile is_digit u; r1 = drop (length ip) u;
          fp = (if r1 \<noteq> [] \<and> hd r1 = CHR ''.'' then takeWhile is_digit (tl r1) else []);
          r2 = (if r1 \<noteq> [] \<and> hd r1 = CHR ''.'' then drop (length fp) (tl r1) else r1);
          e = exponent_of r2 - int (length fp); m = digits_int (ip @ fp);
          (n, d) = (if e \<ge> 0 then (m * 10 ^ nat e, 1) else (m, 10 ^ nat (- e)));
          b = round_pos n d
      in if ip @ fp = [] then Inl InvalidArgument
         else if b = FLOAT_INF then Inl OutOfRange
         else if b < 2 ^ 23 \<and> b * d \<noteq> n * 2 ^ 149 then Inl OutOfRange
         else Inr (with_sign neg b))"

section \<open>Value\<close>

datatype val = VInt int | VBigint int | VFloat int | VStr string | VDatetime int

fun val_type :: "val \<Rightarrow> ColType" where
  "val_type (VInt _) = TYPE_INT"
| "val_type (VBigint _) = TYPE_BIGINT"
| "val_type (VFloat _) = TYPE_FLOAT"
| "val_type (VStr _) = TYPE_STRING"
| "val_type (VDatetime _) = TYPE_DATETIME"

record Value =
  v_val :: val
  v_raw :: "bytes option"

text \<open>The comparison operators: \<^verbatim>\<open>==\<close>, \<^verbatim>\<open>>\<close> and \<^verbatim>\<open><\<close> are false for values of different types.\<close>

fun val_eq :: "val \<Rightarrow> val \<Rightarrow> bool" where
  "val_eq (VInt a) (VInt b) = (a = b)"
| "val_eq (VFloat a) (VFloat b) = float_eq a b"
| "val_eq (VStr a) (VStr b) = (a = b)"
| "val_eq (VBigint a) (VBigint b) = (a = b)"
| "val_eq (VDatetime a) (VDatetime b) = (a = b)"
| "val_eq _ _ = False"

definition val_ne :: "val \<Rightarrow> val \<Rightarrow> bool" where "val_ne a b \<longleftrightarrow> \<not> val_eq a b"

fun val_lt :: "val \<Rightarrow> val \<Rightarrow> bool" where
  "val_lt (VInt a) (VInt b) = (a < b)"
| "val_lt (VBigint a) (VBigint b) = (a < b)"
| "val_lt (VFloat a) (VFloat b) = float_lt a b"
| "val_lt (VStr a) (VStr b) = str_less a b"
| "val_lt (VDatetime a) (VDatetime b) = (a mod 2 ^ 64 < b mod 2 ^ 64)"
| "val_lt _ _ = False"

fun val_gt :: "val \<Rightarrow> val \<Rightarrow> bool" where
  "val_gt (VInt a) (VInt b) = (a > b)"
| "val_gt (VBigint a) (VBigint b) = (a > b)"
| "val_gt (VFloat a) (VFloat b) = float_lt b a"
| "val_gt (VStr a) (VStr b) = str_less b a"
| "val_gt (VDatetime a) (VDatetime b) = (a mod 2 ^ 64 > b mod 2 ^ 64)"
| "val_gt _ _ = False"

definition val_le :: "val \<Rightarrow> val \<Rightarrow> bool" where "val_le a b \<longleftrightarrow> \<not> val_gt a b"
definition val_ge :: "val \<Rightarrow> val \<Rightarrow> bool" where "val_ge a b \<longleftrightarrow> \<not> val_lt a b"

text \<open>\<^verbatim>\<open>operator+\<close>; the addition of two \<^verbatim>\<open>int\<close>s wraps around as the machine does.\<close>

fun val_plus :: "val \<Rightarrow> val \<Rightarrow> exc + val" where
  "val_plus (VFloat a) (VFloat b) = Inr (VFloat (float_add a b))"
| "val_plus (VInt a) (VInt b) = Inr (VInt (wrap_i32 (a + b)))"
| "val_plus _ _ = Inl (Throw (InternalError ''error value plus operator type''))"

text \<open>
  Reading a column of a record. \<^verbatim>\<open>strlen\<close> runs to the first zero byte; the model ends it at the end of
  the record, where the code may read on.
\<close>

definition read_from_record :: "bytes \<Rightarrow> ColMeta \<Rightarrow> val" where
  "read_from_record rec c =
     (let off = nat (cm_offset c) in
      case cm_type c of
        TYPE_INT \<Rightarrow> VInt (dec_s (mem_get off 4 rec))
      | TYPE_BIGINT \<Rightarrow> VBigint (dec_s (mem_get off 8 rec))
      | TYPE_FLOAT \<Rightarrow> VFloat (dec_u (mem_get off 4 rec))
      | TYPE_STRING \<Rightarrow> VStr (bytes_str (take (nat (cm_len c)) (takeWhile (\<lambda>b. b \<noteq> 0) (drop off rec))))
      | TYPE_DATETIME \<Rightarrow> VDatetime (dec_s (mem_get off 8 rec)))"

definition IsDayValid :: "int \<Rightarrow> int \<Rightarrow> int \<Rightarrow> bool" where
  "IsDayValid year month day =
     (if month = 4 \<or> month = 6 \<or> month = 9 \<or> month = 11 then day \<le> 30
      else if month = 2 then
        (if year mod 4 = 0 \<and> year mod 100 \<noteq> 0 \<or> year mod 400 = 0 then day \<le> 29 else day \<le> 28)
      else if month = 1 \<or> month = 3 \<or> month = 5 \<or> month = 7 \<or> month = 8 \<or> month = 10 \<or> month = 12 then day \<le> 31
      else False)"

definition str_le :: "string \<Rightarrow> string \<Rightarrow> bool" where "str_le a b \<longleftrightarrow> \<not> str_less b a"

definition substr :: "nat \<Rightarrow> nat \<Rightarrow> string \<Rightarrow> string" where "substr i n s = take n (drop i s)"

definition datetime_shape :: "string \<Rightarrow> bool" where
  "datetime_shape s \<longleftrightarrow> length s = 19 \<and> s ! 4 = CHR ''-'' \<and> s ! 7 = CHR ''-'' \<and> s ! 10 = CHR '' ''
     \<and> s ! 13 = CHR '':'' \<and> s ! 16 = CHR '':''"

text \<open>The comparisons of the six fields with their limits, as strings.\<close>

definition datetime_fields_ok :: "string \<Rightarrow> bool" where
  "datetime_fields_ok s \<longleftrightarrow>
     (let y = substr 0 4 s; mo = substr 5 2 s; d = substr 8 2 s; h = substr 11 2 s; mi = substr 14 2 s; sec = substr 17 2 s in
      str_le ''1000'' y \<and> str_le y ''9999'' \<and> str_le ''01'' mo \<and> str_le mo ''12'' \<and> str_le ''01'' d \<and> str_le d ''31''
      \<and> str_le ''00'' h \<and> str_le h ''23'' \<and> str_le ''00'' mi \<and> str_le mi ''59'' \<and> str_le ''00'' sec \<and> str_le sec ''59'')"

definition datetime_code :: "int \<Rightarrow> int \<Rightarrow> int \<Rightarrow> int \<Rightarrow> int \<Rightarrow> int \<Rightarrow> int" where
  "datetime_code y mo d h mi sec = y * 2 ^ 40 + mo * 2 ^ 32 + d * 2 ^ 24 + h * 2 ^ 16 + mi * 2 ^ 8 + sec"

definition andThen :: "exc + 'a \<Rightarrow> ('a \<Rightarrow> exc + 'b) \<Rightarrow> exc + 'b" where
  "andThen r f = (case r of Inl e \<Rightarrow> Inl e | Inr x \<Rightarrow> f x)"

definition check_set_datetime :: "string \<Rightarrow> exc + val" where
  "check_set_datetime s =
     (if datetime_shape s then
        andThen (stoi (substr 0 4 s)) (\<lambda>y. andThen (stoi (substr 5 2 s)) (\<lambda>mo. andThen (stoi (substr 8 2 s)) (\<lambda>d.
          if datetime_fields_ok s \<and> IsDayValid y mo d then
            andThen (stoll (substr 11 2 s)) (\<lambda>h. andThen (stoll (substr 14 2 s)) (\<lambda>mi. andThen (stoll (substr 17 2 s)) (\<lambda>sec.
              Inr (VDatetime (datetime_code y mo d h mi sec)))))
          else Inl (Throw (DateTimeFormatError s)))))
      else Inl (Throw (DateTimeFormatError s)))"

text \<open>The bytes of the buffer; a fresh buffer of \<^verbatim>\<open>len\<close> bytes is written completely.\<close>

definition raw_bytes :: "val \<Rightarrow> int \<Rightarrow> exc + bytes" where
  "raw_bytes v len =
     (case v of
        VInt i \<Rightarrow> if len = 4 then Inr (enc_le 4 i) else Inl AssertFail
      | VBigint i \<Rightarrow> if len = 8 then Inr (enc_le 8 i) else Inl AssertFail
      | VDatetime i \<Rightarrow> if len = 8 then Inr (enc_le 8 i) else Inl AssertFail
      | VFloat b \<Rightarrow> if len = 4 then Inr (enc_le 4 b) else Inl AssertFail
      | VStr s \<Rightarrow>
          if len < int (length s) then Inl (Throw StringOverflowError)
          else Inr (str_bytes s @ replicate (nat len - length s) 0))"

definition init_raw :: "int \<Rightarrow> Value \<Rightarrow> exc + Value" where
  "init_raw len v =
     (if v_raw v \<noteq> None then Inl AssertFail
      else andThen (raw_bytes (v_val v) len) (\<lambda>bs. Inr (v\<lparr>v_raw := Some bs\<rparr>)))"

definition check_then :: "exc + bool \<Rightarrow> exc + 'a \<Rightarrow> rmdb_error \<Rightarrow> exc + 'a" where
  "check_then ok r e = andThen ok (\<lambda>b. if b then r else Inl (Throw e))"

definition convert_val :: "string \<Rightarrow> ColType \<Rightarrow> exc + val" where
  "convert_val s t =
     (case t of
        TYPE_BIGINT \<Rightarrow> check_then (no_overflow_int64 s) (andThen (stoll s) (\<lambda>v. Inr (VBigint v))) (BigIntOverflowError s)
      | TYPE_INT \<Rightarrow> check_then (no_overflow_int s) (andThen (stoi s) (\<lambda>v. Inr (VInt v))) (IntOverflowError s)
      | TYPE_FLOAT \<Rightarrow> check_then (no_overflow_float s) (andThen (stof s) (\<lambda>v. Inr (VFloat v))) (FloatOverflowError s)
      | TYPE_STRING \<Rightarrow> Inr (VStr s)
      | TYPE_DATETIME \<Rightarrow> check_set_datetime s)"

definition convert_from_string :: "string \<Rightarrow> ColMeta \<Rightarrow> exc + Value" where
  "convert_from_string s c =
     andThen (convert_val s (cm_type c)) (\<lambda>v. init_raw (cm_len c) \<lparr>v_val = v, v_raw = None\<rparr>)"

section \<open>Columns, conditions and clauses\<close>

datatype AggType = COUNT | MAX | MIN | SUM

record TabCol =
  tc_tab_name :: string
  tc_col_name :: string
  tc_has_agg :: bool
  tc_aggregate_type :: AggType
  tc_another_name :: string
  tc_agg_arg_col_name :: string

definition TabCol_less :: "TabCol \<Rightarrow> TabCol \<Rightarrow> bool" where
  "TabCol_less x y \<longleftrightarrow> str_less (tc_tab_name x) (tc_tab_name y)
     \<or> \<not> str_less (tc_tab_name y) (tc_tab_name x) \<and> str_less (tc_col_name x) (tc_col_name y)"

datatype CompOp = OP_EQ | OP_NE | OP_LT | OP_GT | OP_LE | OP_GE

record Condition =
  lhs_col :: TabCol
  c_op :: CompOp
  is_rhs_val :: bool
  rhs_col :: TabCol
  rhs_val :: Value

fun comp_test :: "CompOp \<Rightarrow> val \<Rightarrow> val \<Rightarrow> bool" where
  "comp_test OP_EQ a b = val_eq a b"
| "comp_test OP_NE a b = val_ne a b"
| "comp_test OP_LT a b = val_lt a b"
| "comp_test OP_GT a b = val_gt a b"
| "comp_test OP_LE a b = val_le a b"
| "comp_test OP_GE a b = val_ge a b"

definition test_record :: "Condition \<Rightarrow> ColMeta list \<Rightarrow> bytes \<Rightarrow> exc + bool" where
  "test_record c cols rec =
     andThen (find_from_cols cols (tc_col_name (lhs_col c))) (\<lambda>l.
     andThen (if \<not> is_rhs_val c
              then andThen (find_from_cols cols (tc_col_name (rhs_col c))) (\<lambda>r. Inr (read_from_record rec r))
              else Inr (v_val (rhs_val c))) (\<lambda>b.
     Inr (comp_test (c_op c) (read_from_record rec l) b)))"

definition test_join_record :: "Condition \<Rightarrow> ColMeta list \<Rightarrow> bytes \<Rightarrow> ColMeta list \<Rightarrow> bytes \<Rightarrow> exc + bool" where
  "test_join_record c left_cols left_rec right_cols right_rec =
     (if is_rhs_val c then test_record c left_cols left_rec
      else
        andThen (find_from_cols right_cols (tc_col_name (rhs_col c))) (\<lambda>r.
        andThen (find_from_cols left_cols (tc_col_name (lhs_col c))) (\<lambda>l.
        Inr (comp_test (c_op c) (read_from_record left_rec l) (read_from_record right_rec r)))))"

record SetClause =
  set_lhs :: TabCol
  set_rhs :: Value
  set_op :: char

record OrderByCaluse =
  orderby_pair :: "(TabCol \<times> bool) list"

record LimitClause =
  limit_val :: int

definition type_compatible :: "ColType \<Rightarrow> ColType \<Rightarrow> bool" where
  "type_compatible a b \<longleftrightarrow>
     (a = TYPE_INT \<or> a = TYPE_FLOAT \<or> a = TYPE_BIGINT) \<and> (b = TYPE_INT \<or> b = TYPE_FLOAT \<or> b = TYPE_BIGINT)
     \<or> (a = TYPE_STRING \<or> a = TYPE_DATETIME) \<and> (b = TYPE_STRING \<or> b = TYPE_DATETIME)"

end
