(* ===== verification/Sm_Meta_Text.thy ===== *)
theory Sm_Meta_Text
  imports Sm_Meta
begin

text \<open>
  Writing the catalogue and reading it back. Every reader of \<^verbatim>\<open>sm_meta.h\<close> is shown to undo its
  writer up to white space; the locale \<open>text_format\<close> carries this contract from an element to the
  lists of elements that tables, indexes and the database contain.
\<close>

section \<open>Readers up to white space\<close>

definition spaces :: "string \<Rightarrow> bool" where "spaces s \<longleftrightarrow> list_all is_space s"

definition stops :: "string \<Rightarrow> bool" where "stops s \<longleftrightarrow> s = [] \<or> is_space (hd s)"

definition gives :: "('a \<times> string) option \<Rightarrow> 'a \<Rightarrow> string \<Rightarrow> bool" where
  "gives r v rest \<longleftrightarrow> (\<exists>w. spaces w \<and> r = Some (v, w @ rest))"

definition reads :: "'a reader \<Rightarrow> 'a \<Rightarrow> string \<Rightarrow> bool" where
  "reads r v t \<longleftrightarrow> (\<forall>ws rest. spaces ws \<longrightarrow> stops rest \<longrightarrow> gives (r (ws @ t @ rest)) v rest)"

lemma spaces_append [simp]: "spaces (a @ b) \<longleftrightarrow> spaces a \<and> spaces b"
  by (simp add: spaces_def)

lemma spaces_Nil [simp]: "spaces []" and spaces_blank [simp]: "spaces '' ''" and spaces_newline [simp]: "spaces newline"
  by (simp_all add: spaces_def is_space_def newline_def)

lemma stops_Nil [simp]: "stops []" and stops_blank [simp]: "stops ('' '' @ s)" and stops_newline [simp]: "stops (newline @ s)"
  by (simp_all add: stops_def is_space_def newline_def)

lemma stops_space: "spaces w \<Longrightarrow> stops rest \<Longrightarrow> stops (w @ rest)"
  by (cases w) (auto simp: stops_def spaces_def)

lemma gives_return: "spaces w \<Longrightarrow> gives (returnR v (w @ rest)) v rest"
  by (auto simp: gives_def returnR_def)

lemma reads_bind:
  assumes "reads r v t" "spaces ws" "stops rest" "\<And>w. spaces w \<Longrightarrow> gives (f v (w @ rest)) x rest'"
  shows "gives (bindR r f (ws @ t @ rest)) x rest'"
  using assms unfolding reads_def gives_def [of "r _"] by (fastforce simp: bindR_def)

text \<open>The same after a separator.\<close>

lemma reads_bind_sep:
  assumes "reads r v t" "spaces ws" "spaces sep" "stops rest" "\<And>w. spaces w \<Longrightarrow> gives (f v (w @ rest)) x rest'"
  shows "gives (bindR r f (ws @ sep @ t @ rest)) x rest'"
  using reads_bind [of r v t "ws @ sep" rest f x rest'] assms by simp

lemma readsI: "(\<And>ws rest. spaces ws \<Longrightarrow> stops rest \<Longrightarrow> gives (r (ws @ t @ rest)) v rest) \<Longrightarrow> reads r v t"
  by (simp add: reads_def)

lemma dropWhile_spaces: "spaces ws \<Longrightarrow> dropWhile is_space (ws @ t) = dropWhile is_space t"
  by (induction ws) (auto simp: spaces_def)

section \<open>Words and numbers\<close>

text \<open>A name that survives the text form: not empty, without white space.\<close>

definition word_ok :: "string \<Rightarrow> bool" where
  "word_ok s \<longleftrightarrow> s \<noteq> [] \<and> list_all (\<lambda>c. \<not> is_space c) s"

lemma reads_string: "word_ok s \<Longrightarrow> reads read_string s s"
proof (rule readsI)
  fix ws rest assume w: "word_ok s" and ws: "spaces ws" and st: "stops rest"
  have d: "dropWhile is_space (s @ rest) = s @ rest" using w by (cases s) (auto simp: word_ok_def)
  have "takeWhile (\<lambda>c. \<not> is_space c) (s @ rest) = s @ takeWhile (\<lambda>c. \<not> is_space c) rest"
    using w by (intro takeWhile_append2) (auto simp: word_ok_def list_all_iff)
  also have "takeWhile (\<lambda>c. \<not> is_space c) rest = []" using st by (cases rest) (auto simp: stops_def)
  finally show "gives (read_string (ws @ s @ rest)) s rest"
    using w ws d by (auto simp: read_string_def dropWhile_spaces gives_def word_ok_def)
qed

lemma digit_char_digit: "d < 10 \<Longrightarrow> is_digit (digit_char d) \<and> (of_char (digit_char d) :: nat) - 48 = d"
  by (simp add: is_digit_def)

lemma digits_val_snoc: "digits_val (ds @ [c]) = 10 * digits_val ds + (of_char c - 48)"
  by (simp add: digits_val_def)

lemma nat_to_string_spec: "nat_to_string n \<noteq> [] \<and> list_all is_digit (nat_to_string n) \<and> digits_val (nat_to_string n) = n"
proof (induction n rule: nat_to_string.induct)
  case (1 n)
  show ?case
  proof (cases "n < 10")
    case True
    then show ?thesis using digit_char_digit [of n] nat_to_string.simps [of n] by (simp add: digits_val_def del: digit_char.simps)
  next
    case False
    then have "nat_to_string n = nat_to_string (n div 10) @ [digit_char (n mod 10)]"
      by (subst nat_to_string.simps) simp
    then show ?thesis using 1 [OF False] digit_char_digit [of "n mod 10"]
      by (simp add: digits_val_snoc del: digit_char.simps)
  qed
qed

lemma digit_not_special: "is_digit c \<Longrightarrow> \<not> is_space c \<and> c \<noteq> CHR ''-'' \<and> c \<noteq> CHR ''+''"
  by (auto simp: is_digit_def is_space_def)

lemma space_not_digit: "is_space c \<Longrightarrow> \<not> is_digit c"
  by (auto simp: is_digit_def is_space_def)

lemma takeWhile_digits:
  assumes "list_all is_digit ds" "stops rest"
  shows "takeWhile is_digit (ds @ rest) = ds"
proof -
  have "takeWhile is_digit (ds @ rest) = ds @ takeWhile is_digit rest"
    using assms(1) by (intro takeWhile_append2) (auto simp: list_all_iff)
  moreover have "takeWhile is_digit rest = []" using assms(2) space_not_digit by (cases rest) (auto simp: stops_def)
  ultimately show ?thesis by simp
qed

lemma reads_num:
  assumes "lo \<le> v" "v \<le> hi"
  shows "reads (read_num lo hi) v (to_string v)"
proof (rule readsI)
  fix ws rest assume ws: "spaces ws" and st: "stops rest"
  define ds where "ds = nat_to_string (nat \<bar>v\<bar>)"
  have ds: "ds \<noteq> []" "list_all is_digit ds" "digits_val ds = nat \<bar>v\<bar>"
    unfolding ds_def using nat_to_string_spec by auto
  have hd: "is_digit (hd ds)" using ds by (cases ds) auto
  have tw: "takeWhile is_digit (ds @ rest) = ds" using ds(2) st by (rule takeWhile_digits)
  have str: "to_string v = (if v < 0 then CHR ''-'' # ds else ds)" by (simp add: to_string_def ds_def)
  have drop: "dropWhile is_space (ws @ to_string v @ rest) = to_string v @ rest"
    unfolding dropWhile_spaces [OF ws] using digit_not_special [OF hd] ds(1)
    by (cases ds) (auto simp: str is_space_def)
  have "read_num lo hi (ws @ to_string v @ rest) = Some (v, rest)"
  proof (cases "v < 0")
    case True
    then show ?thesis using assms ds(1,3) tw unfolding read_num_def Let_def drop by (simp add: str)
  next
    case False
    have "hd (ds @ rest) = hd ds" using ds(1) by simp
    then show ?thesis using False assms ds(1,3) tw digit_not_special [OF hd] unfolding read_num_def Let_def drop by (simp add: str)
  qed
  then show "gives (read_num lo hi (ws @ to_string v @ rest)) v rest" by (simp add: gives_def exI [of _ "[]"])
qed

lemma reads_int: "in_i32 v \<Longrightarrow> reads read_int v (to_string v)"
  unfolding read_int_def by (rule reads_num) (auto simp: in_i32_def)

lemma reads_size: "n < 2 ^ 64 \<Longrightarrow> reads read_size (int n) (to_string (int n))"
  unfolding read_size_def by (rule reads_num) auto

section \<open>Lists of elements\<close>

locale text_format =
  fixes wr :: "'a \<Rightarrow> string" and rd :: "'a reader" and ok :: "'a \<Rightarrow> bool"
  assumes reads_one: "ok v \<Longrightarrow> reads rd v (wr v)"
begin

lemma lines_after:
  "list_all ok vs \<Longrightarrow> spaces ws \<Longrightarrow>
   gives (read_list rd (length vs) (ws @ concat (map (\<lambda>v. wr v @ newline) vs) @ rest)) vs rest"
proof (induction vs arbitrary: ws)
  case Nil
  then show ?case by (simp add: gives_return)
next
  case (Cons v vs)
  have r: "reads rd v (wr v)" using Cons.prems reads_one by simp
  show ?case
    using Cons.prems(2)
  proof (simp, rule reads_bind [OF r])
    fix w assume w: "spaces w"
    let ?more = "concat (map (\<lambda>v. wr v @ newline) vs) @ rest"
    have "gives (read_list rd (length vs) ((w @ newline) @ ?more)) vs rest"
      using Cons.prems w by (intro Cons.IH) auto
    then obtain w' where w': "spaces w'" "read_list rd (length vs) (w @ newline @ ?more) = Some (vs, w' @ rest)"
      by (auto simp: gives_def)
    then show "gives (bindR (read_list rd (length vs)) (\<lambda>xs. returnR (v # xs)) (w @ newline @ ?more)) (v # vs) rest"
      by (auto simp: gives_def bindR_def returnR_def)
  qed simp_all
qed

lemma lines_before:
  "list_all ok vs \<Longrightarrow> spaces ws \<Longrightarrow> stops rest \<Longrightarrow>
   gives (read_list rd (length vs) (ws @ concat (map (\<lambda>v. newline @ wr v) vs) @ rest)) vs rest"
proof (induction vs arbitrary: ws)
  case Nil
  then show ?case by (simp add: gives_return)
next
  case (Cons v vs)
  have r: "reads rd v (wr v)" using Cons.prems reads_one by simp
  let ?more = "concat (map (\<lambda>v. newline @ wr v) vs) @ rest"
  have st: "stops ?more" using Cons.prems(3) by (cases vs) simp_all
  show ?case
    using Cons.prems(2)
  proof (simp, intro reads_bind_sep [OF r _ _ st])
    fix w assume w: "spaces w"
    have "gives (read_list rd (length vs) (w @ ?more)) vs rest"
      using Cons.prems w by (intro Cons.IH) auto
    then obtain w' where "spaces w'" "read_list rd (length vs) (w @ ?more) = Some (vs, w' @ rest)"
      by (auto simp: gives_def)
    then show "gives (bindR (read_list rd (length vs)) (\<lambda>xs. returnR (v # xs)) (w @ ?more)) (v # vs) rest"
      by (auto simp: gives_def bindR_def returnR_def)
  qed simp_all
qed

end

section \<open>Columns, indexes and tables\<close>

definition col_text_ok :: "ColMeta \<Rightarrow> bool" where
  "col_text_ok c \<longleftrightarrow> word_ok (cm_tab_name c) \<and> word_ok (cm_name c) \<and> in_i32 (cm_len c) \<and> in_i32 (cm_offset c)"

lemma reads_ColType: "reads read_ColType t (to_string (coltype_code t))"
proof (rule readsI)
  fix ws rest assume "spaces ws" "stops rest"
  moreover have "in_i32 (coltype_code t)" by (cases t) (auto simp: in_i32_def)
  ultimately have "gives (read_int (ws @ to_string (coltype_code t) @ rest)) (coltype_code t) rest"
    using reads_int by (auto simp: reads_def)
  then show "gives (read_ColType (ws @ to_string (coltype_code t) @ rest)) t rest"
    by (auto simp: gives_def read_ColType_def bindR_def)
qed

lemma to_string_digit: "to_string 0 = ''0''" "to_string 1 = ''1''"
  by code_simp+

lemma reads_bool: "reads read_bool b (show_bool b)"
proof (rule readsI)
  fix ws rest assume "spaces ws" "stops rest"
  moreover have "show_bool b = to_string (if b then 1 else 0)" by (simp add: show_bool_def to_string_digit)
  ultimately have "gives (read_num 0 1 (ws @ show_bool b @ rest)) (if b then 1 else 0) rest"
    using reads_num [of 0 "if b then 1 else 0" 1] by (auto simp: reads_def)
  then show "gives (read_bool (ws @ show_bool b @ rest)) b rest"
    by (auto simp: gives_def read_bool_def bindR_def returnR_def split: if_splits)
qed

lemma reads_ColMeta:
  assumes "col_text_ok c"
  shows "reads read_ColMeta c (show_ColMeta c)"
proof (rule readsI)
  fix ws rest assume ws: "spaces ws" and st: "stops rest"
  have w: "word_ok (cm_tab_name c)" "word_ok (cm_name c)" "in_i32 (cm_len c)" "in_i32 (cm_offset c)"
    using assms by (auto simp: col_text_ok_def)
  have "gives (read_ColMeta (ws @ show_ColMeta c @ rest))
      \<lparr>cm_tab_name = cm_tab_name c, cm_name = cm_name c, cm_type = cm_type c, cm_len = cm_len c,
       cm_offset = cm_offset c, cm_index = cm_index c\<rparr> rest"
    unfolding show_ColMeta_def read_ColMeta_def append_assoc
    by (rule reads_bind [OF reads_string [OF w(1)] ws], simp only: stops_blank,
        rule reads_bind_sep [OF reads_string [OF w(2)] _ spaces_blank], assumption, simp only: stops_blank,
        rule reads_bind_sep [OF reads_ColType _ spaces_blank], assumption, simp only: stops_blank,
        rule reads_bind_sep [OF reads_int [OF w(3)] _ spaces_blank], assumption, simp only: stops_blank,
        rule reads_bind_sep [OF reads_int [OF w(4)] _ spaces_blank], assumption, simp only: stops_blank,
        rule reads_bind_sep [OF reads_bool _ spaces_blank st], assumption, rule gives_return)
  then show "gives (read_ColMeta (ws @ show_ColMeta c @ rest)) c rest" by (cases c) simp
qed

interpretation col_text: text_format show_ColMeta read_ColMeta col_text_ok
  by unfold_locales (rule reads_ColMeta)

definition index_text_ok :: "IndexMeta \<Rightarrow> bool" where
  "index_text_ok m \<longleftrightarrow> word_ok (im_tab_name m) \<and> in_i32 (im_col_tot_len m) \<and> in_i32 (im_col_num m)
     \<and> im_col_num m = int (length (im_cols m)) \<and> list_all col_text_ok (im_cols m)"

text \<open>The last reader of a record: its result is put together and returned.\<close>

lemma gives_last:
  assumes "gives (r s) v rest"
  shows "gives (bindR r (\<lambda>x. returnR (f x)) s) (f v) rest"
  using assms by (auto simp: gives_def bindR_def returnR_def)

lemma reads_IndexMeta:
  assumes m: "index_text_ok m"
  shows "reads read_IndexMeta m (show_IndexMeta m)"
proof (rule readsI)
  fix ws rest assume ws: "spaces ws" and st: "stops rest"
  have w: "word_ok (im_tab_name m)" "in_i32 (im_col_tot_len m)" "in_i32 (im_col_num m)" "nat (im_col_num m) = length (im_cols m)"
    "list_all col_text_ok (im_cols m)"
    using m by (auto simp: index_text_ok_def)
  let ?cols = "concat (map (\<lambda>c. newline @ show_ColMeta c) (im_cols m))"
  have st': "stops (?cols @ rest)" using st by (cases "im_cols m") simp_all
  have last: "gives (bindR (read_list read_ColMeta (nat (im_col_num m))) (\<lambda>cols.
       returnR \<lparr>im_tab_name = im_tab_name m, im_col_tot_len = im_col_tot_len m, im_col_num = im_col_num m, im_cols = cols\<rparr>)
       (w @ ?cols @ rest))
      \<lparr>im_tab_name = im_tab_name m, im_col_tot_len = im_col_tot_len m, im_col_num = im_col_num m, im_cols = im_cols m\<rparr> rest"
    if "spaces w" for w
    unfolding w(4) by (rule gives_last) (rule col_text.lines_before [OF w(5) that st])
  have "gives (read_IndexMeta (ws @ show_IndexMeta m @ rest))
      \<lparr>im_tab_name = im_tab_name m, im_col_tot_len = im_col_tot_len m, im_col_num = im_col_num m, im_cols = im_cols m\<rparr> rest"
    unfolding show_IndexMeta_def read_IndexMeta_def append_assoc
    by (rule reads_bind [OF reads_string [OF w(1)] ws], simp only: stops_blank,
        rule reads_bind_sep [OF reads_int [OF w(2)] _ spaces_blank], assumption, simp only: stops_blank,
        rule reads_bind_sep [OF reads_int [OF w(3)] _ spaces_blank st'], assumption, rule last)
  then show "gives (read_IndexMeta (ws @ show_IndexMeta m @ rest)) m rest" by (cases m) simp
qed

interpretation index_text: text_format show_IndexMeta read_IndexMeta index_text_ok
  by unfold_locales (rule reads_IndexMeta)

definition tab_text_ok :: "TabMeta \<Rightarrow> bool" where
  "tab_text_ok t \<longleftrightarrow> word_ok (tm_name t) \<and> length (tm_cols t) < 2 ^ 64 \<and> length (tm_indexes t) < 2 ^ 64
     \<and> list_all col_text_ok (tm_cols t) \<and> list_all index_text_ok (tm_indexes t)"

lemma reads_TabMeta:
  assumes t: "tab_text_ok t"
  shows "reads read_TabMeta t (show_TabMeta t)"
proof (rule readsI)
  fix ws rest assume ws: "spaces ws" and st: "stops rest"
  have w: "word_ok (tm_name t)" "length (tm_cols t) < 2 ^ 64" "length (tm_indexes t) < 2 ^ 64"
    "list_all col_text_ok (tm_cols t)" "list_all index_text_ok (tm_indexes t)"
    using t by (auto simp: tab_text_ok_def)
  let ?cols = "concat (map (\<lambda>c. show_ColMeta c @ newline) (tm_cols t))"
    and ?ixs = "concat (map (\<lambda>m. show_IndexMeta m @ newline) (tm_indexes t))"
    and ?n = "to_string (int (length (tm_indexes t)))"
  have ixs: "gives (bindR (read_list read_IndexMeta (nat (int (length (tm_indexes t))))) (\<lambda>ixs.
       returnR \<lparr>tm_name = tm_name t, tm_cols = tm_cols t, tm_indexes = ixs\<rparr>) (w @ newline @ ?ixs @ rest))
      \<lparr>tm_name = tm_name t, tm_cols = tm_cols t, tm_indexes = tm_indexes t\<rparr> rest" if "spaces w" for w
    unfolding nat_int using index_text.lines_after [OF w(5), of "w @ newline" rest] that
    by (intro gives_last) simp
  have cols: "gives (bindR (read_list read_ColMeta (nat (int (length (tm_cols t))))) (\<lambda>cols.
       bindR read_size (\<lambda>m. bindR (read_list read_IndexMeta (nat m)) (\<lambda>ixs.
       returnR \<lparr>tm_name = tm_name t, tm_cols = cols, tm_indexes = ixs\<rparr>))) (w @ newline @ ?cols @ ?n @ newline @ ?ixs @ rest))
      \<lparr>tm_name = tm_name t, tm_cols = tm_cols t, tm_indexes = tm_indexes t\<rparr> rest" if sw: "spaces w" for w
  proof -
    obtain w' where w': "spaces w'"
      "read_list read_ColMeta (length (tm_cols t)) (w @ newline @ ?cols @ ?n @ newline @ ?ixs @ rest) = Some (tm_cols t, w' @ ?n @ newline @ ?ixs @ rest)"
      using col_text.lines_after [OF w(4), of "w @ newline" "?n @ newline @ ?ixs @ rest"] sw by (auto simp: gives_def)
    show ?thesis
      unfolding nat_int bindR_def [of "read_list read_ColMeta _"] w'(2) option.case prod.case
      by (rule reads_bind [OF reads_size [OF w(3)] w'(1) stops_newline], rule ixs)
  qed
  have "gives (read_TabMeta (ws @ show_TabMeta t @ rest))
      \<lparr>tm_name = tm_name t, tm_cols = tm_cols t, tm_indexes = tm_indexes t\<rparr> rest"
    unfolding show_TabMeta_def read_TabMeta_def append_assoc
    by (rule reads_bind [OF reads_string [OF w(1)] ws stops_newline],
        rule reads_bind_sep [OF reads_size [OF w(2)] _ spaces_newline stops_newline], assumption, rule cols)
  then show "gives (read_TabMeta (ws @ show_TabMeta t @ rest)) t rest" by (cases t) simp
qed

interpretation tab_text: text_format show_TabMeta read_TabMeta tab_text_ok
  by unfold_locales (rule reads_TabMeta)

section \<open>The database\<close>

text \<open>What \<^verbatim>\<open>std::map\<close> keeps: entries in strictly increasing order of their keys, each under its table's name.\<close>

definition db_ok :: "DbMeta \<Rightarrow> bool" where
  "db_ok d \<longleftrightarrow> word_ok (db_name d) \<and> length (db_tabs d) < 2 ^ 64 \<and> sorted_wrt str_less (map fst (db_tabs d))
     \<and> list_all (\<lambda>e. fst e = tm_name (snd e) \<and> tab_text_ok (snd e)) (db_tabs d)"

lemma str_less_irrefl [simp]: "\<not> str_less a a"
  by (induction a) auto

lemma str_less_asym: "str_less a b \<Longrightarrow> \<not> str_less b a"
  by (induction a b rule: str_less.induct) (auto split: if_splits)

lemma map_put_last: "list_all (\<lambda>e. str_less (fst e) k) m \<Longrightarrow> map_put k v m = m @ [(k, v)]"
  by (induction m) (auto dest: str_less_asym)

lemma foldl_map_put:
  "sorted_wrt str_less (map fst m @ map tm_name ts) \<Longrightarrow>
   foldl (\<lambda>m t. map_put (tm_name t) t m) m ts = m @ map (\<lambda>t. (tm_name t, t)) ts"
proof (induction ts arbitrary: m)
  case (Cons t ts)
  have "list_all (\<lambda>e. str_less (fst e) (tm_name t)) m"
    using Cons.prems by (auto simp: sorted_wrt_append list_all_iff)
  then have "map_put (tm_name t) t m = m @ [(tm_name t, t)]" by (rule map_put_last)
  then show ?case using Cons.IH [of "m @ [(tm_name t, t)]"] Cons.prems by simp
qed simp

lemma read_show_DbMeta:
  assumes d: "db_ok d"
  shows "gives (read_DbMeta (show_DbMeta d)) d []"
proof -
  let ?ts = "map snd (db_tabs d)"
  have w: "word_ok (db_name d)" "length (db_tabs d) < 2 ^ 64" "list_all tab_text_ok ?ts"
    using d by (auto simp: db_ok_def list_all_iff)
  have keys: "map fst (db_tabs d) = map tm_name ?ts" "map (\<lambda>t. (tm_name t, t)) ?ts = db_tabs d"
    using d by (auto simp: db_ok_def list_all_iff intro!: map_idI nth_equalityI)
  have tabs: "foldl (\<lambda>m t. map_put (tm_name t) t m) [] ?ts = db_tabs d"
    using foldl_map_put [of "[]" ?ts] d keys by (simp add: db_ok_def)
  let ?txt = "concat (map (\<lambda>e. show_TabMeta (snd e) @ newline) (db_tabs d))"
  have shown: "?txt = concat (map (\<lambda>t. show_TabMeta t @ newline) ?ts)" by (simp add: comp_def)
  have last: "gives (bindR (read_list read_TabMeta (nat (int (length (db_tabs d))))) (\<lambda>tabs.
      returnR \<lparr>db_name = db_name d, db_tabs = foldl (\<lambda>m t. map_put (tm_name t) t m) [] tabs\<rparr>) (w @ newline @ ?txt))
      \<lparr>db_name = db_name d, db_tabs = foldl (\<lambda>m t. map_put (tm_name t) t m) [] ?ts\<rparr> []" if "spaces w" for w
    unfolding nat_int shown using tab_text.lines_after [OF w(3), of "w @ newline" "[]"] that
    by (intro gives_last) simp
  have "gives (read_DbMeta ([] @ show_DbMeta d))
      \<lparr>db_name = db_name d, db_tabs = foldl (\<lambda>m t. map_put (tm_name t) t m) [] ?ts\<rparr> []"
    unfolding show_DbMeta_def read_DbMeta_def append_assoc
    by (rule reads_bind [OF reads_string [OF w(1)] spaces_Nil stops_newline],
        rule reads_bind_sep [OF reads_size [OF w(2)] _ spaces_newline stops_newline], assumption, rule last)
  then show ?thesis unfolding tabs by (cases d) simp
qed

text \<open>A catalogue with one table of two columns and one index.\<close>

definition demo_col :: "string \<Rightarrow> int \<Rightarrow> ColMeta" where
  "demo_col n off = \<lparr>cm_tab_name = ''t'', cm_name = n, cm_type = TYPE_INT, cm_len = 4, cm_offset = off, cm_index = False\<rparr>"

definition demo_db :: DbMeta where
  "demo_db = \<lparr>db_name = ''d'', db_tabs =
     [(''t'', \<lparr>tm_name = ''t'', tm_cols = [demo_col ''a'' 0, demo_col ''b'' 4],
               tm_indexes = [\<lparr>im_tab_name = ''t'', im_col_tot_len = 4, im_col_num = 1, im_cols = [demo_col ''b'' 4]\<rparr>]\<rparr>)]\<rparr>"

text \<open>
  C20: reading the text that the stream operators write gives the catalogue back. For a catalogue as
  \<^verbatim>\<open>std::map\<close> keeps it (tables in strictly increasing order of their names), whose names are not
  empty and contain no white space, whose lengths and offsets are 32-bit integers and whose indexes
  list \<^verbatim>\<open>col_num\<close> columns, \<^verbatim>\<open>operator>>\<close> of \<^verbatim>\<open>DbMeta\<close> applied to the output of \<^verbatim>\<open>operator<<\<close> yields the
  same catalogue, and only white space is left over.
\<close>

theorem catalogue_text_roundtrip:
  assumes "db_ok d"
  shows "\<exists>w. spaces w \<and> read_DbMeta (show_DbMeta d) = Some (d, w)"
  using read_show_DbMeta [OF assms] by (simp add: gives_def)

theorem catalogue_text_roundtrip_witness:
  "db_ok demo_db \<and> (\<exists>w. spaces w \<and> read_DbMeta (show_DbMeta demo_db) = Some (demo_db, w))"
proof -
  have "db_ok demo_db"
    by (simp add: db_ok_def demo_db_def demo_col_def tab_text_ok_def col_text_ok_def index_text_ok_def word_ok_def
        is_space_def in_i32_def)
  then show ?thesis using catalogue_text_roundtrip by blast
qed

end
