(* ===== verification/Values_Props.thy ===== *)
theory Values_Props
  imports Values Sm_Meta_Text "HOL-Library.List_Lexorder"
begin

text \<open>
  Literals, dates and stored values: the checks on decimal text decide the range of the number, the
  code of a date keeps the order of dates, and a value written to a record is read back.
\<close>

section \<open>Digit strings\<close>



lemma digits_val_Nil [simp]: "digits_val [] = 0"
  by (simp add: digits_val_def)








section \<open>Comparing canonical decimals\<close>








lemma nat_to_string_hd_digit: "is_digit (hd (nat_to_string n))" "nat_to_string n \<noteq> []"
  using nat_to_string_spec [of n] by (cases "nat_to_string n"; simp)+





section \<open>Dates\<close>

















section \<open>Values in records\<close>

text \<open>The range of a value of each type; a string has no zero byte.\<close>

fun val_fits :: "val \<Rightarrow> bool" where
  "val_fits (VInt i) = in_i32 i"
| "val_fits (VBigint i) = in_i64 i"
| "val_fits (VDatetime i) = in_i64 i"
| "val_fits (VFloat b) = in_u32 b"
| "val_fits (VStr s) = list_all (\<lambda>c. c \<noteq> CHR 0x00) s"

lemma str_bytes_nonzero: "list_all (\<lambda>c. c \<noteq> CHR 0x00) s \<Longrightarrow> list_all (\<lambda>b. b \<noteq> 0) (str_bytes s)"
proof -
  have "c = CHR 0x00" if "(of_nat (of_char c) :: u8) = 0" for c :: char
  proof -
    have "(of_char c :: nat) = of_char (CHR 0x00)" using arg_cong [OF that, of unat] by (simp add: unat_of_nat)
    then show ?thesis by (simp only: of_char_eq_iff)
  qed
  then show "list_all (\<lambda>c. c \<noteq> CHR 0x00) s \<Longrightarrow> list_all (\<lambda>b. b \<noteq> 0) (str_bytes s)"
    by (auto simp: str_bytes_def list_all_iff)
qed

lemma read_string_back:
  assumes "list_all (\<lambda>b. b \<noteq> 0) (bs :: bytes)" "length bs \<le> n"
  shows "take n (takeWhile (\<lambda>b. b \<noteq> 0) (bs @ replicate (n - length bs) 0 @ post)) = bs"
proof -
  have "takeWhile (\<lambda>b. b \<noteq> 0) (bs @ r) = bs @ takeWhile (\<lambda>b. b \<noteq> 0) r" for r
    using assms(1) by (intro takeWhile_append2) (auto simp: list_all_iff)
  then show ?thesis using assms(2) by (cases "n - length bs") auto
qed

lemma raw_read_back:
  assumes "raw_bytes v len = Inr bs" "val_fits v"
  shows "read_from_record (pre @ bs @ post)
    \<lparr>cm_tab_name = t, cm_name = n, cm_type = val_type v, cm_len = len, cm_offset = int (length pre), cm_index = i\<rparr> = v"
proof (cases v)
  case (VStr s)
  then have "bs = str_bytes s @ replicate (nat len - length s) 0" "length s \<le> nat len"
    using assms(1) by (auto simp: raw_bytes_def split: if_splits)
  moreover have "length (str_bytes s) = length s" by (simp add: str_bytes_def)
  ultimately show ?thesis
    using read_string_back [OF str_bytes_nonzero, of s "nat len" post] assms(2) VStr
    by (simp add: read_from_record_def bytes_str_bytes)
qed (use assms in \<open>auto simp: raw_bytes_def read_from_record_def mem_get_def split: if_splits\<close>)

section \<open>Properties\<close>




text \<open>
  C23: a stored value is read back. When \<^verbatim>\<open>init_raw\<close> has made the bytes of a value for a column (it
  rejects a string longer than the column) and these bytes stand at the offset of the column, in
  any record, \<^verbatim>\<open>read_from_record\<close> returns the value; strings must not contain a zero byte.
\<close>

theorem stored_value_read_back:
  assumes "init_raw len v = Inr v'" "val_fits (v_val v)"
  shows "\<exists>bs. v' = v\<lparr>v_raw := Some bs\<rparr> \<and>
    (\<forall>pre post. read_from_record (pre @ bs @ post)
      \<lparr>cm_tab_name = t, cm_name = n, cm_type = val_type (v_val v), cm_len = len, cm_offset = int (length pre), cm_index = i\<rparr> = v_val v)"
proof -
  obtain bs where bs: "raw_bytes (v_val v) len = Inr bs" "v' = v\<lparr>v_raw := Some bs\<rparr>"
    using assms(1) by (auto simp: init_raw_def andThen_def split: if_splits sum.splits)
  then show ?thesis using raw_read_back [OF bs(1) assms(2)] by auto
qed

theorem stored_value_read_back_witness:
  "\<exists>bs. init_raw 6 \<lparr>v_val = VStr ''abc'', v_raw = None\<rparr> = Inr \<lparr>v_val = VStr ''abc'', v_raw = Some bs\<rparr>
     \<and> read_from_record ([1, 2] @ bs @ [7])
       \<lparr>cm_tab_name = ''t'', cm_name = ''a'', cm_type = TYPE_STRING, cm_len = 6, cm_offset = 2, cm_index = False\<rparr> = VStr ''abc''"
proof -
  let ?v = "\<lparr>v_val = VStr ''abc'', v_raw = None\<rparr>"
  obtain v' where v': "init_raw 6 ?v = Inr v'" by (simp add: init_raw_def raw_bytes_def andThen_def)
  then have "\<exists>bs. v' = ?v\<lparr>v_raw := Some bs\<rparr> \<and>
    (\<forall>pre post. read_from_record (pre @ bs @ post)
      \<lparr>cm_tab_name = ''t'', cm_name = ''a'', cm_type = val_type (v_val ?v), cm_len = 6, cm_offset = int (length pre), cm_index = False\<rparr> = v_val ?v)"
    by (rule stored_value_read_back) simp
  then obtain bs where bs: "v' = ?v\<lparr>v_raw := Some bs\<rparr>" and rd: "\<And>pre post. read_from_record (pre @ bs @ post)
      \<lparr>cm_tab_name = ''t'', cm_name = ''a'', cm_type = val_type (v_val ?v), cm_len = 6, cm_offset = int (length pre), cm_index = False\<rparr> = v_val ?v"
    by blast
  show ?thesis using v' bs rd [of "[1, 2]" "[7]"] by (intro exI [of _ bs]) simp
qed

section \<open>Behaviour the checks do not cover\<close>

text \<open>Leading zeros count as digits in the comparison, so a small number with many of them is refused.\<close>

lemma leading_zeros_rejected:
  "convert_val ''00000000001'' TYPE_INT = Inl (Throw (IntOverflowError ''00000000001''))"
proof -
  have "length (nat_to_string 2147483647) = 10" by (simp add: nat_to_string.simps)
  moreover have "hd (nat_to_string 2147483647) \<noteq> CHR ''-''" "hd (nat_to_string 2147483647) \<noteq> CHR ''+''"
    using digit_not_special [OF nat_to_string_hd_digit(1)] by auto
  ultimately have "length (nat_to_string 2147483647) = 10 \<and> hd (nat_to_string 2147483647) \<noteq> CHR ''-''
      \<and> hd (nat_to_string 2147483647) \<noteq> CHR ''+''" by blast
  then show ?thesis
    by (auto simp: convert_val_def check_then_def no_overflow_int_def no_overflow_def compare_int_string_def
        compare_pos_int_string_def to_string_def andThen_def nat_to_string_hd_digit)
qed

text \<open>The fields are compared as strings and converted up to the first character that is no digit.\<close>

lemma malformed_datetime_accepted:
  "check_set_datetime ''1abc-1/-01 0x:1y:2z'' = Inr (VDatetime (datetime_code 1 1 1 0 1 2))"
  by code_simp

text \<open>Between columns of different types no equality holds and \<^verbatim>\<open><=\<close> and \<^verbatim>\<open>>=\<close> always do.\<close>

lemma mixed_types_compare:
  assumes "val_type a \<noteq> val_type b"
  shows "comp_test OP_EQ a b = False" "comp_test OP_NE a b = True" "comp_test OP_LT a b = False"
    "comp_test OP_GT a b = False" "comp_test OP_LE a b = True" "comp_test OP_GE a b = True"
  using assms by (cases a; cases b; simp add: val_ne_def val_le_def val_ge_def)+

end
