(* ===== verification/Sm_Manager.thy ===== *)
theory Sm_Manager
  imports Ix_Manager Lock_Manager Values
begin

text \<open>
  \<^verbatim>\<open>SmManager\<close> of \<^verbatim>\<open>system/sm_manager.{h,cpp}\<close>: databases, tables, indexes and bulk loading. The state
  collects what the managers of one server share. \<^verbatim>\<open>fhs_\<close> and \<^verbatim>\<open>ihs_\<close> map a name to the descriptor and
  the file header of the open handle. A context is the identifier of its transaction, or None for a
  null pointer.

  The latch of the catalogue is part of the state, because an exception can leave it locked: \<open>sy_readers\<close>
  counts the shared locks that are held, and an exclusive request while one is held waits for
  ever (\<^const>\<open>SelfDeadlock\<close>), since no other call can release it.
\<close>

section \<open>State\<close>

record Sys =
  sy_bp :: BufferPool
  sy_db :: DbMeta
  sy_readers :: nat
  sy_fhs :: "string \<rightharpoonup> int \<times> RmFileHdr"
  sy_ihs :: "string \<rightharpoonup> int \<times> IxFileHdr"
  sy_log :: LogManager
  sy_locks :: LockManager
  sy_txns :: "txn_id_t \<rightharpoonup> Transaction"
  sy_next_txn :: txn_id_t
  sy_next_ts :: int
  sy_outer :: "(string \<rightharpoonup> bytes) \<times> string set"

definition in_pool :: "(BufferPool, 'a) stm \<Rightarrow> (Sys, 'a) stm" where
  "in_pool m s = (case m (sy_bp s) of (r, b) \<Rightarrow> (r, s\<lparr>sy_bp := b\<rparr>))"

definition on_disk :: "(DiskManager, 'a) stm \<Rightarrow> (Sys, 'a) stm" where
  "on_disk m = in_pool (lift_disk m)"

definition in_logger :: "(log_state, 'a) stm \<Rightarrow> (Sys, 'a) stm" where
  "in_logger m s =
     (case m (sy_log s, disk (sy_bp s)) of (r, (lm, d)) \<Rightarrow> (r, s\<lparr>sy_log := lm, sy_bp := (sy_bp s)\<lparr>disk := d\<rparr>\<rparr>))"

text \<open>The transaction of a context, and storing it back; without a context no transaction is touched.\<close>

definition no_txn :: Transaction where "no_txn = new_Transaction False 0 0 INVALID_TXN_ID"

definition ctx_txn :: "txn_id_t option \<Rightarrow> Sys \<Rightarrow> Transaction" where
  "ctx_txn c s = (case c of None \<Rightarrow> no_txn | Some i \<Rightarrow> (case sy_txns s i of None \<Rightarrow> no_txn | Some t \<Rightarrow> t))"

definition put_txn :: "txn_id_t option \<Rightarrow> Transaction \<Rightarrow> Sys \<Rightarrow> Sys" where
  "put_txn c t s = (case c of None \<Rightarrow> s | Some i \<Rightarrow> s\<lparr>sy_txns := (sy_txns s)(i \<mapsto> t)\<rparr>)"

definition in_locks :: "txn_id_t option \<Rightarrow> (lock_state, 'a) stm \<Rightarrow> (Sys, 'a) stm" where
  "in_locks c m s = (case m (sy_locks s, ctx_txn c s) of (r, (lm, t)) \<Rightarrow> (r, put_txn c t (s\<lparr>sy_locks := lm\<rparr>)))"

text \<open>A call through \<^verbatim>\<open>fhs_.at(tab)\<close>, one through \<^verbatim>\<open>fhs_[tab]\<close>, and the same for indexes.\<close>

definition at_table :: "txn_id_t option \<Rightarrow> string \<Rightarrow> (int \<Rightarrow> (RmSys, 'a) stm) \<Rightarrow> (Sys, 'a) stm" where
  "at_table c tab m s =
     (case sy_fhs s tab of
        None \<Rightarrow> (Inl OutOfRange, s)
      | Some (fd, h) \<Rightarrow>
          (case m fd \<lparr>rm_bp = sy_bp s, rm_hdr = h, rm_log = sy_log s, rm_txn = ctx_txn c s\<rparr> of
             (r, t) \<Rightarrow> (r, put_txn c (rm_txn t)
               (s\<lparr>sy_bp := rm_bp t, sy_fhs := (sy_fhs s)(tab \<mapsto> (fd, rm_hdr t)), sy_log := rm_log t\<rparr>))))"

definition ref_table :: "txn_id_t option \<Rightarrow> string \<Rightarrow> (int \<Rightarrow> (RmSys, 'a) stm) \<Rightarrow> (Sys, 'a) stm" where
  "ref_table c tab m s = (if sy_fhs s tab = None then (Inl NullDeref, s) else at_table c tab m s)"

definition at_index :: "string \<Rightarrow> (int \<Rightarrow> (IxSys, 'a) stm) \<Rightarrow> (Sys, 'a) stm" where
  "at_index name m s =
     (case sy_ihs s name of
        None \<Rightarrow> (Inl OutOfRange, s)
      | Some (fd, h) \<Rightarrow>
          (case m fd \<lparr>ix_bp = sy_bp s, ix_hdr = h\<rparr> of
             (r, t) \<Rightarrow> (r, s\<lparr>sy_bp := ix_bp t, sy_ihs := (sy_ihs s)(name \<mapsto> (fd, ix_hdr t))\<rparr>)))"

definition ref_index :: "string \<Rightarrow> (int \<Rightarrow> (IxSys, 'a) stm) \<Rightarrow> (Sys, 'a) stm" where
  "ref_index name m s = (if sy_ihs s name = None then (Inl NullDeref, s) else at_index name m s)"

text \<open>\<^verbatim>\<open>DbMeta::RLatch\<close>, \<^verbatim>\<open>RUnLatch\<close>, \<^verbatim>\<open>WLatch\<close>. The exclusive lock is never held across an exception.\<close>

definition RLatch :: "(Sys, unit) stm" where
  "RLatch = modifyE (\<lambda>s. s\<lparr>sy_readers := sy_readers s + 1\<rparr>)"

definition RUnLatch :: "(Sys, unit) stm" where
  "RUnLatch = modifyE (\<lambda>s. s\<lparr>sy_readers := sy_readers s - 1\<rparr>)"

definition WLatch :: "(Sys, unit) stm" where
  "WLatch s = (if sy_readers s = 0 then (Inr (), s) else (Inl SelfDeadlock, s))"

definition try_meta :: "(DbMeta \<Rightarrow> exc + 'a) \<Rightarrow> (Sys, 'a) stm" where
  "try_meta g = bindE (getsE (\<lambda>s. g (sy_db s))) liftR"

section \<open>Databases\<close>

definition DB_META_NAME :: string where "DB_META_NAME = ''db.meta''"

text \<open>
  \<^verbatim>\<open>chdir\<close>: file names are relative to the working directory, so the files of the disk become those
  below the directory; what lies outside is kept in \<open>sy_outer\<close>. No file is open when it is called.
\<close>

definition set_disk :: "(DiskManager \<Rightarrow> DiskManager) \<Rightarrow> (Sys, unit) stm" where
  "set_disk g = on_disk (modifyE g)"

definition sm_chdir :: "string \<Rightarrow> (Sys, unit) stm" where
  "sm_chdir dir s =
     (let d = disk (sy_bp s) in
      if is_dir dir d then
        (Inr (), s\<lparr>sy_outer := (files d, dirs d),
            sy_bp := (sy_bp s)\<lparr>disk := d\<lparr>files := (\<lambda>p. files d (dir @ ''/'' @ p)), dirs := {p. dir @ ''/'' @ p \<in> dirs d}\<rparr>\<rparr>\<rparr>)
      else (Inl (Throw UnixError), s))"

definition sm_chdir_up :: "string \<Rightarrow> (Sys, unit) stm" where
  "sm_chdir_up dir s =
     (let d = disk (sy_bp s); n = length dir + 1; inside = (\<lambda>p. take n p = dir @ ''/'') in
      (Inr (), s\<lparr>sy_bp := (sy_bp s)\<lparr>disk :=
          d\<lparr>files := (\<lambda>p. if inside p then files d (drop n p) else fst (sy_outer s) p),
            dirs := {p. if inside p then drop n p \<in> dirs d else p \<in> snd (sy_outer s)}\<rparr>\<rparr>\<rparr>))"

text \<open>\<^verbatim>\<open>std::ofstream ofs(DB_META_NAME); ofs << db\<close>: the file is emptied and written.\<close>

definition write_meta :: "DbMeta \<Rightarrow> (Sys, unit) stm" where
  "write_meta db = set_disk (\<lambda>d. d\<lparr>files := (files d)(DB_META_NAME \<mapsto> str_bytes (show_DbMeta db))\<rparr>)"

definition flush_meta :: "(Sys, unit) stm" where
  "flush_meta = bindE (getsE sy_db) write_meta"

definition create_db :: "string \<Rightarrow> (Sys, unit) stm" where
  "create_db name =
     bindE (getsE (\<lambda>s. is_dir name (disk (sy_bp s)))) (\<lambda>there.
       if there then throwE (Throw (DatabaseExistsError name))
       else
         bindE (set_disk (create_dir name)) (\<lambda>_.
         bindE (sm_chdir name) (\<lambda>_.
         bindE (write_meta \<lparr>db_name = name, db_tabs = []\<rparr>) (\<lambda>_.
         bindE (on_disk (create_file LOG_FILE_NAME)) (\<lambda>_.
         sm_chdir_up name)))))"

definition drop_db :: "string \<Rightarrow> (Sys, unit) stm" where
  "drop_db name =
     bindE (getsE (\<lambda>s. is_dir name (disk (sy_bp s)))) (\<lambda>there.
       if there then set_disk (destroy_dir name) else throwE (Throw (DatabaseNotFoundError name)))"

text \<open>
  \<^verbatim>\<open>fhs_.emplace(name, open_file(name))\<close>: the argument is evaluated first, and an entry that is there stays.
\<close>

definition open_table :: "string \<Rightarrow> (Sys, unit) stm" where
  "open_table tab =
     bindE (on_disk (rm_open_file tab)) (\<lambda>fh. modifyE (\<lambda>s. s\<lparr>sy_fhs := map_insert tab fh (sy_fhs s)\<rparr>))"

definition open_ih :: "string \<Rightarrow> (Sys, unit) stm" where
  "open_ih name =
     bindE (on_disk (open_index_file name)) (\<lambda>ih. modifyE (\<lambda>s. s\<lparr>sy_ihs := map_insert name ih (sy_ihs s)\<rparr>))"

text \<open>A catalogue file that cannot be read leaves the stream bad; what \<^verbatim>\<open>db_\<close> then holds is not modelled.\<close>

definition open_db :: "string \<Rightarrow> (Sys, unit) stm" where
  "open_db name =
     bindE (getsE (\<lambda>s. is_dir name (disk (sy_bp s)))) (\<lambda>there.
       if \<not> there then throwE (Throw (DatabaseNotFoundError name))
       else
         bindE (sm_chdir name) (\<lambda>_.
         bindE (getsE (\<lambda>s. files (disk (sy_bp s)) DB_META_NAME)) (\<lambda>c.
           case Option.bind c (\<lambda>bs. read_DbMeta (bytes_str bs)) of
             None \<Rightarrow> throwE InvalidArgument
           | Some (db, _) \<Rightarrow>
               bindE (modifyE (\<lambda>s. s\<lparr>sy_db := db\<rparr>)) (\<lambda>_.
               forE (\<lambda>(tab, meta).
                 bindE (open_table tab) (\<lambda>_. forE (\<lambda>m. open_ih (IndexMeta_get_index_name m)) (tm_indexes meta)))
                 (db_tabs db)))))"

text \<open>\<open>tabs\<close> and \<open>ixs\<close> are the orders in which the two hash maps are iterated.\<close>

definition close_db :: "string list \<Rightarrow> string list \<Rightarrow> (Sys, unit) stm" where
  "close_db tabs ixs =
     bindE flush_meta (\<lambda>_.
     bindE (forE (\<lambda>tab. ref_table None tab rm_close_file) tabs) (\<lambda>_.
     forE (\<lambda>name. ref_index name close_index) ixs))"

section \<open>Tables\<close>

record ColDef =
  cd_name :: string
  cd_type :: ColType
  cd_len :: int

fun layout_cols :: "string \<Rightarrow> int \<Rightarrow> ColDef list \<Rightarrow> ColMeta list \<times> int" where
  "layout_cols tab off [] = ([], off)"
| "layout_cols tab off (c # cs) =
     (case layout_cols tab (off + cd_len c) cs of
        (ms, tot) \<Rightarrow> (\<lparr>cm_tab_name = tab, cm_name = cd_name c, cm_type = cd_type c, cm_len = cd_len c,
                      cm_offset = off, cm_index = False\<rparr> # ms, tot))"

definition set_tab :: "string \<Rightarrow> TabMeta \<Rightarrow> (Sys, unit) stm" where
  "set_tab tab m = modifyE (\<lambda>s. s\<lparr>sy_db := (sy_db s)\<lparr>db_tabs := map_put tab m (db_tabs (sy_db s))\<rparr>\<rparr>)"

definition create_table :: "string \<Rightarrow> ColDef list \<Rightarrow> (Sys, unit) stm" where
  "create_table tab defs =
     bindE (getsE (\<lambda>s. is_table (sy_db s) tab)) (\<lambda>there.
       if there then throwE (Throw (TableExistsError tab))
       else
         (case layout_cols tab 0 defs of
            (cols, curr_offset) \<Rightarrow>
              bindE (on_disk (rm_create_file tab curr_offset)) (\<lambda>_.
              bindE WLatch (\<lambda>_.
              bindE (set_tab tab \<lparr>tm_name = tab, tm_cols = cols, tm_indexes = []\<rparr>) (\<lambda>_.
              bindE flush_meta (\<lambda>_.
              open_table tab))))))"

section \<open>Indexes\<close>

text \<open>
  The index handle being filled shares the buffer pool with the table. \<open>k\<close> bounds the number of records and \<open>n\<close>
  the number of levels of the tree.
\<close>

definition fill_index :: "nat \<Rightarrow> nat \<Rightarrow> string \<Rightarrow> string \<Rightarrow> ColMeta list \<Rightarrow> (Sys, unit) stm" where
  "fill_index k n tab name cols s =
     (case (sy_fhs s tab, sy_ihs s name) of
        (Some (fd, h), Some (ifd, ih)) \<Rightarrow>
          (case init_tree k n fd ifd cols (\<lparr>rm_bp = sy_bp s, rm_hdr = h, rm_log = sy_log s, rm_txn = no_txn\<rparr>, ih) of
             (r, (t, ih')) \<Rightarrow> (r, s\<lparr>sy_bp := rm_bp t, sy_fhs := (sy_fhs s)(tab \<mapsto> (fd, rm_hdr t)),
                                  sy_ihs := (sy_ihs s)(name \<mapsto> (ifd, ih')), sy_log := rm_log t\<rparr>))
      | _ \<Rightarrow> (Inl OutOfRange, s))"

text \<open>An exception of \<^verbatim>\<open>get_table\<close> or \<^verbatim>\<open>get_col\<close> leaves the shared latch held.\<close>

definition sm_create_index ::
  "nat \<Rightarrow> nat \<Rightarrow> string \<Rightarrow> string list \<Rightarrow> txn_id_t option \<Rightarrow> (Sys, unit) stm" where
  "sm_create_index k n tab names ctx =
     bindE (getsE (\<lambda>s. is_table (sy_db s) tab)) (\<lambda>there.
       if \<not> there then throwE (Throw (TableNotFoundError tab)) else
     bindE (getsE (\<lambda>s. ix_exists tab names (disk (sy_bp s)))) (\<lambda>ex.
       if ex then throwE (Throw (IndexExistsError tab names)) else
     bindE RLatch (\<lambda>_.
     bindE (try_meta (\<lambda>db. get_table db tab)) (\<lambda>t.
     bindE (mapME (\<lambda>c. liftR (get_col t c)) names) (\<lambda>cols.
     bindE RUnLatch (\<lambda>_.
       if cols_tot_len cols > IX_MAX_COL_LEN then throwE (Throw (InvalidColLengthError (cols_tot_len cols))) else
     let idx = \<lparr>im_tab_name = tab, im_col_tot_len = cols_tot_len cols, im_col_num = int (length names), im_cols = cols\<rparr> in
     bindE WLatch (\<lambda>_.
     bindE (set_tab tab (t\<lparr>tm_indexes := tm_indexes t @ [idx]\<rparr>)) (\<lambda>_.
     bindE flush_meta (\<lambda>_.
     bindE (in_pool (create_index tab cols)) (\<lambda>_.
     bindE (open_ih (get_index_name tab names)) (\<lambda>_.
     bindE (if ctx \<noteq> None
            then bindE (on_disk (get_file_fd tab)) (\<lambda>fd. bindE (in_locks ctx (lock_shared_on_table fd)) (\<lambda>_. returnE ()))
            else returnE ()) (\<lambda>_.
     fill_index k n tab (get_index_name tab names) cols))))))))))))"

text \<open>The search of \<^verbatim>\<open>drop_index\<close> for the index on exactly these columns, in this order.\<close>

fun erase_index :: "string list \<Rightarrow> IndexMeta list \<Rightarrow> bool \<times> IndexMeta list" where
  "erase_index names [] = (False, [])"
| "erase_index names (m # ms) =
     (if map cm_name (im_cols m) = names then (True, ms)
      else (case erase_index names ms of (found, ms') \<Rightarrow> (found, m # ms')))"

definition drop_index :: "string \<Rightarrow> string list \<Rightarrow> (Sys, unit) stm" where
  "drop_index tab names =
     (let name = get_index_name tab names in
     bindE (getsE (\<lambda>s. is_table (sy_db s) tab)) (\<lambda>there.
       if \<not> there then throwE (Throw (TableNotFoundError tab)) else
     bindE (getsE (\<lambda>s. is_file name (disk (sy_bp s)))) (\<lambda>ex.
       if \<not> ex then throwE (Throw (FileNotFoundError name)) else
     bindE WLatch (\<lambda>_.
     bindE (try_meta (\<lambda>db. get_table db tab)) (\<lambda>t.
       case erase_index names (tm_indexes t) of
         (found, ixs) \<Rightarrow>
           bindE (set_tab tab (t\<lparr>tm_indexes := ixs\<rparr>)) (\<lambda>_.
           bindE flush_meta (\<lambda>_.
             if \<not> found then throwE (Throw (IndexNotFoundError tab names)) else
           bindE (ref_index name close_index) (\<lambda>_.
           bindE (on_disk (destroy_file name)) (\<lambda>_.
           modifyE (\<lambda>s. s\<lparr>sy_ihs := (sy_ihs s)(name := None)\<rparr>))))))))))"

definition drop_index_cols :: "string \<Rightarrow> ColMeta list \<Rightarrow> (Sys, unit) stm" where
  "drop_index_cols tab cols = drop_index tab (map cm_name cols)"

definition map_erase :: "string \<Rightarrow> (string \<times> 'v) list \<Rightarrow> (string \<times> 'v) list" where
  "map_erase k = filter (\<lambda>e. fst e \<noteq> k)"

definition drop_table :: "string \<Rightarrow> (Sys, unit) stm" where
  "drop_table tab =
     bindE (try_meta (\<lambda>db. get_table db tab)) (\<lambda>t.
     bindE (forE (\<lambda>m. drop_index_cols tab (im_cols m)) (tm_indexes t)) (\<lambda>_.
     bindE (getsE (\<lambda>s. is_table (sy_db s) tab)) (\<lambda>there.
       if \<not> there then throwE (Throw (TableNotFoundError tab)) else
     bindE WLatch (\<lambda>_.
     bindE (modifyE (\<lambda>s. s\<lparr>sy_db := (sy_db s)\<lparr>db_tabs := map_erase tab (db_tabs (sy_db s))\<rparr>\<rparr>)) (\<lambda>_.
     bindE flush_meta (\<lambda>_.
     bindE (ref_table None tab rm_close_file) (\<lambda>_.
     bindE (on_disk (rm_destroy_file tab)) (\<lambda>_.
     modifyE (\<lambda>s. s\<lparr>sy_fhs := (sy_fhs s)(tab := None)\<rparr>)))))))))"

section \<open>Bulk loading\<close>

text \<open>\<^verbatim>\<open>std::getline\<close>: the lines of a file, the last one also without an end of line.\<close>

function file_lines :: "string \<Rightarrow> string list" where
  "file_lines [] = []"
| "file_lines (c # cs) =
     takeWhile (\<lambda>x. x \<noteq> CHR 0x0A) (c # cs) # file_lines (tl (dropWhile (\<lambda>x. x \<noteq> CHR 0x0A) (c # cs)))"
  by pat_completeness auto
termination
proof (relation "measure length", goal_cases)
  case (2 c cs)
  have "length (tl (dropWhile (\<lambda>x. x \<noteq> CHR 0x0A) (c # cs))) \<le> length cs"
    using length_dropWhile_le [of "\<lambda>x. x \<noteq> CHR 0x0A" "c # cs"] by simp
  then show ?case by simp
qed simp

declare file_lines.simps(2) [simp del]

text \<open>
  \<^verbatim>\<open>std::getline(ss, field, ',')\<close> on the header line: None is a stream at its end, on which the field keeps
  its value.
\<close>

definition next_field :: "string option \<Rightarrow> string \<Rightarrow> string \<times> string option" where
  "next_field ss field =
     (case ss of
        None \<Rightarrow> (field, None)
      | Some r \<Rightarrow>
          let w = takeWhile (\<lambda>x. x \<noteq> CHR '','') r in
          (w, if CHR '','' \<in> set r then Some (drop (length w + 1) r) else None))"

fun check_header :: "ColMeta list \<Rightarrow> string option \<Rightarrow> string \<Rightarrow> exc + unit" where
  "check_header [] ss field = Inr ()"
| "check_header (c # cs) ss field =
     (case next_field ss field of
        (w, ss') \<Rightarrow> if w \<noteq> cm_name c then Inl (Throw (ColumnNotFoundError w)) else check_header cs ss' w)"

text \<open>
  The loop over the characters of a data line: \<open>i\<close> is \<^verbatim>\<open>index\<close>, \<open>j\<close> is \<^verbatim>\<open>index1\<close>. After a comma \<^verbatim>\<open>index\<close> is
  incremented twice, once in the body and once by the loop.
\<close>

function csv_words :: "string \<Rightarrow> nat \<Rightarrow> nat \<Rightarrow> string list" where
  "csv_words line i j =
     (if i < length line then
        (if line ! i = CHR '','' then substr j (i - j) line # csv_words line (i + 2) (i + 1)
         else csv_words line (i + 1) j)
      else [substr j (i - j) line])"
  by auto
termination by (relation "measure (\<lambda>(line, i, j). length line + 1 - i)") auto

declare csv_words.simps [simp del]

text \<open>Cutting the blanks off; on a word without another character \<^verbatim>\<open>word[end]\<close> is read before its start.\<close>

definition csv_trim :: "string \<Rightarrow> exc + string" where
  "csv_trim w =
     (if \<forall>c \<in> set w. c = CHR '' '' then Inl OutOfRange
      else Inr (rev (dropWhile (\<lambda>c. c = CHR '' '') (rev (dropWhile (\<lambda>c. c = CHR '' '') w)))))"

fun mapR :: "('a \<Rightarrow> exc + 'b) \<Rightarrow> 'a list \<Rightarrow> exc + 'b list" where
  "mapR f [] = Inr []"
| "mapR f (x # xs) = andThen (f x) (\<lambda>y. andThen (mapR f xs) (\<lambda>ys. Inr (y # ys)))"

definition csv_fields :: "string \<Rightarrow> exc + string list" where
  "csv_fields line = mapR csv_trim (csv_words line 0 0)"

text \<open>The fields are converted and copied to their places; columns made by \<open>create_table\<close> fill the record.\<close>

fun fill_record :: "ColMeta list \<Rightarrow> string list \<Rightarrow> bytes \<Rightarrow> exc + bytes" where
  "fill_record (c # cs) (w # ws) rec =
     andThen (convert_from_string w c) (\<lambda>v.
       case v_raw v of
         None \<Rightarrow> Inl NullDeref
       | Some bs \<Rightarrow>
           if cm_offset c < 0 \<or> nat (cm_offset c) + nat (cm_len c) > length rec \<or> nat (cm_len c) > length bs then Inl OutOfRange
           else fill_record cs ws (mem_put (nat (cm_offset c)) (take (nat (cm_len c)) bs) rec))"
| "fill_record _ _ rec = Inr rec"

definition load_line :: "string \<Rightarrow> ColMeta list \<Rightarrow> string \<Rightarrow> (Sys, unit) stm" where
  "load_line tab cols line =
     bindE (ref_table None tab (\<lambda>_. getsE (\<lambda>t. record_size (rm_hdr t)))) (\<lambda>sz.
     bindE (liftR (csv_fields line)) (\<lambda>words.
       if length words \<noteq> length cols then throwE (Throw (InternalError ''csv not match'')) else
     bindE (liftR (fill_record cols words (replicate (nat sz) 0))) (\<lambda>rec.
     bindE (ref_table None tab (\<lambda>fd. insert_record fd False 0 rec)) (\<lambda>_. returnE ()))))"

text \<open>\<open>csv\<close> is the contents of the file, None when it cannot be opened.\<close>

definition load_data :: "string option \<Rightarrow> string \<Rightarrow> (Sys, unit) stm" where
  "load_data csv tab =
     bindE RLatch (\<lambda>_.
     bindE (try_meta (\<lambda>db. get_table db tab)) (\<lambda>t.
     bindE RUnLatch (\<lambda>_.
       case (case csv of None \<Rightarrow> [] | Some x \<Rightarrow> file_lines x) of
         [] \<Rightarrow> returnE ()
       | hdr # rest \<Rightarrow>
           bindE (liftR (check_header (tm_cols t) (Some hdr) [])) (\<lambda>_. forE (load_line tab (tm_cols t)) rest))))"

end
