(* ===== verification/Txn_Manager.thy ===== *)
theory Txn_Manager
  imports Sm_Manager
begin

text \<open>
  \<^verbatim>\<open>TransactionManager\<close> of \<^verbatim>\<open>transaction/transaction_manager.{h,cpp}\<close>: beginning, committing and rolling back
  transactions over the tables, indexes, locks and the log of the system state. Putting a record back
  uses \<^verbatim>\<open>insert_record(rid, buf)\<close>, which may not return, so rolling back is a partial function: None
  is a call that runs for ever.
\<close>

section \<open>Code that may not return\<close>

type_synonym ('s, 'a) pstm = "'s \<Rightarrow> ((exc + 'a) \<times> 's) option"

definition liftP :: "('s, 'a) stm \<Rightarrow> ('s, 'a) pstm" where
  "liftP m s = Some (m s)"

definition bindP :: "('s, 'a) pstm \<Rightarrow> ('a \<Rightarrow> ('s, 'b) pstm) \<Rightarrow> ('s, 'b) pstm" where
  "bindP f g s =
     (case f s of None \<Rightarrow> None | Some (Inl e, s') \<Rightarrow> Some (Inl e, s') | Some (Inr x, s') \<Rightarrow> g x s')"

fun forP :: "('a \<Rightarrow> ('s, unit) pstm) \<Rightarrow> 'a list \<Rightarrow> ('s, unit) pstm" where
  "forP f [] = liftP (returnE ())"
| "forP f (x # xs) = bindP (f x) (\<lambda>_. forP f xs)"

text \<open>A call through \<^verbatim>\<open>fhs_.at(tab)\<close> that may not return.\<close>

definition at_tableP :: "string \<Rightarrow> (int \<Rightarrow> (RmSys, 'a) pstm) \<Rightarrow> (Sys, 'a) pstm" where
  "at_tableP tab m s =
     (case sy_fhs s tab of
        None \<Rightarrow> Some (Inl OutOfRange, s)
      | Some (fd, h) \<Rightarrow>
          (case m fd \<lparr>rm_bp = sy_bp s, rm_hdr = h, rm_log = sy_log s, rm_txn = no_txn\<rparr> of
             None \<Rightarrow> None
           | Some (r, t) \<Rightarrow>
               Some (r, s\<lparr>sy_bp := rm_bp t, sy_fhs := (sy_fhs s)(tab \<mapsto> (fd, rm_hdr t)), sy_log := rm_log t\<rparr>)))"

section \<open>begin and get_transaction\<close>

text \<open>\<open>m\<close> is the uninitialised \<^verbatim>\<open>txn_mode_\<close> of the new transaction, \<open>thread\<close> the calling thread.\<close>

definition txn_begin :: "bool \<Rightarrow> nat \<Rightarrow> txn_id_t option \<Rightarrow> (Sys, txn_id_t) stm" where
  "txn_begin m thread txn =
     (case txn of
        Some _ \<Rightarrow> throwE AssertFail
      | None \<Rightarrow>
          bindE (getsE sy_next_txn) (\<lambda>i.
          bindE (getsE sy_next_ts) (\<lambda>ts.
          bindE (modifyE (\<lambda>s. s\<lparr>sy_next_txn := wrap_i32 (i + 1), sy_next_ts := wrap_i32 (ts + 1),
                                sy_txns := (sy_txns s)(i \<mapsto> new_Transaction m ts thread i)\<rparr>)) (\<lambda>_.
          bindE (in_logger (gen_log_bein (new_Transaction m ts thread i))) (\<lambda>(l, t).
          bindE (modifyE (put_txn (Some i) t)) (\<lambda>_.
          returnE i))))))"

definition get_transaction :: "nat \<Rightarrow> txn_id_t \<Rightarrow> (Sys, txn_id_t option) stm" where
  "get_transaction thread i =
     (if i = INVALID_TXN_ID then returnE None
      else
        bindE (getsE (\<lambda>s. sy_txns s i)) (\<lambda>r.
        bindE (assertE (r \<noteq> None)) (\<lambda>_.
        bindE (assertE (thread_id (the r) = thread)) (\<lambda>_.
        returnE (Some i)))))"

definition set_txn_id_num :: "txn_id_t \<Rightarrow> Sys \<Rightarrow> Sys" where
  "set_txn_id_num i s = s\<lparr>sy_next_txn := i\<rparr>"

section \<open>commit\<close>

definition upd_txn :: "txn_id_t \<Rightarrow> (Transaction \<Rightarrow> Transaction) \<Rightarrow> (Sys, unit) stm" where
  "upd_txn i g = modifyE (\<lambda>s. put_txn (Some i) (g (ctx_txn (Some i) s)) s)"

text \<open>\<open>order\<close> is the order in which the hash set of the locks is iterated.\<close>

definition txn_release_locks :: "LockDataId list \<Rightarrow> txn_id_t \<Rightarrow> (Sys, unit) stm" where
  "txn_release_locks order i = in_locks (Some i) (\<lambda>s. (Inr (), release_locks order s))"

definition log_plain :: "(Transaction \<Rightarrow> (log_state, lsn_t \<times> Transaction) stm) \<Rightarrow> txn_id_t \<Rightarrow> (Sys, unit) stm" where
  "log_plain gen i =
     bindE (getsE (ctx_txn (Some i))) (\<lambda>t.
     bindE (in_logger (gen t)) (\<lambda>(l, t'). modifyE (put_txn (Some i) t')))"

definition commit :: "LockDataId list \<Rightarrow> txn_id_t \<Rightarrow> (Sys, unit) stm" where
  "commit order i =
     bindE (getsE (\<lambda>s. sy_txns s i \<noteq> None)) (\<lambda>there.
     bindE (assertE there) (\<lambda>_.
     bindE (upd_txn i (\<lambda>t. t\<lparr>txn_state := COMMITTED\<rparr>)) (\<lambda>_.
     bindE (txn_release_locks order i) (\<lambda>_.
     bindE (upd_txn i (\<lambda>t. t\<lparr>write_records := [], index_deleted_page_set := [], index_latch_page_set := []\<rparr>)) (\<lambda>_.
     bindE (log_plain gen_log_commit i) (\<lambda>_.
     in_logger flush_log_to_disk))))))"

section \<open>Rolling back\<close>

text \<open>
  The key of an index for a record: the loop over \<^verbatim>\<open>col_num\<close> columns copies each behind the other into a
  buffer of \<^verbatim>\<open>col_tot_len\<close> bytes.
\<close>

definition meta_key :: "IndexMeta \<Rightarrow> bytes \<Rightarrow> exc + bytes" where
  "meta_key m rec =
     (let cols = take (nat (im_col_num m)) (im_cols m) in
      if im_col_num m < 0 \<or> nat (im_col_num m) > length (im_cols m) \<or> cols_tot_len cols > im_col_tot_len m
        \<or> (\<exists>c \<in> set cols. cm_offset c < 0 \<or> nat (cm_offset c) + nat (cm_len c) > length rec)
      then Inl OutOfRange
      else Inr (index_key cols rec))"

definition erase_keys :: "nat \<Rightarrow> (IndexMeta \<Rightarrow> string) \<Rightarrow> IndexMeta list \<Rightarrow> bytes \<Rightarrow> (Sys, unit) stm" where
  "erase_keys n name ms rec =
     forE (\<lambda>m. bindE (at_index (name m) (\<lambda>fd. bindE (liftR (meta_key m rec)) (delete_entry n fd))) (\<lambda>_. returnE ())) ms"

definition enter_keys :: "nat \<Rightarrow> (IndexMeta \<Rightarrow> string) \<Rightarrow> IndexMeta list \<Rightarrow> bytes \<Rightarrow> Rid \<Rightarrow> (Sys, unit) stm" where
  "enter_keys n name ms rec rid =
     forE (\<lambda>m. bindE (at_index (name m) (\<lambda>fd. bindE (liftR (meta_key m rec)) (\<lambda>key. insert_entry n fd key rid))) (\<lambda>_. returnE ())) ms"

definition rollback_insert :: "nat \<Rightarrow> string \<Rightarrow> Rid \<Rightarrow> (Sys, unit) stm" where
  "rollback_insert n tab rid =
     bindE (try_meta (\<lambda>db. get_table db tab)) (\<lambda>t.
     bindE (at_table None tab (\<lambda>fd. get_record fd rid)) (\<lambda>rec.
     bindE (erase_keys n IndexMeta_get_index_name (tm_indexes t) rec) (\<lambda>_.
     at_table None tab (\<lambda>fd. delete_record_recovery fd rid))))"

definition rollback_delete :: "nat \<Rightarrow> string \<Rightarrow> Rid \<Rightarrow> bytes \<Rightarrow> (Sys, unit) pstm" where
  "rollback_delete n tab rid rec =
     bindP (liftP (try_meta (\<lambda>db. get_table db tab))) (\<lambda>t.
     bindP (liftP (at_table None tab (\<lambda>_. returnE ()))) (\<lambda>_.
     bindP (liftP (enter_keys n IndexMeta_get_index_name (tm_indexes t) rec rid)) (\<lambda>_.
     at_tableP tab (\<lambda>fd. insert_record_at fd rid rec))))"

definition rollback_update :: "nat \<Rightarrow> string \<Rightarrow> Rid \<Rightarrow> bytes \<Rightarrow> (Sys, unit) pstm" where
  "rollback_update n tab rid rec =
     bindP (liftP (try_meta (\<lambda>db. get_table db tab))) (\<lambda>t.
     bindP (liftP (at_table None tab (\<lambda>fd. get_record fd rid))) (\<lambda>cur.
     bindP (liftP (erase_keys n IndexMeta_get_index_name (tm_indexes t) cur)) (\<lambda>_.
     bindP (at_tableP tab (\<lambda>fd. insert_record_at fd rid rec)) (\<lambda>_.
     liftP (enter_keys n (\<lambda>m. get_index_name_cols tab (im_cols m)) (tm_indexes t) rec rid)))))"

text \<open>
  One round of the loop of \<^verbatim>\<open>abort\<close>: the lsn of the write (\<^verbatim>\<open>find\<close> of an absent record would be
  dereferenced), its undo link (\<^verbatim>\<open>operator[]\<close> enters 0 for an absent lsn), the inverse operation, its
  compensation record, and \<^verbatim>\<open>pop_back\<close>.
\<close>

definition undo_link :: "lsn_t \<Rightarrow> (Sys, lsn_t) stm" where
  "undo_link l s =
     (case lsn_prevlsn_table (sy_log s) l of
        Some p \<Rightarrow> (Inr p, s)
      | None \<Rightarrow> (Inr 0, s\<lparr>sy_log := (sy_log s)\<lparr>lsn_prevlsn_table := (lsn_prevlsn_table (sy_log s))(l \<mapsto> 0)\<rparr>\<rparr>))"

definition some_rec :: "bytes option \<Rightarrow> (Sys, bytes) stm" where
  "some_rec r = (case r of None \<Rightarrow> throwE OutOfRange | Some v \<Rightarrow> returnE v)"

definition undo_write :: "nat \<Rightarrow> txn_id_t \<Rightarrow> WriteRecord \<Rightarrow> (Sys, unit) pstm" where
  "undo_write n i w =
     bindP (liftP (bindE (getsE (\<lambda>s. write_rec_to_lsn_table (sy_log s) (wr_addr w))) (\<lambda>r.
            case r of None \<Rightarrow> throwE OutOfRange | Some l \<Rightarrow> undo_link l))) (\<lambda>undo_next.
     bindP
       (case wtype w of
          INSERT_TUPLE \<Rightarrow>
            liftP (bindE (rollback_insert n (tab_name w) (wr_rid w)) (\<lambda>_.
                   bindE (some_rec (wr_record w)) (\<lambda>v.
                   bindE (in_logger (gen_log_insert_CLR i undo_next v (wr_rid w) (tab_name w))) (\<lambda>_. returnE ()))))
        | DELETE_TUPLE \<Rightarrow>
            bindP (liftP (some_rec (wr_record w))) (\<lambda>v.
            bindP (rollback_delete n (tab_name w) (wr_rid w) v) (\<lambda>_.
            liftP (bindE (in_logger (gen_log_delete_CLR i undo_next v (wr_rid w) (tab_name w))) (\<lambda>_. returnE ()))))
        | UPDATE_TUPLE \<Rightarrow>
            bindP (liftP (some_rec (wr_record w))) (\<lambda>v.
            bindP (rollback_update n (tab_name w) (wr_rid w) v) (\<lambda>_.
            bindP (liftP (some_rec (new_record w))) (\<lambda>v'.
            liftP (bindE (in_logger (gen_log_upadte_CLR i undo_next v v' (wr_rid w) (tab_name w))) (\<lambda>_. returnE ())))))) (\<lambda>_.
     liftP (upd_txn i (\<lambda>t. t\<lparr>write_records := butlast (write_records t)\<rparr>))))"

definition abort :: "nat \<Rightarrow> LockDataId list \<Rightarrow> txn_id_t \<Rightarrow> (Sys, unit) pstm" where
  "abort n order i s =
     (case sy_txns s i of
        None \<Rightarrow> Some (Inl AssertFail, s)
      | Some t \<Rightarrow>
          bindP (liftP (upd_txn i (\<lambda>t. t\<lparr>txn_state := ABORTED\<rparr>))) (\<lambda>_.
          bindP (forP (undo_write n i) (rev (write_records t))) (\<lambda>_.
          liftP (
            bindE (txn_release_locks order i) (\<lambda>_.
            bindE (upd_txn i (\<lambda>t. t\<lparr>write_records := []\<rparr>)) (\<lambda>_.
            bindE (log_plain gen_log_abort i) (\<lambda>_.
            bindE (in_logger flush_log_to_disk) (\<lambda>_.
            upd_txn i (\<lambda>t. t\<lparr>txn_state := ABORTED\<rparr>)))))))) s)"

end
