(* ===== verification/Sys_Tables.thy ===== *)
theory Sys_Tables
  imports Txn_Manager Rm_Ops
begin

text \<open>
  The open tables of the system state as one map from table names to finite maps of records, what
  the operations of a single table do to it, and what they leave alone: the log, the names of the
  open files and the transactions.
\<close>

named_theorems frame_rules \<open>parts of the state that code leaves alone\<close>

section \<open>Code that leaves a part of the state alone\<close>

definition keeps :: "('s \<Rightarrow> 'b) \<Rightarrow> ('s, 'a) stm \<Rightarrow> bool" where
  "keeps g m \<longleftrightarrow> (\<forall>s. g (snd (m s)) = g s)"

lemma keepsD: "keeps g m \<Longrightarrow> m s = (r, s') \<Longrightarrow> g s' = g s"
  unfolding keeps_def by (metis snd_conv)

lemma keeps_bindE [frame_rules]: "keeps g m \<Longrightarrow> (\<And>x. keeps g (k x)) \<Longrightarrow> keeps g (bindE m k)"
  by (auto simp: keeps_def bindE_def split: prod.splits sum.splits) (metis snd_conv)+

lemma keeps_basic [frame_rules]:
  "keeps g (returnE x)" "keeps g (throwE e)" "keeps g (assertE b)" "keeps g (getsE h)" "keeps g (deref p)"
  by (auto simp: keeps_def returnE_def throwE_def assertE_def getsE_def deref_def split: option.splits)

lemma keeps_modifyE [frame_rules]: "(\<And>s. g (h s) = g s) \<Longrightarrow> keeps g (modifyE h)"
  by (simp add: keeps_def modifyE_def)

lemma keeps_if [frame_rules]: "(b \<Longrightarrow> keeps g m) \<Longrightarrow> (\<not> b \<Longrightarrow> keeps g m') \<Longrightarrow> keeps g (if b then m else m')"
  by simp

lemma keeps_prod [frame_rules]: "(\<And>x y. keeps g (k x y)) \<Longrightarrow> keeps g (case p of (x, y) \<Rightarrow> k x y)"
  by (cases p) simp

text \<open>The names of the open files and the descriptor of the log.\<close>

definition open_names :: "DiskManager \<Rightarrow> int \<times> (int \<rightharpoonup> string)" where
  "open_names d = (log_fd d, fd2path d)"

definition pool_names :: "BufferPool \<Rightarrow> int \<times> (int \<rightharpoonup> string)" where
  "pool_names b = open_names (disk b)"

definition rm_rest :: "RmSys \<Rightarrow> LogManager \<times> Transaction \<times> int \<times> (int \<rightharpoonup> string)" where
  "rm_rest s = (rm_log s, rm_txn s, pool_names (rm_bp s))"

lemma keeps_page_io [frame_rules]: "keeps open_names (write_page fd pno src)" "keeps open_names (read_page fd pno n)"
  by (auto simp: keeps_def open_names_def write_page_def read_page_def Let_def os_lseek_def os_write_def os_read_def
      split: prod.splits option.splits)

lemma keeps_lift_disk [frame_rules]: "keeps open_names m \<Longrightarrow> keeps pool_names (lift_disk m)"
  by (auto simp: keeps_def pool_names_def lift_disk_def split: prod.splits) (metis snd_conv)+

lemma pool_names_upd [simp]: "pool_names (upd_page f g b) = pool_names b" "pool_names (poke f x b) = pool_names b"
  by (simp_all add: pool_names_def upd_page_def poke_def)

lemma keeps_write_frame [frame_rules]: "keeps pool_names (write_frame f)"
  unfolding write_frame_def keeps_def
  using keeps_lift_disk [OF keeps_page_io(1)] by (simp add: keeps_def)

lemma find_victim_names: "find_victim_page b = (v, b1) \<Longrightarrow> pool_names b1 = pool_names b"
  by (auto simp: find_victim_page_def pool_names_def split: list.splits prod.splits)

lemma keeps_fetch_page [frame_rules]: "keeps pool_names (fetch_page pid)"
proof -
  have k: "keeps pool_names (bindE (modifyE (\<lambda>b. b\<lparr>page_table := (page_table b)(page_id (pages b ! f) := None, pid \<mapsto> f)\<rparr>)) (\<lambda>_.
               bindE (if c then bindE (write_frame f) (\<lambda>_. modifyE (upd_page f (\<lambda>p. p\<lparr>page_dirty := False\<rparr>)))
                      else returnE ()) (\<lambda>_.
               bindE (modifyE (upd_page f (\<lambda>p. p\<lparr>page_pins := 1, page_id := pid, page_data := zero_page\<rparr>))) (\<lambda>_.
               bindE (lift_disk (read_page (pid_fd pid) (pid_no pid) PAGE_SIZE)) (\<lambda>r.
               bindE (modifyE (upd_page f (\<lambda>p. p\<lparr>page_data := r\<rparr>))) (\<lambda>_.
               returnE (Some f)))))))" for f c
    by (intro frame_rules) (simp_all add: pool_names_def)
  show ?thesis
    using k [unfolded keeps_def]
    by (auto simp: keeps_def fetch_page_def split: option.splits prod.splits)
      (auto simp: pool_names_def dest!: find_victim_names [unfolded pool_names_def])
qed

lemma keeps_unpin [frame_rules]: "keeps pool_names (unpinE pid w)"
  by (auto simp: keeps_def unpinE_def modifyE_def unpin_page_def Let_def pool_names_def upd_page_def split: option.splits)

lemma keeps_in_bp [frame_rules]: "keeps pool_names m \<Longrightarrow> keeps rm_rest (in_bp m)"
  by (auto simp: keeps_def rm_rest_def in_bp_def split: prod.splits) (metis snd_conv)+

lemma keeps_record_io [frame_rules]:
  "keeps rm_rest (frame_bytes f)" "keeps rm_rest (poke_frame f x)" "keeps rm_rest (unpin_frame f w)"
  "keeps rm_rest (set_hdr g)" "keeps rm_rest (rm_fetch_page_handle fd p)" "keeps rm_rest (check_slot h i)"
  unfolding frame_bytes_def poke_frame_def unpin_frame_def frame_pid_def set_hdr_def rm_fetch_page_handle_def check_slot_def
  by (intro frame_rules; simp add: rm_rest_def)+

lemma keeps_get_record [frame_rules]: "keeps rm_rest (get_record fd rid)"
  unfolding get_record_def by (intro frame_rules)

lemma keeps_delete_record [frame_rules]: "keeps rm_rest (delete_record_recovery fd rid)"
  unfolding delete_record_recovery_def finish_delete_def Let_def by (intro frame_rules)

lemma bindE_getsE: "bindE (getsE g) k s = k (g s) s"
  by (simp add: bindE_def getsE_def)

lemma bindE_assertE: "b \<Longrightarrow> bindE (assertE b) k s = k () s"
  by (simp add: bindE_def assertE_def)

lemma bindE_assoc: "bindE (bindE m f) g = bindE m (\<lambda>x. bindE (f x) g)"
  by (auto simp: bindE_def fun_eq_iff split: prod.splits sum.splits)

text \<open>Insertion without a context leaves the log and the names of the open files alone, too.\<close>

lemma keeps_new_page [frame_rules]: "keeps pool_names (new_page fd)"
proof -
  have al: "keeps pool_names (lift_disk (allocate_page fd))"
    by (rule keeps_lift_disk) (simp add: keeps_def allocate_page_def open_names_def)
  have k: "keeps pool_names (bindE (modifyE (\<lambda>b. b\<lparr>page_table := (page_table b)(page_id (pages b ! f) := None)\<rparr>)) (\<lambda>_.
          bindE (lift_disk (allocate_page fd)) (\<lambda>pno.
          bindE (if c then write_frame f else returnE ()) (\<lambda>_.
          bindE (modifyE (upd_page f (\<lambda>p. p\<lparr>page_data := zero_page, page_pins := 1, page_dirty := False,
                                            page_id := \<lparr>pid_fd = fd, pid_no = pno\<rparr>\<rparr>))) (\<lambda>_.
          bindE (modifyE (\<lambda>b. b\<lparr>page_table := (page_table b)(\<lparr>pid_fd = fd, pid_no = pno\<rparr> \<mapsto> f)\<rparr>)) (\<lambda>_.
          returnE (Some (f, \<lparr>pid_fd = fd, pid_no = pno\<rparr>))))))))" for f c
    by (intro frame_rules al) (simp_all add: pool_names_def)
  show ?thesis
    using k [unfolded keeps_def]
    by (auto simp: keeps_def new_page_def split: option.splits prod.splits)
      (auto simp: pool_names_def dest!: find_victim_names [unfolded pool_names_def])
qed

lemma keeps_insert_record [frame_rules]: "keeps rm_rest (insert_record fd False addr buf)"
proof -
  have "keeps rm_rest (fetch_free_page_handle fd)"
    unfolding fetch_free_page_handle_def Let_def by (intro frame_rules)
  then show ?thesis
    unfolding insert_record_def Let_def frame_pid_def
    by (intro keeps_bindE) (auto intro!: frame_rules split: option.splits)
qed

section \<open>The tables of the system\<close>

text \<open>Every open table is well formed, no two share a descriptor, and none is the log.\<close>

definition tabs_ok :: "Sys \<Rightarrow> bool" where
  "tabs_ok s \<longleftrightarrow>
     (\<forall>tab fd h. sy_fhs s tab = Some (fd, h) \<longrightarrow> table_ok fd h (sy_bp s) \<and> fd \<noteq> log_fd (disk (sy_bp s)))
     \<and> (\<forall>tab tab' fd h h'. sy_fhs s tab = Some (fd, h) \<longrightarrow> sy_fhs s tab' = Some (fd, h') \<longrightarrow> tab = tab')"

definition tab_abs :: "Sys \<Rightarrow> string \<rightharpoonup> (Rid \<rightharpoonup> bytes)" where
  "tab_abs s tab = map_option (\<lambda>(fd, h). file_recs h (pages_of fd (sy_bp s))) (sy_fhs s tab)"

text \<open>The view a call through a handle has of the system, and the system after the call.\<close>

definition rm_view :: "RmFileHdr \<Rightarrow> Transaction \<Rightarrow> Sys \<Rightarrow> RmSys" where
  "rm_view h t s = \<lparr>rm_bp = sy_bp s, rm_hdr = h, rm_log = sy_log s, rm_txn = t\<rparr>"

definition rm_store :: "string \<Rightarrow> int \<Rightarrow> RmSys \<Rightarrow> Sys \<Rightarrow> Sys" where
  "rm_store tab fd t s = s\<lparr>sy_bp := rm_bp t, sy_fhs := (sy_fhs s)(tab \<mapsto> (fd, rm_hdr t)), sy_log := rm_log t\<rparr>"

lemma at_table_run:
  "sy_fhs s tab = Some (fd, h) \<Longrightarrow> m fd (rm_view h no_txn s) = (r, t) \<Longrightarrow> at_table None tab m s = (r, rm_store tab fd t s)"
  by (simp add: at_table_def rm_view_def rm_store_def ctx_txn_def put_txn_def)

lemma rm_view_simps [simp]:
  "rm_bp (rm_view h t s) = sy_bp s" "rm_hdr (rm_view h t s) = h" "rm_log (rm_view h t s) = sy_log s" "rm_txn (rm_view h t s) = t"
  by (simp_all add: rm_view_def)

lemma rm_store_simps [simp]:
  "sy_bp (rm_store tab fd t s) = rm_bp t" "sy_log (rm_store tab fd t s) = rm_log t" "sy_db (rm_store tab fd t s) = sy_db s"
  "sy_fhs (rm_store tab fd t s) = (sy_fhs s)(tab \<mapsto> (fd, rm_hdr t))" "sy_txns (rm_store tab fd t s) = sy_txns s"
  "sy_locks (rm_store tab fd t s) = sy_locks s" "sy_readers (rm_store tab fd t s) = sy_readers s"
  by (simp_all add: rm_store_def)

lemma tabs_okD:
  assumes "tabs_ok s" and "sy_fhs s tab = Some (fd, h)"
  shows "rm_ok fd (rm_view h t s)" and "fd \<noteq> log_fd (disk (sy_bp s))"
    and "tab_abs s tab = Some (rm_abs fd (rm_view h t s))"
  using assms by (auto simp: tabs_ok_def rm_ok_def tab_abs_def rm_abs_def)

text \<open>A step on one table is a step on the map of tables that changes this table only.\<close>

lemma table_step_lift:
  assumes ok: "tabs_ok s" and tab: "sy_fhs s tab = Some (fd, h)"
    and st: "table_step fd (rm_view h t0 s) t" and names: "pool_names (rm_bp t) = pool_names (sy_bp s)"
  shows "tabs_ok (rm_store tab fd t s)" and "tab_abs (rm_store tab fd t s) = (tab_abs s)(tab \<mapsto> rm_abs fd t)"
proof -
  have o: "table_ok fd' h' (rm_bp t) \<and> file_recs h' (pages_of fd' (rm_bp t)) = file_recs h' (pages_of fd' (sy_bp s))"
    if "tab' \<noteq> tab" "sy_fhs s tab' = Some (fd', h')" for tab' fd' h'
  proof -
    have "fd' \<noteq> fd" "table_ok fd' h' (sy_bp s)" using ok that tab unfolding tabs_ok_def by metis+
    then show ?thesis using st unfolding table_step_def other_tables_def by simp
  qed
  have l: "log_fd (disk (rm_bp t)) = log_fd (disk (sy_bp s))" using names by (simp add: pool_names_def open_names_def)
  have me: "table_ok fd (rm_hdr t) (rm_bp t)" using st by (simp add: table_step_def rm_ok_def)
  show "tabs_ok (rm_store tab fd t s)"
    using ok tab me o l unfolding tabs_ok_def by (auto split: if_splits)
  show "tab_abs (rm_store tab fd t s) = (tab_abs s)(tab \<mapsto> rm_abs fd t)"
  proof
    show "tab_abs (rm_store tab fd t s) x = ((tab_abs s)(tab \<mapsto> rm_abs fd t)) x" for x
      using o [of x] by (cases "sy_fhs s x") (auto simp: tab_abs_def rm_abs_def)
  qed
qed

lemma tables_cong:
  "sy_bp s' = sy_bp s \<Longrightarrow> sy_fhs s' = sy_fhs s \<Longrightarrow> tabs_ok s' = tabs_ok s"
  "sy_bp s' = sy_bp s \<Longrightarrow> sy_fhs s' = sy_fhs s \<Longrightarrow> tab_abs s' = tab_abs s"
  by (simp_all only: tabs_ok_def, rule ext, simp only: tab_abs_def)

section \<open>The log file beside the tables\<close>

text \<open>The log file is open and holds \<open>c\<close>.\<close>

definition log_open :: "BufferPool \<Rightarrow> bytes \<Rightarrow> bool" where
  "log_open b c \<longleftrightarrow> disk_ok (disk b) \<and> log_fd (disk b) \<noteq> -1
     \<and> fd2path (disk b) (log_fd (disk b)) = Some LOG_FILE_NAME \<and> files (disk b) LOG_FILE_NAME = Some c"

lemma disk_page_append:
  assumes d: "disk_ok d" "disk_ok d'" "fd2path d' = fd2path d" and f: "files d p = Some c" "files d' = (files d)(p \<mapsto> c @ e)"
    and fd: "fd2path d fd \<noteq> None" and x: "disk_page d fd pno = Some x"
  shows "disk_page d' fd pno = Some x"
proof -
  obtain q where q: "fd2path d fd = Some q" using fd by auto
  obtain pos c1 where 1: "fd_entry d fd = Some (q, pos)" "files d q = Some c1" by (rule disk_okD [OF d(1) q])
  obtain pos' c2 where 2: "fd_entry d' fd = Some (q, pos')" "files d' q = Some c2"
    by (rule disk_okD [OF d(2), of fd q]) (use q d(3) in auto)
  have "c2 = c1 \<or> c2 = c1 @ e" using 1 2 f by (auto split: if_splits)
  then show ?thesis using x 1 2 by (auto simp: disk_page_def file_of_def mem_get_def split: if_splits)
qed

text \<open>
  A change of the disk behind the pool that keeps every readable page of every open file keeps the
  contents of the pool, and the tables whose descriptors stay open.
\<close>

lemma pool_disk_change:
  assumes b: "calm b" and d': "disk_ok d'" and op: "\<And>fd. fd2path (disk b) fd \<noteq> None \<Longrightarrow> fd2path d' fd \<noteq> None"
    and pg: "\<And>fd pno y. fd2path (disk b) fd \<noteq> None \<Longrightarrow> disk_page (disk b) fd pno = Some y \<Longrightarrow> disk_page d' fd pno = Some y"
  shows "calm (b\<lparr>disk := d'\<rparr>)"
    and "valid_pid (disk b) pid \<Longrightarrow> content b pid = Some x \<Longrightarrow> content (b\<lparr>disk := d'\<rparr>) pid = Some x"
proof -
  have ok: "bp_ok b" using b by (simp add: calm_def)
  have v: "valid_pid d' q" if "valid_pid (disk b) q" for q using that op by (simp add: valid_pid_def)
  have cached: "valid_pid (disk b) (page_id (pages b ! f))" if "f < pool_size b" "f \<notin> set (free_list b)" for f
    using ok that unfolding bp_ok_def by blast
  have "disk_page d' (pid_fd (page_id (pages b ! f))) (pid_no (page_id (pages b ! f))) = Some (frame_data b f)"
    if "f < pool_size b" "f \<notin> set (free_list b)" "page_pins (pages b ! f) = 0" "\<not> page_dirty (pages b ! f)" for f
    by (rule pg) (use cached [OF that(1,2)] ok that in \<open>auto simp: valid_pid_def bp_ok_def\<close>)
  then have "bp_ok (b\<lparr>disk := d'\<rparr>)"
    using ok d' v unfolding bp_ok_def frame_data_def by simp
  moreover have "\<not> stale (b\<lparr>disk := d'\<rparr>) q" for q
  proof (cases "page_table b q")
    case (Some f)
    then have "valid_pid (disk b) q" using ok by (auto simp: bp_ok_def)
    moreover have "\<not> stale b q" using b by (simp add: calm_def)
    ultimately show ?thesis using Some pg [of "pid_fd q" "pid_no q"] by (auto simp: stale_def frame_data_def valid_pid_def)
  qed (simp add: stale_def)
  moreover have "pins (b\<lparr>disk := d'\<rparr>) = pins b" by (auto simp: pins_def fun_eq_iff split: option.splits)
  ultimately show "calm (b\<lparr>disk := d'\<rparr>)" using b by (simp add: calm_def)
  show "content (b\<lparr>disk := d'\<rparr>) pid = Some x" if "valid_pid (disk b) pid" "content b pid = Some x"
    using that pg by (auto simp: content_def frame_data_def valid_pid_def split: option.splits)
qed

definition disk_follows :: "DiskManager \<Rightarrow> DiskManager \<Rightarrow> bool" where
  "disk_follows d d' \<longleftrightarrow> disk_ok d' \<and> log_fd d' = log_fd d
     \<and> (\<forall>fd p. fd2path d fd = Some p \<longrightarrow> fd2path d' fd = Some p \<and> fd2pageno d' fd = fd2pageno d fd)
     \<and> (\<forall>fd pno y. fd2path d fd \<noteq> None \<longrightarrow> disk_page d fd pno = Some y \<longrightarrow> disk_page d' fd pno = Some y)"

lemma table_follows:
  assumes t: "table_ok fd h b" and f: "disk_follows (disk b) d'"
  shows "table_ok fd h (b\<lparr>disk := d'\<rparr>) \<and> file_recs h (pages_of fd (b\<lparr>disk := d'\<rparr>)) = file_recs h (pages_of fd b)"
proof (rule table_ok_keep [where X = "{}" and F = "{}", OF t])
  have p: "fd2path (disk b) fd' \<noteq> None \<Longrightarrow> fd2path d' fd' \<noteq> None" "disk_ok d'"
    "fd2path (disk b) fd' \<noteq> None \<Longrightarrow> disk_page (disk b) fd' pno = Some y \<Longrightarrow> disk_page d' fd' pno = Some y" for fd' pno y
    using f by (auto simp: disk_follows_def)
  note c = pool_disk_change [OF table_okD(1) [OF t] p(2,1,3)]
  show "calm (b\<lparr>disk := d'\<rparr>)" by (rule c(1))
  show "content (b\<lparr>disk := d'\<rparr>) pid = Some x" if "valid_pid (disk b) pid" "content b pid = Some x" for pid x using c(2) that by blast
  show "fd2path (disk (b\<lparr>disk := d'\<rparr>)) fd = fd2path (disk b) fd" "fd2pageno (disk (b\<lparr>disk := d'\<rparr>)) fd = fd2pageno (disk b) fd"
    using t f by (auto simp: table_ok_def disk_follows_def)
qed simp_all

lemma disk_change_tables:
  assumes t: "tabs_ok s" and f: "disk_follows (disk (sy_bp s)) d'"
    and s': "sy_bp s' = (sy_bp s)\<lparr>disk := d'\<rparr>" "sy_fhs s' = sy_fhs s"
  shows "tabs_ok s'" and "tab_abs s' = tab_abs s"
proof -
  have k: "table_ok fd h (sy_bp s') \<and> file_recs h (pages_of fd (sy_bp s')) = file_recs h (pages_of fd (sy_bp s))"
    if "sy_fhs s tab = Some (fd, h)" for tab fd h
    unfolding s'(1) by (rule table_follows [OF _ f]) (use t that in \<open>auto simp: tabs_ok_def\<close>)
  have l: "log_fd d' = log_fd (disk (sy_bp s))" using f by (simp add: disk_follows_def)
  show "tabs_ok s'" using t k l s' unfolding tabs_ok_def by fastforce
  show "tab_abs s' = tab_abs s"
  proof
    show "tab_abs s' tab = tab_abs s tab" for tab using k [of tab] s'(2) by (cases "sy_fhs s tab") (auto simp: tab_abs_def)
  qed
qed

lemma log_append_follows:
  assumes l: "log_open b c" and d': "files d' = (files (disk b))(LOG_FILE_NAME \<mapsto> c @ e)" "disk_ok d'" "fd2path d' = fd2path (disk b)"
      "fd2pageno d' = fd2pageno (disk b)" "log_fd d' = log_fd (disk b)"
  shows "disk_follows (disk b) d'"
  using disk_page_append [OF _ d'(2,3) _ d'(1)] l d' by (simp add: disk_follows_def log_open_def)

section \<open>A small system\<close>

text \<open>One empty table of 4-byte records, open beside the log, and a running transaction.\<close>

definition demo_disk :: DiskManager where
  "demo_disk = \<lparr>files = [LOG_FILE_NAME \<mapsto> [], ''t'' \<mapsto> []], dirs = {}, fdtab = [Some (LOG_FILE_NAME, 0), Some (''t'', 0)],
     path2fd = [LOG_FILE_NAME \<mapsto> 0, ''t'' \<mapsto> 1], fd2path = [0 \<mapsto> LOG_FILE_NAME, 1 \<mapsto> ''t''], log_fd = 0, fd2pageno = (\<lambda>_. 1)\<rparr>"

definition demo_cols :: "ColMeta list" where
  "demo_cols = [\<lparr>cm_tab_name = ''t'', cm_name = ''a'', cm_type = TYPE_INT, cm_len = 4, cm_offset = 0, cm_index = False\<rparr>]"

definition demo_state :: Sys where
  "demo_state = \<lparr>sy_bp = bp_init 2 (\<lambda>_. 1) demo_disk,
     sy_db = \<lparr>db_name = ''db'', db_tabs = [(''t'', \<lparr>tm_name = ''t'', tm_cols = demo_cols, tm_indexes = []\<rparr>)]\<rparr>,
     sy_readers = 0, sy_fhs = [''t'' \<mapsto> (1, new_RmFileHdr 4)], sy_ihs = Map.empty, sy_log = new_LogManager 0 0,
     sy_locks = new_LockManager, sy_txns = [4 \<mapsto> new_Transaction True 0 0 4], sy_next_txn = 5, sy_next_ts = 1,
     sy_outer = (Map.empty, {})\<rparr>"

lemma demo_disk_names: "LOG_FILE_NAME \<noteq> ''t''" by (simp add: LOG_FILE_NAME_def)

lemma demo_files_ok: "disk_ok demo_disk"
  using demo_disk_names by (auto simp: disk_ok_def demo_disk_def fd_entry_def nth_Cons' split: if_splits)

lemma demo_layout: "record_size (new_RmFileHdr 4) = 4" "num_pages (new_RmFileHdr 4) = 1"
  "first_free_page_no (new_RmFileHdr 4) = RM_NO_PAGE" "num_records_per_page (new_RmFileHdr 4) = 987"
  by (simp_all add: new_RmFileHdr_def Let_def BITMAP_WIDTH_def PAGE_SIZE_def sizeof_RmFileHdr_def)

lemma demo_calm: "calm (sy_bp demo_state)"
  using demo_files_ok by (simp add: calm_def demo_state_def bp_init_ok) (simp add: bp_init_def stale_def pins_def)

lemma demo_state_tabs: "tabs_ok demo_state" "tab_abs demo_state = [''t'' \<mapsto> Map.empty]"
proof -
  have h: "hdr_wf (new_RmFileHdr 4)" using new_RmFileHdr_wf [of 4] by (simp add: RM_MAX_RECORD_SIZE_def)
  have "file_ok (new_RmFileHdr 4) g" for g
    using h demo_layout by (auto simp: file_ok_def record_page_def open_pages_def intro!: exI [of _ "[]"])
  then have "table_ok 1 (new_RmFileHdr 4) (sy_bp demo_state)"
    using demo_calm demo_layout by (auto simp: table_ok_def MAX_FD_def record_page_def demo_state_def bp_init_def demo_disk_def)
  then show "tabs_ok demo_state" by (auto simp: tabs_ok_def demo_state_def bp_init_def demo_disk_def split: if_splits)
  show "tab_abs demo_state = [''t'' \<mapsto> Map.empty]"
    by (auto simp: tab_abs_def demo_state_def file_recs_def record_page_def demo_layout fun_eq_iff)
qed

lemma demo_log: "log_open (sy_bp demo_state) []" "log_ok (sy_log demo_state)" "pending (sy_log demo_state) = []"
  "global_lsn (sy_log demo_state) = 0" "log_offset (sy_log demo_state) = 0" "sy_txns demo_state 4 = Some (new_Transaction True 0 0 4)"
  using demo_files_ok new_LogManager_ok
  by (simp_all add: log_open_def demo_state_def bp_init_def demo_disk_def LOG_FILE_NAME_def new_LogManager_def)

end
