(* ===== verification/Txn_Props.thy ===== *)
theory Txn_Props
  imports Sys_Tables
begin

text \<open>
  The transaction manager: commit makes the log of the transaction durable and releases its locks,
  abort takes back what the transaction inserted.
\<close>

section \<open>Running the steps of commit and abort\<close>

lemma upd_txn_run: "sy_txns s i = Some t \<Longrightarrow> bindE (upd_txn i g) k s = k () (s\<lparr>sy_txns := (sy_txns s)(i \<mapsto> g t)\<rparr>)"
  by (simp add: bindE_def upd_txn_def modifyE_def ctx_txn_def put_txn_def)

lemma in_logger_run:
  "m (sy_log s, disk (sy_bp s)) = (r, (lm, d)) \<Longrightarrow> in_logger m s = (r, s\<lparr>sy_log := lm, sy_bp := (sy_bp s)\<lparr>disk := d\<rparr>\<rparr>)"
  by (simp add: in_logger_def)

lemma log_plain_run:
  assumes t: "sy_txns s i = Some t" and ok: "log_ok (sy_log s)"
    and r: "r = LPlain (mk (global_lsn (sy_log s)) (so_far_lsn t) (txn_id t))" "any_ok r" "room_for (sy_log s) r"
  obtains lm where "log_plain (gen_log_plain mk) i s =
      (Inr (), s\<lparr>sy_log := lm, sy_txns := (sy_txns s)(i \<mapsto> t\<lparr>so_far_lsn := global_lsn (sy_log s)\<rparr>)\<rparr>)"
    and "appends (sy_log s) r lm"
proof -
  obtain lm where lm: "gen_log_plain mk t (sy_log s, disk (sy_bp s)) =
      (Inr (global_lsn (sy_log s), t\<lparr>so_far_lsn := global_lsn (sy_log s)\<rparr>), (lm, disk (sy_bp s)))" "appends (sy_log s) r lm"
    by (rule gen_log_plain_spec [where mk = mk and lm = "sy_log s" and txn = t and r = r and d = "disk (sy_bp s)"])
      (use ok r in blast)+
  have "log_plain (gen_log_plain mk) i s =
      (Inr (), s\<lparr>sy_log := lm, sy_txns := (sy_txns s)(i \<mapsto> t\<lparr>so_far_lsn := global_lsn (sy_log s)\<rparr>)\<rparr>)"
    using t unfolding log_plain_def bindE_def getsE_def
    by (simp add: ctx_txn_def in_logger_def lm(1) modifyE_def put_txn_def)
  then show thesis using lm(2) by (rule that)
qed

lemma flush_run:
  assumes "log_ok (sy_log s)" and l: "log_open (sy_bp s) c"
  obtains lm d where "in_logger flush_log_to_disk s = (Inr (), s\<lparr>sy_log := lm, sy_bp := (sy_bp s)\<lparr>disk := d\<rparr>\<rparr>)"
    and "log_ok lm" and "pending lm = []" and "files d = (files (disk (sy_bp s)))(LOG_FILE_NAME \<mapsto> c @ pending (sy_log s))"
    and "disk_ok d" and "fd2path d = fd2path (disk (sy_bp s))" and "fd2pageno d = fd2pageno (disk (sy_bp s))"
    and "log_fd d = log_fd (disk (sy_bp s))"
proof -
  have d: "disk_ok (disk (sy_bp s))" "log_fd (disk (sy_bp s)) \<noteq> -1"
    "fd2path (disk (sy_bp s)) (log_fd (disk (sy_bp s))) = Some LOG_FILE_NAME" "files (disk (sy_bp s)) LOG_FILE_NAME = Some c"
    using l by (simp_all add: log_open_def)
  show thesis by (rule flush_log_spec [OF assms(1) d]) (rule that, erule in_logger_run, assumption+)
qed

text \<open>The state in which a transaction ends: its log is on disk, its locks and writes are gone.\<close>

definition finished :: "Sys \<Rightarrow> txn_id_t \<Rightarrow> TransactionState \<Rightarrow> bytes \<Rightarrow> Sys \<Rightarrow> bool" where
  "finished s i st log s' \<longleftrightarrow>
     files (disk (sy_bp s')) LOG_FILE_NAME = Some log \<and> pending (sy_log s') = [] \<and> log_ok (sy_log s')
     \<and> (\<forall>l. requests (sy_locks s') l = filter (\<lambda>r. lr_txn r \<noteq> i) (requests (sy_locks s) l))
     \<and> (\<exists>t. sy_txns s' = (sy_txns s)(i \<mapsto> t) \<and> txn_id t = i \<and> txn_state t = st \<and> lock_set t = {} \<and> write_records t = [])"

lemma release_locks_ended:
  assumes "txn_state t \<noteq> GROWING"
  shows "snd (release_locks ls (lm, t)) = t\<lparr>lock_set := {}\<rparr>"
proof -
  have "snd (fold unlock ls s) = snd s" if "txn_state (snd s) \<noteq> GROWING" for s
    using that by (induction ls arbitrary: s) (auto simp: unlock_def Let_def split: prod.splits)
  from this [of "(lm, t)"] assms show ?thesis by (auto simp: release_locks_def split: prod.splits)
qed

text \<open>Everything a plain log record needs to be appended.\<close>

definition log_room :: "nat \<Rightarrow> Sys \<Rightarrow> txn_id_t \<Rightarrow> bool" where
  "log_room k s i \<longleftrightarrow> log_ok (sy_log s) \<and> in_i32 (global_lsn (sy_log s)) \<and> in_i32 i
     \<and> log_offset (sy_log s) + k \<le> nat LOG_BUFFER_SIZE"

lemma plain_ok:
  assumes "mk = CommitLogRecord \<or> mk = AbortLogRecord" and "log_room 24 s i" and "in_i32 p"
  shows "any_ok (LPlain (mk (global_lsn (sy_log s)) p i))" and "room_for (sy_log s) (LPlain (mk (global_lsn (sy_log s)) p i))"
    and "any_bytes (LPlain (mk (global_lsn (sy_log s)) p i)) = hdr_bytes (mk (global_lsn (sy_log s)) p i)"
  using assms
  by (auto simp: CommitLogRecord_def AbortLogRecord_def new_LogRecord_def hdr_ok_def log_room_def room_for_def hdr_bytes_def
      LOG_HEADER_SIZE_def log_offsets in_u32_def)

text \<open>The common end of commit and abort, from the release of the locks to the flush of the log.\<close>

lemma finish_run:
  assumes t: "sy_txns s i = Some t" "txn_id t = i" "in_i32 (so_far_lsn t)" "txn_state t \<noteq> GROWING"
    and locks: "covered (sy_locks s) t" "set order = lock_set t" and mk: "mk = CommitLogRecord \<or> mk = AbortLogRecord"
    and room: "log_room 24 s i" and l: "log_open (sy_bp s) c"
    and clr: "\<And>u. so_far_lsn (clr u) = so_far_lsn u \<and> txn_id (clr u) = txn_id u \<and> txn_state (clr u) = txn_state u
        \<and> lock_set (clr u) = lock_set u \<and> write_records (clr u) = []"
  obtains s' d where "bindE (txn_release_locks order i) (\<lambda>_. bindE (upd_txn i clr) (\<lambda>_.
      bindE (log_plain (gen_log_plain mk) i) (\<lambda>_. in_logger flush_log_to_disk))) s = (Inr (), s')"
    and "finished s i (txn_state t) (c @ pending (sy_log s) @ hdr_bytes (mk (global_lsn (sy_log s)) (so_far_lsn t) i)) s'"
    and "sy_bp s' = (sy_bp s)\<lparr>disk := d\<rparr>" and "sy_fhs s' = sy_fhs s" and "sy_db s' = sy_db s"
    and "files d = (files (disk (sy_bp s)))(LOG_FILE_NAME \<mapsto> c @ pending (sy_log s) @ hdr_bytes (mk (global_lsn (sy_log s)) (so_far_lsn t) i))"
    and "disk_ok d" and "fd2path d = fd2path (disk (sy_bp s))" and "fd2pageno d = fd2pageno (disk (sy_bp s))"
    and "log_fd d = log_fd (disk (sy_bp s))"
proof -
  let ?r = "mk (global_lsn (sy_log s)) (so_far_lsn t) i"
  define lk where "lk = fst (release_locks order (sy_locks s, t))"
  define t2 where "t2 = clr (t\<lparr>lock_set := {}\<rparr>)"
  have rel: "release_locks order (sy_locks s, t) = (lk, t\<lparr>lock_set := {}\<rparr>)"
    unfolding lk_def using release_locks_ended [OF t(4)] by (metis prod.collapse)
  have t2: "so_far_lsn t2 = so_far_lsn t" "txn_id t2 = i" "txn_state t2 = txn_state t" "lock_set t2 = {}" "write_records t2 = []"
    using clr [of "t\<lparr>lock_set := {}\<rparr>"] t(2) by (simp_all add: t2_def)
  let ?s2 = "s\<lparr>sy_locks := lk, sy_txns := (sy_txns s)(i \<mapsto> t2)\<rparr>"
  have 1: "bindE (txn_release_locks order i) (\<lambda>_. bindE (upd_txn i clr) k) s = k () ?s2" for k :: "unit \<Rightarrow> (Sys, unit) stm"
    using t(1) rel
    by (simp add: bindE_def txn_release_locks_def in_locks_def ctx_txn_def put_txn_def upd_txn_def modifyE_def t2_def)
  obtain lm where lm: "log_plain (gen_log_plain mk) i ?s2 =
      (Inr (), ?s2\<lparr>sy_log := lm, sy_txns := (sy_txns ?s2)(i \<mapsto> t2\<lparr>so_far_lsn := global_lsn (sy_log ?s2)\<rparr>)\<rparr>)"
    "appends (sy_log ?s2) (LPlain ?r) lm"
    by (rule log_plain_run [where s = ?s2 and i = i and t = t2 and mk = mk and r = "LPlain ?r"])
      (use t2 room plain_ok [OF mk room t(3)] in \<open>simp_all add: log_room_def\<close>)
  let ?s3 = "?s2\<lparr>sy_log := lm, sy_txns := (sy_txns ?s2)(i \<mapsto> t2\<lparr>so_far_lsn := global_lsn (sy_log ?s2)\<rparr>)\<rparr>"
  have pend: "log_ok lm" "pending lm = pending (sy_log s) @ hdr_bytes ?r" using lm(2) by (simp_all add: appends_def)
  obtain lm' d where f: "in_logger flush_log_to_disk ?s3 = (Inr (), ?s3\<lparr>sy_log := lm', sy_bp := (sy_bp ?s3)\<lparr>disk := d\<rparr>\<rparr>)"
    "log_ok lm'" "pending lm' = []" "files d = (files (disk (sy_bp ?s3)))(LOG_FILE_NAME \<mapsto> c @ pending (sy_log ?s3))"
    "disk_ok d" "fd2path d = fd2path (disk (sy_bp ?s3))" "fd2pageno d = fd2pageno (disk (sy_bp ?s3))"
    "log_fd d = log_fd (disk (sy_bp ?s3))"
    by (rule flush_run [of ?s3 c]) (use pend l in simp_all)
  let ?s4 = "?s3\<lparr>sy_log := lm', sy_bp := (sy_bp ?s3)\<lparr>disk := d\<rparr>\<rparr>"
  have run: "bindE (txn_release_locks order i) (\<lambda>_. bindE (upd_txn i clr) (\<lambda>_.
      bindE (log_plain (gen_log_plain mk) i) (\<lambda>_. in_logger flush_log_to_disk))) s = (Inr (), ?s4)"
    using f(1) by (simp only: 1 bindE_def [of "log_plain _ _"] lm(1) prod.case sum.case)
  have "requests lk l = filter (\<lambda>r. lr_txn r \<noteq> i) (requests (sy_locks s) l)" for l
    using release_locks_requests [of "(sy_locks s, t)" order l] locks t(2) by (simp add: lk_def)
  then have "finished s i (txn_state t) (c @ pending (sy_log s) @ hdr_bytes ?r) ?s4"
    using f(2-4) t2 pend(2) by (auto simp: finished_def)
  from that [OF run this, of d] show thesis using f(4-8) pend(2) by simp
qed

section \<open>Taking insertions back\<close>

lemma rollback_insert_run:
  assumes ok: "tabs_ok s" and m: "get_table (sy_db s) tab = Inr m" "tm_indexes m = []"
    and g: "tab_abs s tab = Some g" "g rid = Some v"
  obtains b h fd h' where "sy_fhs s tab = Some (fd, h)"
    and "rollback_insert n tab rid s = (Inr (), s\<lparr>sy_bp := b, sy_fhs := (sy_fhs s)(tab \<mapsto> (fd, h'))\<rparr>)"
    and "tabs_ok (s\<lparr>sy_bp := b, sy_fhs := (sy_fhs s)(tab \<mapsto> (fd, h'))\<rparr>)"
    and "tab_abs (s\<lparr>sy_bp := b, sy_fhs := (sy_fhs s)(tab \<mapsto> (fd, h'))\<rparr>) = (tab_abs s)(tab \<mapsto> g(rid := None))"
    and "pool_names b = pool_names (sy_bp s)"
proof -
  obtain fd h where fh: "sy_fhs s tab = Some (fd, h)" using g(1) by (auto simp: tab_abs_def)
  let ?v = "rm_view h no_txn s"
  note D = tabs_okD(1) [OF ok fh, of no_txn] tabs_okD(3) [OF ok fh, of no_txn]
  have r: "rm_abs fd ?v rid = Some v" using g D(2) by simp
  obtain v1 where v1: "get_record fd rid ?v = (Inr v, v1)" "only_read fd ?v v1" by (rule get_record_spec [OF D(1) r])
  have rest1: "rm_rest v1 = rm_rest ?v" by (rule keepsD [OF keeps_get_record v1(1)])
  have hdr1: "rm_hdr v1 = h" "rm_abs fd v1 = rm_abs fd ?v" "rm_ok fd v1"
    using v1(2) unfolding only_read_def by (metis RmSys.select_convs(2) RmSys.surjective RmSys.update_convs(1) rm_view_simps(2))+
  let ?s1 = "rm_store tab fd v1 s"
  have s1: "tabs_ok ?s1" "tab_abs ?s1 = (tab_abs s)(tab \<mapsto> rm_abs fd v1)" "sy_fhs ?s1 tab = Some (fd, h)"
    using table_step_lift [OF ok fh only_read_step [OF v1(2)]] rest1 hdr1 by (simp_all add: rm_rest_def)
  have v1': "rm_view h no_txn ?s1 = v1" using rest1 hdr1(1) by (simp add: rm_view_def rm_rest_def)
  obtain v2 where v2: "delete_record_recovery fd rid v1 = (Inr (), v2)" "table_step fd v1 v2"
    "rm_abs fd v2 = (rm_abs fd v1)(rid := None)"
    by (rule delete_record_recovery_spec [OF hdr1(3)]) (use r hdr1(2) in auto)
  have rest2: "rm_rest v2 = rm_rest v1" by (rule keepsD [OF keeps_delete_record v2(1)])
  let ?s2 = "rm_store tab fd v2 ?s1"
  have s2: "tabs_ok ?s2" "tab_abs ?s2 = (tab_abs ?s1)(tab \<mapsto> rm_abs fd v2)"
    using table_step_lift [OF s1(1,3), of no_txn v2] v2(2) rest2 by (simp_all add: v1' rm_rest_def)
  have run: "rollback_insert n tab rid s = (Inr (), ?s2)"
    using m at_table_run [OF fh, of "\<lambda>fd. get_record fd rid"] v1(1) at_table_run [OF s1(3), of "\<lambda>fd. delete_record_recovery fd rid" "Inr ()" v2] v2(1)
    by (simp add: rollback_insert_def try_meta_def liftR_def bindE_getsE bindE_def erase_keys_def v1' returnE_def getsE_def)
  have eq: "?s2 = s\<lparr>sy_bp := rm_bp v2, sy_fhs := (sy_fhs s)(tab \<mapsto> (fd, rm_hdr v2))\<rparr>"
    using rest1 rest2 by (simp add: rm_store_def rm_rest_def)
  have "rm_abs fd v2 = g(rid := None)" using v2(3) hdr1(2) D(2) g(1) by simp
  with s1 s2 have "tab_abs ?s2 = (tab_abs s)(tab \<mapsto> g(rid := None))" by (simp add: fun_eq_iff)
  with that [where b = "rm_bp v2" and h' = "rm_hdr v2", OF fh] run s2(1) rest1 rest2 show thesis unfolding eq by (simp add: rm_rest_def)
qed

text \<open>What \<^verbatim>\<open>abort\<close> needs to take an insertion into a table without indexes back, and what it logs.\<close>

definition undoable :: "Sys \<Rightarrow> WriteRecord \<Rightarrow> bool" where
  "undoable s w \<longleftrightarrow> wtype w = INSERT_TUPLE
     \<and> (\<exists>m. get_table (sy_db s) (tab_name w) = Inr m \<and> tm_indexes m = [])
     \<and> (\<exists>g v. tab_abs s (tab_name w) = Some g \<and> g (wr_rid w) = Some v)
     \<and> wr_record w \<noteq> None \<and> 44 + length (the (wr_record w)) + length (tab_name w) < 2 ^ 31
     \<and> rid_in_range (wr_rid w) \<and> write_rec_to_lsn_table (sy_log s) (wr_addr w) \<noteq> None"

definition clr_of :: "txn_id_t \<Rightarrow> lsn_t \<Rightarrow> WriteRecord \<Rightarrow> RowLogRecord" where
  "clr_of i l w = (InsertLogRecord i (the (wr_record w)) (wr_rid w) (tab_name w))\<lparr>log_type := CLR_DELETE, lsn := l\<rparr>"

definition clr_size :: "WriteRecord \<Rightarrow> nat" where
  "clr_size w = 44 + length (the (wr_record w)) + length (tab_name w)"

lemma clr_ok:
  assumes w: "undoable s w" and i: "in_i32 i" "in_i32 l"
  shows "any_ok (LInsert (clr_of i l w))" and "length (any_bytes (LInsert (clr_of i l w))) = clr_size w"
    and "(case setCLR (InsertLogRecord i (the (wr_record w)) (wr_rid w) (tab_name w)) of Inl e \<Rightarrow> Inl e
      | Inr r \<Rightarrow> Inr (LInsert (r\<lparr>lsn := l\<rparr>))) = Inr (LInsert (clr_of i l w))"
proof -
  have "row_ok ((row_LogRecord INSERT i (the (wr_record w)) (wr_rid w) (tab_name w))\<lparr>log_type := CLR_DELETE, lsn := l, prev_lsn := INVALID_LSN\<rparr>)"
    "log_tot_len (row_LogRecord INSERT i (the (wr_record w)) (wr_rid w) (tab_name w)) = int (clr_size w)"
    using row_sized(1) [of "the (wr_record w)" "tab_name w" i l INVALID_LSN "wr_rid w" CLR_DELETE INSERT]
      row_sized(2) [of "the (wr_record w)" "tab_name w" i l INVALID_LSN "wr_rid w" INSERT] w i
    by (simp_all add: undoable_def clr_size_def)
  then show "any_ok (LInsert (clr_of i l w))" "length (any_bytes (LInsert (clr_of i l w))) = clr_size w"
    by (simp_all add: clr_of_def InsertLogRecord_def length_row_bytes row_simps clr_size_def row_ok_def hdr_ok_def)
qed (simp add: setCLR_def clr_of_def InsertLogRecord_def row_simps)

lemma keeps_write_table [frame_rules]:
  "keeps (\<lambda>s. write_rec_to_lsn_table (fst s)) (gen_log_CLR mk undo)"
proof -
  let ?g = "\<lambda>s :: log_state. write_rec_to_lsn_table (fst s)"
  have lock: "keeps ?g latch_lock" "keeps ?g latch_unlock" "keeps ?g alloc_lsn"
    by (simp_all add: keeps_def latch_lock_def latch_unlock_def modify_log_def alloc_lsn_def)
  have "keeps ?g (\<lambda>s. case write_log (f s) (snd s) of (Inl e, d) \<Rightarrow> (Inl e, ((fst s)\<lparr>log_latch := False\<rparr>, d))
       | (Inr _, d) \<Rightarrow> (Inr (), ((fst s)\<lparr>persist_lsn := buffer_lsn (fst s), log_offset := 0, log_latch := False\<rparr>, d)))" for f
    by (auto simp: keeps_def split: prod.splits sum.splits)
  then have "keeps ?g flush_log_to_disk" unfolding flush_log_to_disk_def by (intro keeps_bindE lock)
  then have fl: "keeps ?g (\<lambda>s. if p s then flush_log_to_disk s else (Inr (), s))" for p by (simp add: keeps_def)
  have "keeps ?g (add_log_to_buffer r)" for r
    unfolding add_log_to_buffer_def
    by (intro keeps_bindE fl) (simp add: keeps_def Let_def split: sum.splits)
  then have add: "keeps ?g (bindE (add_log_to_buffer r) (\<lambda>_. bindE latch_unlock (\<lambda>_. returnE l)))" for r l
    by (intro frame_rules lock)
  have "keeps ?g (\<lambda>s. case mk l of Inl e \<Rightarrow> (Inl e, s)
       | Inr log \<Rightarrow> bindE (add_log_to_buffer log) (\<lambda>_. bindE latch_unlock (\<lambda>_. returnE l)) s)" for l
  proof (cases "mk l")
    case (Inr log)
    with add [of log l] show ?thesis by simp
  qed (simp add: keeps_def)
  then show ?thesis unfolding gen_log_CLR_def by (intro keeps_bindE lock)
qed

lemma bindP_Some: "f s = Some (Inr x, s') \<Longrightarrow> bindP f g s = g x s'"
  by (simp add: bindP_def)

lemma bindP_liftP: "m s = (Inr x, s') \<Longrightarrow> bindP (liftP m) g s = g x s'"
  by (simp add: bindP_def liftP_def)

text \<open>The effect of one round of the loop of \<^verbatim>\<open>abort\<close> on everything but the pool and the handles.\<close>

definition undone :: "WriteRecord \<Rightarrow> (string \<rightharpoonup> (Rid \<rightharpoonup> bytes)) \<Rightarrow> (string \<rightharpoonup> (Rid \<rightharpoonup> bytes))" where
  "undone w T = T(tab_name w := map_option (\<lambda>g. g(wr_rid w := None)) (T (tab_name w)))"

lemma fold_undone:
  "(case fold undone ws T tab of None \<Rightarrow> None | Some g \<Rightarrow> g rid) =
     (if (tab, rid) \<in> set (map (\<lambda>w. (tab_name w, wr_rid w)) ws) then None else (case T tab of None \<Rightarrow> None | Some g \<Rightarrow> g rid))"
  by (induction ws arbitrary: T) (auto simp: undone_def split: option.splits)

lemma undo_write_run:
  assumes ok: "tabs_ok s" and w: "undoable s w" and t: "sy_txns s i = Some t" and room: "log_room (clr_size w) s i"
    and lg: "log_open (sy_bp s) c"
  obtains s' c' where "undo_write n i w s = Some (Inr (), s')" and "tabs_ok s'" and "tab_abs s' = undone w (tab_abs s)"
    and "appends (sy_log s) (LInsert (clr_of i (global_lsn (sy_log s)) w)) (sy_log s')"
    and "write_rec_to_lsn_table (sy_log s') = write_rec_to_lsn_table (sy_log s)"
    and "sy_txns s' = (sy_txns s)(i \<mapsto> t\<lparr>write_records := butlast (write_records t)\<rparr>)"
    and "sy_db s' = sy_db s" and "sy_locks s' = sy_locks s" and "log_open (sy_bp s') c'"
proof -
  obtain l where l: "write_rec_to_lsn_table (sy_log s) (wr_addr w) = Some l" using w by (auto simp: undoable_def)
  obtain u lm1 where u: "undo_link l s = (Inr u, s\<lparr>sy_log := lm1\<rparr>)" and lm1: "lm1 = (sy_log s)\<lparr>lsn_prevlsn_table := lsn_prevlsn_table lm1\<rparr>"
  proof (cases "lsn_prevlsn_table (sy_log s) l")
    case None
    then show thesis by (intro that [of 0 "(sy_log s)\<lparr>lsn_prevlsn_table := (lsn_prevlsn_table (sy_log s))(l \<mapsto> 0)\<rparr>"]) (simp_all add: undo_link_def)
  next
    case (Some p)
    then show thesis by (intro that [of p "sy_log s"]) (simp_all add: undo_link_def)
  qed
  let ?s1 = "s\<lparr>sy_log := lm1\<rparr>"
  obtain m g v where m: "get_table (sy_db s) (tab_name w) = Inr m" "tm_indexes m = []" and g: "tab_abs s (tab_name w) = Some g" "g (wr_rid w) = Some v"
    using w by (auto simp: undoable_def)
  have ok1: "tabs_ok ?s1" "tab_abs ?s1 = tab_abs s" using ok tables_cong [of ?s1 s] by simp_all
  have m1: "get_table (sy_db ?s1) (tab_name w) = Inr m" and g1: "tab_abs ?s1 (tab_name w) = Some g" using m(1) g(1) ok1(2) by simp_all
  obtain b h fd h' where r: "sy_fhs ?s1 (tab_name w) = Some (fd, h)"
      "rollback_insert n (tab_name w) (wr_rid w) ?s1 = (Inr (), ?s1\<lparr>sy_bp := b, sy_fhs := (sy_fhs ?s1)(tab_name w \<mapsto> (fd, h'))\<rparr>)"
      "tabs_ok (?s1\<lparr>sy_bp := b, sy_fhs := (sy_fhs ?s1)(tab_name w \<mapsto> (fd, h'))\<rparr>)"
      "tab_abs (?s1\<lparr>sy_bp := b, sy_fhs := (sy_fhs ?s1)(tab_name w \<mapsto> (fd, h'))\<rparr>) = (tab_abs ?s1)(tab_name w \<mapsto> g(wr_rid w := None))"
      "pool_names b = pool_names (sy_bp ?s1)"
    by (rule rollback_insert_run [where n = n, OF ok1(1) m1 m(2) g1 g(2)])
  let ?s2 = "?s1\<lparr>sy_bp := b, sy_fhs := (sy_fhs ?s1)(tab_name w \<mapsto> (fd, h'))\<rparr>"
  have rng: "in_i32 i" "in_i32 (global_lsn (sy_log s))" using room by (simp_all add: log_room_def)
  have lm: "log_ok lm1" "global_lsn lm1 = global_lsn (sy_log s)" "log_offset lm1 = log_offset (sy_log s)"
      "pending lm1 = pending (sy_log s)" "persist_lsn lm1 = persist_lsn (sy_log s)"
      "write_rec_to_lsn_table lm1 = write_rec_to_lsn_table (sy_log s)"
    using room by (subst lm1, simp add: log_room_def log_ok_def pending_def)+
  define mk where "mk l = (case setCLR (InsertLogRecord i (the (wr_record w)) (wr_rid w) (tab_name w)) of Inl e \<Rightarrow> Inl e
      | Inr r \<Rightarrow> Inr (LInsert (r\<lparr>lsn := l\<rparr>)))" for l
  let ?r = "LInsert (clr_of i (global_lsn (sy_log s)) w)"
  obtain lm2 where lm2: "gen_log_CLR mk u (lm1, disk b) = (Inr (global_lsn lm1), (lm2, disk b))" "appends lm1 ?r lm2"
    by (rule gen_log_CLR_spec [OF lm(1), of mk ?r u "disk b"])
      (use clr_ok [OF w rng] room lm in \<open>simp_all add: mk_def room_for_def log_room_def\<close>)
  have wt: "write_rec_to_lsn_table lm2 = write_rec_to_lsn_table lm1" using keepsD [OF keeps_write_table lm2(1)] by simp
  let ?s3 = "?s2\<lparr>sy_log := lm2\<rparr>" and ?t = "t\<lparr>write_records := butlast (write_records t)\<rparr>"
  have clr: "in_logger (gen_log_insert_CLR i u (the (wr_record w)) (wr_rid w) (tab_name w)) ?s2 = (Inr (global_lsn lm1), ?s3)"
    using lm2(1) unfolding mk_def by (simp add: in_logger_def gen_log_insert_CLR_def)
  obtain rc where rc: "wr_record w = Some rc" "wtype w = INSERT_TUPLE" using w by (auto simp: undoable_def)
  have run: "undo_write n i w s = Some (Inr (), ?s3\<lparr>sy_txns := (sy_txns s)(i \<mapsto> ?t)\<rparr>)"
  proof -
    have 1: "bindE (getsE (\<lambda>s. write_rec_to_lsn_table (sy_log s) (wr_addr w))) (\<lambda>r.
        case r of None \<Rightarrow> throwE OutOfRange | Some l \<Rightarrow> undo_link l) s = (Inr u, ?s1)" using l u by (simp add: bindE_getsE)
    have 2: "bindE (rollback_insert n (tab_name w) (wr_rid w)) (\<lambda>_. bindE (some_rec (wr_record w)) (\<lambda>v.
        bindE (in_logger (gen_log_insert_CLR i u v (wr_rid w) (tab_name w))) (\<lambda>_. returnE ()))) ?s1 = (Inr (), ?s3)"
      using clr rc(1) unfolding bindE_def [of "rollback_insert _ _ _"] r(2) some_rec_def
      by (simp only: prod.case sum.case option.case bindE_returnE bindE_def [of "in_logger _"] returnE_def option.sel)
    have 3: "upd_txn i (\<lambda>t. t\<lparr>write_records := butlast (write_records t)\<rparr>) ?s3 = (Inr (), ?s3\<lparr>sy_txns := (sy_txns s)(i \<mapsto> ?t)\<rparr>)"
      using t by (simp add: upd_txn_def modifyE_def ctx_txn_def put_txn_def)
    show ?thesis
      unfolding undo_write_def rc(2) WType.case bindP_def liftP_def 1 prod.case sum.case option.case 2 3 ..
  qed
  show thesis
  proof (rule that [OF run, of "the (files (disk b) LOG_FILE_NAME)"])
    note cong = tables_cong [of "?s3\<lparr>sy_txns := (sy_txns s)(i \<mapsto> ?t)\<rparr>" ?s2]
    show "tabs_ok (?s3\<lparr>sy_txns := (sy_txns s)(i \<mapsto> ?t)\<rparr>)" using r(3) cong(1) by simp
    show "tab_abs (?s3\<lparr>sy_txns := (sy_txns s)(i \<mapsto> ?t)\<rparr>) = undone w (tab_abs s)"
      using r(4) ok1(2) g(1) cong(2) by (simp add: undone_def)
    show "appends (sy_log s) ?r (sy_log (?s3\<lparr>sy_txns := (sy_txns s)(i \<mapsto> ?t)\<rparr>))" using lm2(2) lm by (simp add: appends_def)
    have "table_ok fd h' b" using tabs_okD(1) [OF r(3), of "tab_name w" fd h' no_txn] by (simp add: rm_ok_def)
    then have "disk_ok (disk b)" using table_okD(1) by (auto simp: calm_def bp_ok_def)
    moreover have "fd2path (disk b) (log_fd (disk b)) = Some LOG_FILE_NAME" "log_fd (disk b) \<noteq> -1"
      using r(5) lg by (simp_all add: pool_names_def open_names_def log_open_def)
    ultimately show "log_open (sy_bp (?s3\<lparr>sy_txns := (sy_txns s)(i \<mapsto> ?t)\<rparr>)) (the (files (disk b) LOG_FILE_NAME))"
      by (auto simp: log_open_def elim!: disk_okD)
  qed (use lm wt in simp_all)
qed

lemma length_pending: "log_ok lm \<Longrightarrow> length (pending lm) = log_offset lm"
  by (simp add: log_ok_def pending_def)

lemma wrap_i32_range: "in_i32 (wrap_i32 v)"
  unfolding in_i32_def wrap_i32_def using pos_mod_bound [of "2 ^ 32" "v + 2 ^ 31"] pos_mod_sign [of "2 ^ 32" "v + 2 ^ 31"] by auto

lemma appends_room:
  assumes "log_room (length (any_bytes r) + k) s i" and "appends (sy_log s) r (sy_log s')"
  shows "log_room k s' i"
proof -
  have "log_offset (sy_log s') = log_offset (sy_log s) + length (any_bytes r)"
    using assms length_pending [of "sy_log s"] length_pending [of "sy_log s'"] by (simp add: appends_def log_room_def)
  then show ?thesis using assms by (simp add: log_room_def appends_def wrap_i32_range)
qed

lemma undoable_after:
  assumes "undoable s w'" and "(tab_name w', wr_rid w') \<noteq> (tab_name w, wr_rid w)" and "tab_abs s' = undone w (tab_abs s)"
    and "sy_db s' = sy_db s" and "write_rec_to_lsn_table (sy_log s') = write_rec_to_lsn_table (sy_log s)"
  shows "undoable s' w'"
  using assms by (auto simp: undoable_def undone_def)

text \<open>The compensation records of a list of insertions, with consecutive numbers.\<close>

fun clr_log :: "txn_id_t \<Rightarrow> lsn_t \<Rightarrow> WriteRecord list \<Rightarrow> bytes" where
  "clr_log i l [] = []"
| "clr_log i l (w # ws) = row_bytes (clr_of i l w) @ clr_log i (wrap_i32 (l + 1)) ws"

fun lsn_after :: "nat \<Rightarrow> lsn_t \<Rightarrow> lsn_t" where
  "lsn_after 0 l = l"
| "lsn_after (Suc k) l = lsn_after k (wrap_i32 (l + 1))"

lemma undo_writes_run:
  assumes "tabs_ok s" and "\<forall>w \<in> set ws. undoable s w" and "distinct (map (\<lambda>w. (tab_name w, wr_rid w)) ws)"
    and "sy_txns s i = Some t" and "log_room (sum_list (map clr_size ws) + k) s i" and "log_open (sy_bp s) c"
  shows "\<exists>s' c' r. forP (undo_write n i) ws s = Some (Inr (), s') \<and> tabs_ok s' \<and> tab_abs s' = fold undone ws (tab_abs s)
    \<and> pending (sy_log s') = pending (sy_log s) @ clr_log i (global_lsn (sy_log s)) ws \<and> log_room k s' i
    \<and> global_lsn (sy_log s') = lsn_after (length ws) (global_lsn (sy_log s))
    \<and> sy_txns s' = (sy_txns s)(i \<mapsto> t\<lparr>write_records := r\<rparr>) \<and> sy_locks s' = sy_locks s \<and> log_open (sy_bp s') c'"
  using assms
proof (induction ws arbitrary: s t c)
  case Nil
  then have "(sy_txns s)(i \<mapsto> t\<lparr>write_records := write_records t\<rparr>) = sy_txns s" by (simp add: fun_upd_idem_iff)
  with Nil show ?case
    by (intro exI [of _ s] exI [of _ c] exI [of _ "write_records t"]) (simp add: liftP_def returnE_def)
next
  case (Cons w ws)
  have w: "undoable s w" "log_room (clr_size w) s i" using Cons.prems(2,5) by (auto simp: log_room_def)
  have rng: "in_i32 i" "in_i32 (global_lsn (sy_log s))" using Cons.prems(5) by (simp_all add: log_room_def)
  let ?r = "LInsert (clr_of i (global_lsn (sy_log s)) w)" and ?t = "t\<lparr>write_records := butlast (write_records t)\<rparr>"
  obtain s1 c1 where s1: "undo_write n i w s = Some (Inr (), s1)" "tabs_ok s1" "tab_abs s1 = undone w (tab_abs s)"
      "appends (sy_log s) ?r (sy_log s1)" "write_rec_to_lsn_table (sy_log s1) = write_rec_to_lsn_table (sy_log s)"
      "sy_txns s1 = (sy_txns s)(i \<mapsto> ?t)" "sy_db s1 = sy_db s" "sy_locks s1 = sy_locks s" "log_open (sy_bp s1) c1"
    by (rule undo_write_run [OF Cons.prems(1) w(1) Cons.prems(4) w(2) Cons.prems(6)])
  have u: "\<forall>w \<in> set ws. undoable s1 w"
    using Cons.prems(2,3) undoable_after [OF _ _ s1(3,7,5)] by (metis (mono_tags, lifting) distinct.simps(2) image_eqI list.set_intros(2) list.set_map list.simps(9))
  have room: "log_room (sum_list (map clr_size ws) + k) s1 i"
    by (rule appends_room [OF _ s1(4)]) (use Cons.prems(5) clr_ok(2) [OF w(1) rng] in \<open>simp add: add.assoc\<close>)
  have d: "distinct (map (\<lambda>w. (tab_name w, wr_rid w)) ws)" and t1: "sy_txns s1 i = Some ?t" using Cons.prems(3) s1(6) by simp_all
  obtain s2 c2 r where s2: "forP (undo_write n i) ws s1 = Some (Inr (), s2)" "tabs_ok s2" "tab_abs s2 = fold undone ws (tab_abs s1)"
      "pending (sy_log s2) = pending (sy_log s1) @ clr_log i (global_lsn (sy_log s1)) ws" "log_room k s2 i"
      "global_lsn (sy_log s2) = lsn_after (length ws) (global_lsn (sy_log s1))"
      "sy_txns s2 = (sy_txns s1)(i \<mapsto> ?t\<lparr>write_records := r\<rparr>)" "sy_locks s2 = sy_locks s1" "log_open (sy_bp s2) c2"
    using Cons.IH [OF s1(2) u d t1 room s1(9)] by metis
  show ?case
  proof (intro exI conjI)
    show "forP (undo_write n i) (w # ws) s = Some (Inr (), s2)" using s1(1) s2(1) by (simp add: bindP_def)
    show "sy_txns s2 = (sy_txns s)(i \<mapsto> t\<lparr>write_records := r\<rparr>)" using s1(6) s2(7) by simp
    show "pending (sy_log s2) = pending (sy_log s) @ clr_log i (global_lsn (sy_log s)) (w # ws)" using s1(4) s2(4) by (simp add: appends_def)
    show "global_lsn (sy_log s2) = lsn_after (length (w # ws)) (global_lsn (sy_log s))"
      using s1(4) s2(6) by (simp add: appends_def)
  qed (use s1 s2 in simp_all)
qed

section \<open>Properties\<close>

text \<open>
  C24: \<^verbatim>\<open>commit\<close> of a transaction succeeds when the log has room for one more record. Afterwards the log
  file consists of its old contents, everything that was pending (all log records of the transaction
  among it) and the commit record; the transaction holds no lock on any object, the requests of the
  others are untouched, and its write set is empty.
\<close>

theorem commit_durable:
  assumes t: "sy_txns s i = Some t" "txn_id t = i" "in_i32 (so_far_lsn t)" and locks: "covered (sy_locks s) t" "set order = lock_set t"
    and room: "log_room 24 s i" and l: "log_open (sy_bp s) c"
  shows "\<exists>s'. commit order i s = (Inr (), s') \<and> finished s i COMMITTED
    (c @ pending (sy_log s) @ hdr_bytes (CommitLogRecord (global_lsn (sy_log s)) (so_far_lsn t) i)) s'"
proof -
  let ?s1 = "s\<lparr>sy_txns := (sy_txns s)(i \<mapsto> t\<lparr>txn_state := COMMITTED\<rparr>)\<rparr>"
  let ?clr = "\<lambda>t. t\<lparr>write_records := [], index_deleted_page_set := [], index_latch_page_set := []\<rparr> :: Transaction"
  have "commit order i s = bindE (txn_release_locks order i) (\<lambda>_. bindE (upd_txn i ?clr) (\<lambda>_.
      bindE (log_plain (gen_log_plain CommitLogRecord) i) (\<lambda>_. in_logger flush_log_to_disk))) ?s1"
    using t(1) by (simp add: commit_def gen_log_commit_def bindE_getsE bindE_assertE upd_txn_run)
  moreover obtain s' where "bindE (txn_release_locks order i) (\<lambda>_. bindE (upd_txn i ?clr) (\<lambda>_.
      bindE (log_plain (gen_log_plain CommitLogRecord) i) (\<lambda>_. in_logger flush_log_to_disk))) ?s1 = (Inr (), s')"
    "finished ?s1 i COMMITTED (c @ pending (sy_log s) @ hdr_bytes (CommitLogRecord (global_lsn (sy_log s)) (so_far_lsn t) i)) s'"
    by (rule finish_run [where s = ?s1 and i = i and t = "t\<lparr>txn_state := COMMITTED\<rparr>" and order = order and c = c
          and mk = CommitLogRecord and clr = ?clr])
      (use t locks room l in \<open>simp_all add: covered_def log_room_def\<close>)
  ultimately show ?thesis by (auto simp: finished_def)
qed

theorem commit_durable_witness:
  "\<exists>s'. commit [] 4 demo_state = (Inr (), s')
     \<and> files (disk (sy_bp s')) LOG_FILE_NAME = Some (hdr_bytes (CommitLogRecord 0 (-1) 4)) \<and> sy_txns s' 4 \<noteq> None"
proof -
  have "covered (sy_locks demo_state) (new_Transaction True 0 0 4)"
    by (simp add: covered_def demo_state_def new_LockManager_def requests_def queue_at_def empty_queue_def)
  moreover have "log_room 24 demo_state 4" using demo_log by (simp add: log_room_def in_i32_def LOG_BUFFER_SIZE_def PAGE_SIZE_def)
  ultimately show ?thesis
    using commit_durable [of demo_state 4 "new_Transaction True 0 0 4" "[]" "[]"] demo_log
    by (auto simp: finished_def new_Transaction_def INVALID_LSN_def in_i32_def)
qed

text \<open>
  C25: \<^verbatim>\<open>abort\<close> of a transaction whose writes are insertions into tables without indexes removes exactly
  the records it inserted, from whatever tables they are in; every other record of every table stays,
  and the tables stay well formed. It ends: the result is a return, not an exception. The log file then ends
  with the pending records, one compensation record per insertion in reverse order, and the abort
  record; the locks of the transaction are released and its write set is empty.
\<close>

theorem abort_removes_insertions:
  assumes ok: "tabs_ok s" and t: "sy_txns s i = Some t" "txn_id t = i" "in_i32 (so_far_lsn t)"
    and locks: "covered (sy_locks s) t" "set order = lock_set t"
    and ws: "\<forall>w \<in> set (write_records t). undoable s w" "distinct (map (\<lambda>w. (tab_name w, wr_rid w)) (write_records t))"
    and room: "log_room (sum_list (map clr_size (write_records t)) + 24) s i" and l: "log_open (sy_bp s) c"
  shows "\<exists>s' c'. abort n order i s = Some (Inr (), s') \<and> tabs_ok s'
    \<and> (\<forall>tab rid. (case tab_abs s' tab of None \<Rightarrow> None | Some g \<Rightarrow> g rid) =
         (if (tab, rid) \<in> set (map (\<lambda>w. (tab_name w, wr_rid w)) (write_records t)) then None
          else (case tab_abs s tab of None \<Rightarrow> None | Some g \<Rightarrow> g rid)))
    \<and> finished s i ABORTED (c' @ pending (sy_log s) @ clr_log i (global_lsn (sy_log s)) (rev (write_records t))
         @ hdr_bytes (AbortLogRecord (lsn_after (length (write_records t)) (global_lsn (sy_log s))) (so_far_lsn t) i)) s'"
proof -
  let ?ws = "write_records t" and ?t1 = "t\<lparr>txn_state := ABORTED\<rparr>"
  let ?s1 = "s\<lparr>sy_txns := (sy_txns s)(i \<mapsto> ?t1)\<rparr>" and ?clr = "\<lambda>t. t\<lparr>write_records := []\<rparr> :: Transaction"
  note cong = tables_cong [of ?s1 s]
  have ok1: "tabs_ok ?s1" "\<forall>w \<in> set (rev ?ws). undoable ?s1 w" "distinct (map (\<lambda>w. (tab_name w, wr_rid w)) (rev ?ws))"
    using ok ws cong by (auto simp: undoable_def rev_map [symmetric])
  have room1: "log_room (sum_list (map clr_size (rev ?ws)) + 24) ?s1 i" "log_open (sy_bp ?s1) c" "sy_txns ?s1 i = Some ?t1"
    using room l by (simp_all add: log_room_def rev_map [symmetric] sum_list_rev)
  obtain s2 c2 r where s2: "forP (undo_write n i) (rev ?ws) ?s1 = Some (Inr (), s2)" "tabs_ok s2" "tab_abs s2 = fold undone (rev ?ws) (tab_abs ?s1)"
      "pending (sy_log s2) = pending (sy_log ?s1) @ clr_log i (global_lsn (sy_log ?s1)) (rev ?ws)" "log_room 24 s2 i"
      "global_lsn (sy_log s2) = lsn_after (length (rev ?ws)) (global_lsn (sy_log ?s1))"
      "sy_txns s2 = (sy_txns ?s1)(i \<mapsto> ?t1\<lparr>write_records := r\<rparr>)" "sy_locks s2 = sy_locks ?s1" "log_open (sy_bp s2) c2"
    using undo_writes_run [OF ok1(1,2,3) room1(3,1,2), of n] by metis
  let ?t2 = "?t1\<lparr>write_records := r\<rparr>" and ?rec = "AbortLogRecord (global_lsn (sy_log s2)) (so_far_lsn t) i"
  obtain s3 d where s3: "bindE (txn_release_locks order i) (\<lambda>_. bindE (upd_txn i ?clr) (\<lambda>_.
        bindE (log_plain (gen_log_plain AbortLogRecord) i) (\<lambda>_. in_logger flush_log_to_disk))) s2 = (Inr (), s3)"
      "finished s2 i ABORTED (c2 @ pending (sy_log s2) @ hdr_bytes ?rec) s3" "sy_bp s3 = (sy_bp s2)\<lparr>disk := d\<rparr>" "sy_fhs s3 = sy_fhs s2"
      "files d = (files (disk (sy_bp s2)))(LOG_FILE_NAME \<mapsto> c2 @ pending (sy_log s2) @ hdr_bytes ?rec)" "disk_ok d"
      "fd2path d = fd2path (disk (sy_bp s2))" "fd2pageno d = fd2pageno (disk (sy_bp s2))" "log_fd d = log_fd (disk (sy_bp s2))"
    by (rule finish_run [where s = s2 and i = i and t = ?t2 and order = order and c = c2 and mk = AbortLogRecord and clr = ?clr])
      (use t locks s2 in \<open>simp_all add: covered_def\<close>)
  note tabs = disk_change_tables [OF s2(2) log_append_follows [OF s2(9) s3(5-9)] s3(3,4)]
  obtain t3 where t3: "sy_txns s3 = (sy_txns s2)(i \<mapsto> t3)" "txn_state t3 = ABORTED" using s3(2) by (auto simp: finished_def)
  have "t3\<lparr>txn_state := ABORTED\<rparr> = t3" using t3(2) by (cases t3) simp
  moreover have "s3\<lparr>sy_txns := (sy_txns s2)(i \<mapsto> t3)\<rparr> = s3" using t3(1) by (cases s3) simp
  ultimately have upd: "upd_txn i (\<lambda>t. t\<lparr>txn_state := ABORTED\<rparr>) s3 = (Inr (), s3)"
    using t3(1) by (simp add: upd_txn_def modifyE_def ctx_txn_def put_txn_def)
  have tail: "bindE (txn_release_locks order i) (\<lambda>_. bindE (upd_txn i ?clr) (\<lambda>_. bindE (log_plain gen_log_abort i) (\<lambda>_.
      bindE (in_logger flush_log_to_disk) (\<lambda>_. upd_txn i (\<lambda>t. t\<lparr>txn_state := ABORTED\<rparr>))))) s2 = (Inr (), s3)"
  proof -
    let ?M = "bindE (txn_release_locks order i) (\<lambda>_. bindE (upd_txn i ?clr) (\<lambda>_.
        bindE (log_plain (gen_log_plain AbortLogRecord) i) (\<lambda>_. in_logger flush_log_to_disk)))"
    have "bindE ?M (\<lambda>_. upd_txn i (\<lambda>t. t\<lparr>txn_state := ABORTED\<rparr>)) s2 = (Inr (), s3)"
      unfolding bindE_def [of ?M] s3(1) prod.case sum.case by (rule upd)
    then show ?thesis by (simp add: bindE_assoc gen_log_abort_def)
  qed
  have first: "upd_txn i (\<lambda>t. t\<lparr>txn_state := ABORTED\<rparr>) s = (Inr (), ?s1)"
    using t(1) by (simp add: upd_txn_def modifyE_def ctx_txn_def put_txn_def)
  have run: "abort n order i s = Some (Inr (), s3)"
    unfolding abort_def t(1) option.case bindP_def liftP_def first prod.case sum.case s2(1) tail ..
  have abs: "tab_abs s3 = fold undone (rev ?ws) (tab_abs s)" using tabs(2) s2(3) cong(2) by simp
  have fin: "finished s i ABORTED (c2 @ pending (sy_log s) @ clr_log i (global_lsn (sy_log s)) (rev ?ws)
      @ hdr_bytes (AbortLogRecord (lsn_after (length ?ws) (global_lsn (sy_log s))) (so_far_lsn t) i)) s3"
    using s3(2) s2(4,6,7,8) by (auto simp: finished_def)
  show ?thesis
    by (intro exI [of _ s3] exI [of _ c2] conjI run tabs(1) fin) (simp only: abs fold_undone set_rev rev_map [symmetric], simp)
qed

text \<open>The small system after the transaction has inserted one record.\<close>

lemma demo_inserted:
  obtains rid s c where "tabs_ok s" and "tab_abs s = [''t'' \<mapsto> [rid \<mapsto> [1, 2, 3, 4]]]" and "rid_in_range rid"
    and "log_open (sy_bp s) c" and "sy_db s = sy_db demo_state" and "sy_locks s = new_LockManager"
    and "sy_log s = (new_LogManager 0 0)\<lparr>write_rec_to_lsn_table := [7 \<mapsto> 0]\<rparr>"
    and "sy_txns s = [4 \<mapsto> (new_Transaction True 0 0 4)\<lparr>write_records := [WriteRecord_delete 7 INSERT_TUPLE ''t'' rid [1, 2, 3, 4]]\<rparr>]"
proof -
  let ?h = "new_RmFileHdr 4" and ?v = "rm_view (new_RmFileHdr 4) no_txn demo_state"
  have fh: "sy_fhs demo_state ''t'' = Some (1, ?h)" by (simp add: demo_state_def)
  note D = tabs_okD(1) [OF demo_state_tabs(1) fh, of no_txn]
  obtain rid v where v: "insert_record 1 False 0 [1, 2, 3, 4] ?v = (Inr rid, v)" "table_step 1 ?v v"
      "rm_abs 1 v = (rm_abs 1 ?v)(rid \<mapsto> [1, 2, 3, 4])"
    by (rule insert_record_spec [OF D, of "[1, 2, 3, 4]" False 0]) (auto simp: demo_layout page_in_range_def PAGE_SIZE_def)
  have rest: "rm_rest v = rm_rest ?v" by (rule keepsD [OF keeps_insert_record v(1)])
  let ?s = "rm_store ''t'' 1 v demo_state"
  note L = table_step_lift [OF demo_state_tabs(1) fh v(2)]
  have ok: "tabs_ok ?s" "tab_abs ?s = (tab_abs demo_state)(''t'' \<mapsto> rm_abs 1 v)" using L rest by (simp_all add: rm_rest_def)
  let ?w = "WriteRecord_delete 7 INSERT_TUPLE ''t'' rid [1, 2, 3, 4]"
  let ?s' = "?s\<lparr>sy_log := (new_LogManager 0 0)\<lparr>write_rec_to_lsn_table := [7 \<mapsto> 0]\<rparr>,
      sy_txns := [4 \<mapsto> (new_Transaction True 0 0 4)\<lparr>write_records := [?w]\<rparr>]\<rparr>"
  note cong = tables_cong [of ?s' ?s]
  have a: "rm_abs 1 v = [rid \<mapsto> [1, 2, 3, 4]]" "rm_ok 1 v"
    using v(2,3) tabs_okD(3) [OF demo_state_tabs(1) fh, of no_txn] demo_state_tabs(2) by (simp_all add: table_step_def)
  then have v1: "rm_abs 1 v rid = Some [1, 2, 3, 4]" by simp
  have t1: "table_ok 1 (rm_hdr v) (rm_bp v)" using a(2) by (simp add: rm_ok_def)
  obtain i where r: "record_page (rm_hdr v) (page_no rid)" "slot_no rid = int i" "i < nat (num_records_per_page (rm_hdr v))"
    by (rule abs_record [OF a(2) v1])
  have "page_in_range (page_no rid)" "num_records_per_page (rm_hdr v) = 987"
    using table_okD(6) [OF t1 r(1)] v(2) demo_layout by (simp_all add: table_step_def same_layout_def)
  then have rr: "rid_in_range rid" using r by (simp add: rid_in_range_def in_i32_def page_in_range_def PAGE_SIZE_def)
  have "disk_ok (disk (rm_bp v))" using table_okD(1) [OF t1] by (simp add: calm_def bp_ok_def)
  moreover have "log_fd (disk (rm_bp v)) = 0" "fd2path (disk (rm_bp v)) 0 = Some LOG_FILE_NAME"
    using rest demo_log(1) by (simp_all add: rm_rest_def pool_names_def open_names_def log_open_def demo_state_def bp_init_def demo_disk_def)
  ultimately have lo: "log_open (sy_bp ?s') (the (files (disk (rm_bp v)) LOG_FILE_NAME))"
    by (auto simp: log_open_def elim!: disk_okD)
  show thesis
    by (rule that [of ?s' rid, OF _ _ rr lo]) (use cong ok a(1) demo_state_tabs(2) in \<open>simp_all add: demo_state_def\<close>)
qed

theorem abort_removes_insertions_witness:
  "\<exists>rid s s'. tab_abs s ''t'' = Some [rid \<mapsto> [1, 2, 3, 4]] \<and> abort 9 [] 4 s = Some (Inr (), s')
     \<and> (\<forall>rid'. (case tab_abs s' ''t'' of None \<Rightarrow> None | Some g \<Rightarrow> g rid') = None)"
proof -
  obtain rid s c where s: "tabs_ok s" "tab_abs s = [''t'' \<mapsto> [rid \<mapsto> [1, 2, 3, 4]]]" "rid_in_range rid"
    "log_open (sy_bp s) c" "sy_db s = sy_db demo_state" "sy_locks s = new_LockManager"
    "sy_log s = (new_LogManager 0 0)\<lparr>write_rec_to_lsn_table := [7 \<mapsto> 0]\<rparr>"
    "sy_txns s = [4 \<mapsto> (new_Transaction True 0 0 4)\<lparr>write_records := [WriteRecord_delete 7 INSERT_TUPLE ''t'' rid [1, 2, 3, 4]]\<rparr>]"
    by (rule demo_inserted)
  let ?w = "WriteRecord_delete 7 INSERT_TUPLE ''t'' rid [1, 2, 3, 4]"
  let ?t = "(new_Transaction True 0 0 4)\<lparr>write_records := [?w]\<rparr>"
  have "undoable s ?w" using s by (simp add: undoable_def WriteRecord_delete_def demo_state_def get_table_def)
  moreover have "log_room (clr_size ?w + 24) s 4"
    using s(7) new_LogManager_ok by (simp add: log_room_def new_LogManager_def log_ok_def in_i32_def LOG_BUFFER_SIZE_def PAGE_SIZE_def
        clr_size_def WriteRecord_delete_def)
  moreover have "covered (sy_locks s) ?t"
    using s(6) by (simp add: covered_def new_LockManager_def requests_def queue_at_def empty_queue_def)
  ultimately have "\<exists>s' c'. abort 9 [] 4 s = Some (Inr (), s') \<and> tabs_ok s'
    \<and> (\<forall>tab rid'. (case tab_abs s' tab of None \<Rightarrow> None | Some g \<Rightarrow> g rid') =
         (if (tab, rid') \<in> set (map (\<lambda>w. (tab_name w, wr_rid w)) [?w]) then None
          else (case tab_abs s tab of None \<Rightarrow> None | Some g \<Rightarrow> g rid')))"
    using abort_removes_insertions [OF s(1), of 4 ?t "[]" c 9] s(4,8) by (auto simp: new_Transaction_def INVALID_LSN_def in_i32_def)
  then obtain s' where s': "abort 9 [] 4 s = Some (Inr (), s')"
    "\<And>rid'. (case tab_abs s' ''t'' of None \<Rightarrow> None | Some g \<Rightarrow> g rid') = (if rid' = rid then None else [rid \<mapsto> [1, 2, 3, 4]] rid')"
    using s(2) by (auto simp: WriteRecord_delete_def)
  then have "\<forall>rid'. (case tab_abs s' ''t'' of None \<Rightarrow> None | Some g \<Rightarrow> g rid') = None" by simp
  moreover have "tab_abs s ''t'' = Some [rid \<mapsto> [1, 2, 3, 4]]" using s(2) by simp
  ultimately show ?thesis using s'(1) by blast
qed

end
