(* ===== verification/Sm_Props.thy ===== *)
theory Sm_Props
  imports Sys_Tables Sm_Meta_Text Rm_Props
begin

text \<open>
  The system manager: how a line of a loaded file is cut into fields, what creating a table does to the
  catalogue and the disk, and what a failed statement leaves behind.
\<close>

section \<open>Fields of a line\<close>









section \<open>Creating a table\<close>

lemma map_of_map_put: "map_of (map_put k v m) = (map_of m)(k \<mapsto> v)"
  by (induction k v m rule: map_put.induct) (auto simp: fun_eq_iff)

lemma layout_cols_spec:
  "snd (layout_cols tab off defs) = off + sum_list (map cd_len defs)" "length (fst (layout_cols tab off defs)) = length defs"
  "i < length defs \<Longrightarrow> fst (layout_cols tab off defs) ! i =
     \<lparr>cm_tab_name = tab, cm_name = cd_name (defs ! i), cm_type = cd_type (defs ! i), cm_len = cd_len (defs ! i),
      cm_offset = off + sum_list (map cd_len (take i defs)), cm_index = False\<rparr>"
proof -
  show "snd (layout_cols tab off defs) = off + sum_list (map cd_len defs)" "length (fst (layout_cols tab off defs)) = length defs"
    by (induction defs arbitrary: off) (auto split: prod.splits simp: prod_eq_iff)
  show "fst (layout_cols tab off defs) ! i =
     \<lparr>cm_tab_name = tab, cm_name = cd_name (defs ! i), cm_type = cd_type (defs ! i), cm_len = cd_len (defs ! i),
      cm_offset = off + sum_list (map cd_len (take i defs)), cm_index = False\<rparr>" if "i < length defs"
    using that
  proof (induction defs arbitrary: off i)
    case (Cons c cs)
    then show ?case by (cases i) (auto split: prod.splits simp: prod_eq_iff)
  qed simp
qed

lemma disk_page_same:
  assumes "disk_ok d" and "disk_ok d'" and "fd2path d fd = Some p" and "fd2path d' fd = Some p" and "files d' p = files d p"
  shows "disk_page d' fd = disk_page d fd"
proof -
  obtain pos pos' where "fd_entry d fd = Some (p, pos)" "fd_entry d' fd = Some (p, pos')" using assms(1-4) by (metis disk_okD)
  then show ?thesis using assms(5) by (simp add: disk_page_def file_of_def fun_eq_iff)
qed

lemma new_table_ok:
  assumes "calm b" and "fd2path (disk b) fd \<noteq> None" and "fd2pageno (disk b) fd = 1" and "\<And>p. page_table b \<lparr>pid_fd = fd, pid_no = p\<rparr> = None"
    and "0 \<le> fd" and "fd < MAX_FD" and "1 \<le> rs" and "rs \<le> RM_MAX_RECORD_SIZE"
  shows "table_ok fd (new_RmFileHdr rs) b" and "file_recs (new_RmFileHdr rs) (pages_of fd b) = Map.empty"
proof -
  have h: "hdr_wf (new_RmFileHdr rs)" "num_pages (new_RmFileHdr rs) = 1" "first_free_page_no (new_RmFileHdr rs) = RM_NO_PAGE"
    using new_RmFileHdr_wf assms by (simp_all add: new_RmFileHdr_def Let_def)
  then have "file_ok (new_RmFileHdr rs) g" for g
    by (auto simp: file_ok_def record_page_def open_pages_def intro!: exI [of _ "[]"])
  then show "table_ok fd (new_RmFileHdr rs) b" using assms h by (auto simp: table_ok_def record_page_def)
  show "file_recs (new_RmFileHdr rs) (pages_of fd b) = Map.empty" using h by (auto simp: file_recs_def record_page_def fun_eq_iff)
qed

text \<open>What creating a table needs: a free name, a free catalogue latch, and columns that fit a record.\<close>

definition can_create :: "string \<Rightarrow> ColDef list \<Rightarrow> Sys \<Rightarrow> bool" where
  "can_create tab defs s \<longleftrightarrow>
     (let d = disk (sy_bp s); size = sum_list (map cd_len defs) in
      \<not> is_table (sy_db s) tab \<and> sy_fhs s tab = None \<and> \<not> is_file tab d \<and> tab \<noteq> DB_META_NAME
      \<and> sy_readers s = 0 \<and> 1 \<le> size \<and> size \<le> RM_MAX_RECORD_SIZE
      \<and> path2fd d DB_META_NAME = None \<and> (log_fd d \<noteq> -1 \<longrightarrow> fd2path d (log_fd d) \<noteq> None))"

lemma create_table_run:
  assumes c: "can_create tab defs s" and bp: "calm (sy_bp s)"
  defines "m \<equiv> \<lparr>tm_name = tab, tm_cols = fst (layout_cols tab 0 defs), tm_indexes = []\<rparr>" and "h \<equiv> new_RmFileHdr (sum_list (map cd_len defs))"
  defines "db \<equiv> (sy_db s)\<lparr>db_tabs := map_put tab m (db_tabs (sy_db s))\<rparr>"
  obtains fd d' where "create_table tab defs s = (Inr (),
      s\<lparr>sy_bp := (sy_bp s)\<lparr>disk := d'\<rparr>, sy_db := db, sy_fhs := (sy_fhs s)(tab \<mapsto> (fd, h))\<rparr>)"
    and "disk_follows (disk (sy_bp s)) d'" and "0 \<le> fd" and "fd2path (disk (sy_bp s)) fd = None" and "fd2path d' fd = Some tab"
    and "fd2pageno d' fd = 1" and "files d' DB_META_NAME = Some (str_bytes (show_DbMeta db))"
proof -
  let ?d = "disk (sy_bp s)" and ?n = "sum_list (map cd_len defs)"
  have ok: "disk_ok ?d" using bp by (simp add: calm_def bp_ok_def)
  have c': "\<not> is_table (sy_db s) tab" "sy_fhs s tab = None" "\<not> is_file tab ?d" "tab \<noteq> DB_META_NAME" "sy_readers s = 0" "1 \<le> ?n"
    "?n \<le> RM_MAX_RECORD_SIZE" "path2fd ?d DB_META_NAME = None" using c by (simp_all add: can_create_def Let_def)
  obtain d1 where d1: "rm_create_file tab ?n ?d = (Inr (), d1)" "disk_ok d1" "fd2path d1 = fd2path ?d" "path2fd d1 = path2fd ?d"
    "files d1 = (files ?d)(tab \<mapsto> filehdr_bytes h)" "log_fd d1 = log_fd ?d" "fd2pageno d1 = fd2pageno ?d" "path2fd ?d tab = None"
    unfolding h_def by (rule rm_create_run [OF ok c'(3,6,7)])
  define d2 where "d2 = d1\<lparr>files := (files d1)(DB_META_NAME \<mapsto> str_bytes (show_DbMeta db))\<rparr>"
  have d2: "disk_ok d2" "files d2 tab = Some (filehdr_bytes h)" "path2fd d2 tab = None" "fd2path d2 = fd2path ?d" "fd2pageno d2 = fd2pageno ?d"
      "log_fd d2 = log_fd ?d"
    using d1 c'(4) by (auto simp: d2_def disk_ok_def fd_entry_def)
  obtain fd d3 where d3: "rm_open_file tab d2 = (Inr (fd, h), d3)" "disk_ok d3" "0 \<le> fd" "fd2path d2 fd = None"
    "fd2path d3 = (fd2path d2)(fd \<mapsto> tab)" "fd2pageno d3 = (fd2pageno d2)(fd := num_pages h)" "files d3 = files d2" "log_fd d3 = log_fd d2"
    by (rule rm_open_run [OF d2(1,2) _ d2(3)]) (use new_RmFileHdr_range [OF c'(6,7)] in \<open>simp_all add: h_def\<close>)
  obtain cols where lay: "layout_cols tab 0 defs = (cols, ?n)"
    using layout_cols_spec(1) [of tab 0 defs] by (cases "layout_cols tab 0 defs") auto
  have run: "create_table tab defs s = (Inr (),
      s\<lparr>sy_bp := (sy_bp s)\<lparr>disk := d3\<rparr>, sy_db := db, sy_fhs := (sy_fhs s)(tab \<mapsto> (fd, h))\<rparr>)"
    using c' d1(1) d3(1) lay
    by (simp add: create_table_def bindE_def getsE_def on_disk_def in_pool_def lift_disk_def WLatch_def set_tab_def modifyE_def
        flush_meta_def write_meta_def set_disk_def open_table_def map_insert_def d2_def db_def m_def)
  have "disk_follows ?d d3"
  proof -
    have p: "fd2path d3 fd' = Some p" "files d3 p = files ?d p" "fd2pageno d3 fd' = fd2pageno ?d fd'" if "fd2path ?d fd' = Some p" for fd' p
    proof -
      have "p \<noteq> tab" "p \<noteq> DB_META_NAME" "fd' \<noteq> fd" using that ok c'(8) d1(8) d2(4) d3(4) unfolding disk_ok_def by force+
      then show "fd2path d3 fd' = Some p" "files d3 p = files ?d p" "fd2pageno d3 fd' = fd2pageno ?d fd'"
        using that d3(5-7) d2(4,5) d1(5) by (simp_all add: d2_def)
    qed
    have "disk_page d3 fd' = disk_page ?d fd'" if "fd2path ?d fd' \<noteq> None" for fd'
      using that disk_page_same [OF ok d3(2) _ p(1,2)] by blast
    then show ?thesis using p d3(2,8) d2(6) unfolding disk_follows_def by simp
  qed
  with that [OF run] d3 d2(4) c'(4) show thesis by (simp add: d2_def h_def new_RmFileHdr_def Let_def)
qed

text \<open>
  C26: \<^verbatim>\<open>create_table\<close> adds the table to the catalogue with its columns laid out one behind the other, writes
  the new catalogue to \<^verbatim>\<open>db.meta\<close>, and opens an empty table under the name; the entries of the other
  tables and the records of all open tables stay as they were. (A descriptor beyond the array of page
  counters is the one exception.)
\<close>

theorem create_table_adds_empty_table:
  assumes c: "can_create tab defs s" and bp: "calm (sy_bp s)" and ok: "tabs_ok s"
  shows "\<exists>s' fd cols. create_table tab defs s = (Inr (), s')
    \<and> get_table (sy_db s') tab = Inr \<lparr>tm_name = tab, tm_cols = cols, tm_indexes = []\<rparr> \<and> length cols = length defs
    \<and> (\<forall>i < length defs. cols ! i = \<lparr>cm_tab_name = tab, cm_name = cd_name (defs ! i), cm_type = cd_type (defs ! i),
          cm_len = cd_len (defs ! i), cm_offset = sum_list (map cd_len (take i defs)), cm_index = False\<rparr>)
    \<and> (\<forall>t. t \<noteq> tab \<longrightarrow> get_table (sy_db s') t = get_table (sy_db s) t)
    \<and> files (disk (sy_bp s')) DB_META_NAME = Some (str_bytes (show_DbMeta (sy_db s')))
    \<and> sy_fhs s' tab = Some (fd, new_RmFileHdr (sum_list (map cd_len defs)))
    \<and> (fd < MAX_FD \<longrightarrow> tabs_ok s' \<and> tab_abs s' = (tab_abs s)(tab \<mapsto> Map.empty))"
proof -
  let ?h = "new_RmFileHdr (sum_list (map cd_len defs))" and ?m = "\<lparr>tm_name = tab, tm_cols = fst (layout_cols tab 0 defs), tm_indexes = []\<rparr>"
  let ?db = "(sy_db s)\<lparr>db_tabs := map_put tab ?m (db_tabs (sy_db s))\<rparr>"
  obtain fd d' where r: "create_table tab defs s = (Inr (), s\<lparr>sy_bp := (sy_bp s)\<lparr>disk := d'\<rparr>, sy_db := ?db, sy_fhs := (sy_fhs s)(tab \<mapsto> (fd, ?h))\<rparr>)"
    "disk_follows (disk (sy_bp s)) d'" "0 \<le> fd" "fd2path (disk (sy_bp s)) fd = None" "fd2path d' fd = Some tab" "fd2pageno d' fd = 1"
    "files d' DB_META_NAME = Some (str_bytes (show_DbMeta ?db))"
    by (rule create_table_run [OF c bp])
  let ?s1 = "s\<lparr>sy_bp := (sy_bp s)\<lparr>disk := d'\<rparr>\<rparr>"
  let ?s' = "s\<lparr>sy_bp := (sy_bp s)\<lparr>disk := d'\<rparr>, sy_db := ?db, sy_fhs := (sy_fhs s)(tab \<mapsto> (fd, ?h))\<rparr>"
  have tabs: "tabs_ok ?s1" "tab_abs ?s1 = tab_abs s" by (rule disk_change_tables [OF ok r(2)], simp_all)+
  have c': "sy_fhs s tab = None" "1 \<le> sum_list (map cd_len defs)" "sum_list (map cd_len defs) \<le> RM_MAX_RECORD_SIZE" "fd \<noteq> log_fd (disk (sy_bp s))"
    using c r(3,4) by (auto simp: can_create_def Let_def)
  have "tabs_ok ?s' \<and> tab_abs ?s' = (tab_abs s)(tab \<mapsto> Map.empty)" if fd: "fd < MAX_FD"
  proof -
    have d': "disk_ok d'" "log_fd d' = log_fd (disk (sy_bp s))"
      and p: "\<And>fd. fd2path (disk (sy_bp s)) fd \<noteq> None \<Longrightarrow> fd2path d' fd \<noteq> None"
        "\<And>fd pno y. fd2path (disk (sy_bp s)) fd \<noteq> None \<Longrightarrow> disk_page (disk (sy_bp s)) fd pno = Some y \<Longrightarrow> disk_page d' fd pno = Some y"
      using r(2) by (auto simp: disk_follows_def)
    have "page_table (sy_bp s) \<lparr>pid_fd = fd, pid_no = q\<rparr> = None" for q
    proof (rule ccontr)
      assume "page_table (sy_bp s) \<lparr>pid_fd = fd, pid_no = q\<rparr> \<noteq> None"
      then have "valid_pid (disk (sy_bp s)) \<lparr>pid_fd = fd, pid_no = q\<rparr>"
        using bp unfolding calm_def bp_ok_def by blast
      then show False using r(4) by (simp add: valid_pid_def)
    qed
    then have pt: "page_table (sy_bp ?s1) \<lparr>pid_fd = fd, pid_no = q\<rparr> = None" for q by simp
    have "calm ((sy_bp s)\<lparr>disk := d'\<rparr>)" by (rule pool_disk_change(1) [OF bp d'(1)]) (rule p; assumption)+
    then have q: "calm (sy_bp ?s1)" by simp
    have dd: "fd2path (disk (sy_bp ?s1)) fd \<noteq> None" "fd2pageno (disk (sy_bp ?s1)) fd = 1" using r(5,6) by simp_all
    note n = new_table_ok [OF q dd pt r(3) fd c'(2,3)]
    have other: "fd' \<noteq> fd" if "sy_fhs s x = Some (fd', h')" for x fd' h'
      using ok that r(4) unfolding tabs_ok_def table_ok_def by force
    have "tabs_ok ?s'"
      using tabs(1) n(1) c'(4) d'(2) other unfolding tabs_ok_def by (auto split: if_splits)
    moreover have "tab_abs ?s' x = ((tab_abs s)(tab \<mapsto> Map.empty)) x" for x
      using n(2) fun_cong [OF tabs(2), of x] by (simp add: tab_abs_def)
    ultimately show ?thesis by (simp add: fun_eq_iff)
  qed
  then show ?thesis
    using r(1,7) layout_cols_spec(2) [of tab 0 defs] layout_cols_spec(3) [of _ defs tab 0]
    by (intro exI [of _ ?s'] exI [of _ fd] exI [of _ "fst (layout_cols tab 0 defs)"]) (simp add: get_table_def map_of_map_put)
qed


theorem create_table_adds_empty_table_witness:
  "\<exists>s' fd cols. create_table ''u'' [\<lparr>cd_name = ''x'', cd_type = TYPE_INT, cd_len = 4\<rparr>, \<lparr>cd_name = ''y'', cd_type = TYPE_STRING, cd_len = 10\<rparr>] demo_state
       = (Inr (), s')
     \<and> get_table (sy_db s') ''u'' = Inr \<lparr>tm_name = ''u'', tm_cols = cols, tm_indexes = []\<rparr> \<and> map cm_offset cols = [0, 4]
     \<and> sy_fhs s' ''u'' = Some (fd, new_RmFileHdr 14)"
proof -
  let ?defs = "[\<lparr>cd_name = ''x'', cd_type = TYPE_INT, cd_len = 4\<rparr>, \<lparr>cd_name = ''y'', cd_type = TYPE_STRING, cd_len = 10\<rparr>]"
  have c: "can_create ''u'' ?defs demo_state"
    by (simp add: can_create_def demo_state_def demo_disk_def bp_init_def is_table_def is_file_def DB_META_NAME_def LOG_FILE_NAME_def RM_MAX_RECORD_SIZE_def)
  obtain s' fd cols where r: "create_table ''u'' ?defs demo_state = (Inr (), s')"
    "get_table (sy_db s') ''u'' = Inr \<lparr>tm_name = ''u'', tm_cols = cols, tm_indexes = []\<rparr>" "length cols = length ?defs"
    "\<forall>i < length ?defs. cols ! i = \<lparr>cm_tab_name = ''u'', cm_name = cd_name (?defs ! i), cm_type = cd_type (?defs ! i),
          cm_len = cd_len (?defs ! i), cm_offset = sum_list (map cd_len (take i ?defs)), cm_index = False\<rparr>"
    "sy_fhs s' ''u'' = Some (fd, new_RmFileHdr (sum_list (map cd_len ?defs)))"
    using create_table_adds_empty_table [OF c demo_calm demo_state_tabs(1)] by (elim exE conjE) (rule that)
  have "map cm_offset cols = [0, 4]"
    by (rule nth_equalityI) (use r(3,4) in \<open>auto simp: less_Suc_eq nth_Cons'\<close>)
  with r show ?thesis by auto
qed

section \<open>The catalogue latch\<close>

text \<open>Code that cannot return normally once the shared latch has been taken \<open>n\<close> times and never released.\<close>

definition blocked :: "nat \<Rightarrow> (Sys, 'a) stm \<Rightarrow> bool" where
  "blocked n m \<longleftrightarrow> (\<forall>s x. n \<le> sy_readers s \<longrightarrow> fst (m s) \<noteq> Inr x)"

lemma blocked_first: "blocked n m \<Longrightarrow> blocked n (bindE m k)"
  by (fastforce simp: blocked_def bindE_def split: prod.splits sum.splits)

lemma blocked_keeps: "keeps sy_readers m \<Longrightarrow> (\<And>x. blocked n (k x)) \<Longrightarrow> blocked n (bindE m k)"
  unfolding blocked_def bindE_def keeps_def by (auto split: prod.splits sum.splits) (metis fst_conv snd_conv)+

lemma blocked_latch:
  "0 < n \<Longrightarrow> blocked n (bindE WLatch k)" "blocked (n + 1) (k ()) \<Longrightarrow> blocked n (bindE RLatch k)"
  "blocked n (k ()) \<Longrightarrow> blocked (n + 1) (bindE RUnLatch k)" "blocked n (throwE e)"
  by (auto simp: blocked_def WLatch_def RLatch_def RUnLatch_def modifyE_def throwE_def bindE_def)

lemma keeps_readers [frame_rules]:
  "keeps sy_readers (on_disk m)" "keeps sy_readers (liftR x)" "keeps sy_readers (try_meta g)"
  by (auto simp: keeps_def on_disk_def in_pool_def liftR_def try_meta_def bindE_def getsE_def returnE_def throwE_def split: prod.splits sum.splits)

lemma keeps_mapME [frame_rules]: "(\<And>x. keeps g (f x)) \<Longrightarrow> keeps g (mapME f xs)"
  by (induction xs) (auto intro!: frame_rules)

lemma create_table_blocked: "blocked 1 (create_table tab defs)"
  unfolding create_table_def
  by (intro blocked_keeps frame_rules) (auto intro!: blocked_latch blocked_keeps frame_rules split: prod.splits)

lemma drop_index_blocked: "blocked 1 (drop_index tab names)"
  unfolding drop_index_def Let_def
  by (intro blocked_keeps frame_rules) (auto intro!: blocked_latch blocked_keeps frame_rules)

lemma drop_table_blocked: "blocked 1 (drop_table tab)"
proof -
  have "blocked 1 (bindE (forE (\<lambda>m. drop_index_cols tab (im_cols m)) ms) (\<lambda>_. bindE (getsE g) (\<lambda>b. if \<not> b then throwE e else bindE WLatch k)))"
    for ms g e k
  proof (cases ms)
    case Nil
    then show ?thesis by (auto intro!: blocked_keeps frame_rules blocked_latch)
  next
    case (Cons m ms')
    then show ?thesis by (simp add: bindE_assoc drop_index_cols_def blocked_first [OF drop_index_blocked, unfolded One_nat_def])
  qed
  then show ?thesis unfolding drop_table_def by (rule blocked_keeps [OF keeps_readers(3)])
qed

lemma create_index_blocked: "blocked 1 (sm_create_index k n tab names ctx)"
proof -
  have "blocked 2 (bindE RUnLatch (\<lambda>_. if b then throwE e else bindE WLatch f))" for b e f
  proof -
    have "blocked 1 (if b then throwE e else bindE WLatch f)" by (auto intro!: blocked_latch)
    then show ?thesis using blocked_latch(3) [of 1] by (simp only: one_add_one)
  qed
  then have two: "blocked 2 (bindE (try_meta g) (\<lambda>t. bindE (mapME (h t) names) (\<lambda>cols. bindE RUnLatch (\<lambda>_. if b t cols then throwE (e t cols)
      else bindE WLatch (f t cols)))))" if "\<And>t x. keeps sy_readers (h t x)" for g h b e f
    using that by (intro blocked_keeps [OF keeps_readers(3)] blocked_keeps [OF keeps_mapME])
  then have "blocked 1 (bindE RLatch (\<lambda>_. bindE (try_meta g) (\<lambda>t. bindE (mapME (h t) names) (\<lambda>cols. bindE RUnLatch (\<lambda>_. if b t cols then throwE (e t cols)
      else bindE WLatch (f t cols))))))" if "\<And>t x. keeps sy_readers (h t x)" for g h b e f
    by (intro blocked_latch(2)) (unfold one_add_one, rule two, rule that)
  then show ?thesis
    unfolding sm_create_index_def Let_def
    by (intro blocked_keeps frame_rules) (auto intro!: blocked_latch blocked_keeps frame_rules)
qed

lemma find_cols_fails:
  assumes "c \<in> set names" and "c \<notin> cm_name ` set (tm_cols t)"
  shows "\<exists>c' \<in> set names. c' \<notin> cm_name ` set (tm_cols t) \<and> mapME (\<lambda>c. liftR (get_col t c)) names s = (Inl (Throw (ColumnNotFoundError c')), s)"
  using assms
proof (induction names)
  case (Cons x xs)
  show ?case
  proof (cases "x \<in> cm_name ` set (tm_cols t)")
    case True
    then obtain y where y: "get_col t x = Inr y" by (fastforce simp: get_col_def find_None_iff split: option.splits)
    have "c \<in> set xs" using True Cons.prems by auto
    from Cons.IH [OF this Cons.prems(2)] obtain c' where "c' \<in> set xs" "c' \<notin> cm_name ` set (tm_cols t)"
      "mapME (\<lambda>c. liftR (get_col t c)) xs s = (Inl (Throw (ColumnNotFoundError c')), s)" by blast
    then show ?thesis using y by (intro bexI [of _ c']) (simp_all add: liftR_def bindE_Inl)
  next
    case False
    then have "get_col t x = Inl (Throw (ColumnNotFoundError x))"
      by (auto simp: get_col_def find_Some_iff split: option.splits)
    then show ?thesis using False by (intro bexI [of _ x]) (auto simp add: bindE_def liftR_def throwE_def)
  qed
qed simp

text \<open>
  C27: \<^verbatim>\<open>create_index\<close> on a column the table does not have throws \<^verbatim>\<open>ColumnNotFoundError\<close> with the shared latch of
  the catalogue held. From then on no statement that changes the catalogue completes: in a state
  with a reader left over \<^verbatim>\<open>create_table\<close>, \<^verbatim>\<open>drop_table\<close>, \<^verbatim>\<open>create_index\<close> and \<^verbatim>\<open>drop_index\<close> never return normally.
\<close>

theorem unknown_column_blocks_catalogue:
  assumes "get_table (sy_db s) tab = Inr t" and "is_table (sy_db s) tab" and "\<not> ix_exists tab names (disk (sy_bp s))"
    and "c \<in> set names" and "c \<notin> cm_name ` set (tm_cols t)"
  shows "(\<exists>c' \<in> set names. c' \<notin> cm_name ` set (tm_cols t)
      \<and> sm_create_index k n tab names ctx s = (Inl (Throw (ColumnNotFoundError c')), s\<lparr>sy_readers := sy_readers s + 1\<rparr>))
    \<and> (\<forall>s' tab' names' defs ctx' k' n' x. 0 < sy_readers s' \<longrightarrow>
         fst (create_table tab' defs s') \<noteq> Inr x \<and> fst (drop_table tab' s') \<noteq> Inr x
         \<and> fst (sm_create_index k' n' tab' names' ctx' s') \<noteq> Inr x \<and> fst (drop_index tab' names' s') \<noteq> Inr x)"
proof -
  define s1 where "s1 = s\<lparr>sy_readers := sy_readers s + 1\<rparr>"
  obtain c' where c': "c' \<in> set names" "c' \<notin> cm_name ` set (tm_cols t)"
    "mapME (\<lambda>c. liftR (get_col t c)) names s1 = (Inl (Throw (ColumnNotFoundError c')), s1)"
    using find_cols_fails [OF assms(4,5), of s1] by (elim bexE conjE) (rule that)
  have "bindE RLatch k s = k () s1" for k :: "unit \<Rightarrow> (Sys, unit) stm" by (simp add: s1_def RLatch_def modifyE_def bindE_def)
  moreover have "try_meta (\<lambda>db. get_table db tab) s1 = (Inr t, s1)"
    using assms(1) by (simp add: try_meta_def bindE_getsE liftR_def returnE_def s1_def)
  ultimately have "sm_create_index k n tab names ctx s = (Inl (Throw (ColumnNotFoundError c')), s1)"
    using assms(2,3) by (simp add: sm_create_index_def bindE_getsE bindE_Inr bindE_Inl [where f = "mapME (\<lambda>c. liftR (get_col t c)) names", OF c'(3)])
  then have "\<exists>c' \<in> set names. c' \<notin> cm_name ` set (tm_cols t)
      \<and> sm_create_index k n tab names ctx s = (Inl (Throw (ColumnNotFoundError c')), s\<lparr>sy_readers := sy_readers s + 1\<rparr>)"
    unfolding s1_def using c'(1,2) by blast
  then show ?thesis
    using create_table_blocked drop_table_blocked create_index_blocked drop_index_blocked by (auto simp: blocked_def Suc_le_eq)
qed

theorem unknown_column_blocks_catalogue_witness:
  "sm_create_index 10 10 ''t'' [''b''] None demo_state = (Inl (Throw (ColumnNotFoundError ''b'')), demo_state\<lparr>sy_readers := 1\<rparr>)
   \<and> fst (create_table ''u'' [] (demo_state\<lparr>sy_readers := 1\<rparr>)) \<noteq> Inr ()"
proof -
  have "get_table (sy_db demo_state) ''t'' = Inr \<lparr>tm_name = ''t'', tm_cols = demo_cols, tm_indexes = []\<rparr>"
    "is_table (sy_db demo_state) ''t''" "\<not> ix_exists ''t'' [''b''] (disk (sy_bp demo_state))" "''b'' \<notin> cm_name ` set demo_cols"
    "sy_readers demo_state = 0"
    by (simp_all add: get_table_def is_table_def demo_state_def ix_exists_def is_file_def bp_init_def demo_disk_def get_index_name_def index_file_name_def
        demo_cols_def LOG_FILE_NAME_def)
  then show ?thesis using unknown_column_blocks_catalogue [of demo_state "''t''" _ "[''b'']" "''b''" 10 10 None] by auto
qed

end
