(* ===== verification/Recovery.thy ===== *)
theory Recovery
  imports Txn_Manager
begin

text \<open>
  \<^verbatim>\<open>RecoveryManager\<close> of \<^verbatim>\<open>recovery/log_recovery.{h,cpp}\<close>. The three phases run over the system state
  (\<open>rc_sys\<close>) and the tables of the recovery manager. A loop over the log ends only if the offsets
  reach the end of the file, and redoing an insertion may not return, so the phases are partial: None
  is a run that never ends. \<open>junk n\<close> is the contents of a new array of \<open>n\<close> bytes, which
  \<^verbatim>\<open>read_log\<close> overwrites only as far as the file reaches.
\<close>

section \<open>State\<close>

text \<open>\<open>last_lsn\<close> and \<open>last_txn\<close> are the local variables of \<^verbatim>\<open>analyze\<close>.\<close>

record RecoveryManager =
  rc_sys :: Sys
  undo_list :: "txn_id_t set"
  lsn_offset_table :: "lsn_t \<rightharpoonup> int"
  rc_prevlsn_table :: "lsn_t \<rightharpoonup> lsn_t"
  offset_list :: "int list"
  last_lsn :: lsn_t
  last_txn :: txn_id_t

definition new_RecoveryManager :: "Sys \<Rightarrow> RecoveryManager" where
  "new_RecoveryManager s =
     \<lparr>rc_sys = s, undo_list = {}, lsn_offset_table = Map.empty, rc_prevlsn_table = Map.empty, offset_list = [],
      last_lsn = 0, last_txn = 0\<rparr>"

definition in_sys :: "(Sys, 'a) stm \<Rightarrow> (RecoveryManager, 'a) stm" where
  "in_sys m R = (case m (rc_sys R) of (r, s) \<Rightarrow> (r, R\<lparr>rc_sys := s\<rparr>))"

definition in_sysP :: "(Sys, 'a) pstm \<Rightarrow> (RecoveryManager, 'a) pstm" where
  "in_sysP m R = (case m (rc_sys R) of None \<Rightarrow> None | Some (r, s) \<Rightarrow> Some (r, R\<lparr>rc_sys := s\<rparr>))"

section \<open>Reading the log\<close>

text \<open>
  \<^verbatim>\<open>LogRecord::deserialize\<close>. The phases compare the type with the enumeration only, so a number
  outside it acts like \<^const>\<open>CREATE_INDEX\<close>, which no branch mentions.
\<close>

definition log_header :: "bytes \<Rightarrow> LogRecord" where
  "log_header src =
     \<lparr>log_type = (case logtype_of_code (rd_i32 0 src) of None \<Rightarrow> CREATE_INDEX | Some t \<Rightarrow> t), lsn = rd_i32 OFFSET_LSN src,
      log_tot_len = dec_u (mem_get OFFSET_LOG_TOT_LEN 4 src), log_tid = rd_i32 OFFSET_LOG_TID src,
      prev_lsn = rd_i32 OFFSET_PREV_LSN src, undo_next = rd_i32 OFFSET_UNDO_NEXT src\<rparr>"

text \<open>
  The loop \<^verbatim>\<open>while (read_log(log_hdr, LOG_HEADER_SIZE, offset) > 0)\<close> of \<^verbatim>\<open>analyze\<close> and \<^verbatim>\<open>redo\<close>; \<open>hdr\<close> is
  the array \<^verbatim>\<open>log_hdr\<close>, which keeps its old bytes behind what was read.
\<close>

partial_function (option) scan_log ::
  "(int \<Rightarrow> LogRecord \<Rightarrow> (RecoveryManager, unit) pstm) \<Rightarrow> int \<Rightarrow> bytes \<Rightarrow> RecoveryManager
     \<Rightarrow> ((exc + unit) \<times> RecoveryManager) option" where
  "scan_log body off hdr R =
     (case in_sys (on_disk (read_log (int LOG_HEADER_SIZE) off)) R of
        (Inl e, R1) \<Rightarrow> Some (Inl e, R1)
      | (Inr (n, r), R1) \<Rightarrow>
          if n \<le> 0 then Some (Inr (), R1)
          else
            (case body off (log_header (mem_put 0 r hdr)) R1 of
               None \<Rightarrow> None
             | Some (Inl e, R2) \<Rightarrow> Some (Inl e, R2)
             | Some (Inr _, R2) \<Rightarrow>
                 scan_log body (wrap_i32 (off + log_tot_len (log_header (mem_put 0 r hdr)))) (mem_put 0 r hdr) R2))"

text \<open>
  \<^verbatim>\<open>log_buf\<close>: the whole record; the size is converted to \<^verbatim>\<open>int\<close>. Reading a record whose sizes lead beyond
  the array is an access outside it, and a negative size of a value cannot be allocated.
\<close>

definition read_body :: "(nat \<Rightarrow> bytes) \<Rightarrow> LogRecord \<Rightarrow> int \<Rightarrow> (RecoveryManager, bytes) stm" where
  "read_body junk log off =
     bindE (in_sys (on_disk (read_log (wrap_i32 (log_tot_len log)) off))) (\<lambda>(n, r).
     returnE (mem_put 0 r (junk (nat (log_tot_len log)))))"

definition value_end :: "nat \<Rightarrow> bytes \<Rightarrow> nat" where
  "value_end off src = off + 4 + nat (rd_i32 off src)"

definition name_end :: "nat \<Rightarrow> bytes \<Rightarrow> nat" where
  "name_end off src = off + 16 + nat (dec_u (mem_get (off + 8) 8 src))"

definition parse_row :: "bytes \<Rightarrow> exc + RowLogRecord" where
  "parse_row src =
     (if length src < name_end (value_end OFFSET_LOG_DATA src) src then Inl OutOfRange
      else (case row_deserialize src of None \<Rightarrow> Inl OutOfRange | Some r \<Rightarrow> Inr r))"

definition parse_update :: "bytes \<Rightarrow> exc + UpdateLogRecord" where
  "parse_update src =
     (if length src < name_end (value_end (value_end OFFSET_LOG_DATA src) src) src then Inl OutOfRange
      else (case UpdateLogRecord_deserialize src of None \<Rightarrow> Inl OutOfRange | Some r \<Rightarrow> Inr r))"

section \<open>Rolling back\<close>

text \<open>The recovery manager repeats the three rollback functions of the transaction manager word for word.\<close>

definition rc_rollback_insert :: "nat \<Rightarrow> string \<Rightarrow> Rid \<Rightarrow> (Sys, unit) pstm" where
  "rc_rollback_insert n tab rid =
     liftP (bindE (try_meta (\<lambda>db. get_table db tab)) (\<lambda>t.
            bindE (at_table None tab (\<lambda>fd. get_record fd rid)) (\<lambda>rec.
            bindE (erase_keys n IndexMeta_get_index_name (tm_indexes t) rec) (\<lambda>_.
            at_table None tab (\<lambda>fd. delete_record_recovery fd rid)))))"

definition rc_rollback_delete :: "nat \<Rightarrow> string \<Rightarrow> Rid \<Rightarrow> bytes \<Rightarrow> (Sys, unit) pstm" where
  "rc_rollback_delete n tab rid rec =
     bindP (liftP (try_meta (\<lambda>db. get_table db tab))) (\<lambda>t.
     bindP (liftP (at_table None tab (\<lambda>_. returnE ()))) (\<lambda>_.
     bindP (liftP (enter_keys n IndexMeta_get_index_name (tm_indexes t) rec rid)) (\<lambda>_.
     at_tableP tab (\<lambda>fd. insert_record_at fd rid rec))))"

definition rc_rollback_update :: "nat \<Rightarrow> string \<Rightarrow> Rid \<Rightarrow> bytes \<Rightarrow> (Sys, unit) pstm" where
  "rc_rollback_update n tab rid rec =
     bindP (liftP (try_meta (\<lambda>db. get_table db tab))) (\<lambda>t.
     bindP (liftP (at_table None tab (\<lambda>fd. get_record fd rid))) (\<lambda>cur.
     bindP (liftP (erase_keys n IndexMeta_get_index_name (tm_indexes t) cur)) (\<lambda>_.
     bindP (at_tableP tab (\<lambda>fd. insert_record_at fd rid rec)) (\<lambda>_.
     liftP (enter_keys n (\<lambda>m. get_index_name_cols tab (im_cols m)) (tm_indexes t) rec rid)))))"

section \<open>analyze\<close>

definition recreate_table :: "TabMeta \<Rightarrow> (Sys, unit) stm" where
  "recreate_table t =
     bindE (drop_table (tm_name t)) (\<lambda>_.
     create_table (tm_name t) (map (\<lambda>c. \<lparr>cd_name = cm_name c, cd_type = cm_type c, cd_len = cm_len c\<rparr>) (tm_cols t)))"

definition recreate_tables :: "(Sys, unit) stm" where
  "recreate_tables = bindE (getsE (\<lambda>s. map snd (db_tabs (sy_db s)))) (forE recreate_table)"

definition note_record :: "int \<Rightarrow> LogRecord \<Rightarrow> RecoveryManager \<Rightarrow> RecoveryManager" where
  "note_record off log R =
     R\<lparr>offset_list := offset_list R @ [off],
       lsn_offset_table := map_insert (lsn log) off (lsn_offset_table R),
       rc_prevlsn_table := map_insert (lsn log) (prev_lsn log) (rc_prevlsn_table R),
       last_lsn := lsn log,
       last_txn := (if log_tid log > last_txn R then log_tid log else last_txn R)\<rparr>"

definition finish_analyze :: "RecoveryManager \<Rightarrow> RecoveryManager" where
  "finish_analyze R =
     R\<lparr>rc_sys := set_txn_id_num (wrap_i32 (last_txn R + 1))
        ((rc_sys R)\<lparr>sy_log := set_lsn (wrap_i32 (last_lsn R + 1)) (sy_log (rc_sys R))\<rparr>)\<rparr>"

definition analyze :: "(nat \<Rightarrow> bytes) \<Rightarrow> (RecoveryManager, unit) pstm" where
  "analyze junk =
     bindP (liftP (in_sys recreate_tables)) (\<lambda>_.
     bindP (liftP (modifyE (\<lambda>R. R\<lparr>last_lsn := 0, last_txn := 0\<rparr>))) (\<lambda>_.
     bindP (scan_log (\<lambda>off log. liftP (modifyE (note_record off log))) 0 (junk LOG_HEADER_SIZE)) (\<lambda>_.
     liftP (modifyE finish_analyze))))"

section \<open>redo\<close>

definition redo_record :: "nat \<Rightarrow> (nat \<Rightarrow> bytes) \<Rightarrow> int \<Rightarrow> LogRecord \<Rightarrow> (RecoveryManager, unit) pstm" where
  "redo_record n junk off log =
     bindP (liftP (modifyE (\<lambda>R. R\<lparr>lsn_offset_table := map_insert (lsn log) off (lsn_offset_table R)\<rparr>))) (\<lambda>_.
     bindP (liftP (read_body junk log off)) (\<lambda>buf.
       if log_type log = DELETE \<or> log_type log = CLR_INSERT then
         bindP (liftP (liftR (parse_row buf))) (\<lambda>r. in_sysP (rc_rollback_insert n (row_table r) (row_rid r)))
       else if log_type log = INSERT \<or> log_type log = CLR_DELETE then
         bindP (liftP (liftR (parse_row buf))) (\<lambda>r. in_sysP (rc_rollback_delete n (row_table r) (row_rid r) (row_value r)))
       else if log_type log = UPDATE \<or> log_type log = CLR_UPDATE then
         bindP (liftP (liftR (parse_update buf))) (\<lambda>r. in_sysP (rc_rollback_update n (upd_table r) (upd_rid r) (new_value r)))
       else if log_type log = BEGIN then
         liftP (modifyE (\<lambda>R. R\<lparr>undo_list := insert (log_tid log) (undo_list R)\<rparr>))
       else if log_type log = COMMIT \<or> log_type log = ABORT then
         liftP (bindE (getsE (\<lambda>R. log_tid log \<in> undo_list R)) (\<lambda>there.
                bindE (assertE there) (\<lambda>_.
                modifyE (\<lambda>R. R\<lparr>undo_list := undo_list R - {log_tid log}\<rparr>))))
       else liftP (returnE ())))"

definition redo :: "nat \<Rightarrow> (nat \<Rightarrow> bytes) \<Rightarrow> (RecoveryManager, unit) pstm" where
  "redo n junk = scan_log (redo_record n junk) 0 (junk LOG_HEADER_SIZE)"

section \<open>undo\<close>

text \<open>\<^verbatim>\<open>lsn_prevlsn_table_[l]\<close> of the recovery manager enters 0 for an absent lsn.\<close>

definition prev_link :: "lsn_t \<Rightarrow> (RecoveryManager, lsn_t) stm" where
  "prev_link l R =
     (case rc_prevlsn_table R l of
        Some p \<Rightarrow> (Inr p, R)
      | None \<Rightarrow> (Inr 0, R\<lparr>rc_prevlsn_table := (rc_prevlsn_table R)(l \<mapsto> 0)\<rparr>))"

definition log_clr :: "(log_state, lsn_t) stm \<Rightarrow> (RecoveryManager, unit) pstm" where
  "log_clr gen = liftP (bindE (in_sys (in_logger gen)) (\<lambda>_. returnE ()))"

text \<open>The undo link of an insertion is looked up under the lsn before it, the other two under the record's own.\<close>

definition undo_record :: "nat \<Rightarrow> (nat \<Rightarrow> bytes) \<Rightarrow> int \<Rightarrow> (RecoveryManager, unit) pstm" where
  "undo_record n junk off =
     bindP (liftP (in_sys (on_disk (read_log (int LOG_HEADER_SIZE) off)))) (\<lambda>(ret, hdr).
     bindP (liftP (assertE (ret > 0))) (\<lambda>_.
     let log = log_header (mem_put 0 hdr (junk LOG_HEADER_SIZE)) in
     bindP (liftP (getsE (\<lambda>R. log_tid log \<in> undo_list R))) (\<lambda>loser.
       if \<not> loser then liftP (returnE ())
       else
     bindP (liftP (read_body junk log off)) (\<lambda>buf.
       if log_type log = DELETE then
         bindP (liftP (liftR (parse_row buf))) (\<lambda>r.
         bindP (in_sysP (rc_rollback_delete n (row_table r) (row_rid r) (row_value r))) (\<lambda>_.
         bindP (liftP (prev_link (lsn r))) (\<lambda>p.
         log_clr (gen_log_delete_CLR (log_tid r) p (row_value r) (row_rid r) (row_table r)))))
       else if log_type log = INSERT then
         bindP (liftP (liftR (parse_row buf))) (\<lambda>r.
         bindP (in_sysP (rc_rollback_insert n (row_table r) (row_rid r))) (\<lambda>_.
         bindP (liftP (prev_link (prev_lsn r))) (\<lambda>p.
         log_clr (gen_log_insert_CLR (log_tid r) p (row_value r) (row_rid r) (row_table r)))))
       else if log_type log = UPDATE then
         bindP (liftP (liftR (parse_update buf))) (\<lambda>r.
         bindP (in_sysP (rc_rollback_update n (upd_table r) (upd_rid r) (old_value r))) (\<lambda>_.
         bindP (liftP (prev_link (lsn r))) (\<lambda>p.
         log_clr (gen_log_upadte_CLR (log_tid r) p (old_value r) (new_value r) (upd_rid r) (upd_table r)))))
       else if log_type log = BEGIN then
         liftP (bindE (modifyE (\<lambda>R. R\<lparr>undo_list := undo_list R - {log_tid log}\<rparr>)) (\<lambda>_. assertE (prev_lsn log = INVALID_LSN)))
       else if log_type log = COMMIT \<or> log_type log = ABORT then liftP (throwE AssertFail)
       else liftP (returnE ())))))"

text \<open>\<open>k\<close> bounds the number of records of a table and \<open>n\<close> the number of levels of an index.\<close>

definition rebuild_indexes :: "nat \<Rightarrow> nat \<Rightarrow> (Sys, unit) stm" where
  "rebuild_indexes k n =
     bindE (getsE (\<lambda>s. map snd (db_tabs (sy_db s)))) (forE (\<lambda>t.
       forE (\<lambda>m. sm_create_index k n (tm_name t) (map cm_name (im_cols m)) None) (tm_indexes t)))"

definition undo :: "nat \<Rightarrow> nat \<Rightarrow> (nat \<Rightarrow> bytes) \<Rightarrow> (RecoveryManager, unit) pstm" where
  "undo k n junk R =
     bindP (forP (undo_record n junk) (rev (offset_list R))) (\<lambda>_. liftP (in_sys (rebuild_indexes k n))) R"

text \<open>\<^verbatim>\<open>rmdb.cpp\<close> runs the three phases when a database is opened.\<close>

definition recover :: "nat \<Rightarrow> nat \<Rightarrow> (nat \<Rightarrow> bytes) \<Rightarrow> Sys \<Rightarrow> ((exc + unit) \<times> RecoveryManager) option" where
  "recover k n junk s =
     bindP (analyze junk) (\<lambda>_. bindP (redo n junk) (\<lambda>_. undo k n junk)) (new_RecoveryManager s)"

end
