(* ===== verification/Code_Invar.thy ===== *)
theory Code_Invar
  imports Txn_Manager
begin

text \<open>
  Code that keeps an invariant of its state in every run, also in one that ends in an error: rules that
  follow the structure of the code.
\<close>

section \<open>Code that keeps an invariant\<close>

named_theorems inv_rules \<open>code that keeps an invariant of the state\<close>

definition invar :: "('s \<Rightarrow> bool) \<Rightarrow> ('s, 'a) stm \<Rightarrow> bool" where
  "invar I m \<longleftrightarrow> (\<forall>s. I s \<longrightarrow> I (snd (m s)))"

lemma invarD: "invar I m \<Longrightarrow> I s \<Longrightarrow> m s = (r, s') \<Longrightarrow> I s'"
  unfolding invar_def by force

lemma invar_bindE [inv_rules]: "invar I m \<Longrightarrow> (\<And>x. invar I (k x)) \<Longrightarrow> invar I (bindE m k)"
  unfolding invar_def bindE_def by (auto split: prod.splits sum.splits)

lemma invar_basic [inv_rules]:
  "invar I (returnE x)" "invar I (throwE e)" "invar I (assertE b)" "invar I (getsE h)" "invar I (deref p)" "invar I (liftR y)"
  by (auto simp: invar_def returnE_def throwE_def assertE_def getsE_def deref_def liftR_def split: option.splits sum.splits)

lemma invar_modifyE [inv_rules]: "(\<And>s. I s \<Longrightarrow> I (h s)) \<Longrightarrow> invar I (modifyE h)"
  by (simp add: invar_def modifyE_def)

lemma invar_if [inv_rules]: "(b \<Longrightarrow> invar I m) \<Longrightarrow> (\<not> b \<Longrightarrow> invar I m') \<Longrightarrow> invar I (if b then m else m')"
  by simp

lemma invar_prod [inv_rules]: "(\<And>x y. invar I (k x y)) \<Longrightarrow> invar I (case p of (x, y) \<Rightarrow> k x y)"
  by (cases p) simp

definition invarP :: "('s \<Rightarrow> bool) \<Rightarrow> ('s, 'a) pstm \<Rightarrow> bool" where
  "invarP I m \<longleftrightarrow> (\<forall>s r s'. I s \<longrightarrow> m s = Some (r, s') \<longrightarrow> I s')"

lemma invarP_run: "invarP I m \<Longrightarrow> I s \<Longrightarrow> m s = Some (r, s') \<Longrightarrow> I s'"
  unfolding invarP_def by blast

lemma invarP_bindP [inv_rules]: "invarP I m \<Longrightarrow> (\<And>x. invarP I (k x)) \<Longrightarrow> invarP I (bindP m k)"
proof (unfold invarP_def, intro allI impI)
  fix s r s'
  assume m: "\<forall>s r s'. I s \<longrightarrow> m s = Some (r, s') \<longrightarrow> I s'" and k: "\<And>x. \<forall>s r s'. I s \<longrightarrow> k x s = Some (r, s') \<longrightarrow> I s'"
    and s: "I s" and run: "bindP m k s = Some (r, s')"
  from run obtain q s1 where q: "m s = Some (q, s1)" by (cases "m s") (auto simp: bindP_def)
  have s1: "I s1" using m s q by blast
  show "I s'"
  proof (cases q)
    case (Inl e)
    then show ?thesis using run q s1 by (simp add: bindP_def)
  next
    case (Inr x)
    then have "k x s1 = Some (r, s')" using run q by (simp add: bindP_def)
    then show ?thesis using k [of x] s1 by blast
  qed
qed

lemma invarP_liftP [inv_rules]: "invar I m \<Longrightarrow> invarP I (liftP m)"
  by (auto simp: invarP_def liftP_def dest: invarD)

lemma invarP_if [inv_rules]: "(b \<Longrightarrow> invarP I m) \<Longrightarrow> (\<not> b \<Longrightarrow> invarP I m') \<Longrightarrow> invarP I (if b then m else m')"
  by simp

lemma invarP_if_state [inv_rules]:
  "(b \<Longrightarrow> invarP I m) \<Longrightarrow> (\<not> b \<Longrightarrow> invarP I m') \<Longrightarrow> invarP I (\<lambda>s. if b then m s else m' s)"
  by (cases b) simp_all

lemma invarP_option_state [inv_rules]:
  "invarP I m \<Longrightarrow> (\<And>q. invarP I (k q)) \<Longrightarrow> invarP I (\<lambda>s. case p of None \<Rightarrow> m s | Some q \<Rightarrow> k q s)"
  by (cases p) simp_all

end
