(* ===== verification/Log_Frame.thy ===== *)
theory Log_Frame
  imports Recovery Sys_Tables Code_Invar
begin

text \<open>
  Work on the tables never touches the log file: an invariant of the buffer pool under which
  no frame is ever written to the descriptor of the log, and its preservation by the operations of the
  record manager that recovery uses. It needs nothing about the tables, so it also covers runs that end
  in an error or never.
\<close>

section \<open>The log file on disk\<close>

text \<open>The log is open as \<open>l\<close> with contents \<open>c\<close>, and \<open>P\<close> maps the open descriptors to their files.\<close>

definition log_kept :: "int \<Rightarrow> bytes \<Rightarrow> (int \<Rightarrow> string option) \<Rightarrow> DiskManager \<Rightarrow> bool" where
  "log_kept l c P d \<longleftrightarrow> log_fd d = l \<and> l \<noteq> -1 \<and> files d LOG_FILE_NAME = Some c \<and> fd_path d = P \<and> P l = Some LOG_FILE_NAME"

lemma log_kept_open: "log_open b c \<Longrightarrow> log_kept (log_fd (disk b)) c (fd_path (disk b)) (disk b)"
  by (auto simp: log_kept_def log_open_def fd_path_def elim!: disk_okD)

lemma fd_path_entry:
  "fd_entry d fd = Some (p, pos) \<Longrightarrow> fd_path (d\<lparr>fdtab := (fdtab d)[nat fd := Some (p, pos')]\<rparr>) = fd_path d"
  "fd_entry d fd = Some (p, pos) \<Longrightarrow> fd_path (d\<lparr>files := x, fdtab := (fdtab d)[nat fd := Some (p, pos')]\<rparr>) = fd_path d"
  using fd_entry_update [of d fd] fd_entry_update [of "d\<lparr>files := x\<rparr>" fd] by (auto simp: fd_path_def fun_eq_iff)

lemma log_kept_lseek: "log_kept l c P d \<Longrightarrow> log_kept l c P (os_lseek fd off d)"
  by (auto simp: log_kept_def os_lseek_def fd_path_entry split: option.splits)

lemma log_kept_write: "log_kept l c P d \<Longrightarrow> P fd \<noteq> Some LOG_FILE_NAME \<Longrightarrow> log_kept l c P (snd (os_write fd src d))"
  by (auto simp: log_kept_def os_write_def fd_path_entry split: option.splits) (simp_all add: fd_path_def)

lemma log_kept_read: "log_kept l c P d \<Longrightarrow> log_kept l c P (snd (os_read fd n d))"
  by (auto simp: log_kept_def os_read_def fd_path_entry Let_def split: option.splits)

lemma log_kept_pages [inv_rules]:
  "P fd \<noteq> Some LOG_FILE_NAME \<Longrightarrow> invar (log_kept l c P) (write_page fd pno src)"
  "invar (log_kept l c P) (read_page fd pno n)" "invar (log_kept l c P) (allocate_page fd)"
  using log_kept_write [OF log_kept_lseek] log_kept_read [OF log_kept_lseek]
  by (auto simp: invar_def write_page_def read_page_def Let_def allocate_page_def log_kept_def split: prod.splits) (metis snd_conv)+

section \<open>The buffer pool\<close>

definition page_safe :: "(int \<Rightarrow> string option) \<Rightarrow> Page \<Rightarrow> bool" where
  "page_safe P p \<longleftrightarrow> P (pid_fd (page_id p)) \<noteq> Some LOG_FILE_NAME"

definition log_safe :: "int \<Rightarrow> bytes \<Rightarrow> (int \<Rightarrow> string option) \<Rightarrow> BufferPool \<Rightarrow> bool" where
  "log_safe l c P b \<longleftrightarrow> log_kept l c P (disk b) \<and> length (pages b) = pool_size b \<and> lru_ok (repl b)
     \<and> set (lru_order (repl b)) \<subseteq> {..<pool_size b} \<and> set (free_list b) \<subseteq> {..<pool_size b}
     \<and> (\<forall>pid f. page_table b pid = Some f \<longrightarrow> f < pool_size b \<and> page_safe P (pages b ! f))
     \<and> (\<forall>p \<in> set (pages b). page_dirty p \<longrightarrow> page_safe P p)"

lemma log_safeD:
  assumes "log_safe l c P b"
  shows "log_kept l c P (disk b)" and "length (pages b) = pool_size b" and "lru_ok (repl b)"
    and "set (lru_order (repl b)) \<subseteq> {..<pool_size b}" and "set (free_list b) \<subseteq> {..<pool_size b}"
    and "page_table b pid = Some f \<Longrightarrow> f < pool_size b" and "page_table b pid = Some f \<Longrightarrow> page_safe P (pages b ! f)"
    and "f < pool_size b \<Longrightarrow> page_dirty (pages b ! f) \<Longrightarrow> page_safe P (pages b ! f)"
  using assms by (auto simp: log_safe_def)

text \<open>A pool in the state of the other theorems with no page of the log cached satisfies it.\<close>

lemma log_safe_start:
  assumes "bp_ok b" and "log_open b c" and "\<And>pid. page_table b pid \<noteq> None \<Longrightarrow> pid_fd pid \<noteq> log_fd (disk b)"
  shows "log_safe (log_fd (disk b)) c (fd_path (disk b)) b"
proof -
  have path: "fd_path (disk b) (pid_fd pid) \<noteq> Some LOG_FILE_NAME" if "page_table b pid = Some f" for pid f
  proof -
    have "fd2path (disk b) (pid_fd pid) \<noteq> None" using bp_ok_table(4) [OF assms(1) that] by (simp add: valid_pid_def)
    then obtain p where p: "fd2path (disk b) (pid_fd pid) = Some p" by auto
    then have "p \<noteq> LOG_FILE_NAME" using assms(2) assms(3) [of pid] that disk_ok_inj unfolding log_open_def by blast
    moreover obtain pos where "fd_entry (disk b) (pid_fd pid) = Some (p, pos)" using assms(2) p by (auto simp: log_open_def elim: disk_okD)
    ultimately show ?thesis by (simp add: fd_path_def)
  qed
  have t: "f < pool_size b \<and> page_safe (fd_path (disk b)) (pages b ! f)" if "page_table b pid = Some f" for pid f
    using path [OF that] bp_ok_table [OF assms(1) that] by (simp add: page_safe_def)
  have "page_safe (fd_path (disk b)) (pages b ! f)" if f: "f < pool_size b" "page_dirty (pages b ! f)" for f
  proof -
    have "page_table b (page_id (pages b ! f)) = Some f" using assms(1) f unfolding bp_ok_def by blast
    then show ?thesis using t by blast
  qed
  then show ?thesis
    using assms(1) log_kept_open [OF assms(2)] t unfolding log_safe_def bp_ok_def by (auto simp: in_set_conv_nth)
qed

lemma log_safe_disk: "log_safe l c P b \<Longrightarrow> log_kept l c P d \<Longrightarrow> log_safe l c P (b\<lparr>disk := d\<rparr>)"
  by (simp add: log_safe_def)

lemma log_safe_lift [inv_rules]: "invar (log_kept l c P) m \<Longrightarrow> invar (log_safe l c P) (lift_disk m)"
  unfolding invar_def lift_disk_def
  by (auto split: prod.splits intro!: log_safe_disk) (metis log_safeD(1) snd_conv)

text \<open>Changing one frame; a frame that becomes dirty must belong to a table.\<close>

lemma log_safe_upd:
  assumes "log_safe l c P b" and "page_safe P (g (pages b ! f)) \<or> (page_safe P (pages b ! f) \<longrightarrow> page_safe P (g (pages b ! f))) \<and> (page_dirty (g (pages b ! f)) \<longrightarrow> page_dirty (pages b ! f))"
  shows "log_safe l c P (upd_page f g b)"
proof (cases "f < pool_size b")
  case True
  have "page_safe P (pages (upd_page f g b) ! f')" if "page_table b pid = Some f'" for pid f'
    using that assms log_safeD(2,7) [OF assms(1)] True by (cases "f' = f") (auto simp: upd_page_def)
  moreover have "page_safe P p" if p: "p \<in> set (pages (upd_page f g b))" "page_dirty p" for p
  proof -
    have "p = g (pages b ! f) \<or> p \<in> set (pages b)" using p(1) set_update_subset_insert by (fastforce simp: upd_page_def)
    then show ?thesis
    proof
      assume "p = g (pages b ! f)"
      then show ?thesis using assms(2) p(2) log_safeD(8) [OF assms(1) True] by blast
    next
      assume "p \<in> set (pages b)"
      then show ?thesis using assms(1) p(2) by (simp add: log_safe_def)
    qed
  qed
  ultimately show ?thesis using assms(1) by (auto simp: log_safe_def upd_page_def)
next
  case False
  then have "upd_page f g b = b" using log_safeD(2) [OF assms(1)] by (simp add: upd_page_def list_update_beyond)
  then show ?thesis using assms(1) by simp
qed

lemma log_safe_victim:
  assumes "log_safe l c P b" and "find_victim_page b = (v, b1)"
  shows "log_safe l c P b1" and "v = Some f \<Longrightarrow> f < pool_size b1"
proof -
  have "log_safe l c P b1 \<and> (\<forall>f. v = Some f \<longrightarrow> f < pool_size b1)"
  proof (cases "free_list b")
    case Nil
    obtain v' r where v: "lru_victim (repl b) = (v', r)" by fastforce
    from lru.victim_cases [OF log_safeD(3) [OF assms(1)] v] show ?thesis
      using assms(2) Nil v log_safeD(4) [OF assms(1)] assms(1) by (auto simp: find_victim_page_def log_safe_def)
  next
    case (Cons f fs)
    then show ?thesis using assms by (auto simp: find_victim_page_def log_safe_def)
  qed
  then show "log_safe l c P b1" "v = Some f \<Longrightarrow> f < pool_size b1" by auto
qed

lemma log_safe_table:
  assumes "log_safe l c P b" and "\<And>pid f. t pid = Some f \<Longrightarrow> page_table b pid = Some f \<or> f < pool_size b \<and> page_safe P (pages b ! f)"
  shows "log_safe l c P (b\<lparr>page_table := t\<rparr>)"
  using assms by (fastforce simp: log_safe_def)

lemma log_safe_write_frame: "log_safe l c P b \<Longrightarrow> page_safe P (pages b ! f) \<Longrightarrow> log_safe l c P (snd (write_frame f b))"
  using log_safe_lift [OF log_kept_pages(1)] by (auto simp: write_frame_def invar_def page_safe_def)

text \<open>A victim frame may hold any old page identifier until it gets its new one.\<close>

lemma log_safe_claim:
  assumes "log_safe l c P (b\<lparr>page_table := t\<rparr>)" and "f < pool_size b" and "page_safe P (g (pages b ! f))"
    and "\<And>q f'. page_table b q = Some f' \<Longrightarrow> t q = Some f' \<or> f' = f"
  shows "log_safe l c P (upd_page f g b)"
proof -
  have "log_safe l c P (upd_page f g (b\<lparr>page_table := t\<rparr>))" by (rule log_safe_upd [OF assms(1)]) (use assms(3) in simp)
  then have "log_safe l c P ((upd_page f g (b\<lparr>page_table := t\<rparr>))\<lparr>page_table := page_table b\<rparr>)"
  proof (rule log_safe_table)
    fix q f'
    assume "page_table b q = Some f'"
    then show "page_table (upd_page f g (b\<lparr>page_table := t\<rparr>)) q = Some f'
        \<or> f' < pool_size (upd_page f g (b\<lparr>page_table := t\<rparr>)) \<and> page_safe P (pages (upd_page f g (b\<lparr>page_table := t\<rparr>)) ! f')"
      using assms(4) [of q f'] assms(2,3) log_safeD(2) [OF assms(1)] by (auto simp: upd_page_def)
  qed
  then show ?thesis by (simp add: upd_page_def)
qed

lemma log_safe_evict:
  assumes "log_safe l c P (b\<lparr>page_table := t\<rparr>)" and "f < pool_size b" and "\<And>q f'. page_table b q = Some f' \<Longrightarrow> t q = Some f' \<or> f' = f"
    and "(if page_dirty (pages b ! f) then bindE (write_frame f) (\<lambda>_. k) else returnE ()) b = (r, b')"
    and "k = modifyE (upd_page f (\<lambda>p. p\<lparr>page_dirty := False\<rparr>)) \<or> k = returnE ()"
  shows "log_safe l c P (b'\<lparr>page_table := t\<rparr>)" and "page_table b' = page_table b" and "pool_size b' = pool_size b"
    and "r = Inl e \<Longrightarrow> log_safe l c P b'"
proof -
  have "log_safe l c P (b'\<lparr>page_table := t\<rparr>) \<and> page_table b' = page_table b \<and> pool_size b' = pool_size b \<and> (\<forall>e. r = Inl e \<longrightarrow> log_safe l c P b')"
  proof (cases "page_dirty (pages b ! f)")
    case False
    then show ?thesis using assms by (auto simp: returnE_def)
  next
    case True
    then have ps: "page_safe P (pages b ! f)" using log_safeD(8) [OF assms(1), of f] assms(2) by simp
    obtain r1 d where "write_page (pid_fd (page_id (pages b ! f))) (pid_no (page_id (pages b ! f))) (page_data (pages b ! f)) (disk b) = (r1, d)"
      by fastforce
    then have w: "write_frame f b = (r1, b\<lparr>disk := d\<rparr>)" "write_frame f (b\<lparr>page_table := t\<rparr>) = (r1, b\<lparr>page_table := t, disk := d\<rparr>)"
      by (simp_all add: write_frame_def lift_disk_def)
    then have s1: "log_safe l c P (b\<lparr>page_table := t, disk := d\<rparr>)" using log_safe_write_frame [OF assms(1), of f] ps by simp
    have full: "log_safe l c P (b\<lparr>disk := d\<rparr>)"
      using log_safe_table [OF s1, of "page_table b"] assms(2,3) ps by (simp add: disj_commute) blast
    have s2: "log_safe l c P (upd_page f (\<lambda>p. p\<lparr>page_dirty := False\<rparr>) (b\<lparr>page_table := t, disk := d\<rparr>))"
      by (rule log_safe_upd [OF s1]) (simp add: page_safe_def)
    show ?thesis
      using assms(4,5) True w(1) s1 s2 full by (cases r1) (auto simp: bindE_def modifyE_def returnE_def upd_page_def; simp add: log_safe_def)+
  qed
  then show "log_safe l c P (b'\<lparr>page_table := t\<rparr>)" "page_table b' = page_table b" "pool_size b' = pool_size b"
    "r = Inl e \<Longrightarrow> log_safe l c P b'" by auto
qed

lemma log_safe_fetch [inv_rules]:
  assumes pid: "P (pid_fd pid) \<noteq> Some LOG_FILE_NAME"
  shows "invar (log_safe l c P) (fetch_page pid)"
proof (unfold invar_def, intro allI impI)
  fix b assume b: "log_safe l c P b"
  show "log_safe l c P (snd (fetch_page pid b))"
  proof (cases "page_table b pid")
    case (Some f)
    have "log_safe l c P (b\<lparr>repl := lru_pin (repl b) f\<rparr>)"
      using b lru_ok_pin lru_order_pin by (auto simp: log_safe_def)
    then have "log_safe l c P (upd_page f (\<lambda>p. p\<lparr>page_pins := page_pins p + 1\<rparr>) (b\<lparr>repl := lru_pin (repl b) f\<rparr>))"
      by (rule log_safe_upd) (simp add: page_safe_def)
    then show ?thesis using Some by (simp add: fetch_page_def)
  next
    case None
    obtain v b1 where v: "find_victim_page b = (v, b1)" by fastforce
    note b1 = log_safe_victim [OF b v]
    show ?thesis
    proof (cases v)
      case None
      then show ?thesis using b1(1) v \<open>page_table b pid = None\<close> by (simp add: fetch_page_def)
    next
      case (Some f)
      let ?T = "(page_table b1)(page_id (pages b1 ! f) := None, pid \<mapsto> f)"
      let ?b2 = "b1\<lparr>page_table := ?T\<rparr>"
      obtain r b3 where e: "(if page_dirty (pages ?b2 ! f) then bindE (write_frame f) (\<lambda>_. modifyE (upd_page f (\<lambda>p. p\<lparr>page_dirty := False\<rparr>)))
          else returnE ()) ?b2 = (r, b3)" by fastforce
      have old: "log_safe l c P (?b2\<lparr>page_table := page_table b1\<rparr>)" "f < pool_size ?b2"
        "\<And>q f'. page_table ?b2 q = Some f' \<Longrightarrow> page_table b1 q = Some f' \<or> f' = f"
        using b1 Some by (auto split: if_splits)
      note ev = log_safe_evict [OF old e disjI1 [OF refl]]
      have claim: "log_safe l c P (upd_page f (\<lambda>p. p\<lparr>page_pins := 1, page_id := pid, page_data := zero_page\<rparr>) b3)"
        by (rule log_safe_claim [OF ev(1)]) (use old ev(2,3) pid in \<open>auto simp: page_safe_def split: if_splits\<close>)
      have rest: "invar (log_safe l c P) (bindE (lift_disk (read_page (pid_fd pid) (pid_no pid) PAGE_SIZE)) (\<lambda>r.
          bindE (modifyE (upd_page f (\<lambda>p. p\<lparr>page_data := r\<rparr>))) (\<lambda>_. returnE (Some f))))"
        by (intro inv_rules log_safe_upd) (simp_all add: page_safe_def)
      show ?thesis
        using Some \<open>page_table b pid = None\<close> v e ev(4) rest [unfolded invar_def, rule_format, OF claim]
        by (cases r) (auto simp: fetch_page_def bindE_def [of "modifyE _"] bindE_def [of "if _ then _ else _"] modifyE_def)
    qed
  qed
qed

lemma log_safe_new [inv_rules]:
  assumes fd: "P fd \<noteq> Some LOG_FILE_NAME"
  shows "invar (log_safe l c P) (new_page fd)"
proof (unfold invar_def, intro allI impI)
  fix b assume b: "log_safe l c P b"
  obtain v b1 where v: "find_victim_page b = (v, b1)" by fastforce
  note b1 = log_safe_victim [OF b v]
  show "log_safe l c P (snd (new_page fd b))"
  proof (cases v)
    case None
    then show ?thesis using b1(1) v by (simp add: new_page_def)
  next
    case (Some f)
    let ?b2 = "b1\<lparr>page_table := (page_table b1)(page_id (pages b1 ! f) := None)\<rparr>"
    have b2: "log_safe l c P ?b2" by (rule log_safe_table [OF b1(1)]) (auto split: if_splits)
    obtain r3 b3 where a: "lift_disk (allocate_page fd) ?b2 = (r3, b3)" by fastforce
    have b3: "log_safe l c P b3" by (rule invarD [OF log_safe_lift [OF log_kept_pages(3)] b2 a])
    have same: "pages b3 = pages b1" "pool_size b3 = pool_size b1" "page_table b3 = page_table ?b2"
      using a by (auto simp: lift_disk_def split: prod.splits)
    obtain r b4 where e: "(if page_dirty (pages b3 ! f) then bindE (write_frame f) (\<lambda>_. returnE ()) else returnE ()) b3 = (r, b4)" by fastforce
    have w: "bindE (write_frame f) (\<lambda>_. returnE ()) = write_frame f"
      by (auto simp: fun_eq_iff bindE_def returnE_def split: prod.splits sum.splits)
    have old: "log_safe l c P (b3\<lparr>page_table := page_table b3\<rparr>)" "f < pool_size b3" using b3 b1(2) [OF Some] same(2) by simp_all
    note ev = log_safe_evict [OF old disjI1 e disjI2 [OF refl]]
    show ?thesis
    proof (cases r3)
      case (Inl x)
      then show ?thesis using Some v a b3 by (simp add: new_page_def bindE_def modifyE_def)
    next
      case (Inr pno)
      let ?g = "\<lambda>p. p\<lparr>page_data := zero_page, page_pins := 1, page_dirty := False, page_id := \<lparr>pid_fd = fd, pid_no = pno\<rparr>\<rparr>"
      have s4: "log_safe l c P b4" using ev(1,2) by (simp add: log_safe_def)
      have b5: "log_safe l c P (upd_page f ?g b4)" by (rule log_safe_upd [OF s4]) (use fd in \<open>simp add: page_safe_def\<close>)
      have "log_safe l c P ((upd_page f ?g b4)\<lparr>page_table := (page_table (upd_page f ?g b4))(\<lparr>pid_fd = fd, pid_no = pno\<rparr> \<mapsto> f)\<rparr>)"
        by (rule log_safe_table [OF b5]) (use fd old(2) ev(3) log_safeD(2) [OF s4] in \<open>auto simp: page_safe_def upd_page_def split: if_splits\<close>)
      then show ?thesis
        using Some v a Inr e s4 unfolding w
        by (cases r) (auto simp: new_page_def bindE_def modifyE_def returnE_def same)
    qed
  qed
qed

lemma log_safe_unpin [inv_rules]: "invar (log_safe l c P) (unpinE pid w)"
proof -
  have "log_safe l c P (snd (unpin_page pid w b))" if b: "log_safe l c P b" for b
  proof (cases "page_table b pid")
    case None
    then show ?thesis using b by (simp add: unpin_page_def)
  next
    case (Some f)
    note f = log_safeD(6,7) [OF b Some]
    let ?b1 = "upd_page f (\<lambda>p. p\<lparr>page_pins := page_pins p - 1\<rparr>) b"
    let ?b2 = "if page_pins (pages ?b1 ! f) = 0 then ?b1\<lparr>repl := lru_unpin (repl ?b1) f\<rparr> else ?b1"
    have b1: "log_safe l c P ?b1" by (rule log_safe_upd [OF b]) (simp add: page_safe_def)
    have b2: "log_safe l c P ?b2"
      using b1 f(1) lru_ok_unpin lru_order_unpin by (auto simp: log_safe_def upd_page_def)
    have "page_safe P (pages ?b2 ! f)" using f log_safeD(2) [OF b] by (simp add: upd_page_def page_safe_def)
    then have "log_safe l c P (upd_page f (\<lambda>p. p\<lparr>page_dirty := True\<rparr>) ?b2)"
      by (intro log_safe_upd [OF b2]) (simp add: page_safe_def)
    then show ?thesis using Some b b2 by (auto simp: unpin_page_def Let_def)
  qed
  then show ?thesis by (simp add: unpinE_def invar_def modifyE_def)
qed

lemma log_safe_poke [inv_rules]: "log_safe l c P b \<Longrightarrow> log_safe l c P (poke f x b)"
  unfolding poke_def by (erule log_safe_upd) (simp add: page_safe_def)

section \<open>Record operations\<close>

abbreviation rm_safe :: "int \<Rightarrow> bytes \<Rightarrow> (int \<Rightarrow> string option) \<Rightarrow> RmSys \<Rightarrow> bool" where
  "rm_safe l c P s \<equiv> log_safe l c P (rm_bp s)"

lemma rm_safe_in_bp [inv_rules]: "invar (log_safe l c P) m \<Longrightarrow> invar (rm_safe l c P) (in_bp m)"
  unfolding invar_def in_bp_def by (auto split: prod.splits)

lemma rm_safe_io [inv_rules]:
  "invar (rm_safe l c P) (frame_bytes f)" "invar (rm_safe l c P) (poke_frame f x)" "invar (rm_safe l c P) (unpin_frame f w)"
  "invar (rm_safe l c P) (set_hdr g)" "invar (rm_safe l c P) (check_slot h i)"
  "P fd \<noteq> Some LOG_FILE_NAME \<Longrightarrow> invar (rm_safe l c P) (rm_fetch_page_handle fd p)"
  unfolding frame_bytes_def poke_frame_def unpin_frame_def frame_pid_def set_hdr_def rm_fetch_page_handle_def check_slot_def
  by (intro inv_rules; simp)+

lemma rm_safe_ops:
  assumes fd: "P fd \<noteq> Some LOG_FILE_NAME"
  shows "invar (rm_safe l c P) (get_record fd rid)" and "invar (rm_safe l c P) (delete_record_recovery fd rid)"
    and "invar (rm_safe l c P) (fetch_free_page_handle fd)" and "invar (rm_safe l c P) (place_record fd rid buf)"
  unfolding get_record_def delete_record_recovery_def finish_delete_def fetch_free_page_handle_def place_record_def Let_def
  by (intro inv_rules; simp add: fd)+

lemma free_page_from_safe:
  assumes "free_page_from fd pno s = Some y"
  shows "P fd \<noteq> Some LOG_FILE_NAME \<longrightarrow> rm_safe l c P s \<longrightarrow> rm_safe l c P (snd y)"
proof (rule free_page_from.raw_induct [OF _ assms, where P = "\<lambda>fd pno s y. P fd \<noteq> Some LOG_FILE_NAME \<longrightarrow> rm_safe l c P s \<longrightarrow> rm_safe l c P (snd y)"])
  fix rec fd pno s y
  assume IH: "\<And>fd pno s y. rec fd pno s = Some y \<Longrightarrow> P fd \<noteq> Some LOG_FILE_NAME \<longrightarrow> rm_safe l c P s \<longrightarrow> rm_safe l c P (snd y)"
    and rec: "(case fetch_free_page_handle fd s of (Inl e, s') \<Rightarrow> Some (Inl e, s')
      | (Inr f, s') \<Rightarrow> if pid_no (page_id (pages (rm_bp s') ! f)) < pno then rec fd pno s' else Some (Inr f, s')) = Some y"
  show "P fd \<noteq> Some LOG_FILE_NAME \<longrightarrow> rm_safe l c P s \<longrightarrow> rm_safe l c P (snd y)"
  proof (intro impI)
    assume fd: "P fd \<noteq> Some LOG_FILE_NAME" and s: "rm_safe l c P s"
    obtain q t where q: "fetch_free_page_handle fd s = (q, t)" by fastforce
    have t: "rm_safe l c P t" by (rule invarD [OF rm_safe_ops(3) [where P = P and fd = fd and c = c and l = l, OF fd] s q])
    show "rm_safe l c P (snd y)" using rec t fd IH [of fd pno t y] by (cases q) (auto simp: q split: if_splits)
  qed
qed

lemma insert_record_at_safe: "P fd \<noteq> Some LOG_FILE_NAME \<Longrightarrow> invarP (rm_safe l c P) (insert_record_at fd rid buf)"
proof (unfold invarP_def, intro allI impI)
  fix s r s'
  assume fd: "P fd \<noteq> Some LOG_FILE_NAME" and s: "rm_safe l c P s" and run: "insert_record_at fd rid buf s = Some (r, s')"
  then obtain q t where q: "free_page_from fd (page_no rid) s = Some (q, t)" by (cases "free_page_from fd (page_no rid) s") (auto simp: insert_record_at_def)
  have t: "rm_safe l c P t" using free_page_from_safe [OF q, of P l c] fd s by simp
  show "rm_safe l c P s'"
  proof (cases q)
    case (Inl e)
    then show ?thesis using run q t by (simp add: insert_record_at_def)
  next
    case (Inr f)
    then have "place_record fd rid buf t = (r, s')" using run q by (simp add: insert_record_at_def)
    then show ?thesis by (rule invarD [OF rm_safe_ops(4) [where P = P and fd = fd and c = c and l = l, OF fd] t])
  qed
qed

section \<open>The phases of recovery\<close>

text \<open>No open table is the log, and no table has an index, as after \<^verbatim>\<open>analyze\<close>.\<close>

definition sys_safe :: "int \<Rightarrow> bytes \<Rightarrow> (int \<Rightarrow> string option) \<Rightarrow> Sys \<Rightarrow> bool" where
  "sys_safe l c P s \<longleftrightarrow> log_safe l c P (sy_bp s) \<and> (\<forall>tab fd h. sy_fhs s tab = Some (fd, h) \<longrightarrow> P fd \<noteq> Some LOG_FILE_NAME)
     \<and> (\<forall>e \<in> set (db_tabs (sy_db s)). tm_indexes (snd e) = [])"

lemma sys_safe_put:
  assumes "sys_safe l c P s" and "P fd \<noteq> Some LOG_FILE_NAME" and "log_safe l c P b"
  shows "sys_safe l c P (s\<lparr>sy_bp := b, sy_fhs := (sy_fhs s)(tab \<mapsto> (fd, h)), sy_log := x\<rparr>)"
proof -
  have "P fd' \<noteq> Some LOG_FILE_NAME" if "((sy_fhs s)(tab \<mapsto> (fd, h))) tab' = Some (fd', h')" for tab' fd' h'
    using assms(1,2) that unfolding sys_safe_def by (cases "tab' = tab") auto
  then show ?thesis using assms(1,3) unfolding sys_safe_def by simp
qed

lemma sys_safe_at_table [inv_rules]:
  assumes "\<And>fd. P fd \<noteq> Some LOG_FILE_NAME \<Longrightarrow> invar (rm_safe l c P) (m fd)"
  shows "invar (sys_safe l c P) (at_table None tab m)"
proof (unfold invar_def, intro allI impI)
  fix s assume s: "sys_safe l c P s"
  show "sys_safe l c P (snd (at_table None tab m s))"
  proof (cases "sy_fhs s tab")
    case None
    then show ?thesis using s by (simp add: at_table_def)
  next
    case (Some e)
    obtain fd h where e: "e = (fd, h)" by fastforce
    let ?v = "\<lparr>rm_bp = sy_bp s, rm_hdr = h, rm_log = sy_log s, rm_txn = ctx_txn None s\<rparr>"
    obtain r t where r: "m fd ?v = (r, t)" by fastforce
    have fd: "P fd \<noteq> Some LOG_FILE_NAME" using s Some e unfolding sys_safe_def by blast
    have "rm_safe l c P t" by (rule invarD [OF assms [OF fd] _ r]) (use s in \<open>simp add: sys_safe_def\<close>)
    then show ?thesis using Some e r sys_safe_put [OF s fd] by (auto simp: at_table_def put_txn_def)
  qed
qed

lemma sys_safe_at_tableP [inv_rules]:
  assumes "\<And>fd. P fd \<noteq> Some LOG_FILE_NAME \<Longrightarrow> invarP (rm_safe l c P) (m fd)"
  shows "invarP (sys_safe l c P) (at_tableP tab m)"
proof (unfold invarP_def, intro allI impI)
  fix s q s' assume s: "sys_safe l c P s" and run: "at_tableP tab m s = Some (q, s')"
  show "sys_safe l c P s'"
  proof (cases "sy_fhs s tab")
    case None
    then show ?thesis using s run by (simp add: at_tableP_def)
  next
    case (Some e)
    obtain fd h where e: "e = (fd, h)" by fastforce
    let ?v = "\<lparr>rm_bp = sy_bp s, rm_hdr = h, rm_log = sy_log s, rm_txn = no_txn\<rparr>"
    from run Some e obtain r t where r: "m fd ?v = Some (r, t)" by (cases "m fd ?v") (auto simp: at_tableP_def)
    have fd: "P fd \<noteq> Some LOG_FILE_NAME" using s Some e unfolding sys_safe_def by blast
    have "rm_safe l c P t" using assms [OF fd] r s by (simp add: invarP_def sys_safe_def) (metis RmSys.select_convs(1))
    then show ?thesis using run Some e r sys_safe_put [OF s fd] by (auto simp: at_tableP_def)
  qed
qed

lemma try_meta_run: "bindP (liftP (try_meta (\<lambda>db. get_table db tab))) k s =
   (case get_table (sy_db s) tab of Inl e \<Rightarrow> Some (Inl e, s) | Inr t \<Rightarrow> k t s)"
  by (auto simp: bindP_def liftP_def try_meta_def bindE_getsE liftR_def returnE_def throwE_def split: sum.splits)

lemma no_indexes: "sys_safe l c P s \<Longrightarrow> get_table (sy_db s) tab = Inr t \<Longrightarrow> tm_indexes t = []"
  by (fastforce simp: sys_safe_def get_table_def dest: map_of_SomeD split: option.splits)

lemma invarP_with_table:
  assumes "\<And>t. tm_indexes t = [] \<Longrightarrow> invarP (sys_safe l c P) (k t)"
  shows "invarP (sys_safe l c P) (bindP (liftP (try_meta (\<lambda>db. get_table db tab))) k)"
  using assms no_indexes unfolding invarP_def try_meta_run by (auto split: sum.splits) blast

lemma liftP_bindE: "liftP (bindE m f) = bindP (liftP m) (\<lambda>x. liftP (f x))"
  by (auto simp: fun_eq_iff liftP_def bindP_def bindE_def split: prod.splits sum.splits)

lemma rollback_safe:
  "invarP (sys_safe l c P) (rc_rollback_insert n tab rid)" "invarP (sys_safe l c P) (rc_rollback_delete n tab rid rec)"
  "invarP (sys_safe l c P) (rc_rollback_update n tab rid rec)"
proof -
  show "invarP (sys_safe l c P) (rc_rollback_insert n tab rid)"
    unfolding rc_rollback_insert_def
    by (unfold liftP_bindE, intro invarP_with_table inv_rules rm_safe_ops; simp add: erase_keys_def invar_basic)
  show "invarP (sys_safe l c P) (rc_rollback_delete n tab rid rec)" "invarP (sys_safe l c P) (rc_rollback_update n tab rid rec)"
    unfolding rc_rollback_delete_def rc_rollback_update_def
    by (intro invarP_with_table inv_rules rm_safe_ops insert_record_at_safe; simp add: erase_keys_def enter_keys_def invar_basic)+
qed

end
