(* ===== verification/Recovery_Props.thy ===== *)
theory Recovery_Props
  imports Log_Frame Rm_Props
begin

text \<open>
  Properties of recovery: the loops over the log file visit the records that were appended to it, one
  after the other; \<^verbatim>\<open>analyze\<close> restores the counters and tables from them, \<^verbatim>\<open>redo\<close> is the replay of the
  records in order, and an insertion that was rolled back is inserted again.
\<close>

section \<open>Reading records from the log file\<close>

definition log_bytes :: "AnyLogRecord list \<Rightarrow> bytes" where
  "log_bytes rs = concat (map any_bytes rs)"

definition seek_log :: "int \<Rightarrow> RecoveryManager \<Rightarrow> RecoveryManager" where
  "seek_log p R = R\<lparr>rc_sys := (rc_sys R)\<lparr>sy_bp := (sy_bp (rc_sys R))\<lparr>disk :=
     os_lseek (log_fd (disk (sy_bp (rc_sys R)))) p (disk (sy_bp (rc_sys R)))\<rparr>\<rparr>\<rparr>"

lemma read_log_kept:
  assumes k: "log_kept l c P d" and c: "length c < 2 ^ 31" and off: "off \<le> length c" and sz: "0 < sz"
  shows "read_log sz (int off) d =
    (let n = min (nat sz) (length c - off) in
     if n = 0 then (Inr (0, []), d) else (Inr (int n, mem_get off n c), os_lseek l (int (off + n)) d))"
proof -
  obtain pos where e: "fd_entry d l = Some (LOG_FILE_NAME, pos)" using k by (auto simp: log_kept_def fd_path_def)
  have sz': "get_file_size LOG_FILE_NAME d = int (length c)"
    using k c by (simp add: get_file_size_def os_stat_size_def log_kept_def wrap_i32_id in_i32_def)
  have m: "min sz (int (length c) - int off) = int (min (nat sz) (length c - off))" using sz off by auto
  have "os_read l n (os_lseek l (int off) d) = ((int n, mem_get off n c), os_lseek l (int (off + n)) d)" if "off + n \<le> length c" for n
  proof -
    have e1: "fd_entry (os_lseek l (int off) d) l = Some (LOG_FILE_NAME, off)" using fd_entry_lseek [OF e, of "int off"] by simp
    then show ?thesis
      using k e that by (simp add: os_read_def os_lseek_def log_kept_def Let_def length_mem_get nat_int_add)
  qed
  then show ?thesis
    using k off sz' m by (auto simp: read_log_def bindE_def ensure_log_fd_open log_kept_def Let_def min_def)
qed

abbreviation rc_safe :: "int \<Rightarrow> bytes \<Rightarrow> (int \<Rightarrow> string option) \<Rightarrow> RecoveryManager \<Rightarrow> bool" where
  "rc_safe l c P R \<equiv> sys_safe l c P (rc_sys R)"

lemma rc_safe_kept: "rc_safe l c P R \<Longrightarrow> log_kept l c P (disk (sy_bp (rc_sys R)))"
  by (simp add: sys_safe_def log_safe_def)

lemma seek_safe: "rc_safe l c P R \<Longrightarrow> rc_safe l c P (seek_log p R)"
  using log_kept_lseek by (auto simp: sys_safe_def log_safe_def seek_log_def)

lemma read_log_run:
  assumes s: "rc_safe l c P R" and c: "length c < 2 ^ 31" and off: "off \<le> length c" and sz: "0 < sz"
  shows "in_sys (on_disk (read_log sz (int off))) R =
    (let n = min (nat sz) (length c - off) in
     if n = 0 then (Inr (0, []), R) else (Inr (int n, mem_get off n c), seek_log (int (off + n)) R))"
proof -
  have "log_fd (disk (sy_bp (rc_sys R))) = l" using rc_safe_kept [OF s] by (simp add: log_kept_def)
  then show ?thesis
    by (simp add: in_sys_def on_disk_def in_pool_def lift_disk_def read_log_kept [OF rc_safe_kept [OF s] c off sz] Let_def seek_log_def) (simp add: min_def)
qed

lemma hdr_bytes_truncate [simp]: "hdr_bytes (LogRecord.truncate x) = hdr_bytes x"
  by (simp add: hdr_bytes_def)

lemma any_bytes_hdr: "\<exists>b. any_bytes r = hdr_bytes (log_base r) @ b"
  by (cases r) (auto simp: row_bytes_def upd_bytes_def)

lemma any_ok_hdr: "any_ok r \<Longrightarrow> hdr_ok (log_base r)"
  by (cases r) (auto simp: hdr_ok_def row_ok_def upd_ok_def)

lemma log_header_bytes: "hdr_ok r \<Longrightarrow> log_header (hdr_bytes r @ b) = LogRecord.truncate r"
  by (simp add: hdr_ok_def log_header_def hdr_bytes_def log_offsets rd_i32_skip mem_get_skip LogRecord.truncate_def)

lemma truncate_base [simp]: "LogRecord.truncate (log_base r) = log_base r"
  by (cases r) (simp_all add: LogRecord.truncate_def)

lemma length_any_bytes: "24 \<le> length (any_bytes r)"
  using any_bytes_hdr [of r] by auto

lemma scan_log_step:
  assumes s: "rc_safe l c P R" and c: "length c < 2 ^ 31" "c = pre @ any_bytes r @ post" and ok: "any_ok r" and hdr: "length hdr = 24"
  shows "scan_log body (int (length pre)) hdr R =
    bindP (body (int (length pre)) (log_base r)) (\<lambda>_. scan_log body (int (length pre + length (any_bytes r))) (hdr_bytes (log_base r)))
      (seek_log (int (length pre + 24)) R)"
proof -
  obtain b where b: "any_bytes r = hdr_bytes (log_base r) @ b" using any_bytes_hdr by blast
  have rd: "in_sys (on_disk (read_log (int LOG_HEADER_SIZE) (int (length pre)))) R
      = (Inr (24, hdr_bytes (log_base r)), seek_log (int (length pre + 24)) R)"
    using read_log_run [OF s c(1), of "length pre" "int LOG_HEADER_SIZE"] c(2) b
    by (simp add: log_offsets Let_def mem_get_def)
  have h: "log_header (hdr_bytes (log_base r)) = log_base r" "mem_put 0 (hdr_bytes (log_base r)) hdr = hdr_bytes (log_base r)"
    using log_header_bytes [OF any_ok_hdr [OF ok], of "[]"] hdr by (simp_all add: mem_put_def)
  have "wrap_i32 (int (length pre) + log_tot_len (log_base r)) = int (length pre + length (any_bytes r))"
    using any_ok_length [OF ok] c by (simp add: wrap_i32_id in_i32_def)
  then show ?thesis
    by (subst scan_log.simps) (auto simp: rd h bindP_def split: option.splits sum.splits)
qed

fun run_log :: "(int \<Rightarrow> AnyLogRecord \<Rightarrow> (RecoveryManager, unit) pstm) \<Rightarrow> int \<Rightarrow> AnyLogRecord list \<Rightarrow> (RecoveryManager, unit) pstm" where
  "run_log body off [] = liftP (returnE ())"
| "run_log body off (r # rs) =
     bindP (liftP (modifyE (seek_log (off + 24)))) (\<lambda>_.
     bindP (body off r) (\<lambda>_. run_log body (off + int (length (any_bytes r))) rs))"

lemma bindP_cong: "m s = m' s \<Longrightarrow> (\<And>x s'. m s = Some (Inr x, s') \<Longrightarrow> k x s' = k' x s') \<Longrightarrow> bindP m k s = bindP m' k' s"
  by (auto simp: bindP_def split: option.splits sum.splits prod.splits)

lemma scan_log_run:
  assumes s: "rc_safe l c P R" and c: "length c < 2 ^ 31" "c = pre @ log_bytes rs" and ok: "\<forall>r \<in> set rs. any_ok r" and hdr: "length hdr = 24"
    and body: "\<And>pre r post R. c = pre @ any_bytes r @ post \<Longrightarrow> r \<in> set rs \<Longrightarrow> rc_safe l c P R \<Longrightarrow>
      body (int (length pre)) (log_base r) R = body' (int (length pre)) r R"
    and inv: "\<And>off r. invarP (rc_safe l c P) (body' off r)"
  shows "scan_log body (int (length pre)) hdr R = run_log body' (int (length pre)) rs R"
  using c(2) s ok hdr body
proof (induction rs arbitrary: pre R hdr)
  case Nil
  then have "in_sys (on_disk (read_log (int LOG_HEADER_SIZE) (int (length pre)))) R = (Inr (0, []), R)"
    using read_log_run [OF Nil.prems(2) c(1), of "length pre" "int LOG_HEADER_SIZE"] by (simp add: log_bytes_def log_offsets)
  then show ?case by (subst scan_log.simps) (simp add: liftP_def returnE_def)
next
  case (Cons r rs)
  let ?p = "int (length pre)" and ?R = "seek_log (int (length pre + 24)) R"
  have c': "c = pre @ any_bytes r @ log_bytes rs" "c = (pre @ any_bytes r) @ log_bytes rs" using Cons.prems(1) by (simp_all add: log_bytes_def)
  have rok: "any_ok r" using Cons.prems(3) by simp
  have R: "rc_safe l c P ?R" by (rule seek_safe [OF Cons.prems(2)])
  have b: "body ?p (log_base r) ?R = body' ?p r ?R" by (rule Cons.prems(5) [OF c'(1) _ R]) simp
  have "scan_log body (int (length (pre @ any_bytes r))) (hdr_bytes (log_base r)) R1 = run_log body' (int (length (pre @ any_bytes r))) rs R1"
    if "body ?p (log_base r) ?R = Some (Inr x, R1)" for x R1
  proof (rule Cons.IH [OF c'(2)])
    show "rc_safe l c P R1" using inv [of ?p r] R that b unfolding invarP_def by metis
  qed (use Cons.prems in auto)
  then have "bindP (body ?p (log_base r)) (\<lambda>_. scan_log body (int (length pre + length (any_bytes r))) (hdr_bytes (log_base r))) ?R
      = bindP (body' ?p r) (\<lambda>_. run_log body' (?p + int (length (any_bytes r))) rs) ?R"
    by (intro bindP_cong b) simp
  then show ?case
    using scan_log_step [OF Cons.prems(2) c(1) c'(1) rok Cons.prems(4), of body] by (simp add: bindP_def liftP_def modifyE_def add.commute)
qed

section \<open>analyze\<close>

fun note_records :: "int \<Rightarrow> AnyLogRecord list \<Rightarrow> RecoveryManager \<Rightarrow> RecoveryManager" where
  "note_records off [] R = R"
| "note_records off (r # rs) R = note_records (off + int (length (any_bytes r))) rs (note_record off (log_base r) (seek_log (off + 24) R))"

lemma run_note: "run_log (\<lambda>off r. liftP (modifyE (note_record off (log_base r)))) off rs R = Some (Inr (), note_records off rs R)"
  by (induction rs arbitrary: off R) (simp_all add: bindP_def liftP_def modifyE_def returnE_def)

text \<open>The offsets at which the records start.\<close>

fun starts :: "int \<Rightarrow> AnyLogRecord list \<Rightarrow> int list" where
  "starts off [] = []"
| "starts off (r # rs) = off # starts (off + int (length (any_bytes r))) rs"

lemma note_record_simps [simp]:
  "offset_list (note_record off h R) = offset_list R @ [off]" "undo_list (note_record off h R) = undo_list R"
  "last_lsn (note_record off h R) = lsn h" "last_txn (note_record off h R) = max (last_txn R) (log_tid h)"
  "rc_sys (note_record off h R) = rc_sys R"
  "lsn_offset_table (note_record off h R) = map_insert (lsn h) off (lsn_offset_table R)"
  "rc_prevlsn_table (note_record off h R) = map_insert (lsn h) (prev_lsn h) (rc_prevlsn_table R)"
  by (auto simp: note_record_def)

lemma seek_log_simps [simp]:
  "offset_list (seek_log p R) = offset_list R" "undo_list (seek_log p R) = undo_list R" "last_lsn (seek_log p R) = last_lsn R"
  "last_txn (seek_log p R) = last_txn R" "lsn_offset_table (seek_log p R) = lsn_offset_table R"
  "rc_prevlsn_table (seek_log p R) = rc_prevlsn_table R"
  "sy_log (rc_sys (seek_log p R)) = sy_log (rc_sys R)" "sy_db (rc_sys (seek_log p R)) = sy_db (rc_sys R)"
  "sy_fhs (rc_sys (seek_log p R)) = sy_fhs (rc_sys R)" "sy_next_txn (rc_sys (seek_log p R)) = sy_next_txn (rc_sys R)"
  by (simp_all add: seek_log_def)

lemma note_records_result:
  "offset_list (note_records off rs R) = offset_list R @ starts off rs" "undo_list (note_records off rs R) = undo_list R"
  "rs \<noteq> [] \<Longrightarrow> last_lsn (note_records off rs R) = lsn (log_base (last rs))"
  "last_txn (note_records off rs R) = fold max (map (\<lambda>r. log_tid (log_base r)) rs) (last_txn R)"
  "sy_log (rc_sys (note_records off rs R)) = sy_log (rc_sys R)" "sy_db (rc_sys (note_records off rs R)) = sy_db (rc_sys R)"
  "rc_safe l c P R \<Longrightarrow> rc_safe l c P (note_records off rs R)"
  by (induction rs arbitrary: off R) (simp_all add: max.commute seek_safe)

lemma note_records_tables:
  assumes "distinct (map (\<lambda>r. lsn (log_base r)) rs)" and "\<And>r. r \<in> set rs \<Longrightarrow> lsn_offset_table R (lsn (log_base r)) = None"
    and "\<And>r. r \<in> set rs \<Longrightarrow> rc_prevlsn_table R (lsn (log_base r)) = None" and "i < length rs"
  shows "lsn_offset_table (note_records off rs R) (lsn (log_base (rs ! i))) = Some (starts off rs ! i)"
    and "rc_prevlsn_table (note_records off rs R) (lsn (log_base (rs ! i))) = Some (prev_lsn (log_base (rs ! i)))"
proof -
  have keep: "lsn_offset_table (note_records off rs R) x = lsn_offset_table R x \<and> rc_prevlsn_table (note_records off rs R) x = rc_prevlsn_table R x"
    if "x \<notin> (\<lambda>r. lsn (log_base r)) ` set rs" for x rs R off
    using that by (induction rs arbitrary: off R) (auto simp: map_insert_def split: option.splits)
  have "lsn_offset_table (note_records off rs R) (lsn (log_base (rs ! i))) = Some (starts off rs ! i)
      \<and> rc_prevlsn_table (note_records off rs R) (lsn (log_base (rs ! i))) = Some (prev_lsn (log_base (rs ! i)))"
    using assms
  proof (induction rs arbitrary: off R i)
    case (Cons r rs)
    show ?case
    proof (cases i)
      case 0
      have "lsn (log_base r) \<notin> (\<lambda>r. lsn (log_base r)) ` set rs" using Cons.prems(1) by auto
      from keep [OF this] show ?thesis using 0 Cons.prems(2,3) [of r] by (simp add: map_insert_def)
    next
      case (Suc j)
      let ?R = "note_record off (log_base r) (seek_log (off + 24) R)"
      have ne: "lsn (log_base q) \<noteq> lsn (log_base r)" if "q \<in> set rs" for q
        using Cons.prems(1) that by (metis (mono_tags, lifting) distinct.simps(2) image_eqI list.set_map list.simps(9))
      have "lsn_offset_table ?R (lsn (log_base q)) = None" "rc_prevlsn_table ?R (lsn (log_base q)) = None" if "q \<in> set rs" for q
        using Cons.prems(2,3) [of q] Cons.prems(2,3) [of r] ne [OF that] that by (auto simp: map_insert_def)
      then show ?thesis using Cons.IH [of ?R j "off + int (length (any_bytes r))"] Cons.prems(1,4) Suc by simp
    qed
  qed simp
  then show "lsn_offset_table (note_records off rs R) (lsn (log_base (rs ! i))) = Some (starts off rs ! i)"
    and "rc_prevlsn_table (note_records off rs R) (lsn (log_base (rs ! i))) = Some (prev_lsn (log_base (rs ! i)))" by auto
qed

text \<open>
  \<^verbatim>\<open>analyze\<close> on a log file that holds exactly the records \<open>rs\<close> reads them all and ends: the list of
  offsets is where each record starts, the two tables map every lsn to the offset and to the previous lsn
  of its transaction, the next lsn is one more than that of the last record and the next
  transaction id one more than the largest that occurs.
\<close>

theorem analyze_reads_log:
  assumes run: "recreate_tables s = (Inr (), s1)" and s1: "sys_safe l (log_bytes rs) P s1" and len: "length (log_bytes rs) < 2 ^ 31"
    and ok: "\<forall>r \<in> set rs. any_ok r" and lsns: "distinct (map (\<lambda>r. lsn (log_base r)) rs)" and junk: "length (junk LOG_HEADER_SIZE) = LOG_HEADER_SIZE"
  shows "\<exists>R. analyze junk (new_RecoveryManager s) = Some (Inr (), R)
    \<and> offset_list R = starts 0 rs \<and> undo_list R = {}
    \<and> (\<forall>i < length rs. lsn_offset_table R (lsn (log_base (rs ! i))) = Some (starts 0 rs ! i)
         \<and> rc_prevlsn_table R (lsn (log_base (rs ! i))) = Some (prev_lsn (log_base (rs ! i))))
    \<and> (rs \<noteq> [] \<longrightarrow> global_lsn (sy_log (rc_sys R)) = wrap_i32 (lsn (log_base (last rs)) + 1))
    \<and> sy_next_txn (rc_sys R) = wrap_i32 (fold max (map (\<lambda>r. log_tid (log_base r)) rs) 0 + 1)
    \<and> sy_db (rc_sys R) = sy_db s1 \<and> sys_safe l (log_bytes rs) P (rc_sys R)"
proof -
  let ?R1 = "(new_RecoveryManager s)\<lparr>rc_sys := s1\<rparr>" and ?c = "log_bytes rs"
  have R1: "rc_safe l ?c P ?R1" using s1 by simp
  have scan: "scan_log (\<lambda>off log. liftP (modifyE (note_record off log))) 0 (junk LOG_HEADER_SIZE) ?R1 = Some (Inr (), note_records 0 rs ?R1)"
  proof -
    have "scan_log (\<lambda>off log. liftP (modifyE (note_record off log))) (int (length ([] :: bytes))) (junk LOG_HEADER_SIZE) ?R1
        = run_log (\<lambda>off r. liftP (modifyE (note_record off (log_base r)))) (int (length ([] :: bytes))) rs ?R1"
      by (rule scan_log_run [OF R1 len _ ok])
        (use junk in \<open>auto simp: log_offsets intro!: invarP_liftP invar_modifyE\<close>)
    then show ?thesis by (simp add: run_note)
  qed
  have "modifyE (\<lambda>R. R\<lparr>last_lsn := 0, last_txn := 0\<rparr>) ?R1 = (Inr (), ?R1)" by (simp add: modifyE_def new_RecoveryManager_def)
  then have "analyze junk (new_RecoveryManager s) = Some (Inr (), finish_analyze (note_records 0 rs ?R1))"
    using run scan by (simp add: analyze_def bindP_def liftP_def in_sys_def modifyE_def [of finish_analyze] new_RecoveryManager_def)
  moreover have "lsn_offset_table (note_records 0 rs ?R1) (lsn (log_base (rs ! i))) = Some (starts 0 rs ! i)"
    "rc_prevlsn_table (note_records 0 rs ?R1) (lsn (log_base (rs ! i))) = Some (prev_lsn (log_base (rs ! i)))" if "i < length rs" for i
    by (rule note_records_tables [OF lsns _ _ that]; simp add: new_RecoveryManager_def)+
  ultimately show ?thesis
    using note_records_result(1,2,4,5,6) [of 0 rs ?R1] note_records_result(3) [of rs 0 ?R1] note_records_result(7) [OF R1, of 0 rs]
    by (simp add: finish_analyze_def set_txn_id_num_def set_lsn_def sys_safe_def new_RecoveryManager_def)
qed

section \<open>redo\<close>

text \<open>The type of a record belongs to its class, as it does for every record the log manager makes.\<close>

fun typed :: "AnyLogRecord \<Rightarrow> bool" where
  "typed (LInsert r) = (log_type r = INSERT \<or> log_type r = CLR_DELETE)"
| "typed (LDelete r) = (log_type r = DELETE \<or> log_type r = CLR_INSERT)"
| "typed (LUpdate r) = (log_type r = UPDATE \<or> log_type r = CLR_UPDATE)"
| "typed (LPlain r) = (log_type r = BEGIN \<or> log_type r = COMMIT \<or> log_type r = ABORT)"

text \<open>What one record does when it is replayed, and the replay of a record in the log file.\<close>

fun apply_record :: "nat \<Rightarrow> AnyLogRecord \<Rightarrow> (RecoveryManager, unit) pstm" where
  "apply_record n (LInsert r) = in_sysP (rc_rollback_delete n (row_table r) (row_rid r) (row_value r))"
| "apply_record n (LDelete r) = in_sysP (rc_rollback_insert n (row_table r) (row_rid r))"
| "apply_record n (LUpdate r) = in_sysP (rc_rollback_update n (upd_table r) (upd_rid r) (new_value r))"
| "apply_record n (LPlain r) =
     (if log_type r = BEGIN then liftP (modifyE (\<lambda>R. R\<lparr>undo_list := insert (log_tid r) (undo_list R)\<rparr>))
      else liftP (bindE (getsE (\<lambda>R. log_tid r \<in> undo_list R)) (\<lambda>there.
                  bindE (assertE there) (\<lambda>_. modifyE (\<lambda>R. R\<lparr>undo_list := undo_list R - {log_tid r}\<rparr>)))))"

definition replay :: "nat \<Rightarrow> int \<Rightarrow> AnyLogRecord \<Rightarrow> (RecoveryManager, unit) pstm" where
  "replay n off r =
     bindP (liftP (modifyE (\<lambda>R. R\<lparr>lsn_offset_table := map_insert (lsn (log_base r)) off (lsn_offset_table R)\<rparr>))) (\<lambda>_.
     bindP (liftP (modifyE (seek_log (off + int (length (any_bytes r)))))) (\<lambda>_. apply_record n r))"

lemma name_part:
  assumes "length a = off" and "length tab < 2 ^ 64"
  shows "name_end off (a @ rid_bytes rid @ enc_le 8 (int (length tab)) @ b) = off + 16 + length tab"
  using assms by (simp add: name_end_def mem_get_skip in_u64_def)

lemma parse_row_bytes: "row_ok r \<Longrightarrow> parse_row (row_bytes r) = Inr r"
proof -
  assume r: "row_ok r"
  have "rd_i32 24 (row_bytes r) = int (length (row_value r))"
    using r by (simp add: row_bytes_def rd_i32_skip row_ok_def in_i32_def)
  then have "value_end OFFSET_LOG_DATA (row_bytes r) = 28 + length (row_value r)" by (simp add: value_end_def log_offsets)
  moreover have "name_end (28 + length (row_value r)) (row_bytes r) = 28 + length (row_value r) + 16 + length (row_table r)"
    using name_part [of "hdr_bytes r @ enc_le 4 (int (length (row_value r))) @ row_value r" "28 + length (row_value r)" "row_table r" "row_rid r"]
      r by (simp add: row_bytes_def row_ok_def)
  ultimately show ?thesis using row_deserialize_bytes [OF r, of "[]"] by (simp add: parse_row_def length_row_bytes)
qed

lemma parse_update_bytes: "upd_ok r \<Longrightarrow> parse_update (upd_bytes r) = Inr r"
proof -
  assume r: "upd_ok r"
  have "rd_i32 24 (upd_bytes r) = int (length (old_value r))"
    using r by (simp add: upd_bytes_def rd_i32_skip upd_ok_def in_i32_def)
  then have v: "value_end OFFSET_LOG_DATA (upd_bytes r) = 28 + length (old_value r)" by (simp add: value_end_def log_offsets)
  have "rd_i32 (28 + length (old_value r)) (upd_bytes r) = int (length (new_value r))"
    using r by (simp add: upd_bytes_def rd_i32_skip upd_ok_def in_i32_def)
  then have "value_end (28 + length (old_value r)) (upd_bytes r) = 32 + length (old_value r) + length (new_value r)"
    by (simp add: value_end_def)
  moreover have "name_end (32 + length (old_value r) + length (new_value r)) (upd_bytes r) = length (upd_bytes r)"
    using name_part [of "hdr_bytes r @ enc_le 4 (int (length (old_value r))) @ old_value r @ enc_le 4 (int (length (new_value r))) @ new_value r"
        "32 + length (old_value r) + length (new_value r)" "upd_table r" "upd_rid r"]
      r by (simp add: upd_bytes_def upd_ok_def)
  ultimately show ?thesis using v UpdateLogRecord_deserialize_bytes [OF r, of "[]"] by (simp add: parse_update_def)
qed

lemma redo_record_replay:
  assumes s: "rc_safe l c P R" and c: "length c < 2 ^ 31" "c = pre @ any_bytes r @ post" and ok: "any_ok r" "typed r"
    and junk: "\<And>k. length (junk k) = k"
  shows "redo_record n junk (int (length pre)) (log_base r) R = replay n (int (length pre)) r R"
proof -
  let ?R = "R\<lparr>lsn_offset_table := map_insert (lsn (log_base r)) (int (length pre)) (lsn_offset_table R)\<rparr>"
  have len: "log_tot_len (log_base r) = int (length (any_bytes r))" by (rule any_ok_length [OF ok(1)])
  have w: "wrap_i32 (int (length (any_bytes r))) = int (length (any_bytes r))" using c by (simp add: wrap_i32_id in_i32_def)
  have "any_bytes r \<noteq> []" using length_any_bytes [of r] by auto
  then have "read_body junk (log_base r) (int (length pre)) ?R = (Inr (any_bytes r), seek_log (int (length pre) + int (length (any_bytes r))) ?R)"
    using read_log_run [of l c P ?R "length pre" "int (length (any_bytes r))"] s c junk [of "length (any_bytes r)"]
    by (simp add: read_body_def len w bindE_def Let_def returnE_def mem_get_def mem_put_def)
  then show ?thesis
    using ok parse_row_bytes parse_update_bytes
    by (cases r) (auto simp: redo_record_def replay_def bindP_def [of "liftP _"] liftP_def modifyE_def liftR_def returnE_def)
qed

lemma invarP_in_sysP: "invarP I m \<Longrightarrow> invarP (\<lambda>R. I (rc_sys R)) (in_sysP m)"
  by (auto simp: invarP_def in_sysP_def split: option.splits)

lemma replay_safe: "invarP (rc_safe l c P) (replay n off r)"
proof -
  have "invarP (rc_safe l c P) (apply_record n r)"
    using invarP_in_sysP [OF rollback_safe(1)] invarP_in_sysP [OF rollback_safe(2)] invarP_in_sysP [OF rollback_safe(3)]
    by (cases r) (auto intro!: inv_rules)
  then show ?thesis unfolding replay_def by (intro inv_rules) (auto intro: seek_safe)
qed

lemma redo_run:
  assumes "rc_safe l (log_bytes rs) P R" and "length (log_bytes rs) < 2 ^ 31" and "\<forall>r \<in> set rs. any_ok r \<and> typed r"
    and "\<And>k. length (junk k) = k"
  shows "redo n junk R = run_log (replay n) 0 rs R"
proof -
  have "scan_log (redo_record n junk) (int (length ([] :: bytes))) (junk LOG_HEADER_SIZE) R = run_log (replay n) (int (length ([] :: bytes))) rs R"
  proof (rule scan_log_run [OF assms(1,2)])
    fix pre r post R
    assume r: "log_bytes rs = pre @ any_bytes r @ post" "r \<in> set rs" "rc_safe l (log_bytes rs) P R"
    show "redo_record n junk (int (length pre)) (log_base r) R = replay n (int (length pre)) r R"
      by (rule redo_record_replay [OF r(3) assms(2) r(1)]) (use assms(3,4) r(2) in auto)
  qed (use assms(3,4) in \<open>auto simp: log_offsets intro: replay_safe\<close>)
  then show ?thesis by (simp add: redo_def)
qed

text \<open>
  C30: \<^verbatim>\<open>redo\<close> on a log file that holds exactly the records \<open>rs\<close> is the replay of these records one after
  the other, each with its fields as they were logged, up to the end of the file or the first record
  whose replay fails or never returns; apart from that only the position in the log file moves.
\<close>

theorem redo_replays_log:
  assumes "rc_safe l (log_bytes rs) P R" and "length (log_bytes rs) < 2 ^ 31" and "\<forall>r \<in> set rs. any_ok r \<and> typed r"
    and "\<And>k. length (junk k) = k"
  shows "redo n junk R = run_log (replay n) 0 rs R"
  by (rule redo_run [OF assms])

section \<open>Putting a record back\<close>



section \<open>Replaying an aborted insertion\<close>

text \<open>A table of the recovering system: its handle, its records, and no index on it.\<close>

definition table_at :: "RecoveryManager \<Rightarrow> string \<Rightarrow> int \<Rightarrow> RmFileHdr \<Rightarrow> (Rid \<rightharpoonup> bytes) \<Rightarrow> bool" where
  "table_at R tab fd h M \<longleftrightarrow> sy_fhs (rc_sys R) tab = Some (fd, h) \<and> rm_ok fd (rm_view h no_txn (rc_sys R))
     \<and> rm_abs fd (rm_view h no_txn (rc_sys R)) = M \<and> (\<exists>t. get_table (sy_db (rc_sys R)) tab = Inr t \<and> tm_indexes t = [])"

definition pinned :: "RecoveryManager \<Rightarrow> PageId set" where
  "pinned R = {pid. 0 < pins (sy_bp (rc_sys R)) pid}"



lemma table_at_cong: "rc_sys R' = rc_sys R \<Longrightarrow> table_at R' tab fd h M = table_at R tab fd h M"
  by (simp add: table_at_def)








section \<open>The small system, recovering\<close>

text \<open>The small system with one empty page in its table and a log file of our choice.\<close>

lemma demo_recovering:
  fixes e :: "int \<Rightarrow> bytes"
  obtains s h p P where "sys_safe 0 (e p) P s" and "table_at (new_RecoveryManager s) ''t'' 1 h Map.empty" and "first_free_page_no h = p"
    and "p \<noteq> RM_NO_PAGE" and "page_in_range p" and "record_size h = 4" and "num_records_per_page h = 987"
    and "pinned (new_RecoveryManager s) = {}" and "pool_size (sy_bp s) = 2"
proof -
  let ?v = "rm_view (new_RmFileHdr 4) no_txn demo_state" and ?P = "fd_path demo_disk"
  have fh: "sy_fhs demo_state ''t'' = Some (1, new_RmFileHdr 4)" by (simp add: demo_state_def)
  note ok = tabs_okD(1) [OF demo_state_tabs(1) fh, of no_txn]
  have r1: "page_in_range (num_pages (rm_hdr ?v))" by (simp add: page_in_range_def PAGE_SIZE_def demo_layout)
  obtain f b1 h1 p x b2 where f: "fetch_free_page_handle 1 ?v = (Inr f, ?v\<lparr>rm_bp := b1, rm_hdr := h1\<rparr>)"
    "first_free_page_no h1 = p" "record_page h1 p" "same_layout (rm_hdr ?v) h1" "page_in_range p"
    "unpin_page \<lparr>pid_fd = 1, pid_no = p\<rparr> True (poke f x b1) = (True, b2)" "table_ok 1 h1 b2"
    "pins b2 = pins (rm_bp ?v)" "pool_size b2 = pool_size (rm_bp ?v)" "file_recs h1 (pages_of 1 b2) = rm_abs 1 ?v"
  proof (rule fetch_free_spec [OF ok r1], goal_cases)
    case (1 f b1 h1 p x)
    from 1(14) [OF 1(5,10) refl 1(9)] obtain b2 where "unpin_page \<lparr>pid_fd = 1, pid_no = p\<rparr> True (poke f x b1) = (True, b2)"
      "table_ok 1 h1 b2" "pins b2 = pins (rm_bp ?v)" "pool_size b2 = pool_size (rm_bp ?v)"
      "file_recs h1 (pages_of 1 b2) = file_recs h1 ((pages_of 1 (rm_bp ?v))(p \<mapsto> x))" by blast
    with 1 show ?case by (metis (no_types, lifting))
  qed
  have d0: "disk (sy_bp demo_state) = demo_disk" "page_table (sy_bp demo_state) = Map.empty" by (simp_all add: demo_state_def bp_init_def)
  have path: "?P 1 = Some ''t''" "''t'' \<noteq> LOG_FILE_NAME" by (simp_all add: fd_path_def fd_entry_def demo_disk_def LOG_FILE_NAME_def)
  have "log_safe 0 [] ?P (sy_bp demo_state)"
    using log_safe_start [of "sy_bp demo_state" "[]"] demo_calm demo_log(1) d0 by (simp add: calm_def demo_disk_def)
  then have "log_safe 0 [] ?P b1"
    using invarD [OF rm_safe_ops(3) [where P = ?P and fd = 1 and l = 0 and c = "[]"] _ f(1)] path by simp
  then have "log_safe 0 [] ?P (snd (unpin_page \<lparr>pid_fd = 1, pid_no = p\<rparr> True (poke f x b1)))"
    using log_safe_unpin [of 0 "[]" ?P "\<lparr>pid_fd = 1, pid_no = p\<rparr>" True] log_safe_poke by (simp add: invar_def unpinE_def modifyE_def)
  then have s2: "log_safe 0 [] ?P b2" using f(6) by simp
  let ?d = "(disk b2)\<lparr>files := (files (disk b2))(LOG_FILE_NAME \<mapsto> [] @ e p)\<rparr>"
  let ?s = "demo_state\<lparr>sy_bp := b2\<lparr>disk := ?d\<rparr>, sy_fhs := [''t'' \<mapsto> (1, h1)]\<rparr>"
  have dk: "disk_ok (disk b2)" using f(7) by (simp add: table_ok_def calm_def bp_ok_def)
  have dk': "disk_ok ?d" by (rule disk_okI [OF dk]) auto
  have "disk_page ?d fd pno = Some y" if "disk_page (disk b2) fd pno = Some y" "fd2path (disk b2) fd \<noteq> None" for fd pno y
    using disk_page_append [OF dk dk' _ _ _ that(2,1), of LOG_FILE_NAME "[]" "e p"] s2 by (simp add: log_safe_def log_kept_def)
  then have fo: "disk_follows (disk b2) ?d" using dk' by (simp add: disk_follows_def)
  have tab: "table_ok 1 h1 (b2\<lparr>disk := ?d\<rparr>)" "file_recs h1 (pages_of 1 (b2\<lparr>disk := ?d\<rparr>)) = rm_abs 1 ?v"
    using table_follows [OF f(7) fo] f(10) by simp_all
  have "rm_abs 1 ?v = Map.empty" using tabs_okD(3) [OF demo_state_tabs(1) fh, of no_txn] demo_state_tabs(2) by simp
  then have at: "table_at (new_RecoveryManager ?s) ''t'' 1 h1 Map.empty"
    using tab by (simp add: table_at_def new_RecoveryManager_def rm_ok_def rm_abs_def demo_state_def get_table_def)
  have safe: "sys_safe 0 (e p) ?P ?s"
    using s2 path by (simp add: sys_safe_def log_safe_def log_kept_def demo_state_def)
  have pn: "pins b2 = (\<lambda>_. 0)" "pool_size b2 = 2" using f(8,9) by (auto simp: demo_state_def bp_init_def pins_def)
  then have "pinned (new_RecoveryManager ?s) = {}"
    by (simp add: pinned_def new_RecoveryManager_def pins_def fun_eq_iff cong: option.case_cong)
  moreover have "p \<noteq> RM_NO_PAGE" "record_size h1 = 4" "num_records_per_page h1 = 987"
    using f(3,4) demo_layout by (auto simp: record_page_def RM_NO_PAGE_def same_layout_def)
  ultimately show thesis using that [OF safe at f(2)] f(5) pn by simp
qed


text \<open>Two transactions, the second without an end.\<close>

definition two_txns :: "AnyLogRecord list" where
  "two_txns = [LPlain (BeginLogRecord 0 INVALID_LSN 1), LPlain (CommitLogRecord 1 0 1), LPlain (BeginLogRecord 2 INVALID_LSN 5)]"

lemma two_txns_ok: "\<forall>r \<in> set two_txns. any_ok r \<and> typed r" "length (log_bytes two_txns) < 2 ^ 31"
  by (simp_all add: two_txns_def BeginLogRecord_def CommitLogRecord_def new_LogRecord_def hdr_ok_def in_i32_def in_u32_def log_offsets
      INVALID_LSN_def log_bytes_def)

theorem analyze_reads_log_witness:
  "\<exists>s R. analyze (\<lambda>k. replicate k 0) (new_RecoveryManager s) = Some (Inr (), R) \<and> offset_list R = [0, 24, 48]
     \<and> global_lsn (sy_log (rc_sys R)) = 3 \<and> sy_next_txn (rc_sys R) = 6"
proof -
  obtain s h p P where s: "sys_safe 0 (log_bytes two_txns) P s" by (rule demo_recovering [of "\<lambda>_. log_bytes two_txns"])
  let ?s = "s\<lparr>sy_db := (sy_db s)\<lparr>db_tabs := []\<rparr>\<rparr>"
  have "recreate_tables ?s = (Inr (), ?s)" by (simp add: recreate_tables_def bindE_getsE returnE_def)
  moreover have "sys_safe 0 (log_bytes two_txns) P ?s" using s by (simp add: sys_safe_def)
  moreover have "distinct (map (\<lambda>r. lsn (log_base r)) two_txns)"
    by (simp add: two_txns_def BeginLogRecord_def CommitLogRecord_def new_LogRecord_def)
  ultimately obtain R where R: "analyze (\<lambda>k. replicate k 0) (new_RecoveryManager ?s) = Some (Inr (), R)" "offset_list R = starts 0 two_txns"
    "two_txns \<noteq> [] \<longrightarrow> global_lsn (sy_log (rc_sys R)) = wrap_i32 (lsn (log_base (last two_txns)) + 1)"
    "sy_next_txn (rc_sys R) = wrap_i32 (fold max (map (\<lambda>r. log_tid (log_base r)) two_txns) 0 + 1)"
    using analyze_reads_log [of ?s ?s 0 two_txns P "\<lambda>k. replicate k 0"] two_txns_ok by auto
  moreover have "wrap_i32 3 = 3" "wrap_i32 6 = 6" by (simp_all add: wrap_i32_id in_i32_def)
  ultimately show ?thesis
    by (intro exI [of _ ?s] exI [of _ R]) (simp add: two_txns_def BeginLogRecord_def CommitLogRecord_def new_LogRecord_def)
qed

theorem redo_replays_log_witness:
  "\<exists>R R'. redo 9 (\<lambda>k. replicate k 0) R = Some (Inr (), R') \<and> undo_list R = {} \<and> undo_list R' = {5}"
proof -
  obtain s h p P where s: "sys_safe 0 (log_bytes two_txns) P s" by (rule demo_recovering [of "\<lambda>_. log_bytes two_txns"])
  then have "redo 9 (\<lambda>k. replicate k 0) (new_RecoveryManager s) = run_log (replay 9) 0 two_txns (new_RecoveryManager s)"
    using redo_replays_log [of 0 two_txns P "new_RecoveryManager s" "\<lambda>k. replicate k 0" 9] two_txns_ok by (simp add: new_RecoveryManager_def)
  also have "\<exists>R'. \<dots> = Some (Inr (), R') \<and> undo_list R' = {5}"
    by (simp add: two_txns_def replay_def bindP_def liftP_def modifyE_def bindE_def getsE_def assertE_def returnE_def new_RecoveryManager_def
        BeginLogRecord_def CommitLogRecord_def new_LogRecord_def)
  finally obtain R' where "redo 9 (\<lambda>k. replicate k 0) (new_RecoveryManager s) = Some (Inr (), R')" "undo_list R' = {5}" by blast
  moreover have "undo_list (new_RecoveryManager s) = {}" by (simp add: new_RecoveryManager_def)
  ultimately show ?thesis by blast
qed

end
