(* ===== verification/Exec_Base.thy ===== *)
theory Exec_Base
  imports Sys_Tables
begin

text \<open>
  The executor interface of \<^verbatim>\<open>execution/executor_abstract.h\<close>. A class that implements it is a record
  of its virtual methods. The fields that are set by the constructor and never changed are closed
  over in the methods; the other fields are the private state \<open>'e\<close>, which a method changes together with
  the state \<open>'s\<close> of the system. A method may not return (None).

  The contract of an executor is a locale: \<^verbatim>\<open>beginTuple\<close> positions it on the first of its rows, \<^verbatim>\<open>Next\<close>
  takes the current row, which can be done once, \<^verbatim>\<open>nextTuple\<close> moves on, and \<^verbatim>\<open>is_end\<close> tells whether
  rows are left.
\<close>

section \<open>AbstractExecutor\<close>

record ('e, 's) Executor =
  x_beginTuple :: "('e \<times> 's, unit) pstm"
  x_nextTuple :: "('e \<times> 's, unit) pstm"
  x_is_end :: "'e \<Rightarrow> exc + bool"
  x_Next :: "('e \<times> 's, bytes) pstm"
  x_cols :: "ColMeta list"
  x_tupleLen :: "exc + int"

text \<open>\<^verbatim>\<open>get_col\<close> returns an iterator: the position of the column.\<close>

fun col_pos :: "(ColMeta \<Rightarrow> bool) \<Rightarrow> ColMeta list \<Rightarrow> nat option" where
  "col_pos P [] = None"
| "col_pos P (c # cs) = (if P c then Some 0 else map_option Suc (col_pos P cs))"

definition same_col :: "TabCol \<Rightarrow> ColMeta \<Rightarrow> bool" where
  "same_col t c \<longleftrightarrow> cm_tab_name c = tc_tab_name t \<and> cm_name c = tc_col_name t"

definition exec_get_col :: "ColMeta list \<Rightarrow> TabCol \<Rightarrow> exc + nat" where
  "exec_get_col cols t =
     (case col_pos (same_col t) cols of
        None \<Rightarrow> Inl (Throw (ColumnNotFoundError (tc_tab_name t @ ''.'' @ tc_col_name t)))
      | Some p \<Rightarrow> Inr p)"

text \<open>The \<^verbatim>\<open>get_col_offset\<close> of the scans, the join and the projection.\<close>

definition get_col_offset :: "ColMeta list \<Rightarrow> TabCol \<Rightarrow> exc + ColMeta" where
  "get_col_offset cols t =
     (case List.find (same_col t) cols of
        None \<Rightarrow> Inl (Throw (ColumnNotFoundError (tc_col_name t))) | Some c \<Rightarrow> Inr c)"

section \<open>Private state and system state\<close>

definition in_env :: "('s, 'a) stm \<Rightarrow> ('e \<times> 's, 'a) stm" where
  "in_env m = (\<lambda>(e, s). case m s of (r, s') \<Rightarrow> (r, (e, s')))"

definition set_own :: "('e \<Rightarrow> 'e) \<Rightarrow> ('e \<times> 's, unit) stm" where
  "set_own f = modifyE (\<lambda>(e, s). (f e, s))"

text \<open>The loop of the tests of the conditions of a statement, which ends at the first false one.\<close>

fun conds_hold :: "(Condition \<Rightarrow> exc + bool) \<Rightarrow> Condition list \<Rightarrow> exc + bool" where
  "conds_hold test [] = Inr True"
| "conds_hold test (c # cs) = andThen (test c) (\<lambda>b. if b then conds_hold test cs else Inr False)"

text \<open>Keeping the elements that pass a test, which may throw.\<close>

fun filterR :: "('a \<Rightarrow> exc + bool) \<Rightarrow> 'a list \<Rightarrow> exc + 'a list" where
  "filterR P [] = Inr []"
| "filterR P (x # xs) = andThen (P x) (\<lambda>b. andThen (filterR P xs) (\<lambda>ys. Inr (if b then x # ys else ys)))"

section \<open>Driving an executor\<close>

lemma bindP_mono [partial_function_mono]:
  assumes "monotone option.le_fun option_ord (\<lambda>f. B f s)" and "\<And>y t. monotone option.le_fun option_ord (\<lambda>f. C y f t)"
  shows "monotone option.le_fun option_ord (\<lambda>f. bindP (B f) (\<lambda>y. C y f) s)"
proof -
  have "bindP (B f) (\<lambda>y. C y f) s = Option.bind (B f s) (\<lambda>p. case p of (Inl e, s') \<Rightarrow> Some (Inl e, s') | (Inr y, s') \<Rightarrow> C y f s')" for f
    by (auto simp: bindP_def split: option.splits sum.splits)
  moreover have "monotone option.le_fun option_ord (\<lambda>f. case p of (Inl e, s') \<Rightarrow> Some (Inl e, s') | (Inr y, s') \<Rightarrow> C y f s')" for p
  proof (cases p)
    case (Pair r t)
    then show ?thesis by (cases r) (simp_all add: assms(2) option.const_mono)
  qed
  ultimately show ?thesis by (simp only:) (rule bind_mono [OF assms(1)])
qed

text \<open>
  The loop that every consumer runs: \<^verbatim>\<open>while (!exec->is_end()) { use(exec->Next()); exec->nextTuple(); }\<close>. It
  returns the rows in the order in which they come; None is a loop that runs for ever.
\<close>

partial_function (option) rows_from ::
  "('e, 's) Executor \<Rightarrow> 'e \<times> 's \<Rightarrow> ((exc + bytes list) \<times> ('e \<times> 's)) option" where
  "rows_from X es =
     (case x_is_end X (fst es) of
        Inl e \<Rightarrow> Some (Inl e, es)
      | Inr fin \<Rightarrow>
          if fin then Some (Inr [], es)
          else
            bindP (x_Next X) (\<lambda>r.
            bindP (x_nextTuple X) (\<lambda>_.
            bindP (rows_from X) (\<lambda>rs.
            liftP (returnE (r # rs))))) es)"

definition all_rows :: "('e, 's) Executor \<Rightarrow> ('e \<times> 's, bytes list) pstm" where
  "all_rows X = bindP (x_beginTuple X) (\<lambda>_. rows_from X)"

text \<open>The loops of the join that fill an empty buffer with at most \<open>n\<close> rows.\<close>

fun take_rows :: "('e, 's) Executor \<Rightarrow> nat \<Rightarrow> ('e \<times> 's, bytes list) pstm" where
  "take_rows X 0 = liftP (returnE [])"
| "take_rows X (Suc n) = (\<lambda>es.
     case x_is_end X (fst es) of
       Inl e \<Rightarrow> Some (Inl e, es)
     | Inr fin \<Rightarrow>
         if fin then Some (Inr [], es)
         else bindP (x_Next X) (\<lambda>r. bindP (x_nextTuple X) (\<lambda>_. bindP (take_rows X n) (\<lambda>rs. liftP (returnE (r # rs))))) es)"

section \<open>The contract\<close>

text \<open>
  \<open>holds e rs\<close>: the executor is on the first of the rows \<open>rs\<close> it still has to give; \<open>took e rs\<close>: the same, but
  the current row has been taken. \<open>startable e\<close>: a call of \<^verbatim>\<open>beginTuple\<close> starts it again.
\<close>

locale row_source =
  fixes X :: "('e, 's) Executor" and good :: "'s \<Rightarrow> bool" and rows :: "bytes list"
    and startable :: "'e \<Rightarrow> bool" and holds took :: "'e \<Rightarrow> bytes list \<Rightarrow> bool"
  assumes begin_law: "startable e \<Longrightarrow> good s \<Longrightarrow>
      \<exists>e' s'. x_beginTuple X (e, s) = Some (Inr (), (e', s')) \<and> holds e' rows \<and> good s'"
    and end_law: "holds e rs \<Longrightarrow> x_is_end X e = Inr (rs = [])"
    and took_end_law: "took e rs \<Longrightarrow> x_is_end X e = Inr (rs = [])"
    and Next_law: "holds e (r # rs) \<Longrightarrow> good s \<Longrightarrow>
      \<exists>e' s'. x_Next X (e, s) = Some (Inr r, (e', s')) \<and> took e' (r # rs) \<and> good s'"
    and next_law: "holds e (r # rs) \<or> took e (r # rs) \<Longrightarrow> good s \<Longrightarrow>
      \<exists>e' s'. x_nextTuple X (e, s) = Some (Inr (), (e', s')) \<and> holds e' rs \<and> good s'"
begin

lemma rows_from_holds:
  "holds e rs \<Longrightarrow> good s \<Longrightarrow> \<exists>e' s'. rows_from X (e, s) = Some (Inr rs, (e', s')) \<and> holds e' [] \<and> good s'"
proof (induction rs arbitrary: e s)
  case Nil
  then show ?case using end_law [OF Nil(1)] by (subst rows_from.simps) simp
next
  case (Cons r rs)
  obtain e1 s1 where 1: "x_Next X (e, s) = Some (Inr r, (e1, s1))" "took e1 (r # rs)" "good s1"
    using Next_law [OF Cons.prems] by blast
  obtain e2 s2 where 2: "x_nextTuple X (e1, s1) = Some (Inr (), (e2, s2))" "holds e2 rs" "good s2"
    using next_law [OF disjI2 [OF 1(2)] 1(3)] by blast
  show ?case using Cons.IH [OF 2(2,3)] end_law [OF Cons.prems(1)] 1(1) 2(1) by (subst rows_from.simps) (auto simp: bindP_def liftP_def returnE_def)
qed

lemma take_rows_run:
  "holds e rs \<Longrightarrow> good s \<Longrightarrow> \<exists>e' s'. take_rows X n (e, s) = Some (Inr (take n rs), (e', s')) \<and> holds e' (drop n rs) \<and> good s'"
proof (induction n arbitrary: e rs s)
  case 0
  then show ?case by (simp add: liftP_def returnE_def)
next
  case (Suc n)
  show ?case
  proof (cases rs)
    case Nil
    then show ?thesis using end_law [OF Suc.prems(1)] Suc.prems by simp
  next
    case (Cons r rs')
    obtain e1 s1 where 1: "x_Next X (e, s) = Some (Inr r, (e1, s1))" "took e1 (r # rs')" "good s1"
      using Next_law [of e r rs' s] Suc.prems Cons by blast
    obtain e2 s2 where 2: "x_nextTuple X (e1, s1) = Some (Inr (), (e2, s2))" "holds e2 rs'" "good s2"
      using next_law [OF disjI2 [OF 1(2)] 1(3)] by blast
    show ?thesis
      using Suc.IH [OF 2(2,3)] end_law [OF Suc.prems(1)] 1(1) 2(1) Cons by (auto simp: bindP_def liftP_def returnE_def)
  qed
qed

text \<open>The loop of a consumer ends and sees the rows of the executor, each once and in order.\<close>

lemma all_rows_run:
  assumes "startable e" and "good s"
  obtains e' s' where "all_rows X (e, s) = Some (Inr rows, (e', s'))" and "holds e' []" and "good s'"
proof -
  obtain e1 s1 where 1: "x_beginTuple X (e, s) = Some (Inr (), (e1, s1))" "holds e1 rows" "good s1"
    using begin_law [OF assms] by blast
  obtain e2 s2 where 2: "rows_from X (e1, s1) = Some (Inr rows, (e2, s2))" "holds e2 []" "good s2"
    using rows_from_holds [OF 1(2,3)] by blast
  have "all_rows X (e, s) = Some (Inr rows, (e2, s2))" using 1(1) 2(1) by (simp add: all_rows_def bindP_def)
  then show thesis using 2(2,3) by (rule that)
qed

end

text \<open>An executor that can be started again when it has given all its rows.\<close>

locale restartable_source = row_source +
  assumes again: "holds e [] \<Longrightarrow> startable e"

text \<open>An executor on which \<^verbatim>\<open>nextTuple\<close> may be called at the end.\<close>

locale padded_source = row_source +
  assumes past_end: "holds e [] \<Longrightarrow> good s \<Longrightarrow>
      \<exists>e' s'. x_nextTuple X (e, s) = Some (Inr (), (e', s')) \<and> holds e' [] \<and> good s'"

section \<open>Conditions that can be tested\<close>

definition names_col :: "ColMeta list \<Rightarrow> string \<Rightarrow> bool" where
  "names_col cols n \<longleftrightarrow> (\<exists>c \<in> set cols. cm_name c = n)"

definition cond_fits :: "ColMeta list \<Rightarrow> Condition \<Rightarrow> bool" where
  "cond_fits cols c \<longleftrightarrow> names_col cols (tc_col_name (lhs_col c)) \<and> (is_rhs_val c \<or> names_col cols (tc_col_name (rhs_col c)))"

definition passes :: "ColMeta list \<Rightarrow> Condition list \<Rightarrow> bytes \<Rightarrow> bool" where
  "passes cols conds rec \<longleftrightarrow> (\<forall>c \<in> set conds. test_record c cols rec = Inr True)"

lemma find_names: "names_col cols n \<Longrightarrow> \<exists>c. find_from_cols cols n = Inr c"
proof -
  assume "names_col cols n"
  then have "List.find (\<lambda>c. cm_name c = n) cols \<noteq> None" by (auto simp: names_col_def find_None_iff)
  then show ?thesis by (auto simp: find_from_cols_def)
qed

lemma test_fits: "cond_fits cols c \<Longrightarrow> \<exists>b. test_record c cols rec = Inr b"
  using find_names [of cols "tc_col_name (lhs_col c)"] find_names [of cols "tc_col_name (rhs_col c)"]
  by (auto simp: cond_fits_def test_record_def andThen_def)

lemma conds_hold_total: "(\<And>c. c \<in> set cs \<Longrightarrow> \<exists>b. test c = Inr b) \<Longrightarrow> conds_hold test cs = Inr (\<forall>c \<in> set cs. test c = Inr True)"
proof (induction cs)
  case (Cons c cs)
  obtain b where "test c = Inr b" using Cons.prems by auto
  then show ?case using Cons.IH Cons.prems by (cases b) (auto simp: andThen_def)
qed simp

lemma conds_hold_passes:
  "(\<And>c. c \<in> set conds \<Longrightarrow> cond_fits cols c) \<Longrightarrow> conds_hold (\<lambda>c. test_record c cols rec) conds = Inr (passes cols conds rec)"
  unfolding passes_def by (intro conds_hold_total) (simp add: test_fits)

lemma filterR_total: "(\<And>x. x \<in> set xs \<Longrightarrow> P x = Inr (Q x)) \<Longrightarrow> filterR P xs = Inr (filter Q xs)"
  by (induction xs) (auto simp: andThen_def)

end
