(* ===== verification/Exec_SeqScan.thy ===== *)
theory Exec_SeqScan
  imports Exec_Base Rm_Scan
begin

text \<open>
  \<^verbatim>\<open>SeqScanExecutor\<close> of \<^verbatim>\<open>execution/executor_seq_scan.h\<close>: a scan of a table that buffers the matching
  records of one page at a time. The handle of the table is found by its name; the object of an
  executor that threw is destroyed and never used again.
\<close>

section \<open>The executor\<close>

record ScanInfo =
  si_tab_name :: string
  si_conds :: "Condition list"
  si_cols :: "ColMeta list"
  si_len :: int
  si_txn :: txn_id_t

text \<open>\<^verbatim>\<open>tuple_buffer\<close> holds null (None) where a tuple was moved out.\<close>

record SeqScan =
  tuple_buffer :: "bytes option list"
  rids_buffer :: "Rid list"
  curr_page_in_buffer :: int
  buffer_idx :: nat
  ss_is_end :: bool

text \<open>
  The constructor; \<^verbatim>\<open>back()\<close> of an empty vector of columns is an access outside it. \<open>junk\<close> are the
  fields that it leaves uninitialised. An exception of \<^verbatim>\<open>get_table\<close> leaves the latch of the catalogue held.
\<close>

definition new_SeqScan :: "SeqScan \<Rightarrow> string \<Rightarrow> Condition list \<Rightarrow> txn_id_t \<Rightarrow> (Sys, ScanInfo \<times> SeqScan) stm" where
  "new_SeqScan junk tab conds i =
     bindE RLatch (\<lambda>_.
     bindE (try_meta (\<lambda>db. get_table db tab)) (\<lambda>t.
     bindE RUnLatch (\<lambda>_.
     bindE (at_table None tab (\<lambda>_. getsE (\<lambda>r. record_size (rm_hdr r)))) (\<lambda>sz.
       if tm_cols t = [] then throwE OutOfRange else
     let len = cm_offset (last (tm_cols t)) + cm_len (last (tm_cols t)) in
     bindE (assertE (len = sz)) (\<lambda>_.
     returnE (\<lparr>si_tab_name = tab, si_conds = conds, si_cols = tm_cols t, si_len = len, si_txn = i\<rparr>,
              junk\<lparr>tuple_buffer := [], rids_buffer := [], ss_is_end := False\<rparr>))))))"

text \<open>
  The body of the loop over the pages. The slots are collected until as many as the page header counts
  (as a \<^verbatim>\<open>size_t\<close>) are found; \<^verbatim>\<open>may_found\<close> is true whenever there is one. An exception of
  \<^verbatim>\<open>test_record\<close> leaves the page pinned.
\<close>

definition page_slots :: "RmFileHdr \<Rightarrow> bytes \<Rightarrow> nat list" where
  "page_slots h x =
     (let js = filter (is_set (bitmap_at x)) [0..<nat (num_records_per_page h)] in
      if num_records x < 0 then js else take (nat (num_records x)) js)"

definition scan_page :: "ScanInfo \<Rightarrow> int \<Rightarrow> RmFileHdr \<Rightarrow> int \<Rightarrow> (RmSys, (Rid \<times> bytes) list) stm" where
  "scan_page c fd h p =
     bindE (rm_fetch_page_handle fd p) (\<lambda>f.
     bindE (frame_bytes f) (\<lambda>x.
     bindE (liftR (filterR (\<lambda>(rid, rec). conds_hold (\<lambda>d. test_record d (si_cols c) rec) (si_conds c))
         (map (\<lambda>j. (\<lparr>page_no = p, slot_no = int j\<rparr>, mem_get (get_slot h (int j)) (nat (si_len c)) x)) (page_slots h x)))) (\<lambda>hits.
     bindE (unpin_frame f False) (\<lambda>_.
     returnE hits))))"

function scan_pages :: "ScanInfo \<Rightarrow> int \<Rightarrow> RmFileHdr \<Rightarrow> int \<Rightarrow> (RmSys, (int \<times> (Rid \<times> bytes) list) option) stm" where
  "scan_pages c fd h p =
     (if p < num_pages h then
        bindE (scan_page c fd h p) (\<lambda>hits. if hits \<noteq> [] then returnE (Some (p, hits)) else scan_pages c fd h (p + 1))
      else returnE None)"
  by auto
termination by (relation "measure (\<lambda>(c, fd, h, p). nat (num_pages h - p))") auto

declare scan_pages.simps [simp del]

definition fill_from :: "ScanInfo \<Rightarrow> int \<Rightarrow> (SeqScan \<times> Sys, unit) stm" where
  "fill_from c p =
     bindE (in_env (at_table None (si_tab_name c) (\<lambda>fd. bindE (getsE rm_hdr) (\<lambda>h. scan_pages c fd h p)))) (\<lambda>r.
     set_own (\<lambda>e. case r of
         None \<Rightarrow> e\<lparr>tuple_buffer := [], rids_buffer := [], ss_is_end := True\<rparr>
       | Some (q, hits) \<Rightarrow> e\<lparr>tuple_buffer := map (Some \<circ> snd) hits, rids_buffer := map fst hits,
                             curr_page_in_buffer := q, buffer_idx := 0\<rparr>))"

text \<open>The request of the table lock that opens the scans: \<open>why\<close> is the reason given when it is refused.\<close>

definition lock_table_or_abort ::
  "(int \<Rightarrow> (lock_state, bool) stm) \<Rightarrow> AbortReason \<Rightarrow> string \<Rightarrow> txn_id_t \<Rightarrow> (Sys, unit) stm" where
  "lock_table_or_abort lock why tab i =
     bindE (at_table None tab returnE) (\<lambda>fd.
     bindE (in_locks (Some i) (lock fd)) (\<lambda>ok.
     bindE (getsE (ctx_txn (Some i))) (\<lambda>t.
       if ok then returnE () else throwE (TransactionAbortException (txn_id t) why))))"

definition seq_beginTuple :: "ScanInfo \<Rightarrow> (SeqScan \<times> Sys, unit) stm" where
  "seq_beginTuple c =
     bindE (in_env (lock_table_or_abort lock_shared_on_table DEADLOCK_PREVENTION (si_tab_name c) (si_txn c))) (\<lambda>_.
     bindE (set_own (\<lambda>e. e\<lparr>ss_is_end := False, tuple_buffer := [], rids_buffer := [], buffer_idx := 0\<rparr>)) (\<lambda>_.
     fill_from c 1))"

definition seq_nextTuple :: "ScanInfo \<Rightarrow> (SeqScan \<times> Sys, unit) stm" where
  "seq_nextTuple c =
     bindE (set_own (\<lambda>e. e\<lparr>buffer_idx := buffer_idx e + 1\<rparr>)) (\<lambda>_.
     bindE (getsE fst) (\<lambda>e.
       if buffer_idx e = length (tuple_buffer e) then fill_from c (curr_page_in_buffer e + 1) else returnE ()))"

text \<open>\<^verbatim>\<open>std::move\<close> of an element leaves null; taking it again would give the caller a null pointer.\<close>

definition seq_Next :: "(SeqScan \<times> Sys, bytes) stm" where
  "seq_Next =
     bindE (getsE fst) (\<lambda>e.
       if buffer_idx e < length (tuple_buffer e) then
         (case tuple_buffer e ! buffer_idx e of
            None \<Rightarrow> throwE NullDeref
          | Some v \<Rightarrow> bindE (set_own (\<lambda>e. e\<lparr>tuple_buffer := (tuple_buffer e)[buffer_idx e := None]\<rparr>)) (\<lambda>_. returnE v))
       else throwE OutOfRange)"

definition seq_rid :: "SeqScan \<Rightarrow> exc + Rid" where
  "seq_rid e = (if buffer_idx e < length (rids_buffer e) then Inr (rids_buffer e ! buffer_idx e) else Inl OutOfRange)"

definition SeqScanExecutor :: "ScanInfo \<Rightarrow> (SeqScan, Sys) Executor" where
  "SeqScanExecutor c =
     \<lparr>x_beginTuple = liftP (seq_beginTuple c), x_nextTuple = liftP (seq_nextTuple c), x_is_end = (\<lambda>e. Inr (ss_is_end e)),
      x_Next = liftP seq_Next, x_cols = si_cols c, x_tupleLen = Inr (si_len c)\<rparr>"

section \<open>The rows of a table\<close>

text \<open>The matching records of the pages from \<open>p\<close> on, with their identifiers, in file order.\<close>

definition hits_of :: "ScanInfo \<Rightarrow> (Rid \<rightharpoonup> bytes) \<Rightarrow> Rid list \<Rightarrow> (Rid \<times> bytes) list" where
  "hits_of c a rids = filter (\<lambda>(rid, rec). passes (si_cols c) (si_conds c) rec) (map (\<lambda>rid. (rid, the (a rid))) rids)"

definition seq_rows :: "ScanInfo \<Rightarrow> RmFileHdr \<Rightarrow> (Rid \<rightharpoonup> bytes) \<Rightarrow> bytes list" where
  "seq_rows c h a = map snd (hits_of c a (rids_from h a 1))"

text \<open>The tables that a reading transaction sees: it may read the tables \<open>T\<close>, which no other transaction changes.\<close>

definition may_read :: "txn_id_t \<Rightarrow> int \<Rightarrow> LockManager \<Rightarrow> bool" where
  "may_read i fd lm \<longleftrightarrow> (\<forall>r \<in> set (requests lm (LockDataId_table fd)). lr_txn r \<noteq> i \<longrightarrow> lr_mode r = LS \<or> lr_mode r = LIS)"

definition db_view :: "txn_id_t \<Rightarrow> (string \<rightharpoonup> int \<times> RmFileHdr) \<Rightarrow> (string \<rightharpoonup> (Rid \<rightharpoonup> bytes)) \<Rightarrow> string set \<Rightarrow> Sys \<Rightarrow> bool" where
  "db_view i F A T s \<longleftrightarrow> tabs_ok s \<and> sy_fhs s = F \<and> tab_abs s = A
     \<and> (\<exists>t. sy_txns s i = Some t \<and> txn_id t = i \<and> txn_state t \<noteq> SHRINKING)
     \<and> (\<forall>tab \<in> T. \<forall>fd h. F tab = Some (fd, h) \<longrightarrow> may_read i fd (sy_locks s))"

section \<open>One page\<close>

lemma page_slots_all:
  assumes "page_wf h x"
  shows "page_slots h x = filter (is_set (bitmap_at x)) [0..<nat (num_records_per_page h)]"
proof -
  let ?n = "nat (num_records_per_page h)"
  have "length (filter (is_set (bitmap_at x)) [0..<?n]) = card (set (filter (is_set (bitmap_at x)) [0..<?n]))"
    by (rule distinct_card [symmetric]) simp
  also have "set (filter (is_set (bitmap_at x)) [0..<?n]) = bits_of (bitmap_at x) ?n"
    by (auto simp: bits_of_def)
  finally show ?thesis using assms by (simp add: page_slots_def page_wf_def Let_def)
qed

lemma scan_page_spec:
  assumes ok: "rm_ok fd s" and p: "1 \<le> p" "p < num_pages (rm_hdr s)" and h: "h = rm_hdr s" "si_len c = record_size h"
    and fits: "\<And>d. d \<in> set (si_conds c) \<Longrightarrow> cond_fits (si_cols c) d"
  obtains s' where "scan_page c fd h p s = (Inr (hits_of c (rm_abs fd s) (slots_from h (rm_abs fd s) p 0)), s')" and "only_read fd s s'"
proof -
  have rp: "record_page h p" using p h by (simp add: record_page_def)
  obtain f b1 b2 x where f: "fetch_page \<lparr>pid_fd = fd, pid_no = p\<rparr> (rm_bp s) = (Inr (Some f), b1)"
    "frame_data b1 f = x" "page_id (pages b1 ! f) = \<lparr>pid_fd = fd, pid_no = p\<rparr>"
    "unpin_page \<lparr>pid_fd = fd, pid_no = p\<rparr> False b1 = (True, b2)"
    "content (rm_bp s) \<lparr>pid_fd = fd, pid_no = p\<rparr> = Some x" "page_wf (rm_hdr s) x" "only_read fd s (s\<lparr>rm_bp := b2\<rparr>)"
    by (rule read_page_of_table [OF ok rp [unfolded h(1)]], rule that)
  note wf = f(6) [folded h(1)]
  let ?mk = "\<lambda>j. \<lparr>page_no = p, slot_no = int j\<rparr>" and ?n = "nat (num_records_per_page h)"
  have abs: "rm_abs fd s (?mk j) = page_recs h x j" for j
    using rp f(5) h by (simp add: rm_abs_def file_recs_def pages_of_def)
  have sl: "slots_from h (rm_abs fd s) p 0 = map ?mk (page_slots h x)"
    unfolding page_slots_all [OF wf] slots_from_def
    by (intro arg_cong [where f = "map _"] filter_cong) (auto simp: abs page_recs_def)
  have rows: "map (\<lambda>j. (?mk j, mem_get (get_slot h (int j)) (nat (si_len c)) x)) (page_slots h x)
      = map (\<lambda>rid. (rid, the (rm_abs fd s rid))) (slots_from h (rm_abs fd s) p 0)"
    unfolding sl using h(2) by (auto simp: abs page_recs_def page_slots_all [OF wf] slot_bytes_def)
  have "filterR (\<lambda>(rid, rec). conds_hold (\<lambda>d. test_record d (si_cols c) rec) (si_conds c))
      (map (\<lambda>j. (?mk j, mem_get (get_slot h (int j)) (nat (si_len c)) x)) (page_slots h x))
    = Inr (hits_of c (rm_abs fd s) (slots_from h (rm_abs fd s) p 0))"
    unfolding rows hits_of_def by (rule filterR_total) (auto simp: conds_hold_passes fits)
  then have "scan_page c fd h p s = (Inr (hits_of c (rm_abs fd s) (slots_from h (rm_abs fd s) p 0)), s\<lparr>rm_bp := b2\<rparr>)"
    using f(1-4) p h(1) by (simp add: scan_page_def rm_run liftR_def)
  then show thesis using f(7) by (rule that)
qed

lemma hits_of_append: "hits_of c a (xs @ ys) = hits_of c a xs @ hits_of c a ys"
  by (simp add: hits_of_def)

text \<open>What the loop over the pages has found: the hits of one page, and those still to come.\<close>

definition page_found :: "ScanInfo \<Rightarrow> RmFileHdr \<Rightarrow> (Rid \<rightharpoonup> bytes) \<Rightarrow> (Rid \<times> bytes) list \<Rightarrow> (int \<times> (Rid \<times> bytes) list) option \<Rightarrow> bool" where
  "page_found c h a hits r \<longleftrightarrow>
     (case r of None \<Rightarrow> hits = []
      | Some (q, xs) \<Rightarrow> 1 \<le> q \<and> xs \<noteq> [] \<and> hits = xs @ hits_of c a (rids_from h a (q + 1)))"

lemma rids_from_step: "p < num_pages h \<Longrightarrow> rids_from h a p = slots_from h a p 0 @ rids_from h a (p + 1)"
  using upto_rec1 [of p "num_pages h - 1"] by (simp add: rids_from_def)

lemma scan_pages_spec:
  assumes "rm_ok fd s" and "1 \<le> p" and "h = rm_hdr s" and "si_len c = record_size h"
    and fits: "\<And>d. d \<in> set (si_conds c) \<Longrightarrow> cond_fits (si_cols c) d"
  shows "\<exists>r s'. scan_pages c fd h p s = (Inr r, s') \<and> only_read fd s s'
    \<and> page_found c h (rm_abs fd s) (hits_of c (rm_abs fd s) (rids_from h (rm_abs fd s) p)) r"
  using assms(1-4)
proof (induction "nat (num_pages h - p)" arbitrary: p s)
  case 0
  then show ?case using only_read_refl
    by (subst scan_pages.simps) (auto simp: returnE_def page_found_def rids_from_def hits_of_def)
next
  case (Suc n)
  let ?a = "rm_abs fd s"
  have p: "p < num_pages h" using Suc.hyps(2) by simp
  obtain s1 where s1: "scan_page c fd h p s = (Inr (hits_of c ?a (slots_from h ?a p 0)), s1)" "only_read fd s s1"
    by (rule scan_page_spec [OF Suc.prems(1,2) _ Suc.prems(3,4) fits]) (use p Suc.prems(3) in simp)
  note o = only_readD [OF s1(2)]
  have split: "hits_of c ?a (rids_from h ?a p) = hits_of c ?a (slots_from h ?a p 0) @ hits_of c ?a (rids_from h ?a (p + 1))"
    by (simp add: rids_from_step [OF p] hits_of_append)
  show ?case
  proof (cases "hits_of c ?a (slots_from h ?a p 0) = []")
    case False
    then show ?thesis
      using s1 p split Suc.prems(2) by (subst scan_pages.simps) (auto simp: bindE_def returnE_def page_found_def)
  next
    case True
    have "\<exists>r s'. scan_pages c fd h (p + 1) s1 = (Inr r, s') \<and> only_read fd s1 s'
        \<and> page_found c h ?a (hits_of c ?a (rids_from h ?a (p + 1))) r"
      using Suc.hyps(1) [of "p + 1" s1] Suc.hyps(2) Suc.prems(2-4) o(1-3) by simp
    then show ?thesis
      using s1 p split True only_read_trans [OF s1(2)] by (subst scan_pages.simps) (auto simp: bindE_def)
  qed
qed

text \<open>The records of a table have its record size, and their identifiers fit the log.\<close>

lemma record_length:
  assumes ok: "rm_ok fd s" and r: "rm_abs fd s rid = Some v"
  shows "length v = nat (record_size (rm_hdr s))"
proof -
  obtain x i where x: "i < nat (num_records_per_page (rm_hdr s))" "slot_bytes (rm_hdr s) x i = v" "page_wf (rm_hdr s) x" "hdr_wf (rm_hdr s)"
    by (rule abs_record [OF ok r])
  then show ?thesis using slot_range(1) [OF x(4,1)] page_wf_len [OF x(3)] by (auto simp: slot_bytes_def length_mem_get)
qed

lemma record_rid_in_range:
  assumes ok: "rm_ok fd s" and r: "rm_abs fd s rid = Some v"
  shows "rid_in_range rid"
proof -
  obtain x i where x: "record_page (rm_hdr s) (page_no rid)" "slot_no rid = int i" "i < nat (num_records_per_page (rm_hdr s))"
    "page_wf (rm_hdr s) x" "hdr_wf (rm_hdr s)"
    by (rule abs_record [OF ok r])
  have "page_in_range (page_no rid)" using ok x(1) table_okD(6) by (auto simp: rm_ok_def)
  then show ?thesis
    using x num_records_bound(3) [OF x(4,5)] by (auto simp: rid_in_range_def in_i32_def page_in_range_def PAGE_SIZE_def)
qed

section \<open>Reading through the system\<close>

lemma keeps_liftR [frame_rules]: "keeps g (liftR r)"
  by (cases r) (simp_all add: liftR_def frame_rules)

lemma keeps_scan_page [frame_rules]: "keeps rm_rest (scan_page c fd h p)"
  unfolding scan_page_def by (intro frame_rules)

lemma keeps_scan_pages [frame_rules]: "keeps rm_rest (scan_pages c fd h p)"
proof (induction c fd h p rule: scan_pages.induct)
  case (1 c fd h p)
  then show ?case by (subst scan_pages.simps) (intro frame_rules; simp)
qed

lemma db_viewD:
  assumes "db_view i F A T s"
  shows "tabs_ok s" and "sy_fhs s = F" and "tab_abs s = A"
  using assms by (simp_all add: db_view_def)

lemma view_read:
  assumes v: "db_view i F A T s" and tab: "F tab = Some (fd, h)"
    and run: "m fd (rm_view h no_txn s) = (r, t)" "only_read fd (rm_view h no_txn s) t" and k: "keeps rm_rest (m fd)"
  obtains s' where "at_table None tab m s = (r, s')" and "db_view i F A T s'"
proof -
  have fhs: "sy_fhs s tab = Some (fd, h)" using v tab by (simp add: db_view_def)
  have rest: "rm_rest t = rm_rest (rm_view h no_txn s)" by (rule keepsD [OF k run(1)])
  then have names: "pool_names (rm_bp t) = pool_names (sy_bp s)" by (simp add: rm_rest_def)
  note l = table_step_lift [OF db_viewD(1) [OF v] fhs only_read_step [OF run(2)] names]
  note o = only_readD [OF run(2)]
  have "rm_abs fd t = the (A tab)" using tabs_okD(3) [OF db_viewD(1) [OF v] fhs, of no_txn] db_viewD(3) [OF v] o(2) by simp
  moreover have "A tab \<noteq> None" using fhs db_viewD(3) [OF v] by (auto simp: tab_abs_def)
  ultimately have "tab_abs (rm_store tab fd t s) = A"
    using l(2) db_viewD(3) [OF v] by (auto simp: fun_eq_iff)
  moreover have "sy_fhs (rm_store tab fd t s) = F" using o(3) tab db_viewD(2) [OF v] by (auto simp: fun_eq_iff)
  ultimately have "db_view i F A T (rm_store tab fd t s)" using v l(1) by (simp add: db_view_def)
  with at_table_run [where m = m, OF fhs run(1)] show thesis by (rule that)
qed

lemma scan_run:
  assumes v: "db_view i F A T s" and tab: "F tab = Some (fd, h)" and a: "A tab = Some a" and p: "1 \<le> p"
    and c: "si_tab_name c = tab" "si_len c = record_size h" "\<And>d. d \<in> set (si_conds c) \<Longrightarrow> cond_fits (si_cols c) d"
  obtains r s' where "at_table None tab (\<lambda>fd. bindE (getsE rm_hdr) (\<lambda>h. scan_pages c fd h p)) s = (Inr r, s')"
    and "db_view i F A T s'" and "page_found c h a (hits_of c a (rids_from h a p)) r"
proof -
  have fhs: "sy_fhs s tab = Some (fd, h)" using v tab by (simp add: db_view_def)
  note t = tabs_okD(1,3) [OF db_viewD(1) [OF v] fhs]
  have abs: "rm_abs fd (rm_view h no_txn s) = a" using t(2) [of no_txn] a db_viewD(3) [OF v] by simp
  obtain r t where r: "scan_pages c fd h p (rm_view h no_txn s) = (Inr r, t)" "only_read fd (rm_view h no_txn s) t"
    "page_found c h a (hits_of c a (rids_from h a p)) r"
    using scan_pages_spec [OF t(1) [of no_txn] p, of h c] c(2,3) unfolding abs by auto
  obtain s' where "at_table None tab (\<lambda>fd. bindE (getsE rm_hdr) (\<lambda>h. scan_pages c fd h p)) s = (Inr r, s')" "db_view i F A T s'"
    by (rule view_read [where m = "\<lambda>fd. bindE (getsE rm_hdr) (\<lambda>h. scan_pages c fd h p)", OF v tab _ r(2)])
      (simp add: bindE_getsE r(1), intro frame_rules, rule that)
  then show thesis using r(3) by (rule that)
qed

text \<open>A shared lock on a table that no other transaction changes is granted.\<close>

lemma shared_lock_granted:
  assumes "txn_state t \<noteq> SHRINKING" and "may_read (txn_id t) fd lm"
  obtains lm' t' where "lock_shared_on_table fd (lm, t) = (Inr True, (lm', t'))" and "txn_id t' = txn_id t" and "txn_state t' = GROWING"
    and "\<And>fd'. may_read (txn_id t) fd' lm' = may_read (txn_id t) fd' lm"
proof -
  let ?l = "LockDataId_table fd" and ?s1 = "(lm, t\<lparr>txn_state := GROWING\<rparr>)"
  let ?r = "push_request ?l LS (touch ?l ?s1)"
  have run: "lock_shared_on_table fd (lm, t) = (Inr True, ?r)"
    using assms by (auto simp: lock_shared_on_table_def lock_table_request_def bindE_def enter_growing_cases Let_def may_read_def)
  have req: "requests (fst ?r) l' = (if l' = ?l then requests lm ?l @ [new_LockRequest (txn_id t) LS] else requests lm l')" for l'
    by (simp add: requests_push)
  have m: "may_read (txn_id t) fd' (fst ?r) = may_read (txn_id t) fd' lm" for fd'
    by (auto simp: may_read_def req)
  obtain lm' t' where r: "?r = (lm', t')" by (cases ?r)
  have t': "t' = t\<lparr>txn_state := GROWING, lock_set := insert ?l (lock_set t)\<rparr>" using arg_cong [OF r, of snd] by simp
  show thesis by (rule that [of lm' t']) (use run m t' in \<open>simp_all add: r\<close>)
qed

lemma lock_run_view:
  assumes v: "db_view i F A T s" and tab: "F tab = Some (fd, h)" "tab \<in> T"
  obtains s' where "lock_table_or_abort lock_shared_on_table why tab i s = (Inr (), s')" and "db_view i F A T s'"
proof -
  obtain t where t: "sy_txns s i = Some t" "txn_id t = i" "txn_state t \<noteq> SHRINKING" using v by (auto simp: db_view_def)
  have "may_read (txn_id t) fd (sy_locks s)" using v tab t(2) by (auto simp: db_view_def)
  then obtain lm' t' where l: "lock_shared_on_table fd (sy_locks s, t) = (Inr True, (lm', t'))" "txn_id t' = txn_id t" "txn_state t' = GROWING"
    "\<And>fd'. may_read (txn_id t) fd' lm' = may_read (txn_id t) fd' (sy_locks s)"
    by (rule shared_lock_granted [OF t(3)]) (rule that)
  have fhs: "sy_fhs s tab = Some (fd, h)" using v tab by (simp add: db_view_def)
  let ?s' = "s\<lparr>sy_locks := lm', sy_txns := (sy_txns s)(i \<mapsto> t')\<rparr>"
  have get: "at_table None tab returnE s = (Inr fd, s)"
    using fhs by (simp add: at_table_def returnE_def put_txn_def ctx_txn_def fun_upd_idem)
  have "lock_table_or_abort lock_shared_on_table why tab i s = (Inr (), ?s')"
    using l(1) t(1) get
    by (simp add: lock_table_or_abort_def bindE_def in_locks_def ctx_txn_def put_txn_def getsE_def returnE_def)
  moreover have "db_view i F A T ?s'"
    using v t l(2-4) tables_cong [of ?s' s] unfolding db_view_def by auto
  ultimately show thesis by (rule that)
qed

section \<open>The scan as a source of rows\<close>

text \<open>The buffers hold the hits of the current page from the position on; \<open>taken\<close>: the tuple there is gone.\<close>

definition seq_hits :: "bool \<Rightarrow> ScanInfo \<Rightarrow> RmFileHdr \<Rightarrow> (Rid \<rightharpoonup> bytes) \<Rightarrow> SeqScan \<Rightarrow> (Rid \<times> bytes) list \<Rightarrow> bool" where
  "seq_hits taken c h a e hs \<longleftrightarrow>
     (if hs = [] then \<not> taken \<and> ss_is_end e \<and> tuple_buffer e = []
      else \<not> ss_is_end e \<and> 1 \<le> curr_page_in_buffer e \<and> buffer_idx e < length (tuple_buffer e)
        \<and> length (rids_buffer e) = length (tuple_buffer e)
        \<and> (\<exists>ys. drop (buffer_idx e) (tuple_buffer e) = (if taken then None else Some (snd (hd hs))) # map (Some \<circ> snd) ys
            \<and> drop (buffer_idx e) (rids_buffer e) = fst (hd hs) # map fst ys
            \<and> tl hs = ys @ hits_of c a (rids_from h a (curr_page_in_buffer e + 1))))"

definition seq_at :: "bool \<Rightarrow> ScanInfo \<Rightarrow> RmFileHdr \<Rightarrow> (Rid \<rightharpoonup> bytes) \<Rightarrow> SeqScan \<Rightarrow> bytes list \<Rightarrow> bool" where
  "seq_at taken c h a e rs \<longleftrightarrow> (\<exists>hs. rs = map snd hs \<and> seq_hits taken c h a e hs)"

lemma fill_from_run:
  assumes v: "db_view i F A T s" and tab: "F tab = Some (fd, h)" and a: "A tab = Some a" and p: "1 \<le> p"
    and c: "si_tab_name c = tab" "si_len c = record_size h" "\<And>d. d \<in> set (si_conds c) \<Longrightarrow> cond_fits (si_cols c) d"
    and e: "\<not> ss_is_end e"
  shows "\<exists>e' s'. fill_from c p (e, s) = (Inr (), (e', s')) \<and> seq_hits False c h a e' (hits_of c a (rids_from h a p))
    \<and> db_view i F A T s'"
proof -
  obtain r s' where r: "at_table None tab (\<lambda>fd. bindE (getsE rm_hdr) (\<lambda>h. scan_pages c fd h p)) s = (Inr r, s')"
    "db_view i F A T s'" "page_found c h a (hits_of c a (rids_from h a p)) r"
    by (rule scan_run [OF v tab a p c(1,2)], erule c(3), rule that)
  show ?thesis
  proof (cases r)
    case None
    then show ?thesis using r c(1)
      by (auto simp: fill_from_def bindE_def in_env_def set_own_def modifyE_def page_found_def seq_hits_def)
  next
    case (Some qx)
    obtain q xs where q: "qx = (q, xs)" by (cases qx)
    obtain x ys where xs: "xs = x # ys" using r(3) Some q by (cases xs) (auto simp: page_found_def)
    show ?thesis using r c(1) Some q e xs
      by (auto simp: fill_from_def bindE_def in_env_def set_own_def modifyE_def page_found_def seq_hits_def comp_def)
  qed
qed

lemma seq_begin_run:
  assumes v: "db_view i F A T s" and tab: "F tab = Some (fd, h)" "tab \<in> T" and a: "A tab = Some a"
    and c: "si_tab_name c = tab" "si_txn c = i" "si_len c = record_size h" "\<And>d. d \<in> set (si_conds c) \<Longrightarrow> cond_fits (si_cols c) d"
  shows "\<exists>e' s'. seq_beginTuple c (e, s) = (Inr (), (e', s')) \<and> seq_hits False c h a e' (hits_of c a (rids_from h a 1)) \<and> db_view i F A T s'"
proof -
  obtain s1 where s1: "lock_table_or_abort lock_shared_on_table DEADLOCK_PREVENTION tab i s = (Inr (), s1)" "db_view i F A T s1"
    by (rule lock_run_view [OF v tab]) (rule that)
  let ?e = "e\<lparr>ss_is_end := False, tuple_buffer := [], rids_buffer := [], buffer_idx := 0\<rparr>"
  have "seq_beginTuple c (e, s) = fill_from c 1 (?e, s1)"
    using s1(1) c(1,2) by (simp add: seq_beginTuple_def bindE_def in_env_def set_own_def modifyE_def)
  then show ?thesis
    using fill_from_run [OF s1(2) tab(1) a _ c(1,3,4), of 1 ?e] by simp
qed

lemma seq_next_run:
  assumes v: "db_view i F A T s" and tab: "F tab = Some (fd, h)" and a: "A tab = Some a"
    and c: "si_tab_name c = tab" "si_len c = record_size h" "\<And>d. d \<in> set (si_conds c) \<Longrightarrow> cond_fits (si_cols c) d"
    and e: "seq_hits taken c h a e (x # hs)"
  shows "\<exists>e' s'. seq_nextTuple c (e, s) = (Inr (), (e', s')) \<and> seq_hits False c h a e' hs \<and> db_view i F A T s'"
proof -
  let ?k = "buffer_idx e" and ?buf = "tuple_buffer e" and ?e = "e\<lparr>buffer_idx := buffer_idx e + 1\<rparr>"
  let ?later = "hits_of c a (rids_from h a (curr_page_in_buffer e + 1))"
  obtain ys where e': "\<not> ss_is_end e" "1 \<le> curr_page_in_buffer e" "?k < length ?buf" "length (rids_buffer e) = length ?buf"
    "drop ?k ?buf = (if taken then None else Some (snd x)) # map (Some \<circ> snd) ys" "drop ?k (rids_buffer e) = fst x # map fst ys"
    "hs = ys @ ?later"
    using e by (auto simp: seq_hits_def)
  have d: "drop (Suc n) xs = vs" if "drop n xs = u # vs" for n u and xs vs :: "'x list" using that by (metis drop_Suc list.sel(3) tl_drop)
  note d = d [OF e'(5)] d [OF e'(6)]
  have run: "seq_nextTuple c (e, s) = (if ?k + 1 = length ?buf then fill_from c (curr_page_in_buffer e + 1) (?e, s) else (Inr (), (?e, s)))"
    by (simp add: seq_nextTuple_def bindE_def set_own_def modifyE_def getsE_def returnE_def)
  show ?thesis
  proof (cases "?k + 1 = length ?buf")
    case True
    then have "ys = []" using d by simp
    then show ?thesis
      using run True e'(1,2,7) fill_from_run [OF v tab a _ c, of "curr_page_in_buffer e + 1" ?e] by simp
  next
    case False
    then have "ys \<noteq> []" using d e'(3) by auto
    then obtain y zs where ys: "ys = y # zs" by (cases ys) auto
    have "seq_hits False c h a ?e hs" using e' ys d False by (auto simp: seq_hits_def)
    then show ?thesis using run False v by auto
  qed
qed

lemma seq_Next_run:
  assumes "seq_hits False c h a e (x # hs)"
  shows "\<exists>e'. seq_Next (e, s) = (Inr (snd x), (e', s)) \<and> seq_hits True c h a e' (x # hs)"
proof -
  let ?k = "buffer_idx e" and ?buf = "tuple_buffer e"
  obtain ys :: "(Rid \<times> bytes) list" where e: "?k < length ?buf" "drop ?k ?buf = Some (snd x) # map (Some \<circ> snd) ys"
    using assms by (simp add: seq_hits_def) blast
  then have k: "?buf ! ?k = Some (snd x)" by (metis hd_drop_conv_nth list.sel(1))
  have "drop ?k (?buf[?k := None]) = None # map (Some \<circ> snd) ys" using e by (simp add: drop_update_swap)
  then have "seq_hits True c h a (e\<lparr>tuple_buffer := ?buf[?k := None]\<rparr>) (x # hs)"
    using assms e by (auto simp: seq_hits_def)
  then show ?thesis using e(1) k by (simp add: seq_Next_def bindE_def getsE_def set_own_def modifyE_def returnE_def)
qed

lemma seq_rid_run:
  assumes "seq_hits False c h a e (x # hs)"
  shows "seq_rid e = Inr (fst x)"
proof -
  have e: "buffer_idx e < length (rids_buffer e)" "hd (drop (buffer_idx e) (rids_buffer e)) = fst x"
    using assms by (auto simp: seq_hits_def)
  then show ?thesis by (simp add: seq_rid_def hd_drop_conv_nth)
qed

text \<open>
  A scan of a table that the transaction may read gives exactly the matching records, in file order, each
  time it is started.
\<close>

definition scan_fits ::
  "ScanInfo \<Rightarrow> txn_id_t \<Rightarrow> (string \<rightharpoonup> int \<times> RmFileHdr) \<Rightarrow> (string \<rightharpoonup> (Rid \<rightharpoonup> bytes)) \<Rightarrow> string set \<Rightarrow> RmFileHdr \<Rightarrow> (Rid \<rightharpoonup> bytes) \<Rightarrow> bool" where
  "scan_fits c i F A T h a \<longleftrightarrow> si_tab_name c \<in> T \<and> si_txn c = i \<and> (\<exists>fd. F (si_tab_name c) = Some (fd, h))
     \<and> A (si_tab_name c) = Some a \<and> si_len c = record_size h \<and> (\<forall>d \<in> set (si_conds c). cond_fits (si_cols c) d)"

lemma scan_fitsD:
  assumes "scan_fits c i F A T h a"
  obtains fd where "F (si_tab_name c) = Some (fd, h)" and "si_tab_name c \<in> T" and "A (si_tab_name c) = Some a"
    and "si_txn c = i" and "si_len c = record_size h" and "\<And>d. d \<in> set (si_conds c) \<Longrightarrow> cond_fits (si_cols c) d"
  using assms by (auto simp: scan_fits_def)

interpretation seq: row_source "SeqScanExecutor c" "db_view i F A T" "seq_rows c h a" "\<lambda>_. scan_fits c i F A T h a"
  "\<lambda>e rs. scan_fits c i F A T h a \<and> seq_at False c h a e rs" "\<lambda>e rs. scan_fits c i F A T h a \<and> seq_at True c h a e rs"
  for c i F A T h a
proof
  fix e s rs and r :: bytes
  assume v: "db_view i F A T s"
  show "\<exists>e' s'. x_beginTuple (SeqScanExecutor c) (e, s) = Some (Inr (), (e', s'))
      \<and> (scan_fits c i F A T h a \<and> seq_at False c h a e' (seq_rows c h a)) \<and> db_view i F A T s'" if "scan_fits c i F A T h a"
    using that seq_begin_run [OF v, of "si_tab_name c" _ h a c e]
    by (elim scan_fitsD) (auto simp: SeqScanExecutor_def liftP_def that seq_at_def seq_rows_def)
  show "\<exists>e' s'. x_Next (SeqScanExecutor c) (e, s) = Some (Inr r, (e', s'))
      \<and> (scan_fits c i F A T h a \<and> seq_at True c h a e' (r # rs)) \<and> db_view i F A T s'"
    if at: "scan_fits c i F A T h a \<and> seq_at False c h a e (r # rs)"
  proof -
    obtain x hs where "seq_hits False c h a e (x # hs)" "r = snd x" "rs = map snd hs" using at by (auto simp: seq_at_def Cons_eq_map_conv)
    moreover from this(1) have "\<exists>e'. seq_Next (e, s) = (Inr (snd x), (e', s)) \<and> seq_hits True c h a e' (x # hs)" by (rule seq_Next_run)
    ultimately obtain e' where "seq_Next (e, s) = (Inr r, (e', s))" "seq_at True c h a e' (r # rs)"
      unfolding seq_at_def by (metis list.simps(9))
    then show ?thesis using v at by (simp add: SeqScanExecutor_def liftP_def)
  qed
  assume "scan_fits c i F A T h a \<and> seq_at False c h a e (r # rs) \<or> scan_fits c i F A T h a \<and> seq_at True c h a e (r # rs)"
  then obtain taken where t: "scan_fits c i F A T h a" "seq_at taken c h a e (r # rs)" by blast
  obtain fd where fd: "F (si_tab_name c) = Some (fd, h)" "A (si_tab_name c) = Some a" "si_len c = record_size h"
    "\<And>d. d \<in> set (si_conds c) \<Longrightarrow> cond_fits (si_cols c) d" using t(1) by (auto simp: scan_fits_def)
  obtain x hs where hs: "seq_hits taken c h a e (x # hs)" "rs = map snd hs" using t(2) by (auto simp: seq_at_def Cons_eq_map_conv)
  show "\<exists>e' s'. x_nextTuple (SeqScanExecutor c) (e, s) = Some (Inr (), (e', s'))
      \<and> (scan_fits c i F A T h a \<and> seq_at False c h a e' rs) \<and> db_view i F A T s'"
    using seq_next_run [OF v fd(1,2) refl fd(3,4) hs(1)] t(1) hs(2) by (auto simp: SeqScanExecutor_def liftP_def seq_at_def)
qed (auto simp: SeqScanExecutor_def seq_at_def seq_hits_def split: if_splits)

interpretation seq: restartable_source "SeqScanExecutor c" "db_view i F A T" "seq_rows c h a" "\<lambda>_. scan_fits c i F A T h a"
  "\<lambda>e rs. scan_fits c i F A T h a \<and> seq_at False c h a e rs" "\<lambda>e rs. scan_fits c i F A T h a \<and> seq_at True c h a e rs"
  for c i F A T h a
  by unfold_locales simp

interpretation seq: padded_source "SeqScanExecutor c" "db_view i F A T" "seq_rows c h a" "\<lambda>_. scan_fits c i F A T h a"
  "\<lambda>e rs. scan_fits c i F A T h a \<and> seq_at False c h a e rs" "\<lambda>e rs. scan_fits c i F A T h a \<and> seq_at True c h a e rs"
  for c i F A T h a
proof unfold_locales
  fix e s
  assume "scan_fits c i F A T h a \<and> seq_at False c h a e []" "db_view i F A T s"
  then show "\<exists>e' s'. x_nextTuple (SeqScanExecutor c) (e, s) = Some (Inr (), (e', s'))
      \<and> (scan_fits c i F A T h a \<and> seq_at False c h a e' []) \<and> db_view i F A T s'"
    by (auto simp: SeqScanExecutor_def liftP_def seq_nextTuple_def bindE_def set_own_def modifyE_def getsE_def returnE_def seq_at_def seq_hits_def)
qed

end
