(* ===== verification/Exec_Join.thy ===== *)
theory Exec_Join
  imports Exec_Base "HOL-Library.Multiset"
begin

text \<open>
  \<^verbatim>\<open>NestedLoopJoinExecutor\<close> of \<^verbatim>\<open>execution/executor_nestedloop_join.h\<close>: a block nested loop join of two
  executors. The private methods \<^verbatim>\<open>outer_begin\<close>, \<^verbatim>\<open>outer_next\<close>, \<^verbatim>\<open>inner_begin\<close> and \<^verbatim>\<open>inner_next\<close> are never called.
\<close>

section \<open>The executor\<close>

definition OUTER_BUFFER_SIZE :: nat where "OUTER_BUFFER_SIZE = 4000"
definition INNER_BUFFER_SIZE :: nat where "INNER_BUFFER_SIZE = 2000"

record NestedLoopJoin =
  left_record_save :: "bytes list"
  left_index :: nat
  right_record_save :: "bytes list"
  right_index :: nat
  nl_is_end :: bool

definition new_NestedLoopJoin :: NestedLoopJoin where
  "new_NestedLoopJoin = \<lparr>left_record_save = [], left_index = 0, right_record_save = [], right_index = 0, nl_is_end = False\<rparr>"

type_synonym ('l, 'r) join_obj = "'l \<times> 'r \<times> NestedLoopJoin"

text \<open>Calls of the children, and changes of the own fields.\<close>

definition on_left :: "('l \<times> 's, 'a) pstm \<Rightarrow> (('l, 'r) join_obj \<times> 's, 'a) pstm" where
  "on_left m = (\<lambda>((l, r, j), s). map_option (\<lambda>(x, (l', s')). (x, ((l', r, j), s'))) (m (l, s)))"

definition on_right :: "('r \<times> 's, 'a) pstm \<Rightarrow> (('l, 'r) join_obj \<times> 's, 'a) pstm" where
  "on_right m = (\<lambda>((l, r, j), s). map_option (\<lambda>(x, (r', s')). (x, ((l, r', j), s'))) (m (r, s)))"

definition set_join :: "(NestedLoopJoin \<Rightarrow> NestedLoopJoin) \<Rightarrow> (('l, 'r) join_obj \<times> 's, unit) pstm" where
  "set_join f = liftP (set_own (\<lambda>(l, r, j). (l, r, f j)))"

text \<open>The two \<^verbatim>\<open>for\<close> loops over the buffers, from the current indices to the next pair that matches.\<close>

function find_pair :: "(bytes \<Rightarrow> bytes \<Rightarrow> exc + bool) \<Rightarrow> bytes list \<Rightarrow> bytes list \<Rightarrow> nat \<Rightarrow> nat \<Rightarrow> exc + (nat \<times> nat) option" where
  "find_pair T ls rs li ri =
     (if li < length ls then
        if ri < length rs then
          (case T (ls ! li) (rs ! ri) of
             Inl e \<Rightarrow> Inl e
           | Inr b \<Rightarrow> if b then Inr (Some (li, ri)) else find_pair T ls rs li (ri + 1))
        else find_pair T ls rs (li + 1) 0
      else Inr None)"
  by auto
termination by (relation "measures [\<lambda>(T, ls, rs, li, ri). length ls - li, \<lambda>(T, ls, rs, li, ri). length rs - ri]") auto

declare find_pair.simps [simp del]

definition join_test :: "Condition list \<Rightarrow> ColMeta list \<Rightarrow> ColMeta list \<Rightarrow> bytes \<Rightarrow> bytes \<Rightarrow> exc + bool" where
  "join_test conds lcols rcols l r = conds_hold (\<lambda>c. test_join_record c lcols l rcols r) conds"

text \<open>
  The loop that \<^verbatim>\<open>beginTuple\<close> and \<^verbatim>\<open>nextTuple\<close> share. An \<^verbatim>\<open>assert(is_end())\<close> behind a fill loop that found no
  row holds, since the loop was left with this condition.
\<close>

partial_function (option) join_loop ::
  "Condition list \<Rightarrow> ('l, 's) Executor \<Rightarrow> ('r, 's) Executor \<Rightarrow> ('l, 'r) join_obj \<times> 's
     \<Rightarrow> ((exc + unit) \<times> (('l, 'r) join_obj \<times> 's)) option" where
  "join_loop conds L R st =
     bindP (liftP (getsE (\<lambda>((l, r, j), s). j))) (\<lambda>j.
     bindP (liftP (liftR (find_pair (join_test conds (x_cols L) (x_cols R)) (left_record_save j) (right_record_save j)
                           (left_index j) (right_index j)))) (\<lambda>p st1.
       case p of
         Some q \<Rightarrow> set_join (\<lambda>j. j\<lparr>left_index := fst q, right_index := snd q\<rparr>) st1
       | None \<Rightarrow>
           bindP (set_join (\<lambda>j. j\<lparr>right_index := (if left_index j < length (left_record_save j) then 0 else right_index j),
                                  left_index := 0\<rparr>)) (\<lambda>_.
           bindP (on_right (take_rows R INNER_BUFFER_SIZE)) (\<lambda>rs.
           bindP (set_join (\<lambda>j. j\<lparr>right_record_save := rs\<rparr>)) (\<lambda>_ st2.
             if rs \<noteq> [] then join_loop conds L R st2
             else
               bindP (on_left (take_rows L OUTER_BUFFER_SIZE)) (\<lambda>ls.
               bindP (set_join (\<lambda>j. j\<lparr>left_record_save := ls\<rparr>)) (\<lambda>_ st3.
                 if ls = [] then set_join (\<lambda>j. j\<lparr>nl_is_end := True\<rparr>) st3
                 else
                   bindP (on_right (x_beginTuple R)) (\<lambda>_.
                   bindP (on_right (take_rows R INNER_BUFFER_SIZE)) (\<lambda>rs.
                   bindP (set_join (\<lambda>j. j\<lparr>left_index := 0, right_record_save := rs\<rparr>)) (\<lambda>_.
                   join_loop conds L R))) st3)) st2))) st1)) st"

definition join_beginTuple :: "Condition list \<Rightarrow> ('l, 's) Executor \<Rightarrow> ('r, 's) Executor \<Rightarrow> (('l, 'r) join_obj \<times> 's, unit) pstm" where
  "join_beginTuple conds L R =
     bindP (on_left (x_beginTuple L)) (\<lambda>_.
     bindP (on_left (take_rows L OUTER_BUFFER_SIZE)) (\<lambda>ls.
     bindP (set_join (\<lambda>j. j\<lparr>left_record_save := ls, left_index := 0\<rparr>)) (\<lambda>_.
       if ls = [] then set_join (\<lambda>j. j\<lparr>nl_is_end := True\<rparr>)
       else
         bindP (on_right (x_beginTuple R)) (\<lambda>_.
         bindP (on_right (take_rows R INNER_BUFFER_SIZE)) (\<lambda>rs.
         bindP (set_join (\<lambda>j. j\<lparr>right_record_save := rs\<rparr>)) (\<lambda>_.
           if rs = [] then set_join (\<lambda>j. j\<lparr>nl_is_end := True\<rparr>)
           else bindP (set_join (\<lambda>j. j\<lparr>right_index := 0\<rparr>)) (\<lambda>_. join_loop conds L R)))))))"

definition join_nextTuple :: "Condition list \<Rightarrow> ('l, 's) Executor \<Rightarrow> ('r, 's) Executor \<Rightarrow> (('l, 'r) join_obj \<times> 's, unit) pstm" where
  "join_nextTuple conds L R =
     bindP (set_join (\<lambda>j. j\<lparr>right_index := right_index j + 1\<rparr>)) (\<lambda>_. join_loop conds L R)"

text \<open>\<^verbatim>\<open>Next\<close>: the bytes of both records behind each other.\<close>

definition join_Next :: "int \<Rightarrow> int \<Rightarrow> (('l, 'r) join_obj \<times> 's, bytes) stm" where
  "join_Next llen rlen =
     bindE (getsE (\<lambda>((l, r, j), s). j)) (\<lambda>j.
       if left_index j < length (left_record_save j) \<and> right_index j < length (right_record_save j)
         \<and> nat llen \<le> length (left_record_save j ! left_index j) \<and> nat rlen \<le> length (right_record_save j ! right_index j)
       then returnE (take (nat llen) (left_record_save j ! left_index j) @ take (nat rlen) (right_record_save j ! right_index j))
       else throwE OutOfRange)"

definition shift_cols :: "int \<Rightarrow> ColMeta list \<Rightarrow> ColMeta list" where
  "shift_cols n = map (\<lambda>c. c\<lparr>cm_offset := cm_offset c + n\<rparr>)"

definition JoinMethods :: "Condition list \<Rightarrow> int \<Rightarrow> int \<Rightarrow> ('l, 's) Executor \<Rightarrow> ('r, 's) Executor \<Rightarrow> (('l, 'r) join_obj, 's) Executor" where
  "JoinMethods conds llen rlen L R =
     \<lparr>x_beginTuple = join_beginTuple conds L R, x_nextTuple = join_nextTuple conds L R,
      x_is_end = (\<lambda>(l, r, j). Inr (nl_is_end j)), x_Next = liftP (join_Next llen rlen),
      x_cols = x_cols L @ shift_cols llen (x_cols R), x_tupleLen = Inr (llen + rlen)\<rparr>"

text \<open>The constructor asks both children for the length of their tuples.\<close>

definition NestedLoopJoinExecutor :: "Condition list \<Rightarrow> ('l, 's) Executor \<Rightarrow> ('r, 's) Executor \<Rightarrow> exc + (('l, 'r) join_obj, 's) Executor" where
  "NestedLoopJoinExecutor conds L R =
     andThen (x_tupleLen L) (\<lambda>llen. andThen (x_tupleLen R) (\<lambda>rlen. Inr (JoinMethods conds llen rlen L R)))"

section \<open>The rows of a join\<close>

fun chunks :: "nat \<Rightarrow> 'a list \<Rightarrow> 'a list list" where
  "chunks n [] = []"
| "chunks n (x # xs) = (if n = 0 then [] else take n (x # xs) # chunks n (drop n (x # xs)))"

declare chunks.simps(2) [simp del]

lemma chunks_step: "xs \<noteq> [] \<Longrightarrow> 0 < n \<Longrightarrow> chunks n xs = take n xs # chunks n (drop n xs)"
  by (cases xs) (simp_all add: chunks.simps(2))

lemma concat_chunks: "0 < n \<Longrightarrow> concat (chunks n xs) = xs"
  by (induction n xs rule: chunks.induct) (simp_all add: chunks.simps(2))

text \<open>The pairs that match, of two buffers and from a position on, and of a block of left rows with all right rows.\<close>

definition pair_rows :: "(bytes \<Rightarrow> bytes \<Rightarrow> bool) \<Rightarrow> bytes list \<Rightarrow> bytes list \<Rightarrow> bytes list" where
  "pair_rows Q ls rs = concat (map (\<lambda>l. map (\<lambda>r. l @ r) (filter (Q l) rs)) ls)"

definition rest_rows :: "(bytes \<Rightarrow> bytes \<Rightarrow> bool) \<Rightarrow> bytes list \<Rightarrow> bytes list \<Rightarrow> nat \<Rightarrow> nat \<Rightarrow> bytes list" where
  "rest_rows Q ls rs li ri =
     (if li < length ls then map (\<lambda>r. ls ! li @ r) (filter (Q (ls ! li)) (drop ri rs)) @ pair_rows Q (drop (li + 1) ls) rs else [])"

definition block_rows :: "(bytes \<Rightarrow> bytes \<Rightarrow> bool) \<Rightarrow> bytes list \<Rightarrow> bytes list \<Rightarrow> bytes list" where
  "block_rows Q ls rs = concat (map (pair_rows Q ls) (chunks INNER_BUFFER_SIZE rs))"

definition join_rows :: "(bytes \<Rightarrow> bytes \<Rightarrow> bool) \<Rightarrow> bytes list \<Rightarrow> bytes list \<Rightarrow> bytes list" where
  "join_rows Q ls rs = concat (map (\<lambda>b. block_rows Q b rs) (chunks OUTER_BUFFER_SIZE ls))"

definition join_ahead ::
  "(bytes \<Rightarrow> bytes \<Rightarrow> bool) \<Rightarrow> bytes list \<Rightarrow> bytes list \<Rightarrow> bytes list \<Rightarrow> nat \<Rightarrow> nat \<Rightarrow> bytes list \<Rightarrow> bytes list \<Rightarrow> bytes list" where
  "join_ahead Q rrows ls rs li ri lrest rrest = rest_rows Q ls rs li ri @ block_rows Q ls rrest @ join_rows Q lrest rrows"

lemma buffer_sizes [simp]: "0 < OUTER_BUFFER_SIZE" "0 < INNER_BUFFER_SIZE" "OUTER_BUFFER_SIZE \<noteq> 0" "INNER_BUFFER_SIZE \<noteq> 0"
  by (simp_all add: OUTER_BUFFER_SIZE_def INNER_BUFFER_SIZE_def)

lemma pair_rows_simps [simp]:
  "pair_rows Q [] rs = []" "pair_rows Q (l # ls) rs = map (\<lambda>r. l @ r) (filter (Q l) rs) @ pair_rows Q ls rs" "pair_rows Q ls [] = []"
  by (simp_all add: pair_rows_def)

lemma rest_rows_start: "rest_rows Q ls rs 0 0 = pair_rows Q ls rs"
  by (cases ls) (simp_all add: rest_rows_def)

lemma rest_rows_line: "li < length ls \<Longrightarrow> length rs \<le> ri \<Longrightarrow> rest_rows Q ls rs li ri = rest_rows Q ls rs (li + 1) 0"
  by (cases "li + 1 < length ls") (simp_all add: rest_rows_def Cons_nth_drop_Suc [symmetric])

lemma rest_rows_step:
  "li < length ls \<Longrightarrow> ri < length rs \<Longrightarrow>
   rest_rows Q ls rs li ri = (if Q (ls ! li) (rs ! ri) then [ls ! li @ rs ! ri] else []) @ rest_rows Q ls rs li (ri + 1)"
  by (simp add: rest_rows_def Cons_nth_drop_Suc [symmetric])

lemma find_pair_total:
  "\<exists>p. find_pair (\<lambda>l r. Inr (Q l r)) ls rs li ri = Inr p \<and>
    (case p of None \<Rightarrow> rest_rows Q ls rs li ri = []
     | Some (i, k) \<Rightarrow> i < length ls \<and> k < length rs \<and> Q (ls ! i) (rs ! k) \<and> rest_rows Q ls rs li ri = rest_rows Q ls rs i k)"
proof (induction "\<lambda>l r. Inr (Q l r) :: exc + bool" ls rs li ri rule: find_pair.induct)
  case (1 ls rs li ri)
  show ?case
  proof (cases "li < length ls")
    case True
    show ?thesis
    proof (cases "ri < length rs")
      case ri: True
      then show ?thesis
        using "1.hyps"(1) [OF True ri refl, unfolded Suc_eq_plus1 [symmetric]] True rest_rows_step [OF True ri, of Q]
        by (subst find_pair.simps) (cases "Q (ls ! li) (rs ! ri)"; simp cong: option.case_cong prod.case_cong)
    next
      case False
      then show ?thesis
        using "1.hyps"(2) [OF True False, unfolded Suc_eq_plus1 [symmetric]] True rest_rows_line [OF True, of rs ri Q]
        by (subst find_pair.simps) (simp cong: option.case_cong prod.case_cong)
    qed
  qed (subst find_pair.simps, simp add: rest_rows_def)
qed

lemma find_pair_spec:
  assumes "\<And>l r. T l r = Inr (Q l r)"
  shows "\<exists>p. find_pair T ls rs li ri = Inr p \<and>
    (case p of None \<Rightarrow> rest_rows Q ls rs li ri = []
     | Some (i, k) \<Rightarrow> i < length ls \<and> k < length rs \<and> Q (ls ! i) (rs ! k) \<and> rest_rows Q ls rs li ri = rest_rows Q ls rs i k)"
proof -
  have "T = (\<lambda>l r. Inr (Q l r))" using assms by (intro ext)
  then show ?thesis using find_pair_total by simp
qed

lemma block_rows_step:
  "rs \<noteq> [] \<Longrightarrow> block_rows Q ls rs = pair_rows Q ls (take INNER_BUFFER_SIZE rs) @ block_rows Q ls (drop INNER_BUFFER_SIZE rs)"
  by (simp add: block_rows_def chunks_step)

lemma block_rows_Nil [simp]: "block_rows Q ls [] = []"
  by (simp add: block_rows_def)

lemma join_rows_step:
  "ls \<noteq> [] \<Longrightarrow> join_rows Q ls rs = block_rows Q (take OUTER_BUFFER_SIZE ls) rs @ join_rows Q (drop OUTER_BUFFER_SIZE ls) rs"
  by (simp add: join_rows_def chunks_step)

lemma join_rows_Nil [simp]: "join_rows Q [] rs = []" "join_rows Q ls [] = []"
  by (simp_all add: join_rows_def)

text \<open>The order of the rows apart, a block nested loop join is the plain one.\<close>

lemma mset_pair_rows: "mset (pair_rows Q ls (rs @ rs')) = mset (pair_rows Q ls rs) + mset (pair_rows Q ls rs')"
  by (induction ls) simp_all

lemma mset_pair_chunks: "mset (concat (map (pair_rows Q ls) css)) = mset (pair_rows Q ls (concat css))"
  by (induction css) (simp_all add: mset_pair_rows)

lemma pair_rows_append: "pair_rows Q (ls @ ls') rs = pair_rows Q ls rs @ pair_rows Q ls' rs"
  by (simp add: pair_rows_def)

lemma mset_join_rows: "mset (join_rows Q ls rs) = mset (pair_rows Q ls rs)"
proof -
  have b: "mset (block_rows Q b rs) = mset (pair_rows Q b rs)" for b
    by (simp add: block_rows_def mset_pair_chunks concat_chunks)
  have "mset (concat (map (\<lambda>b. block_rows Q b rs) bs)) = mset (pair_rows Q (concat bs) rs)" for bs
    by (induction bs) (simp_all add: b pair_rows_append)
  then show ?thesis by (simp add: join_rows_def concat_chunks)
qed

section \<open>The join as a source of rows\<close>

lemma bindP_run: "m st = Some (Inr x, st') \<Longrightarrow> bindP m k st = k x st'"
  by (simp add: bindP_def)

lemma set_join_run: "bindP (set_join f) k ((l, r, j), s) = k () ((l, r, f j), s)"
  by (simp add: bindP_def set_join_def liftP_def set_own_def modifyE_def)

lemma set_join_apply: "set_join f ((l, r, j), s) = Some (Inr (), ((l, r, f j), s))"
  by (simp add: set_join_def liftP_def set_own_def modifyE_def)

lemma on_left_run: "bindP (on_left m) k ((l, r, j), s) =
    (case m (l, s) of None \<Rightarrow> None | Some (Inl e, (l', s')) \<Rightarrow> Some (Inl e, ((l', r, j), s')) | Some (Inr x, (l', s')) \<Rightarrow> k x ((l', r, j), s'))"
  by (auto simp: bindP_def on_left_def split: option.splits prod.splits sum.splits)

lemma on_right_run: "bindP (on_right m) k ((l, r, j), s) =
    (case m (r, s) of None \<Rightarrow> None | Some (Inl e, (r', s')) \<Rightarrow> Some (Inl e, ((l, r', j), s')) | Some (Inr x, (r', s')) \<Rightarrow> k x ((l, r', j), s'))"
  by (auto simp: bindP_def on_right_def split: option.splits prod.splits sum.splits)

definition join_cond_fits :: "ColMeta list \<Rightarrow> ColMeta list \<Rightarrow> Condition \<Rightarrow> bool" where
  "join_cond_fits lcols rcols c \<longleftrightarrow> names_col lcols (tc_col_name (lhs_col c)) \<and> (is_rhs_val c \<or> names_col rcols (tc_col_name (rhs_col c)))"

definition join_match :: "Condition list \<Rightarrow> ColMeta list \<Rightarrow> ColMeta list \<Rightarrow> bytes \<Rightarrow> bytes \<Rightarrow> bool" where
  "join_match conds lcols rcols l r \<longleftrightarrow> (\<forall>c \<in> set conds. test_join_record c lcols l rcols r = Inr True)"

lemma join_test_match:
  assumes "\<And>c. c \<in> set conds \<Longrightarrow> join_cond_fits lcols rcols c"
  shows "join_test conds lcols rcols l r = Inr (join_match conds lcols rcols l r)"
  unfolding join_test_def join_match_def
proof (rule conds_hold_total)
  fix c
  assume "c \<in> set conds"
  then have f: "join_cond_fits lcols rcols c" by (rule assms)
  then show "\<exists>b. test_join_record c lcols l rcols r = Inr b"
    using test_fits [of lcols c l] find_names [of lcols "tc_col_name (lhs_col c)"] find_names [of rcols "tc_col_name (rhs_col c)"]
    by (auto simp: join_cond_fits_def test_join_record_def cond_fits_def andThen_def)
qed

text \<open>What the join needs of its children and its conditions.\<close>

definition join_fits :: "Condition list \<Rightarrow> int \<Rightarrow> int \<Rightarrow> ColMeta list \<Rightarrow> ColMeta list \<Rightarrow> bytes list \<Rightarrow> bytes list \<Rightarrow> bool" where
  "join_fits conds llen rlen lcols rcols lrows rrows \<longleftrightarrow> (\<forall>c \<in> set conds. join_cond_fits lcols rcols c)
     \<and> (\<forall>x \<in> set lrows. length x = nat llen) \<and> (\<forall>x \<in> set rrows. length x = nat rlen)"

text \<open>The buffers hold rows of the children, which have \<open>lrest\<close> and \<open>rrest\<close> still to give.\<close>

definition join_inv ::
  "('l \<Rightarrow> bytes list \<Rightarrow> bool) \<Rightarrow> ('r \<Rightarrow> bytes list \<Rightarrow> bool) \<Rightarrow> bytes list \<Rightarrow> bytes list \<Rightarrow> ('l, 'r) join_obj \<Rightarrow> bytes list \<Rightarrow> bytes list \<Rightarrow> bool" where
  "join_inv lholds rholds lrows rrows ob lrest rrest \<longleftrightarrow>
     (case ob of (l, r, j) \<Rightarrow> \<not> nl_is_end j \<and> lholds l lrest \<and> rholds r rrest
       \<and> left_index j < length (left_record_save j)
       \<and> set (left_record_save j) \<subseteq> set lrows \<and> set (right_record_save j) \<subseteq> set rrows
       \<and> set lrest \<subseteq> set lrows \<and> set rrest \<subseteq> set rrows)"

definition join_at ::
  "('l \<Rightarrow> bytes list \<Rightarrow> bool) \<Rightarrow> ('r \<Rightarrow> bytes list \<Rightarrow> bool) \<Rightarrow> bytes list \<Rightarrow> bytes list \<Rightarrow> (bytes \<Rightarrow> bytes \<Rightarrow> bool)
    \<Rightarrow> ('l, 'r) join_obj \<Rightarrow> bytes list \<Rightarrow> bool" where
  "join_at lholds rholds lrows rrows Q ob rows \<longleftrightarrow>
     (case ob of (l, r, j) \<Rightarrow>
        if rows = [] then nl_is_end j
        else \<exists>lrest rrest. join_inv lholds rholds lrows rrows ob lrest rrest
          \<and> right_index j < length (right_record_save j)
          \<and> Q (left_record_save j ! left_index j) (right_record_save j ! right_index j)
          \<and> rows = join_ahead Q rrows (left_record_save j) (right_record_save j) (left_index j) (right_index j) lrest rrest)"

locale join_source =
  L: row_source L good lrows lstart lholds ltook + R: restartable_source R good rrows rstart rholds rtook
  for L :: "('l, 's) Executor" and good lrows lstart lholds ltook and R :: "('r, 's) Executor" and rrows rstart rholds rtook +
  fixes conds :: "Condition list" and llen rlen :: int
begin

abbreviation "matches \<equiv> join_match conds (x_cols L) (x_cols R)"

lemma join_loop_run:
  assumes T: "\<And>l r. join_test conds (x_cols L) (x_cols R) l r = Inr (matches l r)"
    and "join_inv lholds rholds lrows rrows (l, r, j) lrest rrest" and "good s"
  shows "\<exists>ob' s'. join_loop conds L R ((l, r, j), s) = Some (Inr (), (ob', s')) \<and> good s' \<and> join_at lholds rholds lrows rrows matches ob'
      (join_ahead matches rrows (left_record_save j) (right_record_save j) (left_index j) (right_index j) lrest rrest)"
  using assms(2,3)
proof (induction "(length lrest, length rrest)" arbitrary: l r j s lrest rrest
    rule: wf_induct_rule [OF wf_lex_prod [OF wf_less wf_less]])
  case (1 lrest rrest l r j s)
  let ?ls = "left_record_save j" and ?rs = "right_record_save j" and ?li = "left_index j" and ?ri = "right_index j"
  let ?j1 = "j\<lparr>right_index := 0, left_index := 0\<rparr>" and ?n = INNER_BUFFER_SIZE and ?m = OUTER_BUFFER_SIZE
  have inv: "\<not> nl_is_end j" "lholds l lrest" "rholds r rrest" "?li < length ?ls" "set ?ls \<subseteq> set lrows" "set ?rs \<subseteq> set rrows"
    "set lrest \<subseteq> set lrows" "set rrest \<subseteq> set rrows" using "1.prems"(1) by (simp_all add: join_inv_def)
  obtain p where p: "find_pair (join_test conds (x_cols L) (x_cols R)) ?ls ?rs ?li ?ri = Inr p"
    "case p of None \<Rightarrow> rest_rows matches ?ls ?rs ?li ?ri = []
     | Some (i, k) \<Rightarrow> i < length ?ls \<and> k < length ?rs \<and> matches (?ls ! i) (?rs ! k)
         \<and> rest_rows matches ?ls ?rs ?li ?ri = rest_rows matches ?ls ?rs i k"
    using find_pair_spec [of "join_test conds (x_cols L) (x_cols R)" matches ?ls ?rs ?li ?ri] T by blast
  note head = join_loop.simps [of conds L R "((l, r, j), s)"]
  show ?case
  proof (cases p)
    case (Some q)
    have "join_loop conds L R ((l, r, j), s) = Some (Inr (), ((l, r, j\<lparr>left_index := fst q, right_index := snd q\<rparr>), s))"
      unfolding head using p(1) Some by (simp add: bindP_def liftP_def getsE_def liftR_def returnE_def set_join_apply)
    moreover have "join_at lholds rholds lrows rrows matches (l, r, j\<lparr>left_index := fst q, right_index := snd q\<rparr>)
        (join_ahead matches rrows ?ls ?rs ?li ?ri lrest rrest)"
      using p(2) Some inv rest_rows_step [of "fst q" ?ls "snd q" ?rs matches]
      by (auto simp: join_at_def join_inv_def join_ahead_def split: prod.splits)
    ultimately show ?thesis using "1.prems"(2) by blast
  next
    case None
    then have nil: "rest_rows matches ?ls ?rs ?li ?ri = []" using p(2) by simp
    obtain r1 s1 where 1: "take_rows R ?n (r, s) = Some (Inr (take ?n rrest), (r1, s1))" "rholds r1 (drop ?n rrest)" "good s1"
      using R.take_rows_run [OF inv(3) "1.prems"(2)] by blast
    let ?j2 = "?j1\<lparr>right_record_save := take ?n rrest\<rparr>"
    have step: "join_loop conds L R ((l, r, j), s) =
      (if rrest \<noteq> [] then join_loop conds L R ((l, r1, ?j2), s1)
       else
         bindP (on_left (take_rows L OUTER_BUFFER_SIZE)) (\<lambda>ls.
         bindP (set_join (\<lambda>j. j\<lparr>left_record_save := ls\<rparr>)) (\<lambda>_ st3.
           if ls = [] then set_join (\<lambda>j. j\<lparr>nl_is_end := True\<rparr>) st3
           else
             bindP (on_right (x_beginTuple R)) (\<lambda>_.
             bindP (on_right (take_rows R INNER_BUFFER_SIZE)) (\<lambda>rs.
             bindP (set_join (\<lambda>j. j\<lparr>left_index := 0, right_record_save := rs\<rparr>)) (\<lambda>_.
             join_loop conds L R))) st3)) ((l, r1, ?j2), s1))"
      unfolding head using p(1) None inv(4)
      by (simp add: bindP_def [of "liftP _"] liftP_def getsE_def liftR_def returnE_def set_join_run on_right_run 1(1))
    show ?thesis
    proof (cases "rrest = []")
      case False
      have less: "((length lrest, length (drop ?n rrest)), (length lrest, length rrest)) \<in> {(x, y). x < y} <*lex*> {(x, y). x < y}"
        using False by simp
      have "join_inv lholds rholds lrows rrows (l, r1, ?j2) lrest (drop ?n rrest)"
        using inv 1(2) by (auto simp: join_inv_def dest: in_set_takeD in_set_dropD)
      from "1.hyps" [OF less this 1(3)] show ?thesis
        using step False nil block_rows_step [OF False, of matches ?ls] by (simp add: join_ahead_def rest_rows_start)
    next
      case True
      obtain l2 s2 where 2: "take_rows L ?m (l, s1) = Some (Inr (take ?m lrest), (l2, s2))" "lholds l2 (drop ?m lrest)" "good s2"
        using L.take_rows_run [OF inv(2) 1(3)] by blast
      show ?thesis
      proof (cases "lrest = []")
        case le: True
        show ?thesis using step True le nil 2(3) by (simp add: on_left_run 2(1) set_join_run set_join_apply join_ahead_def join_at_def)
      next
        case False
        have "rstart r1" using 1(2) True R.again by simp
        then obtain r3 s3 where 3: "x_beginTuple R (r1, s2) = Some (Inr (), (r3, s3))" "rholds r3 rrows" "good s3"
          using R.begin_law 2(3) by blast
        obtain r4 s4 where 4: "take_rows R ?n (r3, s3) = Some (Inr (take ?n rrows), (r4, s4))" "rholds r4 (drop ?n rrows)" "good s4"
          using R.take_rows_run [OF 3(2,3)] by blast
        let ?j4 = "?j2\<lparr>left_record_save := take ?m lrest, left_index := 0, right_record_save := take ?n rrows\<rparr>"
        have less: "((length (drop ?m lrest), length (drop ?n rrows)), (length lrest, length rrest)) \<in> {(x, y). x < y} <*lex*> {(x, y). x < y}"
          using False by simp
        have "join_inv lholds rholds lrows rrows (l2, r4, ?j4) (drop ?m lrest) (drop ?n rrows)"
          using inv False 2(2) 4(2) by (auto simp: join_inv_def dest: in_set_takeD in_set_dropD)
        moreover have "join_loop conds L R ((l, r, j), s) = join_loop conds L R ((l2, r4, ?j4), s4)"
          using step True False by (simp add: on_left_run 2(1) set_join_run on_right_run 3(1) on_right_run 4(1))
        moreover have "join_rows matches lrest rrows =
            pair_rows matches (take ?m lrest) (take ?n rrows) @ block_rows matches (take ?m lrest) (drop ?n rrows)
              @ join_rows matches (drop ?m lrest) rrows"
          using join_rows_step [OF False] block_rows_step [of rrows] by (cases "rrows = []") simp_all
        ultimately show ?thesis
          using "1.hyps" [OF less _ 4(3), of l2 r4 ?j4] True nil by (simp add: join_ahead_def rest_rows_start)
      qed
    qed
  qed
qed

lemma join_begin_run:
  assumes f: "join_fits conds llen rlen (x_cols L) (x_cols R) lrows rrows"
    and st: "lstart l" "rstart r" "\<not> nl_is_end j" and g: "good s"
  shows "\<exists>ob' s'. join_beginTuple conds L R ((l, r, j), s) = Some (Inr (), (ob', s')) \<and> good s'
      \<and> join_at lholds rholds lrows rrows matches ob' (join_rows matches lrows rrows)"
proof -
  let ?n = INNER_BUFFER_SIZE and ?m = OUTER_BUFFER_SIZE
  have T: "join_test conds (x_cols L) (x_cols R) l r = Inr (matches l r)" for l r
    using f join_test_match unfolding join_fits_def by blast
  obtain l1 s1 where 1: "x_beginTuple L (l, s) = Some (Inr (), (l1, s1))" "lholds l1 lrows" "good s1"
    using L.begin_law [OF st(1) g] by blast
  obtain l2 s2 where 2: "take_rows L ?m (l1, s1) = Some (Inr (take ?m lrows), (l2, s2))" "lholds l2 (drop ?m lrows)" "good s2"
    using L.take_rows_run [OF 1(2,3)] by blast
  obtain r3 s3 where 3: "x_beginTuple R (r, s2) = Some (Inr (), (r3, s3))" "rholds r3 rrows" "good s3"
    using R.begin_law [OF st(2) 2(3)] by blast
  obtain r4 s4 where 4: "take_rows R ?n (r3, s3) = Some (Inr (take ?n rrows), (r4, s4))" "rholds r4 (drop ?n rrows)" "good s4"
    using R.take_rows_run [OF 3(2,3)] by blast
  let ?j = "j\<lparr>left_record_save := take ?m lrows, left_index := 0, right_record_save := take ?n rrows, right_index := 0\<rparr>"
  note run = join_beginTuple_def on_left_run on_right_run set_join_run set_join_apply 1(1) 2(1) 3(1) 4(1)
  show ?thesis
  proof (cases "lrows = [] \<or> rrows = []")
    case True
    then show ?thesis using 2(3) 4(3) by (auto simp: run join_at_def)
  next
    case False
    then have "join_beginTuple conds L R ((l, r, j), s) = join_loop conds L R ((l2, r4, ?j), s4)" by (simp add: run)
    moreover have "join_inv lholds rholds lrows rrows (l2, r4, ?j) (drop ?m lrows) (drop ?n rrows)"
      using False st(3) 2(2) 4(2) by (auto simp: join_inv_def dest: in_set_takeD in_set_dropD)
    moreover have "join_ahead matches rrows (take ?m lrows) (take ?n rrows) 0 0 (drop ?m lrows) (drop ?n rrows) = join_rows matches lrows rrows"
      using False by (simp add: join_ahead_def rest_rows_start join_rows_step [of lrows] block_rows_step [of rrows])
    ultimately show ?thesis using join_loop_run [OF T, of l2 r4 ?j _ _ s4] 4(3) by fastforce
  qed
qed

lemma join_next_run:
  assumes f: "join_fits conds llen rlen (x_cols L) (x_cols R) lrows rrows"
    and at: "join_at lholds rholds lrows rrows matches (l, r, j) (x # rows)" and g: "good s"
  shows "\<exists>ob' s'. join_nextTuple conds L R ((l, r, j), s) = Some (Inr (), (ob', s')) \<and> good s'
      \<and> join_at lholds rholds lrows rrows matches ob' rows"
proof -
  let ?ls = "left_record_save j" and ?rs = "right_record_save j" and ?li = "left_index j" and ?ri = "right_index j"
  have T: "join_test conds (x_cols L) (x_cols R) l r = Inr (matches l r)" for l r
    using f join_test_match unfolding join_fits_def by blast
  obtain lrest rrest where i: "join_inv lholds rholds lrows rrows (l, r, j) lrest rrest" "?ri < length ?rs"
    "matches (?ls ! ?li) (?rs ! ?ri)" "x # rows = join_ahead matches rrows ?ls ?rs ?li ?ri lrest rrest"
    using at by (auto simp: join_at_def)
  have li: "?li < length ?ls" using i(1) by (simp add: join_inv_def)
  have "rows = join_ahead matches rrows ?ls ?rs ?li (?ri + 1) lrest rrest"
    using i(3,4) rest_rows_step [OF li i(2), of matches] by (simp add: join_ahead_def)
  moreover have "join_inv lholds rholds lrows rrows (l, r, j\<lparr>right_index := ?ri + 1\<rparr>) lrest rrest" using i(1) by (simp add: join_inv_def)
  ultimately show ?thesis
    using join_loop_run [OF T, of l r "j\<lparr>right_index := ?ri + 1\<rparr>" lrest rrest s] g by (auto simp: join_nextTuple_def set_join_run)
qed

lemma join_Next_run:
  assumes f: "join_fits conds llen rlen (x_cols L) (x_cols R) lrows rrows"
    and at: "join_at lholds rholds lrows rrows matches (l, r, j) (x # rows)"
  shows "join_Next llen rlen ((l, r, j), s) = (Inr x, ((l, r, j), s))"
proof -
  let ?ls = "left_record_save j" and ?rs = "right_record_save j" and ?li = "left_index j" and ?ri = "right_index j"
  obtain lrest rrest where i: "join_inv lholds rholds lrows rrows (l, r, j) lrest rrest" "?ri < length ?rs"
    "matches (?ls ! ?li) (?rs ! ?ri)" "x # rows = join_ahead matches rrows ?ls ?rs ?li ?ri lrest rrest"
    using at by (auto simp: join_at_def)
  have li: "?li < length ?ls" "set ?ls \<subseteq> set lrows" "set ?rs \<subseteq> set rrows" using i(1) by (simp_all add: join_inv_def)
  have "?ls ! ?li \<in> set lrows" "?rs ! ?ri \<in> set rrows" using li i(2) nth_mem by blast+
  then have "length (?ls ! ?li) = nat llen" "length (?rs ! ?ri) = nat rlen" using f by (auto simp: join_fits_def)
  moreover have "x = ?ls ! ?li @ ?rs ! ?ri"
    using i(3,4) rest_rows_step [OF li(1) i(2), of matches] by (simp add: join_ahead_def)
  ultimately show ?thesis using li(1) i(2) by (simp add: join_Next_def bindE_def getsE_def returnE_def)
qed

end

sublocale join_source \<subseteq> join: row_source "JoinMethods conds llen rlen L R" good "join_rows matches lrows rrows"
  "\<lambda>(l, r, j). join_fits conds llen rlen (x_cols L) (x_cols R) lrows rrows \<and> lstart l \<and> rstart r \<and> \<not> nl_is_end j"
  "\<lambda>ob rows. join_fits conds llen rlen (x_cols L) (x_cols R) lrows rrows \<and> join_at lholds rholds lrows rrows matches ob rows"
  "\<lambda>ob rows. join_fits conds llen rlen (x_cols L) (x_cols R) lrows rrows \<and> join_at lholds rholds lrows rrows matches ob rows"
proof (unfold_locales, goal_cases)
  case (1 ob s)
  obtain l r j where "ob = (l, r, j)" by (cases ob)
  then show ?case using 1 join_begin_run [of l r j s] by (auto simp: JoinMethods_def)
next
  case (2 ob rows)
  then show ?case by (auto simp: JoinMethods_def join_at_def join_inv_def split: if_splits prod.splits)
next
  case (3 ob x rows s)
  obtain l r j where "ob = (l, r, j)" by (cases ob)
  then show ?case using 3 join_Next_run [of l r j x rows s] by (auto simp: JoinMethods_def liftP_def)
next
  case (4 ob x rows s)
  obtain l r j where "ob = (l, r, j)" by (cases ob)
  then show ?case using 4 join_next_run [of l r j x rows s] by (auto simp: JoinMethods_def)
qed

end
