(* ===== verification/Exec_Project.thy ===== *)
theory Exec_Project
  imports Exec_Base
begin

text \<open>
  \<^verbatim>\<open>ProjectionExecutor\<close> of \<^verbatim>\<open>execution/executor_projection.h\<close>: the selected columns of every row of the
  child, copied behind each other. The private state is the child's with the buffer \<^verbatim>\<open>rec_\<close>.
\<close>

section \<open>The executor\<close>

text \<open>The loop of the constructor: the positions in the child's columns, the own columns and the length.\<close>

fun project_cols :: "ColMeta list \<Rightarrow> TabCol list \<Rightarrow> int \<Rightarrow> exc + (nat list \<times> ColMeta list \<times> int)" where
  "project_cols prev [] off = Inr ([], [], off)"
| "project_cols prev (t # ts) off =
     andThen (exec_get_col prev t) (\<lambda>p.
     andThen (project_cols prev ts (off + cm_len (prev ! p))) (\<lambda>(ps, cs, len).
     Inr (p # ps, (prev ! p)\<lparr>cm_offset := off\<rparr> # cs, len)))"

text \<open>The copies into the buffer: a column of the child with the own column.\<close>

fun copy_cols :: "(ColMeta \<times> ColMeta) list \<Rightarrow> bytes \<Rightarrow> bytes \<Rightarrow> exc + bytes" where
  "copy_cols [] src rec = Inr rec"
| "copy_cols ((p, c) # ps) src rec =
     (if cm_offset p < 0 \<or> cm_len p < 0 \<or> nat (cm_offset p) + nat (cm_len p) > length src
        \<or> cm_offset c < 0 \<or> nat (cm_offset c) + nat (cm_len p) > length rec
      then Inl OutOfRange
      else copy_cols ps src (mem_put (nat (cm_offset c)) (mem_get (nat (cm_offset p)) (nat (cm_len p)) src) rec))"

definition on_prev :: "('e \<times> 's, 'a) pstm \<Rightarrow> (('e \<times> 'o) \<times> 's, 'a) pstm" where
  "on_prev m = (\<lambda>((e, x), s). map_option (\<lambda>(r, (e', s')). (r, ((e', x), s'))) (m (e, s)))"

text \<open>The common part of \<^verbatim>\<open>beginTuple\<close> and \<^verbatim>\<open>nextTuple\<close>.\<close>

definition load_rec :: "(ColMeta \<times> ColMeta) list \<Rightarrow> ('e, 's) Executor \<Rightarrow> (('e \<times> bytes) \<times> 's, unit) pstm" where
  "load_rec ps X =
     bindP (liftP (getsE (\<lambda>((e, x), s). x_is_end X e))) (\<lambda>fin.
     bindP (liftP (liftR fin)) (\<lambda>fin.
       if fin then liftP (returnE ())
       else
         bindP (on_prev (x_Next X)) (\<lambda>src.
         bindP (liftP (getsE (\<lambda>((e, x), s). x))) (\<lambda>rec.
         bindP (liftP (liftR (copy_cols ps src rec))) (\<lambda>rec'.
         liftP (set_own (\<lambda>(e, x). (e, rec'))))))))"

definition ProjectMethods :: "(ColMeta \<times> ColMeta) list \<Rightarrow> int \<Rightarrow> ('e, 's) Executor \<Rightarrow> ('e \<times> bytes, 's) Executor" where
  "ProjectMethods ps len X =
     \<lparr>x_beginTuple = bindP (on_prev (x_beginTuple X)) (\<lambda>_. load_rec ps X),
      x_nextTuple = bindP (on_prev (x_nextTuple X)) (\<lambda>_. load_rec ps X),
      x_is_end = (\<lambda>(e, x). x_is_end X e),
      x_Next = liftP (getsE (\<lambda>((e, x), s). x)),
      x_cols = map snd ps, x_tupleLen = Inr len\<rparr>"

text \<open>The constructor; the buffer of \<^verbatim>\<open>len\<close> bytes, which the caller adds, is uninitialised.\<close>

definition ProjectionExecutor :: "('e, 's) Executor \<Rightarrow> TabCol list \<Rightarrow> exc + ('e \<times> bytes, 's) Executor" where
  "ProjectionExecutor X sel =
     andThen (project_cols (x_cols X) sel 0) (\<lambda>(ps, cs, len).
     Inr (ProjectMethods (zip (map (\<lambda>p. x_cols X ! p) ps) cs) len X))"

section \<open>The rows of a projection\<close>

definition project_row :: "ColMeta list \<Rightarrow> bytes \<Rightarrow> bytes" where
  "project_row cols r = concat (map (\<lambda>c. mem_get (nat (cm_offset c)) (nat (cm_len c)) r) cols)"

text \<open>The own columns lie behind each other, from \<open>off\<close> to \<open>len\<close>.\<close>

fun packed :: "(ColMeta \<times> ColMeta) list \<Rightarrow> int \<Rightarrow> int \<Rightarrow> bool" where
  "packed [] off len = (off = len)"
| "packed ((p, c) # ps) off len = (cm_offset c = off \<and> 0 \<le> cm_len p \<and> packed ps (off + cm_len p) len)"

definition col_in :: "nat \<Rightarrow> ColMeta \<Rightarrow> bool" where
  "col_in n c \<longleftrightarrow> 0 \<le> cm_offset c \<and> 0 \<le> cm_len c \<and> nat (cm_offset c) + nat (cm_len c) \<le> n"

definition project_fits :: "(ColMeta \<times> ColMeta) list \<Rightarrow> int \<Rightarrow> bytes list \<Rightarrow> bool" where
  "project_fits ps len rows \<longleftrightarrow> packed ps 0 len \<and> (\<forall>r \<in> set rows. \<forall>(p, c) \<in> set ps. col_in (length r) p)"

lemma packed_le: "packed ps off len \<Longrightarrow> off \<le> len"
  by (induction ps off len rule: packed.induct) auto

lemma project_cols_packed:
  assumes "project_cols prev ts off = Inr (ps, cs, len)" and "\<forall>c \<in> set prev. 0 \<le> cm_len c"
  shows "packed (zip (map (\<lambda>p. prev ! p) ps) cs) off len" and "length cs = length ps" and "\<forall>p \<in> set ps. p < length prev"
proof -
  have pos: "exec_get_col prev t = Inr p \<Longrightarrow> p < length prev" for t p
  proof -
    have "col_pos P cs = Some p \<Longrightarrow> p < length cs" for P and cs :: "ColMeta list"
      by (induction cs arbitrary: p) (auto split: if_splits)
    then show "exec_get_col prev t = Inr p \<Longrightarrow> p < length prev" by (auto simp: exec_get_col_def split: option.splits)
  qed
  have "packed (zip (map (\<lambda>p. prev ! p) ps) cs) off len \<and> length cs = length ps \<and> (\<forall>p \<in> set ps. p < length prev)"
    using assms
  proof (induction ts arbitrary: off ps cs len)
    case (Cons t ts)
    obtain p where p: "exec_get_col prev t = Inr p" using Cons.prems(1) by (auto simp: andThen_def split: sum.splits)
    obtain ps' cs' len' where r: "project_cols prev ts (off + cm_len (prev ! p)) = Inr (ps', cs', len')"
      using Cons.prems(1) p by (auto simp: andThen_def split: sum.splits)
    from Cons.IH [OF r Cons.prems(2)] show ?case using Cons.prems p r pos [OF p] by (auto simp: andThen_def)
  qed simp
  then show "packed (zip (map (\<lambda>p. prev ! p) ps) cs) off len" "length cs = length ps" "\<forall>p \<in> set ps. p < length prev" by simp_all
qed

lemma copy_cols_spec:
  assumes "packed ps off len" and "0 \<le> off" and "length rec = nat len" and "\<forall>(p, c) \<in> set ps. col_in (length src) p"
  shows "copy_cols ps src rec = Inr (take (nat off) rec @ project_row (map fst ps) src)"
  using assms
proof (induction ps arbitrary: off rec)
  case Nil
  then show ?case by (simp add: project_row_def)
next
  case (Cons pc ps)
  obtain p c where pc: "pc = (p, c)" by (cases pc)
  have p: "cm_offset c = off" "0 \<le> cm_len p" "packed ps (off + cm_len p) len" "col_in (length src) p"
    using Cons.prems pc by auto
  have le: "off + cm_len p \<le> len" using packed_le [OF p(3)] .
  let ?v = "mem_get (nat (cm_offset p)) (nat (cm_len p)) src" and ?o = "nat off"
  have v: "length ?v = nat (cm_len p)" using p(4) by (simp add: col_in_def length_mem_get)
  have fit: "?o + length ?v \<le> length rec" using v le Cons.prems(2,3) p(2) by linarith
  let ?rec = "mem_put ?o ?v rec"
  have len: "length ?rec = nat len" using fit Cons.prems(3) by (simp add: length_mem_put)
  have o: "nat (off + cm_len p) = ?o + length ?v" using v Cons.prems(2) p(2) by (simp add: nat_add_distrib)
  have tk: "take (nat (off + cm_len p)) ?rec = take ?o rec @ ?v" unfolding o using fit by (simp add: mem_put_def)
  have "copy_cols ps src ?rec = Inr (take (nat (off + cm_len p)) ?rec @ project_row (map fst ps) src)"
    using Cons.IH [OF p(3) _ len] Cons.prems(2,4) p(2) by simp
  then show ?case using pc p fit v Cons.prems(2) tk by (simp add: col_in_def project_row_def)
qed

lemma copy_cols_row:
  assumes "project_fits ps len rows" and "r \<in> set rows" and "length rec = nat len"
  shows "copy_cols ps r rec = Inr (project_row (map fst ps) r)"
  using copy_cols_spec [of ps 0 len rec r] assms by (auto simp: project_fits_def)

lemma length_project_row:
  assumes "project_fits ps len rows" and "r \<in> set rows"
  shows "length (project_row (map fst ps) r) = nat len"
proof -
  have "length (project_row (map fst ps) r) = nat (len - off)" if "packed ps off len" "\<forall>(p, c) \<in> set ps. col_in (length r) p" for off
    using that
  proof (induction ps arbitrary: off)
    case (Cons pc ps)
    obtain p c where pc: "pc = (p, c)" by (cases pc)
    have le: "off + cm_len p \<le> len" using Cons.prems(1) pc packed_le by auto
    have "length (mem_get (nat (cm_offset p)) (nat (cm_len p)) r) = nat (cm_len p)"
      using Cons.prems(2) pc by (auto simp: col_in_def length_mem_get)
    then show ?case using Cons.IH [of "off + cm_len p"] Cons.prems pc le by (auto simp: project_row_def col_in_def)
  qed (simp add: project_row_def)
  from this [of 0] show ?thesis using assms by (auto simp: project_fits_def)
qed

section \<open>The projection as a source of rows\<close>

lemma on_prev_run: "bindP (on_prev m) k ((e, x), s) =
    (case m (e, s) of None \<Rightarrow> None | Some (Inl er, (e', s')) \<Rightarrow> Some (Inl er, ((e', x), s')) | Some (Inr r, (e', s')) \<Rightarrow> k r ((e', x), s'))"
  by (auto simp: bindP_def on_prev_def split: option.splits prod.splits sum.splits)

text \<open>The child's current row has been taken and its projection is in the buffer.\<close>

definition project_at ::
  "(ColMeta \<times> ColMeta) list \<Rightarrow> int \<Rightarrow> bytes list \<Rightarrow> ('e \<Rightarrow> bytes list \<Rightarrow> bool) \<Rightarrow> ('e \<Rightarrow> bytes list \<Rightarrow> bool) \<Rightarrow> 'e \<times> bytes \<Rightarrow> bytes list \<Rightarrow> bool" where
  "project_at ps len rows holds took ob xs \<longleftrightarrow> project_fits ps len rows \<and> length (snd ob) = nat len
     \<and> (\<exists>rs. set rs \<subseteq> set rows \<and> xs = map (project_row (map fst ps)) rs
          \<and> (if rs = [] then holds (fst ob) [] else took (fst ob) rs \<and> snd ob = project_row (map fst ps) (hd rs)))"

locale project_source = row_source X good rows startable holds took
  for X :: "('e, 's) Executor" and good rows startable holds took +
  fixes ps :: "(ColMeta \<times> ColMeta) list" and len :: int
begin

lemma load_rec_run:
  assumes f: "project_fits ps len rows" and x: "length x = nat len" and h: "holds e rs" "set rs \<subseteq> set rows" and g: "good s"
  shows "\<exists>ob' s'. load_rec ps X ((e, x), s) = Some (Inr (), (ob', s')) \<and> good s'
    \<and> project_at ps len rows holds took ob' (map (project_row (map fst ps)) rs)"
proof (cases rs)
  case Nil
  then show ?thesis
    using end_law [OF h(1)] f x h(1) g
    by (simp add: load_rec_def bindP_def liftP_def getsE_def liftR_def returnE_def project_at_def)
next
  case (Cons r rs')
  obtain e1 s1 where 1: "x_Next X (e, s) = Some (Inr r, (e1, s1))" "took e1 (r # rs')" "good s1"
    using Next_law [of e r rs' s] h(1) g Cons by blast
  have r: "r \<in> set rows" using h(2) Cons by simp
  have "load_rec ps X ((e, x), s) = Some (Inr (), ((e1, project_row (map fst ps) r), s1))"
    using end_law [OF h(1)] Cons copy_cols_row [OF f r x]
    by (simp add: load_rec_def bindP_def [of "liftP _"] liftP_def getsE_def liftR_def returnE_def on_prev_run 1(1) set_own_def modifyE_def)
  moreover have "project_at ps len rows holds took (e1, project_row (map fst ps) r) (map (project_row (map fst ps)) rs)"
    using f length_project_row [OF f r] 1(2) h(2) Cons by (auto simp: project_at_def intro!: exI [of _ rs])
  ultimately show ?thesis using 1(3) by blast
qed

end

sublocale project_source \<subseteq> proj: row_source "ProjectMethods ps len X" good "map (project_row (map fst ps)) rows"
  "\<lambda>(e, x). startable e \<and> project_fits ps len rows \<and> length x = nat len"
  "project_at ps len rows holds took" "project_at ps len rows holds took"
proof (unfold_locales, goal_cases)
  case (1 ob s)
  obtain e x where ob: "ob = (e, x)" by (cases ob)
  obtain e1 s1 where 1: "x_beginTuple X (e, s) = Some (Inr (), (e1, s1))" "holds e1 rows" "good s1"
    using begin_law [of e s] 1 ob by auto
  then show ?case using load_rec_run [of x e1 rows s1] ob \<open>case ob of (e, x) \<Rightarrow> _\<close> by (auto simp: ProjectMethods_def on_prev_run)
next
  case (2 ob xs)
  obtain e x where ob: "ob = (e, x)" by (cases ob)
  then show ?case using 2 end_law [of e] took_end_law [of e] by (auto simp: ProjectMethods_def project_at_def split: if_splits)
next
  case (3 ob x xs s)
  obtain e y where ob: "ob = (e, y)" by (cases ob)
  then show ?case using 3 by (auto simp: ProjectMethods_def liftP_def getsE_def project_at_def split: if_splits)
next
  case (4 ob x xs s)
  obtain e y where ob: "ob = (e, y)" by (cases ob)
  have f: "project_fits ps len rows" "length y = nat len" using 4 ob by (auto simp: project_at_def)
  obtain r rs where r: "took e (r # rs)" "xs = map (project_row (map fst ps)) rs" "set rs \<subseteq> set rows"
    using 4(1) ob by (auto simp: project_at_def split: if_splits)
  obtain e1 s1 where "x_nextTuple X (e, s) = Some (Inr (), (e1, s1))" "holds e1 rs" "good s1"
    using next_law [OF disjI2 [OF r(1)] 4(2)] by blast
  then show ?case using load_rec_run [OF f(1,2), of e1 rs s1] ob r by (auto simp: ProjectMethods_def on_prev_run)
qed

locale padded_project = project_source X good rows startable holds took ps len + padded_source X good rows startable holds took
  for X :: "('e, 's) Executor" and good rows startable holds took ps len

sublocale padded_project \<subseteq> proj: padded_source "ProjectMethods ps len X" good "map (project_row (map fst ps)) rows"
  "\<lambda>(e, x). startable e \<and> project_fits ps len rows \<and> length x = nat len"
  "project_at ps len rows holds took" "project_at ps len rows holds took"
proof
  fix ob s
  assume a: "project_at ps len rows holds took ob []" and g: "good s"
  obtain e x where ob: "ob = (e, x)" by (cases ob)
  have f: "project_fits ps len rows" "length x = nat len" "holds e []" using a ob by (auto simp: project_at_def)
  obtain e1 s1 where "x_nextTuple X (e, s) = Some (Inr (), (e1, s1))" "holds e1 []" "good s1"
    using past_end [OF f(3) g] by blast
  then show "\<exists>e' s'. x_nextTuple (ProjectMethods ps len X) (ob, s) = Some (Inr (), e', s')
      \<and> project_at ps len rows holds took e' [] \<and> good s'"
    using load_rec_run [OF f(1,2), of e1 "[]" s1] ob by (auto simp: ProjectMethods_def on_prev_run)
qed

end
