(* ===== verification/Exec_Agg.thy ===== *)
theory Exec_Agg
  imports Exec_Project
begin

text \<open>
  \<^verbatim>\<open>AggExecutor\<close> of \<^verbatim>\<open>execution/executor_agg.h\<close>: \<^verbatim>\<open>COUNT\<close>, \<^verbatim>\<open>MAX\<close>, \<^verbatim>\<open>MIN\<close> and \<^verbatim>\<open>SUM\<close> of one column of the
  child. The private state is the child's with the result and the flag \<^verbatim>\<open>is_result_used_\<close>; each aggregate has
  a field for its result in the code, of which only that of the own aggregate is used. The result of \<^verbatim>\<open>MAX\<close> and
  \<^verbatim>\<open>MIN\<close> of no row is never assigned.
\<close>

section \<open>The executor\<close>

record AggState =
  agg_res :: val
  is_result_used :: bool

text \<open>What the constructor fixes: the aggregate, the column of the child, and the own column and length.\<close>

record AggInfo =
  ai_type :: AggType
  ai_prev_col :: ColMeta
  ai_res_col :: ColMeta
  ai_len :: int

fun agg_name :: "AggType \<Rightarrow> string" where
  "agg_name AggType.MAX = ''MAX(''"
| "agg_name AggType.MIN = ''MIN(''"
| "agg_name AggType.SUM = ''SUM(''"
| "agg_name COUNT = ''COUNT(''"

definition new_AggInfo :: "ColMeta list \<Rightarrow> TabCol \<Rightarrow> exc + AggInfo" where
  "new_AggInfo cols sel =
     (if \<not> tc_has_agg sel then Inl AssertFail
      else if cols = [] then Inl OutOfRange
      else if length cols \<noteq> 1 \<and> \<not> (tc_aggregate_type sel = COUNT \<and> tc_col_name sel = []) then Inl AssertFail
      else
        let t = tc_aggregate_type sel; c = hd cols in
        Inr \<lparr>ai_type = t, ai_prev_col = c,
             ai_res_col = \<lparr>cm_tab_name = [],
               cm_name = (if tc_another_name sel = [] then agg_name t @ tc_col_name sel @ '')'' else tc_another_name sel),
               cm_type = (if t = COUNT then TYPE_INT else cm_type c), cm_len = (if t = COUNT then 4 else cm_len c),
               cm_offset = 0, cm_index = False\<rparr>,
             ai_len = (if length cols = 1 then cm_len c else 4)\<rparr>)"

definition set_res :: "val \<Rightarrow> (('e \<times> AggState) \<times> 's, unit) pstm" where
  "set_res v = liftP (set_own (\<lambda>(e, a). (e, a\<lparr>agg_res := v\<rparr>)))"

definition agg_is_end :: "('e, 's) Executor \<Rightarrow> (('e \<times> AggState) \<times> 's, bool) pstm" where
  "agg_is_end X = bindP (liftP (getsE (\<lambda>((e, a), s). x_is_end X e))) (\<lambda>fin. liftP (liftR fin))"

definition agg_read :: "AggInfo \<Rightarrow> ('e, 's) Executor \<Rightarrow> (('e \<times> AggState) \<times> 's, val) pstm" where
  "agg_read c X = bindP (on_prev (x_Next X)) (\<lambda>rec. liftP (returnE (read_from_record rec (ai_prev_col c))))"

text \<open>The loop over the rows of the child; \<open>f\<close> combines the result so far with the next value.\<close>

partial_function (option) agg_loop ::
  "AggInfo \<Rightarrow> ('e, 's) Executor \<Rightarrow> (val \<Rightarrow> val \<Rightarrow> exc + val) \<Rightarrow> ('e \<times> AggState) \<times> 's \<Rightarrow> ((exc + unit) \<times> (('e \<times> AggState) \<times> 's)) option" where
  "agg_loop c X f st =
     bindP (agg_is_end X) (\<lambda>fin st1.
       if fin then Some (Inr (), st1)
       else
         bindP (agg_read c X) (\<lambda>v.
         bindP (liftP (getsE (\<lambda>((e, a), s). agg_res a))) (\<lambda>res.
         bindP (liftP (liftR (f res v))) (\<lambda>res'.
         bindP (set_res res') (\<lambda>_.
         bindP (on_prev (x_nextTuple X)) (\<lambda>_.
         agg_loop c X f))))) st1) st"

partial_function (option) count_loop ::
  "('e, 's) Executor \<Rightarrow> int \<Rightarrow> ('e \<times> AggState) \<times> 's \<Rightarrow> ((exc + int) \<times> (('e \<times> AggState) \<times> 's)) option" where
  "count_loop X res st =
     bindP (agg_is_end X) (\<lambda>fin st1.
       if fin then Some (Inr res, st1)
       else bindP (on_prev (x_nextTuple X)) (\<lambda>_. count_loop X (wrap_i32 (res + 1))) st1) st"

text \<open>\<^verbatim>\<open>beginMax\<close> and \<^verbatim>\<open>beginMin\<close>: \<^verbatim>\<open>nextTuple\<close> is called even when there is no row.\<close>

definition begin_extreme :: "(val \<Rightarrow> val \<Rightarrow> bool) \<Rightarrow> AggInfo \<Rightarrow> ('e, 's) Executor \<Rightarrow> (('e \<times> AggState) \<times> 's, unit) pstm" where
  "begin_extreme better c X =
     bindP (on_prev (x_beginTuple X)) (\<lambda>_.
     bindP (agg_is_end X) (\<lambda>fin.
     bindP (if fin then liftP (returnE ()) else bindP (agg_read c X) set_res) (\<lambda>_.
     bindP (on_prev (x_nextTuple X)) (\<lambda>_.
     agg_loop c X (\<lambda>res v. Inr (if better v res then v else res))))))"

definition beginMax :: "AggInfo \<Rightarrow> ('e, 's) Executor \<Rightarrow> (('e \<times> AggState) \<times> 's, unit) pstm" where
  "beginMax = begin_extreme val_gt"

definition beginMin :: "AggInfo \<Rightarrow> ('e, 's) Executor \<Rightarrow> (('e \<times> AggState) \<times> 's, unit) pstm" where
  "beginMin = begin_extreme val_lt"

definition agg_mismatch :: exc where
  "agg_mismatch = Throw (InternalError ''Agg function type not match'')"

definition beginSum :: "AggInfo \<Rightarrow> ('e, 's) Executor \<Rightarrow> (('e \<times> AggState) \<times> 's, unit) pstm" where
  "beginSum c X =
     (case cm_type (ai_prev_col c) of
        TYPE_INT \<Rightarrow> bindP (set_res (VInt 0)) (\<lambda>_. bindP (on_prev (x_beginTuple X)) (\<lambda>_. agg_loop c X val_plus))
      | TYPE_FLOAT \<Rightarrow> bindP (set_res (VFloat 0)) (\<lambda>_. bindP (on_prev (x_beginTuple X)) (\<lambda>_. agg_loop c X val_plus))
      | _ \<Rightarrow> liftP (throwE agg_mismatch))"

definition beginCount :: "('e, 's) Executor \<Rightarrow> (('e \<times> AggState) \<times> 's, unit) pstm" where
  "beginCount X =
     bindP (set_res (VInt 0)) (\<lambda>_.
     bindP (on_prev (x_beginTuple X)) (\<lambda>_.
     bindP (count_loop X 0) (\<lambda>res. set_res (VInt res))))"

text \<open>The type of the column is checked after the rows have been read.\<close>

definition agg_type_match :: "AggType \<Rightarrow> ColType \<Rightarrow> bool" where
  "agg_type_match t c \<longleftrightarrow> c = TYPE_INT \<or> c = TYPE_FLOAT \<or> c = TYPE_STRING \<and> t \<noteq> AggType.SUM"

definition agg_beginTuple :: "AggInfo \<Rightarrow> ('e, 's) Executor \<Rightarrow> (('e \<times> AggState) \<times> 's, unit) pstm" where
  "agg_beginTuple c X =
     bindP (case ai_type c of AggType.MAX \<Rightarrow> beginMax c X | AggType.MIN \<Rightarrow> beginMin c X | AggType.SUM \<Rightarrow> beginSum c X | COUNT \<Rightarrow> beginCount X) (\<lambda>_.
       if agg_type_match (ai_type c) (cm_type (ai_prev_col c)) then liftP (returnE ()) else liftP (throwE agg_mismatch))"

definition agg_nextTuple :: "('e, 's) Executor \<Rightarrow> (('e \<times> AggState) \<times> 's, unit) pstm" where
  "agg_nextTuple X =
     bindP (agg_is_end X) (\<lambda>fin.
       if fin then liftP (returnE ()) else liftP (throwE (Throw (InternalError ''should not be called''))))"

definition agg_Next :: "AggInfo \<Rightarrow> (('e \<times> AggState) \<times> 's, bytes) stm" where
  "agg_Next c =
     bindE (set_own (\<lambda>(e, a). (e, a\<lparr>is_result_used := True\<rparr>))) (\<lambda>_.
     bindE (getsE (\<lambda>((e, a), s). agg_res a)) (\<lambda>v.
     bindE (liftR (init_raw (if ai_type c = COUNT then 4 else ai_len c) \<lparr>v_val = v, v_raw = None\<rparr>)) (\<lambda>w.
     deref (v_raw w))))"

definition AggMethods :: "AggInfo \<Rightarrow> ('e, 's) Executor \<Rightarrow> ('e \<times> AggState, 's) Executor" where
  "AggMethods c X =
     \<lparr>x_beginTuple = agg_beginTuple c X, x_nextTuple = agg_nextTuple X, x_is_end = (\<lambda>(e, a). Inr (is_result_used a)),
      x_Next = liftP (agg_Next c), x_cols = [ai_res_col c], x_tupleLen = Inr (ai_len c)\<rparr>"

definition AggExecutor :: "('e, 's) Executor \<Rightarrow> TabCol \<Rightarrow> exc + ('e \<times> AggState, 's) Executor" where
  "AggExecutor X sel = andThen (new_AggInfo (x_cols X) sel) (\<lambda>c. Inr (AggMethods c X))"

section \<open>What the loops compute\<close>

fun foldlR :: "(val \<Rightarrow> val \<Rightarrow> exc + val) \<Rightarrow> val \<Rightarrow> val list \<Rightarrow> exc + val" where
  "foldlR f acc [] = Inr acc"
| "foldlR f acc (v # vs) = andThen (f acc v) (\<lambda>acc'. foldlR f acc' vs)"

lemma wrap_i32_add: "wrap_i32 (wrap_i32 x + y) = wrap_i32 (x + y)"
proof -
  have "(wrap_i32 x + y + 2 ^ 31) mod 2 ^ 32 = ((x + 2 ^ 31) mod 2 ^ 32 + y) mod 2 ^ 32" by (simp add: wrap_i32_def)
  also have "\<dots> = (x + 2 ^ 31 + y) mod 2 ^ 32" by (rule mod_add_left_eq)
  also have "\<dots> = (x + y + 2 ^ 31) mod 2 ^ 32" by (simp add: ac_simps)
  finally show ?thesis by (simp add: wrap_i32_def)
qed

lemma agg_is_end_run: "x_is_end X e = Inr b \<Longrightarrow> bindP (agg_is_end X) k ((e, a), s) = k b ((e, a), s)"
  by (simp add: agg_is_end_def bindP_def liftP_def getsE_def liftR_def returnE_def)

lemma set_res_run: "bindP (set_res v) k ((e, a), s) = k () ((e, a\<lparr>agg_res := v\<rparr>), s)"
  by (simp add: set_res_def bindP_def liftP_def set_own_def modifyE_def)

lemma agg_read_run: "bindP (agg_read c X) k ((e, a), s) =
    bindP (on_prev (x_Next X)) (\<lambda>rec. k (read_from_record rec (ai_prev_col c))) ((e, a), s)"
  by (auto simp: agg_read_def on_prev_run bindP_def [of "bindP _ _"] liftP_def returnE_def split: option.splits prod.splits sum.splits)

abbreviation agg_vals :: "AggInfo \<Rightarrow> bytes list \<Rightarrow> val list" where
  "agg_vals c rs \<equiv> map (\<lambda>r. read_from_record r (ai_prev_col c)) rs"

text \<open>The child has given all its rows, and \<open>v\<close> is the result.\<close>

definition agg_done :: "('e \<Rightarrow> bytes list \<Rightarrow> bool) \<Rightarrow> AggState \<Rightarrow> val \<Rightarrow> 'e \<times> AggState \<Rightarrow> bool" where
  "agg_done holds a v ob \<longleftrightarrow> holds (fst ob) [] \<and> snd ob = a\<lparr>agg_res := v\<rparr>"

context row_source
begin

lemma agg_loop_run:
  "holds e rs \<Longrightarrow> good s \<Longrightarrow> foldlR f (agg_res a) (agg_vals c rs) = Inr v \<Longrightarrow>
   \<exists>ob' s'. agg_loop c X f ((e, a), s) = Some (Inr (), (ob', s')) \<and> agg_done holds a v ob' \<and> good s'"
proof (induction rs arbitrary: e a s)
  case Nil
  then show ?case using end_law [OF Nil(1)] by (subst agg_loop.simps) (simp add: agg_is_end_run agg_done_def)
next
  case (Cons r rs)
  let ?v = "read_from_record r (ai_prev_col c)"
  obtain e1 s1 where 1: "x_Next X (e, s) = Some (Inr r, (e1, s1))" "took e1 (r # rs)" "good s1"
    using Next_law [OF Cons.prems(1,2)] by blast
  obtain e2 s2 where 2: "x_nextTuple X (e1, s1) = Some (Inr (), (e2, s2))" "holds e2 rs" "good s2"
    using next_law [OF disjI2 [OF 1(2)] 1(3)] by blast
  obtain w where w: "f (agg_res a) ?v = Inr w" "foldlR f w (agg_vals c rs) = Inr v"
    using Cons.prems(3) by (auto simp: andThen_def split: sum.splits)
  have "agg_loop c X f ((e, a), s) = agg_loop c X f ((e2, a\<lparr>agg_res := w\<rparr>), s2)"
    by (subst agg_loop.simps)
      (simp add: agg_is_end_run [OF end_law [OF Cons.prems(1)]] agg_read_run on_prev_run 1(1) 2(1) bindP_def [of "liftP _"] liftP_def
        getsE_def liftR_def returnE_def w(1) set_res_run)
  moreover have "\<exists>ob' s'. agg_loop c X f ((e2, a\<lparr>agg_res := w\<rparr>), s2) = Some (Inr (), (ob', s'))
      \<and> agg_done holds (a\<lparr>agg_res := w\<rparr>) v ob' \<and> good s'"
    by (rule Cons.IH [OF 2(2,3)]) (simp add: w(2))
  ultimately show ?case by (auto simp: agg_done_def)
qed

lemma count_loop_run:
  "holds e rs \<Longrightarrow> good s \<Longrightarrow>
   \<exists>e' s'. count_loop X n ((e, a), s) = Some (Inr (if rs = [] then n else wrap_i32 (n + int (length rs))), ((e', a), s')) \<and> holds e' [] \<and> good s'"
proof (induction rs arbitrary: e n s)
  case Nil
  then show ?case using end_law [OF Nil(1)] by (subst count_loop.simps) (simp add: agg_is_end_run)
next
  case (Cons r rs)
  obtain e2 s2 where 2: "x_nextTuple X (e, s) = Some (Inr (), (e2, s2))" "holds e2 rs" "good s2"
    using next_law [OF disjI1 [OF Cons.prems(1)] Cons.prems(2)] by blast
  have "count_loop X n ((e, a), s) = count_loop X (wrap_i32 (n + 1)) ((e2, a), s2)"
    by (subst count_loop.simps) (simp add: agg_is_end_run [OF end_law [OF Cons.prems(1)]] on_prev_run 2(1))
  then show ?case using Cons.IH [OF 2(2,3), of "wrap_i32 (n + 1)"] by (auto simp: wrap_i32_add add.assoc)
qed

text \<open>The four aggregates; an extreme needs a first row.\<close>

lemma begin_count_run:
  assumes "startable e" and "good s"
  shows "\<exists>ob' s'. beginCount X ((e, a), s) = Some (Inr (), (ob', s')) \<and> agg_done holds a (VInt (wrap_i32 (int (length rows)))) ob' \<and> good s'"
proof -
  obtain e1 s1 where 1: "x_beginTuple X (e, s) = Some (Inr (), (e1, s1))" "holds e1 rows" "good s1" using begin_law [OF assms] by blast
  let ?n = "if rows = [] then 0 else wrap_i32 (0 + int (length rows))"
  obtain e2 s2 where 2: "count_loop X 0 ((e1, a\<lparr>agg_res := VInt 0\<rparr>), s1) = Some (Inr ?n, ((e2, a\<lparr>agg_res := VInt 0\<rparr>), s2))" "holds e2 []" "good s2"
    using count_loop_run [OF 1(2,3), of 0 "a\<lparr>agg_res := VInt 0\<rparr>"] by blast
  have n: "?n = wrap_i32 (int (length rows))" by (simp add: wrap_i32_def)
  have "beginCount X ((e, a), s) = set_res (VInt ?n) ((e2, a\<lparr>agg_res := VInt 0\<rparr>), s2)"
    using 2(1) by (simp only: beginCount_def set_res_run on_prev_run 1(1)) (simp add: bindP_def [of "count_loop _ _"])
  then show ?thesis unfolding n using 2(2,3)
    by (auto simp: set_res_def liftP_def set_own_def modifyE_def agg_done_def)
qed

lemma begin_extreme_run:
  assumes "startable e" and "good s" and rows: "rows = r # rs"
  shows "\<exists>ob' s'. begin_extreme better c X ((e, a), s) = Some (Inr (), (ob', s')) \<and> good s'
    \<and> agg_done holds a (foldl (\<lambda>res v. if better v res then v else res) (read_from_record r (ai_prev_col c)) (agg_vals c rs)) ob'"
proof -
  let ?f = "\<lambda>res v. if better v res then v else res" and ?v = "read_from_record r (ai_prev_col c)"
  have fold: "foldlR (\<lambda>res v. Inr (?f res v)) x vs = Inr (foldl ?f x vs)" for x vs by (induction vs arbitrary: x) (simp_all add: andThen_def)
  obtain e1 s1 where 1: "x_beginTuple X (e, s) = Some (Inr (), (e1, s1))" "holds e1 (r # rs)" "good s1"
    using begin_law [OF assms(1,2)] rows by blast
  obtain e2 s2 where 2: "x_Next X (e1, s1) = Some (Inr r, (e2, s2))" "took e2 (r # rs)" "good s2" using Next_law [OF 1(2,3)] by blast
  obtain e3 s3 where 3: "x_nextTuple X (e2, s2) = Some (Inr (), (e3, s3))" "holds e3 rs" "good s3"
    using next_law [OF disjI2 [OF 2(2)] 2(3)] by blast
  have "begin_extreme better c X ((e, a), s) = agg_loop c X (\<lambda>res v. Inr (?f res v)) ((e3, a\<lparr>agg_res := ?v\<rparr>), s3)"
    using end_law [OF 1(2)]
    by (simp add: begin_extreme_def on_prev_run 1(1) agg_is_end_run [where b = False])
      (simp add: bindP_def [of "bindP _ _"] agg_read_run on_prev_run 2(1) 3(1) set_res_def liftP_def set_own_def modifyE_def)
  moreover have "\<exists>ob' s'. agg_loop c X (\<lambda>res v. Inr (?f res v)) ((e3, a\<lparr>agg_res := ?v\<rparr>), s3) = Some (Inr (), (ob', s'))
      \<and> agg_done holds (a\<lparr>agg_res := ?v\<rparr>) (foldl ?f ?v (agg_vals c rs)) ob' \<and> good s'"
    by (rule agg_loop_run [OF 3(2,3)]) (simp add: fold)
  ultimately show ?thesis by (auto simp: agg_done_def)
qed

lemma begin_sum_run:
  assumes "startable e" and "good s" and t: "cm_type (ai_prev_col c) = TYPE_INT" and v: "foldlR val_plus (VInt 0) (agg_vals c rows) = Inr v"
  shows "\<exists>ob' s'. beginSum c X ((e, a), s) = Some (Inr (), (ob', s')) \<and> good s' \<and> agg_done holds a v ob'"
proof -
  obtain e1 s1 where 1: "x_beginTuple X (e, s) = Some (Inr (), (e1, s1))" "holds e1 rows" "good s1" using begin_law [OF assms(1,2)] by blast
  have "\<exists>ob' s'. agg_loop c X val_plus ((e1, a\<lparr>agg_res := VInt 0\<rparr>), s1) = Some (Inr (), (ob', s'))
      \<and> agg_done holds (a\<lparr>agg_res := VInt 0\<rparr>) v ob' \<and> good s'"
    by (rule agg_loop_run [OF 1(2,3)]) (simp add: v)
  then show ?thesis using t by (auto simp: beginSum_def set_res_run on_prev_run 1(1) agg_done_def)
qed

text \<open>The consumer sees exactly one row: the bytes of the result.\<close>

lemma agg_rows:
  assumes b: "(case ai_type c of AggType.MAX \<Rightarrow> beginMax c X | AggType.MIN \<Rightarrow> beginMin c X | AggType.SUM \<Rightarrow> beginSum c X | COUNT \<Rightarrow> beginCount X) ((e, a), s)
      = Some (Inr (), (ob', s'))"
    and d: "agg_done holds a v ob'" and t: "agg_type_match (ai_type c) (cm_type (ai_prev_col c))"
    and u: "\<not> is_result_used a" and raw: "raw_bytes v (if ai_type c = COUNT then 4 else ai_len c) = Inr bs"
  shows "\<exists>ob''. all_rows (AggMethods c X) ((e, a), s) = Some (Inr [bs], (ob'', s'))"
proof -
  obtain e1 where ob: "ob' = (e1, a\<lparr>agg_res := v\<rparr>)" "holds e1 []" using d by (cases ob') (auto simp: agg_done_def)
  let ?M = "AggMethods c X" and ?a = "a\<lparr>agg_res := v, is_result_used := True\<rparr>"
  have bg: "x_beginTuple ?M ((e, a), s) = Some (Inr (), ((e1, a\<lparr>agg_res := v\<rparr>), s'))"
    using b ob t by (simp add: AggMethods_def agg_beginTuple_def bindP_def liftP_def returnE_def)
  have nx: "x_Next ?M ((e1, a\<lparr>agg_res := v\<rparr>), s') = Some (Inr bs, ((e1, ?a), s'))"
    using raw by (simp add: AggMethods_def liftP_def agg_Next_def bindE_def set_own_def modifyE_def getsE_def liftR_def init_raw_def andThen_def
        returnE_def deref_def)
  have nt: "x_nextTuple ?M ((e1, ?a), s') = Some (Inr (), ((e1, ?a), s'))"
    using end_law [OF ob(2)] by (simp add: AggMethods_def agg_nextTuple_def agg_is_end_run) (simp add: liftP_def returnE_def)
  have fin: "x_is_end ?M (e1, a\<lparr>agg_res := v\<rparr>) = Inr False" "x_is_end ?M (e1, ?a) = Inr True"
    using u by (simp_all add: AggMethods_def)
  have "rows_from ?M ((e1, ?a), s') = Some (Inr [], ((e1, ?a), s'))" using fin(2) by (subst rows_from.simps) simp
  then have "rows_from ?M ((e1, a\<lparr>agg_res := v\<rparr>), s') = Some (Inr [bs], ((e1, ?a), s'))"
    using fin(1) nx nt by (subst rows_from.simps) (simp add: bindP_def liftP_def returnE_def)
  then show ?thesis using bg by (simp add: all_rows_def bindP_def)
qed

end

end
