(* ===== verification/Exec_Props.thy ===== *)
theory Exec_Props
  imports Exec_SeqScan Exec_Join Exec_Agg Txn_Props Code_Invar
begin

text \<open>
  What statements compute with the executors: a scan gives the matching records, a join of scans the
  matching pairs, an aggregate the value over the matching records.
\<close>

section \<open>The records that a scan sees\<close>

definition rid_before :: "Rid \<Rightarrow> Rid \<Rightarrow> bool" where
  "rid_before r r' \<longleftrightarrow> page_no r < page_no r' \<or> page_no r = page_no r' \<and> slot_no r < slot_no r'"

lemma slots_sorted: "sorted_wrt rid_before (slots_from h a p j)"
  unfolding slots_from_def sorted_wrt_map by (rule sorted_wrt_filter) (simp add: rid_before_def)

lemma rids_sorted: "sorted_wrt rid_before (rids_from h a i)"
proof -
  have "sorted_wrt rid_before (concat (map (\<lambda>p. slots_from h a p 0) ps))" if "sorted_wrt (<) ps" for ps
    using that
  proof (induction ps)
    case (Cons p ps)
    have "rid_before r r'" if "r \<in> set (slots_from h a p 0)" "r' \<in> set (concat (map (\<lambda>p. slots_from h a p 0) ps))" for r r'
      using that Cons.prems by (auto simp: rid_before_def dest!: page_of_slots)
    with Cons show ?case by (simp add: sorted_wrt_append slots_sorted)
  qed simp
  then show ?thesis by (simp add: rids_from_def)
qed

lemma seq_rows_rids:
  "seq_rows c h a = map (\<lambda>rid. the (a rid)) (filter (\<lambda>rid. passes (si_cols c) (si_conds c) (the (a rid))) (rids_from h a 1))"
  by (simp add: seq_rows_def hits_of_def filter_map comp_def)

lemma scanned_table:
  assumes v: "db_view i F A T s" and c: "scan_fits c i F A T h a"
  obtains fd where "rm_ok fd (rm_view h no_txn s)" and "rm_abs fd (rm_view h no_txn s) = a" and "sy_fhs s (si_tab_name c) = Some (fd, h)"
proof -
  obtain fd where fd: "F (si_tab_name c) = Some (fd, h)" "A (si_tab_name c) = Some a" using c by (auto simp: scan_fits_def)
  then have fhs: "sy_fhs s (si_tab_name c) = Some (fd, h)" using db_viewD(2) [OF v] by simp
  note t = tabs_okD(1,3) [OF db_viewD(1) [OF v] fhs]
  show thesis by (rule that [OF t(1) _ fhs]) (use t(2) [of no_txn] fd(2) db_viewD(3) [OF v] in simp)
qed

lemma scanned_rids:
  assumes "db_view i F A T s" and "scan_fits c i F A T h a"
  shows "set (rids_from h a 1) = dom a"
proof -
  obtain fd where "rm_abs fd (rm_view h no_txn s) = a" by (rule scanned_table [OF assms])
  then show ?thesis using table_rids_set [of fd "rm_view h no_txn s"] by (simp add: table_rids_def)
qed

lemma seq_rows_length:
  assumes "db_view i F A T s" and "scan_fits c i F A T h a" and x: "x \<in> set (seq_rows c h a)"
  shows "length x = nat (si_len c)"
proof -
  obtain fd where fd: "rm_ok fd (rm_view h no_txn s)" "rm_abs fd (rm_view h no_txn s) = a" by (rule scanned_table [OF assms(1,2)])
  have "\<exists>rid. a rid = Some x" using x scanned_rids [OF assms(1,2)] by (auto simp: seq_rows_rids)
  then show ?thesis using record_length [OF fd(1)] fd(2) assms(2) by (auto simp: scan_fits_def)
qed

section \<open>Joins and projections of scans\<close>

abbreviation "seq_holds c i F A T h a \<equiv> \<lambda>e rs. scan_fits c i F A T h a \<and> seq_at False c h a e rs"
abbreviation "seq_took c i F A T h a \<equiv> \<lambda>e rs. scan_fits c i F A T h a \<and> seq_at True c h a e rs"

interpretation scan_join: join_source "SeqScanExecutor c" "db_view i F A T" "seq_rows c h a" "\<lambda>_. scan_fits c i F A T h a"
  "seq_holds c i F A T h a" "seq_took c i F A T h a"
  "SeqScanExecutor c'" "seq_rows c' h' a'" "\<lambda>_. scan_fits c' i F A T h' a'" "seq_holds c' i F A T h' a'" "seq_took c' i F A T h' a'"
  conds llen rlen
  for c i F A T h a c' h' a' conds llen rlen
  by unfold_locales

interpretation scan_proj: padded_project "SeqScanExecutor c" "db_view i F A T" "seq_rows c h a" "\<lambda>_. scan_fits c i F A T h a"
  "seq_holds c i F A T h a" "seq_took c i F A T h a" ps len
  for c i F A T h a ps len
  by unfold_locales

abbreviation "scans_match conds c c' \<equiv> join_match conds (x_cols (SeqScanExecutor c)) (x_cols (SeqScanExecutor c'))"

abbreviation "scans_fit conds llen rlen c h a c' h' a' \<equiv>
  join_fits conds llen rlen (x_cols (SeqScanExecutor c)) (x_cols (SeqScanExecutor c')) (seq_rows c h a) (seq_rows c' h' a')"

abbreviation "scans_at conds llen rlen i F A T c h a c' h' a' \<equiv> \<lambda>ob rows. scans_fit conds llen rlen c h a c' h' a'
  \<and> join_at (seq_holds c i F A T h a) (seq_holds c' i F A T h' a') (seq_rows c h a) (seq_rows c' h' a') (scans_match conds c c') ob rows"

interpretation join_proj: project_source "JoinMethods conds llen rlen (SeqScanExecutor c) (SeqScanExecutor c')" "db_view i F A T"
  "join_rows (scans_match conds c c') (seq_rows c h a) (seq_rows c' h' a')"
  "\<lambda>(l, r, j). scans_fit conds llen rlen c h a c' h' a' \<and> scan_fits c i F A T h a \<and> scan_fits c' i F A T h' a' \<and> \<not> nl_is_end j"
  "scans_at conds llen rlen i F A T c h a c' h' a'" "scans_at conds llen rlen i F A T c h a c' h' a'" ps len
  for conds llen rlen c c' i F A T h a h' a' ps len
  by (rule project_source.intro) (rule scan_join.join.row_source_axioms)

section \<open>Scans\<close>

text \<open>
  C31: A sequential scan of a table that the transaction may read ends and gives the records that satisfy its
  conditions, each once and in the order of the file, and leaves the tables as they are.
\<close>

theorem seq_scan_returns_matches:
  assumes v: "db_view i F A T s" and c: "scan_fits c i F A T h a"
  shows "\<exists>rids e' s'. all_rows (SeqScanExecutor c) (e, s) = Some (Inr (map (\<lambda>rid. the (a rid)) rids), (e', s'))
    \<and> set rids = {rid. \<exists>v. a rid = Some v \<and> passes (si_cols c) (si_conds c) v} \<and> sorted_wrt rid_before rids
    \<and> tabs_ok s' \<and> tab_abs s' = tab_abs s"
proof -
  let ?rids = "filter (\<lambda>rid. passes (si_cols c) (si_conds c) (the (a rid))) (rids_from h a 1)"
  obtain e' s' where r: "all_rows (SeqScanExecutor c) (e, s) = Some (Inr (seq_rows c h a), (e', s'))" "db_view i F A T s'"
    by (rule seq.all_rows_run [OF c v])
  have "set ?rids = {rid. \<exists>v. a rid = Some v \<and> passes (si_cols c) (si_conds c) v}"
    using scanned_rids [OF v c] by auto
  moreover have "sorted_wrt rid_before ?rids" by (rule sorted_wrt_filter [OF rids_sorted])
  ultimately show ?thesis using r db_viewD [OF v] db_viewD [OF r(2)] unfolding seq_rows_rids by blast
qed

text \<open>The small system with one record: its table may be read.\<close>

definition demo_scan :: "Condition list \<Rightarrow> ScanInfo" where
  "demo_scan conds = \<lparr>si_tab_name = ''t'', si_conds = conds, si_cols = demo_cols, si_len = 4, si_txn = 4\<rparr>"

definition demo_col :: TabCol where
  "demo_col = \<lparr>tc_tab_name = ''t'', tc_col_name = ''a'', tc_has_agg = False, tc_aggregate_type = COUNT, tc_another_name = [], tc_agg_arg_col_name = []\<rparr>"

definition demo_cond :: "CompOp \<Rightarrow> Condition" where
  "demo_cond op = \<lparr>lhs_col = demo_col, c_op = op, is_rhs_val = True, rhs_col = demo_col, rhs_val = \<lparr>v_val = VInt 5, v_raw = None\<rparr>\<rparr>"

lemma demo_passes: "passes demo_cols [demo_cond op] [1, 2, 3, 4] = comp_test op (VInt 67305985) (VInt 5)"
  by (simp add: passes_def test_record_def demo_cols_def demo_cond_def demo_col_def find_from_cols_def andThen_def read_from_record_def
      mem_get_def dec_s_def)

lemma demo_view:
  obtains s F A h rid where "db_view 4 F A {''t''} s"
    and "\<And>conds. (\<forall>d \<in> set conds. cond_fits demo_cols d) \<Longrightarrow> scan_fits (demo_scan conds) 4 F A {''t''} h [rid \<mapsto> [1, 2, 3, 4]]"
proof -
  obtain rid s c where s: "tabs_ok s" "tab_abs s = [''t'' \<mapsto> [rid \<mapsto> [1, 2, 3, 4]]]" "sy_locks s = new_LockManager"
    "sy_txns s = [4 \<mapsto> (new_Transaction True 0 0 4)\<lparr>write_records := [WriteRecord_delete 7 INSERT_TUPLE ''t'' rid [1, 2, 3, 4]]\<rparr>]"
    by (rule demo_inserted)
  have "tab_abs s ''t'' \<noteq> None" using s(2) by simp
  then obtain fd h where fh: "sy_fhs s ''t'' = Some (fd, h)" by (auto simp: tab_abs_def)
  have v: "db_view 4 (sy_fhs s) (tab_abs s) {''t''} s"
    using s(1,3,4) by (auto simp: db_view_def new_Transaction_def may_read_def requests_def queue_at_def new_LockManager_def empty_queue_def)
  have "rm_abs fd (rm_view h no_txn s) = [rid \<mapsto> [1, 2, 3, 4]]"
    using tabs_okD(3) [OF s(1) fh, of no_txn] s(2) by simp
  then have "rm_abs fd (rm_view h no_txn s) rid = Some [1, 2, 3, 4]" by simp
  from record_length [OF tabs_okD(1) [OF s(1) fh] this] have "record_size h = 4" by simp
  then have "scan_fits (demo_scan conds) 4 (sy_fhs s) (tab_abs s) {''t''} h [rid \<mapsto> [1, 2, 3, 4]]"
    if "\<forall>d \<in> set conds. cond_fits demo_cols d" for conds
    using that s(2) fh by (simp add: scan_fits_def demo_scan_def)
  with v show thesis by (rule that)
qed

lemma demo_cond_fits: "cond_fits demo_cols (demo_cond op)"
  by (simp add: cond_fits_def demo_cols_def demo_cond_def demo_col_def names_col_def)

theorem seq_scan_returns_matches_witness:
  "\<exists>s e' s'. all_rows (SeqScanExecutor (demo_scan [demo_cond OP_GT])) (undefined, s) = Some (Inr [[1, 2, 3, 4]], (e', s'))"
proof -
  obtain s F A h rid where v: "db_view 4 F A {''t''} s"
    and f: "\<And>conds. \<forall>d \<in> set conds. cond_fits demo_cols d \<Longrightarrow> scan_fits (demo_scan conds) 4 F A {''t''} h [rid \<mapsto> [1, 2, 3, 4]]"
    by (rule demo_view) (rule that)
  have d: "scan_fits (demo_scan [demo_cond OP_GT]) 4 F A {''t''} h [rid \<mapsto> [1, 2, 3, 4]]" by (rule f) (simp add: demo_cond_fits)
  obtain rids e' s' where r: "all_rows (SeqScanExecutor (demo_scan [demo_cond OP_GT])) (undefined, s)
      = Some (Inr (map (\<lambda>r. the ([rid \<mapsto> [1, 2, 3, 4]] r)) rids), (e', s'))"
    "set rids = {r. \<exists>v. [rid \<mapsto> [1, 2, 3, 4]] r = Some v \<and> passes demo_cols [demo_cond OP_GT] v}" "sorted_wrt rid_before rids"
    using seq_scan_returns_matches [OF v d, of undefined] by (auto simp: demo_scan_def)
  have "distinct rids" using r(3) by (induction rids) (auto simp: rid_before_def)
  moreover have "set rids = {rid}" using r(2) by (auto simp: demo_passes split: if_splits)
  ultimately have "rids = [rid]" by (cases rids; cases "tl rids") auto
  with r(1) show ?thesis by auto
qed

section \<open>Select, project, join\<close>

lemma cols_in_join:
  assumes l: "\<forall>x \<in> set (si_cols c). col_in (nat (si_len c)) x" and r: "\<forall>x \<in> set (si_cols c'). col_in (nat (si_len c')) x"
    and n: "0 \<le> si_len c" "0 \<le> si_len c'"
    and x: "x \<in> set (x_cols (JoinMethods conds (si_len c) (si_len c') (SeqScanExecutor c) (SeqScanExecutor c')))"
  shows "col_in (nat (si_len c + si_len c')) x"
  using x l r n by (auto simp: JoinMethods_def SeqScanExecutor_def shift_cols_def col_in_def nat_add_distrib)

lemma pair_rows_length:
  "y \<in> set (pair_rows Q ls rs) \<Longrightarrow> (\<And>x. x \<in> set ls \<Longrightarrow> length x = m) \<Longrightarrow> (\<And>x. x \<in> set rs \<Longrightarrow> length x = n) \<Longrightarrow> length y = m + n"
  by (auto simp: pair_rows_def)

text \<open>
  C32: The projection of a join of two scans ends and gives, for every pair of matching records that satisfies the
  join conditions, the selected columns, as often as such pairs exist, and leaves the tables as they are.
\<close>

theorem select_project_join:
  assumes v: "db_view i F A T s" and l: "scan_fits c i F A T h a" and r: "scan_fits c' i F A T h' a'"
    and conds: "\<forall>d \<in> set conds. join_cond_fits (si_cols c) (si_cols c') d"
    and J: "NestedLoopJoinExecutor conds (SeqScanExecutor c) (SeqScanExecutor c') = Inr J"
    and P: "project_cols (x_cols J) sel 0 = Inr (ps, cs, len)" "ProjectionExecutor J sel = Inr P" and x: "length x = nat len"
    and cols: "\<forall>y \<in> set (si_cols c). col_in (nat (si_len c)) y" "\<forall>y \<in> set (si_cols c'). col_in (nat (si_len c')) y"
    and n: "0 \<le> si_len c" "0 \<le> si_len c'"
  shows "\<exists>rows ob' s'. all_rows P (((el, er, new_NestedLoopJoin), x), s) = Some (Inr rows, (ob', s')) \<and> tab_abs s' = tab_abs s
    \<and> mset rows = mset (map (project_row (map (\<lambda>p. x_cols J ! p) ps))
        [u @ w. u \<leftarrow> seq_rows c h a, w \<leftarrow> seq_rows c' h' a', join_match conds (si_cols c) (si_cols c') u w])"
proof -
  let ?L = "seq_rows c h a" and ?R = "seq_rows c' h' a'" and ?Q = "scans_match conds c c'"
  let ?M = "JoinMethods conds (si_len c) (si_len c') (SeqScanExecutor c) (SeqScanExecutor c')"
  have JM: "J = ?M" using J by (simp add: NestedLoopJoinExecutor_def SeqScanExecutor_def andThen_def)
  let ?cs = "map (\<lambda>p. x_cols J ! p) ps" and ?zs = "zip (map (\<lambda>p. x_cols J ! p) ps) cs"
  have PM: "P = ProjectMethods ?zs len ?M" using P JM by (simp add: ProjectionExecutor_def andThen_def)
  have xc: "x_cols (SeqScanExecutor c) = si_cols c" for c by (simp add: SeqScanExecutor_def)
  have ll: "\<And>y. y \<in> set ?L \<Longrightarrow> length y = nat (si_len c)" and rl: "\<And>y. y \<in> set ?R \<Longrightarrow> length y = nat (si_len c')"
    using seq_rows_length [OF v l] seq_rows_length [OF v r] by blast+
  have jf: "scans_fit conds (si_len c) (si_len c') c h a c' h' a'" using conds ll rl by (simp add: join_fits_def xc)
  have in_join: "col_in (nat (si_len c + si_len c')) y" if "y \<in> set (x_cols J)" for y
    using cols_in_join [OF cols n] that JM by blast
  note pk = project_cols_packed [OF P(1)]
  have nonneg: "\<forall>c \<in> set (x_cols J). 0 \<le> cm_len c" using in_join by (auto simp: col_in_def)
  have fst: "map fst ?zs = ?cs" using pk(2) [OF nonneg] by simp
  have pf: "project_fits ?zs len (join_rows ?Q ?L ?R)"
  proof -
    have "length y = nat (si_len c + si_len c')" if "y \<in> set (join_rows ?Q ?L ?R)" for y
    proof -
      have "y \<in> set (pair_rows ?Q ?L ?R)" using that mset_join_rows [of ?Q ?L ?R] by (metis set_mset_mset)
      from pair_rows_length [OF this ll rl] show ?thesis using n by (simp add: nat_add_distrib)
    qed
    moreover have "p \<in> set (x_cols J)" if "(p, q) \<in> set ?zs" for p q
      using that pk(3) [OF nonneg] by (auto dest!: set_zip_leftD)
    ultimately show ?thesis using pk(1) [OF nonneg] in_join by (auto simp: project_fits_def)
  qed
  have st: "case ((el, er, new_NestedLoopJoin), x) of (e, x) \<Rightarrow> (case e of (l, r, j) \<Rightarrow> scans_fit conds (si_len c) (si_len c') c h a c' h' a'
      \<and> scan_fits c i F A T h a \<and> scan_fits c' i F A T h' a' \<and> \<not> nl_is_end j) \<and> project_fits ?zs len (join_rows ?Q ?L ?R) \<and> length x = nat len"
    using jf l r pf x by (simp add: new_NestedLoopJoin_def)
  obtain ob' s' where res: "all_rows (ProjectMethods ?zs len ?M) (((el, er, new_NestedLoopJoin), x), s)
      = Some (Inr (map (project_row (map fst ?zs)) (join_rows ?Q ?L ?R)), (ob', s'))" "db_view i F A T s'"
    by (rule join_proj.proj.all_rows_run [OF st v])
  have "mset (map (project_row ?cs) (join_rows ?Q ?L ?R)) = mset (map (project_row ?cs) (pair_rows ?Q ?L ?R))"
    by (simp add: mset_join_rows)
  moreover have "pair_rows ?Q ?L ?R = [u @ w. u \<leftarrow> ?L, w \<leftarrow> ?R, join_match conds (si_cols c) (si_cols c') u w]"
  proof -
    have "map (\<lambda>r. l @ r) (filter (?Q l) rs) = [l @ w. w \<leftarrow> rs, join_match conds (si_cols c) (si_cols c') l w]" for l rs
      by (induction rs) (simp_all add: xc)
    then show ?thesis by (simp add: pair_rows_def)
  qed
  ultimately show ?thesis using res db_viewD(3) [OF v] db_viewD(3) [OF res(2)] unfolding fst PM by auto
qed

lemma demo_seq_rows:
  assumes v: "db_view i F A T s" and c: "scan_fits c i F A T h [rid \<mapsto> v]" and p: "passes (si_cols c) (si_conds c) v"
  shows "seq_rows c h [rid \<mapsto> v] = [v]"
proof -
  let ?r = "rids_from h [rid \<mapsto> v] 1"
  have "distinct ?r" using rids_sorted [of h "[rid \<mapsto> v]" 1] by (induction ?r) (auto simp: rid_before_def rids_from_def distinct_rids)
  moreover have "set ?r = {rid}" using scanned_rids [OF v c] by simp
  ultimately have "?r = [rid]" by (cases ?r; cases "tl ?r") auto
  with p show ?thesis by (simp add: seq_rows_rids)
qed

definition demo_join :: "((SeqScan, SeqScan) join_obj, Sys) Executor" where
  "demo_join = JoinMethods [] 4 4 (SeqScanExecutor (demo_scan [])) (SeqScanExecutor (demo_scan []))"

theorem select_project_join_witness:
  "\<exists>P s ob' s'. ProjectionExecutor demo_join [demo_col] = Inr P
     \<and> all_rows P (((undefined, undefined, new_NestedLoopJoin), [0, 0, 0, 0]), s) = Some (Inr [[1, 2, 3, 4]], (ob', s'))"
proof -
  obtain s F A h rid where v: "db_view 4 F A {''t''} s"
    and f: "\<And>conds. \<forall>d \<in> set conds. cond_fits demo_cols d \<Longrightarrow> scan_fits (demo_scan conds) 4 F A {''t''} h [rid \<mapsto> [1, 2, 3, 4]]"
    by (rule demo_view) (rule that)
  let ?c = "demo_scan []"
  have c: "scan_fits ?c 4 F A {''t''} h [rid \<mapsto> [1, 2, 3, 4]]" by (rule f) simp
  have rows: "seq_rows ?c h [rid \<mapsto> [1, 2, 3, 4]] = [[1, 2, 3, 4]]"
    by (rule demo_seq_rows [OF v c]) (simp add: passes_def demo_scan_def)
  have J: "NestedLoopJoinExecutor [] (SeqScanExecutor ?c) (SeqScanExecutor ?c) = Inr demo_join"
    by (simp add: NestedLoopJoinExecutor_def demo_join_def SeqScanExecutor_def demo_scan_def andThen_def)
  have xc: "x_cols demo_join = demo_cols @ shift_cols 4 demo_cols" by (simp add: demo_join_def JoinMethods_def SeqScanExecutor_def demo_scan_def)
  have pc: "project_cols (x_cols demo_join) [demo_col] 0 = Inr ([0], demo_cols, 4)"
    by (simp add: xc demo_cols_def demo_col_def exec_get_col_def same_col_def andThen_def)
  obtain P where P: "ProjectionExecutor demo_join [demo_col] = Inr P" using pc by (simp add: ProjectionExecutor_def andThen_def)
  have fit: "\<forall>y \<in> set (si_cols ?c). col_in (nat (si_len ?c)) y" "0 \<le> si_len ?c" by (simp_all add: demo_scan_def demo_cols_def col_in_def)
  obtain rs ob' s' where r: "all_rows P (((undefined, undefined, new_NestedLoopJoin), [0, 0, 0, 0]), s) = Some (Inr rs, (ob', s'))"
    "mset rs = mset (map (project_row (map (\<lambda>p. x_cols demo_join ! p) [0]))
        [u @ w. u \<leftarrow> seq_rows ?c h [rid \<mapsto> [1, 2, 3, 4]], w \<leftarrow> seq_rows ?c h [rid \<mapsto> [1, 2, 3, 4]], join_match [] (si_cols ?c) (si_cols ?c) u w])"
    using select_project_join [OF v c c _ J pc P _ fit(1,1,2,2), of "[0, 0, 0, 0]" undefined undefined] by auto
  have "mset rs = {#[1, 2, 3, 4]#}"
    using r(2) by (simp add: rows join_match_def xc demo_cols_def project_row_def mem_get_def)
  then have "rs = [[1, 2, 3, 4]]" by (simp add: mset_single_iff)
  with P r(1) show ?thesis by blast
qed

section \<open>Aggregates\<close>

text \<open>The values of an \<^verbatim>\<open>INT\<close> column, and what the aggregates of SQL make of them, in 32 bits.\<close>

definition int_column :: "ColMeta \<Rightarrow> bytes list \<Rightarrow> int list" where
  "int_column col rows = map (\<lambda>r. dec_s (mem_get (nat (cm_offset col)) 4 r)) rows"

definition int_aggregate :: "AggType \<Rightarrow> int list \<Rightarrow> int" where
  "int_aggregate t vs =
     (case t of AggType.MAX \<Rightarrow> Max (set vs) | AggType.MIN \<Rightarrow> Min (set vs) | AggType.SUM \<Rightarrow> wrap_i32 (sum_list vs) | COUNT \<Rightarrow> wrap_i32 (int (length vs)))"

lemma extreme_fold:
  "foldl (\<lambda>res v. if val_gt v res then v else res) (VInt x) (map VInt xs) = VInt (Max (set (x # xs)))"
  "foldl (\<lambda>res v. if val_lt v res then v else res) (VInt x) (map VInt xs) = VInt (Min (set (x # xs)))"
proof -
  have "foldl (\<lambda>res v. if val_gt v res then v else res) (VInt x) (map VInt xs) = VInt (fold max xs x)"
    by (induction xs arbitrary: x) (simp_all add: max_def)
  then show "foldl (\<lambda>res v. if val_gt v res then v else res) (VInt x) (map VInt xs) = VInt (Max (set (x # xs)))"
    by (simp only: Max.set_eq_fold)
  have "foldl (\<lambda>res v. if val_lt v res then v else res) (VInt x) (map VInt xs) = VInt (fold min xs x)"
    by (induction xs arbitrary: x) (simp_all add: min_def)
  then show "foldl (\<lambda>res v. if val_lt v res then v else res) (VInt x) (map VInt xs) = VInt (Min (set (x # xs)))"
    by (simp only: Min.set_eq_fold)
qed

lemma sum_fold: "foldlR val_plus (VInt (wrap_i32 x)) (map VInt xs) = Inr (VInt (wrap_i32 (x + sum_list xs)))"
  by (induction xs arbitrary: x) (simp_all add: andThen_def wrap_i32_add add.assoc)

lemma agg_vals_int: "cm_type (ai_prev_col c) = TYPE_INT \<Longrightarrow> agg_vals c rs = map VInt (int_column (ai_prev_col c) rs)"
  by (simp add: int_column_def read_from_record_def)

context row_source
begin

lemma agg_int_run:
  assumes st: "startable e" "good s" "\<not> is_result_used a" and c: "cm_type (ai_prev_col c) = TYPE_INT" "ai_len c = 4"
    and ne: "ai_type c = AggType.MAX \<or> ai_type c = AggType.MIN \<Longrightarrow> rows \<noteq> []"
  shows "\<exists>ob' s'. all_rows (AggMethods c X) ((e, a), s)
    = Some (Inr [enc_le 4 (int_aggregate (ai_type c) (int_column (ai_prev_col c) rows))], (ob', s')) \<and> good s'"
proof -
  let ?vs = "int_column (ai_prev_col c) rows"
  let ?start = "case ai_type c of AggType.MAX \<Rightarrow> beginMax c X | AggType.MIN \<Rightarrow> beginMin c X | AggType.SUM \<Rightarrow> beginSum c X | COUNT \<Rightarrow> beginCount X"
  have "\<exists>ob' s'. ?start ((e, a), s) = Some (Inr (), (ob', s')) \<and> agg_done holds a (VInt (int_aggregate (ai_type c) ?vs)) ob' \<and> good s'"
  proof (cases "ai_type c = AggType.MAX \<or> ai_type c = AggType.MIN")
    case True
    then obtain r rs where rows: "rows = r # rs" using ne by (cases rows) auto
    have hd: "read_from_record r (ai_prev_col c) = VInt (hd ?vs)" "?vs = hd ?vs # int_column (ai_prev_col c) rs"
      using c(1) rows by (simp_all add: read_from_record_def int_column_def)
    then have set: "set (hd ?vs # int_column (ai_prev_col c) rs) = set ?vs" by simp
    show ?thesis
      using True begin_extreme_run [OF st(1,2) rows, of val_gt c a] begin_extreme_run [OF st(1,2) rows, of val_lt c a]
      unfolding agg_vals_int [OF c(1)] hd(1) extreme_fold set by (auto simp: beginMax_def beginMin_def int_aggregate_def)
  next
    case False
    have sum: "foldlR val_plus (VInt 0) (agg_vals c rows) = Inr (VInt (wrap_i32 (sum_list ?vs)))"
      using sum_fold [of 0 ?vs] agg_vals_int [OF c(1), of rows] by (simp add: wrap_i32_def)
    have len: "length ?vs = length rows" by (simp add: int_column_def)
    show ?thesis
      using False begin_count_run [OF st(1,2), of a] begin_sum_run [OF st(1,2) c(1) sum, of a]
      by (cases "ai_type c") (auto simp: int_aggregate_def len)
  qed
  then obtain ob' s' where b: "?start ((e, a), s) = Some (Inr (), (ob', s'))"
    "agg_done holds a (VInt (int_aggregate (ai_type c) ?vs)) ob'" "good s'" by blast
  have "\<exists>ob''. all_rows (AggMethods c X) ((e, a), s) = Some (Inr [enc_le 4 (int_aggregate (ai_type c) ?vs)], (ob'', s'))"
    by (rule agg_rows [OF b(1,2) _ st(3)]) (use c in \<open>simp_all add: agg_type_match_def raw_bytes_def\<close>)
  with b(3) show ?thesis by blast
qed

end

text \<open>
  C33: An aggregate over an \<^verbatim>\<open>INT\<close> column of the records that satisfy the conditions of a scan gives one row: the
  maximum, the minimum, the number of records, or the sum, the last two in 32 bits with wrap-around. The maximum
  and the minimum need a record.
\<close>

theorem aggregate_of_scan:
  assumes v: "db_view i F A T s" and c: "scan_fits c i F A T h a" and col: "col_in (nat (si_len c)) col" "cm_type col = TYPE_INT" "cm_len col = 4"
    and pos: "exec_get_col (si_cols c) sel = Inr p" "si_cols c ! p = col" and P: "ProjectionExecutor (SeqScanExecutor c) [sel] = Inr P"
    and G: "AggExecutor P agg = Inr G" and x: "length x = 4" and u: "\<not> is_result_used st"
    and ne: "tc_aggregate_type agg = AggType.MAX \<or> tc_aggregate_type agg = AggType.MIN \<Longrightarrow> seq_rows c h a \<noteq> []"
  shows "\<exists>ob' s'. all_rows G (((e, x), st), s)
      = Some (Inr [enc_le 4 (int_aggregate (tc_aggregate_type agg) (int_column col (seq_rows c h a)))], (ob', s')) \<and> tab_abs s' = tab_abs s"
proof -
  let ?own = "col\<lparr>cm_offset := 0\<rparr>" and ?rows = "seq_rows c h a"
  have xc: "x_cols (SeqScanExecutor c) = si_cols c" by (simp add: SeqScanExecutor_def)
  have PM: "P = ProjectMethods [(col, ?own)] 4 (SeqScanExecutor c)"
    using P pos col(3) by (auto simp: ProjectionExecutor_def xc andThen_def)
  have cols: "x_cols P = [?own]" by (simp add: PM ProjectMethods_def)
  obtain ai where ai: "new_AggInfo (x_cols P) agg = Inr ai" "G = AggMethods ai P"
    using G by (auto simp: AggExecutor_def andThen_def split: sum.splits)
  then have info: "ai_type ai = tc_aggregate_type agg" "ai_prev_col ai = ?own" "ai_len ai = 4"
    using col(3) by (auto simp: new_AggInfo_def cols Let_def split: if_splits)
  have fit: "project_fits [(col, ?own)] 4 ?rows"
    using seq_rows_length [OF v c] col by (auto simp: project_fits_def)
  have st: "case (e, x) of (e, x) \<Rightarrow> scan_fits c i F A T h a \<and> project_fits [(col, ?own)] 4 ?rows \<and> length x = nat 4" using c fit x by simp
  let ?prows = "map (project_row (map fst [(col, ?own)])) ?rows"
  have vals: "int_column ?own ?prows = int_column col ?rows"
    using col(3) by (auto simp: int_column_def project_row_def mem_get_def)
  have "\<exists>ob' s'. all_rows (AggMethods ai (ProjectMethods [(col, ?own)] 4 (SeqScanExecutor c))) (((e, x), st), s)
      = Some (Inr [enc_le 4 (int_aggregate (ai_type ai) (int_column (ai_prev_col ai) ?prows))], (ob', s')) \<and> db_view i F A T s'"
    by (rule scan_proj.proj.agg_int_run [OF st v u]) (use info col ne in auto)
  then show ?thesis using info vals ai(2) PM db_viewD(3) [OF v] by (auto dest: db_viewD(3))
qed

definition demo_agg :: "AggType \<Rightarrow> TabCol" where
  "demo_agg t = demo_col\<lparr>tc_has_agg := True, tc_aggregate_type := t\<rparr>"

theorem aggregate_of_scan_witness:
  "\<exists>P G s ob' s'. ProjectionExecutor (SeqScanExecutor (demo_scan [demo_cond OP_GT])) [demo_col] = Inr P \<and> AggExecutor P (demo_agg AggType.MAX) = Inr G
     \<and> all_rows G (((undefined, [0, 0, 0, 0]), \<lparr>agg_res = VInt 0, is_result_used = False\<rparr>), s) = Some (Inr [enc_le 4 67305985], (ob', s'))"
proof -
  let ?c = "demo_scan [demo_cond OP_GT]"
  obtain s F A h rid where v: "db_view 4 F A {''t''} s"
    and f: "\<And>conds. \<forall>d \<in> set conds. cond_fits demo_cols d \<Longrightarrow> scan_fits (demo_scan conds) 4 F A {''t''} h [rid \<mapsto> [1, 2, 3, 4]]"
    by (rule demo_view) (rule that)
  have c: "scan_fits ?c 4 F A {''t''} h [rid \<mapsto> [1, 2, 3, 4]]" by (rule f) (simp add: demo_cond_fits)
  have rows: "seq_rows ?c h [rid \<mapsto> [1, 2, 3, 4]] = [[1, 2, 3, 4]]"
    by (rule demo_seq_rows [OF v c]) (simp add: demo_passes demo_scan_def)
  let ?col = "demo_cols ! 0"
  have col: "col_in (nat (si_len ?c)) ?col" "cm_type ?col = TYPE_INT" "cm_len ?col = 4"
    by (simp_all add: demo_scan_def demo_cols_def col_in_def)
  have pos: "exec_get_col (si_cols ?c) demo_col = Inr 0" "si_cols ?c ! 0 = ?col"
    by (simp_all add: demo_scan_def demo_cols_def demo_col_def exec_get_col_def same_col_def)
  obtain P where P: "ProjectionExecutor (SeqScanExecutor ?c) [demo_col] = Inr P" "x_cols P = [?col\<lparr>cm_offset := 0\<rparr>]"
    using pos by (auto simp: ProjectionExecutor_def andThen_def SeqScanExecutor_def ProjectMethods_def)
  obtain G where G: "AggExecutor P (demo_agg AggType.MAX) = Inr G"
    using P(2) by (simp add: AggExecutor_def new_AggInfo_def demo_agg_def andThen_def Let_def)
  have t: "tc_aggregate_type (demo_agg AggType.MAX) = AggType.MAX" by (simp add: demo_agg_def)
  have val: "int_aggregate AggType.MAX (int_column ?col [[1, 2, 3, 4]]) = 67305985"
    by (simp add: int_aggregate_def int_column_def demo_cols_def mem_get_def dec_s_def)
  obtain ob' s' where "all_rows G (((undefined, [0, 0, 0, 0]), \<lparr>agg_res = VInt 0, is_result_used = False\<rparr>), s)
      = Some (Inr [enc_le 4 67305985], (ob', s'))"
    using aggregate_of_scan [OF v c col pos P(1) G, of "[0, 0, 0, 0]" "\<lparr>agg_res = VInt 0, is_result_used = False\<rparr>" undefined]
    unfolding rows t val by auto
  then show ?thesis using P(1) G by (intro exI conjI)
qed

section \<open>Starting a join again\<close>

abbreviation "join_ended \<equiv> \<lambda>((l, r, j), s). nl_is_end j"

lemma ended_children [inv_rules]: "invarP join_ended (on_left m)" "invarP join_ended (on_right m)"
  by (auto simp: invarP_def on_left_def on_right_def)

lemma ended_set [inv_rules]: "(\<And>j. nl_is_end j \<Longrightarrow> nl_is_end (f j)) \<Longrightarrow> invarP join_ended (set_join f)"
  by (auto simp: invarP_def set_join_apply)

lemma ended_loop [inv_rules]: "invarP join_ended (join_loop conds L R)"
proof -
  have "join_ended st \<longrightarrow> join_ended (snd y)" if "join_loop conds L R st = Some y" for st y
  proof (rule join_loop.raw_induct [OF _ that], goal_cases)
    case (1 F conds L R st y)
    then have F: "invarP join_ended (F conds L R)" by (fastforce simp: invarP_def)
    have "invarP join_ended (\<lambda>st.
     bindP (liftP (getsE (\<lambda>((l, r, j), s). j))) (\<lambda>j.
     bindP (liftP (liftR (find_pair (join_test conds (x_cols L) (x_cols R)) (left_record_save j) (right_record_save j)
                           (left_index j) (right_index j)))) (\<lambda>p st1.
       case p of
         Some q \<Rightarrow> set_join (\<lambda>j. j\<lparr>left_index := fst q, right_index := snd q\<rparr>) st1
       | None \<Rightarrow>
           bindP (set_join (\<lambda>j. j\<lparr>right_index := (if left_index j < length (left_record_save j) then 0 else right_index j),
                                  left_index := 0\<rparr>)) (\<lambda>_.
           bindP (on_right (take_rows R INNER_BUFFER_SIZE)) (\<lambda>rs.
           bindP (set_join (\<lambda>j. j\<lparr>right_record_save := rs\<rparr>)) (\<lambda>_ st2.
             if rs \<noteq> [] then F conds L R st2
             else
               bindP (on_left (take_rows L OUTER_BUFFER_SIZE)) (\<lambda>ls.
               bindP (set_join (\<lambda>j. j\<lparr>left_record_save := ls\<rparr>)) (\<lambda>_ st3.
                 if ls = [] then set_join (\<lambda>j. j\<lparr>nl_is_end := True\<rparr>) st3
                 else
                   bindP (on_right (x_beginTuple R)) (\<lambda>_.
                   bindP (on_right (take_rows R INNER_BUFFER_SIZE)) (\<lambda>rs.
                   bindP (set_join (\<lambda>j. j\<lparr>left_index := 0, right_record_save := rs\<rparr>)) (\<lambda>_.
                   F conds L R))) st3)) st2))) st1)) st)"
      by (intro inv_rules F) simp_all
    from invarP_run [OF this, of st "fst y" "snd y"] show ?case using 1(2) by simp
  qed
  then show ?thesis by (fastforce simp: invarP_def)
qed



end
