(* ===== verification/Exec_Sort.thy ===== *)
theory Exec_Sort
  imports Exec_Base "HOL-Library.Multiset"
begin

text \<open>
  \<^verbatim>\<open>SortExecutor\<close> and \<^verbatim>\<open>TupleBufFile\<close> of \<^verbatim>\<open>execution/execution_sort.h\<close>: an external merge sort over temporary
  files of runs of 2000 tuples, with an optional limit. A temporary file has a name of its own (made from
  the clock) and is used by its executor only, so its contents are part of the object: a list of
  tuples. \<^verbatim>\<open>std::sort\<close> is an argument of the constructor, since the standard does not say in which order equal
  elements end up.
\<close>

section \<open>TupleBufFile\<close>

record TupleBufFile =
  tb_tuples :: "bytes list"
  tb_opened :: bool
  tb_pos :: nat
  tot_read_tuple_num :: nat
  tot_write_tuple_num :: nat

definition new_TupleBufFile :: TupleBufFile where
  "new_TupleBufFile = \<lparr>tb_tuples = [], tb_opened = False, tb_pos = 0, tot_read_tuple_num = 0, tot_write_tuple_num = 0\<rparr>"

definition tb_open :: "TupleBufFile \<Rightarrow> TupleBufFile" where
  "tb_open f = f\<lparr>tb_opened := True, tb_pos := 0\<rparr>"

text \<open>Writing and reading at the position of the descriptor; a transfer of nothing fails the assertion.\<close>

definition tb_write :: "bytes list \<Rightarrow> TupleBufFile \<Rightarrow> exc + TupleBufFile" where
  "tb_write ts f =
     (if \<not> tb_opened f \<or> ts = [] then Inl AssertFail
      else Inr (f\<lparr>tb_tuples := mem_put (tb_pos f) ts (tb_tuples f), tb_pos := tb_pos f + length ts,
                  tot_write_tuple_num := tot_write_tuple_num f + length ts\<rparr>))"

definition tb_read :: "nat \<Rightarrow> TupleBufFile \<Rightarrow> exc + (bytes list \<times> TupleBufFile)" where
  "tb_read n f =
     (let ts = mem_get (tb_pos f) n (tb_tuples f) in
      if \<not> tb_opened f \<or> ts = [] then Inl AssertFail
      else Inr (ts, f\<lparr>tb_pos := tb_pos f + length ts, tot_read_tuple_num := tot_read_tuple_num f + length ts\<rparr>))"

text \<open>\<^verbatim>\<open>close\<close> sets \<^verbatim>\<open>fd_\<close> to -1 before it calls \<^verbatim>\<open>::close(fd_)\<close>, so the descriptor stays open; nothing uses it any more.\<close>

definition tb_close :: "TupleBufFile \<Rightarrow> TupleBufFile" where
  "tb_close f = f\<lparr>tb_opened := False, tot_read_tuple_num := 0\<rparr>"

definition tb_is_eof :: "TupleBufFile \<Rightarrow> bool" where
  "tb_is_eof f \<longleftrightarrow> tot_write_tuple_num f = tot_read_tuple_num f"

section \<open>Comparisons\<close>

text \<open>A column with true when the order is descending.\<close>

type_synonym sort_cols = "(ColMeta \<times> bool) list"

fun cmp_record :: "sort_cols \<Rightarrow> bytes \<Rightarrow> bytes \<Rightarrow> bool" where
  "cmp_record [] r1 r2 = False"
| "cmp_record ((c, desc) # cs) r1 r2 =
     (let v1 = read_from_record r1 c; v2 = read_from_record r2 c in
      if val_gt v1 v2 then desc else if val_lt v1 v2 then \<not> desc else cmp_record cs r1 r2)"

text \<open>\<^verbatim>\<open>strcmp\<close> compares up to the first zero byte; the model ends it at the end of the record, where the code may read on.\<close>

definition c_str :: "nat \<Rightarrow> bytes \<Rightarrow> string" where
  "c_str off r = bytes_str (takeWhile (\<lambda>b. b \<noteq> 0) (drop off r))"

definition raw_gt :: "ColMeta \<Rightarrow> bytes \<Rightarrow> bytes \<Rightarrow> bool" where
  "raw_gt c r1 r2 =
     (let off = nat (cm_offset c) in
      case cm_type c of
        TYPE_INT \<Rightarrow> dec_s (mem_get off 4 r1) > dec_s (mem_get off 4 r2)
      | TYPE_BIGINT \<Rightarrow> dec_s (mem_get off 8 r1) > dec_s (mem_get off 8 r2)
      | TYPE_DATETIME \<Rightarrow> dec_u (mem_get off 8 r1) > dec_u (mem_get off 8 r2)
      | TYPE_FLOAT \<Rightarrow> float_lt (dec_u (mem_get off 4 r2)) (dec_u (mem_get off 4 r1))
      | TYPE_STRING \<Rightarrow> str_less (c_str off r2) (c_str off r1))"

fun cmp_raw_data :: "sort_cols \<Rightarrow> bytes \<Rightarrow> bytes \<Rightarrow> bool" where
  "cmp_raw_data [] r1 r2 = True"
| "cmp_raw_data ((c, desc) # cs) r1 r2 =
     (if raw_gt c r1 r2 then desc else if raw_gt c r2 r1 then \<not> desc else cmp_raw_data cs r1 r2)"

section \<open>Merging two files\<close>

definition tuple_num_per_step :: nat where "tuple_num_per_step = 2000"

text \<open>A file being read with its buffer and the index into it.\<close>

record cursor =
  cu_file :: TupleBufFile
  cu_buf :: "bytes list"
  cu_idx :: nat

definition open_cursor :: "TupleBufFile \<Rightarrow> exc + cursor" where
  "open_cursor f =
     andThen (tb_read tuple_num_per_step (tb_open f)) (\<lambda>(ts, f'). Inr \<lparr>cu_file = f', cu_buf = ts, cu_idx = 0\<rparr>)"

text \<open>The test that opens the loops: None is the \<^verbatim>\<open>break\<close>.\<close>

definition refill :: "cursor \<Rightarrow> exc + cursor option" where
  "refill c =
     (if cu_idx c = length (cu_buf c) then
        if tb_is_eof (cu_file c) then Inr None
        else andThen (tb_read tuple_num_per_step (cu_file c)) (\<lambda>(ts, f'). Inr (Some \<lparr>cu_file = f', cu_buf = ts, cu_idx = 0\<rparr>))
      else Inr (Some c))"

definition cur :: "cursor \<Rightarrow> bytes" where "cur c = cu_buf c ! cu_idx c"

definition advance :: "cursor \<Rightarrow> cursor" where "advance c = c\<lparr>cu_idx := cu_idx c + 1\<rparr>"

definition push_out :: "bytes \<Rightarrow> bytes list \<times> TupleBufFile \<Rightarrow> exc + (bytes list \<times> TupleBufFile)" where
  "push_out t o' =
     (case o' of (buf2, ret) \<Rightarrow>
        let b = buf2 @ [t] in
        if length b = tuple_num_per_step then andThen (tb_write b ret) (\<lambda>ret'. Inr ([], ret')) else Inr (b, ret))"

text \<open>The main loop: \<open>buf2\<close> are the tuples in the output buffer. It may leave the first cursor refilled.\<close>

partial_function (option) merge_loop ::
  "sort_cols \<Rightarrow> cursor \<Rightarrow> cursor \<Rightarrow> bytes list \<times> TupleBufFile \<Rightarrow> (exc + (cursor \<times> cursor \<times> bytes list \<times> TupleBufFile)) option" where
  "merge_loop cols c0 c1 out =
     (case refill c0 of
        Inl e \<Rightarrow> Some (Inl e)
      | Inr r0 \<Rightarrow>
          (case r0 of
             None \<Rightarrow> Some (Inr (c0, c1, out))
           | Some c0' \<Rightarrow>
               (case refill c1 of
                  Inl e \<Rightarrow> Some (Inl e)
                | Inr r1 \<Rightarrow>
                    (case r1 of
                       None \<Rightarrow> Some (Inr (c0', c1, out))
                     | Some c1' \<Rightarrow>
                         (case push_out (if cmp_raw_data cols (cur c0') (cur c1') then cur c0' else cur c1') out of
                            Inl e \<Rightarrow> Some (Inl e)
                          | Inr out' \<Rightarrow>
                              if cmp_raw_data cols (cur c0') (cur c1') then merge_loop cols (advance c0') c1' out'
                              else merge_loop cols c0' (advance c1') out')))))"

text \<open>The loops that copy the rest of one file.\<close>

partial_function (option) copy_rest :: "cursor \<Rightarrow> TupleBufFile \<Rightarrow> (exc + (cursor \<times> TupleBufFile)) option" where
  "copy_rest c ret =
     (case refill c of
        Inl e \<Rightarrow> Some (Inl e)
      | Inr r \<Rightarrow>
          (case r of
             None \<Rightarrow> Some (Inr (c, ret))
           | Some c' \<Rightarrow>
               (case tb_write (drop (cu_idx c') (cu_buf c')) ret of
                  Inl e \<Rightarrow> Some (Inl e)
                | Inr ret' \<Rightarrow> copy_rest (c'\<lparr>cu_idx := length (cu_buf c')\<rparr>) ret')))"

definition bindO :: "(exc + 'a) option \<Rightarrow> ('a \<Rightarrow> (exc + 'b) option) \<Rightarrow> (exc + 'b) option" where
  "bindO m f = (case m of None \<Rightarrow> None | Some (Inl e) \<Rightarrow> Some (Inl e) | Some (Inr x) \<Rightarrow> f x)"

definition merge_two :: "sort_cols \<Rightarrow> TupleBufFile \<Rightarrow> TupleBufFile \<Rightarrow> (exc + TupleBufFile) option" where
  "merge_two cols fir sec =
     bindO (Some (open_cursor fir)) (\<lambda>c0.
     bindO (Some (open_cursor sec)) (\<lambda>c1.
     bindO (merge_loop cols c0 c1 ([], tb_open new_TupleBufFile)) (\<lambda>(c0', c1', buf2, ret).
     bindO (Some (if buf2 \<noteq> [] then tb_write buf2 ret else Inr ret)) (\<lambda>ret1.
     bindO (copy_rest c0' ret1) (\<lambda>(_, ret2).
     bindO (copy_rest c1' ret2) (\<lambda>(_, ret3).
     Some (Inr (tb_close ret3))))))))"

text \<open>\<^verbatim>\<open>mergeTmpFiles\<close> on the files from \<^verbatim>\<open>start_idx\<close> to \<^verbatim>\<open>end_idx\<close>; null is None.\<close>

function mergeTmpFiles :: "sort_cols \<Rightarrow> TupleBufFile list \<Rightarrow> (exc + TupleBufFile option) option" where
  "mergeTmpFiles cols fs =
     (if fs = [] then Some (Inr None)
      else if length fs = 1 then Some (Inr (Some (hd fs)))
      else
        let k = (length fs - 1) div 2 + 1 in
        bindO (mergeTmpFiles cols (take k fs)) (\<lambda>fir.
        bindO (mergeTmpFiles cols (drop k fs)) (\<lambda>sec.
          (case (fir, sec) of
             (Some f, Some g) \<Rightarrow> bindO (merge_two cols f g) (\<lambda>r. Some (Inr (Some r)))
           | _ \<Rightarrow> Some (Inl NullDeref)))))"
  by auto
termination
proof (relation "measure (\<lambda>(cols, fs). length fs)", goal_cases)
  case (2 cols fs k)
  then show ?case by (cases fs; cases "tl fs") auto
qed auto

declare mergeTmpFiles.simps [simp del]

section \<open>SortExecutor\<close>

record SortState =
  res_file :: "TupleBufFile option"
  buffer0 :: "bytes list"
  curr_read_idx :: nat
  so_is_end :: bool

text \<open>\<^verbatim>\<open>writeTmpData\<close>: the run becomes a file of its own.\<close>

definition writeTmpData :: "bytes list \<Rightarrow> exc + TupleBufFile" where
  "writeTmpData ts = andThen (tb_write ts (tb_open new_TupleBufFile)) (\<lambda>f. Inr (tb_close f))"

text \<open>
  The loop of the constructor over the tuples of the child: \<open>ts\<close> are the tuples since the last run. \<^verbatim>\<open>memcpy\<close> takes
  \<^verbatim>\<open>tuple_len_\<close> bytes of each.
\<close>

definition sort_run :: "((bytes \<Rightarrow> bytes \<Rightarrow> bool) \<Rightarrow> bytes list \<Rightarrow> bytes list) \<Rightarrow> sort_cols \<Rightarrow> int \<Rightarrow> bytes list \<Rightarrow> exc + TupleBufFile" where
  "sort_run std_sort cols len ts =
     (if \<exists>t \<in> set ts. length t < nat len then Inl OutOfRange
      else writeTmpData (map (take (nat len)) (std_sort (cmp_record cols) ts)))"

partial_function (option) make_runs ::
  "('e, 's) Executor \<Rightarrow> (bytes list \<Rightarrow> exc + TupleBufFile) \<Rightarrow> bytes list \<Rightarrow> TupleBufFile list \<Rightarrow> 'e \<times> 's
     \<Rightarrow> ((exc + TupleBufFile list) \<times> ('e \<times> 's)) option" where
  "make_runs X run ts fs st =
     bindP (liftP (getsE (\<lambda>(e, s). x_is_end X e))) (\<lambda>fin.
     bindP (liftP (liftR fin)) (\<lambda>fin st1.
       if fin then
         (if ts = [] then Some (Inr fs, st1) else bindP (liftP (liftR (run ts))) (\<lambda>f. liftP (returnE (fs @ [f]))) st1)
       else
         bindP (x_Next X) (\<lambda>t st2.
           if length (ts @ [t]) = tuple_num_per_step then
             bindP (liftP (liftR (run (ts @ [t])))) (\<lambda>f. bindP (x_nextTuple X) (\<lambda>_. make_runs X run [] (fs @ [f]))) st2
           else bindP (x_nextTuple X) (\<lambda>_. make_runs X run (ts @ [t]) fs) st2) st1)) st"

fun sort_cols_of :: "ColMeta list \<Rightarrow> (TabCol \<times> bool) list \<Rightarrow> exc + sort_cols" where
  "sort_cols_of cols [] = Inr []"
| "sort_cols_of cols ((t, desc) # ts) =
     andThen (get_col_offset cols t) (\<lambda>c. andThen (sort_cols_of cols ts) (\<lambda>cs. Inr ((c, desc) # cs)))"

definition new_Sort ::
  "((bytes \<Rightarrow> bytes \<Rightarrow> bool) \<Rightarrow> bytes list \<Rightarrow> bytes list) \<Rightarrow> ('e, 's) Executor \<Rightarrow> (TabCol \<times> bool) list \<Rightarrow> ('e \<times> 's, SortState) pstm" where
  "new_Sort std_sort X sel =
     bindP (liftP (liftR (x_tupleLen X))) (\<lambda>len.
     bindP (liftP (liftR (sort_cols_of (x_cols X) sel))) (\<lambda>cols.
     bindP (x_beginTuple X) (\<lambda>_.
     bindP (make_runs X (sort_run std_sort cols len) [] []) (\<lambda>fs st.
       case mergeTmpFiles cols fs of
         None \<Rightarrow> None
       | Some (Inl e) \<Rightarrow> Some (Inl e, st)
       | Some (Inr f) \<Rightarrow> Some (Inr \<lparr>res_file = f, buffer0 = [], curr_read_idx = 0, so_is_end = False\<rparr>, st)))))"

definition sort_beginTuple :: "int \<Rightarrow> (SortState \<times> 's, unit) stm" where
  "sort_beginTuple limit =
     bindE (set_own (\<lambda>e. e\<lparr>curr_read_idx := 0\<rparr>)) (\<lambda>_.
     bindE (getsE (\<lambda>(e, s). res_file e)) (\<lambda>f.
       case f of
         None \<Rightarrow> set_own (\<lambda>e. e\<lparr>so_is_end := True\<rparr>)
       | Some f \<Rightarrow>
           if limit = 0 then set_own (\<lambda>e. e\<lparr>so_is_end := True\<rparr>)
           else
             bindE (liftR (tb_read tuple_num_per_step (tb_open (if tb_opened f then tb_close f else f)))) (\<lambda>(ts, f').
             set_own (\<lambda>e. e\<lparr>res_file := Some f', buffer0 := ts\<rparr>))))"

definition sort_nextTuple :: "int \<Rightarrow> (SortState \<times> 's, unit) stm" where
  "sort_nextTuple limit =
     bindE (set_own (\<lambda>e. e\<lparr>curr_read_idx := curr_read_idx e + 1\<rparr>)) (\<lambda>_.
     bindE (getsE fst) (\<lambda>e.
       if limit > 0 \<and> curr_read_idx e = nat limit then set_own (\<lambda>e. e\<lparr>so_is_end := True\<rparr>)
       else if curr_read_idx e = length (buffer0 e) then
         (case res_file e of
            None \<Rightarrow> throwE NullDeref
          | Some f \<Rightarrow>
              if tb_is_eof f then set_own (\<lambda>e. e\<lparr>so_is_end := True\<rparr>)
              else
                bindE (liftR (tb_read tuple_num_per_step f)) (\<lambda>(ts, f').
                set_own (\<lambda>e. e\<lparr>res_file := Some f', buffer0 := ts, curr_read_idx := 0\<rparr>)))
       else returnE ()))"

definition sort_Next :: "(SortState \<times> 's, bytes) stm" where
  "sort_Next =
     bindE (getsE fst) (\<lambda>e.
       if curr_read_idx e < length (buffer0 e) then returnE (buffer0 e ! curr_read_idx e) else throwE OutOfRange)"

definition SortExecutor :: "ColMeta list \<Rightarrow> int \<Rightarrow> int \<Rightarrow> (SortState, 's) Executor" where
  "SortExecutor cols len limit =
     \<lparr>x_beginTuple = liftP (sort_beginTuple limit), x_nextTuple = liftP (sort_nextTuple limit), x_is_end = (\<lambda>e. Inr (so_is_end e)),
      x_Next = liftP sort_Next, x_cols = cols, x_tupleLen = Inr len\<rparr>"

section \<open>What the merge computes\<close>

fun merge_rows :: "(bytes \<Rightarrow> bytes \<Rightarrow> bool) \<Rightarrow> bytes list \<Rightarrow> bytes list \<Rightarrow> bytes list" where
  "merge_rows le (x # xs) (y # ys) = (if le x y then x # merge_rows le xs (y # ys) else y # merge_rows le (x # xs) ys)"
| "merge_rows le xs [] = xs"
| "merge_rows le [] ys = ys"

lemma merge_rows_Nil [simp]: "merge_rows le [] ys = ys"
  by (cases ys) simp_all

text \<open>A closed file with the tuples \<open>ts\<close>, a cursor with the tuples \<open>ts\<close> still to come, an output with the tuples \<open>us\<close>.\<close>

definition file_with :: "bytes list \<Rightarrow> TupleBufFile \<Rightarrow> bool" where
  "file_with ts f \<longleftrightarrow> tb_tuples f = ts \<and> ts \<noteq> [] \<and> tot_write_tuple_num f = length ts \<and> (tot_read_tuple_num f = 0 \<or> tb_opened f)"

definition reading :: "TupleBufFile \<Rightarrow> bool" where
  "reading f \<longleftrightarrow> tb_opened f \<and> tot_read_tuple_num f = tb_pos f \<and> tot_write_tuple_num f = length (tb_tuples f) \<and> tb_pos f \<le> length (tb_tuples f)"

definition cursor_with :: "bytes list \<Rightarrow> cursor \<Rightarrow> bool" where
  "cursor_with ts c \<longleftrightarrow> reading (cu_file c) \<and> cu_idx c \<le> length (cu_buf c)
     \<and> ts = drop (cu_idx c) (cu_buf c) @ drop (tb_pos (cu_file c)) (tb_tuples (cu_file c))"

definition writing :: "bytes list \<Rightarrow> TupleBufFile \<Rightarrow> bool" where
  "writing us f \<longleftrightarrow> tb_opened f \<and> tb_tuples f = us \<and> tb_pos f = length us \<and> tot_write_tuple_num f = length us \<and> tot_read_tuple_num f = 0"

definition output_with :: "bytes list \<Rightarrow> bytes list \<times> TupleBufFile \<Rightarrow> bool" where
  "output_with us out \<longleftrightarrow> (\<exists>ws. writing ws (snd out) \<and> us = ws @ fst out)"

lemma step_pos [simp]: "0 < tuple_num_per_step"
  by (simp add: tuple_num_per_step_def)

lemma read_some:
  assumes "reading f" and "tb_pos f < length (tb_tuples f)"
  obtains ts f' where "tb_read tuple_num_per_step f = Inr (ts, f')" and "ts \<noteq> []" and "reading f'" and "tb_tuples f' = tb_tuples f"
    and "ts @ drop (tb_pos f') (tb_tuples f') = drop (tb_pos f) (tb_tuples f)" and "length ts = min tuple_num_per_step (length (tb_tuples f) - tb_pos f)"
    and "tb_pos f' = tb_pos f + length ts"
proof -
  let ?ts = "mem_get (tb_pos f) tuple_num_per_step (tb_tuples f)"
  let ?f = "f\<lparr>tb_pos := tb_pos f + length ?ts, tot_read_tuple_num := tot_read_tuple_num f + length ?ts\<rparr>"
  have len: "length ?ts = min tuple_num_per_step (length (tb_tuples f) - tb_pos f)" by (simp add: mem_get_def)
  moreover have ne: "?ts \<noteq> []" using assms(2) by (simp add: mem_get_def)
  moreover have "tb_read tuple_num_per_step f = Inr (?ts, ?f)" using assms(1) ne by (simp add: tb_read_def reading_def Let_def)
  moreover have "reading ?f" using assms len by (auto simp: reading_def)
  moreover have "?ts @ drop (tb_pos f + length ?ts) (tb_tuples f) = drop (tb_pos f) (tb_tuples f)"
  proof -
    let ?d = "drop (tb_pos f) (tb_tuples f)"
    have "drop (tb_pos f + length ?ts) (tb_tuples f) = drop (min tuple_num_per_step (length ?d)) ?d" by (simp add: len add.commute)
    also have "\<dots> = drop tuple_num_per_step ?d" by (simp add: min_def)
    finally show ?thesis unfolding mem_get_def by (simp only: append_take_drop_id)
  qed
  ultimately show thesis using that by simp
qed

lemma open_cursor_with:
  assumes "file_with ts f" and "tot_read_tuple_num f = 0"
  obtains c where "open_cursor f = Inr c" and "cursor_with ts c"
proof -
  have r: "reading (tb_open f)" "tb_pos (tb_open f) < length (tb_tuples (tb_open f))" "tb_tuples (tb_open f) = ts" "tb_pos (tb_open f) = 0"
    using assms by (auto simp: file_with_def tb_open_def reading_def)
  obtain us f' where u: "tb_read tuple_num_per_step (tb_open f) = Inr (us, f')" "reading f'"
    "us @ drop (tb_pos f') (tb_tuples f') = drop (tb_pos (tb_open f)) (tb_tuples (tb_open f))"
    by (rule read_some [OF r(1,2)])
  show thesis
    by (rule that [of "\<lparr>cu_file = f', cu_buf = us, cu_idx = 0\<rparr>"]) (use u r in \<open>simp_all add: open_cursor_def andThen_def cursor_with_def\<close>)
qed

lemma refill_end: "cursor_with [] c \<Longrightarrow> refill c = Inr None"
  by (auto simp: cursor_with_def refill_def reading_def tb_is_eof_def)

lemma refill_more:
  assumes "cursor_with (t # ts) c"
  obtains c' where "refill c = Inr (Some c')" and "cursor_with (t # ts) c'" and "cu_idx c' < length (cu_buf c')" and "cur c' = t"
    and "cursor_with ts (advance c')"
proof -
  have "\<exists>c'. refill c = Inr (Some c') \<and> cursor_with (t # ts) c' \<and> cu_idx c' < length (cu_buf c')"
  proof (cases "cu_idx c = length (cu_buf c)")
    case True
    then have lt: "tb_pos (cu_file c) < length (tb_tuples (cu_file c))" and r: "reading (cu_file c)"
      and d: "drop (tb_pos (cu_file c)) (tb_tuples (cu_file c)) = t # ts"
      using assms by (auto simp: cursor_with_def intro: ccontr)
    obtain us f' where u: "tb_read tuple_num_per_step (cu_file c) = Inr (us, f')" "reading f'" "us \<noteq> []"
      "us @ drop (tb_pos f') (tb_tuples f') = drop (tb_pos (cu_file c)) (tb_tuples (cu_file c))"
      by (rule read_some [OF r lt])
    have "\<not> tb_is_eof (cu_file c)" using r lt by (simp add: tb_is_eof_def reading_def)
    then show ?thesis using True u d by (auto simp: refill_def andThen_def cursor_with_def)
  next
    case False
    then show ?thesis using assms by (auto simp: refill_def cursor_with_def)
  qed
  then obtain c' where c': "refill c = Inr (Some c')" "cursor_with (t # ts) c'" "cu_idx c' < length (cu_buf c')" by blast
  have d: "drop (cu_idx c') (cu_buf c') = cu_buf c' ! cu_idx c' # drop (Suc (cu_idx c')) (cu_buf c')"
    using c'(3) by (simp add: Cons_nth_drop_Suc)
  have "cur c' = t" "cursor_with ts (advance c')" using c'(2,3) d by (auto simp: cursor_with_def cur_def advance_def)
  with c' show thesis by (rule that)
qed

lemma write_more: "writing us f \<Longrightarrow> ts \<noteq> [] \<Longrightarrow> \<exists>f'. tb_write ts f = Inr f' \<and> writing (us @ ts) f'"
  by (auto simp: writing_def tb_write_def mem_put_def)

lemma push_out_more:
  assumes "output_with us out"
  obtains out' where "push_out t out = Inr out'" and "output_with (us @ [t]) out'"
proof -
  obtain buf2 ret where out: "out = (buf2, ret)" by (cases out)
  obtain ws where ws: "writing ws ret" "us = ws @ buf2" using assms out by (auto simp: output_with_def)
  obtain ret' where "tb_write (buf2 @ [t]) ret = Inr ret'" "writing (ws @ buf2 @ [t]) ret'" using write_more [OF ws(1), of "buf2 @ [t]"] by auto
  then show thesis
    using that [of "if length (buf2 @ [t]) = tuple_num_per_step then ([], ret') else (buf2 @ [t], ret)"] ws out
    by (auto simp: push_out_def output_with_def andThen_def Let_def)
qed

lemma merge_loop_run:
  "cursor_with xs c0 \<Longrightarrow> cursor_with ys c1 \<Longrightarrow> output_with us out \<Longrightarrow>
   \<exists>c0' c1' out' xs' ys' us'. merge_loop cols c0 c1 out = Some (Inr (c0', c1', out')) \<and> cursor_with xs' c0' \<and> cursor_with ys' c1'
     \<and> output_with us' out' \<and> (xs' = [] \<or> ys' = []) \<and> us' @ xs' @ ys' = us @ merge_rows (cmp_raw_data cols) xs ys"
proof (induction "cmp_raw_data cols" xs ys arbitrary: c0 c1 out us rule: merge_rows.induct)
  case (1 x xs y ys)
  obtain c0' where 0: "refill c0 = Inr (Some c0')" "cursor_with (x # xs) c0'" "cur c0' = x" "cursor_with xs (advance c0')"
    by (rule refill_more [OF 1(3)])
  obtain c1' where B: "refill c1 = Inr (Some c1')" "cursor_with (y # ys) c1'" "cur c1' = y" "cursor_with ys (advance c1')"
    by (rule refill_more [OF 1(4)])
  let ?t = "if cmp_raw_data cols x y then x else y"
  obtain out' where o: "push_out ?t out = Inr out'" "output_with (us @ [?t]) out'" by (rule push_out_more [OF 1(5)])
  have step: "merge_loop cols c0 c1 out =
      (if cmp_raw_data cols x y then merge_loop cols (advance c0') c1' out' else merge_loop cols c0' (advance c1') out')"
    using 0(1,3) B(1,3) o(1) by (subst merge_loop.simps) (cases "cmp_raw_data cols x y"; simp)
  show ?case
  proof (cases "cmp_raw_data cols x y")
    case True
    then show ?thesis using 1(1) [OF True 0(4) B(2) o(2)] step by simp
  next
    case False
    then show ?thesis using 1(2) [OF False 0(2) B(4) o(2)] step by simp
  qed
next
  case (2 xs)
  show ?case
  proof (cases xs)
    case Nil
    then show ?thesis using 2 refill_end [of c0] by (subst merge_loop.simps) auto
  next
    case (Cons x xs')
    obtain c0' where "refill c0 = Inr (Some c0')" "cursor_with (x # xs') c0'" by (rule refill_more) (use 2(1) Cons in auto)
    then show ?thesis using 2 refill_end [of c1] Cons by (subst merge_loop.simps) auto
  qed
next
  case (3 y ys)
  then show ?case using refill_end [of c0] by (subst merge_loop.simps) auto
qed

lemma copy_rest_run:
  "cursor_with ts c \<Longrightarrow> writing us ret \<Longrightarrow> \<exists>c' ret'. copy_rest c ret = Some (Inr (c', ret')) \<and> writing (us @ ts) ret'"
proof (induction "length ts" arbitrary: ts c us ret rule: less_induct)
  case less
  show ?case
  proof (cases ts)
    case Nil
    then show ?thesis using less.prems refill_end [of c] by (subst copy_rest.simps) auto
  next
    case (Cons t ts')
    obtain c' where c': "refill c = Inr (Some c')" "cursor_with ts c'" "cu_idx c' < length (cu_buf c')"
      by (rule refill_more) (use less.prems(1) Cons in auto)
    let ?w = "drop (cu_idx c') (cu_buf c')" and ?c = "c'\<lparr>cu_idx := length (cu_buf c')\<rparr>"
    obtain ret1 where r: "tb_write ?w ret = Inr ret1" "writing (us @ ?w) ret1" using write_more [OF less.prems(2), of ?w] c'(3) by auto
    have ts: "ts = ?w @ drop (tb_pos (cu_file c')) (tb_tuples (cu_file c'))" using c'(2) by (simp add: cursor_with_def)
    have "cursor_with (drop (tb_pos (cu_file c')) (tb_tuples (cu_file c'))) ?c" using c'(2) by (simp add: cursor_with_def)
    moreover have "length (drop (tb_pos (cu_file c')) (tb_tuples (cu_file c'))) < length ts"
      using arg_cong [OF ts, of length] c'(3) by simp
    ultimately have "\<exists>c2 ret'. copy_rest ?c ret1 = Some (Inr (c2, ret'))
        \<and> writing ((us @ ?w) @ drop (tb_pos (cu_file c')) (tb_tuples (cu_file c'))) ret'"
      using less.hyps r(2) by blast
    moreover have "(us @ ?w) @ drop (tb_pos (cu_file c')) (tb_tuples (cu_file c')) = us @ ts" using ts by simp
    moreover have "copy_rest c ret = copy_rest ?c ret1" using c'(1) r(1) by (subst copy_rest.simps) simp
    ultimately show ?thesis by simp
  qed
qed

lemma merge_two_run:
  assumes "file_with xs f" "tot_read_tuple_num f = 0" "file_with ys g" "tot_read_tuple_num g = 0"
  obtains r where "merge_two cols f g = Some (Inr r)" and "file_with (merge_rows (cmp_raw_data cols) xs ys) r" and "tot_read_tuple_num r = 0"
proof -
  let ?m = "merge_rows (cmp_raw_data cols) xs ys"
  obtain c0 where c0: "open_cursor f = Inr c0" "cursor_with xs c0" by (rule open_cursor_with [OF assms(1,2)])
  obtain c1 where c1: "open_cursor g = Inr c1" "cursor_with ys c1" by (rule open_cursor_with [OF assms(3,4)])
  have o: "output_with [] ([], tb_open new_TupleBufFile)" by (simp add: output_with_def writing_def tb_open_def new_TupleBufFile_def)
  obtain d0 d1 buf2 ret xs' ys' us' where l: "merge_loop cols c0 c1 ([], tb_open new_TupleBufFile) = Some (Inr (d0, d1, buf2, ret))"
    "cursor_with xs' d0" "cursor_with ys' d1" "output_with us' (buf2, ret)" "us' @ xs' @ ys' = ?m"
    using merge_loop_run [OF c0(2) c1(2) o] by fastforce
  obtain ret1 where r1: "(if buf2 \<noteq> [] then tb_write buf2 ret else Inr ret) = Inr ret1" "writing us' ret1"
    using l(4) write_more [of _ ret buf2] by (cases "buf2 = []") (auto simp: output_with_def)
  obtain e0 ret2 where r2: "copy_rest d0 ret1 = Some (Inr (e0, ret2))" "writing (us' @ xs') ret2" using copy_rest_run [OF l(2) r1(2)] by blast
  obtain e1 ret3 where r3: "copy_rest d1 ret2 = Some (Inr (e1, ret3))" "writing ((us' @ xs') @ ys') ret3"
    using copy_rest_run [OF l(3) r2(2)] by blast
  have "merge_two cols f g = Some (Inr (tb_close ret3))"
    unfolding merge_two_def bindO_def c0(1) c1(1) l(1) option.case sum.case prod.case r1(1) r2(1) r3(1) ..
  moreover have "?m \<noteq> []" using assms(1) by (cases xs; cases ys) (auto simp: file_with_def)
  then have "file_with ?m (tb_close ret3)" using r3(2) l(5) by (simp add: file_with_def writing_def tb_close_def)
  ultimately show thesis by (rule that) (simp add: tb_close_def)
qed

text \<open>The tree of merges over the runs.\<close>

function merge_all :: "(bytes \<Rightarrow> bytes \<Rightarrow> bool) \<Rightarrow> bytes list list \<Rightarrow> bytes list" where
  "merge_all le rs =
     (if rs = [] then [] else if length rs = 1 then hd rs
      else let k = (length rs - 1) div 2 + 1 in merge_rows le (merge_all le (take k rs)) (merge_all le (drop k rs)))"
  by auto
termination
proof (relation "measure (\<lambda>(le, rs). length rs)", goal_cases)
  case (2 le rs k)
  then show ?case by (cases rs; cases "tl rs") auto
qed auto

declare merge_all.simps [simp del]

lemma mergeTmpFiles_run:
  "list_all2 (\<lambda>ts f. file_with ts f \<and> tot_read_tuple_num f = 0) rs fs \<Longrightarrow> fs \<noteq> [] \<Longrightarrow>
   \<exists>f. mergeTmpFiles cols fs = Some (Inr (Some f)) \<and> file_with (merge_all (cmp_raw_data cols) rs) f \<and> tot_read_tuple_num f = 0"
proof (induction cols fs arbitrary: rs rule: mergeTmpFiles.induct)
  case (1 cols fs)
  have len: "length rs = length fs" using 1(3) by (rule list_all2_lengthD)
  show ?case
  proof (cases "length fs = 1")
    case True
    then show ?thesis using 1(3,4) by (cases fs; cases rs) (auto simp: mergeTmpFiles.simps merge_all.simps)
  next
    case False
    let ?k = "(length fs - 1) div 2 + 1"
    have ne: "take ?k fs \<noteq> []" "drop ?k fs \<noteq> []" using False 1(4) by (cases fs; cases "tl fs"; simp)+
    obtain f where f: "mergeTmpFiles cols (take ?k fs) = Some (Inr (Some f))" "file_with (merge_all (cmp_raw_data cols) (take ?k rs)) f"
      "tot_read_tuple_num f = 0"
      using 1(1) [OF 1(4) False refl, of "take ?k rs"] 1(3) ne by (auto intro: list_all2_takeI)
    obtain g where g: "mergeTmpFiles cols (drop ?k fs) = Some (Inr (Some g))" "file_with (merge_all (cmp_raw_data cols) (drop ?k rs)) g"
      "tot_read_tuple_num g = 0"
      using 1(2) [OF 1(4) False refl, of "drop ?k rs"] 1(3) ne by (auto intro: list_all2_dropI)
    obtain r where r: "merge_two cols f g = Some (Inr r)" "tot_read_tuple_num r = 0"
      "file_with (merge_rows (cmp_raw_data cols) (merge_all (cmp_raw_data cols) (take ?k rs)) (merge_all (cmp_raw_data cols) (drop ?k rs))) r"
      by (rule merge_two_run [OF f(2,3) g(2,3)])
    have "mergeTmpFiles cols fs = Some (Inr (Some r))"
      using False 1(4) f(1) g(1) r(1) by (subst mergeTmpFiles.simps) (simp add: Let_def bindO_def)
    moreover have "merge_all (cmp_raw_data cols) rs =
        merge_rows (cmp_raw_data cols) (merge_all (cmp_raw_data cols) (take ?k rs)) (merge_all (cmp_raw_data cols) (drop ?k rs))"
      using False 1(4) len by (subst merge_all.simps) (auto simp: Let_def)
    ultimately show ?thesis using r(2,3) by simp
  qed
qed

section \<open>Order\<close>

text \<open>A strict weak order on \<open>S\<close>, and what the standard promises of \<^verbatim>\<open>std::sort\<close>.\<close>

definition strict_weak :: "('a \<Rightarrow> 'a \<Rightarrow> bool) \<Rightarrow> 'a set \<Rightarrow> bool" where
  "strict_weak lt S \<longleftrightarrow> (\<forall>x \<in> S. \<forall>y \<in> S. lt x y \<longrightarrow> \<not> lt y x) \<and> (\<forall>x \<in> S. \<forall>y \<in> S. \<forall>z \<in> S. lt x z \<longrightarrow> lt x y \<or> lt y z)"

definition std_sorts :: "((bytes \<Rightarrow> bytes \<Rightarrow> bool) \<Rightarrow> bytes list \<Rightarrow> bytes list) \<Rightarrow> bool" where
  "std_sorts srt \<longleftrightarrow> (\<forall>lt xs. strict_weak lt (set xs) \<longrightarrow> mset (srt lt xs) = mset xs \<and> sorted_wrt (\<lambda>x y. \<not> lt y x) (srt lt xs))"

lemma mset_merge_rows: "mset (merge_rows le xs ys) = mset xs + mset ys"
  by (induction le xs ys rule: merge_rows.induct) auto

lemma set_merge_rows: "set (merge_rows le xs ys) = set xs \<union> set ys"
  using mset_merge_rows [of le xs ys] by (metis set_mset_mset set_mset_union)

lemma merge_rows_sorted:
  assumes "strict_weak lt S" and "\<And>x y. x \<in> S \<Longrightarrow> y \<in> S \<Longrightarrow> le x y \<longleftrightarrow> \<not> lt y x" and "set xs \<subseteq> S" and "set ys \<subseteq> S"
    and "sorted_wrt (\<lambda>x y. \<not> lt y x) xs" and "sorted_wrt (\<lambda>x y. \<not> lt y x) ys"
  shows "sorted_wrt (\<lambda>x y. \<not> lt y x) (merge_rows le xs ys)"
  using assms
proof (induction le xs ys rule: merge_rows.induct)
  case (1 le x xs y ys)
  have xy: "x \<in> S" "y \<in> S" "set xs \<subseteq> S" "set ys \<subseteq> S" using 1 by auto
  have asym: "lt u w \<Longrightarrow> \<not> lt w u" if "u \<in> S" "w \<in> S" for u w using 1(3) that by (auto simp: strict_weak_def)
  have neg: "\<not> lt u v \<Longrightarrow> \<not> lt v w \<Longrightarrow> \<not> lt u w" if "u \<in> S" "v \<in> S" "w \<in> S" for u v w using 1(3) that unfolding strict_weak_def by blast
  show ?case
  proof (cases "le x y")
    case True
    then have yx: "\<not> lt y x" using 1(4) xy by blast
    have "\<not> lt z x" if "z \<in> set (merge_rows le xs (y # ys))" for z
      using that neg [of z y x] yx 1(7,8) xy by (auto simp: set_merge_rows)
    then show ?thesis using 1 True by simp
  next
    case False
    then have yx: "lt y x" using 1(4) xy by blast
    have "\<not> lt z y" if "z \<in> set (merge_rows le (x # xs) ys)" for z
      using that neg [of z x y] asym [OF xy(2,1) yx] 1(7,8) xy by (auto simp: set_merge_rows)
    then show ?thesis using 1 False by simp
  qed
qed auto

lemma merge_all_mset: "mset (merge_all le rs) = mset (concat rs)"
proof (induction le rs rule: merge_all.induct)
  case (1 le rs)
  let ?k = "(length rs - 1) div 2 + 1"
  show ?case
  proof (cases "rs = [] \<or> length rs = 1")
    case True
    then show ?thesis by (cases rs) (auto simp: merge_all.simps)
  next
    case False
    have "mset (merge_all le rs) = mset (concat (take ?k rs)) + mset (concat (drop ?k rs))"
      using False 1(1,2) [OF _ _ refl] by (subst merge_all.simps) (simp add: mset_merge_rows Let_def)
    also have "\<dots> = mset (concat (take ?k rs @ drop ?k rs))" by (simp only: concat_append mset_append)
    finally show ?thesis by (simp only: append_take_drop_id)
  qed
qed

lemma merge_all_sorted:
  assumes "strict_weak lt S" and "\<And>x y. x \<in> S \<Longrightarrow> y \<in> S \<Longrightarrow> le x y \<longleftrightarrow> \<not> lt y x"
    and "\<And>r. r \<in> set rs \<Longrightarrow> set r \<subseteq> S \<and> sorted_wrt (\<lambda>x y. \<not> lt y x) r"
  shows "sorted_wrt (\<lambda>x y. \<not> lt y x) (merge_all le rs)"
  using assms
proof (induction le rs rule: merge_all.induct)
  case (1 le rs)
  let ?k = "(length rs - 1) div 2 + 1"
  have sub: "set (merge_all le qs) \<subseteq> S" if "set qs \<subseteq> set rs" for qs
  proof -
    have "set (merge_all le qs) = set (concat qs)" using merge_all_mset [of le qs] by (metis set_mset_mset)
    then show ?thesis using 1(5) that by auto
  qed
  show ?case
  proof (cases "rs = [] \<or> length rs = 1")
    case True
    then show ?thesis using 1(5) by (cases rs) (auto simp: merge_all.simps)
  next
    case False
    have "sorted_wrt (\<lambda>x y. \<not> lt y x) (merge_rows le (merge_all le (take ?k rs)) (merge_all le (drop ?k rs)))"
    proof (rule merge_rows_sorted [OF 1(3,4)])
      show "sorted_wrt (\<lambda>x y. \<not> lt y x) (merge_all le (take ?k rs))"
        by (rule 1(1) [OF _ _ refl 1(3,4)]) (use False 1(5) in \<open>auto dest: in_set_takeD\<close>)
      show "sorted_wrt (\<lambda>x y. \<not> lt y x) (merge_all le (drop ?k rs))"
        by (rule 1(2) [OF _ _ refl 1(3,4)]) (use False 1(5) in \<open>auto dest: in_set_dropD\<close>)
      show "set (merge_all le (take ?k rs)) \<subseteq> S" by (rule sub) (rule set_take_subset)
      show "set (merge_all le (drop ?k rs)) \<subseteq> S" by (rule sub) (rule set_drop_subset)
    qed
    then show ?thesis using False by (subst merge_all.simps) (simp add: Let_def)
  qed
qed

section \<open>The comparisons are an order\<close>

lemma val_gt_lt: "val_gt a b = val_lt b a"
  by (cases a; cases b) auto

lemma str_less_linear: "str_less a b \<or> a = b \<or> str_less b a"
proof (induction a b rule: str_less.induct)
  case (3 a as b bs)
  then show ?case using less_linear [of "of_char a :: nat" "of_char b"] by (auto simp: of_char_eq_iff)
next
  case (1 a)
  then show ?case by (cases a) auto
qed simp

lemma str_less_trans: "str_less a b \<Longrightarrow> str_less b c \<Longrightarrow> str_less a c"
proof (induction a b arbitrary: c rule: str_less.induct)
  case (3 a as b bs)
  then show ?case by (cases c) (auto split: if_splits)
next
  case (2 b bs)
  then show ?case by (cases c) auto
qed auto

lemma str_less_antisym: "str_less a b \<Longrightarrow> \<not> str_less b a"
  by (induction a b rule: str_less.induct) (auto split: if_splits)

text \<open>The values of a column that is not a \<^verbatim>\<open>FLOAT\<close> are linearly ordered.\<close>

lemma val_order:
  assumes "cm_type c \<noteq> TYPE_FLOAT"
  shows "val_lt (read_from_record x c) (read_from_record y c) \<Longrightarrow> \<not> val_lt (read_from_record y c) (read_from_record x c)"
    and "val_lt (read_from_record x c) (read_from_record z c) \<Longrightarrow>
      val_lt (read_from_record x c) (read_from_record y c) \<or> val_lt (read_from_record y c) (read_from_record z c)"
proof -
  show "val_lt (read_from_record x c) (read_from_record y c) \<Longrightarrow> \<not> val_lt (read_from_record y c) (read_from_record x c)"
    using assms by (cases "cm_type c") (auto simp: read_from_record_def Let_def dest: str_less_antisym)
  show "val_lt (read_from_record x c) (read_from_record z c) \<Longrightarrow>
      val_lt (read_from_record x c) (read_from_record y c) \<or> val_lt (read_from_record y c) (read_from_record z c)"
  proof (cases "cm_type c")
    case TYPE_STRING
    have "str_less a d \<Longrightarrow> str_less a b \<or> str_less b d" for a b d using str_less_linear [of a b] str_less_trans [of b a d] by blast
    then show "val_lt (read_from_record x c) (read_from_record z c) \<Longrightarrow> ?thesis" using TYPE_STRING by (auto simp: read_from_record_def Let_def)
  qed (use assms in \<open>auto simp: read_from_record_def Let_def\<close>)
qed

lemma cmp_record_weak:
  assumes "\<forall>(c, d) \<in> set cols. cm_type c \<noteq> TYPE_FLOAT"
  shows "strict_weak (cmp_record cols) UNIV"
proof -
  have "(cmp_record cols x y \<longrightarrow> \<not> cmp_record cols y x) \<and> (cmp_record cols x z \<longrightarrow> cmp_record cols x y \<or> cmp_record cols y z)" for x y z
    using assms
  proof (induction cols)
    case (Cons cd cols)
    obtain c d where cd: "cd = (c, d)" by (cases cd)
    then have f: "cm_type c \<noteq> TYPE_FLOAT" using Cons.prems by auto
    note v = val_order [OF f]
    show ?case
      using Cons.IH Cons.prems v(1) [of x y] v(1) [of x z] v(1) [of y z] v(1) [of y x] v(1) [of z x] v(1) [of z y]
        v(2) [of x z y] v(2) [of z x y] v(2) [of x y z] v(2) [of y x z] v(2) [of y z x] v(2) [of z y x]
      by (cases d) (auto simp: cd Let_def val_gt_lt)
  qed simp
  then show ?thesis by (auto simp: strict_weak_def)
qed

text \<open>The comparison of the merge agrees with it on rows whose strings end inside their columns.\<close>

definition sort_col_ok :: "ColMeta \<Rightarrow> bytes \<Rightarrow> bool" where
  "sort_col_ok c r \<longleftrightarrow> cm_type c \<noteq> TYPE_FLOAT \<and> (cm_type c = TYPE_DATETIME \<longrightarrow> nat (cm_offset c) + 8 \<le> length r)
     \<and> (cm_type c = TYPE_STRING \<longrightarrow> length (takeWhile (\<lambda>b. b \<noteq> 0) (drop (nat (cm_offset c)) r)) \<le> nat (cm_len c))"

lemma raw_gt_val:
  assumes "sort_col_ok c x" and "sort_col_ok c y"
  shows "raw_gt c x y = val_gt (read_from_record x c) (read_from_record y c)"
proof (cases "cm_type c")
  case TYPE_DATETIME
  have "dec_s (mem_get (nat (cm_offset c)) 8 r) mod 2 ^ 64 = dec_u (mem_get (nat (cm_offset c)) 8 r)" if "sort_col_ok c r" for r
  proof -
    let ?b = "mem_get (nat (cm_offset c)) 8 r"
    have len: "length ?b = 8" using that TYPE_DATETIME by (simp add: sort_col_ok_def length_mem_get)
    have "dec_u ?b < 2 ^ 64" "0 \<le> dec_u ?b" using dec_u_less [of ?b] dec_u_nonneg [of ?b] len by simp_all
    then show ?thesis using len by (auto simp: dec_s_def Let_def mod_pos_pos_trivial)
  qed
  then show ?thesis using assms TYPE_DATETIME by (simp add: raw_gt_def read_from_record_def Let_def)
qed (use assms in \<open>simp_all add: raw_gt_def read_from_record_def Let_def sort_col_ok_def c_str_def\<close>)

lemma cmp_raw_agrees:
  assumes "\<forall>(c, d) \<in> set cols. sort_col_ok c x \<and> sort_col_ok c y"
  shows "cmp_raw_data cols x y \<longleftrightarrow> \<not> cmp_record cols y x"
  using assms
proof (induction cols)
  case (Cons cd cols)
  obtain c d where cd: "cd = (c, d)" by (cases cd)
  then have ok: "sort_col_ok c x" "sort_col_ok c y" using Cons.prems by auto
  have "cm_type c \<noteq> TYPE_FLOAT" using ok by (simp add: sort_col_ok_def)
  note asym = val_order(1) [OF this, of x y]
  show ?case
    using Cons.IH Cons.prems asym by (auto simp: cd Let_def raw_gt_val [OF ok] raw_gt_val [OF ok(2,1)] val_gt_lt)
qed simp

section \<open>The runs\<close>

lemma sort_run_file:
  assumes "\<forall>t \<in> set ts. length t = nat len" and "ts \<noteq> []" and m: "mset (srt (cmp_record cols) ts) = mset ts"
  obtains f where "sort_run srt cols len ts = Inr f" and "file_with (srt (cmp_record cols) ts) f" and "tot_read_tuple_num f = 0"
proof -
  let ?us = "srt (cmp_record cols) ts"
  have set: "set ?us = set ts" using m by (metis set_mset_mset)
  then have ne: "?us \<noteq> []" using assms(2) by auto
  have tk: "map (take (nat len)) ?us = ?us" by (rule map_idI) (use set assms(1) in auto)
  have w: "writing [] (tb_open new_TupleBufFile)" by (simp add: writing_def tb_open_def new_TupleBufFile_def)
  obtain f where f: "tb_write ?us (tb_open new_TupleBufFile) = Inr f" "writing ?us f" using write_more [OF w ne] by auto
  show thesis
    by (rule that [of "tb_close f"])
      (use f ne assms(1) tk in \<open>auto simp: sort_run_def writeTmpData_def andThen_def file_with_def writing_def tb_close_def\<close>)
qed

context row_source
begin

lemma make_runs_run:
  assumes run: "\<And>us. us \<noteq> [] \<Longrightarrow> set us \<subseteq> S \<Longrightarrow> \<exists>f. run us = Inr f \<and> P us f"
  shows "holds e rs \<Longrightarrow> good s \<Longrightarrow> set ts \<subseteq> S \<Longrightarrow> set rs \<subseteq> S \<Longrightarrow>
    \<exists>css gs e' s'. make_runs X run ts fs (e, s) = Some (Inr (fs @ gs), (e', s')) \<and> good s' \<and> list_all2 P css gs \<and> concat css = ts @ rs"
proof (induction rs arbitrary: e s ts fs)
  case Nil
  show ?case
  proof (cases "ts = []")
    case True
    then have "make_runs X run ts fs (e, s) = Some (Inr (fs @ []), (e, s))"
      using end_law [OF Nil(1)] by (subst make_runs.simps) (simp add: bindP_def [of "liftP _"] liftP_def getsE_def liftR_def returnE_def)
    with Nil(2) True show ?thesis by (intro exI [of _ "[]"] exI) auto
  next
    case False
    obtain f where f: "run ts = Inr f" "P ts f" using run [OF False Nil(3)] by blast
    have "make_runs X run ts fs (e, s) = Some (Inr (fs @ [f]), (e, s))"
      using end_law [OF Nil(1)] False f(1) by (subst make_runs.simps) (simp add: bindP_def [of "liftP _"] liftP_def getsE_def liftR_def returnE_def)
    with Nil(2) f(2) show ?thesis by (intro exI [of _ "[ts]"] exI [of _ "[f]"] exI) auto
  qed
next
  case (Cons r rs)
  obtain e1 s1 where 1: "x_Next X (e, s) = Some (Inr r, (e1, s1))" "took e1 (r # rs)" "good s1" using Next_law [OF Cons.prems(1,2)] by blast
  obtain e2 s2 where 2: "x_nextTuple X (e1, s1) = Some (Inr (), (e2, s2))" "holds e2 rs" "good s2"
    using next_law [OF disjI2 [OF 1(2)] 1(3)] by blast
  have S: "set (ts @ [r]) \<subseteq> S" "set rs \<subseteq> S" using Cons.prems(3,4) by auto
  obtain f where f: "run (ts @ [r]) = Inr f" "P (ts @ [r]) f" using run [OF _ S(1)] by auto
  have step: "make_runs X run ts fs (e, s) =
      (if length (ts @ [r]) = tuple_num_per_step then make_runs X run [] (fs @ [f]) (e2, s2) else make_runs X run (ts @ [r]) fs (e2, s2))"
    using end_law [OF Cons.prems(1)] f(1)
    by (subst make_runs.simps) (auto simp: bindP_def 1(1) 2(1) liftP_def getsE_def liftR_def returnE_def)
  show ?case
  proof (cases "length (ts @ [r]) = tuple_num_per_step")
    case True
    obtain css gs e' s' where "make_runs X run [] (fs @ [f]) (e2, s2) = Some (Inr ((fs @ [f]) @ gs), (e', s'))" "good s'" "list_all2 P css gs" "concat css = [] @ rs"
      using Cons.IH [OF 2(2,3), of "[]" "fs @ [f]"] S(2) by auto
    then show ?thesis using step True f(2) by (intro exI [of _ "(ts @ [r]) # css"] exI [of _ "f # gs"] exI) auto
  next
    case False
    obtain css gs e' s' where "make_runs X run (ts @ [r]) fs (e2, s2) = Some (Inr (fs @ gs), (e', s'))" "good s'" "list_all2 P css gs"
      "concat css = (ts @ [r]) @ rs" using Cons.IH [OF 2(2,3) S(1,2)] by blast
    then show ?thesis using step False by (intro exI [of _ css] exI [of _ gs] exI) auto
  qed
qed

text \<open>The constructor sorts all rows of the child into one file.\<close>

lemma new_Sort_run:
  assumes st: "startable e" "good s" and len: "x_tupleLen X = Inr len" "\<forall>r \<in> set rows. length r = nat len"
    and cols: "sort_cols_of (x_cols X) sel = Inr cols" "\<forall>r \<in> set rows. \<forall>(c, d) \<in> set cols. sort_col_ok c r" and srt: "std_sorts srt"
  shows "\<exists>so out e' s'. new_Sort srt X sel (e, s) = Some (Inr so, (e', s')) \<and> good s' \<and> mset out = mset rows
    \<and> sorted_wrt (\<lambda>x y. \<not> cmp_record cols y x) out \<and> \<not> so_is_end so
    \<and> (case res_file so of None \<Rightarrow> out = [] | Some f \<Rightarrow> file_with out f \<and> tot_read_tuple_num f = 0)"
proof -
  let ?P = "\<lambda>us f. file_with (srt (cmp_record cols) us) f \<and> tot_read_tuple_num f = 0"
  have weak: "strict_weak (cmp_record cols) (set us)" if "rows \<noteq> []" for us
  proof -
    have "\<forall>(c, d) \<in> set cols. cm_type c \<noteq> TYPE_FLOAT" using cols(2) that by (cases rows) (auto simp: sort_col_ok_def)
    from cmp_record_weak [OF this] show ?thesis unfolding strict_weak_def by blast
  qed
  have m: "mset (srt (cmp_record cols) us) = mset us" if "rows \<noteq> []" for us using srt weak [OF that] by (simp add: std_sorts_def)
  obtain e1 s1 where 1: "x_beginTuple X (e, s) = Some (Inr (), (e1, s1))" "holds e1 rows" "good s1" using begin_law [OF st] by blast
  have run: "\<exists>f. sort_run srt cols len us = Inr f \<and> ?P us f" if "us \<noteq> []" "set us \<subseteq> set rows" for us
  proof -
    have "rows \<noteq> []" using that by auto
    then have mu: "mset (srt (cmp_record cols) us) = mset us" by (rule m)
    have "\<forall>t \<in> set us. length t = nat len" using that(2) len(2) by blast
    then show ?thesis by (rule sort_run_file [of us len srt cols, OF _ that(1) mu]) blast
  qed
  have "\<exists>css gs e' s'. make_runs X (sort_run srt cols len) [] [] (e1, s1) = Some (Inr ([] @ gs), (e', s')) \<and> good s' \<and> list_all2 ?P css gs
      \<and> concat css = [] @ rows"
    by (rule make_runs_run [where S = "set rows", OF run 1(2,3)]) simp_all
  then obtain css gs e2 s2 where r: "make_runs X (sort_run srt cols len) [] [] (e1, s1) = Some (Inr gs, (e2, s2))" "good s2" "list_all2 ?P css gs"
    "concat css = rows" by auto
  show ?thesis
  proof (cases "gs = []")
    case True
    then have "css = []" using r(3) by simp
    then have "rows = []" using r(4) by simp
    moreover have "new_Sort srt X sel (e, s) = Some (Inr \<lparr>res_file = None, buffer0 = [], curr_read_idx = 0, so_is_end = False\<rparr>, (e2, s2))"
      using 1(1) r(1) True len(1) cols(1)
      by (simp add: new_Sort_def bindP_def liftP_def liftR_def returnE_def mergeTmpFiles.simps)
    ultimately show ?thesis using r(2) by (intro exI [of _ "\<lparr>res_file = None, buffer0 = [], curr_read_idx = 0, so_is_end = False\<rparr>"] exI [of _ "[]"] exI) auto
  next
    case False
    let ?rs = "map (srt (cmp_record cols)) css"
    have l2: "list_all2 (\<lambda>ts f. file_with ts f \<and> tot_read_tuple_num f = 0) ?rs gs" using r(3) by (simp add: list_all2_conv_all_nth)
    obtain f where f: "mergeTmpFiles cols gs = Some (Inr (Some f))" "file_with (merge_all (cmp_raw_data cols) ?rs) f" "tot_read_tuple_num f = 0"
      using mergeTmpFiles_run [OF l2 False] by blast
    let ?so = "\<lparr>res_file = Some f, buffer0 = [], curr_read_idx = 0, so_is_end = False\<rparr>" and ?out = "merge_all (cmp_raw_data cols) ?rs"
    have run: "new_Sort srt X sel (e, s) = Some (Inr ?so, (e2, s2))"
      using 1(1) r(1) f(1) len(1) cols(1) by (simp add: new_Sort_def bindP_def liftP_def liftR_def returnE_def)
    have ne: "rows \<noteq> []"
    proof
      assume "rows = []"
      obtain f gs' where "gs = f # gs'" using False by (cases gs) auto
      then obtain cs css' where cs: "css = cs # css'" "?P cs f" using r(3) by (auto simp: list_all2_Cons2)
      then have "?P [] f" using r(4) \<open>rows = []\<close> by simp
      moreover have "strict_weak (cmp_record cols) (set [])" by (simp add: strict_weak_def)
      then have "mset (srt (cmp_record cols) []) = mset []" using srt unfolding std_sorts_def by blast
      ultimately show False by (simp add: file_with_def)
    qed
    have mc: "mset (concat (map (srt (cmp_record cols)) xss)) = mset (concat xss)" for xss by (induction xss) (simp_all add: m [OF ne])
    have mo: "mset ?out = mset rows" by (simp add: merge_all_mset mc r(4))
    have "sorted_wrt (\<lambda>x y. \<not> cmp_record cols y x) ?out"
    proof (rule merge_all_sorted [where S = "set rows", OF weak [OF ne]])
      show "cmp_raw_data cols x y \<longleftrightarrow> \<not> cmp_record cols y x" if "x \<in> set rows" "y \<in> set rows" for x y
        by (rule cmp_raw_agrees) (use cols(2) that in blast)
      show "set q \<subseteq> set rows \<and> sorted_wrt (\<lambda>x y. \<not> cmp_record cols y x) q" if q: "q \<in> set ?rs" for q
      proof -
        obtain us where us: "us \<in> set css" "q = srt (cmp_record cols) us" using q by auto
        have "set q = set us" using m [OF ne, of us] us(2) by (metis set_mset_mset)
        then show ?thesis using us r(4) srt weak [OF ne, of us] by (auto simp: std_sorts_def)
      qed
    qed
    then show ?thesis using run r(2) mo f(2,3) by (intro exI [of _ ?so] exI [of _ ?out] exI) auto
  qed
qed

end

section \<open>The sort as a source of rows\<close>

text \<open>
  The limit works on the first buffer only: \<^verbatim>\<open>curr_read_idx_\<close> starts again at zero with every buffer, so a limit
  beyond 2000 has no effect.
\<close>

definition limited :: "int \<Rightarrow> bytes list \<Rightarrow> bytes list" where
  "limited limit ts = (if limit < 0 \<or> int tuple_num_per_step < limit then ts else take (nat limit) ts)"

definition sorted_into :: "bytes list \<Rightarrow> SortState \<Rightarrow> bool" where
  "sorted_into ts e \<longleftrightarrow> \<not> so_is_end e \<and> (case res_file e of None \<Rightarrow> ts = [] | Some f \<Rightarrow> file_with ts f \<and> tot_read_tuple_num f = 0)"

definition sort_at :: "int \<Rightarrow> SortState \<Rightarrow> bytes list \<Rightarrow> bool" where
  "sort_at limit e rs \<longleftrightarrow>
     (if rs = [] then so_is_end e
      else \<not> so_is_end e \<and> (\<exists>f. res_file e = Some f \<and> reading f \<and> curr_read_idx e < length (buffer0 e) \<and> length (buffer0 e) \<le> tuple_num_per_step
        \<and> (let ahead = drop (curr_read_idx e) (buffer0 e) @ drop (tb_pos f) (tb_tuples f) in
           if limit < 0 \<or> int tuple_num_per_step < limit then rs = ahead
           else int (curr_read_idx e) < limit \<and> rs = take (nat limit - curr_read_idx e) ahead
             \<and> (length (buffer0 e) = tuple_num_per_step \<or> tb_pos f = length (tb_tuples f)))))"

lemma sort_begin_run:
  assumes "sorted_into ts e"
  shows "\<exists>e'. sort_beginTuple limit (e, s) = (Inr (), (e', s)) \<and> sort_at limit e' (limited limit ts)"
proof (cases "res_file e")
  case None
  then show ?thesis using assms
    by (auto simp: sorted_into_def sort_beginTuple_def bindE_def set_own_def modifyE_def getsE_def sort_at_def limited_def)
next
  case (Some f)
  have f: "file_with ts f" "tot_read_tuple_num f = 0" using assms Some by (auto simp: sorted_into_def)
  show ?thesis
  proof (cases "limit = 0")
    case True
    then show ?thesis using Some
      by (auto simp: sort_beginTuple_def bindE_def set_own_def modifyE_def getsE_def sort_at_def limited_def)
  next
    case False
    let ?g = "tb_open (if tb_opened f then tb_close f else f)"
    have g: "reading ?g" "tb_pos ?g < length (tb_tuples ?g)" "tb_tuples ?g = ts" "tb_pos ?g = 0"
      using f by (auto simp: file_with_def tb_open_def tb_close_def reading_def)
    obtain us f' where u: "tb_read tuple_num_per_step ?g = Inr (us, f')" "us \<noteq> []" "reading f'" "tb_tuples f' = tb_tuples ?g"
      "us @ drop (tb_pos f') (tb_tuples f') = drop (tb_pos ?g) (tb_tuples ?g)"
      "length us = min tuple_num_per_step (length (tb_tuples ?g) - tb_pos ?g)" "tb_pos f' = tb_pos ?g + length us"
      by (rule read_some [OF g(1,2)])
    have "sort_beginTuple limit (e, s) = (Inr (), (e\<lparr>curr_read_idx := 0, res_file := Some f', buffer0 := us\<rparr>, s))"
      using Some False u(1) by (simp add: sort_beginTuple_def bindE_def set_own_def modifyE_def getsE_def liftR_def returnE_def)
    moreover have "sort_at limit (e\<lparr>curr_read_idx := 0, res_file := Some f', buffer0 := us\<rparr>) (limited limit ts)"
      using u g False assms f(1) by (auto simp: sort_at_def limited_def sorted_into_def Let_def file_with_def min_def split: if_splits)
    ultimately show ?thesis by blast
  qed
qed

lemma sort_next_run:
  assumes "sort_at limit e (r # rs)"
  shows "\<exists>e'. sort_nextTuple limit (e, s) = (Inr (), (e', s)) \<and> sort_at limit e' rs"
proof -
  let ?i = "curr_read_idx e" and ?b = "buffer0 e" and ?free = "limit < 0 \<or> int tuple_num_per_step < limit"
  obtain f where f: "res_file e = Some f" "reading f" "?i < length ?b" "length ?b \<le> tuple_num_per_step" "\<not> so_is_end e"
    "if ?free then r # rs = drop ?i ?b @ drop (tb_pos f) (tb_tuples f)
     else int ?i < limit \<and> r # rs = take (nat limit - ?i) (drop ?i ?b @ drop (tb_pos f) (tb_tuples f))
       \<and> (length ?b = tuple_num_per_step \<or> tb_pos f = length (tb_tuples f))"
    using assms by (auto simp: sort_at_def Let_def)
  have d: "drop ?i ?b = ?b ! ?i # drop (Suc ?i) ?b" using f(3) by (simp add: Cons_nth_drop_Suc)
  let ?rest = "drop (Suc ?i) ?b @ drop (tb_pos f) (tb_tuples f)"
  have rs: "if ?free then rs = ?rest else int ?i < limit \<and> rs = take (nat limit - Suc ?i) ?rest
       \<and> (length ?b = tuple_num_per_step \<or> tb_pos f = length (tb_tuples f))"
    using f(6) d by (auto simp: take_Cons' split: if_splits)
  let ?e1 = "e\<lparr>curr_read_idx := Suc ?i\<rparr>"
  note run = sort_nextTuple_def bindE_def set_own_def modifyE_def getsE_def liftR_def returnE_def
  consider (limit) "\<not> ?free" "Suc ?i = nat limit" | (eof) "\<not> (limit > 0 \<and> Suc ?i = nat limit)" "Suc ?i = length ?b" "tb_pos f = length (tb_tuples f)"
    | (more) "\<not> (limit > 0 \<and> Suc ?i = nat limit)" "Suc ?i = length ?b" "tb_pos f < length (tb_tuples f)" "?free"
    | (stay) "\<not> (limit > 0 \<and> Suc ?i = nat limit)" "Suc ?i < length ?b"
  proof -
    have "\<not> (limit > 0 \<and> Suc ?i = nat limit)" if "?free" using that f(3,4) by auto
    moreover have "tb_pos f \<le> length (tb_tuples f)" using f(2) by (simp add: reading_def)
    moreover have "tb_pos f = length (tb_tuples f)" if "\<not> ?free" "Suc ?i = length ?b" "\<not> (limit > 0 \<and> Suc ?i = nat limit)"
      using that rs f(3,4) by (auto split: if_splits)
    ultimately show thesis using that f(3) by (metis Suc_lessI order_le_less)
  qed
  then show ?thesis
  proof cases
    case limit
    then have "rs = []" using rs by auto
    then show ?thesis using limit by (auto simp: run sort_at_def)
  next
    case eof
    then have "tb_is_eof f" "rs = []" using f(2) rs by (auto simp: tb_is_eof_def reading_def split: if_splits)
    then show ?thesis using eof f(1) by (auto simp: run sort_at_def)
  next
    case more
    obtain us f' where u: "tb_read tuple_num_per_step f = Inr (us, f')" "us \<noteq> []" "reading f'" "tb_tuples f' = tb_tuples f"
      "us @ drop (tb_pos f') (tb_tuples f') = drop (tb_pos f) (tb_tuples f)" "length us = min tuple_num_per_step (length (tb_tuples f) - tb_pos f)"
      by (rule read_some [OF f(2) more(3)])
    have "\<not> tb_is_eof f" using more(3) f(2) by (simp add: tb_is_eof_def reading_def)
    then have r: "sort_nextTuple limit (e, s) = (Inr (), (?e1\<lparr>res_file := Some f', buffer0 := us, curr_read_idx := 0\<rparr>, s))"
      using more f(1) u(1) by (auto simp: run)
    have "rs \<noteq> []" "rs = us @ drop (tb_pos f') (tb_tuples f')" using rs more u(2,5) by auto
    then have "sort_at limit (?e1\<lparr>res_file := Some f', buffer0 := us, curr_read_idx := 0\<rparr>) rs"
      using u f(5) more(4) by (auto simp: sort_at_def Let_def)
    with r show ?thesis by blast
  next
    case stay
    have r: "sort_nextTuple limit (e, s) = (Inr (), (?e1, s))" using stay by (auto simp: run)
    have "rs \<noteq> []" using rs stay by (auto split: if_splits)
    then have "sort_at limit ?e1 rs" using f rs stay by (auto simp: sort_at_def Let_def split: if_splits)
    with r show ?thesis by blast
  qed
qed

interpretation srt: row_source "SortExecutor cols len limit" good "limited limit ts" "sorted_into ts" "sort_at limit" "sort_at limit"
  for cols len limit ts good
proof (unfold_locales, goal_cases)
  case (1 e s)
  then show ?case using sort_begin_run [OF 1(1), of limit s] by (auto simp: SortExecutor_def liftP_def)
next
  case (2 e rs)
  then show ?case by (auto simp: SortExecutor_def sort_at_def split: if_splits)
next
  case (3 e r rs s)
  then obtain f where f: "curr_read_idx e < length (buffer0 e)" "hd (drop (curr_read_idx e) (buffer0 e)) = r"
    by (cases "drop (curr_read_idx e) (buffer0 e)") (auto simp: sort_at_def Let_def take_Cons' split: if_splits)
  then have "buffer0 e ! curr_read_idx e = r" by (simp add: hd_drop_conv_nth)
  with f 3 show ?case by (simp add: SortExecutor_def liftP_def sort_Next_def bindE_def getsE_def returnE_def)
next
  case (4 e r rs s)
  then show ?case using sort_next_run [of limit e r rs s] by (auto simp: SortExecutor_def liftP_def)
qed

end
