(* ===== verification/Exec_Dml.thy ===== *)
theory Exec_Dml
  imports Exec_SeqScan
begin

text \<open>
  The executors that change tables: \<^verbatim>\<open>executor_insert.h\<close>, \<^verbatim>\<open>executor_delete.h\<close> and \<^verbatim>\<open>executor_update.h\<close> of
  \<^verbatim>\<open>execution/\<close>, and the loop of \<^verbatim>\<open>portal.h\<close> that collects the records to change. Their \<^verbatim>\<open>Next\<close> does all the
  work and is called once. The addresses of the write records, which the log manager uses as keys, are
  arguments; so is the bound \<open>n\<close> of the descents into an index.
\<close>

section \<open>What the executors share\<close>

text \<open>The lookup of the table in every constructor: an exception of \<^verbatim>\<open>get_table\<close> leaves the latch held.\<close>

definition find_table :: "string \<Rightarrow> (Sys, TabMeta) stm" where
  "find_table tab =
     bindE RLatch (\<lambda>_.
     bindE (try_meta (\<lambda>db. get_table db tab)) (\<lambda>t.
     bindE RUnLatch (\<lambda>_. returnE t)))"

text \<open>All handles of the indexes are looked up before anything is done.\<close>

definition index_handles :: "IndexMeta list \<Rightarrow> (Sys, unit) stm" where
  "index_handles ms = forE (\<lambda>m. at_index (IndexMeta_get_index_name m) (\<lambda>_. returnE ())) ms"

definition lock_record_or_abort :: "Rid \<Rightarrow> string \<Rightarrow> txn_id_t \<Rightarrow> (Sys, unit) stm" where
  "lock_record_or_abort rid tab i =
     bindE (at_table None tab returnE) (\<lambda>fd.
     bindE (in_locks (Some i) (lock_exclusive_on_record rid fd)) (\<lambda>ok.
     bindE (getsE (ctx_txn (Some i))) (\<lambda>t.
       if ok then returnE () else throwE (TransactionAbortException (txn_id t) GET_LOCK_FAILED))))"

text \<open>Logging a write and entering it into the write set of the transaction.\<close>

definition log_write :: "txn_id_t \<Rightarrow> WriteRecord \<Rightarrow> (Sys, unit) stm" where
  "log_write i w =
     bindE (getsE (ctx_txn (Some i))) (\<lambda>t.
       if txn_state t = DEFAULT \<or> txn_state t = GROWING then
         bindE (in_logger (gen_log_from_write_set t w)) (\<lambda>(l, t'). modifyE (put_txn (Some i) (append_write_record w t')))
       else throwE AssertFail)"

section \<open>Insert\<close>

record InsertExecutor =
  ins_tab :: TabMeta
  ins_values :: "Value list"
  ins_tab_name :: string
  ins_txn :: txn_id_t

definition new_InsertExecutor :: "string \<Rightarrow> Value list \<Rightarrow> txn_id_t \<Rightarrow> (Sys, InsertExecutor) stm" where
  "new_InsertExecutor tab values i =
     bindE (find_table tab) (\<lambda>t.
       if length values \<noteq> length (tm_cols t) then throwE (Throw InvalidValueCountError)
       else
         bindE (at_table None tab (\<lambda>_. returnE ())) (\<lambda>_.
         returnE \<lparr>ins_tab = t, ins_values = values, ins_tab_name = tab, ins_txn = i\<rparr>))"

fun put_values :: "ColMeta list \<Rightarrow> Value list \<Rightarrow> bytes \<Rightarrow> exc + bytes" where
  "put_values (c # cs) (v # vs) rec =
     (if cm_type c \<noteq> val_type (v_val v)
      then Inl (Throw (IncompatibleTypeError (coltype2str (cm_type c)) (coltype2str (val_type (v_val v)))))
      else
        case v_raw v of
          None \<Rightarrow> Inl NullDeref
        | Some raw \<Rightarrow>
            if cm_offset c < 0 \<or> nat (cm_offset c) + nat (cm_len c) > length rec \<or> nat (cm_len c) > length raw then Inl OutOfRange
            else put_values cs vs (mem_put (nat (cm_offset c)) (take (nat (cm_len c)) raw) rec))"
| "put_values [] (v # vs) rec = Inl OutOfRange"
| "put_values cs [] rec = Inr rec"

definition check_unique :: "nat \<Rightarrow> IndexMeta list \<Rightarrow> bytes \<Rightarrow> (Sys, unit) stm" where
  "check_unique n ms rec =
     forE (\<lambda>m.
       bindE (assertE (0 \<le> im_col_num m)) (\<lambda>_.
       bindE (at_index (IndexMeta_get_index_name m) (\<lambda>fd. bindE (liftR (meta_key m rec)) (is_exist n fd))) (\<lambda>there.
         if there then throwE (Throw IndexEntryNotUniqueError) else returnE ()))) ms"

text \<open>\<^verbatim>\<open>Next\<close>; \<open>junk\<close> are the bytes of the fresh record buffer. The result is \<^verbatim>\<open>rid_\<close>.\<close>

definition insert_Next :: "nat \<Rightarrow> nat \<Rightarrow> (nat \<Rightarrow> u8) \<Rightarrow> InsertExecutor \<Rightarrow> (Sys, Rid) stm" where
  "insert_Next n addr junk x =
     (let tab = ins_tab_name x; ms = tm_indexes (ins_tab x); i = ins_txn x in
      bindE (at_table None tab (\<lambda>_. getsE (\<lambda>r. record_size (rm_hdr r)))) (\<lambda>sz.
      bindE (liftR (put_values (tm_cols (ins_tab x)) (ins_values x) (map junk [0..<nat sz]))) (\<lambda>rec.
      bindE (index_handles ms) (\<lambda>_.
      bindE (check_unique n ms rec) (\<lambda>_.
      bindE (lock_table_or_abort lock_IX_on_table GET_LOCK_FAILED tab i) (\<lambda>_.
      bindE (at_table (Some i) tab (\<lambda>fd. insert_record fd True addr rec)) (\<lambda>rid.
      bindE (lock_record_or_abort rid tab i) (\<lambda>_.
      bindE (enter_keys n IndexMeta_get_index_name ms rec rid) (\<lambda>_.
      returnE rid)))))))))"

section \<open>Collecting the records to change\<close>

text \<open>The loops of \<^verbatim>\<open>Portal::start\<close> for \<^verbatim>\<open>UPDATE\<close> and \<^verbatim>\<open>DELETE\<close>: \<^verbatim>\<open>Next\<close> is not called.\<close>

partial_function (option) rids_loop ::
  "('e, 's) Executor \<Rightarrow> ('e \<Rightarrow> exc + Rid) \<Rightarrow> 'e \<times> 's \<Rightarrow> ((exc + Rid list) \<times> ('e \<times> 's)) option" where
  "rids_loop X rid st =
     bindP (liftP (getsE (\<lambda>(e, s). x_is_end X e))) (\<lambda>fin.
     bindP (liftP (liftR fin)) (\<lambda>b st1.
       if b then Some (Inr [], st1)
       else
         bindP (liftP (bindE (getsE (\<lambda>(e, s). rid e)) liftR)) (\<lambda>r.
         bindP (x_nextTuple X) (\<lambda>_.
         bindP (rids_loop X rid) (\<lambda>rs.
         liftP (returnE (r # rs))))) st1)) st"

definition collect_rids :: "('e, 's) Executor \<Rightarrow> ('e \<Rightarrow> exc + Rid) \<Rightarrow> ('e \<times> 's, Rid list) pstm" where
  "collect_rids X rid = bindP (x_beginTuple X) (\<lambda>_. rids_loop X rid)"

section \<open>Delete\<close>

record DeleteExecutor =
  del_tab :: TabMeta
  del_conds :: "Condition list"
  del_rids :: "Rid list"
  del_tab_name :: string
  del_txn :: txn_id_t

definition new_DeleteExecutor :: "string \<Rightarrow> Condition list \<Rightarrow> Rid list \<Rightarrow> txn_id_t \<Rightarrow> (Sys, DeleteExecutor) stm" where
  "new_DeleteExecutor tab conds rids i =
     bindE (find_table tab) (\<lambda>t.
     bindE (lock_table_or_abort lock_exclusive_on_table DEADLOCK_PREVENTION tab i) (\<lambda>_.
     returnE \<lparr>del_tab = t, del_conds = conds, del_rids = rids, del_tab_name = tab, del_txn = i\<rparr>))"

definition delete_row :: "nat \<Rightarrow> DeleteExecutor \<Rightarrow> nat \<Rightarrow> Rid \<Rightarrow> (Sys, unit) stm" where
  "delete_row n x addr rid =
     (let tab = del_tab_name x; i = del_txn x in
      bindE (at_table None tab (\<lambda>fd. get_record fd rid)) (\<lambda>rec.
      bindE (at_table None tab (\<lambda>fd. get_record fd rid)) (\<lambda>old.
      bindE (liftR (conds_hold (\<lambda>d. test_record d (tm_cols (del_tab x)) rec) (del_conds x))) (\<lambda>ok.
        if \<not> ok then returnE ()
        else
          bindE (log_write i (WriteRecord_delete addr DELETE_TUPLE tab rid old)) (\<lambda>_.
          bindE (at_table (Some i) tab (\<lambda>fd. delete_record fd True rid)) (\<lambda>_.
          erase_keys n IndexMeta_get_index_name (tm_indexes (del_tab x)) rec))))))"

definition delete_Next :: "nat \<Rightarrow> (Rid \<Rightarrow> nat) \<Rightarrow> DeleteExecutor \<Rightarrow> (Sys, unit) stm" where
  "delete_Next n addr x =
     bindE (index_handles (tm_indexes (del_tab x))) (\<lambda>_.
     forE (\<lambda>rid. delete_row n x (addr rid) rid) (del_rids x))"

section \<open>Update\<close>

record UpdateExecutor =
  upd_tab :: TabMeta
  upd_conds :: "Condition list"
  upd_rids :: "Rid list"
  upd_tab_name :: string
  upd_set_clauses :: "SetClause list"
  upd_txn :: txn_id_t

definition new_UpdateExecutor :: "string \<Rightarrow> SetClause list \<Rightarrow> Condition list \<Rightarrow> Rid list \<Rightarrow> txn_id_t \<Rightarrow> (Sys, UpdateExecutor) stm" where
  "new_UpdateExecutor tab sets conds rids i =
     bindE (find_table tab) (\<lambda>t.
     bindE (at_table None tab (\<lambda>_. returnE ())) (\<lambda>_.
     returnE \<lparr>upd_tab = t, upd_conds = conds, upd_rids = rids, upd_tab_name = tab, upd_set_clauses = sets, upd_txn = i\<rparr>))"

text \<open>
  One \<^verbatim>\<open>SET\<close> clause on a record. \<^verbatim>\<open>+=\<close> and \<^verbatim>\<open>-=\<close> on the bytes of the record: \<^verbatim>\<open>int\<close> wraps around as the machine
  does, \<^verbatim>\<open>BIGINT\<close> is computed in \<^verbatim>\<open>size_t\<close>, and a \<^verbatim>\<open>float\<close> is subtracted by adding the number of the other sign.
\<close>

definition float_neg :: "int \<Rightarrow> int" where
  "float_neg b = (if b \<ge> 2 ^ 31 then b - 2 ^ 31 else b + 2 ^ 31)"

definition set_sum :: "ColType \<Rightarrow> bool \<Rightarrow> bytes \<Rightarrow> bytes \<Rightarrow> exc + bytes" where
  "set_sum t neg a b =
     (case t of
        TYPE_INT \<Rightarrow> Inr (enc_le 4 (wrap_i32 (if neg then dec_s a - dec_s b else dec_s a + dec_s b)))
      | TYPE_FLOAT \<Rightarrow> Inr (enc_le 4 (float_add (dec_u a) (if neg then float_neg (dec_u b) else dec_u b)))
      | TYPE_BIGINT \<Rightarrow> Inr (enc_le 8 (if neg then dec_u a - dec_u b else dec_u a + dec_u b))
      | _ \<Rightarrow> Inl AssertFail)"

definition set_width :: "ColType \<Rightarrow> nat" where
  "set_width t = (if t = TYPE_BIGINT then 8 else 4)"

definition apply_set :: "string \<Rightarrow> TabMeta \<Rightarrow> SetClause \<Rightarrow> bytes \<Rightarrow> exc + bytes" where
  "apply_set tab t sc rec =
     (if tab \<noteq> tc_tab_name (set_lhs sc) then Inl AssertFail
      else
        andThen (get_col t (tc_col_name (set_lhs sc))) (\<lambda>c.
          let v = set_rhs sc; off = nat (cm_offset c); w = set_width (cm_type c) in
          if cm_type c \<noteq> val_type (v_val v)
          then Inl (Throw (IncompatibleTypeError (coltype2str (cm_type c)) (coltype2str (val_type (v_val v)))))
          else if set_op sc = CHR 0x00 then
            (case v_raw v of
               None \<Rightarrow> Inl NullDeref
             | Some raw \<Rightarrow>
                 if cm_offset c < 0 \<or> off + nat (cm_len c) > length rec \<or> nat (cm_len c) > length raw then Inl OutOfRange
                 else Inr (mem_put off (take (nat (cm_len c)) raw) rec))
          else if set_op sc = CHR ''+'' \<or> set_op sc = CHR ''-'' then
            if cm_type c \<noteq> TYPE_INT \<and> cm_type c \<noteq> TYPE_FLOAT \<and> cm_type c \<noteq> TYPE_BIGINT then Inl AssertFail
            else
              (case v_raw v of
                 None \<Rightarrow> Inl NullDeref
               | Some raw \<Rightarrow>
                   if cm_offset c < 0 \<or> off + w > length rec \<or> w > length raw then Inl OutOfRange
                   else andThen (set_sum (cm_type c) (set_op sc = CHR ''-'') (mem_get off w rec) (take w raw)) (\<lambda>bs.
                        Inr (mem_put off bs rec)))
          else Inl AssertFail))"

fun apply_sets :: "string \<Rightarrow> TabMeta \<Rightarrow> SetClause list \<Rightarrow> bytes \<Rightarrow> exc + bytes" where
  "apply_sets tab t [] rec = Inr rec"
| "apply_sets tab t (sc # scs) rec = andThen (apply_set tab t sc rec) (apply_sets tab t scs)"

text \<open>First loop: every record is locked and read, and its index entries are removed.\<close>

definition take_row :: "nat \<Rightarrow> UpdateExecutor \<Rightarrow> Rid \<Rightarrow> (Sys, bytes) stm" where
  "take_row n x rid =
     bindE (lock_record_or_abort rid (upd_tab_name x) (upd_txn x)) (\<lambda>_.
     bindE (at_table None (upd_tab_name x) (\<lambda>fd. get_record fd rid)) (\<lambda>rec.
     bindE (erase_keys n IndexMeta_get_index_name (tm_indexes (upd_tab x)) rec) (\<lambda>_.
     returnE rec)))"

text \<open>
  Second loop: the new records and their index entries. The entries of one record: None when all were made,
  otherwise the exception and the number of the index that threw it.
\<close>

fun enter_counted :: "nat \<Rightarrow> IndexMeta list \<Rightarrow> bytes \<Rightarrow> Rid \<Rightarrow> (Sys, (exc \<times> nat) option) stm" where
  "enter_counted n [] rec rid = returnE None"
| "enter_counted n (m # ms) rec rid = (\<lambda>s.
     case enter_keys n IndexMeta_get_index_name [m] rec rid s of
       (Inl e, s') \<Rightarrow> (Inr (Some (e, 0)), s')
     | (Inr _, s') \<Rightarrow> bindE (enter_counted n ms rec rid) (\<lambda>r. returnE (map_option (\<lambda>(e, k). (e, Suc k)) r)) s')"

text \<open>
  The handler of \<^verbatim>\<open>IndexEntryNotUniqueError\<close> removes the new entries of this record and of those before it, enters
  the old ones of all records again, and throws the exception on.
\<close>

definition undo_entries :: "nat \<Rightarrow> IndexMeta list \<Rightarrow> (Rid \<times> bytes) list \<Rightarrow> bytes list \<Rightarrow> bytes \<Rightarrow> nat \<Rightarrow> (Sys, unit) stm" where
  "undo_entries n ms olds news rec k =
     bindE (erase_keys n IndexMeta_get_index_name (take k ms) rec) (\<lambda>_.
     bindE (forE (erase_keys n IndexMeta_get_index_name ms) news) (\<lambda>_.
     forE (\<lambda>(rid, old). enter_keys n IndexMeta_get_index_name ms old rid) olds))"

definition enter_row :: "nat \<Rightarrow> IndexMeta list \<Rightarrow> (Rid \<times> bytes) list \<Rightarrow> bytes list \<Rightarrow> Rid \<Rightarrow> bytes \<Rightarrow> (Sys, unit) stm" where
  "enter_row n ms olds news rid rec =
     bindE (enter_counted n ms rec rid) (\<lambda>r.
       case r of
         None \<Rightarrow> returnE ()
       | Some (e, k) \<Rightarrow>
           if e = Throw IndexEntryNotUniqueError then bindE (undo_entries n ms olds news rec k) (\<lambda>_. throwE e) else throwE e)"

fun build_rows :: "nat \<Rightarrow> UpdateExecutor \<Rightarrow> (Rid \<times> bytes) list \<Rightarrow> (Rid \<times> bytes) list \<Rightarrow> bytes list \<Rightarrow> (Sys, bytes list) stm" where
  "build_rows n x olds [] news = returnE news"
| "build_rows n x olds ((rid, old) # rest) news =
     bindE (liftR (apply_sets (upd_tab_name x) (upd_tab x) (upd_set_clauses x) old)) (\<lambda>rec.
     bindE (enter_row n (tm_indexes (upd_tab x)) olds news rid rec) (\<lambda>_.
     build_rows n x olds rest (news @ [rec])))"

text \<open>Third loop: the records are logged and written.\<close>

definition write_row :: "UpdateExecutor \<Rightarrow> (Rid \<Rightarrow> nat) \<Rightarrow> (Rid \<times> bytes) \<times> bytes \<Rightarrow> (Sys, unit) stm" where
  "write_row x addr w =
     (case w of ((rid, old), new) \<Rightarrow>
        bindE (log_write (upd_txn x) (WriteRecord_update (addr rid) UPDATE_TUPLE (upd_tab_name x) rid old new)) (\<lambda>_.
        at_table (Some (upd_txn x)) (upd_tab_name x) (\<lambda>fd. update_record fd True rid new)))"

definition update_Next :: "nat \<Rightarrow> (Rid \<Rightarrow> nat) \<Rightarrow> UpdateExecutor \<Rightarrow> (Sys, unit) stm" where
  "update_Next n addr x =
     bindE (index_handles (tm_indexes (upd_tab x))) (\<lambda>_.
     bindE (mapME (take_row n x) (upd_rids x)) (\<lambda>recs.
     let olds = zip (upd_rids x) recs in
     bindE (build_rows n x olds olds []) (\<lambda>news.
     forE (write_row x addr) (zip olds news))))"

section \<open>The statements\<close>

text \<open>
  \<^verbatim>\<open>Portal::start\<close> followed by \<^verbatim>\<open>QlManager::run_dml\<close>, which calls \<^verbatim>\<open>Next\<close>. \<open>mk\<close> builds the executor of the plan
  that finds the records, \<open>rid\<close> is its \<^verbatim>\<open>rid()\<close>; the executor is dropped afterwards.
\<close>

definition with_exec :: "'e \<Rightarrow> ('e \<times> 's, 'a) pstm \<Rightarrow> ('s, 'a) pstm" where
  "with_exec e m s = (case m (e, s) of None \<Rightarrow> None | Some (r, (e', s')) \<Rightarrow> Some (r, s'))"

definition run_insert :: "nat \<Rightarrow> nat \<Rightarrow> (nat \<Rightarrow> u8) \<Rightarrow> string \<Rightarrow> Value list \<Rightarrow> txn_id_t \<Rightarrow> (Sys, Rid) stm" where
  "run_insert n addr junk tab values i = bindE (new_InsertExecutor tab values i) (insert_Next n addr junk)"

definition run_delete ::
  "(Sys, ('e, Sys) Executor \<times> 'e) stm \<Rightarrow> ('e \<Rightarrow> exc + Rid) \<Rightarrow> nat \<Rightarrow> (Rid \<Rightarrow> nat) \<Rightarrow> string \<Rightarrow> Condition list \<Rightarrow> txn_id_t \<Rightarrow> (Sys, unit) pstm" where
  "run_delete mk rid n addr tab conds i =
     bindP (liftP mk) (\<lambda>(X, e).
     bindP (with_exec e (collect_rids X rid)) (\<lambda>rids.
     liftP (bindE (new_DeleteExecutor tab conds rids i) (delete_Next n addr))))"

definition run_update ::
  "(Sys, ('e, Sys) Executor \<times> 'e) stm \<Rightarrow> ('e \<Rightarrow> exc + Rid) \<Rightarrow> nat \<Rightarrow> (Rid \<Rightarrow> nat) \<Rightarrow> string \<Rightarrow> SetClause list \<Rightarrow> Condition list
     \<Rightarrow> txn_id_t \<Rightarrow> (Sys, unit) pstm" where
  "run_update mk rid n addr tab sets conds i =
     bindP (liftP mk) (\<lambda>(X, e).
     bindP (with_exec e (collect_rids X rid)) (\<lambda>rids.
     liftP (bindE (new_UpdateExecutor tab sets conds rids i) (update_Next n addr))))"

definition make_SeqScan :: "SeqScan \<Rightarrow> string \<Rightarrow> Condition list \<Rightarrow> txn_id_t \<Rightarrow> (Sys, (SeqScan, Sys) Executor \<times> SeqScan) stm" where
  "make_SeqScan junk tab conds i = bindE (new_SeqScan junk tab conds i) (\<lambda>(c, e). returnE (SeqScanExecutor c, e))"

end
