(* ===== verification/Dml_Run.thy ===== *)
theory Dml_Run
  imports Exec_Dml
begin

text \<open>
  What the steps of the writing executors do to a system in which no other transaction uses the table: one
  lemma for each step, over a predicate that names the tables, the write set and the room left in the log buffer.
\<close>

section \<open>Locks without other users\<close>

definition only_user :: "txn_id_t \<Rightarrow> int \<Rightarrow> LockManager \<Rightarrow> bool" where
  "only_user i fd lm \<longleftrightarrow> (\<forall>l. ld_fd l = fd \<longrightarrow>
     (\<forall>r \<in> set (requests lm l). lr_txn r = i \<and> (ld_type l = RECORD \<longrightarrow> lr_mode r = LS \<or> lr_mode r = LX)))"

text \<open>What a granted lock leaves.\<close>

definition lock_granted :: "int \<Rightarrow> Transaction \<Rightarrow> (exc + bool) \<times> lock_state \<Rightarrow> bool" where
  "lock_granted fd t r \<longleftrightarrow> (case r of (b, lm, t') \<Rightarrow> b = Inr True \<and> only_user (txn_id t) fd lm
     \<and> t' = t\<lparr>txn_state := GROWING, lock_set := lock_set t'\<rparr>)"

lemma lock_grantedE:
  assumes "lock_granted fd t r"
  obtains lm t' where "r = (Inr True, (lm, t'))" and "only_user (txn_id t) fd lm" and "t' = t\<lparr>txn_state := GROWING, lock_set := lock_set t'\<rparr>"
  using assms by (cases r) (auto simp: lock_granted_def)

lemma only_user_push:
  assumes "only_user (txn_id (snd s)) fd (fst s)" and "ld_type l = RECORD \<longrightarrow> m = LS \<or> m = LX"
  shows "only_user (txn_id (snd s)) fd (fst (push_request l m s))"
  using assms by (auto simp: only_user_def requests_push new_LockRequest_def)

lemma lock_table_granted:
  assumes "only_user (txn_id t) fd lm" and "txn_state t \<noteq> SHRINKING"
  shows "lock_granted fd t (lock_table_request m cf fd (lm, t))"
proof -
  let ?l = "LockDataId_table fd" and ?s1 = "(lm, t\<lparr>txn_state := GROWING\<rparr>)"
  have l: "ld_fd ?l = fd" "ld_type ?l = TABLE" by (simp_all add: LockDataId_table_def)
  have free: "\<not> (\<exists>r \<in> set (requests lm ?l). cf (lr_mode r) \<and> lr_txn r \<noteq> txn_id t)"
    using assms(1) l unfolding only_user_def by blast
  have run: "lock_table_request m cf fd (lm, t) = (Inr True, push_request ?l m (touch ?l ?s1))"
    using assms(2) free by (auto simp: lock_table_request_def bindE_def enter_growing_cases Let_def)
  have "only_user (txn_id t) fd (fst (touch ?l ?s1))" using assms(1) by (simp add: only_user_def)
  then have "only_user (txn_id t) fd (fst (push_request ?l m (touch ?l ?s1)))"
    using only_user_push [of "touch ?l ?s1" fd ?l m] l(2) by simp
  moreover obtain lm' t' where 2: "push_request ?l m (touch ?l ?s1) = (lm', t')" by (cases "push_request ?l m (touch ?l ?s1)")
  moreover have "t' = t\<lparr>txn_state := GROWING, lock_set := insert ?l (lock_set t)\<rparr>" using arg_cong [OF 2, of snd] by simp
  ultimately show ?thesis by (simp add: run lock_granted_def)
qed

lemma exclusive_scan_own: "\<forall>r \<in> set rs. lr_txn r = t \<and> (lr_mode r = LS \<or> lr_mode r = LX) \<Longrightarrow> exclusive_scan t rs = Inr None"
  by (induction rs) auto

lemma lock_record_granted:
  assumes u: "only_user (txn_id t) fd lm" and st: "txn_state t \<noteq> SHRINKING"
  shows "lock_granted fd t (lock_exclusive_on_record rid fd (lm, t))"
proof -
  let ?l = "LockDataId_record fd rid" and ?t = "t\<lparr>txn_state := GROWING\<rparr>"
  let ?s1 = "touch ?l (lm, ?t)"
  have l: "ld_fd ?l = fd" "ld_type ?l = RECORD" by (simp_all add: LockDataId_record_def)
  have s1: "snd ?s1 = ?t" "only_user (txn_id ?t) fd (fst ?s1)" using u by (simp_all add: only_user_def)
  have "?s1 = (fst ?s1, ?t)" using s1(1) by (metis prod.collapse)
  moreover have "lock_granted fd ?t (lock_IX_on_table fd (fst ?s1, ?t))"
    unfolding lock_IX_on_table_def by (rule lock_table_granted [OF s1(2)]) simp
  ultimately have "lock_granted fd ?t (lock_IX_on_table fd ?s1)" by simp
  then obtain lm1 t1 where 1: "lock_IX_on_table fd ?s1 = (Inr True, (lm1, t1))" "only_user (txn_id t) fd lm1"
    "t1 = t\<lparr>txn_state := GROWING, lock_set := lock_set t1\<rparr>" by (auto elim!: lock_grantedE)
  have id: "txn_id t1 = txn_id t" using arg_cong [OF 1(3), of txn_id] by simp
  have "exclusive_scan (txn_id t1) (requests lm1 ?l) = Inr None"
    by (rule exclusive_scan_own) (use 1(2) l id in \<open>auto simp: only_user_def\<close>)
  then have run: "lock_exclusive_on_record rid fd (lm, t) = (Inr True, push_request ?l LX (lm1, t1))"
    using st 1(1) by (simp add: lock_exclusive_on_record_def lock_record_request_def bindE_def enter_growing_cases Let_def)
  have ou: "only_user (txn_id t) fd (fst (push_request ?l LX (lm1, t1)))"
    using only_user_push [of "(lm1, t1)" fd ?l LX] 1(2) id by simp
  obtain lm2 t2 where 2: "push_request ?l LX (lm1, t1) = (lm2, t2)" by (cases "push_request ?l LX (lm1, t1)")
  have "t2 = t1\<lparr>lock_set := insert ?l (lock_set t1)\<rparr>" using arg_cong [OF 2, of snd] by simp
  then have "t2 = t\<lparr>txn_state := GROWING, lock_set := lock_set t2\<rparr>" by (subst (asm) 1(3)) simp
  then show ?thesis using ou 2 by (simp add: run lock_granted_def)
qed

section \<open>The state of a writing transaction\<close>

definition wr_txn :: "txn_id_t \<Rightarrow> WriteRecord list \<Rightarrow> Sys \<Rightarrow> bool" where
  "wr_txn i ws s \<longleftrightarrow> (\<exists>t. sy_txns s i = Some t \<and> txn_id t = i \<and> (txn_state t = DEFAULT \<or> txn_state t = GROWING)
     \<and> in_i32 (so_far_lsn t) \<and> write_records t = ws) \<and> in_i32 i"

definition wr_log :: "nat \<Rightarrow> LogManager \<Rightarrow> bool" where
  "wr_log room lm \<longleftrightarrow> log_ok lm \<and> in_i32 (global_lsn lm) \<and> log_offset lm + room \<le> nat LOG_BUFFER_SIZE"

definition wr_state :: "txn_id_t \<Rightarrow> string \<Rightarrow> int \<Rightarrow> int \<Rightarrow> nat \<Rightarrow> (string \<rightharpoonup> (Rid \<rightharpoonup> bytes)) \<Rightarrow> WriteRecord list \<Rightarrow> Sys \<Rightarrow> bool" where
  "wr_state i tab fd sz room A ws s \<longleftrightarrow> tabs_ok s \<and> tab_abs s = A \<and> (\<exists>h. sy_fhs s tab = Some (fd, h) \<and> record_size h = sz)
     \<and> fd2path (disk (sy_bp s)) fd = Some tab \<and> wr_txn i ws s \<and> wr_log room (sy_log s) \<and> only_user i fd (sy_locks s)"

lemma wr_stateD:
  assumes "wr_state i tab fd sz room A ws s"
  shows "tabs_ok s" and "tab_abs s = A" and "fd2path (disk (sy_bp s)) fd = Some tab" and "wr_txn i ws s" and "wr_log room (sy_log s)"
    and "only_user i fd (sy_locks s)"
  using assms by (simp_all add: wr_state_def)

lemma wr_handle:
  assumes "wr_state i tab fd sz room A ws s"
  obtains h where "sy_fhs s tab = Some (fd, h)" and "record_size h = sz"
  using assms by (auto simp: wr_state_def)

lemma wr_txnE:
  assumes "wr_txn i ws s"
  obtains t where "sy_txns s i = Some t" and "txn_id t = i" and "txn_state t = DEFAULT \<or> txn_state t = GROWING"
    and "in_i32 (so_far_lsn t)" and "write_records t = ws" and "in_i32 i"
  using assms by (auto simp: wr_txn_def)

lemma at_table_fd: "sy_fhs s tab = Some (fd, h) \<Longrightarrow> at_table None tab returnE s = (Inr fd, s)"
  by (simp add: at_table_def returnE_def put_txn_def ctx_txn_def fun_upd_idem)

text \<open>Requesting a lock.\<close>

lemma locking_run:
  assumes w: "wr_state i tab fd sz room A ws s"
    and l: "\<And>lm t. only_user (txn_id t) fd lm \<Longrightarrow> txn_state t \<noteq> SHRINKING \<Longrightarrow> lock_granted fd t (lock fd (lm, t))"
  shows "\<exists>s'. bindE (at_table None tab returnE) (\<lambda>fd. bindE (in_locks (Some i) (lock fd)) (\<lambda>ok. bindE (getsE (ctx_txn (Some i))) (\<lambda>t.
      if ok then returnE () else throwE (TransactionAbortException (txn_id t) why)))) s = (Inr (), s')
    \<and> wr_state i tab fd sz room A ws s' \<and> sy_db s' = sy_db s \<and> sy_fhs s' = sy_fhs s"
proof -
  obtain h where h: "sy_fhs s tab = Some (fd, h)" "record_size h = sz" by (rule wr_handle [OF w])
  obtain t where t: "sy_txns s i = Some t" "txn_id t = i" "txn_state t = DEFAULT \<or> txn_state t = GROWING"
    "in_i32 (so_far_lsn t)" "write_records t = ws" "in_i32 i" by (rule wr_txnE [OF wr_stateD(4) [OF w]])
  have "lock_granted fd t (lock fd (sy_locks s, t))" by (rule l) (use wr_stateD(6) [OF w] t(2,3) in auto)
  then obtain lm t' where r: "lock fd (sy_locks s, t) = (Inr True, (lm, t'))" "only_user i fd lm"
    "t' = t\<lparr>txn_state := GROWING, lock_set := lock_set t'\<rparr>" using t(2) by (auto elim!: lock_grantedE)
  let ?s' = "s\<lparr>sy_locks := lm, sy_txns := (sy_txns s)(i \<mapsto> t')\<rparr>"
  have t': "txn_id t' = i" "txn_state t' = GROWING" "so_far_lsn t' = so_far_lsn t" "write_records t' = ws"
    using arg_cong [OF r(3), of txn_id] arg_cong [OF r(3), of txn_state] arg_cong [OF r(3), of so_far_lsn]
      arg_cong [OF r(3), of write_records] t by simp_all
  have "wr_state i tab fd sz room A ws ?s'"
    using w t t' r(2) tables_cong [of ?s' s] by (auto simp: wr_state_def wr_txn_def)
  then show ?thesis
    using r(1) t(1) at_table_fd [OF h(1)]
    by (simp add: bindE_def in_locks_def ctx_txn_def put_txn_def getsE_def returnE_def)
qed

lemma lock_table_run:
  assumes w: "wr_state i tab fd sz room A ws s" and l: "lock = lock_table_request m cf"
  obtains s' where "lock_table_or_abort lock why tab i s = (Inr (), s')" and "wr_state i tab fd sz room A ws s'" and "sy_db s' = sy_db s"
    and "sy_fhs s' = sy_fhs s"
  using locking_run [OF w, of lock why] lock_table_granted unfolding lock_table_or_abort_def l by blast

lemma lock_record_run:
  assumes w: "wr_state i tab fd sz room A ws s"
  obtains s' where "lock_record_or_abort rid tab i s = (Inr (), s')" and "wr_state i tab fd sz room A ws s'" and "sy_db s' = sy_db s"
  using locking_run [OF w, of "lock_exclusive_on_record rid" GET_LOCK_FAILED] lock_record_granted
  unfolding lock_record_or_abort_def by blast

section \<open>Record operations\<close>

text \<open>A step on the file of the table, with or without the context.\<close>

lemma wr_step:
  assumes w: "wr_state i tab fd sz room A ws s" and h: "sy_fhs s tab = Some (fd, h)"
    and st: "table_step fd (rm_view h t0 s) t" and rest: "rm_rest t = rm_rest (rm_view h t0 s)"
  shows "wr_state i tab fd sz room (A(tab \<mapsto> rm_abs fd t)) ws (rm_store tab fd t s)"
proof -
  have names: "pool_names (rm_bp t) = pool_names (sy_bp s)" "rm_log t = sy_log s" using rest by (simp_all add: rm_rest_def)
  note l = table_step_lift [OF wr_stateD(1) [OF w] h st names(1)]
  have sz: "record_size (rm_hdr t) = sz" using st w h by (auto simp: wr_state_def table_step_def same_layout_def)
  have "fd2path (disk (rm_bp t)) fd = Some tab" using wr_stateD(3) [OF w] names(1) by (simp add: pool_names_def open_names_def)
  then show ?thesis
    using l sz wr_stateD(2,4-6) [OF w] names(2) by (simp add: wr_state_def wr_txn_def)
qed

lemma wr_abs:
  assumes w: "wr_state i tab fd sz room A ws s" and h: "sy_fhs s tab = Some (fd, h)" and a: "A tab = Some a"
  shows "rm_ok fd (rm_view h t0 s)" and "rm_abs fd (rm_view h t0 s) = a"
  using tabs_okD(1,3) [OF wr_stateD(1) [OF w] h, of t0] wr_stateD(2) [OF w] a by simp_all

lemma get_row_run:
  assumes w: "wr_state i tab fd sz room A ws s" and a: "A tab = Some a" "a rid = Some v"
  obtains s' where "at_table None tab (\<lambda>fd. get_record fd rid) s = (Inr v, s')" and "wr_state i tab fd sz room A ws s'"
proof -
  obtain h where h: "sy_fhs s tab = Some (fd, h)" "record_size h = sz" by (rule wr_handle [OF w])
  note ab = wr_abs [OF w h(1) a(1), of no_txn]
  obtain t where t: "get_record fd rid (rm_view h no_txn s) = (Inr v, t)" "only_read fd (rm_view h no_txn s) t"
    by (rule get_record_spec [OF ab(1)]) (use ab(2) a(2) in auto)
  have "wr_state i tab fd sz room (A(tab \<mapsto> rm_abs fd t)) ws (rm_store tab fd t s)"
    by (rule wr_step [OF w h(1) only_read_step [OF t(2)] keepsD [OF keeps_get_record t(1)]])
  moreover have "A(tab \<mapsto> rm_abs fd t) = A" using t(2) ab(2) a(1) by (auto simp: only_read_def fun_eq_iff)
  ultimately show thesis using that [OF at_table_run [where m = "\<lambda>fd. get_record fd rid", OF h(1) t(1)]] by simp
qed

lemma at_table_txn_run:
  assumes "sy_fhs s tab = Some (fd, h)" and "sy_txns s i = Some t0" and "m fd (rm_view h t0 s) = (r, t)"
  shows "at_table (Some i) tab m s = (r, put_txn (Some i) (rm_txn t) (rm_store tab fd t s))"
  using assms by (simp add: at_table_def rm_view_def rm_store_def ctx_txn_def)

text \<open>A writing operation that was logged before.\<close>

lemma logged_step:
  assumes w: "wr_state i tab fd sz room A ws s" and h: "sy_fhs s tab = Some (fd, h)" and t0: "sy_txns s i = Some t0"
    and run: "m fd (rm_view h t0 s) = (Inr (), t)" "table_step fd (rm_view h t0 s) t" and k: "keeps rm_rest (m fd)"
  shows "at_table (Some i) tab m s = (Inr (), rm_store tab fd t s)"
    and "wr_state i tab fd sz room (A(tab \<mapsto> rm_abs fd t)) ws (rm_store tab fd t s)"
proof -
  have rest: "rm_rest t = rm_rest (rm_view h t0 s)" by (rule keepsD [OF k run(1)])
  show "wr_state i tab fd sz room (A(tab \<mapsto> rm_abs fd t)) ws (rm_store tab fd t s)" by (rule wr_step [OF w h run(2) rest])
  have "rm_txn t = t0" using rest by (simp add: rm_rest_def)
  then have "put_txn (Some i) (rm_txn t) (rm_store tab fd t s) = rm_store tab fd t s"
    using t0 by (simp add: put_txn_def rm_store_def fun_upd_idem)
  then show "at_table (Some i) tab m s = (Inr (), rm_store tab fd t s)" using at_table_txn_run [OF h t0, of m] run(1) by simp
qed

lemma keeps_logged [frame_rules]: "keeps rm_rest (delete_record fd True rid)" "keeps rm_rest (update_record fd True rid buf)"
  unfolding delete_record_def finish_delete_def update_record_def Let_def by (intro frame_rules; simp)+

lemma delete_row_run:
  assumes w: "wr_state i tab fd sz room A ws s" and a: "A tab = Some a" "a rid = Some v"
  obtains s' where "at_table (Some i) tab (\<lambda>fd. delete_record fd True rid) s = (Inr (), s')"
    and "wr_state i tab fd sz room (A(tab \<mapsto> a(rid := None))) ws s'"
proof -
  obtain h where h: "sy_fhs s tab = Some (fd, h)" "record_size h = sz" by (rule wr_handle [OF w])
  obtain t0 where t0: "sy_txns s i = Some t0" by (rule wr_txnE [OF wr_stateD(4) [OF w]])
  note ab = wr_abs [OF w h(1) a(1), of t0]
  obtain t where t: "delete_record fd True rid (rm_view h t0 s) = (Inr (), t)" "table_step fd (rm_view h t0 s) t"
    "rm_abs fd t = (rm_abs fd (rm_view h t0 s))(rid := None)"
    by (rule delete_record_spec [OF ab(1)]) (use ab(2) a(2) in auto)
  show thesis
    using that logged_step [where m = "\<lambda>fd. delete_record fd True rid", OF w h(1) t0 t(1,2) keeps_logged(1)] t(3) ab(2) by simp
qed

lemma update_row_run:
  assumes w: "wr_state i tab fd sz room A ws s" and a: "A tab = Some a" "a rid = Some v" and buf: "length buf = nat sz"
  obtains s' where "at_table (Some i) tab (\<lambda>fd. update_record fd True rid buf) s = (Inr (), s')"
    and "wr_state i tab fd sz room (A(tab \<mapsto> a(rid \<mapsto> buf))) ws s'"
proof -
  obtain h where h: "sy_fhs s tab = Some (fd, h)" "record_size h = sz" by (rule wr_handle [OF w])
  obtain t0 where t0: "sy_txns s i = Some t0" by (rule wr_txnE [OF wr_stateD(4) [OF w]])
  note ab = wr_abs [OF w h(1) a(1), of t0]
  obtain t where t: "update_record fd True rid buf (rm_view h t0 s) = (Inr (), t)" "table_step fd (rm_view h t0 s) t"
    "rm_abs fd t = (rm_abs fd (rm_view h t0 s))(rid \<mapsto> take (nat (record_size (rm_hdr (rm_view h t0 s)))) buf)"
    by (rule update_record_spec [OF ab(1), of rid v buf]) (use ab(2) a(2) buf h(2) in auto)
  have tk: "take (nat (record_size (rm_hdr (rm_view h t0 s)))) buf = buf" using buf h(2) by simp
  show thesis
    using that logged_step [where m = "\<lambda>fd. update_record fd True rid buf", OF w h(1) t0 t(1,2) keeps_logged(2)] t(3) ab(2) tk by simp
qed

section \<open>Logging\<close>

definition log_need :: "nat \<Rightarrow> string \<Rightarrow> nat" where
  "log_need sz tab = 48 + 2 * sz + length tab"

lemma log_offset_pending: "log_ok lm \<Longrightarrow> log_offset lm = length (pending lm)"
  by (simp add: log_ok_def pending_def)

lemma in_i32_wrap [simp]: "in_i32 (wrap_i32 x)"
  unfolding in_i32_def wrap_i32_def using pos_mod_bound [of "2 ^ 32" "x + 2 ^ 31"] pos_mod_sign [of "2 ^ 32" "x + 2 ^ 31"] by auto

lemma log_write_length:
  assumes "log_of_write t w = Inr log" and "wr_record w = Some v" and "wtype w = UPDATE_TUPLE \<Longrightarrow> \<exists>v'. new_record w = Some v' \<and> length v' = length v"
  shows "length (any_bytes (set_lsns l p log)) \<le> log_need (length v) (tab_name w)"
  using assms by (cases "wtype w")
    (auto simp: log_of_write_def log_need_def InsertLogRecord_def DeleteLogRecord_def
       length_row_bytes row_simps length_upd_bytes upd_simps)

lemma log_write_run:
  assumes w: "wr_state i tab fd sz (log_need (length v) tab + room) A ws s" and r: "wr_record wr = Some v" "tab_name wr = tab" "rid_in_range (wr_rid wr)"
    and upd: "wtype wr = UPDATE_TUPLE \<Longrightarrow> \<exists>v'. new_record wr = Some v' \<and> length v' = length v"
  obtains s' where "log_write i wr s = (Inr (), s')" and "wr_state i tab fd sz room A (ws @ [wr]) s'" and "sy_fhs s' = sy_fhs s"
proof -
  obtain t where t: "sy_txns s i = Some t" "txn_id t = i" "txn_state t = DEFAULT \<or> txn_state t = GROWING"
    "in_i32 (so_far_lsn t)" "write_records t = ws" "in_i32 i" by (rule wr_txnE [OF wr_stateD(4) [OF w]])
  let ?lm = "sy_log s"
  have lg: "log_ok ?lm" "in_i32 (global_lsn ?lm)" "log_offset ?lm + (log_need (length v) tab + room) \<le> nat LOG_BUFFER_SIZE"
    using wr_stateD(5) [OF w] by (simp_all add: wr_log_def)
  have "nat LOG_BUFFER_SIZE = 4194304" by (simp add: LOG_BUFFER_SIZE_def PAGE_SIZE_def)
  then have sz: "48 + 2 * length v + length (tab_name wr) < 2 ^ 31" using lg(3) r(2) by (simp add: log_need_def)
  obtain log where log: "log_of_write i wr = Inr log" "any_ok (set_lsns (global_lsn ?lm) (so_far_lsn t) log)"
    by (rule log_of_write_ok [OF r(1) sz t(6) lg(2) t(4) r(3) upd]) auto
  let ?r = "set_lsns (global_lsn ?lm) (so_far_lsn t) log"
  have len: "length (any_bytes ?r) \<le> log_need (length v) tab" using log_write_length [OF log(1) r(1) upd] r(2) by simp
  have room: "room_for ?lm ?r" using len lg(3) by (simp add: room_for_def)
  obtain lm' where lm': "gen_log_from_write_set t wr (?lm, disk (sy_bp s)) =
      (Inr (global_lsn ?lm, t\<lparr>so_far_lsn := global_lsn ?lm\<rparr>), (lm', disk (sy_bp s)))" "appends ?lm ?r lm'"
    by (rule gen_log_from_write_set_spec [OF lg(1) _ refl log(2) room, of wr]) (use log(1) t(2) in auto)
  let ?t' = "append_write_record wr (t\<lparr>so_far_lsn := global_lsn ?lm\<rparr>)"
  let ?s' = "s\<lparr>sy_log := lm', sy_txns := (sy_txns s)(i \<mapsto> ?t')\<rparr>"
  have run: "log_write i wr s = (Inr (), ?s')"
    using t(1,3) lm'(1)
    by (auto simp: log_write_def bindE_def getsE_def in_logger_def modifyE_def put_txn_def ctx_txn_def)
  have "log_offset lm' = log_offset ?lm + length (any_bytes ?r)"
    using lm'(2) log_offset_pending [of lm'] log_offset_pending [OF lg(1)] by (simp add: appends_def)
  then have "wr_log room lm'" using lm'(2) len lg(3) by (simp add: wr_log_def appends_def)
  moreover have "wr_txn i (ws @ [wr]) ?s'" using t lg(2) by (auto simp: wr_txn_def append_write_record_def)
  ultimately have "wr_state i tab fd sz room A (ws @ [wr]) ?s'"
    using w tables_cong [of ?s' s] by (simp add: wr_state_def)
  then show thesis by (rule that [OF run]) simp
qed

end
