(* ===== verification/Dml_Exec.thy ===== *)
theory Dml_Exec
  imports Dml_Run
begin

text \<open>
  What \<^verbatim>\<open>Next\<close> of the writing executors does to a table without indexes that no other transaction uses.
\<close>

lemma wr_state_less: "wr_state i tab fd sz room A ws s \<Longrightarrow> room' \<le> room \<Longrightarrow> wr_state i tab fd sz room' A ws s"
  by (simp add: wr_state_def wr_log_def)

lemma wr_row:
  assumes w: "wr_state i tab fd sz room A ws s" and a: "A tab = Some a" "a rid = Some v"
  shows "length v = nat sz" and "rid_in_range rid"
proof -
  obtain h where h: "sy_fhs s tab = Some (fd, h)" "record_size h = sz" by (rule wr_handle [OF w])
  note ab = wr_abs [OF w h(1) a(1), of no_txn]
  have r: "rm_abs fd (rm_view h no_txn s) rid = Some v" using ab(2) a(2) by simp
  show "length v = nat sz" using record_length [OF ab(1) r] h(2) by simp
  show "rid_in_range rid" by (rule record_rid_in_range [OF ab(1) r])
qed

section \<open>Delete\<close>

definition deletes :: "string \<Rightarrow> txn_id_t \<Rightarrow> TabMeta \<Rightarrow> Condition list \<Rightarrow> Rid list \<Rightarrow> DeleteExecutor" where
  "deletes tab i t conds rids = \<lparr>del_tab = t, del_conds = conds, del_rids = rids, del_tab_name = tab, del_txn = i\<rparr>"

definition without :: "(bytes \<Rightarrow> bool) \<Rightarrow> Rid list \<Rightarrow> (Rid \<rightharpoonup> bytes) \<Rightarrow> (Rid \<rightharpoonup> bytes)" where
  "without P rids a = (\<lambda>rid. if rid \<in> set rids \<and> P (the (a rid)) then None else a rid)"

definition delete_writes :: "string \<Rightarrow> (Rid \<Rightarrow> nat) \<Rightarrow> (Rid \<rightharpoonup> bytes) \<Rightarrow> (bytes \<Rightarrow> bool) \<Rightarrow> Rid list \<Rightarrow> WriteRecord list" where
  "delete_writes tab addr a P rids =
     map (\<lambda>rid. WriteRecord_delete (addr rid) DELETE_TUPLE tab rid (the (a rid))) (filter (\<lambda>rid. P (the (a rid))) rids)"

lemma delete_row_next:
  assumes w: "wr_state i tab fd sz (log_need (nat sz) tab + room) A ws s" and a: "A tab = Some a" "a rid = Some v"
    and t: "tm_indexes t = []" "\<forall>d \<in> set conds. cond_fits (tm_cols t) d"
  obtains s' where "delete_row n (deletes tab i t conds rids) addr rid s = (Inr (), s')"
    and "wr_state i tab fd sz room (A(tab \<mapsto> without (passes (tm_cols t) conds) [rid] a))
      (ws @ delete_writes tab (\<lambda>_. addr) a (passes (tm_cols t) conds) [rid]) s'"
proof -
  let ?P = "passes (tm_cols t) conds" and ?w = "WriteRecord_delete addr DELETE_TUPLE tab rid v"
  let ?get = "at_table None tab (\<lambda>fd. get_record fd rid)"
  obtain s1 where s1: "?get s = (Inr v, s1)" "wr_state i tab fd sz (log_need (nat sz) tab + room) A ws s1" by (rule get_row_run [OF w a])
  obtain s2 where s2: "?get s1 = (Inr v, s2)" "wr_state i tab fd sz (log_need (nat sz) tab + room) A ws s2" by (rule get_row_run [OF s1(2) a])
  note vr = wr_row [OF w a]
  have ok: "conds_hold (\<lambda>d. test_record d (tm_cols t) v) conds = Inr (?P v)"
    by (rule conds_hold_passes) (use t(2) in auto)
  show thesis
  proof (cases "?P v")
    case False
    then have "delete_row n (deletes tab i t conds rids) addr rid s = (Inr (), s2)"
      using s1(1) s2(1) ok by (simp add: delete_row_def deletes_def Let_def bindE_def liftR_def returnE_def)
    moreover have "without ?P [rid] a = a" "delete_writes tab (\<lambda>_. addr) a ?P [rid] = []"
      using False a(2) by (auto simp: without_def delete_writes_def fun_eq_iff)
    moreover have "A(tab \<mapsto> a) = A" using a(1) by auto
    ultimately show thesis using that wr_state_less [OF s2(2), of room] by simp
  next
    case True
    obtain s3 where s3: "log_write i ?w s2 = (Inr (), s3)" "wr_state i tab fd sz room A (ws @ [?w]) s3"
      by (rule log_write_run [of i tab fd sz v room A ws s2 ?w]) (use s2(2) vr in \<open>auto simp: WriteRecord_delete_def\<close>)
    obtain s4 where s4: "at_table (Some i) tab (\<lambda>fd. delete_record fd True rid) s3 = (Inr (), s4)"
      "wr_state i tab fd sz room (A(tab \<mapsto> a(rid := None))) (ws @ [?w]) s4" by (rule delete_row_run [OF s3(2) a])
    have "delete_row n (deletes tab i t conds rids) addr rid s = (Inr (), s4)"
      using s1(1) s2(1) s3(1) s4(1) ok True t(1)
      by (simp add: delete_row_def deletes_def Let_def bindE_def liftR_def returnE_def erase_keys_def)
    moreover have "without ?P [rid] a = a(rid := None)" "delete_writes tab (\<lambda>_. addr) a ?P [rid] = [?w]"
      using True a(2) by (auto simp: without_def delete_writes_def fun_eq_iff)
    ultimately show thesis using that s4(2) by simp
  qed
qed

lemma delete_rows_next:
  assumes "wr_state i tab fd sz (length rids * log_need (nat sz) tab + room) A ws s" and "A tab = Some a" and "set rids \<subseteq> dom a" "distinct rids"
    and t: "tm_indexes t = []" "\<forall>d \<in> set conds. cond_fits (tm_cols t) d"
  shows "\<exists>s'. forE (\<lambda>rid. delete_row n (deletes tab i t conds rids0) (addr rid) rid) rids s = (Inr (), s')
    \<and> wr_state i tab fd sz room (A(tab \<mapsto> without (passes (tm_cols t) conds) rids a)) (ws @ delete_writes tab addr a (passes (tm_cols t) conds) rids) s'"
  using assms(1-4)
proof (induction rids arbitrary: s A a ws)
  case Nil
  have "without (passes (tm_cols t) conds) [] a = a" by (simp add: without_def)
  with Nil show ?case by (auto simp: returnE_def delete_writes_def fun_upd_idem)
next
  case (Cons rid rids)
  let ?P = "passes (tm_cols t) conds" and ?a = "without (passes (tm_cols t) conds) [rid] a"
  obtain v where v: "a rid = Some v" using Cons.prems(3) by auto
  have w: "wr_state i tab fd sz (log_need (nat sz) tab + (length rids * log_need (nat sz) tab + room)) A ws s"
    using Cons.prems(1) by (simp add: add.assoc)
  obtain s1 where s1: "delete_row n (deletes tab i t conds rids0) (addr rid) rid s = (Inr (), s1)"
    "wr_state i tab fd sz (length rids * log_need (nat sz) tab + room) (A(tab \<mapsto> ?a)) (ws @ delete_writes tab (\<lambda>_. addr rid) a ?P [rid]) s1"
    by (rule delete_row_next [OF w Cons.prems(2) v t]) (rule that)
  have same: "?a r = a r" if "r \<in> set rids" for r using that Cons.prems(4) by (auto simp: without_def)
  obtain s' where s': "forE (\<lambda>rid. delete_row n (deletes tab i t conds rids0) (addr rid) rid) rids s1 = (Inr (), s')"
    "wr_state i tab fd sz room ((A(tab \<mapsto> ?a))(tab \<mapsto> without ?P rids ?a))
      ((ws @ delete_writes tab (\<lambda>_. addr rid) a ?P [rid]) @ delete_writes tab addr ?a ?P rids) s'"
    using Cons.IH [OF s1(2)] Cons.prems(3,4) same by (fastforce simp: subset_eq)
  have "without ?P rids ?a = without ?P (rid # rids) a"
    using Cons.prems(4) by (auto simp: without_def fun_eq_iff)
  moreover have "delete_writes tab (\<lambda>_. addr rid) a ?P [rid] @ delete_writes tab addr ?a ?P rids = delete_writes tab addr a ?P (rid # rids)"
    using same by (auto simp: delete_writes_def cong: filter_cong)
  ultimately have "wr_state i tab fd sz room (A(tab \<mapsto> without ?P (rid # rids) a)) (ws @ delete_writes tab addr a ?P (rid # rids)) s'"
    using s'(2) by simp
  moreover have "forE (\<lambda>rid. delete_row n (deletes tab i t conds rids0) (addr rid) rid) (rid # rids) s = (Inr (), s')"
    using s1(1) s'(1) by (simp add: bindE_def)
  ultimately show ?case by blast
qed

lemma delete_Next_run:
  assumes "wr_state i tab fd sz (length rids * log_need (nat sz) tab + room) A ws s" and "A tab = Some a" and "set rids \<subseteq> dom a" "distinct rids"
    and t: "tm_indexes t = []" "\<forall>d \<in> set conds. cond_fits (tm_cols t) d"
  obtains s' where "delete_Next n addr (deletes tab i t conds rids) s = (Inr (), s')"
    and "wr_state i tab fd sz room (A(tab \<mapsto> without (passes (tm_cols t) conds) rids a)) (ws @ delete_writes tab addr a (passes (tm_cols t) conds) rids) s'"
proof -
  have "delete_Next n addr (deletes tab i t conds rids) s
      = forE (\<lambda>rid. delete_row n (deletes tab i t conds rids) (addr rid) rid) rids s"
    using t(1) by (simp add: delete_Next_def deletes_def index_handles_def)
  then show thesis using that delete_rows_next [OF assms, of n rids addr] by auto
qed

section \<open>Update\<close>

definition updates :: "string \<Rightarrow> txn_id_t \<Rightarrow> TabMeta \<Rightarrow> SetClause list \<Rightarrow> Condition list \<Rightarrow> Rid list \<Rightarrow> UpdateExecutor" where
  "updates tab i t sets conds rids =
     \<lparr>upd_tab = t, upd_conds = conds, upd_rids = rids, upd_tab_name = tab, upd_set_clauses = sets, upd_txn = i\<rparr>"

lemma take_rows_next:
  assumes "wr_state i tab fd sz room A ws s" and "A tab = Some a" and "set rids \<subseteq> dom a" and t: "tm_indexes t = []"
  shows "\<exists>s'. mapME (take_row n (updates tab i t sets conds rids0)) rids s = (Inr (map (\<lambda>rid. the (a rid)) rids), s')
    \<and> wr_state i tab fd sz room A ws s'"
  using assms(1-3)
proof (induction rids arbitrary: s)
  case (Cons rid rids)
  obtain v where v: "a rid = Some v" using Cons.prems(3) by auto
  obtain s1 where s1: "lock_record_or_abort rid tab i s = (Inr (), s1)" "wr_state i tab fd sz room A ws s1"
    by (rule lock_record_run [OF Cons.prems(1)])
  obtain s2 where s2: "at_table None tab (\<lambda>fd. get_record fd rid) s1 = (Inr v, s2)" "wr_state i tab fd sz room A ws s2"
    by (rule get_row_run [OF s1(2) Cons.prems(2) v])
  have "take_row n (updates tab i t sets conds rids0) rid s = (Inr v, s2)"
    using s1(1) s2(1) t by (simp add: take_row_def updates_def bindE_def erase_keys_def returnE_def)
  then show ?case using Cons.IH [OF s2(2) Cons.prems(2)] Cons.prems(3) v by (auto simp: bindE_def returnE_def)
qed (simp add: returnE_def)

lemma build_rows_next:
  assumes t: "tm_indexes t = []" and f: "\<forall>(rid, old) \<in> set rest. apply_sets tab t sets old = Inr (f old)"
  shows "build_rows n (updates tab i t sets conds rids) olds rest news s = (Inr (news @ map (f \<circ> snd) rest), s)"
  using f
proof (induction rest arbitrary: news)
  case (Cons p rest)
  then show ?case using t by (cases p) (simp add: updates_def bindE_def liftR_def returnE_def enter_row_def)
qed (simp add: returnE_def)

definition update_writes :: "string \<Rightarrow> (Rid \<Rightarrow> nat) \<Rightarrow> (Rid \<rightharpoonup> bytes) \<Rightarrow> (bytes \<Rightarrow> bytes) \<Rightarrow> Rid list \<Rightarrow> WriteRecord list" where
  "update_writes tab addr a f rids =
     map (\<lambda>rid. WriteRecord_update (addr rid) UPDATE_TUPLE tab rid (the (a rid)) (f (the (a rid)))) rids"

definition changed :: "(bytes \<Rightarrow> bytes) \<Rightarrow> Rid list \<Rightarrow> (Rid \<rightharpoonup> bytes) \<Rightarrow> (Rid \<rightharpoonup> bytes)" where
  "changed f rids a = (\<lambda>rid. if rid \<in> set rids then map_option f (a rid) else a rid)"

lemma write_row_next:
  assumes w: "wr_state i tab fd sz (log_need (nat sz) tab + room) A ws s" and a: "A tab = Some a" "a rid = Some v"
    and v': "length v' = length v"
  obtains s' where "write_row (updates tab i t sets conds rids) addr ((rid, v), v') s = (Inr (), s')"
    and "wr_state i tab fd sz room (A(tab \<mapsto> a(rid \<mapsto> v'))) (ws @ [WriteRecord_update (addr rid) UPDATE_TUPLE tab rid v v']) s'"
proof -
  let ?w = "WriteRecord_update (addr rid) UPDATE_TUPLE tab rid v v'"
  note vr = wr_row [OF w a]
  obtain s1 where s1: "log_write i ?w s = (Inr (), s1)" "wr_state i tab fd sz room A (ws @ [?w]) s1"
    by (rule log_write_run [of i tab fd sz v room A ws s ?w]) (use w vr v' in \<open>auto simp: WriteRecord_update_def\<close>)
  obtain s2 where s2: "at_table (Some i) tab (\<lambda>fd. update_record fd True rid v') s1 = (Inr (), s2)"
    "wr_state i tab fd sz room (A(tab \<mapsto> a(rid \<mapsto> v'))) (ws @ [?w]) s2"
    by (rule update_row_run [OF s1(2) a, of v']) (use vr v' in auto)
  show thesis by (rule that [OF _ s2(2)]) (use s1(1) s2(1) in \<open>simp add: write_row_def updates_def bindE_def\<close>)
qed

lemma write_rows_next:
  assumes "wr_state i tab fd sz (length rids * log_need (nat sz) tab + room) A ws s" and "A tab = Some a" and "set rids \<subseteq> dom a" "distinct rids"
    and f: "\<And>v. length (f v) = length v"
  shows "\<exists>s'. forE (write_row (updates tab i t sets conds rids0) addr) (map (\<lambda>rid. ((rid, the (a rid)), f (the (a rid)))) rids) s = (Inr (), s')
    \<and> wr_state i tab fd sz room (A(tab \<mapsto> changed f rids a)) (ws @ update_writes tab addr a f rids) s'"
  using assms(1-4)
proof (induction rids arbitrary: s A a ws)
  case Nil
  have "changed f [] a = a" by (simp add: changed_def)
  with Nil show ?case by (auto simp: returnE_def update_writes_def fun_upd_idem)
next
  case (Cons rid rids)
  let ?x = "updates tab i t sets conds rids0"
  obtain v where v: "a rid = Some v" using Cons.prems(3) by auto
  let ?a = "a(rid \<mapsto> f v)" and ?w = "WriteRecord_update (addr rid) UPDATE_TUPLE tab rid v (f v)"
  have w: "wr_state i tab fd sz (log_need (nat sz) tab + (length rids * log_need (nat sz) tab + room)) A ws s"
    using Cons.prems(1) by (simp add: add.assoc)
  obtain s1 where s1: "write_row ?x addr ((rid, v), f v) s = (Inr (), s1)"
    "wr_state i tab fd sz (length rids * log_need (nat sz) tab + room) (A(tab \<mapsto> ?a)) (ws @ [?w]) s1"
    by (rule write_row_next [OF w Cons.prems(2) v f]) (rule that)
  have same: "?a r = a r" if "r \<in> set rids" for r using that Cons.prems(4) by auto
  have d: "set rids \<subseteq> dom ?a" "distinct rids" using Cons.prems(3,4) by auto
  let ?ms = "\<lambda>a. map (\<lambda>rid. ((rid, the (a rid)), f (the (a rid)))) rids"
  have run: "\<exists>s'. forE (write_row ?x addr) (?ms ?a) s1 = (Inr (), s')
    \<and> wr_state i tab fd sz room ((A(tab \<mapsto> ?a))(tab \<mapsto> changed f rids ?a)) ((ws @ [?w]) @ update_writes tab addr ?a f rids) s'"
    by (rule Cons.IH [OF s1(2) fun_upd_same d])
  have ms: "?ms ?a = ?ms a" using same by (intro map_cong) auto
  have "changed f rids ?a r = changed f (rid # rids) a r" for r using v Cons.prems(4) by (auto simp: changed_def)
  then have ch: "changed f rids ?a = changed f (rid # rids) a" by (rule ext)
  have ws: "(ws @ [?w]) @ update_writes tab addr ?a f rids = ws @ update_writes tab addr a f (rid # rids)"
    using v same by (auto simp: update_writes_def)
  obtain s' where "forE (write_row ?x addr) (map (\<lambda>rid. ((rid, the (a rid)), f (the (a rid)))) rids) s1 = (Inr (), s')"
    and w': "wr_state i tab fd sz room (A(tab \<mapsto> changed f (rid # rids) a)) (ws @ update_writes tab addr a f (rid # rids)) s'"
    using run unfolding ms ch ws fun_upd_upd by blast
  then have "forE (write_row ?x addr) (map (\<lambda>rid. ((rid, the (a rid)), f (the (a rid)))) (rid # rids)) s = (Inr (), s')"
    using s1(1) v by (simp add: bindE_def)
  with w' show ?case by blast
qed

lemma update_Next_run:
  assumes w: "wr_state i tab fd sz (length rids * log_need (nat sz) tab + room) A ws s" and a: "A tab = Some a" "set rids \<subseteq> dom a" "distinct rids"
    and t: "tm_indexes t = []" and f: "\<forall>rid \<in> set rids. apply_sets tab t sets (the (a rid)) = Inr (f (the (a rid)))" "\<And>v. length (f v) = length v"
  obtains s' where "update_Next n addr (updates tab i t sets conds rids) s = (Inr (), s')"
    and "wr_state i tab fd sz room (A(tab \<mapsto> changed f rids a)) (ws @ update_writes tab addr a f rids) s'"
proof -
  let ?x = "updates tab i t sets conds rids" and ?olds = "zip rids (map (\<lambda>rid. the (a rid)) rids)"
  obtain s1 where s1: "mapME (take_row n ?x) rids s = (Inr (map (\<lambda>rid. the (a rid)) rids), s1)"
    "wr_state i tab fd sz (length rids * log_need (nat sz) tab + room) A ws s1"
    using take_rows_next [OF w a(1,2) t, of n sets conds rids] by blast
  have olds: "?olds = map (\<lambda>rid. (rid, the (a rid))) rids" by (simp add: zip_map2 zip_same_conv_map)
  have b: "build_rows n ?x ?olds ?olds [] s1 = (Inr (map (f \<circ> snd) ?olds), s1)"
    using build_rows_next [OF t, of ?olds tab sets f n i conds rids ?olds "[]" s1] f(1) by (simp add: olds)
  have z: "zip ?olds (map (f \<circ> snd) ?olds) = map (\<lambda>rid. ((rid, the (a rid)), f (the (a rid)))) rids"
    unfolding olds by (simp add: zip_map_map zip_same_conv_map)
  obtain s2 where s2: "forE (write_row ?x addr) (map (\<lambda>rid. ((rid, the (a rid)), f (the (a rid)))) rids) s1 = (Inr (), s2)"
    "wr_state i tab fd sz room (A(tab \<mapsto> changed f rids a)) (ws @ update_writes tab addr a f rids) s2"
    using write_rows_next [OF s1(2) a f(2), of t sets conds rids addr] by blast
  have xr: "upd_rids ?x = rids" "tm_indexes (upd_tab ?x) = []" using t by (simp_all add: updates_def)
  have "update_Next n addr ?x s = (Inr (), s2)"
    using s1(1) b s2(1) unfolding update_Next_def xr index_handles_def Let_def
    by (simp add: bindE_def [of "mapME _ _"] bindE_def [of "build_rows _ _ _ _ _"] z returnE_def)
  then show thesis using s2(2) by (rule that)
qed

end
