(* ===== verification/Dml_Insert.thy ===== *)
theory Dml_Insert
  imports Dml_Exec Code_Invar Values_Props
begin

text \<open>
  What the insert executor does to a table without indexes, and the records that the portal collects for
  \<^verbatim>\<open>DELETE\<close> and \<^verbatim>\<open>UPDATE\<close>.
\<close>

section \<open>Inserting a record\<close>

text \<open>The names of the open files stay, and the next sequence number stays one of 32 bits.\<close>

definition log_frame :: "int \<times> (int \<rightharpoonup> string) \<Rightarrow> RmSys \<Rightarrow> bool" where
  "log_frame N s \<longleftrightarrow> pool_names (rm_bp s) = N \<and> in_i32 (global_lsn (rm_log s))"

lemma keeps_frame: "keeps rm_rest m \<Longrightarrow> invar (log_frame N) m"
  by (auto simp: keeps_def rm_rest_def invar_def log_frame_def)

text \<open>The latch is held while the record is added to the buffer, so the buffer is not flushed.\<close>

lemma gen_log_frame:
  "snd (snd (gen_log_from_write_set txn w s)) = snd s"
  "in_i32 (global_lsn (fst s)) \<Longrightarrow> in_i32 (global_lsn (fst (snd (gen_log_from_write_set txn w s))))"
  by (auto simp: gen_log_from_write_set_def bindE_def latch_lock_def alloc_lsn_def modify_log_def add_log_to_buffer_def flush_log_to_disk_def
      latch_unlock_def Let_def returnE_def split: sum.splits prod.splits if_splits)

lemma invar_log_insert: "invar (log_frame N) (log_insert fd addr rid rec)"
proof -
  have "invar (log_frame N) (in_log (gen_log_from_write_set txn w))" for txn w
    using gen_log_frame [where txn = txn and w = w]
    by (auto simp: invar_def log_frame_def in_log_def pool_names_def split: prod.splits) (metis snd_conv fst_conv)+
  moreover have "invar (log_frame N) (in_bp (lift_disk (get_file_name fd)))"
    by (intro keeps_frame frame_rules) (auto simp: keeps_def get_file_name_def split: option.splits)
  ultimately show ?thesis unfolding log_insert_def Let_def by (intro inv_rules) (simp_all add: log_frame_def)
qed

lemma invar_insert: "invar (log_frame N) (insert_record fd ctx addr buf)"
proof -
  have fetch: "invar (log_frame N) (fetch_free_page_handle fd)"
    unfolding fetch_free_page_handle_def Let_def by (intro keeps_frame frame_rules)
  have io: "invar (log_frame N) (frame_bytes f)" "invar (log_frame N) (poke_frame f x)" "invar (log_frame N) (set_hdr g)"
    "invar (log_frame N) (in_bp (unpinE pid b))" "invar (log_frame N) (frame_pid f)" for f x g pid b
    unfolding frame_pid_def by (intro keeps_frame frame_rules)+
  show ?thesis
    unfolding insert_record_def Let_def
    by (intro invar_bindE fetch) (auto intro!: inv_rules io invar_log_insert split: option.splits)
qed

lemma insert_row_run:
  assumes w: "wr_state i tab fd sz (log_need (nat sz) tab + room) A ws s" and a: "A tab = Some a" and buf: "length buf = nat sz"
    and space: "\<And>h. sy_fhs s tab = Some (fd, h) \<Longrightarrow> first_free_page_no h = RM_NO_PAGE \<Longrightarrow> page_in_range (num_pages h)"
  obtains rid s' where "at_table (Some i) tab (\<lambda>fd. insert_record fd True addr buf) s = (Inr rid, s')" and "a rid = None"
    and "wr_state i tab fd sz room (A(tab \<mapsto> a(rid \<mapsto> buf))) (ws @ [WriteRecord_delete addr INSERT_TUPLE tab rid buf]) s'"
    and "sy_db s' = sy_db s"
proof -
  obtain h where h: "sy_fhs s tab = Some (fd, h)" "record_size h = sz" by (rule wr_handle [OF w])
  obtain t0 where t0: "sy_txns s i = Some t0" "txn_id t0 = i" "txn_state t0 = DEFAULT \<or> txn_state t0 = GROWING"
    "in_i32 (so_far_lsn t0)" "write_records t0 = ws" "in_i32 i" by (rule wr_txnE [OF wr_stateD(4) [OF w]])
  note ab = wr_abs [OF w h(1) a, of t0]
  let ?v = "rm_view h t0 s" and ?wr = "WriteRecord_delete addr INSERT_TUPLE tab"
  have lg: "log_ok (sy_log s)" "in_i32 (global_lsn (sy_log s))" "log_offset (sy_log s) + (log_need (nat sz) tab + room) \<le> nat LOG_BUFFER_SIZE"
    using wr_stateD(5) [OF w] by (simp_all add: wr_log_def)
  have ready: "log_ready fd ?v"
    using t0 lg wr_stateD(3) [OF w] h(2) by (auto simp: log_ready_def log_need_def)
  obtain rid t where r: "insert_record fd True addr buf ?v = (Inr rid, t)" "table_step fd ?v t" "rm_abs fd ?v rid = None"
    "rm_abs fd t = (rm_abs fd ?v)(rid \<mapsto> buf)" "logged_insert fd addr ?v rid buf (rm_log t) (rm_txn t)"
    by (rule insert_record_spec [OF ab(1), of buf True addr]) (use ready buf h space in auto)
  have path: "the (fd2path (disk (sy_bp s)) fd) = tab" using wr_stateD(3) [OF w] by simp
  have lgi: "log_ok (rm_log t)" "rm_txn t = append_write_record (?wr rid buf) (t0\<lparr>so_far_lsn := global_lsn (sy_log s)\<rparr>)"
    "pending (rm_log t) = pending (sy_log s) @ any_bytes (set_lsns (global_lsn (sy_log s)) (so_far_lsn t0) (LInsert (InsertLogRecord i buf rid tab)))"
    using r(5) t0(2) path by (simp_all add: logged_insert_def insert_write_def)
  have "log_frame (pool_names (sy_bp s)) t" by (rule invarD [OF invar_insert _ r(1)]) (use lg(2) in \<open>simp add: log_frame_def\<close>)
  then have names: "pool_names (rm_bp t) = pool_names (sy_bp s)" "in_i32 (global_lsn (rm_log t))" by (simp_all add: log_frame_def)
  note l = table_step_lift [OF wr_stateD(1) [OF w] h(1) r(2) names(1)]
  let ?s' = "put_txn (Some i) (rm_txn t) (rm_store tab fd t s)"
  have len: "length (any_bytes (set_lsns (global_lsn (sy_log s)) (so_far_lsn t0) (LInsert (InsertLogRecord i buf rid tab)))) \<le> log_need (nat sz) tab"
    by (simp add: log_need_def length_row_bytes row_simps InsertLogRecord_def buf)
  have "wr_log room (rm_log t)"
    using lgi(1) lgi(3) len lg(3) names(2) log_offset_pending [OF lg(1)] log_offset_pending [OF lgi(1)] by (simp add: wr_log_def)
  moreover have "wr_txn i (ws @ [?wr rid buf]) ?s'" using t0 lg(2) by (auto simp: wr_txn_def lgi(2) put_txn_def append_write_record_def)
  moreover have "tabs_ok ?s'" "tab_abs ?s' = A(tab \<mapsto> a(rid \<mapsto> buf))"
    using l tables_cong [of ?s' "rm_store tab fd t s"] r(4) ab(2) wr_stateD(2) [OF w] by (simp_all add: put_txn_def)
  moreover have "fd2path (disk (rm_bp t)) fd = Some tab" "record_size (rm_hdr t) = sz"
    using wr_stateD(3) [OF w] names(1) r(2) h(2) by (simp_all add: pool_names_def open_names_def table_step_def same_layout_def)
  ultimately have "wr_state i tab fd sz room (A(tab \<mapsto> a(rid \<mapsto> buf))) (ws @ [?wr rid buf]) ?s'"
    using wr_stateD(6) [OF w] by (simp add: wr_state_def put_txn_def)
  moreover have "at_table (Some i) tab (\<lambda>fd. insert_record fd True addr buf) s = (Inr rid, ?s')"
    using at_table_txn_run [OF h(1) t0(1), of "\<lambda>fd. insert_record fd True addr buf"] r(1) by simp
  moreover have "sy_db ?s' = sy_db s" by (simp add: put_txn_def)
  ultimately show thesis using that r(3) ab(2) by simp
qed

section \<open>The record of the values\<close>

text \<open>Columns one behind the other from \<open>off\<close> to \<open>e\<close>, and values whose buffers were made for them.\<close>

fun laid_out :: "int \<Rightarrow> ColMeta list \<Rightarrow> int \<Rightarrow> bool" where
  "laid_out off [] e \<longleftrightarrow> off = e"
| "laid_out off (c # cs) e \<longleftrightarrow> cm_offset c = off \<and> 0 \<le> cm_len c \<and> laid_out (off + cm_len c) cs e"

definition value_for :: "ColMeta \<Rightarrow> Value \<Rightarrow> bool" where
  "value_for c v \<longleftrightarrow> cm_type c = val_type (v_val v) \<and> val_fits (v_val v)
     \<and> (\<exists>bs. v_raw v = Some bs \<and> raw_bytes (v_val v) (cm_len c) = Inr bs)"

definition row_of :: "Value list \<Rightarrow> bytes" where
  "row_of vs = concat (map (\<lambda>v. the (v_raw v)) vs)"

lemma value_forE:
  assumes "value_for c v" and "0 \<le> cm_len c"
  obtains bs where "v_raw v = Some bs" and "length bs = nat (cm_len c)" and "cm_type c = val_type (v_val v)"
    and "\<And>pre post. cm_offset c = int (length pre) \<Longrightarrow> read_from_record (pre @ bs @ post) c = v_val v"
proof -
  obtain bs where bs: "v_raw v = Some bs" "raw_bytes (v_val v) (cm_len c) = Inr bs" "cm_type c = val_type (v_val v)" "val_fits (v_val v)"
    using assms(1) by (auto simp: value_for_def)
  have "length bs = nat (cm_len c)"
    using bs(2) by (auto simp: raw_bytes_def split: val.splits if_splits)
  moreover have "read_from_record (pre @ bs @ post) c = v_val v" if "cm_offset c = int (length pre)" for pre post
    using raw_read_back [OF bs(2,4), of pre post "cm_tab_name c" "cm_name c" "cm_index c"] bs(3) that by (cases c) simp
  ultimately show thesis using that bs by blast
qed

lemma laid_out_le: "laid_out off cols e \<Longrightarrow> off \<le> e"
  by (induction cols arbitrary: off) force+

lemma put_values_row:
  assumes "laid_out (int (length pre)) cols (int (length pre + length suf))" and "list_all2 value_for cols vs"
  shows "put_values cols vs (pre @ suf) = Inr (pre @ row_of vs)" and "length (row_of vs) = length suf"
proof -
  have "put_values cols vs (pre @ suf) = Inr (pre @ row_of vs) \<and> length (row_of vs) = length suf"
    using assms
  proof (induction cols arbitrary: pre suf vs)
    case (Cons c cols)
    obtain v vs' where vs: "vs = v # vs'" "value_for c v" "list_all2 value_for cols vs'" using Cons.prems(2) by (cases vs) auto
    have c: "cm_offset c = int (length pre)" "0 \<le> cm_len c" "laid_out (int (length pre) + cm_len c) cols (int (length pre + length suf))"
      using Cons.prems(1) by auto
    obtain bs where bs: "v_raw v = Some bs" "length bs = nat (cm_len c)" "cm_type c = val_type (v_val v)" by (rule value_forE [OF vs(2) c(2)])
    have le: "nat (cm_len c) \<le> length suf" using laid_out_le [OF c(3)] c(2) by simp
    let ?suf = "drop (nat (cm_len c)) suf"
    have put: "mem_put (nat (cm_offset c)) (take (nat (cm_len c)) bs) (pre @ suf) = (pre @ bs) @ ?suf"
      using bs(2) le c(1) by (simp add: mem_put_def)
    have off: "int (length pre) + cm_len c = int (length (pre @ bs))" using bs(2) c(2) by simp
    have e: "int (length pre + length suf) = int (length (pre @ bs) + length ?suf)" using bs(2) le by simp
    have IH: "put_values cols vs' ((pre @ bs) @ ?suf) = Inr ((pre @ bs) @ row_of vs') \<and> length (row_of vs') = length ?suf"
      using c(3) unfolding off e by (rule Cons.IH [OF _ vs(3)])
    have "put_values (c # cols) vs (pre @ suf) = put_values cols vs' ((pre @ bs) @ ?suf)"
      using bs le c(1,2) put vs(1) by simp
    then show ?case using IH vs(1) bs(1,2) le by (simp add: row_of_def)
  qed (auto simp: row_of_def)
  then show "put_values cols vs (pre @ suf) = Inr (pre @ row_of vs)" "length (row_of vs) = length suf" by blast+
qed

lemma row_read_back:
  assumes "laid_out (int (length pre)) cols e" and "list_all2 value_for cols vs" and "k < length cols"
  shows "read_from_record (pre @ row_of vs) (cols ! k) = v_val (vs ! k)"
  using assms
proof (induction cols arbitrary: pre vs k)
  case (Cons c cols)
  obtain v vs' where vs: "vs = v # vs'" "value_for c v" "list_all2 value_for cols vs'" using Cons.prems(2) by (cases vs) auto
  have c: "cm_offset c = int (length pre)" "0 \<le> cm_len c" "laid_out (int (length pre) + cm_len c) cols e" using Cons.prems(1) by auto
  obtain bs where bs: "v_raw v = Some bs" "length bs = nat (cm_len c)"
    "\<And>pre post. cm_offset c = int (length pre) \<Longrightarrow> read_from_record (pre @ bs @ post) c = v_val v" by (rule value_forE [OF vs(2) c(2)]) blast
  have row: "row_of (v # vs') = bs @ row_of vs'" using bs(1) by (simp add: row_of_def)
  show ?case
  proof (cases k)
    case 0
    then show ?thesis using bs(3) [OF c(1)] vs(1) by (simp add: row)
  next
    case (Suc j)
    have "laid_out (int (length (pre @ bs))) cols e" using c(2,3) bs(2) by simp
    from Cons.IH [OF this vs(3), of j] show ?thesis using Suc Cons.prems(3) vs(1) by (simp add: row)
  qed
qed simp

section \<open>The insert executor\<close>

lemma find_table_run: "get_table (sy_db s) tab = Inr t \<Longrightarrow> find_table tab s = (Inr t, s)"
  by (simp add: find_table_def bindE_def RLatch_def RUnLatch_def modifyE_def try_meta_def getsE_def liftR_def returnE_def)

lemma at_table_reads: "sy_fhs s tab = Some (fd, h) \<Longrightarrow> at_table None tab (\<lambda>_. getsE g) s = (Inr (g (rm_view h no_txn s)), s)"
  "sy_fhs s tab = Some (fd, h) \<Longrightarrow> at_table None tab (\<lambda>_. returnE x) s = (Inr x, s)"
  by (simp_all add: at_table_def getsE_def returnE_def put_txn_def ctx_txn_def fun_upd_idem rm_view_def)

definition inserts :: "string \<Rightarrow> txn_id_t \<Rightarrow> TabMeta \<Rightarrow> Value list \<Rightarrow> InsertExecutor" where
  "inserts tab i t vs = \<lparr>ins_tab = t, ins_values = vs, ins_tab_name = tab, ins_txn = i\<rparr>"

lemma insert_Next_run:
  assumes w: "wr_state i tab fd sz (log_need (nat sz) tab + room) A ws s" and a: "A tab = Some a" and sz: "0 \<le> sz"
    and t: "tm_indexes t = []" "laid_out 0 (tm_cols t) sz" "list_all2 value_for (tm_cols t) vs"
    and space: "\<And>h. sy_fhs s tab = Some (fd, h) \<Longrightarrow> first_free_page_no h = RM_NO_PAGE \<Longrightarrow> page_in_range (num_pages h)"
  obtains rid s' where "insert_Next n addr junk (inserts tab i t vs) s = (Inr rid, s')" and "a rid = None"
    and "wr_state i tab fd sz room (A(tab \<mapsto> a(rid \<mapsto> row_of vs))) (ws @ [WriteRecord_delete addr INSERT_TUPLE tab rid (row_of vs)]) s'"
    and "sy_db s' = sy_db s"
proof -
  obtain h where h: "sy_fhs s tab = Some (fd, h)" "record_size h = sz" by (rule wr_handle [OF w])
  have lo: "laid_out (int (length ([] :: bytes))) (tm_cols t) (int (length ([] :: bytes) + length (map junk [0..<nat sz])))"
    using t(2) sz by simp
  note put = put_values_row [OF lo t(3)]
  have row: "put_values (tm_cols t) vs (map junk [0..<nat sz]) = Inr (row_of vs)" "length (row_of vs) = nat sz" using put by simp_all
  obtain s1 where s1: "lock_table_or_abort lock_IX_on_table GET_LOCK_FAILED tab i s = (Inr (), s1)"
    "wr_state i tab fd sz (log_need (nat sz) tab + room) A ws s1" "sy_fhs s1 = sy_fhs s" "sy_db s1 = sy_db s"
    by (rule lock_table_run [OF w lock_IX_on_table_def]) (rule that)
  obtain rid s2 where s2: "at_table (Some i) tab (\<lambda>fd. insert_record fd True addr (row_of vs)) s1 = (Inr rid, s2)" "a rid = None"
    "wr_state i tab fd sz room (A(tab \<mapsto> a(rid \<mapsto> row_of vs))) (ws @ [WriteRecord_delete addr INSERT_TUPLE tab rid (row_of vs)]) s2" "sy_db s2 = sy_db s1"
    by (rule insert_row_run [OF s1(2) a row(2)]) (use space s1(3) in auto)
  obtain s3 where s3: "lock_record_or_abort rid tab i s2 = (Inr (), s3)"
    "wr_state i tab fd sz room (A(tab \<mapsto> a(rid \<mapsto> row_of vs))) (ws @ [WriteRecord_delete addr INSERT_TUPLE tab rid (row_of vs)]) s3" "sy_db s3 = sy_db s2"
    by (rule lock_record_run [OF s2(3)])
  have "insert_Next n addr junk (inserts tab i t vs) s = (Inr rid, s3)"
    using at_table_reads(1) [OF h(1), of "\<lambda>r. record_size (rm_hdr r)"] row(1) s1(1) s2(1) s3(1) t(1) h(2)
    by (simp add: insert_Next_def inserts_def Let_def bindE_def liftR_def returnE_def index_handles_def check_unique_def enter_keys_def)
  then show thesis using s2(2) s3(2) by (rule that) (simp add: s1(4) s2(4) s3(3))
qed

end
