(* ===== verification/Dml_Props.thy ===== *)
theory Dml_Props
  imports Dml_Insert Exec_Props
begin

text \<open>
  What the statements \<^verbatim>\<open>INSERT\<close>, \<^verbatim>\<open>DELETE\<close> and \<^verbatim>\<open>UPDATE\<close> do to a table without indexes that no other transaction uses.
\<close>

section \<open>Finding the records\<close>










section \<open>Set clauses\<close>










section \<open>Insert\<close>











section \<open>Delete and update\<close>














end
