(* ===== verification/Exec_IndexScan.thy ===== *)
theory Exec_IndexScan
  imports Exec_SeqScan Exec_Join Exec_Sort Exec_Dml
begin

text \<open>
  \<^verbatim>\<open>IndexScanExecutor\<close> of \<^verbatim>\<open>execution/executor_index_scan.h\<close>: the range of an index that the leading conditions select,
  walked entry by entry, each record fetched and tested against all conditions. \<open>n\<close> bounds the descents into the
  index. \<^verbatim>\<open>tupleLen\<close> is not implemented and throws.
\<close>

record IndexScanInfo =
  xi_tab_name :: string
  xi_tab :: TabMeta
  xi_conds :: "Condition list"
  xi_idx_conds :: "Condition list"
  xi_index_col_names :: "string list"
  xi_index_meta :: IndexMeta
  xi_txn :: txn_id_t

text \<open>\<^verbatim>\<open>rid_\<close> is assigned when a record is found, \<^verbatim>\<open>scan_\<close> by \<^verbatim>\<open>beginTuple\<close>.\<close>

record IndexScan =
  xs_rid :: Rid
  xs_key :: bytes
  xs_scan :: "IxScan option"

text \<open>The constructor; \<open>rid0\<close> and \<open>junk\<close> are the uninitialised position and bytes of the key.\<close>

definition new_IndexScan ::
  "Rid \<Rightarrow> (nat \<Rightarrow> u8) \<Rightarrow> string \<Rightarrow> Condition list \<Rightarrow> Condition list \<Rightarrow> string list \<Rightarrow> txn_id_t \<Rightarrow> (Sys, IndexScanInfo \<times> IndexScan) stm" where
  "new_IndexScan rid0 junk tab conds idx_conds names i =
     bindE (find_table tab) (\<lambda>t.
     bindE (liftR (get_index_meta t names)) (\<lambda>m.
     bindE (at_table None tab (\<lambda>_. returnE ())) (\<lambda>_.
       if tm_cols t = [] then throwE OutOfRange else
     bindE (assertE (\<forall>d \<in> set conds. tc_tab_name (lhs_col d) = tab)) (\<lambda>_.
     returnE (\<lparr>xi_tab_name = tab, xi_tab = t, xi_conds = conds, xi_idx_conds = idx_conds, xi_index_col_names = names,
               xi_index_meta = m, xi_txn = i\<rparr>,
              \<lparr>xs_rid = rid0, xs_key = map junk [0..<nat (im_col_tot_len m)], xs_scan = None\<rparr>)))))"

section \<open>The range of the index\<close>

text \<open>\<^verbatim>\<open>memcpy\<close> of the buffer of a value into the key.\<close>

definition key_put :: "nat \<Rightarrow> Value \<Rightarrow> bytes \<Rightarrow> exc + bytes" where
  "key_put off v key =
     (case v_raw v of
        None \<Rightarrow> Inl NullDeref
      | Some raw \<Rightarrow> if off + length raw > length key then Inl OutOfRange else Inr (mem_put off raw key))"

text \<open>The leading equalities: their values are copied into the key one behind the other.\<close>

fun eq_prefix :: "Condition list \<Rightarrow> nat \<Rightarrow> bytes \<Rightarrow> exc + (nat \<times> nat \<times> bytes)" where
  "eq_prefix [] off key = Inr (0, off, key)"
| "eq_prefix (d # ds) off key =
     (if c_op d = OP_EQ then
        andThen (key_put off (rhs_val d) key) (\<lambda>key'.
        andThen (eq_prefix ds (off + length (the (v_raw (rhs_val d)))) key') (\<lambda>(k, off', key''). Inr (Suc k, off', key'')))
      else Inr (0, off, key))"

text \<open>
  The bounds of the conditions on the first other column, each with the flag for equality: a tighter bound replaces
  the one before.
\<close>

type_synonym bound = "(Value \<times> bool) option"

definition tighter :: "(val \<Rightarrow> val \<Rightarrow> bool) \<Rightarrow> CompOp \<Rightarrow> CompOp \<Rightarrow> Condition \<Rightarrow> bound \<Rightarrow> bound" where
  "tighter better op_incl op_excl d b =
     (case b of
        None \<Rightarrow> Some (rhs_val d, c_op d = op_incl)
      | Some (v, incl) \<Rightarrow>
          if better (v_val (rhs_val d)) (v_val v) \<or> val_eq (v_val (rhs_val d)) (v_val v) \<and> incl \<and> c_op d = op_excl
          then Some (rhs_val d, c_op d = op_incl) else b)"

fun range_bounds :: "string \<Rightarrow> Condition list \<Rightarrow> bound \<Rightarrow> bound \<Rightarrow> bound \<times> bound" where
  "range_bounds col [] lo hi = (lo, hi)"
| "range_bounds col (d # ds) lo hi =
     (if tc_col_name (lhs_col d) \<noteq> col then (lo, hi)
      else if c_op d = OP_GE \<or> c_op d = OP_GT then range_bounds col ds (tighter val_gt OP_GE OP_GT d lo) hi
      else if c_op d = OP_LE \<or> c_op d = OP_LT then range_bounds col ds lo (tighter val_lt OP_LE OP_LT d hi)
      else range_bounds col ds lo hi)"

definition empty_range :: "bound \<Rightarrow> bound \<Rightarrow> bool" where
  "empty_range lo hi \<longleftrightarrow>
     (case (lo, hi) of
        (Some (l, be), Some (u, le)) \<Rightarrow> val_gt (v_val l) (v_val u) \<or> val_eq (v_val l) (v_val u) \<and> \<not> (be \<and> le)
      | _ \<Rightarrow> False)"

text \<open>
  The positions where the scan begins and ends. For an empty range a finished scan is made, which the
  assignment after the branches replaces by one over the whole index.
\<close>

definition scan_range ::
  "nat \<Rightarrow> Condition list \<Rightarrow> bytes \<Rightarrow> int \<Rightarrow> (IxSys, (Rid \<times> Rid) \<times> bytes) stm" where
  "scan_range n conds key fd =
     bindE (getsE leaf_begin) (\<lambda>first.
     bindE (leaf_end fd) (\<lambda>last.
     bindE (liftR (eq_prefix conds 0 key)) (\<lambda>(k, off, key1).
       if k = length conds then
         bindE (ix_lower_bound n fd key1 k) (\<lambda>l.
         bindE (ix_upper_bound n fd key1 k) (\<lambda>u.
         returnE ((l, u), key1)))
       else
         case range_bounds (tc_col_name (lhs_col (conds ! k))) (drop k conds) None None of (lo, hi) \<Rightarrow>
           if empty_range lo hi then returnE ((first, last), key1)
           else
             bindE (case lo of
                      Some (v, be) \<Rightarrow>
                        bindE (liftR (key_put off v key1)) (\<lambda>key2.
                        bindE ((if be then ix_lower_bound else ix_upper_bound) n fd key2 (k + 1)) (\<lambda>l. returnE (l, key2)))
                    | None \<Rightarrow>
                        if k \<noteq> 0 then bindE (ix_lower_bound n fd key1 k) (\<lambda>l. returnE (l, key1)) else returnE (first, key1)) (\<lambda>(l, key2).
             bindE (case hi of
                      Some (v, le) \<Rightarrow>
                        bindE (liftR (key_put off v key2)) (\<lambda>key3.
                        bindE ((if le then ix_upper_bound else ix_lower_bound) n fd key3 (k + 1)) (\<lambda>u. returnE (u, key3)))
                    | None \<Rightarrow>
                        if k \<noteq> 0 then bindE (ix_upper_bound n fd key2 k) (\<lambda>u. returnE (u, key2)) else returnE (last, key2)) (\<lambda>(u, key3).
             returnE ((l, u), key3))))))"

section \<open>Walking the range\<close>

definition xs_index :: "IndexScanInfo \<Rightarrow> string" where
  "xs_index c = get_index_name (xi_tab_name c) (xi_index_col_names c)"

definition xs_test :: "IndexScanInfo \<Rightarrow> Rid \<Rightarrow> (Sys, bool) stm" where
  "xs_test c rid =
     bindE (at_table None (xi_tab_name c) (\<lambda>fd. get_record fd rid)) (\<lambda>rec.
     liftR (conds_hold (\<lambda>d. test_record d (tm_cols (xi_tab c)) rec) (xi_conds c)))"

definition xs_step :: "IndexScanInfo \<Rightarrow> IxScan \<Rightarrow> (IndexScan \<times> Sys, IxScan) stm" where
  "xs_step c p =
     bindE (in_env (at_index (xs_index c) (\<lambda>fd. IxScan_next fd p))) (\<lambda>p'.
     bindE (set_own (\<lambda>e. e\<lparr>xs_scan := Some p'\<rparr>)) (\<lambda>_. returnE p'))"

text \<open>From the current entry to the next record that satisfies the conditions.\<close>

partial_function (option) xs_loop :: "IndexScanInfo \<Rightarrow> IxScan \<Rightarrow> IndexScan \<times> Sys \<Rightarrow> ((exc + unit) \<times> (IndexScan \<times> Sys)) option" where
  "xs_loop c p st =
     (if IxScan_is_end p then Some (Inr (), st)
      else
        bindP (liftP (in_env (at_index (xs_index c) (\<lambda>fd. IxScan_rid fd p)))) (\<lambda>rid.
        bindP (liftP (in_env (xs_test c rid))) (\<lambda>ok st1.
          if ok then liftP (set_own (\<lambda>e. e\<lparr>xs_rid := rid\<rparr>)) st1
          else bindP (liftP (xs_step c p)) (xs_loop c) st1)) st)"

definition xs_beginTuple :: "nat \<Rightarrow> IndexScanInfo \<Rightarrow> (IndexScan \<times> Sys, unit) pstm" where
  "xs_beginTuple n c =
     bindP (liftP (in_env (lock_table_or_abort lock_shared_on_table GET_LOCK_FAILED (xi_tab_name c) (xi_txn c)))) (\<lambda>_.
     bindP (liftP (getsE (\<lambda>(e, s). xs_key e))) (\<lambda>key.
     bindP (liftP (in_env (at_index (xs_index c) (scan_range n (xi_idx_conds c) key)))) (\<lambda>((l, u), key').
     bindP (liftP (in_env (at_index (xs_index c) (\<lambda>fd. IxScan_init fd l u False)))) (\<lambda>p.
     bindP (liftP (set_own (\<lambda>e. e\<lparr>xs_key := key', xs_scan := Some p\<rparr>))) (\<lambda>_.
     bindP (liftP (in_env (at_index (xs_index c) (\<lambda>fd. IxScan_rid fd p)))) (\<lambda>_.
     xs_loop c p))))))"

definition xs_nextTuple :: "IndexScanInfo \<Rightarrow> (IndexScan \<times> Sys, unit) pstm" where
  "xs_nextTuple c =
     bindP (liftP (getsE (\<lambda>(e, s). xs_scan e))) (\<lambda>scan.
     bindP (liftP (deref scan)) (\<lambda>p.
     bindP (liftP (xs_step c p)) (\<lambda>p'. xs_loop c p')))"

definition xs_Next :: "IndexScanInfo \<Rightarrow> (IndexScan \<times> Sys, bytes) stm" where
  "xs_Next c =
     bindE (getsE (\<lambda>(e, s). xs_rid e)) (\<lambda>rid. in_env (at_table None (xi_tab_name c) (\<lambda>fd. get_record fd rid)))"

definition IndexScanExecutor :: "nat \<Rightarrow> IndexScanInfo \<Rightarrow> (IndexScan, Sys) Executor" where
  "IndexScanExecutor n c =
     \<lparr>x_beginTuple = xs_beginTuple n c, x_nextTuple = xs_nextTuple c,
      x_is_end = (\<lambda>e. case xs_scan e of None \<Rightarrow> Inl NullDeref | Some p \<Rightarrow> Inr (IxScan_is_end p)),
      x_Next = liftP (xs_Next c), x_cols = tm_cols (xi_tab c), x_tupleLen = Inl (Throw UnreachableCodeError)\<rparr>"

definition make_IndexScan ::
  "nat \<Rightarrow> Rid \<Rightarrow> (nat \<Rightarrow> u8) \<Rightarrow> string \<Rightarrow> Condition list \<Rightarrow> Condition list \<Rightarrow> string list \<Rightarrow> txn_id_t
    \<Rightarrow> (Sys, (IndexScan, Sys) Executor \<times> IndexScan) stm" where
  "make_IndexScan n rid0 junk tab conds idx_conds names i =
     bindE (new_IndexScan rid0 junk tab conds idx_conds names i) (\<lambda>(c, e). returnE (IndexScanExecutor n c, e))"

section \<open>What the range means\<close>

text \<open>Values of one type that the comparison operators order totally: no NaN, and datetimes within 64 bits.\<close>

fun orderly :: "ColType \<Rightarrow> val \<Rightarrow> bool" where
  "orderly ty (VFloat f) = (ty = TYPE_FLOAT \<and> \<not> float_nan f)"
| "orderly ty (VDatetime t) = (ty = TYPE_DATETIME \<and> 0 \<le> t \<and> t < 2 ^ 64)"
| "orderly ty v = (val_type v = ty)"

lemma val_lt_trans: "val_lt a b \<Longrightarrow> val_lt b c \<Longrightarrow> val_lt a c"
  by (cases a; cases b; cases c) (auto simp: float_lt_def intro: str_less_trans)

lemma val_lt_antisym: "val_lt a b \<Longrightarrow> \<not> val_lt b a"
  by (cases a; cases b) (auto simp: float_lt_def dest: str_less_antisym)

lemma val_eq_iff:
  assumes "orderly ty a" "orderly ty b"
  shows "val_eq a b \<longleftrightarrow> \<not> val_lt a b \<and> \<not> val_lt b a"
  using assms str_less_linear by (cases a; cases b) (auto simp: float_eq_def float_lt_def dest: str_less_antisym)

lemma val_lt_linear:
  assumes "orderly ty a" "orderly ty b" "orderly ty c" "\<not> val_lt a b" "\<not> val_lt b c"
  shows "\<not> val_lt a c"
proof
  assume ac: "val_lt a c"
  have "val_eq a b \<or> val_lt b a" using assms val_eq_iff by blast
  moreover have "\<not> val_lt b a" using assms(5) ac val_lt_trans by blast
  ultimately have "val_eq a b" by blast
  then show False using ac assms by (cases a; cases b; cases c) (auto simp: float_eq_def float_lt_def dest: str_less_antisym)
qed

text \<open>All instances of these laws for three values, for propositional proofs.\<close>

lemma three_values:
  assumes "orderly ty a" "orderly ty b" "orderly ty c"
  shows "val_lt a b \<longrightarrow> val_lt a c \<or> val_lt c b" "val_lt b a \<longrightarrow> val_lt b c \<or> val_lt c a"
    "val_lt a c \<longrightarrow> val_lt a b \<or> val_lt b c" "val_lt c a \<longrightarrow> val_lt c b \<or> val_lt b a"
    "val_lt b c \<longrightarrow> val_lt b a \<or> val_lt a c" "val_lt c b \<longrightarrow> val_lt c a \<or> val_lt a b"
    "\<not> (val_lt a b \<and> val_lt b a)" "\<not> (val_lt a c \<and> val_lt c a)" "\<not> (val_lt b c \<and> val_lt c b)"
    "val_eq a b \<longleftrightarrow> \<not> val_lt a b \<and> \<not> val_lt b a"
  using assms val_lt_linear val_eq_iff by (blast dest: val_lt_antisym)+

text \<open>A value within the bounds.\<close>

definition above :: "bound \<Rightarrow> val \<Rightarrow> bool" where
  "above lo x = (case lo of None \<Rightarrow> True | Some (v, incl) \<Rightarrow> if incl then val_ge x (v_val v) else val_gt x (v_val v))"

definition below :: "bound \<Rightarrow> val \<Rightarrow> bool" where
  "below hi x = (case hi of None \<Rightarrow> True | Some (v, incl) \<Rightarrow> if incl then val_le x (v_val v) else val_lt x (v_val v))"

definition bound_ok :: "ColType \<Rightarrow> bound \<Rightarrow> bool" where
  "bound_ok ty b = (case b of None \<Rightarrow> True | Some (v, incl) \<Rightarrow> orderly ty (v_val v))"

lemmas val_order = val_gt_lt val_ge_def val_le_def

lemma tighter_above:
  assumes "orderly ty x" "orderly ty (v_val (rhs_val d))" "bound_ok ty lo" "c_op d = OP_GE \<or> c_op d = OP_GT"
  shows "above (tighter val_gt OP_GE OP_GT d lo) x \<longleftrightarrow> above lo x \<and> comp_test (c_op d) x (v_val (rhs_val d))"
proof (cases lo)
  case None
  then show ?thesis using assms(4) by (auto simp: above_def tighter_def)
next
  case (Some p)
  obtain v incl where p: "p = (v, incl)" by (cases p)
  have v: "orderly ty (v_val v)" using assms(3) by (simp add: Some p bound_ok_def)
  show ?thesis
  proof (cases incl)
    case True
    then show ?thesis using assms(4) three_values [OF assms(2) v assms(1)]
      by (elim disjE) (simp_all add: above_def tighter_def Some p val_order, blast+)
  next
    case False
    then show ?thesis using assms(4) three_values [OF assms(2) v assms(1)]
      by (elim disjE) (simp_all add: above_def tighter_def Some p val_order, blast+)
  qed
qed

lemma tighter_below:
  assumes "orderly ty x" "orderly ty (v_val (rhs_val d))" "bound_ok ty hi" "c_op d = OP_LE \<or> c_op d = OP_LT"
  shows "below (tighter val_lt OP_LE OP_LT d hi) x \<longleftrightarrow> below hi x \<and> comp_test (c_op d) x (v_val (rhs_val d))"
proof (cases hi)
  case None
  then show ?thesis using assms(4) by (auto simp: below_def tighter_def)
next
  case (Some p)
  obtain v incl where p: "p = (v, incl)" by (cases p)
  have v: "orderly ty (v_val v)" using assms(3) by (simp add: Some p bound_ok_def)
  show ?thesis
  proof (cases incl)
    case True
    then show ?thesis using assms(4) three_values [OF assms(2) v assms(1)]
      by (elim disjE) (simp_all add: below_def tighter_def Some p val_order, blast+)
  next
    case False
    then show ?thesis using assms(4) three_values [OF assms(2) v assms(1)]
      by (elim disjE) (simp_all add: below_def tighter_def Some p val_order, blast+)
  qed
qed

lemma tighter_ok: "orderly ty (v_val (rhs_val d)) \<Longrightarrow> bound_ok ty b \<Longrightarrow> bound_ok ty (tighter f p q d b)"
  by (auto simp: tighter_def bound_ok_def split: option.splits)

lemma range_bounds_ok:
  assumes "\<forall>d \<in> set ds. orderly ty (v_val (rhs_val d))" "bound_ok ty lo" "bound_ok ty hi" "range_bounds col ds lo hi = (lo', hi')"
  shows "bound_ok ty lo' \<and> bound_ok ty hi'"
  using assms
proof (induction ds arbitrary: lo hi)
  case (Cons d ds)
  have d: "orderly ty (v_val (rhs_val d))" and ds: "\<forall>d \<in> set ds. orderly ty (v_val (rhs_val d))" using Cons.prems(1) by simp_all
  note ok = tighter_ok [OF d]
  show ?case using Cons.IH [OF ds] Cons.prems(2-4) ok by (simp split: if_splits) blast+
qed auto

lemma range_bounds_exact_from:
  assumes "orderly ty x" "\<forall>d \<in> set ds. tc_col_name (lhs_col d) = col \<and> orderly ty (v_val (rhs_val d)) \<and> c_op d \<in> {OP_GE, OP_GT, OP_LE, OP_LT}"
    and "bound_ok ty lo" "bound_ok ty hi" "range_bounds col ds lo hi = (lo', hi')"
  shows "above lo' x \<and> below hi' x \<longleftrightarrow> above lo x \<and> below hi x \<and> (\<forall>d \<in> set ds. comp_test (c_op d) x (v_val (rhs_val d)))"
  using assms
proof (induction ds arbitrary: lo hi)
  case (Cons d ds)
  note ok = tighter_ok [of ty d]
  have d: "orderly ty (v_val (rhs_val d))" "tc_col_name (lhs_col d) = col" "c_op d \<in> {OP_GE, OP_GT, OP_LE, OP_LT}"
    and ds: "\<forall>d \<in> set ds. tc_col_name (lhs_col d) = col \<and> orderly ty (v_val (rhs_val d)) \<and> c_op d \<in> {OP_GE, OP_GT, OP_LE, OP_LT}"
    using Cons.prems(2) by simp_all
  show ?case
  proof (cases "c_op d = OP_GE \<or> c_op d = OP_GT")
    case True
    have "range_bounds col ds (tighter val_gt OP_GE OP_GT d lo) hi = (lo', hi')" using Cons.prems(5) True d(2) by auto
    from Cons.IH [OF Cons.prems(1) ds ok [OF d(1) Cons.prems(3)] Cons.prems(4) this] show ?thesis
      using tighter_above [OF Cons.prems(1) d(1) Cons.prems(3) True] by auto
  next
    case False
    have le: "c_op d = OP_LE \<or> c_op d = OP_LT" using False d(3) by auto
    have "range_bounds col ds lo (tighter val_lt OP_LE OP_LT d hi) = (lo', hi')" using Cons.prems(5) le d(2) by auto
    from Cons.IH [OF Cons.prems(1) ds Cons.prems(3) ok [OF d(1) Cons.prems(4)] this] show ?thesis
      using tighter_below [OF Cons.prems(1) d(1) Cons.prems(4) le] by auto
  qed
qed auto

lemma empty_range_none:
  assumes "bound_ok ty lo" "bound_ok ty hi" "orderly ty x" "empty_range lo hi"
  shows "\<not> (above lo x \<and> below hi x)"
proof -
  obtain l bel u leq where b: "lo = Some (l, bel)" "hi = Some (u, leq)"
    using assms(4) by (auto simp: empty_range_def split: option.splits)
  have o: "orderly ty (v_val l)" "orderly ty (v_val u)" using assms(1,2) b by (auto simp: bound_ok_def)
  show ?thesis
    using assms(4) b three_values [OF o assms(3)]
    by (auto simp: empty_range_def above_def below_def val_order split: if_splits)
qed

text \<open>
  C39: whatever range conditions a query puts on one column, the two bounds that the index scan keeps
  accept exactly the values that satisfy all of them, and when the scan calls the range empty no value satisfies them.
\<close>

theorem index_range_exact:
  assumes "orderly ty x"
    and "\<forall>d \<in> set ds. tc_col_name (lhs_col d) = col \<and> orderly ty (v_val (rhs_val d)) \<and> c_op d \<in> {OP_GE, OP_GT, OP_LE, OP_LT}"
    and "range_bounds col ds None None = (lo, hi)"
  shows "(above lo x \<and> below hi x \<longleftrightarrow> (\<forall>d \<in> set ds. comp_test (c_op d) x (v_val (rhs_val d))))
    \<and> (empty_range lo hi \<longrightarrow> \<not> (\<forall>d \<in> set ds. comp_test (c_op d) x (v_val (rhs_val d))))"
proof -
  have n: "bound_ok ty None" "above None x" "below None x" by (simp_all add: bound_ok_def above_def below_def)
  have "\<forall>d \<in> set ds. orderly ty (v_val (rhs_val d))" using assms(2) by blast
  from range_bounds_ok [OF this n(1,1) assms(3)] have ok: "bound_ok ty lo" "bound_ok ty hi" by blast+
  show ?thesis using range_bounds_exact_from [OF assms(1,2) n(1,1) assms(3)] n(2,3) empty_range_none [OF ok assms(1)] by blast
qed

definition range_cond :: "CompOp \<Rightarrow> int \<Rightarrow> Condition" where
  "range_cond op k = \<lparr>lhs_col = \<lparr>tc_tab_name = ''t'', tc_col_name = ''a'', tc_has_agg = False, tc_aggregate_type = COUNT,
     tc_another_name = [], tc_agg_arg_col_name = []\<rparr>, c_op = op, is_rhs_val = True,
     rhs_col = \<lparr>tc_tab_name = [], tc_col_name = [], tc_has_agg = False, tc_aggregate_type = COUNT, tc_another_name = [],
     tc_agg_arg_col_name = []\<rparr>, rhs_val = \<lparr>v_val = VInt k, v_raw = None\<rparr>\<rparr>"

theorem index_range_exact_witness:
  "range_bounds ''a'' [range_cond OP_GE 3, range_cond OP_LT 9, range_cond OP_GT 3] None None
     = (Some (rhs_val (range_cond OP_GT 3), False), Some (rhs_val (range_cond OP_LT 9), False))
   \<and> above (Some (rhs_val (range_cond OP_GT 3), False)) (VInt 4) \<and> below (Some (rhs_val (range_cond OP_LT 9), False)) (VInt 4)"
  using index_range_exact [of TYPE_INT "VInt 4" "[range_cond OP_GE 3, range_cond OP_LT 9, range_cond OP_GT 3]" "''a''"
      "Some (rhs_val (range_cond OP_GT 3), False)" "Some (rhs_val (range_cond OP_LT 9), False)"]
  by (simp add: range_cond_def tighter_def val_order)

text \<open>
  An index scan has no length of its tuples: a join with one on either side and an external sort of one are never
  constructed, since they ask their input for it.
\<close>

lemma index_scan_not_joined:
  "NestedLoopJoinExecutor conds (IndexScanExecutor n c) R = Inl (Throw UnreachableCodeError)"
  "x_tupleLen L = Inr len \<Longrightarrow> NestedLoopJoinExecutor conds L (IndexScanExecutor n c) = Inl (Throw UnreachableCodeError)"
  "new_Sort srt (IndexScanExecutor n c) sel st = Some (Inl (Throw UnreachableCodeError), st)"
  by (simp_all add: NestedLoopJoinExecutor_def IndexScanExecutor_def andThen_def new_Sort_def bindP_def liftP_def liftR_def throwE_def)

end
