(* ===== verification/Spec2Isabelle.thy ===== *)
theory Spec2Isabelle
  imports Page_Cache Bitmap Lock_Manager Log_Manager Rm_Props Ix_Props Values_Props Txn_Props Sm_Props Recovery_Props Sort_Props Dml_Props Exec_IndexScan
begin

text \<open>
  \<^bold>\<open>A verification development for the relational database system RMDB.\<close>

  RMDB (the C++ sources under \<^verbatim>\<open>src/src\<close>) is a disk-based database server. A statement is parsed,
  analysed, planned and executed; executors read and change tables through the record manager and
  indexes through the index manager; both keep their pages in one buffer pool over the disk
  manager; a lock manager and a log manager serve the transactions. This development models the
  storage engine from the disk up to records and indexes, with locking, logging, the catalogue and
  the values of the query layer, and proves what each layer promises to the one above.

  \<^bold>\<open>Conventions.\<close> A C++ function that changes state and may throw is a function
  \<^verbatim>\<open>'s \<Rightarrow> (exc + 'a) \<times> 's\<close>: the result or the exception together with the state reached, since an
  exception does not undo earlier writes. \<^verbatim>\<open>exc\<close> has a constructor for every way to leave a function:
  the errors of \<^verbatim>\<open>errors.h\<close>, a transaction abort, a failed \<^verbatim>\<open>assert\<close>, a null pointer, an access outside
  an array, and a thread that locks a mutex it holds. Memory is a list of bytes; C integers are
  read from it and written to it in little-endian two's complement, and arithmetic that can overflow is
  wrapped explicitly. A \<^verbatim>\<open>Page *\<close> is the index of its frame. Mutexes and latches are not part of the
  state: each operation is one atomic step, as it is under its latch.

  \<^bold>\<open>Theories and sources.\<close>

  \<^item> \<open>Rmdb_Prelude\<close>: \<^verbatim>\<open>common/config.h\<close>, \<^verbatim>\<open>defs.h\<close>, \<^verbatim>\<open>errors.h\<close>; the sequencing of fallible code, byte buffers
    and integer encodings with the rewrite rules (\<open>mem_simps\<close>) all components use.
  \<^item> \<open>Bitmap\<close>: \<^verbatim>\<open>record/bitmap.h\<close>. Setting and clearing change one bit; \<^verbatim>\<open>next_bit\<close> finds the first one.
  \<^item> \<open>Replacer\<close>: \<^verbatim>\<open>replacer/\<close>. The list with the table of iterators refines a list of frames in order of
    use; the locale \<open>replacer\<close> is what the buffer pool relies on.
  \<^item> \<open>Disk\<close>: \<^verbatim>\<open>storage/disk_manager.cpp\<close> over a model of the POSIX calls it makes: files as byte lists and
    a table of descriptors with positions. Reading a page gives what was written to it.
  \<^item> \<open>Buffer_Pool\<close>: \<^verbatim>\<open>storage/buffer_pool_manager.cpp\<close>, with the invariant \<open>bp_ok\<close> and the abstraction
    \<open>content\<close> (the current bytes of every page). \<open>Page_Cache\<close>: the contract \<open>page_cache\<close> of the pool towards
    the file handles, its interpretation, and the properties of the pool: it refines a store of pages,
    flushing makes it durable, freeing and deleting pages lose nothing else.
  \<^item> \<open>Txn_Defs\<close>: \<^verbatim>\<open>transaction/txn_defs.h\<close> and \<^verbatim>\<open>transaction.h\<close>. \<open>Lock_Manager\<close>:
    \<^verbatim>\<open>transaction/concurrency/lock_manager.cpp\<close>; reachable lock tables grant compatible locks only, and two
    phases are enforced (with the exceptions the properties state).
  \<^item> \<open>Log_Record\<close>, \<open>Log_Manager\<close>: \<^verbatim>\<open>recovery/log_manager.{h,cpp}\<close>. Records survive serialization, the
    buffer holds what was appended, flushing appends it to the log file; a full buffer deadlocks.
  \<^item> \<open>Rm_File\<close> (definitions), \<open>Rm_Page\<close>, \<open>Rm_Table\<close>, \<open>Rm_Ops\<close>, \<open>Rm_Scan\<close>, \<open>Rm_Props\<close>: \<^verbatim>\<open>record/\<close>. A table file refines
    a finite map from record identifiers to records under insertion, deletion, update and
    reading, keeps its list of pages with free slots, and its scan visits every record once.
  \<^item> \<open>Ix_Node\<close> (one node), \<open>Ix_Key\<close> (the order of keys and the searches, locale \<open>key_search\<close>), \<open>Ix_Pairs\<close>
    (nodes as lists of pairs), \<open>Ix_Leaf\<close> (leaves as finite maps), \<open>Ix_Tree\<close> (the B+ tree and its scan),
    \<open>Ix_Manager\<close> (index files), \<open>Ix_Props\<close>: \<^verbatim>\<open>index/\<close>.
  \<^item> \<open>Sm_Meta\<close>, \<open>Sm_Meta_Text\<close>: \<^verbatim>\<open>system/sm_meta.h\<close>; the text form of the catalogue is read back
    (locale \<open>text_format\<close>).
  \<^item> \<open>Float32\<close>, \<open>Values\<close>, \<open>Values_Props\<close>: \<^verbatim>\<open>common/common.h\<close>; literals, dates, values and conditions.

  \<^bold>\<open>Loops and fuel.\<close> Loops with a bound are recursive functions with a termination proof. The loop of
  \<^verbatim>\<open>RmFileHandle::insert_record(rid, buf)\<close>, which may run forever, is a partial function to an option.
  Operations of the B+ tree that follow page numbers take the number of levels they may visit as
  fuel and end in \<open>OutOfFuel\<close> when it is too small: a tree has fewer levels than its file has
  pages, so the number of pages is always enough. The rounds of \<^verbatim>\<open>redistribute\<close> get the difference of
  the two sizes, which each round lowers by two; the loop of \<^verbatim>\<open>remove\<close> gets the number of pairs.

  \<^bold>\<open>Not modelled.\<close> The parser is generated by flex and bison from grammars; the server, the client and
  the formatting of replies are input and output. The transaction manager, recovery, the system
  manager, the analyser, the planner and the executors are the next parts to be modelled, on top of
  the components here; for the B+ tree the theorems so far are about single nodes.
\<close>

end
